(* ===== verification/Milli_Prelude.thy ===== *)
theory Milli_Prelude
  imports Main "HOL-Library.Word"
begin

unbundle bit_operations_syntax

text \<open>
  Shared vocabulary of the development: the crate's error type (\<^verbatim>\<open>src/error.rs\<close>), the outcome of
  a Rust call (\<open>res\<close>: a value, an error value, or a panic), indexing and slicing of byte
  buffers with their panics, unsigned machine arithmetic with its wrap-around, big-endian byte
  strings, and the contract \<open>wire_codec\<close> that every self-delimiting codec of the crate is
  an instance of.
\<close>

section \<open>Proof collections\<close>

named_theorems panic_free \<open>calls that cannot panic\<close>
named_theorems wire_simps \<open>reading back what was written\<close>
named_theorems inv_rules \<open>operations that keep a component's invariant\<close>

section \<open>Errors\<close>

text \<open>\<^verbatim>\<open>TransportError\<close>, \<^verbatim>\<open>H3Error\<close>, \<^verbatim>\<open>H2Error\<close> and \<^verbatim>\<open>Error\<close>, constructor by constructor.\<close>

datatype transport_error =
    NoError | InternalError | ConnectionRefused | FlowControlError | StreamLimitError
  | StreamStateError | FinalSizeError | FrameEncodingError | TransportParameterError
  | ConnectionIdLimitError | ProtocolViolation | InvalidToken | ApplicationError
  | CryptoBufferExceeded | KeyUpdateError | AeadLimitReached | NoViablePath
  | VersionNegotiationError

datatype h3_error =
    NoError | GeneralProtocolError | InternalError | StreamCreationError
  | ClosedCriticalStream | FrameUnexpected | FrameError | ExcessiveLoad | IdError
  | SettingsError | MissingSettings | RequestRejected | RequestCancelled
  | RequestIncomplete | MessageError | ConnectError | VersionFallback
  | QpackDecompressionFailed | QpackEncoderStreamError | QpackDecoderStreamError

datatype h2_error =
    NoError | ProtocolError | InternalError | FlowControlError | SettingsTimeout
  | StreamClosed | FrameSizeError | RefusedStream | Cancel | CompressionError
  | ConnectError | EnhanceYourCalm | InadequateSecurity | Http11Required

datatype error =
    Transport transport_error
  | Http3 h3_error
  | Http2 h2_error
  | Crypto
  | Tls
  | BufferTooSmall nat
  | OutOfMemory
  | StreamLimitExhausted
  | Closed
  | WouldBlock
  | InvalidState
  | HandshakePoolExhausted
  | TooManyHeaders

text \<open>The wire codes.\<close>

primrec transport_to_code :: "transport_error \<Rightarrow> nat" where
  "transport_to_code transport_error.NoError = 0x00"
| "transport_to_code transport_error.InternalError = 0x01"
| "transport_to_code ConnectionRefused = 0x02"
| "transport_to_code transport_error.FlowControlError = 0x03"
| "transport_to_code StreamLimitError = 0x04"
| "transport_to_code StreamStateError = 0x05"
| "transport_to_code FinalSizeError = 0x06"
| "transport_to_code FrameEncodingError = 0x07"
| "transport_to_code TransportParameterError = 0x08"
| "transport_to_code ConnectionIdLimitError = 0x09"
| "transport_to_code ProtocolViolation = 0x0a"
| "transport_to_code InvalidToken = 0x0b"
| "transport_to_code ApplicationError = 0x0c"
| "transport_to_code CryptoBufferExceeded = 0x0d"
| "transport_to_code KeyUpdateError = 0x0e"
| "transport_to_code AeadLimitReached = 0x0f"
| "transport_to_code NoViablePath = 0x10"
| "transport_to_code VersionNegotiationError = 0x11"

definition transport_from_code :: "nat \<Rightarrow> transport_error option" where
  "transport_from_code code =
    (if code = 0x00 then Some transport_error.NoError
     else if code = 0x01 then Some transport_error.InternalError
     else if code = 0x02 then Some ConnectionRefused
     else if code = 0x03 then Some transport_error.FlowControlError
     else if code = 0x04 then Some StreamLimitError
     else if code = 0x05 then Some StreamStateError
     else if code = 0x06 then Some FinalSizeError
     else if code = 0x07 then Some FrameEncodingError
     else if code = 0x08 then Some TransportParameterError
     else if code = 0x09 then Some ConnectionIdLimitError
     else if code = 0x0a then Some ProtocolViolation
     else if code = 0x0b then Some InvalidToken
     else if code = 0x0c then Some ApplicationError
     else if code = 0x0d then Some CryptoBufferExceeded
     else if code = 0x0e then Some KeyUpdateError
     else if code = 0x0f then Some AeadLimitReached
     else if code = 0x10 then Some NoViablePath
     else if code = 0x11 then Some VersionNegotiationError
     else None)"

definition crypto_error :: "8 word \<Rightarrow> nat" where
  "crypto_error alert_code = 0x0100 + unat alert_code"

primrec h2_to_code :: "h2_error \<Rightarrow> nat" where
  "h2_to_code h2_error.NoError = 0x0"
| "h2_to_code ProtocolError = 0x1"
| "h2_to_code h2_error.InternalError = 0x2"
| "h2_to_code h2_error.FlowControlError = 0x3"
| "h2_to_code SettingsTimeout = 0x4"
| "h2_to_code StreamClosed = 0x5"
| "h2_to_code FrameSizeError = 0x6"
| "h2_to_code RefusedStream = 0x7"
| "h2_to_code Cancel = 0x8"
| "h2_to_code CompressionError = 0x9"
| "h2_to_code h2_error.ConnectError = 0xa"
| "h2_to_code EnhanceYourCalm = 0xb"
| "h2_to_code InadequateSecurity = 0xc"
| "h2_to_code Http11Required = 0xd"

definition h2_from_code :: "nat \<Rightarrow> h2_error option" where
  "h2_from_code code =
    (if code = 0x0 then Some h2_error.NoError
     else if code = 0x1 then Some ProtocolError
     else if code = 0x2 then Some h2_error.InternalError
     else if code = 0x3 then Some h2_error.FlowControlError
     else if code = 0x4 then Some SettingsTimeout
     else if code = 0x5 then Some StreamClosed
     else if code = 0x6 then Some FrameSizeError
     else if code = 0x7 then Some RefusedStream
     else if code = 0x8 then Some Cancel
     else if code = 0x9 then Some CompressionError
     else if code = 0xa then Some h2_error.ConnectError
     else if code = 0xb then Some EnhanceYourCalm
     else if code = 0xc then Some InadequateSecurity
     else if code = 0xd then Some Http11Required
     else None)"

primrec h3_to_code :: "h3_error \<Rightarrow> nat" where
  "h3_to_code h3_error.NoError = 0x0100"
| "h3_to_code GeneralProtocolError = 0x0101"
| "h3_to_code h3_error.InternalError = 0x0102"
| "h3_to_code StreamCreationError = 0x0103"
| "h3_to_code ClosedCriticalStream = 0x0104"
| "h3_to_code FrameUnexpected = 0x0105"
| "h3_to_code FrameError = 0x0106"
| "h3_to_code ExcessiveLoad = 0x0107"
| "h3_to_code IdError = 0x0108"
| "h3_to_code SettingsError = 0x0109"
| "h3_to_code MissingSettings = 0x010a"
| "h3_to_code RequestRejected = 0x010b"
| "h3_to_code RequestCancelled = 0x010c"
| "h3_to_code RequestIncomplete = 0x010d"
| "h3_to_code MessageError = 0x010e"
| "h3_to_code h3_error.ConnectError = 0x010f"
| "h3_to_code VersionFallback = 0x0110"
| "h3_to_code QpackDecompressionFailed = 0x0200"
| "h3_to_code QpackEncoderStreamError = 0x0201"
| "h3_to_code QpackDecoderStreamError = 0x0202"

section \<open>Outcomes of Rust calls\<close>

text \<open>
  A call returns \<open>Ok\<close> with its value, \<open>Err\<close> with an error of the crate, or panics
  (an index or a slice out of range).
\<close>

datatype 'a res = Ok 'a | Err error | Panic

primrec res_bind :: "'a res \<Rightarrow> ('a \<Rightarrow> 'b res) \<Rightarrow> 'b res" where
  "res_bind (Ok x) f = f x"
| "res_bind (Err e) f = Err e"
| "res_bind Panic f = Panic"

primrec map_err :: "(error \<Rightarrow> error) \<Rightarrow> 'a res \<Rightarrow> 'a res" where
  "map_err f (Ok x) = Ok x"
| "map_err f (Err e) = Err (f e)"
| "map_err f Panic = Panic"

primrec ok_or :: "'a option \<Rightarrow> error \<Rightarrow> 'a res" where
  "ok_or (Some x) e = Ok x"
| "ok_or None e = Err e"

lemma res_bind_eq_Ok: "res_bind m f = Ok y \<longleftrightarrow> (\<exists>x. m = Ok x \<and> f x = Ok y)"
  by (cases m) auto

lemma res_bind_eq_Panic: "res_bind m f = Panic \<longleftrightarrow> m = Panic \<or> (\<exists>x. m = Ok x \<and> f x = Panic)"
  by (cases m) auto

lemma res_bind_cong [fundef_cong]:
  "m = m' \<Longrightarrow> (\<And>x. m' = Ok x \<Longrightarrow> f x = f' x) \<Longrightarrow> res_bind m f = res_bind m' f'"
  by (cases m') auto

lemma res_bind_assoc: "res_bind (res_bind m f) g = res_bind m (\<lambda>x. res_bind (f x) g)"
  by (cases m) auto

lemma map_err_eq_Ok [simp]: "map_err f m = Ok y \<longleftrightarrow> m = Ok y"
  by (cases m) auto

lemma map_err_eq_Panic [simp]: "map_err f m = Panic \<longleftrightarrow> m = Panic"
  by (cases m) auto

lemma ok_or_eq_Ok [simp]: "ok_or m e = Ok y \<longleftrightarrow> m = Some y"
  by (cases m) auto

lemma ok_or_not_Panic [simp]: "ok_or m e \<noteq> Panic"
  by (cases m) auto

lemma res_bind_no_panic [panic_free]:
  "m \<noteq> Panic \<Longrightarrow> (\<And>x. m = Ok x \<Longrightarrow> f x \<noteq> Panic) \<Longrightarrow> res_bind m f \<noteq> Panic"
  by (cases m) auto

text \<open>The next step of a call that also changes a state, with the errors of the previous one passed on.\<close>

fun sbind :: "'s \<times> 'a res \<Rightarrow> ('s \<Rightarrow> 'a \<Rightarrow> 's \<times> 'b res) \<Rightarrow> 's \<times> 'b res" where
  "sbind (s, Ok x) f = f s x"
| "sbind (s, Err e) f = (s, Err e)"
| "sbind (s, Panic) f = (s, Panic)"

lemma sbind_cong [fundef_cong]:
  "p = p' \<Longrightarrow> (\<And>s x. p' = (s, Ok x) \<Longrightarrow> f s x = f' s x) \<Longrightarrow> sbind p f = sbind p' f'"
  by (cases p') (auto elim: res.exhaust split: res.splits, metis res.exhaust sbind.simps)

lemma sbind_eq_Ok: "sbind p f = (s', Ok y) \<longleftrightarrow> (\<exists>s x. p = (s, Ok x) \<and> f s x = (s', Ok y))"
  by (cases p; cases "snd p") auto

text \<open>\<^verbatim>\<open>.is_ok()\<close> and \<^verbatim>\<open>let _ =\<close> on a result: an error is not passed on.\<close>

fun attempt :: "'s \<times> 'a res \<Rightarrow> 's \<times> bool res" where
  "attempt (s, Ok x) = (s, Ok True)"
| "attempt (s, Err e) = (s, Ok False)"
| "attempt (s, Panic) = (s, Panic)"

text \<open>
  A call does not panic, and establishes \<open>Q\<close> of its value and the new state when it succeeds and \<open>E\<close> of
  the new state when it fails.
\<close>

definition post :: "('a \<Rightarrow> 's \<Rightarrow> bool) \<Rightarrow> ('s \<Rightarrow> bool) \<Rightarrow> 's \<times> 'a res \<Rightarrow> bool" where
  "post Q E p \<longleftrightarrow> (case snd p of Ok x \<Rightarrow> Q x (fst p) | Err e \<Rightarrow> E (fst p) | Panic \<Rightarrow> False)"

lemma post_simps [simp]:
  "post Q E (s, Ok x) \<longleftrightarrow> Q x s" "post Q E (s, Err e) \<longleftrightarrow> E s" "\<not> post Q E (s, Panic)"
  by (simp_all add: post_def)

lemma post_sbind:
  assumes "post Q' E p" and "\<And>x s. Q' x s \<Longrightarrow> post Q E (f s x)"
  shows "post Q E (sbind p f)"
  using assms by (cases p; cases "snd p") (auto simp: post_def)

lemma post_mono: "post Q E p \<Longrightarrow> (\<And>x s. Q x s \<Longrightarrow> Q' x s) \<Longrightarrow> (\<And>s. E s \<Longrightarrow> E' s) \<Longrightarrow> post Q' E' p"
  by (cases p; cases "snd p") (auto simp: post_def)

lemma post_conj: "post Q E p \<Longrightarrow> post Q' E' p \<Longrightarrow> post (\<lambda>x s. Q x s \<and> Q' x s) (\<lambda>s. E s \<and> E' s) p"
  by (cases p; cases "snd p") (auto simp: post_def)

lemma post_lift:
  assumes "r \<noteq> Panic" and "E s" and "\<And>x. r = Ok x \<Longrightarrow> post Q E (f s x)"
  shows "post Q E (sbind (s, r) f)"
  using assms by (cases r) auto

lemma post_attempt: "post (\<lambda>_. P) P p \<Longrightarrow> post (\<lambda>_. P) E (attempt p)"
  by (cases p; cases "snd p") auto

lemma post_if: "(b \<Longrightarrow> post Q E p) \<Longrightarrow> (\<not> b \<Longrightarrow> post Q E q) \<Longrightarrow> post Q E (if b then p else q)"
  by simp

section \<open>Machine integers\<close>

text \<open>
  Unsigned machine integers are naturals, and every operation that can leave the range of its
  type writes the wrap-around of the release build out; \<open>saturating_sub\<close> is the
  subtraction of \<open>nat\<close>. A byte is an \<open>8 word\<close>, since the codecs work on its bits.
  The width of \<^verbatim>\<open>usize\<close> is a parameter \<open>uw\<close> where the code casts a 62-bit length to it: the
  crate targets both 32-bit microcontrollers and 64-bit hosts.
\<close>

type_synonym byte = "8 word"
type_synonym bytes = "8 word list"

abbreviation u64_MAX :: nat where
  "u64_MAX \<equiv> 2 ^ 64 - 1"

definition u64_add :: "nat \<Rightarrow> nat \<Rightarrow> nat" where
  "u64_add a b = (a + b) mod 2 ^ 64"

definition u64_mul :: "nat \<Rightarrow> nat \<Rightarrow> nat" where
  "u64_mul a b = (a * b) mod 2 ^ 64"

definition as_usize :: "nat \<Rightarrow> nat \<Rightarrow> nat" where
  "as_usize uw v = v mod 2 ^ uw"

definition usize_add :: "nat \<Rightarrow> nat \<Rightarrow> nat \<Rightarrow> nat" where
  "usize_add uw a b = (a + b) mod 2 ^ uw"

definition u64_sub :: "nat \<Rightarrow> nat \<Rightarrow> nat" where
  "u64_sub a b = (a + (2 ^ 64 - b)) mod 2 ^ 64"

lemma u64_sub_exact [simp]:
  assumes "b \<le> a" and "a < 2 ^ 64"
  shows "u64_sub a b = a - b"
proof -
  have "a + (2 ^ 64 - b) = (a - b) + 2 ^ 64" using assms by linarith
  moreover have "a - b < 2 ^ 64" using assms by simp
  ultimately show ?thesis unfolding u64_sub_def by (metis mod_add_self2 mod_less)
qed

lemma u64_add_exact [simp]: "a + b < 2 ^ 64 \<Longrightarrow> u64_add a b = a + b"
  by (simp add: u64_add_def)

lemma u64_mul_exact [simp]: "a * b < 2 ^ 64 \<Longrightarrow> u64_mul a b = a * b"
  by (simp add: u64_mul_def)

lemma u64_add_bound: "u64_add a b < 2 ^ 64"
  by (simp add: u64_add_def)

lemma as_usize_exact [simp]: "v < 2 ^ uw \<Longrightarrow> as_usize uw v = v"
  by (simp add: as_usize_def)

lemma usize_add_exact [simp]: "a + b < 2 ^ uw \<Longrightarrow> usize_add uw a b = a + b"
  by (simp add: usize_add_def)

lemma as_usize_le: "as_usize uw v \<le> v"
  by (simp add: as_usize_def)

text \<open>A byte-string literal.\<close>

definition ascii :: "string \<Rightarrow> bytes" where
  "ascii s = map (\<lambda>c. word_of_nat (of_char c)) s"

section \<open>Buffers\<close>

definition idx :: "'a list \<Rightarrow> nat \<Rightarrow> 'a res" where
  "idx buf i = (if i < length buf then Ok (buf ! i) else Panic)"

definition idxs :: "'a list \<Rightarrow> nat list \<Rightarrow> 'a list res" where
  "idxs buf is = (if (\<forall>i \<in> set is. i < length buf) then Ok (map ((!) buf) is) else Panic)"

text \<open>\<^verbatim>\<open>&buf[a..b]\<close> and \<^verbatim>\<open>&buf[a..]\<close>.\<close>

definition slice :: "'a list \<Rightarrow> nat \<Rightarrow> nat \<Rightarrow> 'a list res" where
  "slice buf a b = (if a \<le> b \<and> b \<le> length buf then Ok (take (b - a) (drop a buf)) else Panic)"

definition slice_from :: "'a list \<Rightarrow> nat \<Rightarrow> 'a list res" where
  "slice_from buf a = (if a \<le> length buf then Ok (drop a buf) else Panic)"

text \<open>\<^verbatim>\<open>buf[pos..pos + data.len()].copy_from_slice(data)\<close>.\<close>

definition copy_at :: "'a list \<Rightarrow> nat \<Rightarrow> 'a list \<Rightarrow> 'a list res" where
  "copy_at buf pos data =
     (if pos + length data \<le> length buf
      then Ok (take pos buf @ data @ drop (pos + length data) buf) else Panic)"

text \<open>A writer that is given \<^verbatim>\<open>&mut buf[offset..]\<close> and returns the number of bytes it wrote there.\<close>

definition write_from :: "nat \<Rightarrow> 'a list \<Rightarrow> ('a list \<Rightarrow> ('a list \<times> nat) res) \<Rightarrow> ('a list \<times> nat) res" where
  "write_from offset buf f =
     res_bind (slice_from buf offset) (\<lambda>s.
     res_bind (f s) (\<lambda>(s', n). Ok (take offset buf @ s', offset + n)))"

lemma idx_Ok [simp]: "i < length buf \<Longrightarrow> idx buf i = Ok (buf ! i)"
  by (simp add: idx_def)

lemma slice_Ok [simp]:
  "a \<le> b \<Longrightarrow> b \<le> length buf \<Longrightarrow> slice buf a b = Ok (take (b - a) (drop a buf))"
  by (simp add: slice_def)

lemma slice_from_Ok [simp]: "a \<le> length buf \<Longrightarrow> slice_from buf a = Ok (drop a buf)"
  by (simp add: slice_from_def)

lemma copy_at_Ok [simp]:
  "pos + length data \<le> length buf \<Longrightarrow>
   copy_at buf pos data = Ok (take pos buf @ data @ drop (pos + length data) buf)"
  by (simp add: copy_at_def)

lemma idx_eq_Ok: "idx buf i = Ok x \<longleftrightarrow> i < length buf \<and> x = buf ! i"
  by (auto simp: idx_def)

lemma idx_eq_Panic: "idx buf i = Panic \<longleftrightarrow> \<not> i < length buf"
  by (auto simp: idx_def)

lemma slice_eq_Panic: "slice buf a b = Panic \<longleftrightarrow> \<not> (a \<le> b \<and> b \<le> length buf)"
  by (auto simp: slice_def)

lemma slice_from_eq_Panic: "slice_from buf a = Panic \<longleftrightarrow> \<not> a \<le> length buf"
  by (auto simp: slice_from_def)

lemma slice_from_eq_Ok: "slice_from buf a = Ok s \<longleftrightarrow> a \<le> length buf \<and> s = drop a buf"
  by (auto simp: slice_from_def)

lemma slice_eq_Ok:
  "slice buf a b = Ok s \<longleftrightarrow> a \<le> b \<and> b \<le> length buf \<and> s = take (b - a) (drop a buf)"
  by (auto simp: slice_def)

lemmas buf_Panic = idx_eq_Panic slice_eq_Panic slice_from_eq_Panic
lemmas buf_Ok = idx_eq_Ok slice_eq_Ok slice_from_eq_Ok

lemma drop_eq_append_take:
  "drop pos buf = xs @ ys \<Longrightarrow> take (length xs) (drop pos buf) = xs"
  by simp

lemma drop_append_shift:
  "drop pos buf = xs @ ys \<Longrightarrow> drop (pos + length xs) buf = ys"
  by (metis add.commute append_eq_conv_conj drop_drop)

lemma length_of_drop_append:
  "drop pos buf = xs @ ys \<Longrightarrow> xs \<noteq> [] \<Longrightarrow> length buf = pos + length xs + length ys"
proof -
  assume eq: "drop pos buf = xs @ ys" and ne: "xs \<noteq> []"
  from eq have "length buf - pos = length xs + length ys"
    by (metis length_append length_drop)
  with ne show ?thesis by (cases xs) auto
qed

section \<open>Big-endian byte strings\<close>

text \<open>\<^verbatim>\<open>from_be_bytes\<close> and \<^verbatim>\<open>to_be_bytes\<close> at any width: \<open>be_bytes k v\<close> truncates to \<open>k\<close> bytes.\<close>

primrec be_nat :: "bytes \<Rightarrow> nat" where
  "be_nat [] = 0"
| "be_nat (b # bs) = unat b * 256 ^ length bs + be_nat bs"

primrec be_bytes :: "nat \<Rightarrow> nat \<Rightarrow> bytes" where
  "be_bytes 0 v = []"
| "be_bytes (Suc k) v = word_of_nat (v div 256 ^ k) # be_bytes k v"

lemma unat_byte_bound [simp]: "unat (b :: byte) < 256"
  using unsigned_less [of b] by simp

lemma unat_byte_of_nat: "unat (word_of_nat n :: byte) = n mod 256"
  by (simp add: unat_of_nat)

lemma length_be_bytes [simp]: "length (be_bytes k v) = k"
  by (induction k) auto

lemma be_bytes_numeral [simp]:
  "be_bytes (numeral k) v
     = word_of_nat (v div 256 ^ pred_numeral k) # be_bytes (pred_numeral k) v"
  by (simp add: numeral_eq_Suc)

lemma drop_be_bytes: "drop j (be_bytes (j + k) v) = be_bytes k v"
  by (induction j) auto

lemma be_nat_bound: "be_nat bs < 256 ^ length bs"
proof (induction bs)
  case (Cons b bs)
  have "unat b * 256 ^ length bs + be_nat bs < unat b * 256 ^ length bs + 256 ^ length bs"
    using Cons.IH by simp
  also have "\<dots> = Suc (unat b) * 256 ^ length bs" by simp
  also have "\<dots> \<le> 256 * 256 ^ length bs"
    by (intro mult_le_mono1) (use unat_byte_bound [of b] in linarith)
  finally show ?case by simp
qed simp

lemma be_nat_be_bytes: "be_nat (be_bytes k v) = v mod 256 ^ k"
proof (induction k)
  case (Suc k)
  have "v mod 256 ^ Suc k = 256 ^ k * (v div 256 ^ k mod 256) + v mod 256 ^ k"
    by (metis mod_mult2_eq mult.commute power_Suc)
  with Suc.IH show ?case by (simp add: unat_byte_of_nat mult.commute)
qed simp

lemma be_bytes_mod: "be_bytes k (v + c * 256 ^ k) = be_bytes k v"
proof -
  have "be_bytes j (v + c * 256 ^ k) = be_bytes j v" if "j \<le> k" for j
    using that
  proof (induction j)
    case (Suc j)
    obtain d where k: "k = Suc j + d" using Suc.prems le_Suc_ex by blast
    have "(v + c * 256 ^ k) div 256 ^ j = v div 256 ^ j + 256 * (c * 256 ^ d)"
    proof -
      have "v + c * 256 ^ k = v + 256 ^ j * (256 * (c * 256 ^ d))"
        by (simp add: k power_add mult.assoc mult.left_commute)
      then show ?thesis by (simp only: div_mult_self2 [OF power_not_zero] add.commute)
    qed
    then have "word_of_nat ((v + c * 256 ^ k) div 256 ^ j) = (word_of_nat (v div 256 ^ j) :: byte)"
      by (metis mod_mult_self2 unat_byte_of_nat word_unat_eq_iff)
    with Suc show ?case by simp
  qed simp
  then show ?thesis by simp
qed

lemma be_bytes_be_nat: "be_bytes (length bs) (be_nat bs) = bs"
proof (induction bs)
  case (Cons b bs)
  have "(unat b * 256 ^ length bs + be_nat bs) div 256 ^ length bs = unat b"
    using be_nat_bound [of bs] by simp
  moreover have "be_bytes (length bs) (unat b * 256 ^ length bs + be_nat bs) = bs"
    using Cons.IH be_bytes_mod [of "length bs" "be_nat bs" "unat b"] by (simp add: add.commute)
  ultimately show ?case by simp
qed simp

lemma be_nat_eqI: "length bs = length cs \<Longrightarrow> be_nat bs = be_nat cs \<Longrightarrow> bs = cs"
  by (metis be_bytes_be_nat)

text \<open>The tests of single bits of a byte.\<close>

lemma byte_high_bit: "(b :: byte) AND 0x80 = 0 \<longleftrightarrow> unat b < 128"
proof -
  have "(b AND 2 ^ 7 = 0) = (\<not> bit b 7)" by (rule and_exp_eq_0_iff_not_bit)
  moreover have "bit b 7 \<longleftrightarrow> odd (unat b div 2 ^ 7)"
    using bit_iff_odd [of "unat b" 7] by (simp add: bit_unsigned_iff)
  moreover have "unat b < 256" using unat_byte_bound [of b] by simp
  then have "unat b div 2 ^ 7 = (if 128 \<le> unat b then 1 else 0)"
    by (auto intro: div_nat_eqI)
  then have "odd (unat b div 2 ^ 7) \<longleftrightarrow> 128 \<le> unat b" by simp
  ultimately show ?thesis by auto
qed

lemma byte_low_bits: "unat ((b :: byte) AND 0x7f) = unat b mod 128"
proof -
  have "b AND 0x7f = take_bit 7 b"
    by (simp add: take_bit_eq_mask mask_eq_exp_minus_1)
  then show ?thesis by (simp add: take_bit_eq_mod unat_mod_distrib)
qed

section \<open>The contract of a self-delimiting codec\<close>

text \<open>
  The receive paths share one loop: while bytes are left, decode one item at the front and skip
  what it consumed. \<open>decode_all\<close> is that loop for any item decoder. An item that consumes nothing
  would make the loop run forever; it is mapped to \<open>Panic\<close>, and the laws of \<open>wire_parser\<close>
  exclude it.
\<close>

function decode_all :: "(bytes \<Rightarrow> ('a \<times> nat) res) \<Rightarrow> bytes \<Rightarrow> 'a list res" where
  "decode_all par bs =
     (if bs = [] then Ok []
      else res_bind (par bs) (\<lambda>(x, n).
        if n = 0 then Panic
        else res_bind (decode_all par (drop n bs)) (\<lambda>xs. Ok (x # xs))))"
  by pat_completeness auto
termination
  by (relation "measure (\<lambda>(par, bs). length bs)") auto

declare decode_all.simps [simp del]

text \<open>What every decoder promises: progress, staying inside the buffer, and no panic.\<close>

locale wire_parser =
  fixes par :: "bytes \<Rightarrow> ('a \<times> nat) res"
  assumes par_consumed: "par bs = Ok (x, n) \<Longrightarrow> 0 < n \<and> n \<le> length bs"
    and par_no_panic: "par bs \<noteq> Panic"
begin

lemma decode_all_no_panic: "decode_all par bs \<noteq> Panic"
proof (induction "length bs" arbitrary: bs rule: less_induct)
  case less
  have "decode_all par (drop n bs) \<noteq> Panic" if "par bs = Ok (x, n)" and "bs \<noteq> []" for x n
    using less par_consumed [OF that(1)] that(2) by simp
  then show ?case
    by (subst decode_all.simps)
       (auto simp: par_no_panic res_bind_eq_Panic dest: par_consumed split: if_splits)
qed

end

text \<open>
  A codec adds the encoder: decoding what was encoded returns the item and exactly its length,
  whatever follows in the buffer.
\<close>

locale wire_codec = wire_parser par
  for par :: "bytes \<Rightarrow> ('a \<times> nat) res" +
  fixes ser :: "'a \<Rightarrow> bytes"
    and wf :: "'a \<Rightarrow> bool"
  assumes par_ser: "wf x \<Longrightarrow> par (ser x @ rest) = Ok (x, length (ser x))"
begin

lemma ser_nonempty: "wf x \<Longrightarrow> ser x \<noteq> []"
  using par_consumed [OF par_ser [of x "[]"]] by auto

lemma ser_prefix_free:
  assumes "wf x" and "wf y" and "ser x @ r = ser y @ s"
  shows "x = y \<and> r = s"
proof -
  have "Ok (x, length (ser x)) = Ok (y, length (ser y))"
    using par_ser [OF assms(1), of r] par_ser [OF assms(2), of s] assms(3) by simp
  with assms(3) show ?thesis by simp
qed

lemma ser_inj: "wf x \<Longrightarrow> wf y \<Longrightarrow> ser x = ser y \<Longrightarrow> x = y"
  using ser_prefix_free [of x y "[]" "[]"] by simp

lemma decode_all_ser:
  assumes "list_all wf xs"
  shows "decode_all par (concat (map ser xs)) = Ok xs"
  using assms
proof (induction xs)
  case Nil
  show ?case by (simp add: decode_all.simps)
next
  case (Cons x xs)
  then have "wf x" and IH: "decode_all par (concat (map ser xs)) = Ok xs" by auto
  have "par (concat (map ser (x # xs))) = Ok (x, length (ser x))"
    using par_ser [OF \<open>wf x\<close>] by simp
  with ser_nonempty [OF \<open>wf x\<close>] IH show ?case
    by (subst decode_all.simps) simp
qed

end

section \<open>The contract of a table of streams\<close>

text \<open>
  The connection handlers find a stream by its id and mutate it in place. A table that does so
  is a finite map from ids to streams: replacing a stream changes the lookup at its own id only.
\<close>

locale keyed_store =
  fixes lookup :: "'s \<Rightarrow> nat \<Rightarrow> 'v option"
    and replace :: "'s \<Rightarrow> nat \<Rightarrow> 'v \<Rightarrow> 's"
    and key :: "'v \<Rightarrow> nat"
  assumes lookup_key: "lookup s k = Some v \<Longrightarrow> key v = k"
    and lookup_replace: "lookup s k = Some v \<Longrightarrow> key v' = k \<Longrightarrow>
      lookup (replace s k v') = (lookup s)(k \<mapsto> v')"
begin

lemma dom_replace: "lookup s k = Some v \<Longrightarrow> key v' = k \<Longrightarrow>
    dom (lookup (replace s k v')) = dom (lookup s)"
  by (auto simp: lookup_replace)

text \<open>A property of all streams survives when the new stream has it.\<close>

lemma replace_keeps:
  assumes "lookup s k = Some v" and "key v' = k" and "P v'"
    and "\<And>j w. lookup s j = Some w \<Longrightarrow> P w"
  shows "lookup (replace s k v') j = Some w \<Longrightarrow> P w"
  using assms by (auto simp: lookup_replace split: if_splits)

text \<open>Replacing two different streams commutes.\<close>

lemma replace_commute:
  assumes "lookup s j = Some v" and "lookup s k = Some w" and "j \<noteq> k"
    and "key v' = j" and "key w' = k"
  shows "lookup (replace (replace s j v') k w') = lookup (replace (replace s k w') j v')"
  using assms by (auto simp: lookup_replace fun_upd_twist)

end

text \<open>\<^verbatim>\<open>iter().position(p)\<close>.\<close>

fun position :: "('a \<Rightarrow> bool) \<Rightarrow> 'a list \<Rightarrow> nat option" where
  "position p [] = None"
| "position p (x # xs) = (if p x then Some 0 else map_option Suc (position p xs))"

lemma position_None: "position p xs = None \<longleftrightarrow> (\<forall>x \<in> set xs. \<not> p x)"
  by (induction xs) auto

lemma position_Some:
  "position p xs = Some i \<longleftrightarrow> i < length xs \<and> p (xs ! i) \<and> (\<forall>j < i. \<not> p (xs ! j))"
proof (induction xs arbitrary: i)
  case (Cons x xs)
  show ?case by (cases i) (auto simp: Cons.IH less_Suc_eq_0_disj)
qed simp

lemma position_SomeD:
  "position p xs = Some i \<Longrightarrow> i < length xs \<and> p (xs ! i) \<and> (\<forall>j < i. \<not> p (xs ! j))"
  by (simp add: position_Some)

lemma position_map: "position p xs = position (\<lambda>b. b) (map p xs)"
  by (induction xs) auto

lemma position_cong: "map p xs = map q ys \<Longrightarrow> position p xs = position q ys"
  by (metis position_map)

section \<open>The contract of a credit window\<close>

text \<open>
  Flow control is the same contract on every level of QUIC and of HTTP/2: bytes may be spent while
  credit is left, an attempt to spend more is an error that changes nothing, and a grant never
  takes credit away. The laws hold for amounts below \<open>cap\<close>, where the counters do not wrap.
\<close>

datatype credit_event = Spend nat | Grant nat

text \<open>A sequence of events on a window, and the bytes it accepted.\<close>

fun credit_run ::
  "('s \<Rightarrow> nat \<Rightarrow> 's \<times> unit res) \<Rightarrow> ('s \<Rightarrow> nat \<Rightarrow> 's) \<Rightarrow> 's \<Rightarrow> credit_event list \<Rightarrow> 's" where
  "credit_run spend grant s [] = s"
| "credit_run spend grant s (Spend n # es) = credit_run spend grant (fst (spend s n)) es"
| "credit_run spend grant s (Grant n # es) = credit_run spend grant (grant s n) es"

fun credit_accepted ::
  "('s \<Rightarrow> nat \<Rightarrow> 's \<times> unit res) \<Rightarrow> ('s \<Rightarrow> nat \<Rightarrow> 's) \<Rightarrow> 's \<Rightarrow> credit_event list \<Rightarrow> nat" where
  "credit_accepted spend grant s [] = 0"
| "credit_accepted spend grant s (Spend n # es) =
     (if snd (spend s n) = Ok () then n else 0) + credit_accepted spend grant (fst (spend s n)) es"
| "credit_accepted spend grant s (Grant n # es) = credit_accepted spend grant (grant s n) es"

text \<open>The credit the grants of the sequence added, and the side condition of its spends.\<close>

fun credit_granted ::
  "('s \<Rightarrow> int) \<Rightarrow> ('s \<Rightarrow> nat \<Rightarrow> 's \<times> unit res) \<Rightarrow> ('s \<Rightarrow> nat \<Rightarrow> 's) \<Rightarrow> 's \<Rightarrow>
   credit_event list \<Rightarrow> int" where
  "credit_granted avail spend grant s [] = 0"
| "credit_granted avail spend grant s (Spend n # es) =
     credit_granted avail spend grant (fst (spend s n)) es"
| "credit_granted avail spend grant s (Grant n # es) =
     (avail (grant s n) - avail s) + credit_granted avail spend grant (grant s n) es"

fun credit_ok ::
  "('s \<Rightarrow> nat \<Rightarrow> 's \<times> unit res) \<Rightarrow> ('s \<Rightarrow> nat \<Rightarrow> 's) \<Rightarrow> ('s \<Rightarrow> nat \<Rightarrow> bool) \<Rightarrow> 's \<Rightarrow>
   credit_event list \<Rightarrow> bool" where
  "credit_ok spend grant ok s [] = True"
| "credit_ok spend grant ok s (Spend n # es) \<longleftrightarrow>
     ok s n \<and> credit_ok spend grant ok (fst (spend s n)) es"
| "credit_ok spend grant ok s (Grant n # es) \<longleftrightarrow> credit_ok spend grant ok (grant s n) es"

locale credit_window =
  fixes avail :: "'s \<Rightarrow> int"
    and spend :: "'s \<Rightarrow> nat \<Rightarrow> 's \<times> unit res"
    and grant :: "'s \<Rightarrow> nat \<Rightarrow> 's"
    and ok :: "'s \<Rightarrow> nat \<Rightarrow> bool"
  assumes spend_fits: "ok s n \<Longrightarrow> int n \<le> avail s \<Longrightarrow>
      snd (spend s n) = Ok () \<and> avail (fst (spend s n)) = avail s - int n"
    and spend_exceeds: "ok s n \<Longrightarrow> avail s < int n \<Longrightarrow>
      (\<exists>e. snd (spend s n) = Err e) \<and> avail (fst (spend s n)) = avail s"
    and grant_raises: "avail s \<le> avail (grant s n)"
begin

lemma credit_conserved:
  assumes "credit_ok spend grant ok s es"
  shows "avail (credit_run spend grant s es) =
    avail s + credit_granted avail spend grant s es - int (credit_accepted spend grant s es)"
  using assms
proof (induction es arbitrary: s)
  case (Cons e es)
  then show ?case
  proof (cases e)
    case (Spend n)
    then show ?thesis
      using Cons spend_fits [of s n] spend_exceeds [of s n] by (cases "int n \<le> avail s") auto
  qed auto
qed simp

lemma credit_nonneg:
  assumes "credit_ok spend grant ok s es" and "0 \<le> avail s"
  shows "0 \<le> avail (credit_run spend grant s es)"
  using assms
proof (induction es arbitrary: s)
  case (Cons e es)
  then show ?case
  proof (cases e)
    case (Spend n)
    then show ?thesis
      using Cons spend_fits [of s n] spend_exceeds [of s n] by (cases "int n \<le> avail s") auto
  next
    case (Grant n)
    then show ?thesis using Cons grant_raises [of s n] by auto
  qed
qed simp

lemma never_overspent:
  assumes "credit_ok spend grant ok s es" and "0 \<le> avail s"
  shows "int (credit_accepted spend grant s es) \<le> avail s + credit_granted avail spend grant s es"
  using credit_conserved [OF assms(1)] credit_nonneg [OF assms] by linarith

end

end
