(* ===== verification/Varint.thy ===== *)
theory Varint
  imports Milli_Prelude
begin

unbundle bit_operations_syntax

text \<open>
  QUIC variable-length integers (\<^verbatim>\<open>src/varint.rs\<close>): \<open>varint_len\<close>, \<open>decode_varint\<close>,
  \<open>encode_varint\<close>. The reference encoding \<open>varint_bytes\<close> is the arithmetic one of RFC 9000
  section 16: the value in network byte order with the logarithm of the length in the two most
  significant bits. The theory proves that the encoder writes exactly that string, that the
  decoder inverts it on any buffer that starts with it, and what the decoder returns on every
  input; \<open>varint\<close> interprets the codec contract.
\<close>

section \<open>The code\<close>

definition MAX_VARINT :: nat where
  "MAX_VARINT = 2 ^ 62 - 1"

definition varint_len :: "nat \<Rightarrow> nat" where
  "varint_len value =
    (if value \<le> 63 then 1
     else if value \<le> 16383 then 2
     else if value \<le> 1073741823 then 4
     else 8)"

definition decode_varint :: "bytes \<Rightarrow> (nat \<times> nat) res" where
  "decode_varint buf =
    (if buf = [] then Err (BufferTooSmall 1)
     else
       let first = buf ! 0;
           len = 2 ^ unat (drop_bit 6 first)
       in if length buf < len then Err (BufferTooSmall len)
          else
            res_bind
              (if len = 1 then Ok (unat (first AND 0x3f))
               else if len = 2 then
                 res_bind (idxs buf [1]) (\<lambda>t. Ok (be_nat ((first AND 0x3f) # t)))
               else if len = 4 then
                 res_bind (idxs buf [1, 2, 3]) (\<lambda>t. Ok (be_nat ((first AND 0x3f) # t)))
               else if len = 8 then
                 res_bind (idxs buf [1, 2, 3, 4, 5, 6, 7])
                   (\<lambda>t. Ok (be_nat ((first AND 0x3f) # t)))
               else Panic)
              (\<lambda>value. Ok (value, len)))"

text \<open>The buffer is returned with the bytes written at its front.\<close>

definition encode_varint :: "nat \<Rightarrow> bytes \<Rightarrow> (bytes \<times> nat) res" where
  "encode_varint value buf =
    (if value > MAX_VARINT then Err (Transport transport_error.InternalError)
     else
       let len = varint_len value
       in if length buf < len then Err (BufferTooSmall len)
          else if len = 1 then Ok (buf[0 := word_of_nat value], len)
          else if len = 2 then
            let bs = be_bytes 2 (value mod 2 ^ 16)
            in Ok (buf[0 := bs ! 0 OR 0x40, 1 := bs ! 1], len)
          else if len = 4 then
            let bs = be_bytes 4 (value mod 2 ^ 32)
            in Ok (buf[0 := bs ! 0 OR 0x80, 1 := bs ! 1, 2 := bs ! 2, 3 := bs ! 3], len)
          else if len = 8 then
            let bs = be_bytes 8 value
            in Ok (buf[0 := bs ! 0 OR 0xc0, 1 := bs ! 1, 2 := bs ! 2, 3 := bs ! 3,
                       4 := bs ! 4, 5 := bs ! 5, 6 := bs ! 6, 7 := bs ! 7], len)
          else Panic)"

section \<open>The reference encoding\<close>

definition varint_log :: "nat \<Rightarrow> nat" where
  "varint_log value =
    (if value \<le> 63 then 0 else if value \<le> 16383 then 1 else if value \<le> 1073741823 then 2 else 3)"

definition varint_bytes :: "nat \<Rightarrow> bytes" where
  "varint_bytes value =
     be_bytes (2 ^ varint_log value) (value + varint_log value * 2 ^ (8 * 2 ^ varint_log value - 2))"

lemma varint_len_log: "varint_len v = 2 ^ varint_log v"
  by (simp add: varint_len_def varint_log_def)

lemma length_varint_bytes [simp]: "length (varint_bytes v) = varint_len v"
  by (simp add: varint_bytes_def varint_len_log)

lemma varint_len_pos [simp]: "0 < varint_len v"
  by (simp add: varint_len_def)

lemma varint_len_neq_0 [simp]: "varint_len v \<noteq> 0"
  by (simp add: varint_len_def)

lemma varint_len_le_8: "varint_len v \<le> 8"
  by (simp add: varint_len_def)

lemma varint_bytes_nonempty [simp]: "varint_bytes v \<noteq> []"
  by (metis length_greater_0_conv length_varint_bytes varint_len_pos)

section \<open>Bits of the first byte\<close>

lemma unat_and_3f: "unat ((b :: byte) AND 0x3f) = unat b mod 64"
proof -
  have "b AND 0x3f = take_bit 6 b"
    by (simp add: take_bit_eq_mask mask_eq_exp_minus_1)
  then show ?thesis by (simp add: take_bit_eq_mod unat_mod_distrib)
qed

lemma unat_drop_6: "unat (drop_bit 6 (b :: byte)) = unat b div 64"
  by (simp add: drop_bit_eq_div unat_div_distrib)

lemma unat_drop_6_less: "unat (drop_bit 6 (b :: byte)) < 4"
  unfolding unat_drop_6 using unat_byte_bound [of b] by linarith

lemma byte_or_tag:
  assumes "unat (x :: byte) < 64" and "0x3f AND t = 0"
  shows "x OR t = x + t"
proof -
  have "x AND 0x3f = x"
    using assms(1) by (simp add: word_unat_eq_iff unat_and_3f)
  then have "x AND t = x AND (0x3f AND t)" by (metis and.assoc)
  with assms(2) have "x AND t = 0" by simp
  then show ?thesis by (metis add.left_neutral word_plus_and_or)
qed

lemma be_bytes_tag:
  "be_bytes (Suc k) (v + t * 256 ^ k) = (word_of_nat (v div 256 ^ k) + word_of_nat t) # be_bytes k v"
  by (simp add: be_bytes_mod)

section \<open>The encoder writes the reference encoding\<close>

lemma varint_bytes_cases:
  "v \<le> 63 \<Longrightarrow> varint_bytes v = [word_of_nat v]"
  "63 < v \<Longrightarrow> v \<le> 16383 \<Longrightarrow>
     varint_bytes v = (word_of_nat (v div 256) OR 0x40) # be_bytes 1 v"
  "16383 < v \<Longrightarrow> v \<le> 1073741823 \<Longrightarrow>
     varint_bytes v = (word_of_nat (v div 256 ^ 3) OR 0x80) # be_bytes 3 v"
  "1073741823 < v \<Longrightarrow> v \<le> MAX_VARINT \<Longrightarrow>
     varint_bytes v = (word_of_nat (v div 256 ^ 7) OR 0xc0) # be_bytes 7 v"
proof -
  show "varint_bytes v = [word_of_nat v]" if "v \<le> 63"
    using that by (simp add: varint_bytes_def varint_log_def)
  have tag: "(word_of_nat x :: byte) OR t = word_of_nat x + t"
    if "x < 64" and "0x3f AND t = 0" for x t
    by (rule byte_or_tag) (use that in \<open>simp_all add: unat_byte_of_nat\<close>)
  show "varint_bytes v = (word_of_nat (v div 256) OR 0x40) # be_bytes 1 v"
    if "63 < v" "v \<le> 16383"
    using that be_bytes_tag [of 1 v 64, unfolded Suc_1]
    by (subst tag) (auto simp: varint_bytes_def varint_log_def)
  show "varint_bytes v = (word_of_nat (v div 256 ^ 3) OR 0x80) # be_bytes 3 v"
    if "16383 < v" "v \<le> 1073741823"
    using that be_bytes_tag [of 3 v 128]
    by (subst tag) (auto simp: varint_bytes_def varint_log_def)
  show "varint_bytes v = (word_of_nat (v div 256 ^ 7) OR 0xc0) # be_bytes 7 v"
    if "1073741823 < v" "v \<le> MAX_VARINT"
    using that be_bytes_tag [of 7 v 192]
    by (subst tag) (auto simp: varint_bytes_def varint_log_def MAX_VARINT_def)
qed


lemma update_front_2:
  "2 \<le> length buf \<Longrightarrow> buf[0 := a, 1 := b] = [a, b] @ drop 2 buf"
  by (auto simp: numeral_2_eq_2 Suc_le_length_iff)

lemma update_front_4:
  "4 \<le> length buf \<Longrightarrow> buf[0 := a, 1 := b, 2 := c, 3 := d] = [a, b, c, d] @ drop 4 buf"
  by (auto simp: eval_nat_numeral Suc_le_length_iff)

lemma update_front_8:
  "8 \<le> length buf \<Longrightarrow>
   buf[0 := a, 1 := b, 2 := c, 3 := d, 4 := e, 5 := f, 6 := g, 7 := h]
     = [a, b, c, d, e, f, g, h] @ drop 8 buf"
  by (auto simp: eval_nat_numeral Suc_le_length_iff)

lemma encode_varint_spec:
  assumes "v \<le> MAX_VARINT" and "varint_len v \<le> length buf"
  shows "encode_varint v buf = Ok (varint_bytes v @ drop (varint_len v) buf, varint_len v)"
proof -
  consider "v \<le> 63" | "63 < v" "v \<le> 16383" | "16383 < v" "v \<le> 1073741823" | "1073741823 < v"
    by linarith
  then show ?thesis
  proof cases
    case 1
    with assms show ?thesis
      by (cases buf) (auto simp: encode_varint_def varint_len_def varint_bytes_cases)
  next
    case 2
    with assms show ?thesis
      by (simp add: encode_varint_def varint_len_def varint_bytes_cases
          update_front_2 [unfolded One_nat_def])
  next
    case 3
    with assms show ?thesis
      by (simp add: encode_varint_def varint_len_def varint_bytes_cases
          update_front_4 [unfolded One_nat_def])
  next
    case 4
    with assms show ?thesis
      by (simp add: encode_varint_def varint_len_def varint_bytes_cases
          update_front_8 [unfolded One_nat_def])
  qed
qed

lemma encode_varint_too_large:
  "MAX_VARINT < v \<Longrightarrow> encode_varint v buf = Err (Transport transport_error.InternalError)"
  by (simp add: encode_varint_def)

lemma encode_varint_short_buffer:
  "v \<le> MAX_VARINT \<Longrightarrow> length buf < varint_len v \<Longrightarrow>
   encode_varint v buf = Err (BufferTooSmall (varint_len v))"
  by (simp add: encode_varint_def Let_def)

section \<open>The decoder\<close>

text \<open>What the decoder returns on any non-empty buffer.\<close>

definition varint_wire_len :: "byte \<Rightarrow> nat" where
  "varint_wire_len b = 2 ^ (unat b div 64)"

lemma idxs_tail: "k \<le> length t \<Longrightarrow> idxs (b # t) [1..<Suc k] = Ok (take k t)"
  by (simp add: idxs_def del: upt_Suc) (rule nth_equalityI, auto simp del: upt_Suc)

lemma upt_1_3: "[1..<Suc 3] = [1, 2, 3]"
  by code_simp

lemma upt_1_7: "[1..<Suc 7] = [1, 2, 3, 4, 5, 6, 7]"
  by code_simp

lemma decode_varint_Cons:
  "decode_varint (b # t) =
     (if length t + 1 < varint_wire_len b then Err (BufferTooSmall (varint_wire_len b))
      else Ok (be_nat ((b AND 0x3f) # take (varint_wire_len b - 1) t), varint_wire_len b))"
proof -
  have "unat b div 64 < 4" using unat_byte_bound [of b] by linarith
  then consider "unat b div 64 = 0" | "unat b div 64 = 1" | "unat b div 64 = 2" | "unat b div 64 = 3"
    by linarith
  then show ?thesis
  proof cases
    case 1
    then show ?thesis by (simp add: decode_varint_def varint_wire_len_def unat_drop_6)
  next
    case 2
    then show ?thesis using idxs_tail [of 1 t b]
      by (cases t) (auto simp: decode_varint_def varint_wire_len_def unat_drop_6 Let_def)
  next
    case 3
    then show ?thesis using idxs_tail [of 3 t b, unfolded upt_1_3]
      by (auto simp: decode_varint_def varint_wire_len_def unat_drop_6 Let_def not_less)
  next
    case 4
    then show ?thesis using idxs_tail [of 7 t b, unfolded upt_1_7]
      by (auto simp: decode_varint_def varint_wire_len_def unat_drop_6 Let_def not_less)
  qed
qed

lemma decode_varint_Nil [simp]: "decode_varint [] = Err (BufferTooSmall 1)"
  by (simp add: decode_varint_def)

lemma varint_wire_len_bounds: "1 \<le> varint_wire_len b \<and> varint_wire_len b \<le> 8"
proof -
  have "unat b div 64 \<le> 3" using unat_byte_bound [of b] by linarith
  then have "varint_wire_len b \<le> 2 ^ 3"
    unfolding varint_wire_len_def by (rule power_increasing) simp
  then show ?thesis by (simp add: varint_wire_len_def)
qed

lemma decode_varint_consumed:
  assumes "decode_varint buf = Ok (v, n)"
  shows "0 < n \<and> n \<le> length buf \<and> n \<le> 8"
  using assms varint_wire_len_bounds
  by (cases buf) (auto simp: decode_varint_Cons Suc_le_eq split: if_splits)

lemma decode_varint_append:
  "decode_varint s = Ok (v, n) \<Longrightarrow> decode_varint (s @ r) = Ok (v, n)"
  by (cases s) (auto simp: decode_varint_Cons split: if_splits)

lemma decode_varint_take:
  assumes "decode_varint s = Ok (v, n)" and "n \<le> m"
  shows "decode_varint (take m s) = Ok (v, n)"
proof -
  obtain b t where s: "s = b # t" using assms(1) by (cases s) (auto simp: decode_varint_def)
  obtain k where m: "m = Suc k"
    using assms(2) assms(1) varint_wire_len_bounds [of b] unfolding s
    by (cases m) (auto simp: decode_varint_Cons split: if_splits)
  show ?thesis
    using assms unfolding s m by (auto simp: decode_varint_Cons min_def split: if_splits)
qed

lemma decode_varint_no_panic [simp, panic_free]: "decode_varint buf \<noteq> Panic"
  by (cases buf) (auto simp: decode_varint_Cons)

text \<open>The decoded value is the number on the wire with its two top bits removed.\<close>

lemma be_nat_and_3f: "be_nat ((b AND 0x3f) # t) = be_nat (b # t) mod (64 * 256 ^ length t)"
proof -
  have "(unat b * 256 ^ length t + be_nat t) mod (64 * 256 ^ length t)
      = 256 ^ length t * (unat b mod 64) + be_nat t"
    using be_nat_bound [of t] by (simp add: mod_mult2_eq mult.commute [of 64])
  then show ?thesis by (simp add: unat_and_3f mult.commute)
qed

lemma decode_varint_value_bound:
  assumes "decode_varint buf = Ok (v, n)"
  shows "v < 2 ^ (8 * n - 2)"
proof -
  obtain b t where buf: "buf = b # t" using assms by (cases buf) auto
  with assms have n: "n = varint_wire_len b" and len: "varint_wire_len b - 1 \<le> length t"
    and v: "v = be_nat ((b AND 0x3f) # take (varint_wire_len b - 1) t)"
    by (auto simp: decode_varint_Cons split: if_splits)
  have "v < 64 * 256 ^ (n - 1)"
    unfolding v be_nat_and_3f using len by (simp add: n min_absorb2)
  also have "(64 :: nat) * 256 ^ (n - 1) = 2 ^ (8 * n - 2)"
  proof -
    have "(256 :: nat) ^ (n - 1) = 2 ^ (8 * (n - 1))" by (simp add: power_mult)
    moreover have "8 * n - 2 = 6 + 8 * (n - 1)"
      using varint_wire_len_bounds [of b] n by linarith
    ultimately show ?thesis by (simp add: power_add)
  qed
  finally show ?thesis .
qed

lemma decode_varint_MAX:
  assumes "decode_varint buf = Ok (v, n)"
  shows "v \<le> MAX_VARINT"
proof -
  have "v < 2 ^ (8 * n - 2)" using assms by (rule decode_varint_value_bound)
  also have "(2::nat) ^ (8 * n - 2) \<le> 2 ^ 62"
    using decode_varint_consumed [OF assms] by (intro power_increasing) auto
  finally show ?thesis by (simp add: MAX_VARINT_def)
qed

section \<open>Round trip\<close>

lemma varint_bytes_eq:
  assumes "v \<le> MAX_VARINT"
  shows "varint_bytes v = hd (varint_bytes v) # be_bytes (varint_len v - 1) v
    \<and> unat (hd (varint_bytes v)) = v div 256 ^ (varint_len v - 1) + 64 * varint_log v
    \<and> v div 256 ^ (varint_len v - 1) < 64"
proof -
  have tag: "unat ((word_of_nat x :: byte) OR t) = x + unat t"
    if "x < 64" "0x3f AND t = 0" "unat t \<le> 192" for x t
  proof -
    have "unat (word_of_nat x :: byte) + unat t < 2 ^ 8"
      using that by (simp add: unat_byte_of_nat)
    then show ?thesis
      using that byte_or_tag [of "word_of_nat x" t]
      by (simp add: unat_byte_of_nat unat_word_ariths)
  qed
  consider "v \<le> 63" | "63 < v" "v \<le> 16383" | "16383 < v" "v \<le> 1073741823" | "1073741823 < v"
    by linarith
  then show ?thesis
    using assms
    by cases (auto simp: varint_bytes_cases tag varint_len_def varint_log_def unat_byte_of_nat
        MAX_VARINT_def)
qed

lemma decode_varint_bytes [wire_simps]:
  assumes "v \<le> MAX_VARINT"
  shows "decode_varint (varint_bytes v @ rest) = Ok (v, varint_len v)"
proof -
  define k where "k = varint_len v - 1"
  obtain b where b: "varint_bytes v = b # be_bytes k v"
    and ub: "unat b = v div 256 ^ k + 64 * varint_log v" and hi: "v div 256 ^ k < 64"
    using varint_bytes_eq [OF assms] unfolding k_def by metis
  have wl: "varint_wire_len b = varint_len v"
    using hi by (simp add: varint_wire_len_def ub varint_len_log)
  have "unat (b AND 0x3f) = v div 256 ^ k"
    using hi by (simp add: unat_and_3f ub)
  then have "be_nat ((b AND 0x3f) # be_bytes k v) = v"
    by (simp add: be_nat_be_bytes div_mult_mod_eq)
  moreover have "varint_len v = Suc k" by (simp add: k_def)
  ultimately show ?thesis
    by (simp add: b decode_varint_Cons wl)
qed

interpretation varint: wire_codec decode_varint varint_bytes "\<lambda>v. v \<le> MAX_VARINT"
proof unfold_locales
  show "0 < n \<and> n \<le> length bs" if "decode_varint bs = Ok (x, n)" for bs x n
    using decode_varint_consumed [OF that] by blast
  show "decode_varint bs \<noteq> Panic" for bs
    by simp
  show "decode_varint (varint_bytes x @ rest) = Ok (x, length (varint_bytes x))"
    if "x \<le> MAX_VARINT" for x rest
    using decode_varint_bytes [OF that] by simp
qed

section \<open>Write cursors\<close>

text \<open>
  The encoders of the crate write into a caller's buffer through a position that only grows.
  Their state is the pair of the buffer and the position; \<open>wr buf out\<close> is the state in which
  \<open>out\<close> has been written at the front of \<open>buf\<close>. \<open>put_bytes\<close> is the unchecked
  \<^verbatim>\<open>copy_from_slice\<close> at the position, \<open>put_varint\<close> the call \<^verbatim>\<open>encode_varint(v, &mut buf[pos..])\<close>.
\<close>

type_synonym cursor = "bytes \<times> nat"

fun put_bytes :: "bytes \<Rightarrow> cursor \<Rightarrow> cursor res" where
  "put_bytes data (buf, pos) =
     res_bind (copy_at buf pos data) (\<lambda>buf. Ok (buf, pos + length data))"

fun put_varint :: "nat \<Rightarrow> cursor \<Rightarrow> cursor res" where
  "put_varint val (buf, pos) =
     res_bind (slice_from buf pos) (\<lambda>s.
     res_bind (encode_varint val s) (\<lambda>(s, n).
     Ok (take pos buf @ s, pos + n)))"

definition wr :: "bytes \<Rightarrow> bytes \<Rightarrow> cursor" where
  "wr buf out = (out @ drop (length out) buf, length out)"

lemma wr_start: "(buf, 0) = wr buf []"
  by (simp add: wr_def)

lemma put_bytes_wr [wire_simps]:
  "length out + length data \<le> length buf \<Longrightarrow> put_bytes data (wr buf out) = Ok (wr buf (out @ data))"
  by (simp add: wr_def add.commute)

lemma put_varint_wr [wire_simps]:
  "v \<le> MAX_VARINT \<Longrightarrow> length out + varint_len v \<le> length buf \<Longrightarrow>
   put_varint v (wr buf out) = Ok (wr buf (out @ varint_bytes v))"
  by (simp add: wr_def encode_varint_spec add.commute)

end
