(* ===== verification/Packet_Number.thy ===== *)
theory Packet_Number
  imports Varint
begin

unbundle bit_operations_syntax

text \<open>
  Truncated packet numbers (\<^verbatim>\<open>src/packet/number.rs\<close>). \<open>decode_pn\<close> is kept on 64-bit words, with
  the masks and shifts of the code; \<open>decode_pn_nat\<close> gives its value over the naturals. The main
  result is that a receiver recovers the packet number a sender truncated, as long as the two
  are less than half a window apart; the boundary of the packet number space is examined too.
\<close>

section \<open>The code\<close>

definition pn_length :: "nat \<Rightarrow> nat \<Rightarrow> nat" where
  "pn_length full_pn largest_acked =
    (let num_unacked = (if full_pn > largest_acked then full_pn - largest_acked else 1)
     in if num_unacked < 2 ^ 7 then 1
        else if num_unacked < 2 ^ 15 then 2
        else if num_unacked < 2 ^ 23 then 3
        else 4)"

definition encode_pn :: "nat \<Rightarrow> nat \<Rightarrow> bytes \<Rightarrow> (bytes \<times> nat) res" where
  "encode_pn full_pn largest_acked buf =
    (let len = pn_length full_pn largest_acked
     in if length buf < len then Err (BufferTooSmall len)
        else res_bind (slice_from (be_bytes 8 full_pn) (8 - len)) (\<lambda>pn_bytes.
             res_bind (copy_at buf 0 pn_bytes) (\<lambda>buf.
             Ok (buf, len))))"

definition decode_pn :: "32 word \<Rightarrow> nat \<Rightarrow> 64 word \<Rightarrow> 64 word" where
  "decode_pn truncated_pn pn_len largest_pn =
    (let pn_nbits = pn_len * 8;
         pn_win = push_bit pn_nbits 1;
         pn_hwin = pn_win div 2;
         pn_mask = pn_win - 1;
         expected_pn = largest_pn + 1;
         candidate_pn = (expected_pn AND NOT pn_mask) OR ucast truncated_pn
     in if candidate_pn + pn_hwin \<le> expected_pn \<and> candidate_pn + pn_win \<le> push_bit 62 1
        then candidate_pn + pn_win
        else if candidate_pn > expected_pn + pn_hwin \<and> candidate_pn \<ge> pn_win
        then candidate_pn - pn_win
        else candidate_pn)"

section \<open>Values over the naturals\<close>

definition decode_pn_nat :: "nat \<Rightarrow> nat \<Rightarrow> nat \<Rightarrow> nat" where
  "decode_pn_nat t k largest =
    (let w = 2 ^ (8 * k); e = largest + 1; c = e - e mod w + t
     in if c + w div 2 \<le> e \<and> c + w \<le> 2 ^ 62 then c + w
        else if c > e + w div 2 \<and> c \<ge> w then c - w
        else c)"

lemma push_drop_bit: "push_bit n (drop_bit n (x :: 'a::len word)) = x AND NOT (mask n)"
  by (rule bit_word_eqI) (auto simp: bit_simps)

lemma unat_and_not_mask:
  "unat ((x :: 64 word) AND NOT (mask n)) = unat x - unat x mod 2 ^ n"
proof -
  have "unat x = unat (push_bit n (drop_bit n x)) + unat (take_bit n x)"
  proof -
    have "(x AND NOT (mask n)) AND take_bit n x = 0"
      by (rule bit_word_eqI) (auto simp: bit_simps)
    then show ?thesis
      by (metis bits_ident push_drop_bit unat_plus_simple word_and_le2 word_plus_and_or
          add.left_neutral le_word_or2)
  qed
  moreover have "unat (take_bit n x) = unat x mod 2 ^ n"
    by (simp add: unsigned_take_bit_eq flip: take_bit_eq_mod)
  ultimately show ?thesis by (simp add: push_drop_bit)
qed

lemma word_or_low:
  assumes "unat (t :: 64 word) < 2 ^ n"
  shows "(x AND NOT (mask n)) OR t = (x AND NOT (mask n)) + t"
proof -
  have "t = take_bit n t"
    using assms by (metis take_bit_nat_eq_self_iff unsigned_take_bit_eq word_unat_eq_iff)
  then have "(x AND NOT (mask n)) AND t = (x AND NOT (mask n)) AND take_bit n t" by simp
  also have "\<dots> = 0" by (rule bit_word_eqI) (auto simp: bit_simps)
  finally show ?thesis by (metis add.left_neutral word_plus_and_or)
qed

lemma unat_add_exact: "unat a + unat b < 2 ^ 64 \<Longrightarrow> unat (a + b :: 64 word) = unat a + unat b"
  by (simp add: unat_word_ariths)

lemma len64: "LENGTH(64) = 64"
  by simp

lemma pn_window_bound: "1 \<le> k \<Longrightarrow> k \<le> 4 \<Longrightarrow> (2::nat) ^ (8 * k) \<le> 2 ^ 32"
  by (rule power_increasing) auto

lemma unat_pn_win:
  assumes "k \<le> 4"
  shows "unat (push_bit (k * 8) 1 :: 64 word) = 2 ^ (8 * k)"
    and "unat ((push_bit (k * 8) 1 :: 64 word) div 2) = 2 ^ (8 * k) div 2"
    and "(push_bit (k * 8) 1 :: 64 word) - 1 = mask (8 * k)"
proof -
  show w: "unat (push_bit (k * 8) 1 :: 64 word) = 2 ^ (8 * k)"
  proof -
    have "(2::nat) ^ (8 * k) < 2 ^ 64" using assms by (intro power_strict_increasing) auto
    moreover have "(push_bit (k * 8) 1 :: 64 word) = word_of_nat (2 ^ (8 * k))"
      by (simp add: push_bit_eq_mult mult.commute)
    ultimately show ?thesis by (simp only: unat_of_nat mod_less len64)
  qed
  show "unat ((push_bit (k * 8) 1 :: 64 word) div 2) = 2 ^ (8 * k) div 2"
    using w by (simp add: unat_div_distrib)
  show "(push_bit (k * 8) 1 :: 64 word) - 1 = mask (8 * k)"
    by (simp add: mask_eq_exp_minus_1 push_bit_eq_mult mult.commute)
qed

lemma unat_decode_pn:
  assumes k: "1 \<le> k" "k \<le> 4" and t: "unat t < 2 ^ (8 * k)" and l: "unat largest < 2 ^ 62"
  shows "unat (decode_pn t k largest) = decode_pn_nat (unat t) k (unat largest)"
proof -
  define w :: "64 word" where "w = push_bit (k * 8) 1"
  define e where "e = largest + 1"
  define c where "c = (e AND NOT (w - 1)) OR ucast t"
  note win = unat_pn_win [OF k(2), folded w_def]
  have wb: "(2::nat) ^ (8 * k) \<le> 2 ^ 32" by (rule pn_window_bound [OF k])
  have e: "unat e = unat largest + 1"
    unfolding e_def using l by (subst unat_add_exact) auto
  have ut: "unat (ucast t :: 64 word) = unat t"
    using t wb by (simp add: unsigned_ucast_eq take_bit_nat_eq_self_iff)
  have bound: "unat e - unat e mod 2 ^ (8 * k) + unat t < 2 ^ 62 + 2 ^ 32"
    using t wb e l diff_le_self [of "unat e" "unat e mod 2 ^ (8 * k)"] by linarith
  have c: "unat c = unat e - unat e mod 2 ^ (8 * k) + unat t"
  proof -
    have "c = (e AND NOT (mask (8 * k))) + ucast t"
      unfolding c_def win(3) by (rule word_or_low) (simp add: ut t)
    moreover have "unat (e AND NOT (mask (8 * k))) + unat (ucast t :: 64 word) < 2 ^ 64"
      unfolding unat_and_not_mask ut using bound by simp
    ultimately show ?thesis by (simp add: unat_add_exact unat_and_not_mask ut)
  qed
  have cb: "unat c < 2 ^ 63" unfolding c using bound by simp
  have adds: "unat (c + w div 2) = unat c + 2 ^ (8 * k) div 2" "unat (c + w) = unat c + 2 ^ (8 * k)"
    "unat (e + w div 2) = unat e + 2 ^ (8 * k) div 2"
    using cb wb e l by (auto simp: unat_add_exact win)
  have sub: "unat (c - w) = unat c - 2 ^ (8 * k)" if "w \<le> c"
    using that by (simp add: unat_sub win)
  have lim: "unat (push_bit 62 1 :: 64 word) = 2 ^ 62"
    by simp
  have "decode_pn t k largest =
    (if c + w div 2 \<le> e \<and> c + w \<le> push_bit 62 1 then c + w
     else if c > e + w div 2 \<and> c \<ge> w then c - w else c)"
    by (simp only: decode_pn_def Let_def w_def e_def c_def)
  then show ?thesis
    using sub c e
    by (simp add: decode_pn_nat_def Let_def word_le_nat_alt word_less_nat_alt adds lim win)
qed

section \<open>Recovering the packet number\<close>

lemma window_multiple:
  fixes w h p e :: nat
  assumes w: "w = 2 * h" "0 < h" and lo: "e < p + h" and hi: "p \<le> e + h"
  shows "p div w = e div w \<or> p div w = e div w + 1 \<or> p div w + 1 = e div w"
proof -
  have p: "p = w * (p div w) + p mod w" "p mod w < w"
    and e: "e = w * (e div w) + e mod w" "e mod w < w"
    using w by auto
  have "w * (p div w) < w * (e div w) + 2 * w" using p e hi w by linarith
  then have "w * (p div w) < w * (e div w + 2)" by (simp add: distrib_left mult.commute)
  then have "p div w < e div w + 2" by (rule mult_less_cancel1 [THEN iffD1, THEN conjunct2])
  moreover have "w * (e div w) < w * (p div w) + 2 * w" using p e lo w by linarith
  then have "w * (e div w) < w * (p div w + 2)" by (simp add: distrib_left mult.commute)
  then have "e div w < p div w + 2" by (rule mult_less_cancel1 [THEN iffD1, THEN conjunct2])
  ultimately show ?thesis by linarith
qed

lemma decode_pn_nat_correct:
  fixes k p largest :: nat
  assumes k: "1 \<le> k" and p: "p < 2 ^ 62" and h: "h = 2 ^ (8 * k) div 2"
    and lo: "largest + 1 < p + h" and hi: "p \<le> largest + 1 + h"
  shows "decode_pn_nat (p mod 2 ^ (8 * k)) k largest = p"
proof -
  define w :: nat where "w = 2 ^ (8 * k)"
  define e where "e = largest + 1"
  have wh: "w = 2 * h" "0 < h"
    using k h by (cases k; simp add: w_def power_add)+
  have pe: "p = w * (p div w) + p mod w" "e - e mod w = w * (e div w)"
    "e = w * (e div w) + e mod w" "e mod w < w" "p mod w < w"
    using wh by (auto simp: minus_mod_eq_mult_div)
  from window_multiple [of w h e p] wh lo hi
  consider "p div w = e div w" | "p div w = e div w + 1" | "p div w + 1 = e div w"
    by (auto simp: e_def)
  then show ?thesis
  proof cases
    case 1
    then have "e - e mod w + p mod w = p" using pe by simp
    then show ?thesis using lo hi wh
      by (simp add: decode_pn_nat_def Let_def flip: w_def e_def) (auto simp: e_def)
  next
    case 2
    then have "e - e mod w + p mod w + w = p" using pe by (simp add: algebra_simps)
    then show ?thesis using lo hi wh p
      by (simp add: decode_pn_nat_def Let_def flip: w_def e_def) (auto simp: e_def)
  next
    case 3
    then have "e - e mod w + p mod w = p + w" using pe by (metis add.assoc add.commute distrib_left mult.right_neutral)
    then show ?thesis using lo hi wh p
      by (simp add: decode_pn_nat_def Let_def flip: w_def e_def) (auto simp: e_def)
  qed
qed

lemma pn_length_range: "1 \<le> pn_length p la \<and> pn_length p la \<le> 4"
  by (simp add: pn_length_def Let_def)

lemma encode_pn_spec:
  assumes "pn_length p la \<le> length buf"
  shows "encode_pn p la buf = Ok (be_bytes (pn_length p la) p @ drop (pn_length p la) buf, pn_length p la)"
proof -
  have "drop (8 - pn_length p la) (be_bytes 8 p) = be_bytes (pn_length p la) p"
    using pn_length_range [of p la] drop_be_bytes [of "8 - pn_length p la" "pn_length p la" p]
    by (simp del: be_bytes_numeral)
  with assms pn_length_range [of p la] show ?thesis
    by (simp add: encode_pn_def Let_def not_less del: be_bytes_numeral)
qed

lemma encode_pn_short_buffer:
  "length buf < pn_length p la \<Longrightarrow> encode_pn p la buf = Err (BufferTooSmall (pn_length p la))"
  by (simp add: encode_pn_def Let_def)

text \<open>The chosen length leaves at least half a window above the largest acknowledged number.\<close>

lemma pn_length_covers:
  assumes "p < la + 2 ^ 31" and "la < p"
  shows "p - la < 2 ^ (8 * pn_length p la) div 2"
  using assms by (auto simp: pn_length_def Let_def)

text \<open>Recovery of a number from its low bytes, for any length the header can announce.\<close>

lemma decode_pn_recovers:
  assumes "1 \<le> k" and "k \<le> 4" and "p < 2 ^ 62" and "largest < 2 ^ 62"
    and "p \<le> largest + 1 + 2 ^ (8 * k) div 2" and "largest + 1 < p + 2 ^ (8 * k) div 2"
  shows "unat (decode_pn (word_of_nat (be_nat (be_bytes k p))) k (word_of_nat largest)) = p"
proof -
  have "p mod 256 ^ k < 256 ^ k" by simp
  then have t: "p mod 256 ^ k < 2 ^ (8 * k)" by (simp add: power_mult)
  also have "(2::nat) ^ (8 * k) \<le> 2 ^ 32" by (rule pn_window_bound [OF assms(1,2)])
  finally have ut: "unat (word_of_nat (p mod 256 ^ k) :: 32 word) = p mod 2 ^ (8 * k)"
    by (simp add: unat_of_nat power_mult)
  have ul: "unat (word_of_nat largest :: 64 word) = largest"
    using assms(4) by (simp add: unat_of_nat)
  have "decode_pn_nat (p mod 2 ^ (8 * k)) k largest = p"
    using decode_pn_nat_correct [OF assms(1,3) refl] assms(5,6) by simp
  moreover have "unat (decode_pn (word_of_nat (p mod 256 ^ k)) k (word_of_nat largest))
      = decode_pn_nat (p mod 2 ^ (8 * k)) k largest"
    by (subst unat_decode_pn [OF assms(1,2)]) (use assms(4) in \<open>simp_all add: ut ul\<close>)
  ultimately show ?thesis by (simp add: be_nat_be_bytes)
qed

text \<open>
  C1: a packet number truncated by the sender is recovered exactly by the receiver, when the
  sender's largest acknowledged number is at most the receiver's largest processed number and
  the packet is not reordered by half a window or more. The bytes behind the packet number are
  untouched.
\<close>

theorem pn_roundtrip:
  assumes "p < 2 ^ 62" and "la < p" and "p < la + 2 ^ 31"
    and "la \<le> largest" and "largest < 2 ^ 62"
    and "largest + 1 < p + 2 ^ (8 * pn_length p la) div 2"
    and "pn_length p la \<le> length buf"
  shows "\<exists>buf'. encode_pn p la buf = Ok (buf', pn_length p la)
    \<and> drop (pn_length p la) buf' = drop (pn_length p la) buf
    \<and> unat (decode_pn (word_of_nat (be_nat (take (pn_length p la) buf'))) (pn_length p la)
              (word_of_nat largest)) = p"
proof -
  define k where "k = pn_length p la"
  have k: "1 \<le> k" "k \<le> 4" using pn_length_range by (simp_all add: k_def)
  have "p \<le> largest + 1 + 2 ^ (8 * k) div 2"
    using pn_length_covers [OF assms(3,2)] assms(2,4) unfolding k_def by linarith
  then have "unat (decode_pn (word_of_nat (be_nat (be_bytes k p))) k (word_of_nat largest)) = p"
    using decode_pn_recovers [OF k assms(1,5)] assms(6) by (simp add: k_def)
  then show ?thesis
    using assms(7) by (simp add: encode_pn_spec flip: k_def)
qed

theorem pn_roundtrip_witness:
  "\<exists>buf'. encode_pn 0xac5c02 0xabe8b3 [0, 0, 7] = Ok (buf', 2) \<and> drop 2 buf' = [7]
    \<and> unat (decode_pn (word_of_nat (be_nat (take 2 buf'))) 2 (word_of_nat 0xac5c00)) = 0xac5c02"
  using pn_roundtrip [of "0xac5c02" "0xabe8b3" "0xac5c00" "[0, 0, 7]"]
  by (simp add: pn_length_def)

text \<open>
  At the end of the packet number space the decoder leaves it: the code accepts a candidate
  up to and including \<open>2 ^ 62\<close>, where RFC 9000 A.3, which the comment cites, requires the
  result to stay below. After packet \<open>2 ^ 62 - 2\<close> a one-byte number 0 decodes to \<open>2 ^ 62\<close>, one
  more than the largest packet number there is.
\<close>

theorem decode_pn_leaves_space:
  "unat (decode_pn 0 1 (word_of_nat (2 ^ 62 - 2))) = 2 ^ 62"
  by (simp add: unat_decode_pn decode_pn_nat_def unat_of_nat)

end
