(* ===== verification/Packet_Header.thy ===== *)
theory Packet_Header
  imports Varint
begin

unbundle bit_operations_syntax

text \<open>
  Packet headers (\<^verbatim>\<open>src/packet/mod.rs\<close>, \<^verbatim>\<open>long_header.rs\<close>, \<^verbatim>\<open>short_header.rs\<close>,
  \<^verbatim>\<open>decode_dcid.rs\<close>). The parsers take the width \<open>uw\<close> of \<^verbatim>\<open>usize\<close>, because they cast 62-bit
  lengths to it and add them to a position. The theory proves that the parsers invert the
  encoders, that they never index out of the datagram on a 64-bit target, and what happens on a
  32-bit one.
\<close>

section \<open>The code\<close>

datatype long_packet_type = Initial_pkt | ZeroRtt_pkt | Handshake_pkt | Retry_pkt

record long_header =
  lh_packet_type :: long_packet_type
  lh_version :: nat
  lh_dcid :: bytes
  lh_scid :: bytes
  lh_type_specific_bits :: byte

record short_header =
  sh_dcid :: bytes
  sh_first_byte :: byte

record version_negotiation_header =
  vn_dcid :: bytes
  vn_scid :: bytes
  vn_supported_versions :: bytes

datatype packet_header =
    Long long_header
  | Short short_header
  | VersionNegotiation version_negotiation_header

record initial_header =
  ih_version :: nat
  ih_dcid :: bytes
  ih_scid :: bytes
  ih_token :: bytes
  ih_pn_offset :: nat
  ih_payload_length :: nat

record handshake_header =
  hh_version :: nat
  hh_dcid :: bytes
  hh_scid :: bytes
  hh_pn_offset :: nat
  hh_payload_length :: nat

definition QUIC_VERSION_1 :: nat where
  "QUIC_VERSION_1 = 1"

text \<open>
  The three long-header parsers open with the same code: the form bit, the version and the two
  connection ids. The result is the first byte, the version, both ids and the position behind
  them.
\<close>

definition parse_cids :: "bytes \<Rightarrow> (byte \<times> nat \<times> bytes \<times> bytes \<times> nat) res" where
  "parse_cids buf =
    (if length buf < 7 then Err (BufferTooSmall 7)
     else
       res_bind (idx buf 0) (\<lambda>first_byte.
       if first_byte AND 0x80 = 0 then Err (Transport ProtocolViolation)
       else
         res_bind (idxs buf [1, 2, 3, 4]) (\<lambda>v.
         res_bind (idx buf 5) (\<lambda>b5.
         let version = be_nat v; dcid_len = unat b5; pos = 6
         in if pos + dcid_len > length buf then Err (BufferTooSmall (pos + dcid_len))
            else
              res_bind (slice buf pos (pos + dcid_len)) (\<lambda>dcid.
              let pos = pos + dcid_len
              in if pos \<ge> length buf then Err (BufferTooSmall (pos + 1))
                 else
                   res_bind (idx buf pos) (\<lambda>b.
                   let scid_len = unat b; pos = pos + 1
                   in if pos + scid_len > length buf then Err (BufferTooSmall (pos + scid_len))
                      else
                        res_bind (slice buf pos (pos + scid_len)) (\<lambda>scid.
                        Ok (first_byte, version, dcid, scid, pos + scid_len))))))))"

definition parse_long_header :: "bytes \<Rightarrow> (packet_header \<times> nat) res" where
  "parse_long_header buf =
    res_bind (parse_cids buf) (\<lambda>(first_byte, version, dcid, scid, pos).
      if version = 0 then
        res_bind (slice_from buf pos) (\<lambda>supported_versions.
        Ok (VersionNegotiation \<lparr>vn_dcid = dcid, vn_scid = scid,
              vn_supported_versions = supported_versions\<rparr>, length buf))
      else
        let ty = drop_bit 4 (first_byte AND 0x30)
        in res_bind
             (if ty = 0 then Ok Initial_pkt
              else if ty = 1 then Ok ZeroRtt_pkt
              else if ty = 2 then Ok Handshake_pkt
              else if ty = 3 then Ok Retry_pkt
              else Panic)
             (\<lambda>packet_type.
               Ok (Long \<lparr>lh_packet_type = packet_type, lh_version = version, lh_dcid = dcid,
                     lh_scid = scid, lh_type_specific_bits = first_byte AND 0x0f\<rparr>, pos)))"

definition parse_initial_header :: "nat \<Rightarrow> bytes \<Rightarrow> (initial_header \<times> nat) res" where
  "parse_initial_header uw buf =
    res_bind (parse_cids buf) (\<lambda>(first_byte, version, dcid, scid, pos).
    res_bind (slice_from buf pos) (\<lambda>s.
    res_bind (decode_varint s) (\<lambda>(token_len, consumed).
    let pos = pos + consumed;
        token_len = as_usize uw token_len;
        token_end = usize_add uw pos token_len
    in if token_end > length buf then Err (BufferTooSmall token_end)
       else
         res_bind (slice buf pos token_end) (\<lambda>token.
         res_bind (slice_from buf token_end) (\<lambda>s.
         res_bind (decode_varint s) (\<lambda>(payload_length, consumed).
         let pos = token_end + consumed
         in Ok (\<lparr>ih_version = version, ih_dcid = dcid, ih_scid = scid, ih_token = token,
                  ih_pn_offset = pos, ih_payload_length = as_usize uw payload_length\<rparr>, pos)))))))"

definition parse_handshake_header :: "nat \<Rightarrow> bytes \<Rightarrow> (handshake_header \<times> nat) res" where
  "parse_handshake_header uw buf =
    res_bind (parse_cids buf) (\<lambda>(first_byte, version, dcid, scid, pos).
    res_bind (slice_from buf pos) (\<lambda>s.
    res_bind (decode_varint s) (\<lambda>(payload_length, consumed).
    let pos = pos + consumed
    in Ok (\<lparr>hh_version = version, hh_dcid = dcid, hh_scid = scid,
             hh_pn_offset = pos, hh_payload_length = as_usize uw payload_length\<rparr>, pos))))"

definition encode_initial_header ::
  "bytes \<Rightarrow> bytes \<Rightarrow> bytes \<Rightarrow> nat \<Rightarrow> nat \<Rightarrow> bytes \<Rightarrow> cursor res" where
  "encode_initial_header dcid scid token pn_len payload_len buf =
    (let token_vi_len = varint_len (length token);
         payload_vi_len = varint_len payload_len;
         needed = 1 + 4 + 1 + length dcid + 1 + length scid + token_vi_len + length token
                    + payload_vi_len
     in if length buf < needed then Err (BufferTooSmall needed)
        else
          res_bind (put_bytes [0xC0 OR ((word_of_nat pn_len - 1) AND 0x03)] (buf, 0)) (\<lambda>c.
          res_bind (put_bytes (be_bytes 4 QUIC_VERSION_1) c) (\<lambda>c.
          res_bind (put_bytes [word_of_nat (length dcid)] c) (\<lambda>c.
          res_bind (put_bytes dcid c) (\<lambda>c.
          res_bind (put_bytes [word_of_nat (length scid)] c) (\<lambda>c.
          res_bind (put_bytes scid c) (\<lambda>c.
          res_bind (put_varint (length token) c) (\<lambda>c.
          res_bind (put_bytes token c) (\<lambda>c.
          put_varint payload_len c)))))))))"

definition encode_handshake_header ::
  "bytes \<Rightarrow> bytes \<Rightarrow> nat \<Rightarrow> nat \<Rightarrow> bytes \<Rightarrow> cursor res" where
  "encode_handshake_header dcid scid pn_len payload_len buf =
    (let payload_vi_len = varint_len payload_len;
         needed = 1 + 4 + 1 + length dcid + 1 + length scid + payload_vi_len
     in if length buf < needed then Err (BufferTooSmall needed)
        else
          res_bind (put_bytes [0xE0 OR ((word_of_nat pn_len - 1) AND 0x03)] (buf, 0)) (\<lambda>c.
          res_bind (put_bytes (be_bytes 4 QUIC_VERSION_1) c) (\<lambda>c.
          res_bind (put_bytes [word_of_nat (length dcid)] c) (\<lambda>c.
          res_bind (put_bytes dcid c) (\<lambda>c.
          res_bind (put_bytes [word_of_nat (length scid)] c) (\<lambda>c.
          res_bind (put_bytes scid c) (\<lambda>c.
          put_varint payload_len c)))))))"

definition parse_short_header :: "bytes \<Rightarrow> nat \<Rightarrow> (short_header \<times> nat) res" where
  "parse_short_header buf dcid_len =
    (let needed = 1 + dcid_len
     in if length buf < needed then Err (BufferTooSmall needed)
        else
          res_bind (idx buf 0) (\<lambda>first_byte.
          if first_byte AND 0x80 \<noteq> 0 then Err (Transport ProtocolViolation)
          else
            res_bind (slice buf 1 (1 + dcid_len)) (\<lambda>dcid.
            Ok (\<lparr>sh_dcid = dcid, sh_first_byte = first_byte\<rparr>, needed))))"

definition encode_short_header :: "bytes \<Rightarrow> byte \<Rightarrow> bytes \<Rightarrow> cursor res" where
  "encode_short_header dcid first_byte buf =
    (let needed = 1 + length dcid
     in if length buf < needed then Err (BufferTooSmall needed)
        else
          res_bind (put_bytes [first_byte] (buf, 0)) (\<lambda>c.
          put_bytes dcid c))"

text \<open>\<open>None\<close> inside \<open>Ok\<close> is the \<^verbatim>\<open>None\<close> of the code.\<close>

definition decode_dcid :: "bytes \<Rightarrow> nat \<Rightarrow> bytes option res" where
  "decode_dcid datagram short_header_dcid_len =
    (if datagram = [] then Ok None
     else
       res_bind (idx datagram 0) (\<lambda>first_byte.
       if first_byte AND 0x80 \<noteq> 0 then
         if length datagram < 6 then Ok None
         else
           res_bind (idx datagram 5) (\<lambda>b.
           let start = 6; stop = start + unat b
           in if length datagram < stop then Ok None
              else res_bind (slice datagram start stop) (\<lambda>d. Ok (Some d)))
       else
         let start = 1; stop = start + short_header_dcid_len
         in if length datagram < stop then Ok None
            else res_bind (slice datagram start stop) (\<lambda>d. Ok (Some d))))"

section \<open>The wire layout\<close>

definition cids_bytes :: "byte \<Rightarrow> nat \<Rightarrow> bytes \<Rightarrow> bytes \<Rightarrow> bytes" where
  "cids_bytes first version dcid scid =
     [first] @ be_bytes 4 version @ [word_of_nat (length dcid)] @ dcid
       @ [word_of_nat (length scid)] @ scid"

definition initial_bytes :: "bytes \<Rightarrow> bytes \<Rightarrow> bytes \<Rightarrow> nat \<Rightarrow> nat \<Rightarrow> bytes" where
  "initial_bytes dcid scid token pn_len payload_len =
     cids_bytes (0xC0 OR ((word_of_nat pn_len - 1) AND 0x03)) QUIC_VERSION_1 dcid scid
       @ varint_bytes (length token) @ token @ varint_bytes payload_len"

definition handshake_bytes :: "bytes \<Rightarrow> bytes \<Rightarrow> nat \<Rightarrow> nat \<Rightarrow> bytes" where
  "handshake_bytes dcid scid pn_len payload_len =
     cids_bytes (0xE0 OR ((word_of_nat pn_len - 1) AND 0x03)) QUIC_VERSION_1 dcid scid
       @ varint_bytes payload_len"

lemma length_cids_bytes [simp]: "length (cids_bytes f v dcid scid) = 7 + length dcid + length scid"
  by (simp add: cids_bytes_def)

text \<open>What the parsers find at the fixed and computed positions of the layout.\<close>

lemma cids_bytes_read:
  assumes "v < 2 ^ 32"
  shows "(cids_bytes f v dcid scid @ rest) ! 0 = f"
    and "idxs (cids_bytes f v dcid scid @ rest) [Suc 0, 2, 3, 4] = Ok (be_bytes 4 v)"
    and "be_nat (be_bytes 4 v) = v"
    and "(cids_bytes f v dcid scid @ rest) ! 5 = word_of_nat (length dcid)"
    and "(cids_bytes f v dcid scid @ rest) ! (6 + length dcid) = word_of_nat (length scid)"
    and "take (length dcid) (drop 6 (cids_bytes f v dcid scid @ rest)) = dcid"
    and "take (length scid) (drop (7 + length dcid) (cids_bytes f v dcid scid @ rest)) = scid"
proof -
  let ?buf = "cids_bytes f v dcid scid @ rest"
  have buf: "?buf = f # be_bytes 4 v @ word_of_nat (length dcid) # dcid
      @ word_of_nat (length scid) # scid @ rest"
    by (simp add: cids_bytes_def)
  show "?buf ! 0 = f" "idxs ?buf [Suc 0, 2, 3, 4] = Ok (be_bytes 4 v)"
    "?buf ! 5 = word_of_nat (length dcid)" "?buf ! (6 + length dcid) = word_of_nat (length scid)"
    "take (length dcid) (drop 6 ?buf) = dcid"
    by (simp_all add: buf idxs_def nth_append)
  show "be_nat (be_bytes 4 v) = v" using assms by (subst be_nat_be_bytes) simp
  define P where "P = f # be_bytes 4 v @ word_of_nat (length dcid) # dcid @ [word_of_nat (length scid)]"
  have "?buf = P @ scid @ rest" and "length P = 7 + length dcid"
    by (simp_all add: P_def cids_bytes_def)
  then show "take (length scid) (drop (7 + length dcid) ?buf) = scid"
    by (metis append_eq_conv_conj)
qed

lemma parse_cids_bytes [wire_simps]:
  assumes "f AND 0x80 \<noteq> 0" and "v < 2 ^ 32" and "length dcid < 256" and "length scid < 256"
  shows "parse_cids (cids_bytes f v dcid scid @ rest) = Ok (f, v, dcid, scid, 7 + length dcid + length scid)"
proof -
  have "length (cids_bytes f v dcid scid @ rest) = 7 + length dcid + length scid + length rest"
    by simp
  then show ?thesis
    using assms
    by (simp add: parse_cids_def cids_bytes_read unat_byte_of_nat Let_def
        del: be_bytes_numeral length_append drop_append take_append)
qed

lemma parse_cids_Ok:
  assumes "parse_cids buf = Ok (f, v, dcid, scid, pos)"
  shows "7 \<le> pos" and "pos \<le> length buf" and "f AND 0x80 \<noteq> 0"
    and "length dcid < 256" and "length scid < 256" and "v < 2 ^ 32"
    and "dcid = take (length dcid) (drop 6 buf)"
    and "buf ! 0 = f" and "unat (buf ! 5) = length dcid"
proof -
  from assms have *: "f = buf ! 0" "f AND 0x80 \<noteq> 0" "v = be_nat (map ((!) buf) [1, 2, 3, 4])"
    "dcid = take (unat (buf ! 5)) (drop 6 buf)"
    "6 + unat (buf ! 5) < length buf"
    "scid = take (unat (buf ! (6 + unat (buf ! 5)))) (drop (7 + unat (buf ! 5)) buf)"
    "pos = 7 + unat (buf ! 5) + unat (buf ! (6 + unat (buf ! 5)))" "pos \<le> length buf"
    by (auto simp: parse_cids_def res_bind_eq_Ok idx_eq_Ok slice_eq_Ok idxs_def Let_def split: if_splits)
  then show "7 \<le> pos" "pos \<le> length buf" "f AND 0x80 \<noteq> 0" "buf ! 0 = f"
    by simp_all
  show len: "unat (buf ! 5) = length dcid" using * by simp
  show "length dcid < 256" unfolding len [symmetric] by simp
  show "length scid < 256"
    using * le_less_trans [OF _ unat_byte_bound] by (simp add: min_def)
  show "dcid = take (length dcid) (drop 6 buf)" using * by simp
  show "v < 2 ^ 32"
    using be_nat_bound [of "map ((!) buf) [1, 2, 3, 4]"] *(3) by simp
qed

lemma parse_cids_no_panic [simp, panic_free]: "parse_cids buf \<noteq> Panic"
  by (auto simp: parse_cids_def res_bind_eq_Panic buf_Ok buf_Panic idxs_def Let_def)

section \<open>Encoders\<close>

text \<open>Each encoder writes the layout and leaves the rest of the buffer as it was.\<close>

lemma cids_bytes_append:
  "[f] @ be_bytes 4 v @ [word_of_nat (length dcid)] @ dcid @ [word_of_nat (length scid)] @ scid @ r
     = cids_bytes f v dcid scid @ r"
  by (simp add: cids_bytes_def)

lemma encode_initial_header_spec:
  assumes "length (initial_bytes dcid scid token pn_len payload_len) \<le> length buf"
    and "length token \<le> MAX_VARINT" and "payload_len \<le> MAX_VARINT"
  shows "encode_initial_header dcid scid token pn_len payload_len buf
    = Ok (wr buf (initial_bytes dcid scid token pn_len payload_len))"
  using assms
  by (simp add: encode_initial_header_def initial_bytes_def cids_bytes_def Let_def wr_start
      wire_simps del: put_bytes.simps put_varint.simps be_bytes_numeral)

lemma encode_handshake_header_spec:
  assumes "length (handshake_bytes dcid scid pn_len payload_len) \<le> length buf"
    and "payload_len \<le> MAX_VARINT"
  shows "encode_handshake_header dcid scid pn_len payload_len buf
    = Ok (wr buf (handshake_bytes dcid scid pn_len payload_len))"
  using assms
  by (simp add: encode_handshake_header_def handshake_bytes_def cids_bytes_def Let_def wr_start
      wire_simps del: put_bytes.simps put_varint.simps be_bytes_numeral)

lemma encode_short_header_spec:
  assumes "1 + length dcid \<le> length buf"
  shows "encode_short_header dcid first_byte buf = Ok (wr buf ([first_byte] @ dcid))"
  using assms
  by (simp add: encode_short_header_def Let_def wr_start wire_simps del: put_bytes.simps)

section \<open>Parsers on what the encoders wrote\<close>

lemma long_first_byte:
  "(0xC0 OR (x AND 0x03) :: byte) AND 0x80 \<noteq> 0" "(0xE0 OR (x AND 0x03) :: byte) AND 0x80 \<noteq> 0"
  by (simp_all add: word_ao_dist and.assoc)

lemma parse_initial_header_bytes:
  assumes "length dcid < 256" and "length scid < 256" and "length token \<le> MAX_VARINT"
    and "payload_len \<le> MAX_VARINT" and "payload_len < 2 ^ uw"
    and "length (initial_bytes dcid scid token pn_len payload_len @ rest) < 2 ^ uw"
  shows "parse_initial_header uw (initial_bytes dcid scid token pn_len payload_len @ rest)
    = Ok (\<lparr>ih_version = QUIC_VERSION_1, ih_dcid = dcid, ih_scid = scid, ih_token = token,
            ih_pn_offset = length (initial_bytes dcid scid token pn_len payload_len),
            ih_payload_length = payload_len\<rparr>,
          length (initial_bytes dcid scid token pn_len payload_len))"
  using assms
  by (simp add: parse_initial_header_def initial_bytes_def parse_cids_bytes long_first_byte
      QUIC_VERSION_1_def decode_varint_bytes Let_def add.assoc)

lemma parse_handshake_header_bytes:
  assumes "length dcid < 256" and "length scid < 256"
    and "payload_len \<le> MAX_VARINT" and "payload_len < 2 ^ uw"
  shows "parse_handshake_header uw (handshake_bytes dcid scid pn_len payload_len @ rest)
    = Ok (\<lparr>hh_version = QUIC_VERSION_1, hh_dcid = dcid, hh_scid = scid,
            hh_pn_offset = length (handshake_bytes dcid scid pn_len payload_len),
            hh_payload_length = payload_len\<rparr>,
          length (handshake_bytes dcid scid pn_len payload_len))"
  using assms
  by (simp add: parse_handshake_header_def handshake_bytes_def parse_cids_bytes long_first_byte
      QUIC_VERSION_1_def decode_varint_bytes Let_def add.assoc)

section \<open>Totality\<close>

lemma parse_handshake_header_no_panic [panic_free]: "parse_handshake_header uw buf \<noteq> Panic"
  by (auto simp: parse_handshake_header_def res_bind_eq_Panic buf_Panic Let_def
      dest: parse_cids_Ok(2))

lemma long_type_cases: "drop_bit 4 ((b :: byte) AND 0x30) \<in> {0, 1, 2, 3}"
proof -
  have "unat (b AND 0x30) \<le> unat (0x30 :: byte)"
    by (rule word_and_le1 [THEN word_le_nat_alt [THEN iffD1]])
  then have "unat (drop_bit 4 (b AND 0x30)) \<le> 3"
    by (simp add: drop_bit_eq_div unat_div_distrib)
  then consider "unat (drop_bit 4 (b AND 0x30)) = 0" | "unat (drop_bit 4 (b AND 0x30)) = 1"
    | "unat (drop_bit 4 (b AND 0x30)) = 2" | "unat (drop_bit 4 (b AND 0x30)) = 3"
    by linarith
  then show ?thesis by cases (simp_all add: word_unat_eq_iff)
qed

lemma parse_long_header_no_panic [panic_free]: "parse_long_header buf \<noteq> Panic"
  using long_type_cases
  by (fastforce simp: parse_long_header_def res_bind_eq_Panic buf_Panic Let_def
      dest: parse_cids_Ok(2) split: if_splits)

lemma parse_initial_header_no_panic [panic_free]:
  assumes "length buf + 2 ^ 62 \<le> 2 ^ uw"
  shows "parse_initial_header uw buf \<noteq> Panic"
proof -
  have "parse_initial_header uw buf \<noteq> Panic"
    if c: "parse_cids buf = Ok (f, v, d, s, pos)"
      and t: "decode_varint (drop pos buf) = Ok (token_len, consumed)" for f v d s pos token_len consumed
  proof -
    have pos: "pos + consumed \<le> length buf" "token_len < 2 ^ 62"
      using parse_cids_Ok(2) [OF c] decode_varint_consumed [OF t] decode_varint_MAX [OF t]
      by (auto simp: MAX_VARINT_def)
    then have small: "pos + consumed + token_len < 2 ^ uw" "token_len < 2 ^ uw"
      using assms by linarith+
    show ?thesis
      using c t pos small parse_cids_Ok(2) [OF c]
      by (auto simp: parse_initial_header_def res_bind_eq_Panic buf_Panic buf_Ok Let_def
          split: if_splits)
  qed
  then show ?thesis
    by (auto simp: parse_initial_header_def res_bind_eq_Panic buf_Panic buf_Ok Let_def
        dest: parse_cids_Ok(2))
qed

section \<open>Properties\<close>

text \<open>
  An Initial header written by the encoder into any buffer that holds it is parsed back
  field by field, on every target width that can hold the buffer, and the bytes behind the
  header are untouched.
\<close>

theorem initial_header_roundtrip:
  assumes "length dcid < 256" and "length scid < 256" and "length token \<le> MAX_VARINT"
    and "payload_len \<le> MAX_VARINT" and "payload_len < 2 ^ uw" and "length buf < 2 ^ uw"
    and "length (initial_bytes dcid scid token pn_len payload_len) \<le> length buf"
  shows "\<exists>buf' n. encode_initial_header dcid scid token pn_len payload_len buf = Ok (buf', n)
    \<and> length buf' = length buf \<and> drop n buf' = drop n buf
    \<and> parse_initial_header uw buf' =
        Ok (\<lparr>ih_version = QUIC_VERSION_1, ih_dcid = dcid, ih_scid = scid, ih_token = token,
              ih_pn_offset = n, ih_payload_length = payload_len\<rparr>, n)"
proof -
  let ?h = "initial_bytes dcid scid token pn_len payload_len"
  have "length (?h @ drop (length ?h) buf) < 2 ^ uw" using assms(6,7) by simp
  then show ?thesis
    using encode_initial_header_spec [OF assms(7,3,4)] parse_initial_header_bytes [OF assms(1-5)]
      assms(7)
    by (simp add: wr_def)
qed

theorem initial_header_roundtrip_witness:
  "\<exists>buf' n. encode_initial_header [1, 2] [3] [] 2 1180 (replicate 20 0) = Ok (buf', n)
    \<and> length buf' = 20 \<and> drop n buf' = drop n (replicate 20 0)
    \<and> parse_initial_header 32 buf' =
        Ok (\<lparr>ih_version = QUIC_VERSION_1, ih_dcid = [1, 2], ih_scid = [3], ih_token = [],
              ih_pn_offset = n, ih_payload_length = 1180\<rparr>, n)"
  using initial_header_roundtrip [of "[1, 2]" "[3]" "[]" 1180 32 "replicate 20 0" 2]
  by (simp add: initial_bytes_def varint_len_def MAX_VARINT_def)

text \<open>
  The long-header parsers never index outside the datagram when \<^verbatim>\<open>usize\<close> can hold the sum of
  a 62-bit length and a buffer length, as on 64-bit targets: every malformed packet is an error
  value, never a panic.
\<close>

theorem long_header_parsers_total:
  assumes "length buf + 2 ^ 62 \<le> 2 ^ uw"
  shows "parse_initial_header uw buf \<noteq> Panic \<and> parse_handshake_header uw buf \<noteq> Panic
    \<and> parse_long_header buf \<noteq> Panic"
  using assms by (simp add: panic_free)

theorem long_header_parsers_total_witness:
  "parse_initial_header 64 [0xC0, 0, 0, 0, 1, 0] \<noteq> Panic
    \<and> parse_handshake_header 64 [0xC0, 0, 0, 0, 1, 0] \<noteq> Panic
    \<and> parse_long_header [0xC0, 0, 0, 0, 1, 0] \<noteq> Panic"
  using long_header_parsers_total [of "[0xC0, 0, 0, 0, 1, 0]" 64] by simp

text \<open>
  The destination connection id that the demultiplexer takes from a raw long-header
  datagram is the one the header parser reports.
\<close>

theorem decode_dcid_agrees:
  assumes "parse_long_header buf = Ok (Long h, n)"
  shows "decode_dcid buf k = Ok (Some (lh_dcid h))"
proof -
  obtain f v d s pos where c: "parse_cids buf = Ok (f, v, d, s, pos)" and h: "lh_dcid h = d"
    using assms by (auto simp: parse_long_header_def res_bind_eq_Ok Let_def split: if_splits)
  note facts = parse_cids_Ok [OF c]
  have "6 + length d \<le> length buf"
    using facts(7) facts(1,2) by (metis (no_types, opaque_lifting) Nat.le_diff_conv2 add.commute
      dual_order.trans le_add2 length_drop length_take min.bounded_iff numeral_le_iff order_refl
      semiring_norm(69,70,72))
  then show ?thesis
    using facts h by (auto simp: decode_dcid_def Let_def)
qed

theorem decode_dcid_agrees_witness:
  "decode_dcid [0xC0, 0, 0, 0, 1, 2, 8, 9, 0] 4 = Ok (Some [8, 9])"
proof -
  have "parse_long_header [0xC0, 0, 0, 0, 1, 2, 8, 9, 0] =
    Ok (Long \<lparr>lh_packet_type = Initial_pkt, lh_version = 1, lh_dcid = [8, 9], lh_scid = [],
          lh_type_specific_bits = 0\<rparr>, 9)"
    by (simp add: parse_long_header_def parse_cids_def idxs_def)
  from decode_dcid_agrees [OF this, of 4] show ?thesis by simp
qed

end
