(* ===== verification/Coalesce.thy ===== *)
theory Coalesce
  imports Packet_Header
begin

unbundle bit_operations_syntax

text \<open>
  Splitting a datagram into coalesced packets (\<^verbatim>\<open>src/packet/coalesce.rs\<close>). The iterator is a
  state with a \<open>next\<close> step, and \<open>packets\<close> is the \<^verbatim>\<open>for\<close> loop of the receive path over it, a
  partial function because the loop need not end. On targets whose \<^verbatim>\<open>usize\<close> can hold a 62-bit
  length plus a position it ends and cuts the datagram into consecutive pieces; on 32-bit
  targets a datagram is exhibited on which it does not end, and one whose first packet crashes
  the Initial header parser.
\<close>

section \<open>The code\<close>

record coalesced =
  cp_buf :: bytes
  cp_offset :: nat

definition coalesced_new :: "bytes \<Rightarrow> coalesced" where
  "coalesced_new datagram = \<lparr>cp_buf = datagram, cp_offset = 0\<rparr>"

text \<open>
  The boundary of the long-header packet at the front of \<open>remaining\<close>: \<open>Inl e\<close> for an error,
  \<open>Inr None\<close> where the packet takes the rest of the datagram, \<open>Inr (Some total)\<close> for its size.
  \<open>usize_add\<close> marks the two additions of a length from the wire.
\<close>

definition long_packet_end :: "nat \<Rightarrow> coalesced \<Rightarrow> bytes \<Rightarrow> byte \<Rightarrow> nat option res" where
  "long_packet_end uw self remaining first_byte =
    (if length remaining < 6 then Err (BufferTooSmall 6)
     else
       res_bind (idxs remaining [1, 2, 3, 4]) (\<lambda>v.
       if be_nat v = 0 then Ok None
       else
         res_bind (idx remaining 5) (\<lambda>b5.
         let dcid_len = unat b5; pos = 6
         in if pos + dcid_len \<ge> length remaining then Err (BufferTooSmall (pos + dcid_len + 1))
            else
              let pos = pos + dcid_len
              in res_bind (idx remaining pos) (\<lambda>b.
                 let scid_len = unat b; pos = pos + 1
                 in if pos + scid_len > length remaining then Err (BufferTooSmall (pos + scid_len))
                    else
                      let pos = pos + scid_len;
                          pkt_type = drop_bit 4 (first_byte AND 0x30)
                      in res_bind
                           (if pkt_type = 0 then
                              res_bind (slice_from remaining pos) (\<lambda>s.
                              res_bind (decode_varint s) (\<lambda>(token_len, consumed).
                              let pos = usize_add uw (pos + consumed) (as_usize uw token_len)
                              in if pos > length remaining then Err (BufferTooSmall pos)
                                 else Ok pos))
                            else Ok pos)
                           (\<lambda>pos.
                             if pkt_type = 3 then Ok None
                             else
                               res_bind (slice_from remaining pos) (\<lambda>s.
                               res_bind (decode_varint s) (\<lambda>(payload_length, consumed).
                               let pos = pos + consumed;
                                   total = usize_add uw pos (as_usize uw payload_length)
                               in if total > length remaining
                                  then Err (BufferTooSmall (length (cp_buf self) + total))
                                  else Ok (Some total))))))))"

definition coalesced_next :: "nat \<Rightarrow> coalesced \<Rightarrow> (bytes res \<times> coalesced) option" where
  "coalesced_next uw self =
    (if cp_offset self \<ge> length (cp_buf self) then None
     else
       let remaining = drop (cp_offset self) (cp_buf self);
           first_byte = remaining ! 0;
           finished = self\<lparr>cp_offset := length (cp_buf self)\<rparr>
       in if first_byte AND 0x80 \<noteq> 0 then
            case long_packet_end uw self remaining first_byte of
              Ok None \<Rightarrow> Some (Ok remaining, finished)
            | Ok (Some tot) \<Rightarrow>
                Some (slice (cp_buf self) (cp_offset self) (cp_offset self + tot),
                      self\<lparr>cp_offset := cp_offset self + tot\<rparr>)
            | Err e \<Rightarrow> Some (Err e, finished)
            | Panic \<Rightarrow> Some (Panic, self)
          else Some (Ok remaining, finished))"

partial_function (option) packets :: "nat \<Rightarrow> coalesced \<Rightarrow> bytes res list option" where
  "packets uw self =
    (case coalesced_next uw self of
       None \<Rightarrow> Some []
     | Some (r, self') \<Rightarrow> Option.bind (packets uw self') (\<lambda>rs. Some (r # rs)))"

section \<open>One step\<close>

lemma long_packet_end_no_panic [panic_free]: "long_packet_end uw self remaining b \<noteq> Panic"
  by (auto simp: long_packet_end_def res_bind_eq_Panic res_bind_eq_Ok buf_Panic buf_Ok idxs_def
      Let_def simp del: be_nat.simps split: if_splits)

lemma long_packet_end_bound:
  "long_packet_end uw self remaining b = Ok (Some tot) \<Longrightarrow> tot \<le> length remaining"
  by (auto simp: long_packet_end_def res_bind_eq_Ok Let_def split: if_splits)

text \<open>On a wide enough target the boundary lies behind the header that was read.\<close>

lemma long_packet_end_progress:
  assumes "long_packet_end uw self remaining b = Ok (Some tot)"
    and "length remaining + 2 ^ 62 \<le> 2 ^ uw"
  shows "7 \<le> tot"
proof -
  have len: "usize_add uw p (as_usize uw v) = p + v"
    if "decode_varint s = Ok (v, n)" "p \<le> length remaining" for s v n p
  proof -
    have "v < 2 ^ 62" using decode_varint_MAX [OF that(1)] by (simp add: MAX_VARINT_def)
    with that(2) assms(2) have "p + v < 2 ^ uw" "v < 2 ^ uw" by linarith+
    then show ?thesis by simp
  qed
  have fits: "p + n \<le> length remaining"
    if "decode_varint (drop p remaining) = Ok (v, n)" "p \<le> length remaining" for p v n
    using decode_varint_consumed [OF that(1)] that(2) by (simp; arith)
  show ?thesis
    using assms(1)
    by (auto simp: long_packet_end_def res_bind_eq_Ok buf_Ok Let_def len fits split: if_splits)
qed


text \<open>One step yields the next consecutive piece of the datagram, or an error and the end.\<close>

lemma coalesced_next_step:
  assumes "coalesced_next uw self = Some (r, self')"
    and "length (cp_buf self) + 2 ^ 62 \<le> 2 ^ uw"
  shows "cp_buf self' = cp_buf self"
    and "cp_offset self < cp_offset self'" and "cp_offset self' \<le> length (cp_buf self)"
    and "r \<noteq> Panic"
    and "r = Ok pkt \<Longrightarrow>
      pkt = take (cp_offset self' - cp_offset self) (drop (cp_offset self) (cp_buf self))"
    and "r = Err e \<Longrightarrow> cp_offset self' = length (cp_buf self)"
proof -
  let ?rem = "drop (cp_offset self) (cp_buf self)"
  have off: "cp_offset self < length (cp_buf self)"
    using assms(1) by (auto simp: coalesced_next_def split: if_splits)
  have wide: "length ?rem + 2 ^ 62 \<le> 2 ^ uw" using assms(2) by simp
  have piece: "0 < tot \<and> cp_offset self + tot \<le> length (cp_buf self)"
    if "long_packet_end uw self ?rem (?rem ! 0) = Ok (Some tot)" for tot
    using long_packet_end_bound [OF that] long_packet_end_progress [OF that wide] off by simp
  show "cp_buf self' = cp_buf self" "cp_offset self < cp_offset self'"
    "cp_offset self' \<le> length (cp_buf self)" "r \<noteq> Panic"
    "r = Ok pkt \<Longrightarrow> pkt = take (cp_offset self' - cp_offset self) ?rem"
    "r = Err e \<Longrightarrow> cp_offset self' = length (cp_buf self)"
    using assms(1) off piece long_packet_end_no_panic [of uw self ?rem "?rem ! 0"]
    by (auto simp: coalesced_next_def Let_def split: if_splits res.splits option.splits)
qed

section \<open>The whole datagram\<close>

definition is_Ok :: "'a res \<Rightarrow> bool" where
  "is_Ok r = (case r of Ok _ \<Rightarrow> True | _ \<Rightarrow> False)"

fun ok_bytes :: "bytes res list \<Rightarrow> bytes" where
  "ok_bytes [] = []"
| "ok_bytes (Ok pkt # rs) = pkt @ ok_bytes rs"
| "ok_bytes (r # rs) = ok_bytes rs"

lemma packets_spec:
  assumes "length (cp_buf self) + 2 ^ 62 \<le> 2 ^ uw"
  shows "\<exists>rs. packets uw self = Some rs \<and> Panic \<notin> set rs \<and> Ok [] \<notin> set rs
    \<and> (\<forall>r \<in> set (butlast rs). is_Ok r)
    \<and> (\<exists>rest. drop (cp_offset self) (cp_buf self) = ok_bytes rs @ rest
          \<and> (list_all is_Ok rs \<longrightarrow> rest = []))"
  using assms
proof (induction "length (cp_buf self) - cp_offset self" arbitrary: self rule: less_induct)
  case less
  show ?case
  proof (cases "coalesced_next uw self")
    case None
    then have "length (cp_buf self) \<le> cp_offset self"
      by (auto simp: coalesced_next_def Let_def split: if_splits res.splits option.splits)
    with None show ?thesis by (subst packets.simps) simp
  next
    case (Some p)
    then obtain r self' where next': "coalesced_next uw self = Some (r, self')" by (cases p) auto
    note step = coalesced_next_step [OF next' less.prems]
    have smaller: "length (cp_buf self') - cp_offset self' < length (cp_buf self) - cp_offset self"
      using step by simp
    have wide: "length (cp_buf self') + 2 ^ 62 \<le> 2 ^ uw" using less.prems step(1) by simp
    obtain rs rest where rs: "packets uw self' = Some rs" "Panic \<notin> set rs" "Ok [] \<notin> set rs"
      "\<forall>r \<in> set (butlast rs). is_Ok r"
      "drop (cp_offset self') (cp_buf self') = ok_bytes rs @ rest"
      "list_all is_Ok rs \<longrightarrow> rest = []"
      using less.hyps [OF smaller wide] by blast
    have all: "packets uw self = Some (r # rs)"
      by (subst packets.simps) (simp add: next' rs(1))
    show ?thesis
    proof (cases r)
      case (Ok pkt)
      have "drop (cp_offset self) (cp_buf self) = pkt @ drop (cp_offset self') (cp_buf self)"
        using step(2) step(5) [OF Ok]
        by (metis append_take_drop_id drop_drop le_add_diff_inverse2 less_imp_le)
      moreover have "pkt \<noteq> []" using step(2,3) step(5) [OF Ok] by auto
      ultimately show ?thesis
        using all rs step(1) by (auto simp: Ok is_Ok_def)
    next
      case (Err e)
      then have "rs = []"
        using step(1) step(6) [OF Err] rs(1)
        by (subst (asm) packets.simps) (simp add: coalesced_next_def)
      then show ?thesis using all by (auto simp: Err is_Ok_def)
    next
      case Panic
      then show ?thesis using step(4) by simp
    qed
  qed
qed

section \<open>Encoded packets\<close>

lemma long_type_bits:
  "drop_bit 4 ((0xC0 OR (x AND 0x03) :: byte) AND 0x30) = 0"
  "drop_bit 4 ((0xE0 OR (x AND 0x03) :: byte) AND 0x30) = 2"
  by (simp_all add: word_ao_dist and.assoc)

lemma long_packet_end_handshake:
  assumes "length dcid < 256" and "length scid < 256" and "length payload \<le> MAX_VARINT"
    and "length (handshake_bytes dcid scid pn_len (length payload) @ payload @ rest) < 2 ^ uw"
  shows "long_packet_end uw self (handshake_bytes dcid scid pn_len (length payload) @ payload @ rest)
      (0xE0 OR ((word_of_nat pn_len - 1) AND 0x03))
    = Ok (Some (length (handshake_bytes dcid scid pn_len (length payload)) + length payload))"
proof -
  let ?f = "0xE0 OR ((word_of_nat pn_len - 1) AND 0x03) :: byte"
  let ?tail = "varint_bytes (length payload) @ payload @ rest"
  have buf: "handshake_bytes dcid scid pn_len (length payload) @ payload @ rest
      = cids_bytes ?f QUIC_VERSION_1 dcid scid @ ?tail"
    by (simp add: handshake_bytes_def)
  have len: "length (cids_bytes ?f QUIC_VERSION_1 dcid scid @ ?tail)
      = 7 + length dcid + length scid + length ?tail" by simp
  have tail: "drop (7 + length dcid + length scid) (cids_bytes ?f QUIC_VERSION_1 dcid scid @ ?tail) = ?tail"
    by simp
  have v: "QUIC_VERSION_1 < 2 ^ 32" by (simp add: QUIC_VERSION_1_def)
  show ?thesis
    using assms unfolding buf
    by (simp add: long_packet_end_def cids_bytes_read [OF v] len tail unat_byte_of_nat Let_def
        long_type_bits decode_varint_bytes
        del: be_bytes_numeral length_append drop_append take_append)
       (simp add: QUIC_VERSION_1_def handshake_bytes_def)
qed

lemma long_packet_end_initial:
  assumes "length dcid < 256" and "length scid < 256" and "length token \<le> MAX_VARINT"
    and "length payload \<le> MAX_VARINT"
    and "length (initial_bytes dcid scid token pn_len (length payload) @ payload @ rest) < 2 ^ uw"
  shows "long_packet_end uw self (initial_bytes dcid scid token pn_len (length payload) @ payload @ rest)
      (0xC0 OR ((word_of_nat pn_len - 1) AND 0x03))
    = Ok (Some (length (initial_bytes dcid scid token pn_len (length payload)) + length payload))"
proof -
  let ?f = "0xC0 OR ((word_of_nat pn_len - 1) AND 0x03) :: byte"
  let ?p = "payload @ rest"
  let ?tail = "varint_bytes (length token) @ token @ varint_bytes (length payload) @ ?p"
  have buf: "initial_bytes dcid scid token pn_len (length payload) @ ?p
      = cids_bytes ?f QUIC_VERSION_1 dcid scid @ ?tail"
    by (simp add: initial_bytes_def)
  have len: "length (cids_bytes ?f QUIC_VERSION_1 dcid scid @ ?tail)
      = 7 + length dcid + length scid + (varint_len (length token) + length token
          + varint_len (length payload) + length ?p)" by simp
  have tail: "drop (7 + length dcid + length scid) (cids_bytes ?f QUIC_VERSION_1 dcid scid @ ?tail) = ?tail"
    and tail2: "drop (7 + length dcid + length scid + varint_len (length token) + length token)
      (cids_bytes ?f QUIC_VERSION_1 dcid scid @ ?tail) = varint_bytes (length payload) @ ?p"
    by simp_all
  have v: "QUIC_VERSION_1 < 2 ^ 32" by (simp add: QUIC_VERSION_1_def)
  show ?thesis
    using assms unfolding buf len
    by (simp add: long_packet_end_def cids_bytes_read [OF v] len tail tail2 unat_byte_of_nat
        Let_def long_type_bits decode_varint_bytes
        del: be_bytes_numeral length_append drop_append take_append)
       (simp add: QUIC_VERSION_1_def initial_bytes_def)
qed

text \<open>A packet whose header was written by one of the long-header encoders.\<close>

inductive encoded_long :: "bytes \<Rightarrow> bool" where
  encoded_initial: "length dcid < 256 \<Longrightarrow> length scid < 256 \<Longrightarrow> length token \<le> MAX_VARINT \<Longrightarrow>
    length payload \<le> MAX_VARINT \<Longrightarrow>
    encoded_long (initial_bytes dcid scid token pn_len (length payload) @ payload)"
| encoded_handshake: "length dcid < 256 \<Longrightarrow> length scid < 256 \<Longrightarrow> length payload \<le> MAX_VARINT \<Longrightarrow>
    encoded_long (handshake_bytes dcid scid pn_len (length payload) @ payload)"

lemma encoded_long_end:
  assumes "encoded_long pkt" and "length (pkt @ rest) < 2 ^ uw"
  shows "pkt \<noteq> [] \<and> (pkt ! 0) AND 0x80 \<noteq> 0
    \<and> long_packet_end uw self (pkt @ rest) (pkt ! 0) = Ok (Some (length pkt))"
  using assms
proof cases
  case (encoded_initial dcid scid token payload pn_len)
  have "pkt ! 0 = 0xC0 OR ((word_of_nat pn_len - 1) AND 0x03)" and "pkt \<noteq> []"
    by (simp_all add: encoded_initial initial_bytes_def cids_bytes_def)
  with encoded_initial assms(2) long_packet_end_initial [of dcid scid token payload pn_len rest uw self]
  show ?thesis by (simp add: long_first_byte)
next
  case (encoded_handshake dcid scid payload pn_len)
  have "pkt ! 0 = 0xE0 OR ((word_of_nat pn_len - 1) AND 0x03)" and "pkt \<noteq> []"
    by (simp_all add: encoded_handshake handshake_bytes_def cids_bytes_def)
  with encoded_handshake assms(2) long_packet_end_handshake [of dcid scid payload pn_len rest uw self]
  show ?thesis by (simp add: long_first_byte)
qed

lemma packets_encoded:
  assumes "list_all encoded_long pkts" and "fin = [] \<or> fin ! 0 AND 0x80 = 0"
    and "cp_buf self = done @ concat pkts @ fin" and "cp_offset self = length done"
    and "length (cp_buf self) < 2 ^ uw"
  shows "packets uw self = Some (map Ok pkts @ (if fin = [] then [] else [Ok fin]))"
  using assms
proof (induction pkts arbitrary: self "done")
  case Nil
  have stop: "packets uw (self\<lparr>cp_offset := length (cp_buf self)\<rparr>) = Some []"
    by (subst packets.simps) (simp add: coalesced_next_def)
  show ?case
  proof (cases "fin = []")
    case True
    then have "self\<lparr>cp_offset := length (cp_buf self)\<rparr> = self" using Nil by simp
    with stop True show ?thesis by simp
  next
    case False
    then have "coalesced_next uw self = Some (Ok fin, self\<lparr>cp_offset := length (cp_buf self)\<rparr>)"
      using Nil by (simp add: coalesced_next_def Let_def)
    with False stop show ?thesis by (subst packets.simps) simp
  qed
next
  case (Cons pkt pkts)
  let ?rest = "concat pkts @ fin"
  let ?self' = "self\<lparr>cp_offset := length done + length pkt\<rparr>"
  from Cons.prems have "encoded_long pkt" and "length (pkt @ ?rest) < 2 ^ uw" by auto
  note pkt = encoded_long_end [OF this]
  have rem: "drop (cp_offset self) (cp_buf self) = pkt @ ?rest"
    using Cons.prems by simp
  have "coalesced_next uw self = Some (Ok pkt, ?self')"
    using pkt Cons.prems by (simp add: coalesced_next_def Let_def rem nth_append)
  moreover have "packets uw ?self' = Some (map Ok pkts @ (if fin = [] then [] else [Ok fin]))"
    using Cons.prems by (intro Cons.IH [of _ "done @ pkt"]) auto
  ultimately show ?case by (subst packets.simps) simp
qed

section \<open>Properties\<close>

text \<open>
  C3: a datagram that holds any number of encoded Initial and Handshake packets, and possibly a
  short-header packet at its end, is split into exactly these packets.
\<close>

theorem coalesced_split:
  assumes "list_all encoded_long pkts" and "fin = [] \<or> fin ! 0 AND 0x80 = 0"
    and "length (concat pkts @ fin) < 2 ^ uw"
  shows "packets uw (coalesced_new (concat pkts @ fin))
    = Some (map Ok pkts @ (if fin = [] then [] else [Ok fin]))"
  using packets_encoded [OF assms(1,2), of "coalesced_new (concat pkts @ fin)" "[]" uw] assms(3)
  by (simp add: coalesced_new_def)

theorem coalesced_split_witness:
  "packets 32 (coalesced_new (concat [handshake_bytes [] [7] 1 2 @ [5, 6]] @ [0x40, 9]))
    = Some [Ok (handshake_bytes [] [7] 1 2 @ [5, 6]), Ok [0x40, 9]]"
proof -
  have "encoded_long (handshake_bytes [] [7] 1 2 @ [5, 6])"
    using encoded_handshake [of "[]" "[7]" "[5, 6]" 1]
    by (simp add: MAX_VARINT_def flip: numeral_2_eq_2)
  moreover have "length (handshake_bytes [] [7] 1 2) = 9"
    by (simp add: handshake_bytes_def varint_len_def)
  ultimately show ?thesis
    using coalesced_split [of "[handshake_bytes [] [7] 1 2 @ [5, 6]]" "[0x40, 9]" 32] by simp
qed

text \<open>
  C2: on targets whose \<^verbatim>\<open>usize\<close> holds a 62-bit length plus a position, the loop over the packets
  of an arbitrary datagram ends without a panic; the packets are non-empty consecutive pieces of
  the datagram, only the last item can be an error, and without an error the pieces are the
  whole datagram.
\<close>

theorem coalesced_terminates:
  assumes "length datagram + 2 ^ 62 \<le> 2 ^ uw"
  shows "\<exists>rs rest. packets uw (coalesced_new datagram) = Some rs
    \<and> Panic \<notin> set rs \<and> Ok [] \<notin> set rs \<and> (\<forall>r \<in> set (butlast rs). is_Ok r)
    \<and> datagram = ok_bytes rs @ rest \<and> (list_all is_Ok rs \<longrightarrow> rest = [])"
  using packets_spec [of "coalesced_new datagram" uw] assms
  by (auto simp: coalesced_new_def)

theorem coalesced_terminates_witness:
  "\<exists>rs rest. packets 64 (coalesced_new [0xE0, 0, 0, 0, 1]) = Some rs
    \<and> Panic \<notin> set rs \<and> Ok [] \<notin> set rs \<and> (\<forall>r \<in> set (butlast rs). is_Ok r)
    \<and> [0xE0, 0, 0, 0, 1] = ok_bytes rs @ rest \<and> (list_all is_Ok rs \<longrightarrow> rest = [])"
  using coalesced_terminates [of "[0xE0, 0, 0, 0, 1]" 64] by simp

text \<open>
  On a 32-bit target (release build) the loop over the packets of this 15-byte datagram does
  not end: the Length field is chosen so that the packet size wraps to 0 and the iterator stays
  where it is.
\<close>

theorem coalesced_diverges_32:
  "packets 32 (coalesced_new [0xE0, 0, 0, 0, 1, 0, 0, 0xC0, 0, 0, 0, 0xFF, 0xFF, 0xFF, 0xF1]) = None"
proof (rule ccontr)
  let ?s = "coalesced_new [0xE0, 0, 0, 0, 1, 0, 0, 0xC0, 0, 0, 0, 0xFF, 0xFF, 0xFF, 0xF1]"
  have stuck: "coalesced_next 32 ?s = Some (Ok [], ?s)"
    by (simp add: coalesced_next_def coalesced_new_def long_packet_end_def idxs_def
        decode_varint_Cons varint_wire_len_def usize_add_def as_usize_def)
  assume "packets 32 ?s \<noteq> None"
  then obtain rs where rs: "packets 32 ?s = Some rs" by blast
  then have "rs = Ok [] # rs"
    by (subst (asm) packets.simps) (use rs stuck in simp)
  then show False by simp
qed

text \<open>
  On a 32-bit target (release build) this 41-byte datagram passes the splitter as one Initial
  packet and makes the Initial header parser slice out of range: the token length wraps the end
  of the token in front of its start.
\<close>

theorem initial_header_panics_32:
  "let datagram = [0xC0, 0, 0, 0, 1, 0, 0, 0xC0, 0x20, 0, 0, 0xFF, 0xFF, 0xFF, 0xF9] @ replicate 26 0
   in packets 32 (coalesced_new datagram) = Some [Ok datagram]
      \<and> parse_initial_header 32 datagram = Panic"
proof -
  define z where "z = replicate 26 (0 :: byte)"
  let ?d = "[0xC0, 0, 0, 0, 1, 0, 0, 0xC0, 0x20, 0, 0, 0xFF, 0xFF, 0xFF, 0xF9] @ z"
  have z: "length z = 26" by (simp add: z_def)
  note evals = Let_def idxs_def decode_varint_Cons varint_wire_len_def usize_add_def as_usize_def z
  have "coalesced_next 32 (coalesced_new ?d) = Some (Ok ?d, \<lparr>cp_buf = ?d, cp_offset = 41\<rparr>)"
    by (simp add: coalesced_next_def coalesced_new_def long_packet_end_def evals)
  moreover have "packets 32 \<lparr>cp_buf = ?d, cp_offset = 41\<rparr> = Some []"
    by (subst packets.simps) (simp add: coalesced_next_def z)
  ultimately have "packets 32 (coalesced_new ?d) = Some [Ok ?d]"
    by (subst packets.simps) simp
  moreover have "parse_initial_header 32 ?d = Panic"
    by (simp add: parse_initial_header_def parse_cids_def slice_def evals)
  ultimately show ?thesis by (simp add: z_def)
qed

end
