(* ===== verification/Frame.thy ===== *)
theory Frame
  imports Varint
begin

unbundle bit_operations_syntax

text \<open>
  The QUIC frame codec (\<^verbatim>\<open>src/frame/mod.rs\<close>). \<open>decode\<close> takes the width of \<^verbatim>\<open>usize\<close> because it
  casts lengths from the wire; \<open>encode\<close> writes through a cursor. \<open>frame_bytes\<close> is the wire image
  of a frame. The theory proves that the decoder never panics, makes progress and returns
  well-formed frames only, that the encoder writes the wire image, and that the two are inverse;
  \<open>frame\<close> interprets the codec contract, which gives the round trip of a whole packet payload.
\<close>

section \<open>The code\<close>

record ecn_counts =
  ect0 :: nat
  ect1 :: nat
  ecn_ce :: nat

record ack_frame =
  largest_ack :: nat
  ack_delay :: nat
  first_ack_range :: nat
  ack_ranges :: bytes
  ecn :: "ecn_counts option"

record reset_stream_frame =
  rst_stream_id :: nat
  rst_error_code :: nat
  rst_final_size :: nat

record stop_sending_frame =
  ss_stream_id :: nat
  ss_error_code :: nat

record crypto_frame =
  cr_offset :: nat
  cr_data :: bytes

record new_token_frame =
  nt_token :: bytes

record stream_frame =
  st_stream_id :: nat
  st_offset :: nat
  st_data :: bytes
  st_fin :: bool

record max_stream_data_frame =
  msd_stream_id :: nat
  msd_max_data :: nat

record max_streams_frame =
  ms_bidirectional :: bool
  ms_max_streams :: nat

record stream_data_blocked_frame =
  sdb_stream_id :: nat
  sdb_data_limit :: nat

record streams_blocked_frame =
  sb_bidirectional :: bool
  sb_max_streams :: nat

record new_connection_id_frame =
  nci_sequence_number :: nat
  nci_retire_prior_to :: nat
  nci_connection_id :: bytes
  nci_stateless_reset_token :: bytes

record connection_close_frame =
  cc_is_application :: bool
  cc_error_code :: nat
  cc_frame_type :: nat
  cc_reason :: bytes

datatype frame =
    Padding
  | Ping
  | Ack ack_frame
  | ResetStream reset_stream_frame
  | StopSending stop_sending_frame
  | Crypto crypto_frame
  | NewToken new_token_frame
  | Stream stream_frame
  | MaxData nat
  | MaxStreamData max_stream_data_frame
  | MaxStreams max_streams_frame
  | DataBlocked nat
  | StreamDataBlocked stream_data_blocked_frame
  | StreamsBlocked streams_blocked_frame
  | NewConnectionId new_connection_id_frame
  | RetireConnectionId nat
  | PathChallenge bytes
  | PathResponse bytes
  | ConnectionClose connection_close_frame
  | HandshakeDone

text \<open>The iterator over the raw ACK ranges: its state is the rest of the bytes.\<close>

definition ack_range_next :: "bytes \<Rightarrow> ((nat \<times> nat) res \<times> bytes) option" where
  "ack_range_next buf =
    (if buf = [] then None
     else case decode_varint buf of
       Ok (gap, n1) \<Rightarrow>
         if length buf < n1 then Some (Err (BufferTooSmall n1), buf)
         else
           let buf = drop n1 buf
           in (case decode_varint buf of
                 Ok (ack_range, n2) \<Rightarrow> Some (Ok (gap, ack_range), drop n2 buf)
               | Err e \<Rightarrow> Some (Err e, buf)
               | Panic \<Rightarrow> Some (Panic, buf))
     | Err e \<Rightarrow> Some (Err e, buf)
     | Panic \<Rightarrow> Some (Panic, buf))"

definition frame_encoding_error :: error where
  "frame_encoding_error = Transport FrameEncodingError"

definition read_varint :: "bytes \<Rightarrow> nat \<Rightarrow> (nat \<times> nat) res" where
  "read_varint buf pos =
    (if pos \<ge> length buf then Err frame_encoding_error
     else
       res_bind (slice_from buf pos) (\<lambda>s.
       res_bind (map_err (\<lambda>_. frame_encoding_error) (decode_varint s)) (\<lambda>(val, n).
       Ok (val, pos + n))))"

definition read_bytes :: "bytes \<Rightarrow> nat \<Rightarrow> nat \<Rightarrow> (bytes \<times> nat) res" where
  "read_bytes buf pos len =
    (if pos > length buf \<or> length buf - pos < len then Err frame_encoding_error
     else res_bind (slice buf pos (pos + len)) (\<lambda>s. Ok (s, pos + len)))"

fun write_bytes :: "bytes \<Rightarrow> cursor \<Rightarrow> cursor res" where
  "write_bytes data (buf, pos) =
    (if pos > length buf \<or> length buf - pos < length data
     then Err (BufferTooSmall (pos + length data))
     else put_bytes data (buf, pos))"

fun write_varint :: "nat \<Rightarrow> cursor \<Rightarrow> cursor res" where
  "write_varint val (buf, pos) = put_varint val (buf, pos)"

subsection \<open>Decoding\<close>

primrec skip_ranges :: "nat \<Rightarrow> bytes \<Rightarrow> nat \<Rightarrow> nat res" where
  "skip_ranges 0 buf pos = Ok pos"
| "skip_ranges (Suc n) buf pos =
     res_bind (read_varint buf pos) (\<lambda>(_, pos).
     res_bind (read_varint buf pos) (\<lambda>(_, pos).
     skip_ranges n buf pos))"

definition decode_ack :: "bytes \<Rightarrow> nat \<Rightarrow> nat \<Rightarrow> (frame \<times> nat) res" where
  "decode_ack buf frame_type pos =
    res_bind (read_varint buf pos) (\<lambda>(largest, pos).
    res_bind (read_varint buf pos) (\<lambda>(delay, pos).
    res_bind (read_varint buf pos) (\<lambda>(ack_range_count, pos).
    res_bind (read_varint buf pos) (\<lambda>(first_range, pos).
    let ranges_start = pos
    in res_bind (skip_ranges ack_range_count buf pos) (\<lambda>pos.
       res_bind (slice buf ranges_start pos) (\<lambda>ranges.
       if frame_type = 0x03 then
         res_bind (read_varint buf pos) (\<lambda>(e0, pos).
         res_bind (read_varint buf pos) (\<lambda>(e1, pos).
         res_bind (read_varint buf pos) (\<lambda>(ce, pos).
         Ok (Ack \<lparr>largest_ack = largest, ack_delay = delay, first_ack_range = first_range,
               ack_ranges = ranges, ecn = Some \<lparr>ect0 = e0, ect1 = e1, ecn_ce = ce\<rparr>\<rparr>, pos))))
       else
         Ok (Ack \<lparr>largest_ack = largest, ack_delay = delay, first_ack_range = first_range,
               ack_ranges = ranges, ecn = None\<rparr>, pos)))))))"

definition decode_stream :: "nat \<Rightarrow> bytes \<Rightarrow> nat \<Rightarrow> nat \<Rightarrow> (frame \<times> nat) res" where
  "decode_stream uw buf frame_type pos =
    (let has_offset = (frame_type AND 0x04 \<noteq> 0);
         has_length = (frame_type AND 0x02 \<noteq> 0);
         fin = (frame_type AND 0x01 \<noteq> 0)
     in res_bind (read_varint buf pos) (\<lambda>(stream_id, pos).
        res_bind (if has_offset then read_varint buf pos else Ok (0, pos)) (\<lambda>(offset, pos).
        res_bind
          (if has_length then
             res_bind (read_varint buf pos) (\<lambda>(len, pos). read_bytes buf pos (as_usize uw len))
           else
             res_bind (slice_from buf pos) (\<lambda>rest. Ok (rest, length buf)))
          (\<lambda>(data, pos).
            Ok (Stream \<lparr>st_stream_id = stream_id, st_offset = offset, st_data = data,
                  st_fin = fin\<rparr>, pos)))))"

definition decode_new_connection_id :: "nat \<Rightarrow> bytes \<Rightarrow> nat \<Rightarrow> (frame \<times> nat) res" where
  "decode_new_connection_id uw buf pos =
    res_bind (read_varint buf pos) (\<lambda>(sequence_number, pos).
    res_bind (read_varint buf pos) (\<lambda>(retire_prior_to, pos).
    res_bind (read_varint buf pos) (\<lambda>(cid_len, pos).
    if as_usize uw cid_len > 20 then Err frame_encoding_error
    else
      res_bind (read_bytes buf pos (as_usize uw cid_len)) (\<lambda>(connection_id, pos).
      res_bind (read_bytes buf pos 16) (\<lambda>(token_bytes, pos).
      Ok (NewConnectionId \<lparr>nci_sequence_number = sequence_number,
            nci_retire_prior_to = retire_prior_to, nci_connection_id = connection_id,
            nci_stateless_reset_token = token_bytes\<rparr>, pos))))))"

definition decode_connection_close :: "nat \<Rightarrow> bytes \<Rightarrow> nat \<Rightarrow> nat \<Rightarrow> (frame \<times> nat) res" where
  "decode_connection_close uw buf frame_type pos =
    (let is_application = (frame_type = 0x1d)
     in res_bind (read_varint buf pos) (\<lambda>(error_code, pos).
        res_bind (if \<not> is_application then read_varint buf pos else Ok (0, pos))
          (\<lambda>(frame_type_field, pos).
        res_bind (read_varint buf pos) (\<lambda>(reason_len, pos).
        res_bind (read_bytes buf pos (as_usize uw reason_len)) (\<lambda>(reason, pos).
        Ok (ConnectionClose \<lparr>cc_is_application = is_application, cc_error_code = error_code,
              cc_frame_type = frame_type_field, cc_reason = reason\<rparr>, pos))))))"

definition decode :: "nat \<Rightarrow> bytes \<Rightarrow> (frame \<times> nat) res" where
  "decode uw buf =
    res_bind (read_varint buf 0) (\<lambda>(frame_type, pos).
      if frame_type = 0x00 then Ok (Padding, pos)
      else if frame_type = 0x01 then Ok (Ping, pos)
      else if frame_type = 0x02 \<or> frame_type = 0x03 then decode_ack buf frame_type pos
      else if frame_type = 0x04 then
        res_bind (read_varint buf pos) (\<lambda>(stream_id, pos).
        res_bind (read_varint buf pos) (\<lambda>(error_code, pos).
        res_bind (read_varint buf pos) (\<lambda>(final_size, pos).
        Ok (ResetStream \<lparr>rst_stream_id = stream_id, rst_error_code = error_code,
              rst_final_size = final_size\<rparr>, pos))))
      else if frame_type = 0x05 then
        res_bind (read_varint buf pos) (\<lambda>(stream_id, pos).
        res_bind (read_varint buf pos) (\<lambda>(error_code, pos).
        Ok (StopSending \<lparr>ss_stream_id = stream_id, ss_error_code = error_code\<rparr>, pos)))
      else if frame_type = 0x06 then
        res_bind (read_varint buf pos) (\<lambda>(offset, pos).
        res_bind (read_varint buf pos) (\<lambda>(len, pos).
        res_bind (read_bytes buf pos (as_usize uw len)) (\<lambda>(data, pos).
        Ok (Crypto \<lparr>cr_offset = offset, cr_data = data\<rparr>, pos))))
      else if frame_type = 0x07 then
        res_bind (read_varint buf pos) (\<lambda>(len, pos).
        res_bind (read_bytes buf pos (as_usize uw len)) (\<lambda>(token, pos).
        Ok (NewToken \<lparr>nt_token = token\<rparr>, pos)))
      else if 0x08 \<le> frame_type \<and> frame_type \<le> 0x0f then decode_stream uw buf frame_type pos
      else if frame_type = 0x10 then
        res_bind (read_varint buf pos) (\<lambda>(max_data, pos). Ok (MaxData max_data, pos))
      else if frame_type = 0x11 then
        res_bind (read_varint buf pos) (\<lambda>(stream_id, pos).
        res_bind (read_varint buf pos) (\<lambda>(max_data, pos).
        Ok (MaxStreamData \<lparr>msd_stream_id = stream_id, msd_max_data = max_data\<rparr>, pos)))
      else if frame_type = 0x12 \<or> frame_type = 0x13 then
        res_bind (read_varint buf pos) (\<lambda>(max_streams, pos).
        Ok (MaxStreams \<lparr>ms_bidirectional = (frame_type = 0x12), ms_max_streams = max_streams\<rparr>, pos))
      else if frame_type = 0x14 then
        res_bind (read_varint buf pos) (\<lambda>(limit, pos). Ok (DataBlocked limit, pos))
      else if frame_type = 0x15 then
        res_bind (read_varint buf pos) (\<lambda>(stream_id, pos).
        res_bind (read_varint buf pos) (\<lambda>(data_limit, pos).
        Ok (StreamDataBlocked \<lparr>sdb_stream_id = stream_id, sdb_data_limit = data_limit\<rparr>, pos)))
      else if frame_type = 0x16 \<or> frame_type = 0x17 then
        res_bind (read_varint buf pos) (\<lambda>(max_streams, pos).
        Ok (StreamsBlocked \<lparr>sb_bidirectional = (frame_type = 0x16), sb_max_streams = max_streams\<rparr>, pos))
      else if frame_type = 0x18 then decode_new_connection_id uw buf pos
      else if frame_type = 0x19 then
        res_bind (read_varint buf pos) (\<lambda>(seq, pos). Ok (RetireConnectionId seq, pos))
      else if frame_type = 0x1a then
        res_bind (read_bytes buf pos 8) (\<lambda>(data, pos). Ok (PathChallenge data, pos))
      else if frame_type = 0x1b then
        res_bind (read_bytes buf pos 8) (\<lambda>(data, pos). Ok (PathResponse data, pos))
      else if frame_type = 0x1c \<or> frame_type = 0x1d then
        decode_connection_close uw buf frame_type pos
      else if frame_type = 0x1e then Ok (HandshakeDone, pos)
      else Err frame_encoding_error)"

subsection \<open>Encoding\<close>

text \<open>The loop that counts the range pairs; each round consumes two varints.\<close>

function count_ranges :: "bytes \<Rightarrow> nat \<Rightarrow> nat res" where
  "count_ranges tmp count =
    (if tmp = [] then Ok count
     else
       res_bind (map_err (\<lambda>_. frame_encoding_error) (decode_varint tmp)) (\<lambda>(_, n1).
       res_bind (map_err (\<lambda>_. frame_encoding_error) (decode_varint (drop n1 tmp))) (\<lambda>(_, n2).
       count_ranges (drop n2 (drop n1 tmp)) (count + 1))))"
  by pat_completeness auto
termination
  by (relation "measure (\<lambda>(tmp, count). length tmp)") (auto dest!: decode_varint_consumed)

declare count_ranges.simps [simp del]

definition encode_ack :: "ack_frame \<Rightarrow> cursor \<Rightarrow> cursor res" where
  "encode_ack ack c =
    res_bind (write_varint (if ecn ack \<noteq> None then 0x03 else 0x02) c) (\<lambda>c.
    res_bind (write_varint (largest_ack ack) c) (\<lambda>c.
    res_bind (write_varint (ack_delay ack) c) (\<lambda>c.
    res_bind (count_ranges (ack_ranges ack) 0) (\<lambda>count.
    res_bind (write_varint count c) (\<lambda>c.
    res_bind (write_varint (first_ack_range ack) c) (\<lambda>c.
    res_bind (write_bytes (ack_ranges ack) c) (\<lambda>c.
    case ecn ack of
      Some e \<Rightarrow>
        res_bind (write_varint (ect0 e) c) (\<lambda>c.
        res_bind (write_varint (ect1 e) c) (\<lambda>c.
        write_varint (ecn_ce e) c))
    | None \<Rightarrow> Ok c)))))))"

definition stream_type_byte :: "stream_frame \<Rightarrow> byte" where
  "stream_type_byte f =
    (let type_byte = 0x08 OR 0x02;
         type_byte = (if st_offset f > 0 then type_byte OR 0x04 else type_byte)
     in if st_fin f then type_byte OR 0x01 else type_byte)"

definition encode_stream :: "stream_frame \<Rightarrow> cursor \<Rightarrow> cursor res" where
  "encode_stream f c =
    res_bind (write_varint (unat (stream_type_byte f)) c) (\<lambda>c.
    res_bind (write_varint (st_stream_id f) c) (\<lambda>c.
    res_bind (if st_offset f > 0 then write_varint (st_offset f) c else Ok c) (\<lambda>c.
    res_bind (write_varint (length (st_data f)) c) (\<lambda>c.
    write_bytes (st_data f) c))))"

primrec encode_at :: "frame \<Rightarrow> cursor \<Rightarrow> cursor res" where
  "encode_at Padding c = write_bytes [0x00] c"
| "encode_at Ping c = write_varint 0x01 c"
| "encode_at (Ack ack) c = encode_ack ack c"
| "encode_at (ResetStream f) c =
    res_bind (write_varint 0x04 c) (\<lambda>c.
    res_bind (write_varint (rst_stream_id f) c) (\<lambda>c.
    res_bind (write_varint (rst_error_code f) c) (\<lambda>c.
    write_varint (rst_final_size f) c)))"
| "encode_at (StopSending f) c =
    res_bind (write_varint 0x05 c) (\<lambda>c.
    res_bind (write_varint (ss_stream_id f) c) (\<lambda>c.
    write_varint (ss_error_code f) c))"
| "encode_at (Crypto f) c =
    res_bind (write_varint 0x06 c) (\<lambda>c.
    res_bind (write_varint (cr_offset f) c) (\<lambda>c.
    res_bind (write_varint (length (cr_data f)) c) (\<lambda>c.
    write_bytes (cr_data f) c)))"
| "encode_at (NewToken f) c =
    res_bind (write_varint 0x07 c) (\<lambda>c.
    res_bind (write_varint (length (nt_token f)) c) (\<lambda>c.
    write_bytes (nt_token f) c))"
| "encode_at (Stream f) c = encode_stream f c"
| "encode_at (MaxData v) c = res_bind (write_varint 0x10 c) (\<lambda>c. write_varint v c)"
| "encode_at (MaxStreamData f) c =
    res_bind (write_varint 0x11 c) (\<lambda>c.
    res_bind (write_varint (msd_stream_id f) c) (\<lambda>c.
    write_varint (msd_max_data f) c))"
| "encode_at (MaxStreams f) c =
    res_bind (write_varint (if ms_bidirectional f then 0x12 else 0x13) c) (\<lambda>c.
    write_varint (ms_max_streams f) c)"
| "encode_at (DataBlocked v) c = res_bind (write_varint 0x14 c) (\<lambda>c. write_varint v c)"
| "encode_at (StreamDataBlocked f) c =
    res_bind (write_varint 0x15 c) (\<lambda>c.
    res_bind (write_varint (sdb_stream_id f) c) (\<lambda>c.
    write_varint (sdb_data_limit f) c))"
| "encode_at (StreamsBlocked f) c =
    res_bind (write_varint (if sb_bidirectional f then 0x16 else 0x17) c) (\<lambda>c.
    write_varint (sb_max_streams f) c)"
| "encode_at (NewConnectionId f) c =
    res_bind (write_varint 0x18 c) (\<lambda>c.
    res_bind (write_varint (nci_sequence_number f) c) (\<lambda>c.
    res_bind (write_varint (nci_retire_prior_to f) c) (\<lambda>c.
    res_bind (write_varint (length (nci_connection_id f)) c) (\<lambda>c.
    res_bind (write_bytes (nci_connection_id f) c) (\<lambda>c.
    write_bytes (nci_stateless_reset_token f) c)))))"
| "encode_at (RetireConnectionId seq) c = res_bind (write_varint 0x19 c) (\<lambda>c. write_varint seq c)"
| "encode_at (PathChallenge data) c = res_bind (write_varint 0x1a c) (\<lambda>c. write_bytes data c)"
| "encode_at (PathResponse data) c = res_bind (write_varint 0x1b c) (\<lambda>c. write_bytes data c)"
| "encode_at (ConnectionClose f) c =
    res_bind (write_varint (if cc_is_application f then 0x1d else 0x1c) c) (\<lambda>c.
    res_bind (write_varint (cc_error_code f) c) (\<lambda>c.
    res_bind (if \<not> cc_is_application f then write_varint (cc_frame_type f) c else Ok c) (\<lambda>c.
    res_bind (write_varint (length (cc_reason f)) c) (\<lambda>c.
    write_bytes (cc_reason f) c))))"
| "encode_at HandshakeDone c = write_varint 0x1e c"

definition encode :: "frame \<Rightarrow> bytes \<Rightarrow> cursor res" where
  "encode frame buf = encode_at frame (buf, 0)"

section \<open>Reading\<close>

lemma read_varint_Ok:
  assumes "read_varint buf pos = Ok (v, pos')"
  shows "pos < pos' \<and> pos' \<le> length buf \<and> v \<le> MAX_VARINT"
  using assms decode_varint_consumed [of "drop pos buf" v] decode_varint_MAX [of "drop pos buf" v]
  by (fastforce simp: read_varint_def res_bind_eq_Ok split: if_splits)

lemma read_bytes_Ok:
  "read_bytes buf pos len = Ok (data, pos') \<Longrightarrow>
   pos' = pos + len \<and> pos' \<le> length buf \<and> data = take len (drop pos buf) \<and> length data = len"
  by (auto simp: read_bytes_def split: if_splits)

lemma read_varint_no_panic [simp, panic_free]: "read_varint buf pos \<noteq> Panic"
  by (auto simp: read_varint_def res_bind_eq_Panic)

lemma read_bytes_no_panic [simp, panic_free]: "read_bytes buf pos len \<noteq> Panic"
  by (auto simp: read_bytes_def res_bind_eq_Panic buf_Panic)

lemma skip_ranges_Ok: "skip_ranges n buf pos = Ok pos' \<Longrightarrow> pos \<le> length buf \<Longrightarrow> pos \<le> pos' \<and> pos' \<le> length buf"
  by (induction n arbitrary: pos) (fastforce simp: res_bind_eq_Ok dest!: read_varint_Ok)+

lemma skip_ranges_no_panic [simp, panic_free]: "skip_ranges n buf pos \<noteq> Panic"
  by (induction n arbitrary: pos) (auto simp: res_bind_eq_Panic)

lemmas read_Ok = read_varint_Ok read_bytes_Ok

lemma decode_no_panic [simp, panic_free]: "decode uw buf \<noteq> Panic"
proof -
  have "decode_ack buf t pos \<noteq> Panic" for t pos
    by (auto simp: decode_ack_def res_bind_eq_Panic buf_Panic Let_def
        dest!: read_varint_Ok skip_ranges_Ok split: if_splits)
  moreover have "decode_stream uw buf t pos \<noteq> Panic" for t pos
    by (auto simp: decode_stream_def res_bind_eq_Panic buf_Panic Let_def
        dest!: read_varint_Ok split: if_splits)
  moreover have "decode_new_connection_id uw buf pos \<noteq> Panic" for pos
    by (auto simp: decode_new_connection_id_def res_bind_eq_Panic split: if_splits)
  moreover have "decode_connection_close uw buf t pos \<noteq> Panic" for t pos
    by (auto simp: decode_connection_close_def res_bind_eq_Panic Let_def split: if_splits)
  ultimately show ?thesis
    by (auto simp: decode_def res_bind_eq_Panic split: if_splits)
qed

lemma decode_ack_consumed:
  "decode_ack buf t pos = Ok (f, n) \<Longrightarrow> pos < n \<and> n \<le> length buf"
  by (fastforce simp: decode_ack_def res_bind_eq_Ok buf_Ok Let_def
      dest!: read_varint_Ok skip_ranges_Ok split: if_splits)

lemma decode_stream_consumed:
  "decode_stream uw buf t pos = Ok (f, n) \<Longrightarrow> pos < n \<and> n \<le> length buf"
  by (fastforce simp: decode_stream_def res_bind_eq_Ok buf_Ok Let_def dest!: read_Ok split: if_splits)

lemma decode_new_connection_id_consumed:
  "decode_new_connection_id uw buf pos = Ok (f, n) \<Longrightarrow> pos < n \<and> n \<le> length buf"
  by (fastforce simp: decode_new_connection_id_def res_bind_eq_Ok dest!: read_Ok split: if_splits)

lemma decode_connection_close_consumed:
  "decode_connection_close uw buf t pos = Ok (f, n) \<Longrightarrow> pos < n \<and> n \<le> length buf"
  by (fastforce simp: decode_connection_close_def res_bind_eq_Ok Let_def dest!: read_Ok split: if_splits)

lemmas decode_parts_consumed = decode_ack_consumed decode_stream_consumed
  decode_new_connection_id_consumed decode_connection_close_consumed

lemma decode_consumed:
  assumes "decode uw buf = Ok (f, n)"
  shows "0 < n \<and> n \<le> length buf"
  using assms
  by (fastforce simp: decode_def res_bind_eq_Ok dest!: read_Ok decode_parts_consumed split: if_splits)

section \<open>Well-formed frames and their wire image\<close>

text \<open>
  A byte string that the code can carry behind a length: its length is a varint and fits
  \<^verbatim>\<open>usize\<close>, which every Rust slice does.
\<close>

definition len_ok :: "nat \<Rightarrow> bytes \<Rightarrow> bool" where
  "len_ok uw bs \<longleftrightarrow> length bs \<le> MAX_VARINT \<and> length bs < 2 ^ uw"

definition ranges_ok :: "bytes \<Rightarrow> bool" where
  "ranges_ok bs = (case count_ranges bs 0 of Ok c \<Rightarrow> c \<le> MAX_VARINT | _ \<Rightarrow> False)"

primrec ecn_ok :: "ecn_counts option \<Rightarrow> bool" where
  "ecn_ok None = True"
| "ecn_ok (Some e) \<longleftrightarrow> ect0 e \<le> MAX_VARINT \<and> ect1 e \<le> MAX_VARINT \<and> ecn_ce e \<le> MAX_VARINT"

primrec wf_frame :: "nat \<Rightarrow> frame \<Rightarrow> bool" where
  "wf_frame uw Padding = True"
| "wf_frame uw Ping = True"
| "wf_frame uw (Ack a) \<longleftrightarrow> largest_ack a \<le> MAX_VARINT \<and> ack_delay a \<le> MAX_VARINT
     \<and> first_ack_range a \<le> MAX_VARINT \<and> ranges_ok (ack_ranges a) \<and> ecn_ok (ecn a)"
| "wf_frame uw (ResetStream f) \<longleftrightarrow> rst_stream_id f \<le> MAX_VARINT
     \<and> rst_error_code f \<le> MAX_VARINT \<and> rst_final_size f \<le> MAX_VARINT"
| "wf_frame uw (StopSending f) \<longleftrightarrow> ss_stream_id f \<le> MAX_VARINT \<and> ss_error_code f \<le> MAX_VARINT"
| "wf_frame uw (Crypto f) \<longleftrightarrow> cr_offset f \<le> MAX_VARINT \<and> len_ok uw (cr_data f)"
| "wf_frame uw (NewToken f) \<longleftrightarrow> len_ok uw (nt_token f)"
| "wf_frame uw (Stream f) \<longleftrightarrow> st_stream_id f \<le> MAX_VARINT \<and> st_offset f \<le> MAX_VARINT
     \<and> len_ok uw (st_data f)"
| "wf_frame uw (MaxData v) \<longleftrightarrow> v \<le> MAX_VARINT"
| "wf_frame uw (MaxStreamData f) \<longleftrightarrow> msd_stream_id f \<le> MAX_VARINT \<and> msd_max_data f \<le> MAX_VARINT"
| "wf_frame uw (MaxStreams f) \<longleftrightarrow> ms_max_streams f \<le> MAX_VARINT"
| "wf_frame uw (DataBlocked v) \<longleftrightarrow> v \<le> MAX_VARINT"
| "wf_frame uw (StreamDataBlocked f) \<longleftrightarrow> sdb_stream_id f \<le> MAX_VARINT \<and> sdb_data_limit f \<le> MAX_VARINT"
| "wf_frame uw (StreamsBlocked f) \<longleftrightarrow> sb_max_streams f \<le> MAX_VARINT"
| "wf_frame uw (NewConnectionId f) \<longleftrightarrow> nci_sequence_number f \<le> MAX_VARINT
     \<and> nci_retire_prior_to f \<le> MAX_VARINT \<and> length (nci_connection_id f) \<le> 20
     \<and> len_ok uw (nci_connection_id f) \<and> length (nci_stateless_reset_token f) = 16"
| "wf_frame uw (RetireConnectionId v) \<longleftrightarrow> v \<le> MAX_VARINT"
| "wf_frame uw (PathChallenge d) \<longleftrightarrow> length d = 8"
| "wf_frame uw (PathResponse d) \<longleftrightarrow> length d = 8"
| "wf_frame uw (ConnectionClose f) \<longleftrightarrow> cc_error_code f \<le> MAX_VARINT \<and> cc_frame_type f \<le> MAX_VARINT
     \<and> len_ok uw (cc_reason f) \<and> (cc_is_application f \<longrightarrow> cc_frame_type f = 0)"
| "wf_frame uw HandshakeDone = True"

definition range_count :: "bytes \<Rightarrow> nat" where
  "range_count bs = (case count_ranges bs 0 of Ok c \<Rightarrow> c | _ \<Rightarrow> 0)"

definition ack_bytes :: "ack_frame \<Rightarrow> bytes" where
  "ack_bytes a = varint_bytes (if ecn a \<noteq> None then 3 else 2) @ varint_bytes (largest_ack a)
     @ varint_bytes (ack_delay a) @ varint_bytes (range_count (ack_ranges a))
     @ varint_bytes (first_ack_range a) @ ack_ranges a
     @ (case ecn a of None \<Rightarrow> []
        | Some e \<Rightarrow> varint_bytes (ect0 e) @ varint_bytes (ect1 e) @ varint_bytes (ecn_ce e))"

definition stream_frame_type :: "stream_frame \<Rightarrow> nat" where
  "stream_frame_type f = 10 + (if st_offset f > 0 then 4 else 0) + (if st_fin f then 1 else 0)"

primrec frame_bytes :: "frame \<Rightarrow> bytes" where
  "frame_bytes Padding = [0]"
| "frame_bytes Ping = varint_bytes 1"
| "frame_bytes (Ack a) = ack_bytes a"
| "frame_bytes (ResetStream f) = varint_bytes 4 @ varint_bytes (rst_stream_id f)
     @ varint_bytes (rst_error_code f) @ varint_bytes (rst_final_size f)"
| "frame_bytes (StopSending f) = varint_bytes 5 @ varint_bytes (ss_stream_id f)
     @ varint_bytes (ss_error_code f)"
| "frame_bytes (Crypto f) = varint_bytes 6 @ varint_bytes (cr_offset f)
     @ varint_bytes (length (cr_data f)) @ cr_data f"
| "frame_bytes (NewToken f) = varint_bytes 7 @ varint_bytes (length (nt_token f)) @ nt_token f"
| "frame_bytes (Stream f) = varint_bytes (stream_frame_type f) @ varint_bytes (st_stream_id f)
     @ (if st_offset f > 0 then varint_bytes (st_offset f) else [])
     @ varint_bytes (length (st_data f)) @ st_data f"
| "frame_bytes (MaxData v) = varint_bytes 0x10 @ varint_bytes v"
| "frame_bytes (MaxStreamData f) = varint_bytes 0x11 @ varint_bytes (msd_stream_id f)
     @ varint_bytes (msd_max_data f)"
| "frame_bytes (MaxStreams f) = varint_bytes (if ms_bidirectional f then 0x12 else 0x13)
     @ varint_bytes (ms_max_streams f)"
| "frame_bytes (DataBlocked v) = varint_bytes 0x14 @ varint_bytes v"
| "frame_bytes (StreamDataBlocked f) = varint_bytes 0x15 @ varint_bytes (sdb_stream_id f)
     @ varint_bytes (sdb_data_limit f)"
| "frame_bytes (StreamsBlocked f) = varint_bytes (if sb_bidirectional f then 0x16 else 0x17)
     @ varint_bytes (sb_max_streams f)"
| "frame_bytes (NewConnectionId f) = varint_bytes 0x18 @ varint_bytes (nci_sequence_number f)
     @ varint_bytes (nci_retire_prior_to f) @ varint_bytes (length (nci_connection_id f))
     @ nci_connection_id f @ nci_stateless_reset_token f"
| "frame_bytes (RetireConnectionId v) = varint_bytes 0x19 @ varint_bytes v"
| "frame_bytes (PathChallenge d) = varint_bytes 0x1a @ d"
| "frame_bytes (PathResponse d) = varint_bytes 0x1b @ d"
| "frame_bytes (ConnectionClose f) = varint_bytes (if cc_is_application f then 0x1d else 0x1c)
     @ varint_bytes (cc_error_code f)
     @ (if cc_is_application f then [] else varint_bytes (cc_frame_type f))
     @ varint_bytes (length (cc_reason f)) @ cc_reason f"
| "frame_bytes HandshakeDone = varint_bytes 0x1e"

section \<open>The encoder writes the wire image\<close>

lemma write_varint_wr [wire_simps]:
  "v \<le> MAX_VARINT \<Longrightarrow> length out + varint_len v \<le> length buf \<Longrightarrow>
   write_varint v (wr buf out) = Ok (wr buf (out @ varint_bytes v))"
  using put_varint_wr [of v out buf] by (simp add: wr_def)

lemma write_bytes_wr [wire_simps]:
  "length out + length data \<le> length buf \<Longrightarrow>
   write_bytes data (wr buf out) = Ok (wr buf (out @ data))"
  using put_bytes_wr [of out data buf] by (simp add: wr_def)

lemma unat_stream_type_byte: "unat (stream_type_byte f) = stream_frame_type f"
  by (simp add: stream_type_byte_def stream_frame_type_def)

lemma stream_frame_type_le: "stream_frame_type f \<le> 15"
  by (simp add: stream_frame_type_def)

lemma small_le_MAX [simp]: "v \<le> 63 \<Longrightarrow> v \<le> MAX_VARINT"
  by (simp add: MAX_VARINT_def)

lemma encode_spec:
  assumes "wf_frame uw f" and "length (frame_bytes f) \<le> length buf"
  shows "encode f buf = Ok (wr buf (frame_bytes f))"
proof (cases f)
  case (Ack a)
  obtain c where c: "count_ranges (ack_ranges a) 0 = Ok c" "c \<le> MAX_VARINT"
    using assms(1) Ack by (auto simp: ranges_ok_def split: res.splits)
  show ?thesis
    using assms c unfolding Ack
    by (cases "ecn a")
       (auto simp: encode_def wr_start encode_ack_def ack_bytes_def range_count_def wire_simps
          simp del: write_varint.simps write_bytes.simps)
next
  case (Stream f')
  then show ?thesis
    using assms stream_frame_type_le [of f'] unfolding Stream
    by (auto simp: encode_def wr_start encode_stream_def unat_stream_type_byte len_ok_def wire_simps
          simp del: write_varint.simps write_bytes.simps)
qed (use assms in \<open>auto simp: encode_def wr_start len_ok_def wire_simps
       simp del: write_varint.simps write_bytes.simps\<close>)

section \<open>The decoder inverts the wire image\<close>

lemma read_varint_prefix:
  assumes "decode_varint s = Ok (v, n)" and "drop pos buf = s @ r"
  shows "read_varint buf pos = Ok (v, pos + n)" and "drop (pos + n) buf = drop n s @ r"
proof -
  have "0 < n" "n \<le> length s" using decode_varint_consumed [OF assms(1)] by auto
  then have "s \<noteq> []" by auto
  then have "pos < length buf" using assms(2) by (metis append_is_Nil_conv drop_all linorder_not_less)
  then show "read_varint buf pos = Ok (v, pos + n)"
    using decode_varint_append [OF assms(1), of r] assms(2) by (simp add: read_varint_def)
  show "drop (pos + n) buf = drop n s @ r"
    using \<open>n \<le> length s\<close> assms(2) by (simp add: add.commute flip: drop_drop)
qed

lemma skip_counted_ranges:
  assumes "count_ranges bs k = Ok m" and "drop pos buf = bs @ r"
  shows "k \<le> m \<and> skip_ranges (m - k) buf pos = Ok (pos + length bs)"
  using assms
proof (induction bs k arbitrary: pos rule: count_ranges.induct)
  case (1 bs k)
  show ?case
  proof (cases "bs = []")
    case True
    with "1.prems" show ?thesis by (simp add: count_ranges.simps)
  next
    case False
    then obtain v1 n1 v2 n2 where d1: "decode_varint bs = Ok (v1, n1)"
      and d2: "decode_varint (drop n1 bs) = Ok (v2, n2)"
      and rest: "count_ranges (drop n2 (drop n1 bs)) (k + 1) = Ok m"
      using "1.prems"(1) by (subst (asm) count_ranges.simps) (auto simp: res_bind_eq_Ok)
    note r1 = read_varint_prefix [OF d1 "1.prems"(2)]
    note r2 = read_varint_prefix [OF d2 r1(2)]
    have len: "n1 \<le> length bs" "n2 \<le> length bs - n1"
      using decode_varint_consumed [OF d1] decode_varint_consumed [OF d2] by auto
    have "k + 1 \<le> m \<and> skip_ranges (m - (k + 1)) buf (pos + n1 + n2)
        = Ok (pos + n1 + n2 + length (drop n2 (drop n1 bs)))"
      using "1.IH" [OF False] d1 d2 rest r2(2) by simp
    moreover from this have "m - k = Suc (m - (k + 1))" by arith
    ultimately show ?thesis using r1(1) r2(1) len by simp
  qed
qed

lemma decode_ack_bytes:
  assumes "wf_frame uw (Ack a)"
  shows "decode uw (ack_bytes a @ rest) = Ok (Ack a, length (ack_bytes a))"
proof -
  obtain c where c: "count_ranges (ack_ranges a) 0 = Ok c" "c \<le> MAX_VARINT"
    using assms by (auto simp: ranges_ok_def split: res.splits)
  let ?t = "if ecn a \<noteq> None then 3 else 2 :: nat"
  let ?pre = "varint_bytes ?t @ varint_bytes (largest_ack a) @ varint_bytes (ack_delay a)
      @ varint_bytes c @ varint_bytes (first_ack_range a)"
  let ?post = "(case ecn a of None \<Rightarrow> []
        | Some e \<Rightarrow> varint_bytes (ect0 e) @ varint_bytes (ect1 e) @ varint_bytes (ecn_ce e)) @ rest"
  have buf: "ack_bytes a @ rest = ?pre @ ack_ranges a @ ?post"
    by (simp add: ack_bytes_def range_count_def c)
  have skip: "skip_ranges c (?pre @ ack_ranges a @ ?post) (length ?pre)
      = Ok (length ?pre + length (ack_ranges a))"
    using skip_counted_ranges [OF c(1), of "length ?pre" "?pre @ ack_ranges a @ ?post" ?post] by simp
  show ?thesis
    using assms c skip unfolding buf
    by (cases "ecn a")
       (auto simp: decode_def decode_ack_def read_varint_def decode_varint_bytes Let_def ack_bytes_def
          range_count_def add.assoc)
qed

lemma decode_stream_bytes:
  assumes "wf_frame uw (Stream f)"
  shows "decode uw (frame_bytes (Stream f) @ rest) = Ok (Stream f, length (frame_bytes (Stream f)))"
  using assms
  by (cases "st_offset f > 0"; cases "st_fin f")
     (auto simp: decode_def decode_stream_def read_varint_def read_bytes_def decode_varint_bytes
        stream_frame_type_def len_ok_def Let_def add.assoc)

lemma decode_frame_bytes [wire_simps]:
  assumes "wf_frame uw f"
  shows "decode uw (frame_bytes f @ rest) = Ok (f, length (frame_bytes f))"
proof (cases f)
  case Padding
  have "[0] = varint_bytes 0" by (simp add: varint_bytes_cases)
  then show ?thesis
    using decode_varint_bytes [of 0 rest] by (simp add: Padding decode_def read_varint_def varint_len_def)
next
  case (Ack a)
  with assms decode_ack_bytes show ?thesis by simp
next
  case (Stream s)
  with assms decode_stream_bytes show ?thesis by simp
next
  case (NewConnectionId n)
  then show ?thesis
    using assms
    by (auto simp: decode_def decode_new_connection_id_def read_varint_def read_bytes_def
        decode_varint_bytes len_ok_def Let_def add.assoc)
next
  case (ConnectionClose c)
  then show ?thesis
    using assms
    by (cases "cc_is_application c")
       (auto simp: decode_def decode_connection_close_def read_varint_def read_bytes_def
        decode_varint_bytes len_ok_def Let_def add.assoc)
qed (use assms in \<open>auto simp: decode_def read_varint_def read_bytes_def decode_varint_bytes len_ok_def
       Let_def add.assoc\<close>)

interpretation frame: wire_codec "decode uw" frame_bytes "wf_frame uw" for uw
  by unfold_locales (simp_all add: decode_consumed decode_frame_bytes)

section \<open>Decoded frames are well-formed\<close>

lemma count_skipped_ranges:
  assumes "skip_ranges c buf pos = Ok pos'" and "pos \<le> length buf"
  shows "count_ranges (take (pos' - pos) (drop pos buf)) k = Ok (k + c)"
  using assms
proof (induction c arbitrary: pos k)
  case 0
  then show ?case by (simp add: count_ranges.simps)
next
  case (Suc c)
  from Suc.prems(1) obtain v1 p1 v2 p2 where r1: "read_varint buf pos = Ok (v1, p1)"
    and r2: "read_varint buf p1 = Ok (v2, p2)" and sk: "skip_ranges c buf p2 = Ok pos'"
    by (auto simp: res_bind_eq_Ok)
  have p: "pos < p1" "p1 < p2" "p2 \<le> pos'" "pos' \<le> length buf"
    using read_varint_Ok [OF r1] read_varint_Ok [OF r2] skip_ranges_Ok [OF sk] by auto
  have d1: "decode_varint (drop pos buf) = Ok (v1, p1 - pos)"
    and d2: "decode_varint (drop p1 buf) = Ok (v2, p2 - p1)"
    using r1 r2 by (auto simp: read_varint_def res_bind_eq_Ok split: if_splits)
  let ?s = "take (pos' - pos) (drop pos buf)"
  have "decode_varint ?s = Ok (v1, p1 - pos)"
    by (rule decode_varint_take [OF d1]) (use p in arith)
  moreover have s1: "drop (p1 - pos) ?s = take (pos' - p1) (drop p1 buf)"
    using p by (simp add: drop_take)
  moreover have "decode_varint (take (pos' - p1) (drop p1 buf)) = Ok (v2, p2 - p1)"
    by (rule decode_varint_take [OF d2]) (use p in arith)
  moreover have "drop (p2 - p1) (take (pos' - p1) (drop p1 buf)) = take (pos' - p2) (drop p2 buf)"
    using p by (simp add: drop_take)
  moreover have "count_ranges (take (pos' - p2) (drop p2 buf)) (k + 1) = Ok (k + 1 + c)"
    by (rule Suc.IH [OF sk]) (use p in simp)
  moreover have "?s \<noteq> []" using p by simp
  ultimately show ?case by (subst count_ranges.simps) (simp del: drop_drop)
qed

lemma read_varint_MAX: "read_varint buf pos = Ok (v, pos') \<Longrightarrow> v \<le> MAX_VARINT"
  by (blast dest: read_varint_Ok)

lemma read_bytes_length: "read_bytes buf pos len = Ok (data, pos') \<Longrightarrow> length data = len"
  by (blast dest: read_bytes_Ok)

lemmas read_wf = read_varint_MAX read_bytes_length

lemma decode_ack_wf:
  assumes "decode_ack buf t pos = Ok (f, n)"
  shows "wf_frame uw f"
  using assms count_skipped_ranges [of _ buf _ _ 0]
  by (fastforce simp: decode_ack_def res_bind_eq_Ok buf_Ok Let_def ranges_ok_def
      dest: read_varint_Ok split: if_splits)

lemma len_ok_read:
  assumes "read_bytes buf pos (as_usize uw len) = Ok (data, pos')" and "len \<le> MAX_VARINT"
  shows "len_ok uw data"
proof -
  have "length data = as_usize uw len" using read_bytes_Ok [OF assms(1)] by blast
  moreover have "as_usize uw len < 2 ^ uw" by (simp add: as_usize_def)
  ultimately show ?thesis
    using as_usize_le [of uw len] assms(2) by (simp add: len_ok_def)
qed

lemma len_ok_drop: "len_ok uw buf \<Longrightarrow> len_ok uw (drop pos buf)"
  by (auto simp: len_ok_def)

lemma decode_stream_wf:
  "decode_stream uw buf t pos = Ok (f, n) \<Longrightarrow> len_ok uw buf \<Longrightarrow> wf_frame uw f"
  by (auto simp: decode_stream_def res_bind_eq_Ok buf_Ok Let_def len_ok_drop
      dest: read_varint_MAX len_ok_read [OF _ read_varint_MAX] split: if_splits)

lemma decode_new_connection_id_wf:
  "decode_new_connection_id uw buf pos = Ok (f, n) \<Longrightarrow> wf_frame uw f"
proof -
  assume "decode_new_connection_id uw buf pos = Ok (f, n)"
  then obtain sn p1 rp p2 cl p3 cid p4 tok where
    r: "read_varint buf pos = Ok (sn, p1)" "read_varint buf p1 = Ok (rp, p2)"
       "read_varint buf p2 = Ok (cl, p3)" "read_bytes buf p3 (as_usize uw cl) = Ok (cid, p4)"
       "read_bytes buf p4 16 = Ok (tok, n)"
    and le: "as_usize uw cl \<le> 20"
    and f: "f = NewConnectionId \<lparr>nci_sequence_number = sn, nci_retire_prior_to = rp,
        nci_connection_id = cid, nci_stateless_reset_token = tok\<rparr>"
    by (auto simp: decode_new_connection_id_def res_bind_eq_Ok split: if_splits)
  from read_bytes_length [OF r(4)] read_bytes_length [OF r(5)] le
  show ?thesis
    by (simp add: f read_varint_MAX [OF r(1)] read_varint_MAX [OF r(2)]
        len_ok_read [OF r(4) read_varint_MAX [OF r(3)]])
qed

lemma decode_connection_close_wf:
  "decode_connection_close uw buf t pos = Ok (f, n) \<Longrightarrow> wf_frame uw f"
  by (auto simp: decode_connection_close_def res_bind_eq_Ok Let_def
      dest: read_varint_MAX len_ok_read [OF _ read_varint_MAX] split: if_splits)

lemma decode_wf:
  assumes "decode uw buf = Ok (f, n)" and "len_ok uw buf"
  shows "wf_frame uw f"
  using assms
  by (auto simp: decode_def res_bind_eq_Ok
      dest: decode_ack_wf decode_stream_wf decode_new_connection_id_wf decode_connection_close_wf
        read_wf len_ok_read [OF _ read_varint_MAX] split: if_splits)

section \<open>Properties\<close>

text \<open>
  Every well-formed frame, of any of the twenty kinds, is written by the encoder into any
  buffer that holds it, and the decoder returns the same frame and the same length, whatever
  bytes follow; these bytes are untouched.
\<close>

theorem frame_roundtrip:
  assumes "wf_frame uw f" and "length (frame_bytes f) \<le> length buf"
  shows "\<exists>buf' n. encode f buf = Ok (buf', n) \<and> length buf' = length buf
    \<and> drop n buf' = drop n buf \<and> decode uw buf' = Ok (f, n)"
  using encode_spec [OF assms] decode_frame_bytes [OF assms(1)] assms(2)
  by (simp add: wr_def)

theorem frame_roundtrip_witness:
  "\<exists>buf' n. encode (Stream \<lparr>st_stream_id = 4, st_offset = 100, st_data = [1, 2], st_fin = True\<rparr>)
        (replicate 9 0) = Ok (buf', n) \<and> length buf' = 9
    \<and> drop n buf' = drop n (replicate 9 0)
    \<and> decode 32 buf' =
        Ok (Stream \<lparr>st_stream_id = 4, st_offset = 100, st_data = [1, 2], st_fin = True\<rparr>, n)"
  using frame_roundtrip [of 32
      "Stream \<lparr>st_stream_id = 4, st_offset = 100, st_data = [1, 2], st_fin = True\<rparr>" "replicate 9 0"]
  by (simp add: len_ok_def MAX_VARINT_def varint_len_def stream_frame_type_def)

text \<open>
  C4: a packet payload made of any sequence of well-formed frames is decoded by the receive loop
  into exactly this sequence.
\<close>

theorem payload_roundtrip:
  assumes "list_all (wf_frame uw) fs"
  shows "decode_all (decode uw) (concat (map frame_bytes fs)) = Ok fs"
  using assms by (rule frame.decode_all_ser)

theorem payload_roundtrip_witness:
  "decode_all (decode 64) (concat (map frame_bytes [Ping, MaxData 9, Padding])) = Ok [Ping, MaxData 9, Padding]"
  using payload_roundtrip [of 64 "[Ping, MaxData 9, Padding]"] by (simp add: MAX_VARINT_def)

text \<open>
  On arbitrary bytes the decoder does not panic, a decoded frame consumes at least one and at
  most all bytes, and it is well-formed: its numbers are varints, its connection id has at most
  20 bytes, its reset token 16, its ACK ranges are pairs of varints.
\<close>

theorem decode_safe:
  assumes "len_ok uw buf"
  shows "decode uw buf \<noteq> Panic
    \<and> (\<forall>f n. decode uw buf = Ok (f, n) \<longrightarrow> 0 < n \<and> n \<le> length buf \<and> wf_frame uw f)"
  using assms decode_consumed decode_wf by auto

theorem decode_safe_witness:
  "decode 32 [0x18, 1, 0, 21] \<noteq> Panic"
  using decode_safe [of 32 "[0x18, 1, 0, 21]"] by (simp add: len_ok_def MAX_VARINT_def)

text \<open>
  C5: the receive loop over the frames of an arbitrary payload ends without a panic: with the
  frames of the payload, or with the frame encoding error of the first malformed one.
\<close>

theorem payload_decode_total:
  "decode_all (decode uw) payload \<noteq> Panic"
  by (rule frame.decode_all_no_panic)

end
