(* ===== verification/Stream_Map.thy ===== *)
theory Stream_Map
  imports Milli_Prelude
begin

unbundle bit_operations_syntax

text \<open>
  Stream states and the stream table of a QUIC connection (\<^verbatim>\<open>src/transport/stream.rs\<close>). The
  table is a list of slots of capacity \<open>N\<close>; with the \<^verbatim>\<open>alloc\<close> feature it grows on demand up to
  \<open>N\<close>, without it there are \<open>N\<close> slots from the start (the flag \<open>sm_alloc\<close>). A mutation through
  \<^verbatim>\<open>get_mut\<close> is \<open>update_stream\<close>, which rewrites the slot of the stream.
\<close>

section \<open>Stream identifiers\<close>

definition is_client_initiated :: "nat \<Rightarrow> bool" where
  "is_client_initiated stream_id \<longleftrightarrow> stream_id AND 0x01 = 0"

definition is_server_initiated :: "nat \<Rightarrow> bool" where
  "is_server_initiated stream_id \<longleftrightarrow> stream_id AND 0x01 = 1"

definition is_bidirectional :: "nat \<Rightarrow> bool" where
  "is_bidirectional stream_id \<longleftrightarrow> stream_id AND 0x02 = 0"

definition is_unidirectional :: "nat \<Rightarrow> bool" where
  "is_unidirectional stream_id \<longleftrightarrow> stream_id AND 0x02 \<noteq> 0"

datatype stream_type = ClientBidi | ServerBidi | ClientUni | ServerUni

definition stream_type_from_id :: "nat \<Rightarrow> stream_type res" where
  "stream_type_from_id i =
    (let t = i AND 0x03
     in if t = 0x00 then Ok ClientBidi
        else if t = 0x01 then Ok ServerBidi
        else if t = 0x02 then Ok ClientUni
        else if t = 0x03 then Ok ServerUni
        else Panic)"

primrec stream_type_code :: "stream_type \<Rightarrow> nat" where
  "stream_type_code ClientBidi = 0x00"
| "stream_type_code ServerBidi = 0x01"
| "stream_type_code ClientUni = 0x02"
| "stream_type_code ServerUni = 0x03"

definition stream_type_id :: "stream_type \<Rightarrow> nat \<Rightarrow> nat" where
  "stream_type_id t n = u64_add (u64_mul n 4) (stream_type_code t)"

section \<open>State\<close>

datatype send_stream_state = Ready | Send | DataSent | ResetSent | DataRecvd | ResetRecvd

definition send_is_terminal :: "send_stream_state \<Rightarrow> bool" where
  "send_is_terminal s = (case s of DataRecvd \<Rightarrow> True | ResetRecvd \<Rightarrow> True | _ \<Rightarrow> False)"

datatype recv_stream_state = Recv | SizeKnown | DataRecvd | ResetRecvd | DataRead | ResetRead

definition recv_is_terminal :: "recv_stream_state \<Rightarrow> bool" where
  "recv_is_terminal s = (case s of DataRead \<Rightarrow> True | ResetRead \<Rightarrow> True | _ \<Rightarrow> False)"

record send_state =
  snd_state :: send_stream_state
  snd_offset :: nat
  snd_acked :: nat
  snd_fin_sent :: bool
  snd_max_data :: nat
  snd_blocked :: bool

definition send_new :: "nat \<Rightarrow> send_state" where
  "send_new max_data =
    \<lparr>snd_state = Ready, snd_offset = 0, snd_acked = 0, snd_fin_sent = False,
     snd_max_data = max_data, snd_blocked = False\<rparr>"

record recv_state =
  rcv_state :: recv_stream_state
  rcv_offset :: nat
  rcv_max_data :: nat
  rcv_max_data_next :: nat
  rcv_initial_window :: nat
  rcv_fin_offset :: "nat option"

definition recv_new :: "nat \<Rightarrow> recv_state" where
  "recv_new max_data =
    \<lparr>rcv_state = Recv, rcv_offset = 0, rcv_max_data = max_data, rcv_max_data_next = max_data,
     rcv_initial_window = max_data, rcv_fin_offset = None\<rparr>"

record stream_state =
  str_id :: nat
  str_send :: "send_state option"
  str_recv :: "recv_state option"

record stream_map =
  sm_capacity :: nat
  sm_alloc :: bool
  sm_streams :: "stream_state option list"
  next_bidi_local :: nat
  next_uni_local :: nat
  max_bidi_remote :: nat
  max_uni_remote :: nat

definition DEFAULT_INITIAL_MAX_STREAM_DATA :: nat where
  "DEFAULT_INITIAL_MAX_STREAM_DATA = 65536"

definition stream_map_new :: "bool \<Rightarrow> nat \<Rightarrow> stream_map" where
  "stream_map_new alloc N =
    \<lparr>sm_capacity = N, sm_alloc = alloc, sm_streams = (if alloc then [] else replicate N None),
     next_bidi_local = 0, next_uni_local = 0, max_bidi_remote = 0, max_uni_remote = 0\<rparr>"

section \<open>Lookup\<close>

definition is_stream :: "nat \<Rightarrow> stream_state option \<Rightarrow> bool" where
  "is_stream stream_id slot = (case slot of Some s \<Rightarrow> str_id s = stream_id | None \<Rightarrow> False)"

definition find_stream :: "stream_map \<Rightarrow> nat \<Rightarrow> nat option" where
  "find_stream m stream_id = position (is_stream stream_id) (sm_streams m)"

text \<open>The free slot and the table, which the call may have grown by one slot.\<close>

definition find_free_slot :: "stream_map \<Rightarrow> (nat \<times> stream_map) option" where
  "find_free_slot m =
    (case position (\<lambda>s. s = None) (sm_streams m) of
       Some pos \<Rightarrow> Some (pos, m)
     | None \<Rightarrow>
         if sm_alloc m \<and> length (sm_streams m) < sm_capacity m
         then Some (length (sm_streams m), m\<lparr>sm_streams := sm_streams m @ [None]\<rparr>)
         else None)"

definition get :: "stream_map \<Rightarrow> nat \<Rightarrow> stream_state option" where
  "get m stream_id =
    (case find_stream m stream_id of None \<Rightarrow> None | Some i \<Rightarrow> sm_streams m ! i)"

definition update_stream :: "stream_map \<Rightarrow> nat \<Rightarrow> stream_state \<Rightarrow> stream_map" where
  "update_stream m stream_id s =
    (case find_stream m stream_id of None \<Rightarrow> m
     | Some i \<Rightarrow> m\<lparr>sm_streams := (sm_streams m)[i := Some s]\<rparr>)"

text \<open>
  Every handler of one side of a stream starts with \<^verbatim>\<open>get_mut(id).ok_or(InvalidState)?\<close> and
  \<^verbatim>\<open>send.as_mut().ok_or(InvalidState)?\<close> (or \<^verbatim>\<open>recv\<close>), and then mutates that side in place, also
  on some of its error paths. \<open>with_send\<close> and \<open>with_recv\<close> are these two lines.
\<close>

definition with_send ::
  "stream_map \<Rightarrow> nat \<Rightarrow> (send_state \<Rightarrow> send_state \<times> 'a res) \<Rightarrow> stream_map \<times> 'a res" where
  "with_send m stream_id f =
    (case get m stream_id of None \<Rightarrow> (m, Err InvalidState)
     | Some stream \<Rightarrow>
        (case str_send stream of None \<Rightarrow> (m, Err InvalidState)
         | Some send \<Rightarrow>
            (update_stream m stream_id (stream\<lparr>str_send := Some (fst (f send))\<rparr>), snd (f send))))"

definition with_recv ::
  "stream_map \<Rightarrow> nat \<Rightarrow> (recv_state \<Rightarrow> recv_state \<times> 'a res) \<Rightarrow> stream_map \<times> 'a res" where
  "with_recv m stream_id f =
    (case get m stream_id of None \<Rightarrow> (m, Err InvalidState)
     | Some stream \<Rightarrow>
        (case str_recv stream of None \<Rightarrow> (m, Err InvalidState)
         | Some recv \<Rightarrow>
            (update_stream m stream_id (stream\<lparr>str_recv := Some (fst (f recv))\<rparr>), snd (f recv))))"

section \<open>Opening streams\<close>

definition open_bidi :: "stream_map \<Rightarrow> bool \<Rightarrow> stream_map \<times> nat res" where
  "open_bidi m is_client =
    (let stype = (if is_client then ClientBidi else ServerBidi);
         stream_id = stream_type_id stype (next_bidi_local m)
     in case find_free_slot m of None \<Rightarrow> (m, Err StreamLimitExhausted)
        | Some (slot, m) \<Rightarrow>
           (m\<lparr>sm_streams := (sm_streams m)[slot := Some
                \<lparr>str_id = stream_id,
                 str_send = Some (send_new DEFAULT_INITIAL_MAX_STREAM_DATA),
                 str_recv = Some (recv_new DEFAULT_INITIAL_MAX_STREAM_DATA)\<rparr>],
              next_bidi_local := u64_add (next_bidi_local m) 1\<rparr>, Ok stream_id))"

definition open_uni :: "stream_map \<Rightarrow> bool \<Rightarrow> stream_map \<times> nat res" where
  "open_uni m is_client =
    (let stype = (if is_client then ClientUni else ServerUni);
         stream_id = stream_type_id stype (next_uni_local m)
     in case find_free_slot m of None \<Rightarrow> (m, Err StreamLimitExhausted)
        | Some (slot, m) \<Rightarrow>
           (m\<lparr>sm_streams := (sm_streams m)[slot := Some
                \<lparr>str_id = stream_id,
                 str_send = Some (send_new DEFAULT_INITIAL_MAX_STREAM_DATA),
                 str_recv = None\<rparr>],
              next_uni_local := u64_add (next_uni_local m) 1\<rparr>, Ok stream_id))"

text \<open>The result is the stream's state, for the mutable reference of the code.\<close>

definition get_or_create ::
  "stream_map \<Rightarrow> nat \<Rightarrow> bool \<Rightarrow> nat \<Rightarrow> stream_map \<times> stream_state res" where
  "get_or_create m stream_id is_client initial_max_stream_data =
    (let peer_initiated =
           (if is_client then is_server_initiated stream_id else is_client_initiated stream_id)
     in if \<not> peer_initiated then (m, Err (Transport StreamStateError))
     else case find_stream m stream_id of
       Some i \<Rightarrow> (m, case sm_streams m ! i of Some s \<Rightarrow> Ok s | None \<Rightarrow> Panic)
     | None \<Rightarrow>
       (case find_free_slot m of None \<Rightarrow> (m, Err StreamLimitExhausted)
        | Some (slot, m) \<Rightarrow>
           let seq = stream_id div 4 in
           if is_bidirectional stream_id then
             let state = \<lparr>str_id = stream_id,
                          str_send = Some (send_new initial_max_stream_data),
                          str_recv = Some (recv_new initial_max_stream_data)\<rparr>
             in (m\<lparr>max_bidi_remote :=
                    (if seq \<ge> max_bidi_remote m then u64_add seq 1 else max_bidi_remote m),
                   sm_streams := (sm_streams m)[slot := Some state]\<rparr>, Ok state)
           else
             let state = \<lparr>str_id = stream_id, str_send = None,
                          str_recv = Some (recv_new initial_max_stream_data)\<rparr>
             in (m\<lparr>max_uni_remote :=
                    (if seq \<ge> max_uni_remote m then u64_add seq 1 else max_uni_remote m),
                   sm_streams := (sm_streams m)[slot := Some state]\<rparr>, Ok state)))"

definition set_send_window :: "nat option \<Rightarrow> stream_state \<Rightarrow> stream_state" where
  "set_send_window send_max stream =
    (case (send_max, str_send stream) of
       (Some mx, Some send) \<Rightarrow> stream\<lparr>str_send := Some (send\<lparr>snd_max_data := mx\<rparr>)\<rparr>
     | _ \<Rightarrow> stream)"

definition set_recv_window :: "nat option \<Rightarrow> stream_state \<Rightarrow> stream_state" where
  "set_recv_window recv_max stream =
    (case (recv_max, str_recv stream) of
       (Some mx, Some recv) \<Rightarrow>
         stream\<lparr>str_recv := Some (recv\<lparr>rcv_max_data := mx, rcv_max_data_next := mx,
                                       rcv_initial_window := mx\<rparr>)\<rparr>
     | _ \<Rightarrow> stream)"

definition set_stream_windows ::
  "stream_map \<Rightarrow> nat \<Rightarrow> nat option \<Rightarrow> nat option \<Rightarrow> stream_map" where
  "set_stream_windows m stream_id send_max recv_max =
    (case get m stream_id of None \<Rightarrow> m
     | Some stream \<Rightarrow>
        update_stream m stream_id (set_recv_window recv_max (set_send_window send_max stream)))"

section \<open>Sending\<close>

definition send_mark :: "nat \<Rightarrow> bool \<Rightarrow> send_state \<Rightarrow> send_state \<times> unit res" where
  "send_mark len fin send =
    (if snd_state send \<noteq> Ready \<and> snd_state send \<noteq> Send
     then (send, Err (Transport StreamStateError))
     else let new_offset = u64_add (snd_offset send) len in
       if new_offset > snd_max_data send
       then (send\<lparr>snd_blocked := True\<rparr>, Err (Transport transport_error.FlowControlError))
       else
         let send = send\<lparr>snd_offset := new_offset\<rparr>;
             send = (if snd_state send = Ready then send\<lparr>snd_state := Send\<rparr> else send);
             send = (if fin then send\<lparr>snd_fin_sent := True, snd_state := DataSent\<rparr> else send)
         in (send, Ok ()))"

definition mark_send :: "stream_map \<Rightarrow> nat \<Rightarrow> nat \<Rightarrow> bool \<Rightarrow> stream_map \<times> unit res" where
  "mark_send m stream_id len fin = with_send m stream_id (send_mark len fin)"

definition send_reset :: "send_state \<Rightarrow> send_state \<times> unit res" where
  "send_reset send =
    (if snd_state send = Ready \<or> snd_state send = Send \<or> snd_state send = DataSent
     then (send\<lparr>snd_state := ResetSent\<rparr>, Ok ())
     else (send, Err (Transport StreamStateError)))"

definition mark_reset_sent :: "stream_map \<Rightarrow> nat \<Rightarrow> stream_map \<times> unit res" where
  "mark_reset_sent m stream_id = with_send m stream_id send_reset"

definition send_stop :: "send_state \<Rightarrow> send_state \<times> unit res" where
  "send_stop send =
    (if snd_state send = Ready \<or> snd_state send = Send \<or> snd_state send = DataSent
     then (send\<lparr>snd_state := ResetSent\<rparr>, Ok ())
     else if snd_state send = ResetSent then (send, Ok ())
     else (send, Err (Transport StreamStateError)))"

definition handle_stop_sending :: "stream_map \<Rightarrow> nat \<Rightarrow> stream_map \<times> unit res" where
  "handle_stop_sending m stream_id = with_send m stream_id send_stop"

definition send_raise :: "nat \<Rightarrow> send_state \<Rightarrow> send_state \<times> unit res" where
  "send_raise max_data send =
    (if max_data > snd_max_data send
     then (send\<lparr>snd_max_data := max_data, snd_blocked := False\<rparr>, Ok ())
     else (send, Ok ()))"

definition handle_max_stream_data :: "stream_map \<Rightarrow> nat \<Rightarrow> nat \<Rightarrow> stream_map \<times> unit res" where
  "handle_max_stream_data m stream_id max_data = with_send m stream_id (send_raise max_data)"

section \<open>Receiving\<close>

definition recv_mark :: "nat \<Rightarrow> nat \<Rightarrow> bool \<Rightarrow> recv_state \<Rightarrow> recv_state \<times> nat res" where
  "recv_mark offset len fin recv =
    (if rcv_state recv \<noteq> Recv \<and> rcv_state recv \<noteq> SizeKnown
     then (recv, Err (Transport StreamStateError))
     else let end_off = u64_add offset len in
       if (case rcv_fin_offset recv of None \<Rightarrow> False
           | Some fin_off \<Rightarrow> end_off > fin_off \<or> fin \<and> u64_add offset len \<noteq> fin_off)
       then (recv, Err (Transport FinalSizeError))
       else if fin \<and> (case rcv_fin_offset recv of None \<Rightarrow> False
                       | Some existing \<Rightarrow> existing \<noteq> end_off)
       then (recv, Err (Transport FinalSizeError))
       else
         let recv = (if fin then recv\<lparr>rcv_fin_offset := Some end_off, rcv_state := SizeKnown\<rparr>
                     else recv)
         in if end_off > rcv_max_data recv
            then (recv, Err (Transport transport_error.FlowControlError))
            else
              let new_bytes = (if end_off > rcv_offset recv then end_off - rcv_offset recv else 0);
                  recv = (if end_off > rcv_offset recv then recv\<lparr>rcv_offset := end_off\<rparr> else recv);
                  recv = (case rcv_fin_offset recv of None \<Rightarrow> recv
                          | Some fin_off \<Rightarrow>
                              if rcv_offset recv \<ge> fin_off
                              then recv\<lparr>rcv_state := recv_stream_state.DataRecvd\<rparr> else recv);
                  remaining = rcv_max_data recv - rcv_offset recv;
                  recv = (if remaining < rcv_initial_window recv div 2
                          then recv\<lparr>rcv_max_data_next :=
                                 u64_add (rcv_offset recv) (rcv_initial_window recv)\<rparr>
                          else recv)
              in (recv, Ok new_bytes))"

definition mark_recv ::
  "stream_map \<Rightarrow> nat \<Rightarrow> nat \<Rightarrow> nat \<Rightarrow> bool \<Rightarrow> stream_map \<times> nat res" where
  "mark_recv m stream_id offset len fin = with_recv m stream_id (recv_mark offset len fin)"

definition recv_reset :: "nat \<Rightarrow> recv_state \<Rightarrow> recv_state \<times> unit res" where
  "recv_reset final_size recv =
    (if rcv_state recv \<noteq> Recv \<and> rcv_state recv \<noteq> SizeKnown
        \<and> rcv_state recv \<noteq> recv_stream_state.DataRecvd
     then (recv, Err (Transport StreamStateError))
     else if (case rcv_fin_offset recv of None \<Rightarrow> False | Some fin_off \<Rightarrow> fin_off \<noteq> final_size)
     then (recv, Err (Transport FinalSizeError))
     else (recv\<lparr>rcv_fin_offset := Some final_size,
                 rcv_state := recv_stream_state.ResetRecvd\<rparr>, Ok ()))"

definition handle_reset :: "stream_map \<Rightarrow> nat \<Rightarrow> nat \<Rightarrow> stream_map \<times> unit res" where
  "handle_reset m stream_id final_size = with_recv m stream_id (recv_reset final_size)"

definition wants_update :: "stream_state option \<Rightarrow> (nat \<times> nat) option" where
  "wants_update slot =
    (case slot of None \<Rightarrow> None
     | Some s \<Rightarrow> (case str_recv s of None \<Rightarrow> None
                 | Some recv \<Rightarrow> if rcv_max_data_next recv > rcv_max_data recv
                              then Some (str_id s, rcv_max_data_next recv) else None))"

definition should_send_max_stream_data :: "stream_map \<Rightarrow> (nat \<times> nat) option" where
  "should_send_max_stream_data m =
    (case List.map_filter wants_update (sm_streams m) of [] \<Rightarrow> None | x # _ \<Rightarrow> Some x)"

definition mark_max_stream_data_sent :: "stream_map \<Rightarrow> nat \<Rightarrow> stream_map" where
  "mark_max_stream_data_sent m stream_id =
    (case get m stream_id of None \<Rightarrow> m
     | Some stream \<Rightarrow>
        (case str_recv stream of None \<Rightarrow> m
         | Some recv \<Rightarrow> update_stream m stream_id
             (stream\<lparr>str_recv := Some (recv\<lparr>rcv_max_data := rcv_max_data_next recv\<rparr>)\<rparr>)))"

section \<open>Terminal streams\<close>

definition stream_is_terminal :: "stream_state \<Rightarrow> bool" where
  "stream_is_terminal s \<longleftrightarrow>
    (case str_send s of Some send \<Rightarrow> send_is_terminal (snd_state send) | None \<Rightarrow> True) \<and>
    (case str_recv s of Some recv \<Rightarrow> recv_is_terminal (rcv_state recv) | None \<Rightarrow> True)"

definition is_terminal :: "stream_map \<Rightarrow> nat \<Rightarrow> bool" where
  "is_terminal m stream_id =
    (case get m stream_id of Some s \<Rightarrow> stream_is_terminal s | None \<Rightarrow> False)"

definition active_count :: "stream_map \<Rightarrow> nat" where
  "active_count m =
    length (filter (\<lambda>slot. case slot of Some s \<Rightarrow> \<not> stream_is_terminal s | None \<Rightarrow> False)
      (sm_streams m))"

definition gc :: "stream_map \<Rightarrow> stream_map" where
  "gc m = m\<lparr>sm_streams := map (\<lambda>slot. case slot of
      Some s \<Rightarrow> if stream_is_terminal s then None else slot | None \<Rightarrow> None) (sm_streams m)\<rparr>"

section \<open>The table as a map\<close>

lemma get_Some_id: "get m i = Some s \<Longrightarrow> str_id s = i"
  by (auto simp: get_def find_stream_def position_Some is_stream_def split: option.splits)

lemma get_Some_mem: "get m i = Some s \<Longrightarrow> Some s \<in> set (sm_streams m)"
  by (auto simp: get_def find_stream_def position_Some dest: nth_mem split: option.splits)

lemma get_None: "get m i = None \<longleftrightarrow> find_stream m i = None"
  by (auto simp: get_def find_stream_def position_Some is_stream_def split: option.splits)

lemma get_None_iff: "get m i = None \<longleftrightarrow> (\<forall>s. Some s \<in> set (sm_streams m) \<longrightarrow> str_id s \<noteq> i)"
  by (force simp: get_None find_stream_def position_None is_stream_def split: option.splits)

text \<open>Writing one slot: what the lookup sees at the stream of the slot and at the others.\<close>

lemma get_write_other:
  assumes "\<not> is_stream j (sm_streams m ! k)" and "\<not> is_stream j x"
  shows "get (m\<lparr>sm_streams := (sm_streams m)[k := x]\<rparr>) j = get m j"
proof -
  have "map (is_stream j) ((sm_streams m)[k := x]) = map (is_stream j) (sm_streams m)"
    using assms
    by (cases "k < length (sm_streams m)") (auto simp: list_eq_iff_nth_eq nth_list_update)
  from position_cong [OF this]
  have "find_stream (m\<lparr>sm_streams := (sm_streams m)[k := x]\<rparr>) j = find_stream m j"
    by (simp add: find_stream_def)
  moreover have "l \<noteq> k" if "find_stream m j = Some l" for l
    using that assms(1) by (auto simp: find_stream_def dest: position_SomeD)
  ultimately show ?thesis by (auto simp: get_def split: option.splits)
qed

lemma get_write_same:
  assumes "k < length (sm_streams m)" and "str_id s = i"
    and "\<And>j. j < k \<Longrightarrow> \<not> is_stream i (sm_streams m ! j)"
  shows "get (m\<lparr>sm_streams := (sm_streams m)[k := Some s]\<rparr>) i = Some s"
proof -
  have "find_stream (m\<lparr>sm_streams := (sm_streams m)[k := Some s]\<rparr>) i = Some k"
    using assms by (simp add: find_stream_def position_Some is_stream_def)
  with assms(1) show ?thesis by (simp add: get_def)
qed

lemma get_update_stream:
  assumes "get m i = Some s" and "str_id s' = i"
  shows "get (update_stream m i s') = (get m)(i \<mapsto> s')"
proof
  fix j
  obtain k where k: "find_stream m i = Some k" using assms(1) get_None [of m i] by auto
  then have pos: "k < length (sm_streams m)" "is_stream i (sm_streams m ! k)"
      "\<And>j. j < k \<Longrightarrow> \<not> is_stream i (sm_streams m ! j)"
    by (auto simp: find_stream_def dest: position_SomeD)
  have upd: "update_stream m i s' = m\<lparr>sm_streams := (sm_streams m)[k := Some s']\<rparr>"
    using k by (simp add: update_stream_def)
  have "j \<noteq> i \<Longrightarrow> \<not> is_stream j (sm_streams m ! k) \<and> \<not> is_stream j (Some s')"
    using pos(2) assms(2) by (auto simp: is_stream_def split: option.splits)
  then show "get (update_stream m i s') j = ((get m)(i \<mapsto> s')) j"
    using get_write_same [OF pos(1) assms(2) pos(3)] get_write_other upd by simp
qed

interpretation streams: keyed_store get update_stream str_id
  by unfold_locales (auto simp: get_Some_id get_update_stream)

text \<open>A new stream in a free slot extends the map.\<close>

lemma find_free_slot_spec:
  assumes "find_free_slot m = Some (slot, m')"
  shows "slot < length (sm_streams m')" and "sm_streams m' ! slot = None"
    and "m' = m\<lparr>sm_streams := sm_streams m'\<rparr>"
    and "set (sm_streams m') \<subseteq> insert None (set (sm_streams m))"
    and "\<exists>ys. sm_streams m' = sm_streams m @ ys \<and> set ys \<subseteq> {None}"
    and "length (sm_streams m) \<le> sm_capacity m \<Longrightarrow> length (sm_streams m') \<le> sm_capacity m"
    and "length (sm_streams m) \<le> length (sm_streams m')"
  using assms
  by (auto simp: find_free_slot_def position_Some nth_append split: option.splits if_splits)

lemma find_free_slot_keeps:
  assumes "find_free_slot m = Some (slot, m1)"
  shows "next_bidi_local m1 = next_bidi_local m" "next_uni_local m1 = next_uni_local m"
    "max_bidi_remote m1 = max_bidi_remote m" "max_uni_remote m1 = max_uni_remote m"
    "sm_capacity m1 = sm_capacity m" "sm_alloc m1 = sm_alloc m"
  using assms by (auto simp: find_free_slot_def split: option.splits if_splits)

lemma get_slots: "sm_streams m = sm_streams m' \<Longrightarrow> get m = get m'"
  by (rule ext) (simp add: get_def find_stream_def split: option.split)

lemma get_append_None: 
  assumes "set ys \<subseteq> {None}"
  shows "get (m\<lparr>sm_streams := sm_streams m @ ys\<rparr>) = get m"
proof
  fix i
  have "position (is_stream i) (xs @ ys) = position (is_stream i) xs" for xs
    using assms by (induction xs) (auto simp: position_None is_stream_def split: option.splits)
  then show "get (m\<lparr>sm_streams := sm_streams m @ ys\<rparr>) i = get m i"
    by (auto simp: get_def find_stream_def nth_append split: option.splits
        dest: position_SomeD)
qed

lemma get_insert:
  assumes "slot < length (sm_streams m)" and "sm_streams m ! slot = None" and "get m (str_id s) = None"
  shows "get (m\<lparr>sm_streams := (sm_streams m)[slot := Some s]\<rparr>) = (get m)(str_id s \<mapsto> s)"
proof
  fix j
  have free: "\<not> is_stream (str_id s) (sm_streams m ! n)" if "n < slot" for n
  proof -
    have "sm_streams m ! n \<in> set (sm_streams m)" using that assms(1) by simp
    with assms(3) show ?thesis by (auto simp: get_None_iff is_stream_def split: option.splits)
  qed
  have "j \<noteq> str_id s \<Longrightarrow> \<not> is_stream j (sm_streams m ! slot) \<and> \<not> is_stream j (Some s)"
    using assms(2) by (auto simp: is_stream_def)
  then show "get (m\<lparr>sm_streams := (sm_streams m)[slot := Some s]\<rparr>) j = ((get m)(str_id s \<mapsto> s)) j"
    using get_write_same [OF assms(1) refl free] get_write_other by simp
qed

lemma get_new_stream:
  assumes "find_free_slot m = Some (slot, m')" and "get m (str_id s) = None"
    and "sm_streams m'' = (sm_streams m')[slot := Some s]"
  shows "get m'' = (get m)(str_id s \<mapsto> s)"
proof -
  obtain ys where ys: "sm_streams m' = sm_streams m @ ys" "set ys \<subseteq> {None}"
    using find_free_slot_spec(5) [OF assms(1)] by auto
  have m': "get m' = get m"
    using get_append_None [OF ys(2)] get_slots [of m' "m\<lparr>sm_streams := sm_streams m @ ys\<rparr>"] ys(1)
    by simp
  have "get m'' = get (m'\<lparr>sm_streams := (sm_streams m')[slot := Some s]\<rparr>)"
    using assms(3) by (intro get_slots) simp
  also have "\<dots> = (get m)(str_id s \<mapsto> s)"
    using get_insert find_free_slot_spec(1,2) [OF assms(1)] assms(2) m' by simp
  finally show ?thesis .
qed

lemma find_free_slot_None:
  "find_free_slot m = None \<longleftrightarrow>
     None \<notin> set (sm_streams m) \<and> (sm_alloc m \<longrightarrow> sm_capacity m \<le> length (sm_streams m))"
proof -
  have "position (\<lambda>s. s = None) (sm_streams m) = None \<longleftrightarrow> None \<notin> set (sm_streams m)"
    unfolding position_None by metis
  then show ?thesis
    by (cases "position (\<lambda>s. s = None) (sm_streams m)") (auto simp: find_free_slot_def)
qed

section \<open>Stream identifier arithmetic\<close>

lemma is_client_initiated_mod: "is_client_initiated i \<longleftrightarrow> i mod 2 = 0"
  using take_bit_eq_mask [of 1 i] by (simp add: is_client_initiated_def take_bit_nat_def)

lemma is_server_initiated_mod: "is_server_initiated i \<longleftrightarrow> i mod 2 = 1"
  using take_bit_eq_mask [of 1 i] by (simp add: is_server_initiated_def take_bit_nat_def)

lemma is_bidirectional_mod: "is_bidirectional i \<longleftrightarrow> i div 2 mod 2 = 0"
  using and_exp_eq_0_iff_not_bit [of i 1] by (simp add: is_bidirectional_def bit_nat_def even_iff_mod_2_eq_zero)

lemma is_unidirectional_not: "is_unidirectional i \<longleftrightarrow> \<not> is_bidirectional i"
  by (simp add: is_unidirectional_def is_bidirectional_def)

lemma stream_type_id_exact: "n < 2 ^ 62 \<Longrightarrow> stream_type_id t n = 4 * n + stream_type_code t"
  by (cases t) (simp_all add: stream_type_id_def)

lemma stream_type_code_less [simp]: "stream_type_code t < 4"
  by (cases t) simp_all

lemmas id_arith = is_client_initiated_mod is_server_initiated_mod is_bidirectional_mod
  is_unidirectional_not

section \<open>Invariant\<close>

definition is_local :: "bool \<Rightarrow> nat \<Rightarrow> bool" where
  "is_local is_client i \<longleftrightarrow> is_client_initiated i = is_client"

definition send_ok :: "send_state \<Rightarrow> bool" where
  "send_ok s \<longleftrightarrow> snd_offset s \<le> snd_max_data s
     \<and> (snd_fin_sent s \<longrightarrow> snd_state s = DataSent \<or> snd_state s = ResetSent)
     \<and> (snd_state s = DataSent \<longrightarrow> snd_fin_sent s)
     \<and> (snd_state s = Ready \<longrightarrow> snd_offset s = 0)
     \<and> \<not> send_is_terminal (snd_state s)"

text \<open>
  The receive side keeps \<open>offset \<le> max_data \<le> max_data_next \<le> offset + window\<close>: the peer is
  inside the advertised limit, and the limit is never more than one window ahead; the limit to
  be advertised next is always at least half a window ahead, so the peer is never starved.
\<close>

definition recv_ok :: "recv_state \<Rightarrow> bool" where
  "recv_ok r \<longleftrightarrow> rcv_offset r \<le> rcv_max_data r \<and> rcv_max_data r \<le> rcv_max_data_next r
     \<and> rcv_max_data_next r \<le> rcv_offset r + rcv_initial_window r
     \<and> rcv_offset r + rcv_initial_window r div 2 \<le> rcv_max_data_next r
     \<and> rcv_initial_window r < 2 ^ 62 \<and> rcv_offset r < 2 ^ 63
     \<and> (rcv_state r = Recv \<longleftrightarrow> rcv_fin_offset r = None)
     \<and> (rcv_state r = SizeKnown \<longrightarrow> rcv_offset r < the (rcv_fin_offset r))
     \<and> \<not> recv_is_terminal (rcv_state r)"

definition id_ok :: "bool \<Rightarrow> stream_map \<Rightarrow> nat \<Rightarrow> bool" where
  "id_ok is_client m i \<longleftrightarrow> i div 4 <
     (if is_local is_client i
      then if is_bidirectional i then next_bidi_local m else next_uni_local m
      else if is_bidirectional i then max_bidi_remote m else max_uni_remote m)"

definition stream_ok :: "bool \<Rightarrow> stream_state \<Rightarrow> bool" where
  "stream_ok is_client s \<longleftrightarrow>
     (str_send s = None \<longleftrightarrow> \<not> is_local is_client (str_id s) \<and> is_unidirectional (str_id s))
     \<and> (str_recv s = None \<longleftrightarrow> is_local is_client (str_id s) \<and> is_unidirectional (str_id s))
     \<and> pred_option send_ok (str_send s) \<and> pred_option recv_ok (str_recv s)"

definition ids_unique :: "stream_state option list \<Rightarrow> bool" where
  "ids_unique xs \<longleftrightarrow> (\<forall>i j s t. i < length xs \<and> j < length xs \<and> xs ! i = Some s \<and> xs ! j = Some t
      \<and> str_id s = str_id t \<longrightarrow> i = j)"

definition sm_inv :: "bool \<Rightarrow> stream_map \<Rightarrow> bool" where
  "sm_inv is_client m \<longleftrightarrow>
     length (sm_streams m) \<le> sm_capacity m
     \<and> (\<not> sm_alloc m \<longrightarrow> length (sm_streams m) = sm_capacity m)
     \<and> ids_unique (sm_streams m)
     \<and> (\<forall>s. Some s \<in> set (sm_streams m) \<longrightarrow> id_ok is_client m (str_id s) \<and> stream_ok is_client s)"

lemma sm_inv_new [inv_rules]: "sm_inv is_client (stream_map_new alloc N)"
  by (auto simp: sm_inv_def stream_map_new_def ids_unique_def)

lemma sm_inv_get:
  "sm_inv c m \<Longrightarrow> get m i = Some s \<Longrightarrow> stream_ok c s \<and> id_ok c m (str_id s) \<and> str_id s = i"
  by (auto simp: sm_inv_def get_Some_id dest: get_Some_mem)

lemma ids_uniqueD:
  assumes "ids_unique xs" and "Some s \<in> set xs" and "Some t \<in> set xs" and "str_id s = str_id t"
  shows "s = t"
proof -
  obtain i j where "i < length xs" "xs ! i = Some s" "j < length xs" "xs ! j = Some t"
    using assms(2,3) by (auto simp: in_set_conv_nth)
  with assms(1,4) show ?thesis by (metis ids_unique_def option.inject)
qed

lemma ids_unique_append_None:
  assumes "ids_unique xs" and "set ys \<subseteq> {None}"
  shows "ids_unique (xs @ ys)"
proof -
  have "i < length xs \<and> xs ! i = Some s" if "i < length (xs @ ys)" "(xs @ ys) ! i = Some s" for i s
  proof (cases "i < length xs")
    case False
    then have "(xs @ ys) ! i \<in> set ys" using that(1) by (simp add: nth_append)
    with assms(2) that(2) show ?thesis by auto
  qed (use that in \<open>simp add: nth_append\<close>)
  with assms(1) show ?thesis unfolding ids_unique_def by metis
qed

lemma sm_inv_get_eq:
  assumes "sm_inv c m" and "Some s \<in> set (sm_streams m)"
  shows "get m (str_id s) = Some s"
proof -
  obtain t where t: "get m (str_id s) = Some t"
    using assms(2) get_None_iff [of m "str_id s"] by (cases "get m (str_id s)") auto
  then have "Some t \<in> set (sm_streams m)" "str_id t = str_id s"
    using get_Some_mem get_Some_id by auto
  with assms have "s = t" using ids_uniqueD [of "sm_streams m" s t] by (simp add: sm_inv_def)
  with t show ?thesis by simp
qed

lemma ids_unique_write:
  assumes "ids_unique xs" and "\<And>j t. j < length xs \<Longrightarrow> j \<noteq> k \<Longrightarrow> xs ! j = Some t \<Longrightarrow> str_id t \<noteq> str_id s"
  shows "ids_unique (xs[k := Some s])"
  using assms unfolding ids_unique_def
  by (metis length_list_update nth_list_update_eq nth_list_update_neq option.inject)

lemma set_write: "Some t \<in> set (xs[k := Some s]) \<Longrightarrow> t = s \<or> Some t \<in> set xs"
  using set_update_subset_insert [of xs k "Some s"] by auto

lemma sm_inv_update [inv_rules]:
  assumes "sm_inv c m" and "get m i = Some s" and "str_id s' = i" and "stream_ok c s'"
  shows "sm_inv c (update_stream m i s')"
proof -
  obtain k where k: "find_stream m i = Some k" using assms(2) get_None [of m i] by auto
  then have pos: "k < length (sm_streams m)" "sm_streams m ! k = Some s"
    using assms(2) by (auto simp: get_def find_stream_def dest: position_SomeD)
  have "ids_unique ((sm_streams m)[k := Some s'])"
    using assms(1) pos get_Some_id [OF assms(2)] assms(3)
    by (intro ids_unique_write) (auto simp: sm_inv_def ids_unique_def)
  with assms k sm_inv_get [OF assms(1,2)] show ?thesis
    by (auto simp: sm_inv_def update_stream_def id_ok_def dest!: set_write)
qed

definition counters_le :: "stream_map \<Rightarrow> stream_map \<Rightarrow> bool" where
  "counters_le m m' \<longleftrightarrow> next_bidi_local m \<le> next_bidi_local m'
     \<and> next_uni_local m \<le> next_uni_local m'
     \<and> max_bidi_remote m \<le> max_bidi_remote m' \<and> max_uni_remote m \<le> max_uni_remote m'"

lemma id_ok_mono: "id_ok c m i \<Longrightarrow> counters_le m m' \<Longrightarrow> id_ok c m' i"
  by (auto simp: id_ok_def counters_le_def split: if_splits)

lemma sm_inv_insert:
  assumes "sm_inv c m" and "find_free_slot m = Some (slot, m1)" and "get m (str_id s) = None"
    and "sm_streams m2 = (sm_streams m1)[slot := Some s]"
    and "sm_capacity m2 = sm_capacity m" and "sm_alloc m2 = sm_alloc m"
    and "counters_le m m2" and "id_ok c m2 (str_id s)" and "stream_ok c s"
  shows "sm_inv c m2"
proof -
  note spec = find_free_slot_spec [OF assms(2)]
  obtain ys where ys: "sm_streams m1 = sm_streams m @ ys" "set ys \<subseteq> {None}"
    using spec(5) by auto
  have len: "length (sm_streams m2) = length (sm_streams m1)" using assms(4) by simp
  have fixed: "length (sm_streams m1) = sm_capacity m" if "\<not> sm_alloc m"
    using that assms(1,2) by (auto simp: find_free_slot_def sm_inv_def split: option.splits if_splits)
  have sub: "Some t \<in> set (sm_streams m1) \<Longrightarrow> Some t \<in> set (sm_streams m)" for t
    using spec(4) by auto
  have new: "str_id t \<noteq> str_id s" if "j < length (sm_streams m1)" "sm_streams m1 ! j = Some t" for j t
    using sub [of t] nth_mem [OF that(1)] that(2) assms(3) by (auto simp: get_None_iff)
  have "ids_unique (sm_streams m1)"
    using ids_unique_append_None [OF _ ys(2)] ys(1) assms(1) by (simp add: sm_inv_def)
  then have uniq: "ids_unique (sm_streams m2)"
    unfolding assms(4) by (rule ids_unique_write) (use new in blast)
  have all: "id_ok c m2 (str_id t) \<and> stream_ok c t" if "Some t \<in> set (sm_streams m2)" for t
    using set_write [of t] that sub [of t] assms(1,4,7-9) id_ok_mono [of c m _ m2]
    unfolding sm_inv_def by metis
  show ?thesis
    using uniq all len fixed spec(6) assms(1,5,6) unfolding sm_inv_def by simp
qed

section \<open>Every operation keeps the invariant\<close>

lemma sm_inv_with_send [inv_rules]:
  assumes "sm_inv c m" and "\<And>x. send_ok x \<Longrightarrow> send_ok (fst (f x))"
  shows "sm_inv c (fst (with_send m i f))"
  using assms
  by (auto simp: with_send_def stream_ok_def split: option.splits
      intro!: sm_inv_update dest: sm_inv_get)

lemma sm_inv_with_recv [inv_rules]:
  assumes "sm_inv c m" and "\<And>x. recv_ok x \<Longrightarrow> recv_ok (fst (f x))"
  shows "sm_inv c (fst (with_recv m i f))"
  using assms
  by (auto simp: with_recv_def stream_ok_def split: option.splits
      intro!: sm_inv_update dest: sm_inv_get)

lemma send_ok_new [inv_rules]: "send_ok (send_new w)"
  by (simp add: send_ok_def send_new_def send_is_terminal_def)

lemma recv_ok_new [inv_rules]: "w < 2 ^ 62 \<Longrightarrow> recv_ok (recv_new w)"
  by (simp add: recv_ok_def recv_new_def recv_is_terminal_def)

lemma send_mark_ok [inv_rules]: "send_ok x \<Longrightarrow> send_ok (fst (send_mark len fin x))"
  by (auto simp: send_ok_def send_mark_def Let_def send_is_terminal_def)

lemma send_reset_ok [inv_rules]: "send_ok x \<Longrightarrow> send_ok (fst (send_reset x))"
  by (auto simp: send_ok_def send_reset_def send_is_terminal_def)

lemma send_stop_ok [inv_rules]: "send_ok x \<Longrightarrow> send_ok (fst (send_stop x))"
  by (auto simp: send_ok_def send_stop_def send_is_terminal_def)

lemma send_raise_ok [inv_rules]: "send_ok x \<Longrightarrow> send_ok (fst (send_raise mx x))"
  by (auto simp: send_ok_def send_raise_def)

lemma recv_reset_ok [inv_rules]: "recv_ok x \<Longrightarrow> recv_ok (fst (recv_reset n x))"
  by (auto simp: recv_ok_def recv_reset_def recv_is_terminal_def split: option.splits)

text \<open>The exact effect of \<open>recv_mark\<close> when it accepts a frame, in terms of unbounded arithmetic.\<close>

definition raise_limit :: "recv_state \<Rightarrow> recv_state" where
  "raise_limit r = (if rcv_max_data r - rcv_offset r < rcv_initial_window r div 2
     then r\<lparr>rcv_max_data_next := rcv_offset r + rcv_initial_window r\<rparr> else r)"

definition recv_accept :: "nat \<Rightarrow> bool \<Rightarrow> recv_state \<Rightarrow> recv_state" where
  "recv_accept end_off fin r =
    (let r = r\<lparr>rcv_offset := max (rcv_offset r) end_off,
               rcv_fin_offset := (if fin then Some end_off else rcv_fin_offset r)\<rparr>;
         r = (case rcv_fin_offset r of None \<Rightarrow> r
              | Some f \<Rightarrow> r\<lparr>rcv_state := (if f \<le> rcv_offset r then recv_stream_state.DataRecvd
                                            else SizeKnown)\<rparr>)
     in raise_limit r)"

definition recv_accepts :: "nat \<Rightarrow> bool \<Rightarrow> recv_state \<Rightarrow> bool" where
  "recv_accepts end_off fin r \<longleftrightarrow> (rcv_state r = Recv \<or> rcv_state r = SizeKnown)
     \<and> end_off \<le> rcv_max_data r
     \<and> (\<forall>f. rcv_fin_offset r = Some f \<longrightarrow> end_off \<le> f \<and> (fin \<longrightarrow> end_off = f))"

lemma recv_mark_accept:
  assumes "recv_ok r" and "offset < 2 ^ 62" and "len < 2 ^ 62" and "recv_accepts (offset + len) fin r"
  shows "recv_mark offset len fin r =
    (recv_accept (offset + len) fin r, Ok (max (rcv_offset r) (offset + len) - rcv_offset r))"
proof -
  have e: "u64_add offset len = offset + len" using assms(2,3) by simp
  have w: "u64_add (rcv_offset r) (rcv_initial_window r) = rcv_offset r + rcv_initial_window r"
      "u64_add (offset + len) (rcv_initial_window r) = offset + len + rcv_initial_window r"
    using assms(1-3) by (auto intro!: u64_add_exact simp: recv_ok_def)
  show ?thesis
    using assms(1,4)
    by (cases "rcv_fin_offset r"; cases fin; cases "offset + len > rcv_offset r")
       (auto simp: recv_mark_def recv_accept_def recv_accepts_def Let_def e w raise_limit_def recv_ok_def
         max_def)
qed

lemma recv_mark_reject:
  assumes "offset < 2 ^ 62" and "len < 2 ^ 62" and "\<not> recv_accepts (offset + len) fin r"
  shows "(\<exists>e. recv_mark offset len fin r = (r, Err e)) \<or>
    recv_mark offset len fin r =
      (r\<lparr>rcv_fin_offset := Some (offset + len), rcv_state := SizeKnown\<rparr>,
       Err (Transport transport_error.FlowControlError)) \<and> rcv_max_data r < offset + len"
proof -
  have e: "u64_add offset len = offset + len" using assms(1,2) by simp
  show ?thesis using assms(3)
    by (cases "rcv_fin_offset r"; cases fin) (auto simp: recv_mark_def recv_accepts_def Let_def e)
qed

lemma recv_accept_ok:
  assumes "recv_ok r" and "recv_accepts end_off fin r" and "end_off < 2 ^ 63"
  shows "recv_ok (recv_accept end_off fin r)"
  using assms
  by (cases "rcv_fin_offset r"; cases fin)
     (auto simp: recv_accept_def recv_accepts_def Let_def raise_limit_def recv_ok_def
       recv_is_terminal_def max_def split: if_splits)

lemma recv_mark_ok [inv_rules]:
  assumes "recv_ok r" and "offset < 2 ^ 62" and "len < 2 ^ 62"
  shows "recv_ok (fst (recv_mark offset len fin r))"
proof (cases "recv_accepts (offset + len) fin r")
  case True
  then show ?thesis using recv_mark_accept [OF assms True] recv_accept_ok [OF assms(1) True] assms by simp
next
  case False
  from recv_mark_reject [OF assms(2,3) False] assms(1) show ?thesis
    by (auto simp: recv_ok_def recv_is_terminal_def)
qed

lemma get_fresh: "sm_inv c m \<Longrightarrow> \<not> id_ok c m i \<Longrightarrow> get m i = None"
  using sm_inv_get by (cases "get m i") auto

definition bidi_stream :: "nat \<Rightarrow> nat \<Rightarrow> stream_state" where
  "bidi_stream i w = \<lparr>str_id = i, str_send = Some (send_new w), str_recv = Some (recv_new w)\<rparr>"

definition send_only_stream :: "nat \<Rightarrow> nat \<Rightarrow> stream_state" where
  "send_only_stream i w = \<lparr>str_id = i, str_send = Some (send_new w), str_recv = None\<rparr>"

definition recv_only_stream :: "nat \<Rightarrow> nat \<Rightarrow> stream_state" where
  "recv_only_stream i w = \<lparr>str_id = i, str_send = None, str_recv = Some (recv_new w)\<rparr>"

lemmas new_stream_defs = bidi_stream_def send_only_stream_def recv_only_stream_def

lemma new_stream_id [simp]: "str_id (bidi_stream i w) = i" "str_id (send_only_stream i w) = i"
    "str_id (recv_only_stream i w) = i"
  by (simp_all add: new_stream_defs)

lemma bidi_stream_ok: "is_bidirectional i \<Longrightarrow> w < 2 ^ 62 \<Longrightarrow> stream_ok c (bidi_stream i w)"
  by (simp add: stream_ok_def bidi_stream_def is_unidirectional_not send_ok_new recv_ok_new)

lemma send_only_stream_ok:
  "is_local c i \<Longrightarrow> is_unidirectional i \<Longrightarrow> stream_ok c (send_only_stream i w)"
  by (simp add: stream_ok_def send_only_stream_def send_ok_new)

lemma recv_only_stream_ok:
  "\<not> is_local c i \<Longrightarrow> is_unidirectional i \<Longrightarrow> w < 2 ^ 62 \<Longrightarrow> stream_ok c (recv_only_stream i w)"
  by (simp add: stream_ok_def recv_only_stream_def recv_ok_new)

text \<open>The identifier of the next local stream is of the right kind.\<close>

lemma local_bidi_id:
  assumes "n < 2 ^ 62" and "i = stream_type_id (if c then ClientBidi else ServerBidi) n"
  shows "i = 4 * n + (if c then 0 else 1)" and "is_local c i" and "is_bidirectional i" and "i div 4 = n"
proof -
  show i: "i = 4 * n + (if c then 0 else 1)" using assms by (simp add: stream_type_id_exact)
  then show "i div 4 = n" by simp
  show "is_local c i" "is_bidirectional i"
    unfolding i is_local_def id_arith by (auto; presburger)+
qed

lemma local_uni_id:
  assumes "n < 2 ^ 62" and "i = stream_type_id (if c then ClientUni else ServerUni) n"
  shows "i = 4 * n + (if c then 2 else 3)" and "is_local c i" and "is_unidirectional i" and "i div 4 = n"
proof -
  show i: "i = 4 * n + (if c then 2 else 3)" using assms by (simp add: stream_type_id_exact)
  then show "i div 4 = n" by simp
  show "is_local c i" "is_unidirectional i"
    unfolding i is_local_def id_arith by (auto; presburger)+
qed

lemma open_bidi_cases:
  assumes inv: "sm_inv c m" and n: "next_bidi_local m < 2 ^ 62"
  shows "open_bidi m c = (m, Err StreamLimitExhausted) \<and> find_free_slot m = None \<or>
    (\<exists>m' i. open_bidi m c = (m', Ok i) \<and> i = 4 * next_bidi_local m + (if c then 0 else 1)
      \<and> get m i = None \<and> sm_inv c m' \<and> next_bidi_local m' = next_bidi_local m + 1
      \<and> get m' = (get m)(i \<mapsto> bidi_stream i DEFAULT_INITIAL_MAX_STREAM_DATA))"
proof (cases "find_free_slot m")
  case None
  then show ?thesis by (simp add: open_bidi_def Let_def)
next
  case (Some p)
  obtain slot m1 where p: "p = (slot, m1)" by force
  have free: "find_free_slot m = Some (slot, m1)" using Some p by simp
  define i where "i = stream_type_id (if c then ClientBidi else ServerBidi) (next_bidi_local m)"
  define s where "s = bidi_stream i DEFAULT_INITIAL_MAX_STREAM_DATA"
  define m' where "m' = m1\<lparr>sm_streams := (sm_streams m1)[slot := Some s],
      next_bidi_local := next_bidi_local m + 1\<rparr>"
  note id = local_bidi_id [OF n i_def] and keep = find_free_slot_keeps [OF free]
  have m': "open_bidi m c = (m', Ok i)"
    using free n keep by (simp add: open_bidi_def Let_def i_def s_def m'_def bidi_stream_def)
  have fresh: "get m i = None" using id by (intro get_fresh [OF inv]) (simp add: id_ok_def)
  have "sm_inv c m'"
    by (rule sm_inv_insert [OF inv free, where s = s])
       (use id keep fresh in \<open>simp_all add: s_def m'_def counters_le_def id_ok_def bidi_stream_ok
          DEFAULT_INITIAL_MAX_STREAM_DATA_def\<close>)
  moreover have "get m' = (get m)(i \<mapsto> s)"
    using get_new_stream [OF free, of s m'] fresh by (simp add: s_def m'_def)
  ultimately show ?thesis using m' id fresh by (auto simp: s_def m'_def)
qed

lemma open_uni_cases:
  assumes inv: "sm_inv c m" and n: "next_uni_local m < 2 ^ 62"
  shows "open_uni m c = (m, Err StreamLimitExhausted) \<and> find_free_slot m = None \<or>
    (\<exists>m' i. open_uni m c = (m', Ok i) \<and> i = 4 * next_uni_local m + (if c then 2 else 3)
      \<and> get m i = None \<and> sm_inv c m' \<and> next_uni_local m' = next_uni_local m + 1
      \<and> get m' = (get m)(i \<mapsto> send_only_stream i DEFAULT_INITIAL_MAX_STREAM_DATA))"
proof (cases "find_free_slot m")
  case None
  then show ?thesis by (simp add: open_uni_def Let_def)
next
  case (Some p)
  obtain slot m1 where p: "p = (slot, m1)" by force
  have free: "find_free_slot m = Some (slot, m1)" using Some p by simp
  define i where "i = stream_type_id (if c then ClientUni else ServerUni) (next_uni_local m)"
  define s where "s = send_only_stream i DEFAULT_INITIAL_MAX_STREAM_DATA"
  define m' where "m' = m1\<lparr>sm_streams := (sm_streams m1)[slot := Some s],
      next_uni_local := next_uni_local m + 1\<rparr>"
  note id = local_uni_id [OF n i_def] and keep = find_free_slot_keeps [OF free]
  have m': "open_uni m c = (m', Ok i)"
    using free n keep by (simp add: open_uni_def Let_def i_def s_def m'_def send_only_stream_def)
  have fresh: "get m i = None"
    using id by (intro get_fresh [OF inv]) (simp add: id_ok_def is_unidirectional_not)
  have "sm_inv c m'"
    by (rule sm_inv_insert [OF inv free, where s = s])
       (use id keep fresh in \<open>simp_all add: s_def m'_def counters_le_def id_ok_def
          send_only_stream_ok is_unidirectional_not\<close>)
  moreover have "get m' = (get m)(i \<mapsto> s)"
    using get_new_stream [OF free, of s m'] fresh by (simp add: s_def m'_def)
  ultimately show ?thesis using m' id fresh by (auto simp: s_def m'_def)
qed

definition peer_stream :: "nat \<Rightarrow> nat \<Rightarrow> stream_state" where
  "peer_stream i w = (if is_bidirectional i then bidi_stream i w else recv_only_stream i w)"

lemma peer_initiated_iff:
  "(if c then is_server_initiated i else is_client_initiated i) \<longleftrightarrow> \<not> is_local c i"
  unfolding is_local_def id_arith by auto

lemma get_or_create_cases:
  assumes inv: "sm_inv c m" and i: "i < 2 ^ 64" and w: "w < 2 ^ 62"
  shows "is_local c i \<and> get_or_create m i c w = (m, Err (Transport StreamStateError)) \<or>
    \<not> is_local c i \<and> (\<exists>s. get m i = Some s \<and> get_or_create m i c w = (m, Ok s)) \<or>
    \<not> is_local c i \<and> get m i = None \<and> find_free_slot m = None \<and>
      get_or_create m i c w = (m, Err StreamLimitExhausted) \<or>
    \<not> is_local c i \<and> get m i = None \<and> (\<exists>m'. get_or_create m i c w = (m', Ok (peer_stream i w))
      \<and> sm_inv c m' \<and> get m' = (get m)(i \<mapsto> peer_stream i w)
      \<and> next_bidi_local m' = next_bidi_local m \<and> next_uni_local m' = next_uni_local m)"
proof (cases "is_local c i \<or> get m i \<noteq> None \<or> find_free_slot m = None")
  case True
  then show ?thesis
    using get_None [of m i] peer_initiated_iff [of c i]
    by (auto simp: get_or_create_def Let_def get_def split: option.splits)
next
  case False
  then have peer: "\<not> is_local c i" and none: "get m i = None" by auto
  from False obtain slot m1 where free: "find_free_slot m = Some (slot, m1)" by auto
  note keep = find_free_slot_keeps [OF free]
  define s where "s = peer_stream i w"
  define m' where "m' = fst (get_or_create m i c w)"
  have seq: "u64_add (i div 4) (Suc 0) = Suc (i div 4)" using i by simp
  have step: "get_or_create m i c w = (m', Ok s)"
    and slots: "sm_streams m' = (sm_streams m1)[slot := Some s]"
    and same: "sm_capacity m' = sm_capacity m" "sm_alloc m' = sm_alloc m"
      "next_bidi_local m' = next_bidi_local m" "next_uni_local m' = next_uni_local m"
    and cnt: "counters_le m m'" "id_ok c m' i"
    using peer none free get_None [of m i] peer_initiated_iff [of c i] keep
    by (auto simp: get_or_create_def Let_def m'_def s_def peer_stream_def new_stream_defs seq
        counters_le_def id_ok_def)
  have "sm_inv c m'"
    by (rule sm_inv_insert [OF inv free, where s = s])
       (use peer none w slots same cnt in \<open>auto simp: s_def peer_stream_def bidi_stream_ok
          recv_only_stream_ok is_unidirectional_not\<close>)
  moreover have "get m' = (get m)(i \<mapsto> s)"
    using get_new_stream [OF free _ slots] none by (simp add: s_def peer_stream_def split: if_splits)
  ultimately show ?thesis using step peer none same by (auto simp: s_def)
qed

lemmas open_cases = open_bidi_cases open_uni_cases get_or_create_cases

text \<open>
  \<open>set_stream_windows\<close> overwrites the limits. The connection calls it right after it opened the
  stream, so nothing has been sent or received on it yet.
\<close>

definition fresh_stream :: "stream_state \<Rightarrow> bool" where
  "fresh_stream s \<longleftrightarrow> pred_option (\<lambda>x. snd_offset x = 0) (str_send s)
     \<and> pred_option (\<lambda>x. rcv_offset x = 0) (str_recv s)"

lemma set_send_window_ok:
  "stream_ok c s \<Longrightarrow> fresh_stream s \<Longrightarrow> stream_ok c (set_send_window sw s)"
  by (auto simp: stream_ok_def fresh_stream_def set_send_window_def send_ok_def
      split: option.splits)

lemma set_recv_window_ok:
  "stream_ok c s \<Longrightarrow> pred_option (\<lambda>x. rcv_offset x = 0) (str_recv s) \<Longrightarrow>
   pred_option (\<lambda>w. w < 2 ^ 62) rw \<Longrightarrow> stream_ok c (set_recv_window rw s)"
  by (auto simp: stream_ok_def set_recv_window_def recv_ok_def
      split: option.splits)

lemma set_window_keeps [simp]: "str_id (set_send_window sw s) = str_id s"
    "str_id (set_recv_window rw s) = str_id s" "str_recv (set_send_window sw s) = str_recv s"
    "str_send (set_recv_window rw s) = str_send s"
  by (simp_all add: set_send_window_def set_recv_window_def split: option.splits)

lemma sm_inv_set_stream_windows [inv_rules]:
  assumes "sm_inv c m" and "pred_option fresh_stream (get m i)" and "pred_option (\<lambda>w. w < 2 ^ 62) rw"
  shows "sm_inv c (set_stream_windows m i sw rw)"
proof (cases "get m i")
  case (Some s)
  then have "stream_ok c s" "str_id s = i" "fresh_stream s"
    using sm_inv_get [OF assms(1) Some] assms(2) by auto
  with assms Some show ?thesis
    by (simp add: set_stream_windows_def)
       (rule sm_inv_update [OF assms(1) Some],
        simp_all add: set_recv_window_ok set_send_window_ok fresh_stream_def)
qed (simp add: set_stream_windows_def assms(1))

lemma sm_inv_mark_max_stream_data_sent [inv_rules]:
  assumes "sm_inv c m"
  shows "sm_inv c (mark_max_stream_data_sent m i)"
proof -
  have "recv_ok r \<Longrightarrow> recv_ok (r\<lparr>rcv_max_data := rcv_max_data_next r\<rparr>)" for r
    by (auto simp: recv_ok_def)
  with assms show ?thesis
    by (auto simp: mark_max_stream_data_sent_def stream_ok_def split: option.splits
        intro!: sm_inv_update dest: sm_inv_get)
qed

text \<open>No stream of a table in the invariant is terminal, so \<open>gc\<close> finds nothing to free.\<close>

lemma sm_inv_not_terminal:
  "sm_inv c m \<Longrightarrow> Some s \<in> set (sm_streams m) \<Longrightarrow> \<not> stream_is_terminal s"
  by (cases "str_send s"; cases "str_recv s")
     (auto simp: sm_inv_def stream_ok_def stream_is_terminal_def send_ok_def recv_ok_def)

lemma gc_id:
  assumes "sm_inv c m"
  shows "gc m = m"
proof -
  have "map (\<lambda>slot. case slot of Some s \<Rightarrow> if stream_is_terminal s then None else slot | None \<Rightarrow> None)
      (sm_streams m) = sm_streams m"
    using sm_inv_not_terminal [OF assms]
    by (intro map_idI) (auto split: option.splits)
  then show ?thesis by (simp add: gc_def)
qed

section \<open>Reachable tables\<close>

text \<open>
  The steps a connection takes on its table: opening a stream with the negotiated windows,
  receiving and sending stream data, and the control frames. Frame fields are varints.
\<close>

inductive sm_step :: "bool \<Rightarrow> stream_map \<Rightarrow> stream_map \<Rightarrow> bool" for c where
  bidi: "next_bidi_local m < 2 ^ 60 \<Longrightarrow> open_bidi m c = (m', Ok i) \<Longrightarrow>
    pred_option (\<lambda>w. w < 2 ^ 62) rw \<Longrightarrow> sm_step c m (set_stream_windows m' i sw rw)"
| uni: "next_uni_local m < 2 ^ 60 \<Longrightarrow> open_uni m c = (m', Ok i) \<Longrightarrow>
    sm_step c m (set_stream_windows m' i sw None)"
| create: "i < 2 ^ 62 \<Longrightarrow> w < 2 ^ 62 \<Longrightarrow> sm_step c m (fst (get_or_create m i c w))"
| send: "sm_step c m (fst (mark_send m i len fin))"
| recv: "offset < 2 ^ 62 \<Longrightarrow> len < 2 ^ 62 \<Longrightarrow> sm_step c m (fst (mark_recv m i offset len fin))"
| reset_sent: "sm_step c m (fst (mark_reset_sent m i))"
| reset: "sm_step c m (fst (handle_reset m i n))"
| stop: "sm_step c m (fst (handle_stop_sending m i))"
| max_data: "sm_step c m (fst (handle_max_stream_data m i mx))"
| limit_sent: "sm_step c m (mark_max_stream_data_sent m i)"
| collect: "sm_step c m (gc m)"

inductive sm_reach :: "bool \<Rightarrow> stream_map \<Rightarrow> bool" for c where
  start: "sm_reach c (stream_map_new alloc N)"
| step: "sm_reach c m \<Longrightarrow> sm_step c m m' \<Longrightarrow> sm_reach c m'"

lemma fresh_new_stream [simp]: "fresh_stream (bidi_stream i w)" "fresh_stream (send_only_stream i w)"
  by (simp_all add: fresh_stream_def new_stream_defs send_new_def recv_new_def)

lemma sm_step_inv: "sm_step c m m' \<Longrightarrow> sm_inv c m \<Longrightarrow> sm_inv c m'"
proof (induction rule: sm_step.induct)
  case (bidi m m' i rw sw)
  then show ?case using open_bidi_cases [of c m]
    by (auto intro!: sm_inv_set_stream_windows)
next
  case (uni m m' i sw)
  then show ?case using open_uni_cases [of c m]
    by (auto intro!: sm_inv_set_stream_windows)
next
  case (create i w m)
  then show ?case using get_or_create_cases [of c m i w] by auto
qed (auto simp: mark_send_def mark_recv_def mark_reset_sent_def handle_reset_def
    handle_stop_sending_def handle_max_stream_data_def gc_id intro!: inv_rules)

lemma sm_reach_inv: "sm_reach c m \<Longrightarrow> sm_inv c m"
  by (induction rule: sm_reach.induct) (auto intro: sm_inv_new sm_step_inv)

section \<open>A full table stays full\<close>

definition table_full :: "stream_map \<Rightarrow> bool" where
  "table_full m \<longleftrightarrow> None \<notin> set (sm_streams m) \<and> (sm_alloc m \<longrightarrow> sm_capacity m \<le> length (sm_streams m))"

lemma table_full_iff: "find_free_slot m = None \<longleftrightarrow> table_full m"
  by (simp add: table_full_def find_free_slot_None)

lemma table_full_update: "table_full m \<Longrightarrow> table_full (update_stream m i s)"
  using set_update_subset_insert [of "sm_streams m" _ "Some s"]
  by (auto simp: table_full_def update_stream_def split: option.splits)

lemma table_full_with [intro]:
  assumes "table_full m"
  shows "table_full (fst (with_send m i f))" "table_full (fst (with_recv m i g))"
  using assms by (auto simp: with_send_def with_recv_def split: option.splits intro: table_full_update)

lemma table_full_create: "table_full m \<Longrightarrow> fst (get_or_create m i c w) = m"
  by (auto simp: get_or_create_def Let_def split: option.splits simp flip: table_full_iff)

lemma table_full_limit_sent: "table_full m \<Longrightarrow> table_full (mark_max_stream_data_sent m i)"
  by (auto simp: mark_max_stream_data_sent_def split: option.splits intro: table_full_update)

lemma table_full_open:
  assumes "table_full m"
  shows "open_bidi m c = (m, Err StreamLimitExhausted)" "open_uni m c = (m, Err StreamLimitExhausted)"
  using assms by (simp_all add: open_bidi_def open_uni_def Let_def flip: table_full_iff)

lemma table_full_step: "sm_step c m m' \<Longrightarrow> sm_inv c m \<Longrightarrow> table_full m \<Longrightarrow> table_full m'"
  by (induction rule: sm_step.induct)
     (auto simp: mark_send_def mark_recv_def mark_reset_sent_def handle_reset_def
       handle_stop_sending_def handle_max_stream_data_def gc_id table_full_create table_full_open
       table_full_limit_sent)

section \<open>Properties\<close>

text \<open>
  C6: Invariant of the stream table. In every table a connection can reach, ids are unique and of
  the kind their side has, at most \<open>N\<close> slots are used, every sender is inside the limit its peer
  granted, and every receive side satisfies
  \<open>offset \<le> max_data \<le> max_data_next \<le> offset + window\<close> with \<open>max_data_next\<close> at least half a window
  ahead of what was received.
\<close>

theorem stream_table_invariant:
  assumes "sm_reach c m"
  shows "sm_inv c m"
  using assms by (rule sm_reach_inv)

lemma reach_example:
  "sm_reach True (set_stream_windows (fst (open_bidi (stream_map_new False 1) True)) 0 (Some 10) (Some 20))"
proof (rule sm_reach.step [OF sm_reach.start [of True False 1]], rule sm_step.bidi)
  show "open_bidi (stream_map_new False 1) True
      = (fst (open_bidi (stream_map_new False 1) True), Ok 0)"
    by (simp add: open_bidi_def stream_map_new_def find_free_slot_def stream_type_id_def Let_def)
qed (simp_all add: stream_map_new_def)

theorem stream_table_invariant_witness:
  "sm_inv True (set_stream_windows (fst (open_bidi (stream_map_new False 1) True)) 0 (Some 10) (Some 20))"
  by (rule stream_table_invariant [OF reach_example])

text \<open>
  C7: Receiving stream data. A frame is accepted exactly when the stream is still receiving, the
  frame ends inside the advertised limit and it agrees with a known final size. Then the largest
  received offset becomes the maximum of the old one and the frame's end, the result is its
  increase (what connection flow control is charged), and only this stream changes. A rejected
  frame is an error that leaves the received offset of every stream as it was.
\<close>

theorem mark_recv_spec:
  assumes "sm_inv c m" and "get m i = Some s" and "str_recv s = Some r"
    and "offset < 2 ^ 62" and "len < 2 ^ 62"
  shows "if recv_accepts (offset + len) fin r
    then \<exists>m'. mark_recv m i offset len fin
             = (m', Ok (max (rcv_offset r) (offset + len) - rcv_offset r))
         \<and> get m' = (get m)(i \<mapsto> s\<lparr>str_recv := Some (recv_accept (offset + len) fin r)\<rparr>)
         \<and> rcv_offset (recv_accept (offset + len) fin r) = max (rcv_offset r) (offset + len)
    else \<exists>m' e r'. mark_recv m i offset len fin = (m', Err e) \<and> rcv_offset r' = rcv_offset r
         \<and> get m' = (get m)(i \<mapsto> s\<lparr>str_recv := Some r'\<rparr>)"
proof -
  have "str_id s = i" and ok: "recv_ok r"
    using sm_inv_get [OF assms(1,2)] assms(3) by (auto simp: stream_ok_def)
  then have upd: "get (update_stream m i (s\<lparr>str_recv := Some r'\<rparr>))
      = (get m)(i \<mapsto> s\<lparr>str_recv := Some r'\<rparr>)" for r'
    by (intro streams.lookup_replace [OF assms(2)]) simp
  show ?thesis
  proof (cases "recv_accepts (offset + len) fin r")
    case True
    have "rcv_offset (recv_accept (offset + len) fin r) = max (rcv_offset r) (offset + len)"
      by (simp add: recv_accept_def raise_limit_def Let_def split: option.split)
    with True recv_mark_accept [OF ok assms(4,5) True] upd assms(2,3) show ?thesis
      by (simp add: mark_recv_def with_recv_def)
  next
    case False
    from recv_mark_reject [OF assms(4,5) False] obtain r' e
      where r': "recv_mark offset len fin r = (r', Err e)" "rcv_offset r' = rcv_offset r" by auto
    with False upd [of r'] assms(2,3) show ?thesis
      by (simp add: mark_recv_def with_recv_def) blast
  qed
qed

definition example_map :: stream_map where
  "example_map = fst (get_or_create (stream_map_new False 1) 0 False 20)"

lemma example_map_eq: "sm_streams example_map = [Some (bidi_stream 0 20)]"
  by (simp add: example_map_def get_or_create_def stream_map_new_def find_free_slot_def
      find_stream_def is_stream_def is_client_initiated_def is_bidirectional_def bidi_stream_def Let_def)

lemma example_map_alloc: "sm_alloc example_map = False"
  by (simp add: example_map_def get_or_create_def stream_map_new_def find_free_slot_def
      find_stream_def is_stream_def is_client_initiated_def is_bidirectional_def Let_def)

lemma example_map_get: "get example_map 0 = Some (bidi_stream 0 20)"
  by (simp add: get_def find_stream_def example_map_eq is_stream_def)

lemma example_map_reach: "sm_reach False example_map"
  unfolding example_map_def by (rule sm_reach.step [OF sm_reach.start sm_step.create]) simp_all

theorem mark_recv_spec_witness:
  "\<exists>m'. mark_recv example_map 0 0 15 False = (m', Ok 15)
     \<and> rcv_max_data_next (the (str_recv (the (get m' 0)))) = 35"
proof -
  have "if recv_accepts (0 + 15) False (recv_new 20)
    then \<exists>m'. mark_recv example_map 0 0 15 False
             = (m', Ok (max (rcv_offset (recv_new 20)) (0 + 15) - rcv_offset (recv_new 20)))
         \<and> get m' = (get example_map)(0 \<mapsto>
             (bidi_stream 0 20)\<lparr>str_recv := Some (recv_accept (0 + 15) False (recv_new 20))\<rparr>)
         \<and> rcv_offset (recv_accept (0 + 15) False (recv_new 20)) = max (rcv_offset (recv_new 20)) (0 + 15)
    else \<exists>m' e r'. mark_recv example_map 0 0 15 False = (m', Err e)
         \<and> rcv_offset r' = rcv_offset (recv_new 20)
         \<and> get m' = (get example_map)(0 \<mapsto> (bidi_stream 0 20)\<lparr>str_recv := Some r'\<rparr>)"
    by (rule mark_recv_spec [OF sm_reach_inv [OF example_map_reach] example_map_get])
       (simp_all add: bidi_stream_def)
  then show ?thesis
    by (auto simp: recv_accepts_def recv_new_def recv_accept_def raise_limit_def Let_def)
qed

text \<open>
  Opening streams. The three ways to get a new stream either report that the table is full and
  leave it as it is, or hand out an id that no stream has, of the local or peer kind asked for, and
  extend the table by exactly that stream; the invariant holds again.
\<close>

theorem open_streams_refine:
  assumes "sm_inv c m" and "next_bidi_local m < 2 ^ 60" and "next_uni_local m < 2 ^ 60"
    and "i < 2 ^ 62" and "\<not> is_local c i" and "get m i = None" and "w < 2 ^ 62"
  shows "if table_full m
    then open_bidi m c = (m, Err StreamLimitExhausted) \<and> open_uni m c = (m, Err StreamLimitExhausted)
       \<and> get_or_create m i c w = (m, Err StreamLimitExhausted)
    else (\<exists>m' j. open_bidi m c = (m', Ok j) \<and> is_local c j \<and> is_bidirectional j \<and> get m j = None
           \<and> get m' = (get m)(j \<mapsto> bidi_stream j DEFAULT_INITIAL_MAX_STREAM_DATA) \<and> sm_inv c m')
       \<and> (\<exists>m' j. open_uni m c = (m', Ok j) \<and> is_local c j \<and> is_unidirectional j \<and> get m j = None
           \<and> get m' = (get m)(j \<mapsto> send_only_stream j DEFAULT_INITIAL_MAX_STREAM_DATA) \<and> sm_inv c m')
       \<and> (\<exists>m'. get_or_create m i c w = (m', Ok (peer_stream i w))
           \<and> get m' = (get m)(i \<mapsto> peer_stream i w) \<and> sm_inv c m')"
proof -
  have n: "next_bidi_local m < 2 ^ 62" "next_uni_local m < 2 ^ 62" and i: "i < 2 ^ 64"
    using assms(2-4) by auto
  note bidi = open_bidi_cases [OF assms(1) n(1)] local_bidi_id(2,3) [OF n(1) refl, of c]
    local_bidi_id(1) [OF n(1) refl, of c]
  note uni = open_uni_cases [OF assms(1) n(2)] local_uni_id(2,3) [OF n(2) refl, of c]
    local_uni_id(1) [OF n(2) refl, of c]
  note peer = get_or_create_cases [OF assms(1) i assms(7)]
  show ?thesis
  proof (cases "table_full m")
    case True
    with assms(5,6) get_None [of m i] peer_initiated_iff [of c i] show ?thesis
      by (simp add: get_or_create_def Let_def table_full_open flip: table_full_iff)
  next
    case False
    then have ne: "find_free_slot m \<noteq> None" by (simp add: table_full_iff)
    from bidi ne have b: "\<exists>m' j. open_bidi m c = (m', Ok j) \<and> is_local c j \<and> is_bidirectional j \<and> get m j = None
           \<and> get m' = (get m)(j \<mapsto> bidi_stream j DEFAULT_INITIAL_MAX_STREAM_DATA) \<and> sm_inv c m'"
      by auto
    from uni ne have u: "\<exists>m' j. open_uni m c = (m', Ok j) \<and> is_local c j \<and> is_unidirectional j \<and> get m j = None
           \<and> get m' = (get m)(j \<mapsto> send_only_stream j DEFAULT_INITIAL_MAX_STREAM_DATA) \<and> sm_inv c m'"
      by auto
    from peer ne assms(5,6) have "\<exists>m'. get_or_create m i c w = (m', Ok (peer_stream i w))
           \<and> get m' = (get m)(i \<mapsto> peer_stream i w) \<and> sm_inv c m'"
      by auto
    with False b u show ?thesis by simp
  qed
qed

theorem open_streams_refine_witness:
  "\<exists>m'. get_or_create (stream_map_new True 3) 7 True 20 = (m', Ok (recv_only_stream 7 20))"
proof -
  have "\<not> table_full (stream_map_new True 3)" by (simp add: table_full_def stream_map_new_def)
  moreover have "get (stream_map_new True 3) 7 = None" by (simp add: get_None_iff stream_map_new_def)
  moreover have "\<not> is_local True 7" and "peer_stream 7 20 = recv_only_stream 7 20"
    by (simp_all add: is_local_def is_client_initiated_mod peer_stream_def is_bidirectional_mod)
  ultimately show ?thesis
    using open_streams_refine [OF sm_inv_new [of True True 3], of 7 20]
    by (auto simp: stream_map_new_def)
qed

text \<open>
  Sending on a stream. On a stream that may send, \<open>mark_send\<close> takes the bytes exactly when they
  fit under the limit the peer granted; the offset then grows by exactly their number and a FIN
  closes the sending side. Otherwise nothing is taken and the stream is marked as blocked. No
  other stream changes.
\<close>

theorem mark_send_spec:
  assumes "sm_inv c m" and "get m i = Some s" and "str_send s = Some x"
    and "snd_state x = Ready \<or> snd_state x = Send" and "snd_offset x + len < 2 ^ 64"
  shows "if snd_offset x + len \<le> snd_max_data x
    then \<exists>m'. mark_send m i len fin = (m', Ok ())
       \<and> get m' = (get m)(i \<mapsto> s\<lparr>str_send := Some (x\<lparr>snd_offset := snd_offset x + len,
            snd_state := (if fin then DataSent else Send), snd_fin_sent := (snd_fin_sent x \<or> fin)\<rparr>)\<rparr>)
    else \<exists>m'. mark_send m i len fin = (m', Err (Transport transport_error.FlowControlError))
       \<and> get m' = (get m)(i \<mapsto> s\<lparr>str_send := Some (x\<lparr>snd_blocked := True\<rparr>)\<rparr>)"
proof -
  have "str_id s = i" using sm_inv_get [OF assms(1,2)] by auto
  then have upd: "get (update_stream m i (s\<lparr>str_send := Some x'\<rparr>))
      = (get m)(i \<mapsto> s\<lparr>str_send := Some x'\<rparr>)" for x'
    by (intro streams.lookup_replace [OF assms(2)]) simp
  show ?thesis
    using assms(2-5) upd
    by (cases x; cases "snd_state x = Ready"; cases fin)
       (auto simp: mark_send_def with_send_def send_mark_def Let_def)
qed

theorem mark_send_spec_witness:
  "\<exists>m'. mark_send example_map 0 21 True = (m', Err (Transport transport_error.FlowControlError))"
proof -
  have "str_send (bidi_stream 0 20) = Some (send_new 20)" by (simp add: bidi_stream_def)
  from mark_send_spec [OF sm_reach_inv [OF example_map_reach] example_map_get this, of 21 True]
  show ?thesis by (auto simp: send_new_def)
qed

text \<open>
  C8: Slots are never reclaimed. No operation of the table moves a stream into a terminal state, so
  \<open>gc\<close> frees nothing, and once all slots are taken no further stream can ever be opened.
\<close>

theorem full_table_stays_full:
  assumes "sm_reach c m" and "table_full m" and "(sm_step c)\<^sup>*\<^sup>* m m'"
  shows "gc m' = m' \<and> open_bidi m' c = (m', Err StreamLimitExhausted)
    \<and> open_uni m' c = (m', Err StreamLimitExhausted)"
proof -
  have "sm_inv c m' \<and> table_full m'"
    using assms(3)
  proof (induction rule: rtranclp_induct)
    case base
    show ?case using sm_reach_inv [OF assms(1)] assms(2) by simp
  qed (auto intro: sm_step_inv table_full_step)
  then show ?thesis using gc_id by (auto simp: table_full_open)
qed

theorem full_table_stays_full_witness:
  "open_bidi (gc (fst (handle_stop_sending example_map 0))) False
     = (gc (fst (handle_stop_sending example_map 0)), Err StreamLimitExhausted)"
proof -
  have "table_full example_map" by (simp add: table_full_def example_map_eq example_map_alloc)
  moreover have "(sm_step False)\<^sup>*\<^sup>* example_map (gc (fst (handle_stop_sending example_map 0)))"
    by (meson rtranclp.rtrancl_into_rtrancl rtranclp.rtrancl_refl sm_step.stop sm_step.collect)
  ultimately show ?thesis using full_table_stays_full [OF example_map_reach] by blast
qed

text \<open>
  Final size. RFC 9000, section 4.5, requires an endpoint to reject a final size below data
  it has already received. Neither \<open>mark_recv\<close> nor \<open>handle_reset\<close> compares the two: on a reachable
  table a stream that received 15 bytes accepts a FIN at offset 5, and a reset with final size 0.
\<close>

theorem final_size_below_received:
  "\<exists>m c m1 m2. sm_reach c m \<and> rcv_offset (the (str_recv (the (get m 0)))) = 15
     \<and> mark_recv m 0 5 0 True = (m1, Ok 0) \<and> rcv_fin_offset (the (str_recv (the (get m1 0)))) = Some 5
     \<and> handle_reset m 0 0 = (m2, Ok ()) \<and> rcv_fin_offset (the (str_recv (the (get m2 0)))) = Some 0"
proof -
  define m where "m = fst (mark_recv example_map 0 0 15 False)"
  have "sm_reach False m"
    unfolding m_def by (rule sm_reach.step [OF example_map_reach sm_step.recv]) simp_all
  moreover have m: "sm_streams m = [Some ((bidi_stream 0 20)\<lparr>str_recv := Some
      (recv_new 20\<lparr>rcv_offset := 15, rcv_max_data_next := 35\<rparr>)\<rparr>)]"
    by (simp add: m_def mark_recv_def with_recv_def example_map_get update_stream_def find_stream_def
        example_map_eq is_stream_def recv_mark_def Let_def bidi_stream_def recv_new_def)
  moreover have "rcv_offset (the (str_recv (the (get m 0)))) = 15"
    by (simp add: m get_def find_stream_def is_stream_def bidi_stream_def)
  moreover have "snd (mark_recv m 0 5 0 True) = Ok 0"
    by (simp add: m mark_recv_def with_recv_def get_def find_stream_def is_stream_def
        bidi_stream_def recv_new_def recv_mark_def Let_def)
  moreover have "rcv_fin_offset (the (str_recv (the (get (fst (mark_recv m 0 5 0 True)) 0)))) = Some 5"
    by (simp add: m mark_recv_def with_recv_def get_def find_stream_def is_stream_def
        update_stream_def bidi_stream_def recv_new_def recv_mark_def Let_def)
  moreover have "snd (handle_reset m 0 0) = Ok ()"
    by (simp add: m handle_reset_def with_recv_def get_def find_stream_def is_stream_def
        bidi_stream_def recv_new_def recv_reset_def)
  moreover have "rcv_fin_offset (the (str_recv (the (get (fst (handle_reset m 0 0)) 0)))) = Some 0"
    by (simp add: m handle_reset_def with_recv_def get_def find_stream_def is_stream_def
        update_stream_def bidi_stream_def recv_new_def recv_reset_def)
  ultimately show ?thesis by (metis prod.collapse)
qed

end
