(* ===== verification/Flow_Control.thy ===== *)
theory Flow_Control
  imports Milli_Prelude
begin

text \<open>
  Connection-level flow control of a QUIC connection (\<^verbatim>\<open>src/transport/flow_control.rs\<close>): the bytes
  we may send under the peer's MAX_DATA, the bytes the peer may send under ours, and the stream
  count limits. Both byte windows are instances of \<open>credit_window\<close>.
\<close>

section \<open>The code\<close>

record flow_controller =
  send_max_data :: nat
  send_data_offset :: nat
  send_blocked :: bool
  recv_max_data :: nat
  recv_max_data_next :: nat
  recv_data_offset :: nat
  recv_initial_window :: nat
  max_streams_bidi_local :: nat
  max_streams_uni_local :: nat
  max_streams_bidi_remote :: nat
  max_streams_uni_remote :: nat
  next_max_streams_bidi_remote :: nat
  next_max_streams_uni_remote :: nat
  closed_bidi_remote :: nat
  closed_uni_remote :: nat

definition flow_new :: "nat \<Rightarrow> nat \<Rightarrow> nat \<Rightarrow> flow_controller" where
  "flow_new initial_max_data initial_max_streams_bidi initial_max_streams_uni =
    \<lparr>send_max_data = 0, send_data_offset = 0, send_blocked = False,
     recv_max_data = initial_max_data, recv_max_data_next = initial_max_data,
     recv_data_offset = 0, recv_initial_window = initial_max_data,
     max_streams_bidi_local = 0, max_streams_uni_local = 0,
     max_streams_bidi_remote = initial_max_streams_bidi,
     max_streams_uni_remote = initial_max_streams_uni,
     next_max_streams_bidi_remote = initial_max_streams_bidi,
     next_max_streams_uni_remote = initial_max_streams_uni,
     closed_bidi_remote = 0, closed_uni_remote = 0\<rparr>"

definition send_capacity :: "flow_controller \<Rightarrow> nat" where
  "send_capacity fc = send_max_data fc - send_data_offset fc"

definition on_send :: "flow_controller \<Rightarrow> nat \<Rightarrow> flow_controller \<times> unit res" where
  "on_send fc bytes =
    (let new_offset = u64_add (send_data_offset fc) bytes
     in if new_offset > send_max_data fc
        then (fc\<lparr>send_blocked := True\<rparr>, Err (Transport transport_error.FlowControlError))
        else let fc = fc\<lparr>send_data_offset := new_offset\<rparr>;
                 fc = (if send_data_offset fc = send_max_data fc then fc\<lparr>send_blocked := True\<rparr>
                       else fc)
             in (fc, Ok ()))"

definition handle_max_data :: "flow_controller \<Rightarrow> nat \<Rightarrow> flow_controller" where
  "handle_max_data fc max_data =
    (if max_data > send_max_data fc
     then fc\<lparr>send_max_data := max_data, send_blocked := False\<rparr> else fc)"

definition is_send_blocked :: "flow_controller \<Rightarrow> bool" where
  "is_send_blocked fc = send_blocked fc"

definition on_recv :: "flow_controller \<Rightarrow> nat \<Rightarrow> flow_controller \<times> unit res" where
  "on_recv fc bytes =
    (let new_offset = u64_add (recv_data_offset fc) bytes
     in if new_offset > recv_max_data fc
        then (fc, Err (Transport transport_error.FlowControlError))
        else (fc\<lparr>recv_data_offset := new_offset\<rparr>, Ok ()))"

definition should_send_max_data :: "flow_controller \<Rightarrow> nat option" where
  "should_send_max_data fc =
    (let remaining = recv_max_data fc - recv_data_offset fc
     in if remaining < recv_initial_window fc div 2
        then let next_max = u64_add (recv_data_offset fc) (recv_initial_window fc)
             in if next_max > recv_max_data fc then Some next_max else None
        else None)"

definition max_data_sent :: "flow_controller \<Rightarrow> flow_controller" where
  "max_data_sent fc =
    (case should_send_max_data fc of None \<Rightarrow> fc
     | Some next_max \<Rightarrow> fc\<lparr>recv_max_data := next_max, recv_max_data_next := next_max\<rparr>)"

definition can_open_bidi :: "flow_controller \<Rightarrow> nat \<Rightarrow> bool" where
  "can_open_bidi fc current_count \<longleftrightarrow> current_count < max_streams_bidi_local fc"

definition can_open_uni :: "flow_controller \<Rightarrow> nat \<Rightarrow> bool" where
  "can_open_uni fc current_count \<longleftrightarrow> current_count < max_streams_uni_local fc"

definition handle_max_streams :: "flow_controller \<Rightarrow> bool \<Rightarrow> nat \<Rightarrow> flow_controller" where
  "handle_max_streams fc bidirectional max_streams =
    (if bidirectional then
       if max_streams > max_streams_bidi_local fc
       then fc\<lparr>max_streams_bidi_local := max_streams\<rparr> else fc
     else if max_streams > max_streams_uni_local fc
     then fc\<lparr>max_streams_uni_local := max_streams\<rparr> else fc)"

text \<open>
  The locals \<^verbatim>\<open>consumed\<close> and \<^verbatim>\<open>remaining\<close> of the bidirectional case are computed and discarded by
  the code; they have no effect and are left out.
\<close>

definition should_send_max_streams :: "flow_controller \<Rightarrow> (bool \<times> nat) option" where
  "should_send_max_streams fc =
    (let bidi_limit = u64_add (max_streams_bidi_remote fc) (closed_bidi_remote fc);
         uni_limit = u64_add (max_streams_uni_remote fc) (closed_uni_remote fc)
     in if closed_bidi_remote fc > 0 \<and> bidi_limit > next_max_streams_bidi_remote fc
        then Some (True, bidi_limit)
        else if closed_uni_remote fc > 0 \<and> uni_limit > next_max_streams_uni_remote fc
        then Some (False, uni_limit)
        else None)"

definition max_streams_sent :: "flow_controller \<Rightarrow> bool \<Rightarrow> flow_controller" where
  "max_streams_sent fc bidirectional =
    (if bidirectional then
       let new_limit = u64_add (max_streams_bidi_remote fc) (closed_bidi_remote fc)
       in fc\<lparr>next_max_streams_bidi_remote := new_limit, max_streams_bidi_remote := new_limit,
             closed_bidi_remote := 0\<rparr>
     else
       let new_limit = u64_add (max_streams_uni_remote fc) (closed_uni_remote fc)
       in fc\<lparr>next_max_streams_uni_remote := new_limit, max_streams_uni_remote := new_limit,
             closed_uni_remote := 0\<rparr>)"

definition on_remote_stream_closed :: "flow_controller \<Rightarrow> bool \<Rightarrow> flow_controller" where
  "on_remote_stream_closed fc bidirectional =
    (if bidirectional then fc\<lparr>closed_bidi_remote := u64_add (closed_bidi_remote fc) 1\<rparr>
     else fc\<lparr>closed_uni_remote := u64_add (closed_uni_remote fc) 1\<rparr>)"

section \<open>Both directions are credit windows\<close>

definition send_avail :: "flow_controller \<Rightarrow> int" where
  "send_avail fc = int (send_max_data fc) - int (send_data_offset fc)"

definition recv_avail :: "flow_controller \<Rightarrow> int" where
  "recv_avail fc = int (recv_max_data fc) - int (recv_data_offset fc)"

interpretation conn_send: credit_window send_avail on_send handle_max_data
  "\<lambda>fc n. send_data_offset fc + n < 2 ^ 64"
  by unfold_locales (auto simp: send_avail_def on_send_def handle_max_data_def Let_def)

interpretation conn_recv: credit_window recv_avail on_recv "\<lambda>fc _. max_data_sent fc"
  "\<lambda>fc n. recv_data_offset fc + n < 2 ^ 64"
  by unfold_locales
     (auto simp: recv_avail_def on_recv_def max_data_sent_def should_send_max_data_def Let_def
       split: option.splits if_splits)

lemma send_limit_simps [simp]:
  "send_max_data (fst (on_send fc n)) = send_max_data fc"
  "send_max_data (handle_max_data fc n) = max (send_max_data fc) n"
  "send_data_offset (handle_max_data fc n) = send_data_offset fc"
  "send_avail (handle_max_data fc n)
     = send_avail fc + (int (max (send_max_data fc) n) - int (send_max_data fc))"
  by (auto simp: on_send_def handle_max_data_def send_avail_def Let_def)

text \<open>On the sending side the credit granted is the rise of the limit.\<close>

lemma conn_send_granted:
  "credit_granted send_avail on_send handle_max_data fc es
     = int (send_max_data (credit_run on_send handle_max_data fc es)) - int (send_max_data fc)"
proof (induction es arbitrary: fc)
  case (Cons e es)
  show ?case
    by (cases e) (auto simp: Cons.IH)
qed simp

text \<open>The largest limit a sequence of events announces.\<close>

fun max_granted :: "credit_event list \<Rightarrow> nat" where
  "max_granted [] = 0"
| "max_granted (Spend _ # es) = max_granted es"
| "max_granted (Grant n # es) = max n (max_granted es)"

lemma conn_send_limit:
  "send_max_data (credit_run on_send handle_max_data fc es) = max (send_max_data fc) (max_granted es)"
proof (induction es arbitrary: fc)
  case (Cons e es)
  show ?case
    by (cases e) (auto simp: Cons.IH)
qed simp

section \<open>Invariant\<close>

definition flow_inv :: "flow_controller \<Rightarrow> bool" where
  "flow_inv fc \<longleftrightarrow> send_data_offset fc \<le> send_max_data fc
     \<and> recv_data_offset fc \<le> recv_max_data fc
     \<and> recv_max_data fc \<le> recv_data_offset fc + recv_initial_window fc
     \<and> recv_max_data_next fc = recv_max_data fc
     \<and> recv_initial_window fc < 2 ^ 62"

lemma flow_inv_new [inv_rules]: "w < 2 ^ 62 \<Longrightarrow> flow_inv (flow_new w b u)"
  by (simp add: flow_inv_def flow_new_def)

lemma flow_inv_on_send [inv_rules]: "flow_inv fc \<Longrightarrow> flow_inv (fst (on_send fc n))"
  by (auto simp: flow_inv_def on_send_def Let_def)

lemma flow_inv_handle_max_data [inv_rules]: "flow_inv fc \<Longrightarrow> flow_inv (handle_max_data fc n)"
  by (auto simp: flow_inv_def handle_max_data_def)

lemma flow_inv_on_recv [inv_rules]:
  "flow_inv fc \<Longrightarrow> recv_data_offset fc + n < 2 ^ 64 \<Longrightarrow> flow_inv (fst (on_recv fc n))"
  by (auto simp: flow_inv_def on_recv_def Let_def)

lemma flow_inv_max_data_sent [inv_rules]:
  "flow_inv fc \<Longrightarrow> recv_data_offset fc < 2 ^ 63 \<Longrightarrow> flow_inv (max_data_sent fc)"
  by (auto simp: flow_inv_def max_data_sent_def should_send_max_data_def Let_def split: option.splits if_splits)

lemma flow_inv_streams [inv_rules]:
  "flow_inv fc \<Longrightarrow> flow_inv (handle_max_streams fc b n)"
  "flow_inv fc \<Longrightarrow> flow_inv (max_streams_sent fc b)"
  "flow_inv fc \<Longrightarrow> flow_inv (on_remote_stream_closed fc b)"
  by (auto simp: flow_inv_def handle_max_streams_def max_streams_sent_def on_remote_stream_closed_def
      Let_def)

section \<open>Properties\<close>

text \<open>
  C9: Sending never exceeds MAX_DATA. Over any interleaving of sends and MAX_DATA frames on a new
  controller, the bytes \<open>on_send\<close> accepted are at most the largest limit the peer announced;
  reordered or repeated MAX_DATA frames make no difference.
\<close>

theorem sent_within_max_data:
  assumes "credit_ok on_send handle_max_data (\<lambda>fc n. send_data_offset fc + n < 2 ^ 64) (flow_new w b u) es"
  shows "credit_accepted on_send handle_max_data (flow_new w b u) es \<le> max_granted es"
proof -
  have "0 \<le> send_avail (flow_new w b u)" by (simp add: send_avail_def flow_new_def)
  from conn_send.never_overspent [OF assms this] show ?thesis
    by (simp add: conn_send_granted conn_send_limit) (simp add: send_avail_def flow_new_def)
qed

theorem sent_within_max_data_witness:
  "credit_accepted on_send handle_max_data (flow_new 5 0 0)
     [Grant 10, Spend 7, Spend 4, Grant 8, Spend 3] = 10 \<and>
   credit_accepted on_send handle_max_data (flow_new 5 0 0)
     [Grant 10, Spend 7, Spend 4, Grant 8, Spend 3] \<le> 10"
  using sent_within_max_data [of 5 0 0 "[Grant 10, Spend 7, Spend 4, Grant 8, Spend 3]"]
  by (simp add: on_send_def handle_max_data_def flow_new_def Let_def)

text \<open>
  The receive window. A controller in its invariant accepts bytes exactly up to the limit it
  advertised and counts them exactly; when less than half the initial window is left a new limit
  is announced, \<open>max_data_sent\<close> commits exactly the announced value, the limit never goes down, and
  afterwards the peer may send at least half and at most one initial window.
\<close>

theorem recv_window_replenished:
  assumes "flow_inv fc" and "recv_data_offset fc < 2 ^ 63" and "n < 2 ^ 63"
  shows "(snd (on_recv fc n) = Ok () \<longleftrightarrow> recv_data_offset fc + n \<le> recv_max_data fc)
    \<and> recv_data_offset (fst (on_recv fc n)) =
        (if snd (on_recv fc n) = Ok () then recv_data_offset fc + n else recv_data_offset fc)
    \<and> recv_max_data (max_data_sent fc) =
        (case should_send_max_data fc of Some l \<Rightarrow> l | None \<Rightarrow> recv_max_data fc)
    \<and> recv_max_data fc \<le> recv_max_data (max_data_sent fc)
    \<and> recv_initial_window fc div 2
        \<le> recv_max_data (max_data_sent fc) - recv_data_offset (max_data_sent fc)
    \<and> recv_max_data (max_data_sent fc) - recv_data_offset (max_data_sent fc)
        \<le> recv_initial_window fc"
  using assms
  by (auto simp: flow_inv_def on_recv_def max_data_sent_def should_send_max_data_def Let_def
      split: option.splits if_splits)

theorem recv_window_replenished_witness:
  "recv_max_data (max_data_sent (fst (on_recv (flow_new 100 0 0) 60))) = 160 \<and>
   50 \<le> recv_max_data (max_data_sent (fst (on_recv (flow_new 100 0 0) 60)))
      - recv_data_offset (max_data_sent (fst (on_recv (flow_new 100 0 0) 60)))"
proof -
  have eq: "fst (on_recv (flow_new 100 0 0) 60) = (flow_new 100 0 0)\<lparr>recv_data_offset := 60\<rparr>"
    by (simp add: on_recv_def flow_new_def)
  have "flow_inv ((flow_new 100 0 0)\<lparr>recv_data_offset := 60\<rparr>)" by (simp add: flow_inv_def flow_new_def)
  from recv_window_replenished [OF this, of 0] show ?thesis
    unfolding eq by (simp add: flow_new_def should_send_max_data_def max_data_sent_def)
qed

end
