(* ===== verification/Recovery.thy ===== *)
theory Recovery
  imports Milli_Prelude "HOL-Library.Multiset"
begin

text \<open>
  The tracker of sent but unacknowledged packets (\<^verbatim>\<open>src/transport/recovery.rs\<close>). The entries are a
  dense list from which \<^verbatim>\<open>swap_remove\<close> takes packets out of order; the results read the list as
  a multiset, and the acknowledged packet numbers as the set the ACK frame denotes in RFC 9000.
\<close>

section \<open>The code\<close>

datatype level = Initial | Handshake | Application

record sent_packet =
  sp_pn :: nat
  sp_level :: level
  sp_time_sent :: nat
  sp_size :: nat
  sp_ack_eliciting :: bool
  sp_in_flight :: bool

record ack_result =
  newly_acked :: "sent_packet list"
  largest_newly_acked :: "sent_packet option"

record tracker =
  trk_capacity :: nat
  trk_entries :: "sent_packet list"

definition tracker_new :: "nat \<Rightarrow> tracker" where
  "tracker_new N = \<lparr>trk_capacity = N, trk_entries = []\<rparr>"

text \<open>\<^verbatim>\<open>heapless::Vec::push\<close> with its result ignored, and \<^verbatim>\<open>swap_remove\<close>.\<close>

definition push_cap :: "nat \<Rightarrow> 'a list \<Rightarrow> 'a \<Rightarrow> 'a list" where
  "push_cap cap xs x = (if length xs < cap then xs @ [x] else xs)"

definition swap_remove :: "'a list \<Rightarrow> nat \<Rightarrow> 'a list" where
  "swap_remove xs i = butlast (xs[i := last xs])"

definition on_packet_sent :: "tracker \<Rightarrow> sent_packet \<Rightarrow> tracker \<times> unit res" where
  "on_packet_sent t pkt =
    (if length (trk_entries t) \<ge> trk_capacity t then (t, Err (BufferTooSmall (trk_capacity t + 1)))
     else (t\<lparr>trk_entries := trk_entries t @ [pkt]\<rparr>, Ok ()))"

fun acked_ranges_from ::
  "nat \<Rightarrow> (nat \<times> nat) list \<Rightarrow> (nat \<times> nat) list \<Rightarrow> (nat \<times> nat) list" where
  "acked_ranges_from smallest [] acked = acked"
| "acked_ranges_from smallest ((gap, ack_range) # ranges) acked =
    (if smallest < u64_add gap 2 then acked
     else let range_largest = smallest - gap - 2;
              range_smallest = range_largest - ack_range
          in acked_ranges_from range_smallest ranges (push_cap 32 acked (range_smallest, range_largest)))"

definition acked_ranges :: "nat \<Rightarrow> nat \<Rightarrow> (nat \<times> nat) list \<Rightarrow> (nat \<times> nat) list" where
  "acked_ranges largest_ack first_ack_range ranges =
    (let first_lo = largest_ack - first_ack_range
     in acked_ranges_from first_lo ranges (push_cap 32 [] (first_lo, largest_ack)))"

definition is_acked :: "level \<Rightarrow> (nat \<times> nat) list \<Rightarrow> sent_packet \<Rightarrow> bool" where
  "is_acked lvl ranges pkt \<longleftrightarrow>
    sp_level pkt = lvl \<and> list_ex (\<lambda>(lo, hi). sp_pn pkt \<ge> lo \<and> sp_pn pkt \<le> hi) ranges"

definition note_acked :: "ack_result \<Rightarrow> sent_packet \<Rightarrow> ack_result" where
  "note_acked result pkt =
    (let result = result\<lparr>newly_acked := push_cap 32 (newly_acked result) pkt\<rparr>
     in case largest_newly_acked result of
          None \<Rightarrow> result\<lparr>largest_newly_acked := Some pkt\<rparr>
        | Some prev \<Rightarrow>
            if sp_pn pkt > sp_pn prev then result\<lparr>largest_newly_acked := Some pkt\<rparr> else result)"

text \<open>
  The loop of \<^verbatim>\<open>on_ack_received\<close> and of \<^verbatim>\<open>drop_space\<close>: scan the entries, take those that satisfy
  \<open>p\<close> out with \<^verbatim>\<open>swap_remove\<close> and look at the swapped-in entry again.
\<close>

function take_loop ::
  "(sent_packet \<Rightarrow> bool) \<Rightarrow> ('r \<Rightarrow> sent_packet \<Rightarrow> 'r) \<Rightarrow> nat \<Rightarrow> sent_packet list \<Rightarrow> 'r \<Rightarrow>
   sent_packet list \<times> 'r" where
  "take_loop p f i entries result =
    (if i < length entries then
       if p (entries ! i) then take_loop p f i (swap_remove entries i) (f result (entries ! i))
       else take_loop p f (i + 1) entries result
     else (entries, result))"
  by pat_completeness auto
termination
  by (relation "measure (\<lambda>(p, f, i, entries, result). length entries - i)")
     (auto simp: swap_remove_def)

declare take_loop.simps [simp del]

definition on_ack_received ::
  "tracker \<Rightarrow> level \<Rightarrow> nat \<Rightarrow> nat \<Rightarrow> (nat \<times> nat) list \<Rightarrow> tracker \<times> ack_result" where
  "on_ack_received t lvl largest_ack first_ack_range ranges =
    (let acked = acked_ranges largest_ack first_ack_range ranges;
         (entries, result) = take_loop (is_acked lvl acked) note_acked 0 (trk_entries t)
            \<lparr>newly_acked = [], largest_newly_acked = None\<rparr>
     in (t\<lparr>trk_entries := entries\<rparr>, result))"

definition sent_before :: "tracker \<Rightarrow> level \<Rightarrow> nat \<Rightarrow> sent_packet list" where
  "sent_before t lvl before = filter (\<lambda>p. sp_level p = lvl \<and> sp_time_sent p < before) (trk_entries t)"

definition sent_below_pn :: "tracker \<Rightarrow> level \<Rightarrow> nat \<Rightarrow> sent_packet list" where
  "sent_below_pn t lvl pn_threshold =
    filter (\<lambda>p. sp_level p = lvl \<and> sp_pn p < pn_threshold) (trk_entries t)"

definition remove :: "tracker \<Rightarrow> level \<Rightarrow> nat \<Rightarrow> tracker \<times> sent_packet option" where
  "remove t lvl pn =
    (case position (\<lambda>p. sp_level p = lvl \<and> sp_pn p = pn) (trk_entries t) of
       None \<Rightarrow> (t, None)
     | Some pos \<Rightarrow> (t\<lparr>trk_entries := swap_remove (trk_entries t) pos\<rparr>, Some (trk_entries t ! pos)))"

definition drop_space :: "tracker \<Rightarrow> level \<Rightarrow> tracker" where
  "drop_space t lvl =
    t\<lparr>trk_entries := fst (take_loop (\<lambda>p. sp_level p = lvl) (\<lambda>_ _. ()) 0 (trk_entries t) ())\<rparr>"

definition count :: "tracker \<Rightarrow> nat" where
  "count t = length (trk_entries t)"

definition has_ack_eliciting_in_flight :: "tracker \<Rightarrow> level \<Rightarrow> bool" where
  "has_ack_eliciting_in_flight t lvl \<longleftrightarrow>
    list_ex (\<lambda>p. sp_level p = lvl \<and> sp_ack_eliciting p \<and> sp_in_flight p) (trk_entries t)"

section \<open>Removal as a multiset operation\<close>

lemma swap_remove_snoc:
  "i \<le> length ys \<Longrightarrow> swap_remove (ys @ [y]) i = (if i = length ys then ys else ys[i := y])"
  by (auto simp: swap_remove_def list_update_append)

lemma mset_swap_remove:
  assumes "i < length xs"
  shows "mset xs = add_mset (xs ! i) (mset (swap_remove xs i))"
proof -
  obtain ys y where xs: "xs = ys @ [y]" using assms by (cases xs rule: rev_cases) auto
  show ?thesis
  proof (cases "i = length ys")
    case True
    then show ?thesis by (simp add: xs swap_remove_snoc)
  next
    case False
    with assms have i: "i < length ys" by (simp add: xs)
    then have "mset (swap_remove xs i) = add_mset y (mset ys - {#ys ! i#})"
      by (simp add: xs swap_remove_snoc mset_update)
    with i show ?thesis by (simp add: xs nth_append)
  qed
qed

lemma length_swap_remove: "length (swap_remove xs i) = length xs - 1"
  by (simp add: swap_remove_def)

lemma nth_swap_remove: "i < length xs \<Longrightarrow> j < i \<Longrightarrow> swap_remove xs i ! j = xs ! j"
  by (cases xs rule: rev_cases) (auto simp: swap_remove_snoc nth_append)

text \<open>
  The loop removes exactly the packets that satisfy \<open>p\<close>, and folds \<open>f\<close> over them in some order.
\<close>

lemma take_loop_spec:
  assumes "\<And>j. j < i \<Longrightarrow> j < length entries \<Longrightarrow> \<not> p (entries ! j)"
  shows "\<exists>taken. mset taken = filter_mset p (mset entries)
    \<and> snd (take_loop p f i entries result) = foldl f result taken
    \<and> mset (fst (take_loop p f i entries result)) = filter_mset (\<lambda>x. \<not> p x) (mset entries)"
  using assms
proof (induction p f i entries result rule: take_loop.induct)
  case (1 p f i entries result)
  show ?case
  proof (cases "i < length entries")
    case False
    then have "\<not> p x" if "x \<in> set entries" for x
      using 1(3) that by (auto simp: in_set_conv_nth)
    then have "filter_mset p (mset entries) = {#}" "filter_mset (\<lambda>x. \<not> p x) (mset entries) = mset entries"
      by (auto simp: filter_empty_conv filter_id_conv simp flip: mset_filter)
    with False show ?thesis
      by (subst (1 2) take_loop.simps) (simp, rule exI [of _ "[]"], simp)
  next
    case True
    note ms = mset_swap_remove [OF True]
    show ?thesis
    proof (cases "p (entries ! i)")
      case take: True
      have "\<not> p (swap_remove entries i ! j)" if "j < i" for j
        using 1(3) [of j] that True nth_swap_remove [OF True that] by simp
      from 1(1) [OF True take this] obtain taken where
        t: "mset taken = filter_mset p (mset (swap_remove entries i))"
        "snd (take_loop p f i (swap_remove entries i) (f result (entries ! i)))
           = foldl f (f result (entries ! i)) taken"
        "mset (fst (take_loop p f i (swap_remove entries i) (f result (entries ! i))))
           = filter_mset (\<lambda>x. \<not> p x) (mset (swap_remove entries i))" by blast
      show ?thesis
        by (rule exI [of _ "entries ! i # taken"], subst (1 2) take_loop.simps) (simp add: True take t ms)
    next
      case False
      have "\<not> p (entries ! j)" if "j < i + 1" "j < length entries" for j
        using 1(3) [of j] that False by (cases "j = i") auto
      with 1(2) [OF True False] show ?thesis by (subst (1 2) take_loop.simps) (simp add: True False)
    qed
  qed
qed

lemmas take_loop_from_0 = take_loop_spec [of 0, simplified]

section \<open>What an ACK frame acknowledges\<close>

text \<open>
  RFC 9000, section 19.3.1, over the integers: the first range is \<open>[largest - first, largest]\<close>; each
  further pair of a gap and a length continues below the smallest number \<open>s\<close> of the range before it
  with \<open>[s - gap - 2 - len, s - gap - 2]\<close>. A frame with a negative number is malformed; its receiver
  must answer with FRAME\_ENCODING\_ERROR.
\<close>

fun rfc_below :: "int \<Rightarrow> (nat \<times> nat) list \<Rightarrow> (int \<times> int) list" where
  "rfc_below s [] = []"
| "rfc_below s ((gap, len) # ranges) =
    (let hi = s - int gap - 2; lo = hi - int len in (lo, hi) # rfc_below lo ranges)"

definition rfc_ranges :: "nat \<Rightarrow> nat \<Rightarrow> (nat \<times> nat) list \<Rightarrow> (int \<times> int) list" where
  "rfc_ranges largest first ranges =
    (let lo = int largest - int first in (lo, int largest) # rfc_below lo ranges)"

definition not_negative :: "(int \<times> int) list \<Rightarrow> bool" where
  "not_negative rs \<longleftrightarrow> list_all (\<lambda>(lo, hi). 0 \<le> lo) rs"

definition ack_valid :: "nat \<Rightarrow> nat \<Rightarrow> (nat \<times> nat) list \<Rightarrow> bool" where
  "ack_valid largest first ranges \<longleftrightarrow> not_negative (rfc_ranges largest first ranges)"

definition within :: "(int \<times> int) list \<Rightarrow> nat \<Rightarrow> bool" where
  "within rs pn \<longleftrightarrow> list_ex (\<lambda>(lo, hi). lo \<le> int pn \<and> int pn \<le> hi) rs"

definition denoted :: "nat \<Rightarrow> nat \<Rightarrow> (nat \<times> nat) list \<Rightarrow> nat \<Rightarrow> bool" where
  "denoted largest first ranges pn \<longleftrightarrow> within (rfc_ranges largest first ranges) pn"

definition in_ranges :: "(nat \<times> nat) list \<Rightarrow> nat \<Rightarrow> bool" where
  "in_ranges rs pn \<longleftrightarrow> list_ex (\<lambda>(lo, hi). lo \<le> pn \<and> pn \<le> hi) rs"

lemma range_simps [simp]:
  "\<not> within [] pn" "within ((lo, hi) # rs) pn \<longleftrightarrow> lo \<le> int pn \<and> int pn \<le> hi \<or> within rs pn"
  "not_negative []" "not_negative ((lo, hi) # rs) \<longleftrightarrow> 0 \<le> lo \<and> not_negative rs"
  by (simp_all add: within_def not_negative_def)

lemma in_snoc [simp]: "in_ranges (acked @ [(lo, hi)]) pn \<longleftrightarrow> in_ranges acked pn \<or> lo \<le> pn \<and> pn \<le> hi"
  by (auto simp: in_ranges_def)

lemma in_push: "in_ranges (push_cap 32 acked (lo, hi)) pn \<longleftrightarrow> in_ranges acked pn \<or> length acked < 32 \<and> lo \<le> pn \<and> pn \<le> hi"
  by (auto simp: push_cap_def in_ranges_def)

lemma acked_ranges_from_spec:
  assumes "not_negative (rfc_below (int s) ranges)" and "s < 2 ^ 62" and "length acked \<le> 32"
  shows "in_ranges (acked_ranges_from s ranges acked) pn \<longleftrightarrow>
    in_ranges acked pn \<or> within (rfc_below (int s) (take (32 - length acked) ranges)) pn"
  using assms
proof (induction s ranges acked rule: acked_ranges_from.induct)
  case (2 smallest gap ack_range ranges acked)
  have ge: "gap + 2 + ack_range \<le> smallest" using 2(2) by (auto simp: Let_def)
  define hi where "hi = smallest - gap - 2"
  define lo where "lo = hi - ack_range"
  have ints: "int smallest - int gap - 2 = int hi" "int hi - int ack_range = int lo"
    using ge by (auto simp: hi_def lo_def)
  have rb: "rfc_below (int smallest) ((gap, ack_range) # rs) = (int lo, int hi) # rfc_below (int lo) rs" for rs
    by (simp add: Let_def ints)
  have gap: "u64_add gap 2 = gap + 2" using ge 2(3) by (intro u64_add_exact) simp
  let ?acked = "push_cap 32 acked (lo, hi)"
  have "in_ranges (acked_ranges_from lo ranges ?acked) pn \<longleftrightarrow>
      in_ranges ?acked pn \<or> within (rfc_below (int lo) (take (32 - length ?acked) ranges)) pn"
    by (rule 2(1)) (use 2(2-4) ge in \<open>auto simp: gap lo_def hi_def rb push_cap_def simp del: rfc_below.simps(2)\<close>)
  moreover have "acked_ranges_from smallest ((gap, ack_range) # ranges) acked = acked_ranges_from lo ranges ?acked"
    using ge by (simp add: gap Let_def lo_def hi_def)
  ultimately show ?case
    using 2(4) by (cases "length acked < 32")
      (auto simp: in_push take_Cons' rb push_cap_def simp del: rfc_below.simps(2) acked_ranges_from.simps)
qed simp

lemma acked_ranges_spec:
  assumes "ack_valid largest first ranges" and "largest < 2 ^ 62"
  shows "in_ranges (acked_ranges largest first ranges) pn \<longleftrightarrow> denoted largest first (take 31 ranges) pn"
proof -
  define lo where "lo = largest - first"
  have i: "int largest - int first = int lo"
    using assms(1) by (auto simp: ack_valid_def rfc_ranges_def Let_def lo_def)
  then have r: "rfc_ranges largest first rs = (int lo, int largest) # rfc_below (int lo) rs" for rs
    by (simp add: rfc_ranges_def Let_def)
  have nn: "not_negative (rfc_below (int lo) ranges)" using assms(1) by (simp add: ack_valid_def r)
  have "lo < 2 ^ 62" using assms(2) by (simp add: lo_def)
  from acked_ranges_from_spec [OF nn this, of "[(lo, largest)]" pn] show ?thesis
    by (simp add: acked_ranges_def denoted_def r push_cap_def flip: lo_def) (simp add: in_ranges_def)
qed

text \<open>
  The tracker does not look for malformed frames: it cuts a negative range at zero. A frame whose First
  ACK Range exceeds its Largest Acknowledged acknowledges every number up to the latter.
\<close>

lemma acked_ranges_from_keeps: "in_ranges acked pn \<Longrightarrow> in_ranges (acked_ranges_from s ranges acked) pn"
  by (induction s ranges acked rule: acked_ranges_from.induct) (auto simp: Let_def in_push)

lemma malformed_ack_accepted:
  assumes "largest < first" and "pn \<le> largest"
  shows "\<not> ack_valid largest first ranges \<and> in_ranges (acked_ranges largest first ranges) pn"
  using assms acked_ranges_from_keeps [of "[(0, largest)]" pn]
  by (auto simp: ack_valid_def rfc_ranges_def acked_ranges_def Let_def push_cap_def in_ranges_def)

lemma is_acked_iff:
  "is_acked lvl rs pkt \<longleftrightarrow> sp_level pkt = lvl \<and> in_ranges rs (sp_pn pkt)"
  by (simp add: is_acked_def in_ranges_def)

section \<open>What is reported\<close>

definition larger :: "sent_packet option \<Rightarrow> sent_packet \<Rightarrow> sent_packet option" where
  "larger l x = (case l of None \<Rightarrow> Some x | Some p \<Rightarrow> if sp_pn p < sp_pn x then Some x else l)"

lemma note_acked_eq:
  "note_acked \<lparr>newly_acked = xs, largest_newly_acked = l\<rparr> x
     = \<lparr>newly_acked = push_cap 32 xs x, largest_newly_acked = larger l x\<rparr>"
  by (auto simp: note_acked_def larger_def Let_def split: option.splits)

lemma note_acked_foldl:
  assumes "length xs \<le> 32"
  shows "newly_acked (foldl note_acked \<lparr>newly_acked = xs, largest_newly_acked = l\<rparr> taken)
    = xs @ take (32 - length xs) taken"
  using assms
proof (induction taken arbitrary: xs l)
  case (Cons x taken)
  then show ?case
    by (cases "length xs < 32") (auto simp: note_acked_eq push_cap_def take_Cons')
qed simp

lemma note_acked_largest:
  "case largest_newly_acked (foldl note_acked \<lparr>newly_acked = xs, largest_newly_acked = l\<rparr> taken) of
     None \<Rightarrow> l = None \<and> taken = []
   | Some b \<Rightarrow> (b \<in> set taken \<or> l = Some b) \<and> (\<forall>x \<in> set taken. sp_pn x \<le> sp_pn b)
        \<and> (\<forall>x. l = Some x \<longrightarrow> sp_pn x \<le> sp_pn b)"
proof (induction taken arbitrary: xs l)
  case (Cons x taken)
  from Cons.IH [where xs = "push_cap 32 xs x" and l = "larger l x"] show ?case
    by (auto simp: note_acked_eq larger_def split: option.splits if_splits)
qed (auto split: option.splits)

section \<open>Invariant\<close>

text \<open>Never more than \<open>N\<close> entries, and one entry per packet number of a space.\<close>

definition trk_key :: "sent_packet \<Rightarrow> level \<times> nat" where
  "trk_key p = (sp_level p, sp_pn p)"

definition trk_inv :: "tracker \<Rightarrow> bool" where
  "trk_inv t \<longleftrightarrow> length (trk_entries t) \<le> trk_capacity t \<and> distinct (map trk_key (trk_entries t))"

lemma trk_inv_mset:
  "trk_inv t \<longleftrightarrow> size (mset (trk_entries t)) \<le> trk_capacity t
     \<and> (\<forall>k. Multiset.count (image_mset trk_key (mset (trk_entries t))) k \<le> 1)"
  unfolding trk_inv_def distinct_count_atmost_1 by (auto simp: count_eq_zero_iff le_Suc_eq)

lemma trk_inv_sub:
  assumes "trk_inv t" and "mset (trk_entries t') \<subseteq># mset (trk_entries t)"
    and "trk_capacity t' = trk_capacity t"
  shows "trk_inv t'"
proof -
  have "image_mset trk_key (mset (trk_entries t')) \<subseteq># image_mset trk_key (mset (trk_entries t))"
    using assms(2) by (rule image_mset_subseteq_mono)
  then have "Multiset.count (image_mset trk_key (mset (trk_entries t'))) k
      \<le> Multiset.count (image_mset trk_key (mset (trk_entries t))) k" for k
    by (rule mset_subset_eq_count)
  moreover have "size (mset (trk_entries t')) \<le> size (mset (trk_entries t))"
    using assms(2) by (rule size_mset_mono)
  ultimately show ?thesis using assms(1,3) unfolding trk_inv_mset by (metis le_trans)
qed

lemma trk_inv_new [inv_rules]: "trk_inv (tracker_new N)"
  by (simp add: trk_inv_def tracker_new_def)

lemma trk_inv_sent [inv_rules]:
  "trk_inv t \<Longrightarrow> trk_key pkt \<notin> trk_key ` set (trk_entries t) \<Longrightarrow> trk_inv (fst (on_packet_sent t pkt))"
  by (auto simp: trk_inv_def on_packet_sent_def)

lemma on_ack_received_mset:
  "mset (trk_entries (fst (on_ack_received t lvl la fa rs)))
     = filter_mset (\<lambda>p. \<not> is_acked lvl (acked_ranges la fa rs) p) (mset (trk_entries t))"
  using take_loop_from_0 [of "is_acked lvl (acked_ranges la fa rs)" "trk_entries t" note_acked]
  by (simp add: on_ack_received_def Let_def case_prod_beta) blast

lemma drop_space_mset:
  "mset (trk_entries (drop_space t lvl)) = filter_mset (\<lambda>p. sp_level p \<noteq> lvl) (mset (trk_entries t))"
  using take_loop_from_0 [of "\<lambda>p. sp_level p = lvl" "trk_entries t" "\<lambda>_ _. ()" "()"]
  by (auto simp: drop_space_def)

lemma capacity_simps [simp]:
  "trk_capacity (fst (on_ack_received t lvl la fa rs)) = trk_capacity t"
  "trk_capacity (drop_space t lvl) = trk_capacity t"
  by (simp_all add: on_ack_received_def drop_space_def Let_def case_prod_beta)

lemma remove_cases:
  obtains (absent) "remove t lvl pn = (t, None)" and "\<forall>p \<in> set (trk_entries t). trk_key p \<noteq> (lvl, pn)"
  | (found) t' p where "remove t lvl pn = (t', Some p)" and "trk_key p = (lvl, pn)"
      and "mset (trk_entries t) = add_mset p (mset (trk_entries t'))"
      and "trk_capacity t' = trk_capacity t"
proof (cases "position (\<lambda>p. sp_level p = lvl \<and> sp_pn p = pn) (trk_entries t)")
  case None
  moreover from this have "\<forall>p \<in> set (trk_entries t). trk_key p \<noteq> (lvl, pn)"
    by (auto simp: position_None trk_key_def)
  ultimately show thesis by (intro absent) (simp_all add: remove_def)
next
  case (Some i)
  then have "i < length (trk_entries t)" "trk_key (trk_entries t ! i) = (lvl, pn)"
    by (auto simp: trk_key_def dest: position_SomeD)
  with Some show thesis
    by (intro found [of "t\<lparr>trk_entries := swap_remove (trk_entries t) i\<rparr>" "trk_entries t ! i"])
       (simp_all add: remove_def mset_swap_remove)
qed

lemma trk_inv_removals [inv_rules]:
  assumes "trk_inv t"
  shows "trk_inv (fst (on_ack_received t lvl la fa rs))" and "trk_inv (drop_space t lvl)"
    and "trk_inv (fst (remove t lvl pn))"
proof -
  show "trk_inv (fst (on_ack_received t lvl la fa rs))"
    by (rule trk_inv_sub [OF assms]) (simp_all add: on_ack_received_mset)
  show "trk_inv (drop_space t lvl)"
    by (rule trk_inv_sub [OF assms]) (simp_all add: drop_space_mset)
  show "trk_inv (fst (remove t lvl pn))"
    by (cases t lvl pn rule: remove_cases) (auto intro: assms trk_inv_sub [OF assms])
qed

section \<open>Properties\<close>

definition covered :: "level \<Rightarrow> nat \<Rightarrow> nat \<Rightarrow> (nat \<times> nat) list \<Rightarrow> sent_packet \<Rightarrow> bool" where
  "covered lvl largest first ranges p \<longleftrightarrow> sp_level p = lvl \<and> denoted largest first ranges (sp_pn p)"

lemma is_acked_covered:
  assumes "ack_valid largest first ranges" and "largest < 2 ^ 62"
  shows "is_acked lvl (acked_ranges largest first ranges) = covered lvl largest first (take 31 ranges)"
  by (rule ext) (simp add: is_acked_iff acked_ranges_spec [OF assms] covered_def)

text \<open>
  C10: Processing an ACK. For a frame that RFC 9000 allows, \<open>on_ack_received\<close> removes exactly the packets
  of the space whose numbers lie in its first 32 ranges (all of the frame, if it has at most 31 additional
  ranges) and keeps every other packet. It reports each removed packet once as long as there are at most
  32 of them (of more, it reports 32), and \<open>largest_newly_acked\<close> is the removed packet with the
  largest number.
\<close>

theorem on_ack_received_spec:
  assumes "ack_valid largest first ranges" and "largest < 2 ^ 62"
    and "on_ack_received t lvl largest first ranges = (t', res)"
    and "acked = filter_mset (covered lvl largest first (take 31 ranges)) (mset (trk_entries t))"
  shows "mset (trk_entries t) = mset (trk_entries t') + acked
    \<and> mset (newly_acked res) \<subseteq># acked \<and> length (newly_acked res) = min 32 (size acked)
    \<and> (case largest_newly_acked res of
         None \<Rightarrow> acked = {#}
       | Some b \<Rightarrow> b \<in># acked \<and> (\<forall>x \<in># acked. sp_pn x \<le> sp_pn b))"
proof -
  let ?c = "covered lvl largest first (take 31 ranges)"
  let ?r0 = "\<lparr>newly_acked = [], largest_newly_acked = None\<rparr>"
  obtain taken where taken: "mset taken = acked"
    and res: "snd (take_loop ?c note_acked 0 (trk_entries t) ?r0) = foldl note_acked ?r0 taken"
    using take_loop_from_0 [of ?c "trk_entries t" note_acked ?r0] assms(4) by blast
  have r: "res = foldl note_acked ?r0 taken"
    using assms(3) res by (simp add: on_ack_received_def is_acked_covered [OF assms(1,2)] case_prod_beta)
  have t': "t' = fst (on_ack_received t lvl largest first ranges)" using assms(3) by simp
  have na: "newly_acked res = take 32 taken" using note_acked_foldl [of "[]" None taken] by (simp add: r)
  have len: "length (newly_acked res) = min 32 (size acked)"
    unfolding taken [symmetric] na by simp
  have sub: "mset (newly_acked res) \<subseteq># acked"
    unfolding taken [symmetric] na by (metis append_take_drop_id mset_append mset_subset_eq_add_left)
  have set: "x \<in># acked \<longleftrightarrow> x \<in> set taken" for x
    unfolding taken [symmetric] by simp
  have "case largest_newly_acked res of
         None \<Rightarrow> acked = {#}
       | Some b \<Rightarrow> b \<in># acked \<and> (\<forall>x \<in># acked. sp_pn x \<le> sp_pn b)"
    using note_acked_largest [where xs = "[]" and l = None and taken = taken] taken
    unfolding set Ball_def by (auto simp: r set split: option.splits)
  moreover have "mset (trk_entries t) = mset (trk_entries t') + acked"
    by (simp add: t' on_ack_received_mset is_acked_covered [OF assms(1,2)] assms(4) add.commute multiset_partition [symmetric])
  ultimately show ?thesis using len sub by simp
qed

definition pkt_of :: "nat \<Rightarrow> sent_packet" where
  "pkt_of n = \<lparr>sp_pn = n, sp_level = Application, sp_time_sent = 7, sp_size = 1200,
     sp_ack_eliciting = True, sp_in_flight = True\<rparr>"

theorem on_ack_received_spec_witness:
  "\<exists>t' res. on_ack_received \<lparr>trk_capacity = 8, trk_entries = map pkt_of [2, 3, 5, 6]\<rparr> Application 5 2 [(0, 0)] = (t', res)
     \<and> mset (trk_entries t') = mset (map pkt_of [2, 6]) \<and> length (newly_acked res) = 2"
proof -
  let ?t = "\<lparr>trk_capacity = 8, trk_entries = map pkt_of [2, 3, 5, 6]\<rparr>"
  obtain t' res where tr: "on_ack_received ?t Application 5 2 [(0, 0)] = (t', res)" by force
  have c: "covered Application 5 2 [(0, 0)] (pkt_of n) \<longleftrightarrow> n = 1 \<or> n = 3 \<or> n = 4 \<or> n = 5" for n
    by (auto simp: covered_def denoted_def rfc_ranges_def pkt_of_def Let_def)
  have v: "ack_valid 5 2 [(0, 0)]" by (simp add: ack_valid_def rfc_ranges_def Let_def)
  have "mset (map pkt_of [2, 3, 5, 6]) = mset (trk_entries t') + mset (map pkt_of [3, 5])" and len: "length (newly_acked res) = 2"
    using on_ack_received_spec [OF v _ tr refl] by (simp_all add: c)
  moreover have "mset (map pkt_of [2, 3, 5, 6]) = mset (map pkt_of [2, 6]) + mset (map pkt_of [3, 5])"
    by (simp add: add_mset_commute)
  ultimately have "mset (trk_entries t') = mset (map pkt_of [2, 6])" by (metis add_right_cancel)
  with tr len show ?thesis by blast
qed

end
