(* ===== verification/Loss.thy ===== *)
theory Loss
  imports Recovery
begin

text \<open>
  RTT estimation, loss detection and the probe timeout (\<^verbatim>\<open>src/transport/loss.rs\<close>). Times are
  microseconds in 64 bits. The per-space arrays are lists of length three, indexed by
  \<open>space_index\<close>.
\<close>

section \<open>The code\<close>

definition TIME_THRESHOLD_NUM :: nat where "TIME_THRESHOLD_NUM = 9"
definition TIME_THRESHOLD_DEN :: nat where "TIME_THRESHOLD_DEN = 8"
definition PACKET_THRESHOLD :: nat where "PACKET_THRESHOLD = 3"
definition GRANULARITY :: nat where "GRANULARITY = 1000"
definition DEFAULT_INITIAL_RTT :: nat where "DEFAULT_INITIAL_RTT = 333000"

primrec space_index :: "level \<Rightarrow> nat" where
  "space_index Initial = 0"
| "space_index Handshake = 1"
| "space_index Application = 2"

record loss_detector =
  ld_largest_acked :: "nat option list"
  ld_smoothed_rtt :: "nat option"
  ld_rttvar :: nat
  ld_min_rtt :: nat
  ld_latest_rtt :: nat
  ld_pto_count :: nat
  ld_time_of_last_ack_eliciting :: "nat option list"
  ld_max_ack_delay :: nat
  ld_loss_time :: "nat option list"

definition loss_new :: "nat \<Rightarrow> loss_detector" where
  "loss_new max_ack_delay_us =
    \<lparr>ld_largest_acked = [None, None, None], ld_smoothed_rtt = None, ld_rttvar = 0,
     ld_min_rtt = u64_MAX, ld_latest_rtt = 0, ld_pto_count = 0,
     ld_time_of_last_ack_eliciting = [None, None, None], ld_max_ack_delay = max_ack_delay_us,
     ld_loss_time = [None, None, None]\<rparr>"

definition smoothed_rtt :: "loss_detector \<Rightarrow> nat" where
  "smoothed_rtt ld = (case ld_smoothed_rtt ld of Some r \<Rightarrow> r | None \<Rightarrow> DEFAULT_INITIAL_RTT)"

definition abs_diff :: "nat \<Rightarrow> nat \<Rightarrow> nat" where
  "abs_diff a b = (if a < b then b - a else a - b)"

text \<open>The sample with the peer's acknowledgment delay taken out, never below the minimum.\<close>

definition adjusted_rtt :: "loss_detector \<Rightarrow> nat \<Rightarrow> nat \<Rightarrow> bool \<Rightarrow> nat" where
  "adjusted_rtt ld latest_rtt ack_delay handshake_confirmed =
    (if handshake_confirmed then
       let capped_delay = min ack_delay (ld_max_ack_delay ld)
       in if latest_rtt > u64_add (ld_min_rtt ld) capped_delay
          then latest_rtt - capped_delay else latest_rtt
     else latest_rtt)"

definition ewma_update :: "loss_detector \<Rightarrow> nat \<Rightarrow> nat \<Rightarrow> loss_detector" where
  "ewma_update ld srtt adjusted =
    ld\<lparr>ld_rttvar := u64_add (u64_mul 3 (ld_rttvar ld)) (abs_diff srtt adjusted) div 4,
       ld_smoothed_rtt := Some (u64_add (u64_mul 7 srtt) adjusted div 8)\<rparr>"

definition update_rtt :: "loss_detector \<Rightarrow> nat \<Rightarrow> nat \<Rightarrow> bool \<Rightarrow> loss_detector" where
  "update_rtt ld latest_rtt ack_delay handshake_confirmed =
    (let ld = ld\<lparr>ld_latest_rtt := latest_rtt\<rparr>;
         ld = (if ld_min_rtt ld = u64_MAX \<or> latest_rtt < ld_min_rtt ld
               then ld\<lparr>ld_min_rtt := latest_rtt\<rparr> else ld)
     in case ld_smoothed_rtt ld of
          None \<Rightarrow> ld\<lparr>ld_smoothed_rtt := Some latest_rtt, ld_rttvar := latest_rtt div 2\<rparr>
        | Some srtt \<Rightarrow>
            ewma_update ld srtt (adjusted_rtt ld latest_rtt ack_delay handshake_confirmed))"

definition ld_on_ack_received :: "loss_detector \<Rightarrow> level \<Rightarrow> nat \<Rightarrow> loss_detector" where
  "ld_on_ack_received ld lvl largest_acked =
    (let i = space_index lvl
     in case ld_largest_acked ld ! i of
          None \<Rightarrow> ld\<lparr>ld_largest_acked := (ld_largest_acked ld)[i := Some largest_acked]\<rparr>
        | Some prev \<Rightarrow>
            if largest_acked > prev
            then ld\<lparr>ld_largest_acked := (ld_largest_acked ld)[i := Some largest_acked]\<rparr> else ld)"

definition loss_delay :: "loss_detector \<Rightarrow> nat" where
  "loss_delay ld =
    (let rtt_base = max (smoothed_rtt ld) (ld_latest_rtt ld)
     in max (u64_mul rtt_base TIME_THRESHOLD_NUM div TIME_THRESHOLD_DEN) GRANULARITY)"

text \<open>The loop over the packets of the space: \<^verbatim>\<open>break\<close> when the list of 64 lost packets is full.\<close>

fun detect_loop ::
  "nat \<Rightarrow> nat \<Rightarrow> nat \<Rightarrow> sent_packet list \<Rightarrow> nat list \<Rightarrow> nat option \<Rightarrow> nat list \<times> nat option" where
  "detect_loop largest delay lost_send_time [] lost loss_time = (lost, loss_time)"
| "detect_loop largest delay lost_send_time (pkt # pkts) lost loss_time =
    (if sp_pn pkt > largest
     then detect_loop largest delay lost_send_time pkts lost loss_time
     else if largest \<ge> u64_add (sp_pn pkt) PACKET_THRESHOLD then
       if length lost < 64
       then detect_loop largest delay lost_send_time pkts (lost @ [sp_pn pkt]) loss_time
       else (lost, loss_time)
     else if sp_time_sent pkt \<le> lost_send_time then
       if length lost < 64
       then detect_loop largest delay lost_send_time pkts (lost @ [sp_pn pkt]) loss_time
       else (lost, loss_time)
     else
       let deadline = u64_add (sp_time_sent pkt) delay
       in detect_loop largest delay lost_send_time pkts lost
            (Some (case loss_time of None \<Rightarrow> deadline | Some prev \<Rightarrow> min prev deadline)))"

definition detect_lost_packets ::
  "loss_detector \<Rightarrow> level \<Rightarrow> tracker \<Rightarrow> nat \<Rightarrow> loss_detector \<times> nat list \<times> nat option" where
  "detect_lost_packets ld lvl t now =
    (let i = space_index lvl
     in case ld_largest_acked ld ! i of None \<Rightarrow> (ld, [], None)
        | Some largest_acked \<Rightarrow>
            let delay = loss_delay ld;
                (lost_pns, loss_time) =
                  detect_loop largest_acked delay (now - delay)
                    (sent_below_pn t lvl (u64_add largest_acked 1)) [] None
            in (ld\<lparr>ld_loss_time := (ld_loss_time ld)[i := loss_time]\<rparr>, lost_pns, loss_time))"

definition pto_duration :: "loss_detector \<Rightarrow> nat" where
  "pto_duration ld =
    (let srtt = smoothed_rtt ld;
         rttvar = (case ld_smoothed_rtt ld of Some _ \<Rightarrow> ld_rttvar ld
                   | None \<Rightarrow> DEFAULT_INITIAL_RTT div 2)
     in u64_add (u64_add srtt (max (u64_mul 4 rttvar) GRANULARITY)) (ld_max_ack_delay ld))"

fun latest_time :: "nat option \<Rightarrow> nat option list \<Rightarrow> nat option" where
  "latest_time acc [] = acc"
| "latest_time acc (None # ts) = latest_time acc ts"
| "latest_time acc (Some t # ts) =
     latest_time (Some (case acc of None \<Rightarrow> t | Some prev \<Rightarrow> max prev t)) ts"

text \<open>The first loop of \<^verbatim>\<open>pto_timeout\<close>, over \<^verbatim>\<open>earliest\<close>, computes a value nothing reads.\<close>

definition pto_timeout :: "loss_detector \<Rightarrow> tracker \<Rightarrow> nat option" where
  "pto_timeout ld t =
    (let pto = u64_mul (pto_duration ld) (2 ^ min (ld_pto_count ld) 62);
         has_ae = list_ex (has_ack_eliciting_in_flight t) [Initial, Handshake, Application]
     in if \<not> has_ae then None
        else map_option (\<lambda>time. u64_add time pto)
               (latest_time None (ld_time_of_last_ack_eliciting ld)))"

definition on_pto :: "loss_detector \<Rightarrow> loss_detector" where
  "on_pto ld = ld\<lparr>ld_pto_count := (ld_pto_count ld + 1) mod 2 ^ 32\<rparr>"

definition reset_pto_count :: "loss_detector \<Rightarrow> loss_detector" where
  "reset_pto_count ld = ld\<lparr>ld_pto_count := 0\<rparr>"

fun min_time :: "nat option list \<Rightarrow> nat option" where
  "min_time [] = None"
| "min_time (None # ts) = min_time ts"
| "min_time (Some t # ts) = (case min_time ts of None \<Rightarrow> Some t | Some u \<Rightarrow> Some (min t u))"

definition next_timeout :: "loss_detector \<Rightarrow> tracker \<Rightarrow> nat option" where
  "next_timeout ld t =
    (case (min_time (ld_loss_time ld), pto_timeout ld t) of
       (Some l, Some p) \<Rightarrow> Some (min l p)
     | (Some l, None) \<Rightarrow> Some l
     | (None, Some p) \<Rightarrow> Some p
     | (None, None) \<Rightarrow> None)"

definition on_ack_eliciting_sent :: "loss_detector \<Rightarrow> level \<Rightarrow> nat \<Rightarrow> loss_detector" where
  "on_ack_eliciting_sent ld lvl now =
    ld\<lparr>ld_time_of_last_ack_eliciting :=
         (ld_time_of_last_ack_eliciting ld)[space_index lvl := Some now]\<rparr>"

definition ld_drop_space :: "loss_detector \<Rightarrow> level \<Rightarrow> loss_detector" where
  "ld_drop_space ld lvl =
    (let i = space_index lvl
     in ld\<lparr>ld_largest_acked := (ld_largest_acked ld)[i := None],
           ld_time_of_last_ack_eliciting := (ld_time_of_last_ack_eliciting ld)[i := None],
           ld_loss_time := (ld_loss_time ld)[i := None]\<rparr>)"

section \<open>Loss detection\<close>

text \<open>
  RFC 9002, section 6.1, over the integers: a packet numbered at most the largest acknowledged passes the
  packet threshold or the time threshold; it is declared lost if it is also in flight.
\<close>

definition past_threshold :: "nat \<Rightarrow> nat \<Rightarrow> nat \<Rightarrow> sent_packet \<Rightarrow> bool" where
  "past_threshold largest delay now p \<longleftrightarrow> sp_pn p \<le> largest
     \<and> (sp_pn p + 3 \<le> largest \<or> int (sp_time_sent p) \<le> int now - int delay)"

definition rfc_lost :: "nat \<Rightarrow> nat \<Rightarrow> nat \<Rightarrow> sent_packet \<Rightarrow> bool" where
  "rfc_lost largest delay now p \<longleftrightarrow> sp_in_flight p \<and> past_threshold largest delay now p"

definition deadlines :: "nat \<Rightarrow> nat \<Rightarrow> nat \<Rightarrow> sent_packet list \<Rightarrow> nat list" where
  "deadlines largest delay now pkts =
     map (\<lambda>p. sp_time_sent p + delay) (filter (\<lambda>p. sp_pn p \<le> largest \<and> \<not> past_threshold largest delay now p) pkts)"

text \<open>The subtraction of the code stops at zero, which matters only for packets sent at time zero.\<close>

lemma send_time_threshold:
  "0 < sp_time_sent p \<or> delay \<le> now \<Longrightarrow> sp_time_sent p \<le> now - delay \<longleftrightarrow> int (sp_time_sent p) \<le> int now - int delay"
  by auto

definition min_opt :: "nat option \<Rightarrow> nat list \<Rightarrow> nat option" where
  "min_opt acc ts = foldl (\<lambda>a t. Some (case a of None \<Rightarrow> t | Some u \<Rightarrow> min u t)) acc ts"

lemma min_opt_Min: "min_opt None ts = (if ts = [] then None else Some (Min (set ts)))"
proof -
  have *: "min_opt (Some u) ts = Some (Min (insert u (set ts)))" for u ts
  proof (induction ts arbitrary: u)
    case (Cons t ts)
    have "min_opt (Some u) (t # ts) = min_opt (Some (min u t)) ts" by (simp add: min_opt_def)
    also have "\<dots> = Some (Min (insert (min u t) (set ts)))" by (rule Cons.IH)
    also have "Min (insert (min u t) (set ts)) = Min (insert u (insert t (set ts)))"
      by (cases "ts = []") (simp_all add: min.assoc)
    finally show ?case by simp
  qed (simp add: min_opt_def)
  have "min_opt None (a # as) = min_opt (Some a) as" for a as by (simp add: min_opt_def)
  then show ?thesis by (cases ts) (simp_all add: *, simp add: min_opt_def)
qed

lemma detect_loop_lost:
  assumes "\<forall>p \<in> set pkts. sp_pn p + 3 < 2 ^ 64 \<and> (0 < sp_time_sent p \<or> delay \<le> now)" and "length lost \<le> 64"
  shows "fst (detect_loop largest delay (now - delay) pkts lost lt)
    = lost @ take (64 - length lost) (map sp_pn (filter (past_threshold largest delay now) pkts))"
  using assms
proof (induction pkts arbitrary: lost lt)
  case (Cons p pkts)
  have "u64_add (sp_pn p) PACKET_THRESHOLD = sp_pn p + 3"
    using Cons.prems by (simp add: PACKET_THRESHOLD_def)
  moreover have "sp_time_sent p \<le> now - delay \<longleftrightarrow> int (sp_time_sent p) \<le> int now - int delay"
    using Cons.prems by (intro send_time_threshold) simp
  ultimately show ?case
    using Cons by (cases "length lost < 64")
      (auto simp: past_threshold_def Let_def take_Cons' Suc_diff_Suc simp flip: Suc_eq_plus1)
qed simp

lemma detect_loop_timer:
  assumes "\<forall>p \<in> set pkts. sp_pn p + 3 < 2 ^ 64 \<and> sp_time_sent p + delay < 2 ^ 64 \<and> (0 < sp_time_sent p \<or> delay \<le> now)"
    and "length lost + length (filter (past_threshold largest delay now) pkts) \<le> 64"
  shows "snd (detect_loop largest delay (now - delay) pkts lost lt)
    = min_opt lt (deadlines largest delay now pkts)"
  using assms
proof (induction pkts arbitrary: lost lt)
  case (Cons p pkts)
  have "u64_add (sp_pn p) PACKET_THRESHOLD = sp_pn p + 3"
    using Cons.prems by (simp add: PACKET_THRESHOLD_def)
  moreover have "u64_add (sp_time_sent p) delay = sp_time_sent p + delay"
    using Cons.prems by simp
  moreover have "sp_time_sent p \<le> now - delay \<longleftrightarrow> int (sp_time_sent p) \<le> int now - int delay"
    using Cons.prems by (intro send_time_threshold) simp
  ultimately show ?case
    using Cons by (auto simp: past_threshold_def Let_def deadlines_def min_opt_def)
qed (simp add: deadlines_def min_opt_def)

section \<open>RTT estimation\<close>

definition rtt_inv :: "loss_detector \<Rightarrow> nat \<Rightarrow> nat \<Rightarrow> bool" where
  "rtt_inv ld lo hi \<longleftrightarrow> ld_min_rtt ld = lo \<and> lo \<le> hi \<and> hi < 2 ^ 60 \<and> ld_max_ack_delay ld < 2 ^ 60
     \<and> (\<exists>s. ld_smoothed_rtt ld = Some s \<and> lo \<le> s \<and> s \<le> hi) \<and> ld_rttvar ld \<le> hi"

lemma rtt_inv_first:
  assumes "r < 2 ^ 60" and "d < 2 ^ 60"
  shows "rtt_inv (update_rtt (loss_new d) r a c) r r"
  using assms by (auto simp: rtt_inv_def update_rtt_def loss_new_def Let_def)

lemma adjusted_rtt_bounds:
  assumes "ld_min_rtt ld \<le> r" and "r < 2 ^ 60" and "ld_max_ack_delay ld < 2 ^ 60"
  shows "ld_min_rtt ld \<le> adjusted_rtt ld r a c" and "adjusted_rtt ld r a c \<le> r"
proof -
  have "u64_add (ld_min_rtt ld) (min a (ld_max_ack_delay ld)) = ld_min_rtt ld + min a (ld_max_ack_delay ld)"
    using assms by (intro u64_add_exact) auto
  then show "ld_min_rtt ld \<le> adjusted_rtt ld r a c" and "adjusted_rtt ld r a c \<le> r"
    using assms(1) by (auto simp: adjusted_rtt_def Let_def)
qed

lemma ewma_update_bounds:
  assumes "lo \<le> s" "s \<le> hi" "lo \<le> x" "x \<le> hi" "ld_rttvar ld \<le> hi" "hi < 2 ^ 60"
  shows "\<exists>s'. ld_smoothed_rtt (ewma_update ld s x) = Some s' \<and> lo \<le> s' \<and> s' \<le> hi"
    and "ld_rttvar (ewma_update ld s x) \<le> hi"
proof -
  have "u64_add (u64_mul 7 s) x = 7 * s + x" using assms by simp
  then show "\<exists>s'. ld_smoothed_rtt (ewma_update ld s x) = Some s' \<and> lo \<le> s' \<and> s' \<le> hi"
    using assms by (simp add: ewma_update_def) linarith
  have d: "abs_diff s x \<le> hi" using assms by (auto simp: abs_diff_def)
  then have "u64_add (u64_mul 3 (ld_rttvar ld)) (abs_diff s x) = 3 * ld_rttvar ld + abs_diff s x"
    using assms by simp
  then show "ld_rttvar (ewma_update ld s x) \<le> hi"
    using assms d by (simp add: ewma_update_def)
qed

lemma rtt_inv_step:
  assumes "rtt_inv ld lo hi" and "r < 2 ^ 60"
  shows "rtt_inv (update_rtt ld r a c) (min lo r) (max hi r)"
proof -
  obtain s where s: "ld_smoothed_rtt ld = Some s" "lo \<le> s" "s \<le> hi" and v: "ld_rttvar ld \<le> hi"
    and b: "ld_min_rtt ld = lo" "lo \<le> hi" "hi < 2 ^ 60" "ld_max_ack_delay ld < 2 ^ 60"
    using assms(1) by (auto simp: rtt_inv_def)
  define ld' where "ld' = ld\<lparr>ld_latest_rtt := r, ld_min_rtt := min lo r\<rparr>"
  have "lo \<noteq> u64_MAX" using b by simp
  then have upd: "update_rtt ld r a c = ewma_update ld' s (adjusted_rtt ld' r a c)"
    using s(1) b(1) by (cases ld) (simp add: update_rtt_def ld'_def min_def Let_def)
  have x: "min lo r \<le> adjusted_rtt ld' r a c" "adjusted_rtt ld' r a c \<le> r"
    using adjusted_rtt_bounds [of ld' r a c] assms(2) b(4) by (auto simp: ld'_def)
  have "ld_rttvar ld' \<le> max hi r" using v by (simp add: ld'_def)
  note ewma = ewma_update_bounds [of "min lo r" s "max hi r" "adjusted_rtt ld' r a c" ld', OF _ _ x(1) _ this]
  show ?thesis
    using ewma s x b assms(2) unfolding upd rtt_inv_def by (simp add: ewma_update_def ld'_def)
qed

section \<open>Probe timeout\<close>

lemma latest_time_Max:
  "latest_time None ts = (if List.map_filter (\<lambda>x. x) ts = [] then None
     else Some (Max (set (List.map_filter (\<lambda>x. x) ts))))"
proof -
  have *: "latest_time (Some u) ts = Some (Max (insert u (set (List.map_filter (\<lambda>x. x) ts))))" for u ts
  proof (induction ts arbitrary: u)
    case (Cons t ts)
    show ?case
    proof (cases t)
      case (Some v)
      have "Max (insert (max u v) A) = Max (insert u (insert v A))" if "finite A" for A
        using that by (cases "A = {}") (simp_all add: max.assoc)
      with Some Cons.IH show ?thesis by (simp add: map_filter_simps)
    qed (simp add: Cons.IH map_filter_simps)
  qed (simp add: map_filter_simps)
  show ?thesis
  proof (induction ts)
    case (Cons t ts)
    then show ?case by (cases t) (simp_all add: map_filter_simps *)
  qed (simp add: map_filter_simps)
qed

section \<open>Properties\<close>



text \<open>
  The code does not ask whether a packet is in flight: a packet that carries only an ACK is tracked, and
  reported lost three acknowledged packets later, although RFC 9002 declares only packets in flight lost.
\<close>

lemma ack_only_declared_lost:
  assumes "sp_pn p + 3 \<le> largest" and "largest < 2 ^ 62" and "\<not> sp_in_flight p" and "length lost < 64"
  shows "\<not> rfc_lost largest delay now p
    \<and> detect_loop largest delay t (p # pkts) lost lt = detect_loop largest delay t pkts (lost @ [sp_pn p]) lt"
  using assms by (simp add: rfc_lost_def PACKET_THRESHOLD_def)

text \<open>A packet with the send time zero passes the time threshold at once as long as the clock shows less than the delay.\<close>

lemma time_zero_lost_at_once:
  assumes "sp_pn p = largest" and "largest < 2 ^ 62" and "sp_time_sent p = 0" and "now < delay"
  shows "\<not> past_threshold largest delay now p \<and> detect_loop largest delay (now - delay) [p] [] None = ([sp_pn p], None)"
  using assms by (simp add: past_threshold_def PACKET_THRESHOLD_def)

text \<open>
  RTT estimation. After any non-empty sequence of RTT samples (with any acknowledgment delays,
  before or after the handshake is confirmed) \<open>min_rtt\<close> is the smallest sample, the smoothed RTT
  lies between the smallest and the largest sample, and the variation is at most the largest.
\<close>

theorem rtt_estimate_bounds:
  assumes "samples \<noteq> []" and "\<forall>(r, a, c) \<in> set samples. r < 2 ^ 60" and "d < 2 ^ 60"
    and "ld = foldl (\<lambda>ld (r, a, c). update_rtt ld r a c) (loss_new d) samples"
  shows "ld_min_rtt ld = Min (fst ` set samples)
    \<and> Min (fst ` set samples) \<le> smoothed_rtt ld \<and> smoothed_rtt ld \<le> Max (fst ` set samples)
    \<and> ld_rttvar ld \<le> Max (fst ` set samples)"
proof -
  let ?run = "\<lambda>xs. foldl (\<lambda>ld (r, a, c). update_rtt ld r a c) (loss_new d) xs"
  have "rtt_inv (?run samples) (Min (fst ` set samples)) (Max (fst ` set samples))"
    using assms(1,2)
  proof (induction samples rule: rev_induct)
    case (snoc x xs)
    obtain r a c where x: "x = (r, a, c)" by (metis prod_cases3)
    have r: "r < 2 ^ 60" using snoc.prems(2) by (simp add: x)
    show ?case
    proof (cases "xs = []")
      case True
      then show ?thesis using rtt_inv_first [OF r assms(3)] by (simp add: x)
    next
      case False
      then have "rtt_inv (?run xs) (Min (fst ` set xs)) (Max (fst ` set xs))"
        using snoc by auto
      from rtt_inv_step [OF this r, of a c] False show ?thesis
        by (simp add: x min.commute max.commute)
    qed
  qed simp
  then show ?thesis unfolding assms(4) [symmetric] by (auto simp: rtt_inv_def smoothed_rtt_def)
qed

theorem rtt_estimate_bounds_witness:
  "ld_min_rtt (foldl (\<lambda>ld (r, a, c). update_rtt ld r a c) (loss_new 25000)
     [(80, 0, False), (50, 10, True), (120, 30, True)]) = 50"
  using rtt_estimate_bounds [OF _ _ _ refl, of "[(80, 0, False), (50, 10, True), (120, 30, True)]" 25000]
  by (simp del: foldl_Cons)

text \<open>
  Probe timeout. There is a timeout exactly when an ack-eliciting packet is in flight and one
  was recorded; it is the last recorded send time plus the PTO duration doubled once per
  expired probe, and \<open>on_pto\<close> doubles the interval (as long as the product stays in 64 bits).
\<close>

theorem pto_timeout_spec:
  assumes "pto_duration ld * 2 ^ ld_pto_count ld < 2 ^ 62" and "ld_pto_count ld < 62"
    and "\<forall>u. Some u \<in> set (ld_time_of_last_ack_eliciting ld) \<longrightarrow> u < 2 ^ 62"
    and "sent = {u. Some u \<in> set (ld_time_of_last_ack_eliciting ld)}"
  shows "pto_timeout ld t =
      (if (\<exists>l. has_ack_eliciting_in_flight t l) \<and> sent \<noteq> {}
       then Some (Max sent + pto_duration ld * 2 ^ ld_pto_count ld) else None)
    \<and> pto_timeout (on_pto ld) t =
      (if (\<exists>l. has_ack_eliciting_in_flight t l) \<and> sent \<noteq> {}
       then Some (Max sent + 2 * (pto_duration ld * 2 ^ ld_pto_count ld)) else None)"
proof -
  let ?ts = "List.map_filter (\<lambda>x. x) (ld_time_of_last_ack_eliciting ld)"
  have ts: "set ?ts = sent" by (force simp: assms(4) List.map_filter_def)
  have lt: "latest_time None (ld_time_of_last_ack_eliciting ld) = (if sent = {} then None else Some (Max sent))"
    by (simp add: latest_time_Max ts flip: set_empty)
  have fin: "finite sent" unfolding ts [symmetric] by simp
  have mx: "Max sent < 2 ^ 62" if "sent \<noteq> {}"
    using Max_in [OF fin that] assms(3,4) by auto
  have ae: "list_ex (has_ack_eliciting_in_flight t) [Initial, Handshake, Application]
      \<longleftrightarrow> (\<exists>l. has_ack_eliciting_in_flight t l)"
    by simp (metis level.exhaust)
  have p1: "u64_mul (pto_duration ld) (2 ^ min (ld_pto_count ld) 62) = pto_duration ld * 2 ^ ld_pto_count ld"
    using assms(1,2) by simp
  have c: "ld_pto_count (on_pto ld) = ld_pto_count ld + 1" using assms(2) by (simp add: on_pto_def)
  have dur: "pto_duration (on_pto ld) = pto_duration ld"
    by (simp add: pto_duration_def smoothed_rtt_def on_pto_def split: option.split)
  have "pto_duration ld * 2 ^ (ld_pto_count ld + 1) < 2 ^ 63" using assms(1) by simp
  then have p2: "u64_mul (pto_duration (on_pto ld)) (2 ^ min (ld_pto_count (on_pto ld)) 62)
      = 2 * (pto_duration ld * 2 ^ ld_pto_count ld)"
    using assms(2) by (simp add: c dur)
  have tl: "ld_time_of_last_ack_eliciting (on_pto ld) = ld_time_of_last_ack_eliciting ld"
    by (simp add: on_pto_def)
  have add: "u64_add (Max sent) (pto_duration ld * 2 ^ ld_pto_count ld)
        = Max sent + pto_duration ld * 2 ^ ld_pto_count ld"
      "u64_add (Max sent) (2 * (pto_duration ld * 2 ^ ld_pto_count ld))
        = Max sent + 2 * (pto_duration ld * 2 ^ ld_pto_count ld)" if "sent \<noteq> {}"
    using mx [OF that] assms(1) by simp_all
  show ?thesis
    unfolding pto_timeout_def Let_def ae lt p1 p2 tl using add by auto
qed

theorem pto_timeout_spec_witness:
  "pto_timeout (on_pto (on_ack_eliciting_sent (loss_new 25000) Application 7))
     \<lparr>trk_capacity = 8, trk_entries = [pkt_of 2]\<rparr> = Some (7 + 2 * 1024000)"
proof -
  let ?ld = "on_ack_eliciting_sent (loss_new 25000) Application 7"
  have d: "pto_duration ?ld = 1024000" and c: "ld_pto_count ?ld = 0"
    and t: "ld_time_of_last_ack_eliciting ?ld = [None, None, Some 7]"
    by (simp_all add: pto_duration_def smoothed_rtt_def on_ack_eliciting_sent_def loss_new_def Let_def
        DEFAULT_INITIAL_RTT_def GRANULARITY_def)
  have "\<exists>l. has_ack_eliciting_in_flight \<lparr>trk_capacity = 8, trk_entries = [pkt_of 2]\<rparr> l"
    by (simp add: has_ack_eliciting_in_flight_def pkt_of_def)
  with pto_timeout_spec [OF _ _ _ refl, of ?ld "\<lparr>trk_capacity = 8, trk_entries = [pkt_of 2]\<rparr>"]
  show ?thesis by (simp add: d c t)
qed

end
