(* ===== verification/Congestion.thy ===== *)
theory Congestion
  imports Milli_Prelude
begin

text \<open>
  The NewReno congestion controller (\<^verbatim>\<open>src/transport/congestion.rs\<close>). Growth divides by the window,
  so the bound below on the window is also what keeps the code from panicking.
\<close>

section \<open>The code\<close>

record congestion =
  cwnd :: nat
  ssthresh :: nat
  bytes_in_flight :: nat
  recovery_start_time :: "nat option"
  persistent_congestion_threshold :: nat
  max_datagram_size :: nat
  minimum_window :: nat

definition congestion_new :: "nat \<Rightarrow> congestion" where
  "congestion_new mds =
    (let min_window = u64_mul 2 mds;
         initial_window = max (u64_mul 10 mds) 14720
     in \<lparr>cwnd = initial_window, ssthresh = u64_MAX, bytes_in_flight = 0, recovery_start_time = None,
         persistent_congestion_threshold = 0, max_datagram_size = mds, minimum_window = min_window\<rparr>)"

definition can_send :: "congestion \<Rightarrow> nat \<Rightarrow> bool" where
  "can_send cc bytes \<longleftrightarrow> u64_add (bytes_in_flight cc) bytes \<le> cwnd cc"

definition available_window :: "congestion \<Rightarrow> nat" where
  "available_window cc = cwnd cc - bytes_in_flight cc"

definition cc_on_packet_sent :: "congestion \<Rightarrow> nat \<Rightarrow> congestion" where
  "cc_on_packet_sent cc bytes = cc\<lparr>bytes_in_flight := u64_add (bytes_in_flight cc) bytes\<rparr>"

definition remove_from_flight :: "congestion \<Rightarrow> nat \<Rightarrow> congestion" where
  "remove_from_flight cc bytes = cc\<lparr>bytes_in_flight := bytes_in_flight cc - bytes\<rparr>"

definition in_slow_start :: "congestion \<Rightarrow> bool" where
  "in_slow_start cc \<longleftrightarrow> cwnd cc < ssthresh cc"

definition in_recovery :: "congestion \<Rightarrow> nat \<Rightarrow> bool" where
  "in_recovery cc sent_time =
    (case recovery_start_time cc of Some start \<Rightarrow> sent_time \<le> start | None \<Rightarrow> False)"

text \<open>The argument \<^verbatim>\<open>_now\<close> of \<^verbatim>\<open>on_packet_acked\<close> is unused by the code.\<close>

definition on_packet_acked :: "congestion \<Rightarrow> nat \<Rightarrow> nat \<Rightarrow> congestion res" where
  "on_packet_acked cc bytes sent_time =
    (let cc = remove_from_flight cc bytes
     in if (case recovery_start_time cc of Some recovery_start \<Rightarrow> sent_time \<le> recovery_start
            | None \<Rightarrow> False)
        then Ok cc
        else if in_slow_start cc then Ok (cc\<lparr>cwnd := u64_add (cwnd cc) bytes\<rparr>)
        else if cwnd cc = 0 then Panic
        else Ok (cc\<lparr>cwnd := u64_add (cwnd cc) (u64_mul (max_datagram_size cc) bytes div cwnd cc)\<rparr>))"

definition on_packet_lost :: "congestion \<Rightarrow> nat \<Rightarrow> nat \<Rightarrow> nat \<Rightarrow> congestion" where
  "on_packet_lost cc bytes sent_time now =
    (let cc = remove_from_flight cc bytes
     in if in_recovery cc sent_time then cc
        else let thresh = max (cwnd cc div 2) (minimum_window cc)
             in cc\<lparr>recovery_start_time := Some now, ssthresh := thresh, cwnd := thresh\<rparr>)"

definition on_persistent_congestion :: "congestion \<Rightarrow> congestion" where
  "on_persistent_congestion cc = cc\<lparr>cwnd := minimum_window cc, recovery_start_time := None\<rparr>"

definition set_persistent_congestion_threshold :: "congestion \<Rightarrow> nat \<Rightarrow> congestion" where
  "set_persistent_congestion_threshold cc threshold = cc\<lparr>persistent_congestion_threshold := threshold\<rparr>"

section \<open>Invariant\<close>

definition cc_inv :: "congestion \<Rightarrow> bool" where
  "cc_inv cc \<longleftrightarrow> 0 < max_datagram_size cc \<and> max_datagram_size cc < 2 ^ 16
     \<and> minimum_window cc = 2 * max_datagram_size cc \<and> minimum_window cc \<le> cwnd cc
     \<and> minimum_window cc \<le> ssthresh cc"

lemma cc_inv_new [inv_rules]: "0 < mds \<Longrightarrow> mds < 2 ^ 16 \<Longrightarrow> cc_inv (congestion_new mds)"
  by (simp add: cc_inv_def congestion_new_def Let_def)

lemma cc_inv_sent [inv_rules]: "cc_inv cc \<Longrightarrow> cc_inv (cc_on_packet_sent cc n)"
  by (simp add: cc_inv_def cc_on_packet_sent_def)

lemma cc_inv_lost [inv_rules]: "cc_inv cc \<Longrightarrow> cc_inv (on_packet_lost cc n t now)"
  by (auto simp: cc_inv_def on_packet_lost_def remove_from_flight_def Let_def)

lemma cc_inv_persistent [inv_rules]: "cc_inv cc \<Longrightarrow> cc_inv (on_persistent_congestion cc)"
  by (simp add: cc_inv_def on_persistent_congestion_def)

text \<open>In congestion avoidance an acknowledgment adds at most half its bytes.\<close>

lemma avoidance_growth:
  assumes "cc_inv cc" and "bytes < 2 ^ 16"
  shows "u64_mul (max_datagram_size cc) bytes div cwnd cc \<le> bytes div 2"
proof -
  have m: "max_datagram_size cc < 2 ^ 16" and w: "2 * max_datagram_size cc \<le> cwnd cc"
    and pos: "0 < max_datagram_size cc"
    using assms(1) by (auto simp: cc_inv_def)
  have "max_datagram_size cc * bytes < 2 ^ 16 * 2 ^ 16"
    using m assms(2) by (intro mult_strict_mono) auto
  then have "u64_mul (max_datagram_size cc) bytes = max_datagram_size cc * bytes"
    by (intro u64_mul_exact) simp
  moreover have "max_datagram_size cc * bytes div cwnd cc \<le> max_datagram_size cc * bytes div (2 * max_datagram_size cc)"
    using w pos by (intro div_le_mono2) auto
  moreover have "max_datagram_size cc * bytes div (2 * max_datagram_size cc) = bytes div 2"
    using pos by (metis mult.commute div_mult_mult1 less_numeral_extra(3))
  ultimately show ?thesis by simp
qed

lemma acked_cases:
  assumes "cc_inv cc" and "bytes < 2 ^ 16" and "cwnd cc + bytes < 2 ^ 64"
  obtains cc' where "on_packet_acked cc bytes t = Ok cc'" and "cc_inv cc'"
    and "bytes_in_flight cc' = bytes_in_flight cc - bytes"
    and "cwnd cc \<le> cwnd cc'" and "cwnd cc' \<le> cwnd cc + bytes"
    and "ssthresh cc' = ssthresh cc" and "recovery_start_time cc' = recovery_start_time cc"
    and "in_recovery cc t \<Longrightarrow> cwnd cc' = cwnd cc"
proof -
  have g: "u64_mul (max_datagram_size cc) bytes div cwnd cc \<le> bytes div 2" (is "?g \<le> _")
    using avoidance_growth [OF assms(1,2)] .
  then have "u64_add (cwnd cc) ?g = cwnd cc + ?g" using assms(3) by (intro u64_add_exact) linarith
  moreover have "cwnd cc \<noteq> 0" using assms(1) by (auto simp: cc_inv_def)
  ultimately show thesis
    using assms g
    by (intro that [of "(case on_packet_acked cc bytes t of Ok x \<Rightarrow> x | _ \<Rightarrow> cc)"])
       (auto simp: on_packet_acked_def remove_from_flight_def in_slow_start_def in_recovery_def
         cc_inv_def Let_def split: option.splits)
qed

section \<open>Properties\<close>

text \<open>
  C12: Congestion window. Acknowledgments never panic, never shrink the window and grow it by at
  most the acknowledged bytes (not at all for packets sent before the recovery period); a loss
  halves the window but never below the minimum, once per recovery period: further losses of
  packets sent up to its start leave the window alone. The minimum window is kept throughout.
\<close>

theorem congestion_window_bounds:
  assumes "cc_inv cc" and "bytes < 2 ^ 16" and "cwnd cc + bytes < 2 ^ 64"
  shows "(\<exists>cc'. on_packet_acked cc bytes t = Ok cc' \<and> cc_inv cc'
        \<and> bytes_in_flight cc' = bytes_in_flight cc - bytes
        \<and> cwnd cc \<le> cwnd cc' \<and> cwnd cc' \<le> cwnd cc + bytes
        \<and> (in_recovery cc t \<longrightarrow> cwnd cc' = cwnd cc))
    \<and> cc_inv (on_packet_lost cc bytes t now)
    \<and> bytes_in_flight (on_packet_lost cc bytes t now) = bytes_in_flight cc - bytes
    \<and> cwnd (on_packet_lost cc bytes t now) =
        (if in_recovery cc t then cwnd cc else max (cwnd cc div 2) (minimum_window cc))
    \<and> (t2 \<le> now \<longrightarrow> \<not> in_recovery cc t \<longrightarrow>
        cwnd (on_packet_lost (on_packet_lost cc bytes t now) b2 t2 now2)
          = cwnd (on_packet_lost cc bytes t now))"
proof -
  have "cwnd (on_packet_lost cc bytes t now) =
        (if in_recovery cc t then cwnd cc else max (cwnd cc div 2) (minimum_window cc))"
    and "bytes_in_flight (on_packet_lost cc bytes t now) = bytes_in_flight cc - bytes"
    and "t2 \<le> now \<Longrightarrow> \<not> in_recovery cc t \<Longrightarrow>
        cwnd (on_packet_lost (on_packet_lost cc bytes t now) b2 t2 now2)
          = cwnd (on_packet_lost cc bytes t now)"
    by (auto simp: on_packet_lost_def remove_from_flight_def in_recovery_def Let_def split: option.splits)
  with cc_inv_lost [OF assms(1)] acked_cases [OF assms, of t] show ?thesis by metis
qed

theorem congestion_window_bounds_witness:
  "cwnd (on_packet_lost (on_packet_lost (congestion_new 1200) 1200 5 9) 1200 7 10) = 7360"
  using congestion_window_bounds [OF cc_inv_new [of 1200], of 1200 5 9 7 1200 10]
  by (simp add: congestion_new_def in_recovery_def)

end
