(* ===== verification/Recv_Pn.thy ===== *)
theory Recv_Pn
  imports Frame Recovery
begin

text \<open>
  The received packet numbers of a packet number space (\<^verbatim>\<open>RecvPnTracker\<close> in
  \<^verbatim>\<open>src/connection/mod.rs\<close>) and the ACK frame built from them (\<^verbatim>\<open>build_ack_frame\<close> in
  \<^verbatim>\<open>src/connection/transmit.rs\<close>). The tracker holds at most 32 disjoint, non-adjacent ranges in
  ascending order and a floor below which everything counts as received.
\<close>

section \<open>The code\<close>

record recv_pn_tracker =
  rp_ranges :: "(nat \<times> nat) list"
  rp_floor :: "nat option"

definition recv_pn_new :: recv_pn_tracker where
  "recv_pn_new = \<lparr>rp_ranges = [], rp_floor = None\<rparr>"

definition largest :: "recv_pn_tracker \<Rightarrow> nat option" where
  "largest t = (if rp_ranges t = [] then None else Some (snd (last (rp_ranges t))))"

text \<open>
  The loop of \<^verbatim>\<open>record\<close>: \<open>None\<close> when the number is already tracked (the early return), otherwise
  the indices of the ranges it extends at the upper and at the lower end.
\<close>

fun scan_ranges ::
  "nat \<Rightarrow> nat \<Rightarrow> (nat \<times> nat) list \<Rightarrow> nat option \<Rightarrow> nat option \<Rightarrow> (nat option \<times> nat option) option" where
  "scan_ranges pn i [] merge_left merge_right = Some (merge_left, merge_right)"
| "scan_ranges pn i ((start, fin) # ranges) merge_left merge_right =
    (if pn \<ge> start \<and> pn \<le> fin then None
     else scan_ranges pn (i + 1) ranges
            (if pn = u64_add fin 1 then Some i else merge_left)
            (if u64_add pn 1 = start then Some i else merge_right))"

definition vec_remove :: "'a list \<Rightarrow> nat \<Rightarrow> 'a list" where
  "vec_remove xs i = take i xs @ drop (i + 1) xs"

text \<open>\<^verbatim>\<open>insert_range\<close>: push, then rotate the tail right by one.\<close>

definition insert_range :: "(nat \<times> nat) list \<Rightarrow> nat \<Rightarrow> nat \<Rightarrow> (nat \<times> nat) list" where
  "insert_range ranges start fin =
    (let pos = (case position (\<lambda>(s, _). s > start) ranges of Some i \<Rightarrow> i | None \<Rightarrow> length ranges);
         ranges = push_cap 32 ranges (start, fin)
     in if pos < length ranges - 1
        then take pos ranges @ [last ranges] @ butlast (drop pos ranges) else ranges)"

definition record_pn :: "recv_pn_tracker \<Rightarrow> nat \<Rightarrow> recv_pn_tracker" where
  "record_pn t pn =
    (if (case rp_floor t of Some f \<Rightarrow> pn \<le> f | None \<Rightarrow> False) then t
     else case scan_ranges pn 0 (rp_ranges t) None None of
       None \<Rightarrow> t
     | Some (Some li, Some ri) \<Rightarrow>
         let new_start = fst (rp_ranges t ! li);
             new_end = snd (rp_ranges t ! ri);
             (first_rm, second_rm) = (if li < ri then (ri, li) else (li, ri));
             ranges = vec_remove (vec_remove (rp_ranges t) first_rm) second_rm
         in t\<lparr>rp_ranges := insert_range ranges new_start new_end\<rparr>
     | Some (Some li, None) \<Rightarrow>
         t\<lparr>rp_ranges := (rp_ranges t)[li := (fst (rp_ranges t ! li), pn)]\<rparr>
     | Some (None, Some ri) \<Rightarrow>
         t\<lparr>rp_ranges := (rp_ranges t)[ri := (pn, snd (rp_ranges t ! ri))]\<rparr>
     | Some (None, None) \<Rightarrow>
         let t = (if length (rp_ranges t) \<ge> 32
                  then let dropped = rp_ranges t ! 0
                       in t\<lparr>rp_ranges := vec_remove (rp_ranges t) 0,
                            rp_floor := Some (case rp_floor t of None \<Rightarrow> snd dropped
                                              | Some f \<Rightarrow> max f (snd dropped))\<rparr>
                  else t)
         in t\<lparr>rp_ranges := insert_range (rp_ranges t) pn pn\<rparr>)"

definition contains :: "recv_pn_tracker \<Rightarrow> nat \<Rightarrow> bool" where
  "contains t pn \<longleftrightarrow> (case rp_floor t of Some f \<Rightarrow> pn \<le> f | None \<Rightarrow> False)
     \<or> list_ex (\<lambda>(start, fin). pn \<ge> start \<and> pn \<le> fin) (rp_ranges t)"

text \<open>
  \<^verbatim>\<open>build_ack_frame\<close>: the ranges below the highest, from the next-highest down, as pairs of varints
  in a buffer of 256 bytes. A \<^verbatim>\<open>break\<close> leaves the loop with what has been written so far.
\<close>

fun build_ranges :: "nat \<Rightarrow> (nat \<times> nat) list \<Rightarrow> cursor \<Rightarrow> cursor" where
  "build_ranges prev_smallest [] c = c"
| "build_ranges prev_smallest ((r_start, r_end) # ranges) c =
    (case put_varint (u64_sub (u64_sub prev_smallest r_end) 2) c of
       Ok c1 \<Rightarrow>
         (case put_varint (u64_sub r_end r_start) c1 of
            Ok c2 \<Rightarrow> build_ranges r_start ranges c2
          | _ \<Rightarrow> c1)
     | _ \<Rightarrow> c)"

definition build_ack_frame :: "recv_pn_tracker \<Rightarrow> bytes \<Rightarrow> cursor option" where
  "build_ack_frame t buf =
    (if rp_ranges t = [] then None
     else
       let (highest_start, highest_end) = last (rp_ranges t);
           (range_buf, range_pos) =
             build_ranges highest_start (rev (butlast (rp_ranges t))) (replicate 256 0, 0);
           ack = \<lparr>largest_ack = highest_end, ack_delay = 0,
                  first_ack_range = u64_sub highest_end highest_start,
                  ack_ranges = take range_pos range_buf, ecn = None\<rparr>
       in case encode (Ack ack) buf of Ok c \<Rightarrow> Some c | _ \<Rightarrow> None)"

text \<open>The receiver of the frame collects at most 16 of the additional ranges.\<close>

function ack_pairs :: "bytes \<Rightarrow> (nat \<times> nat) list \<Rightarrow> (nat \<times> nat) list res" where
  "ack_pairs buf ranges =
    (case ack_range_next buf of
       None \<Rightarrow> Ok ranges
     | Some (Ok pair, rest) \<Rightarrow>
         if length rest < length buf then ack_pairs rest (push_cap 16 ranges pair) else Panic
     | Some (Err e, _) \<Rightarrow> Err e
     | Some (Panic, _) \<Rightarrow> Panic)"
  by pat_completeness auto
termination
  by (relation "measure (\<lambda>(buf, ranges). length buf)") auto

declare ack_pairs.simps [simp del]

section \<open>Invariant\<close>

text \<open>Ascending, disjoint and not adjacent.\<close>

fun separated :: "(nat \<times> nat) list \<Rightarrow> bool" where
  "separated [] = True"
| "separated [(s, e)] \<longleftrightarrow> s \<le> e"
| "separated ((s, e) # (s', e') # rs) \<longleftrightarrow> s \<le> e \<and> e + 1 < s' \<and> separated ((s', e') # rs)"

definition rp_inv :: "recv_pn_tracker \<Rightarrow> bool" where
  "rp_inv t \<longleftrightarrow> separated (rp_ranges t) \<and> length (rp_ranges t) \<le> 32
     \<and> (\<forall>(s, e) \<in> set (rp_ranges t). e < 2 ^ 63)"

lemma separated_Cons:
  "separated ((s, e) # rs) \<longleftrightarrow> s \<le> e \<and> (\<forall>(s', e') \<in> set rs. e + 1 < s') \<and> separated rs"
proof (induction rs arbitrary: s e)
  case (Cons r rs)
  obtain s' e' where r: "r = (s', e')" by force
  show ?case unfolding r using Cons.IH [of s' e'] Cons.IH [of s e] by auto
qed simp

lemma separated_append:
  "separated (xs @ ys) \<longleftrightarrow> separated xs \<and> separated ys
     \<and> (\<forall>(s, e) \<in> set xs. \<forall>(s', e') \<in> set ys. e + 1 < s')"
proof (induction xs)
  case (Cons x xs)
  obtain s e where "x = (s, e)" by force
  with Cons show ?case by (auto simp: separated_Cons)
qed simp

section \<open>One step of the tracker\<close>

definition covers :: "(nat \<times> nat) list \<Rightarrow> nat \<Rightarrow> bool" where
  "covers rs pn \<longleftrightarrow> (\<exists>(s, e) \<in> set rs. s \<le> pn \<and> pn \<le> e)"

lemma covers_simps [simp]:
  "\<not> covers [] q" "covers ((s, e) # rs) q \<longleftrightarrow> s \<le> q \<and> q \<le> e \<or> covers rs q"
  "covers (xs @ ys) q \<longleftrightarrow> covers xs q \<or> covers ys q"
  by (auto simp: covers_def)

lemma contains_covers:
  "contains t q \<longleftrightarrow> (case rp_floor t of Some f \<Rightarrow> q \<le> f | None \<Rightarrow> False) \<or> covers (rp_ranges t) q"
  by (auto simp: contains_def covers_def list_ex_iff)

text \<open>The ranges split at a number that none of them covers.\<close>

definition below :: "(nat \<times> nat) list \<Rightarrow> nat \<Rightarrow> bool" where
  "below xs pn \<longleftrightarrow> (\<forall>(s, e) \<in> set xs. s \<le> e \<and> e < pn)"

definition above :: "(nat \<times> nat) list \<Rightarrow> nat \<Rightarrow> bool" where
  "above ys pn \<longleftrightarrow> (\<forall>(s, e) \<in> set ys. s \<le> e \<and> pn < s)"

lemma split_ranges:
  assumes "separated rs" and "\<not> covers rs pn"
  obtains xs ys where "rs = xs @ ys" and "below xs pn" and "above ys pn"
  using assms
proof (induction rs arbitrary: thesis)
  case Nil
  show ?case by (rule Nil(1) [of "[]" "[]"]) (simp_all add: below_def above_def)
next
  case (Cons r rs)
  obtain s e where r: "r = (s, e)" by force
  show ?case
  proof (cases "pn < s")
    case True
    then have "above (r # rs) pn"
      using Cons.prems(2) unfolding r above_def
      by (induction rs) (auto simp: separated_Cons split: prod.splits)
    then show ?thesis by (intro Cons.prems(1) [of "[]" "r # rs"]) (simp_all add: below_def)
  next
    case False
    then have e: "s \<le> e" "e < pn" using Cons.prems(2,3) by (auto simp: r separated_Cons)
    obtain xs ys where "rs = xs @ ys" "below xs pn" "above ys pn"
      using Cons.IH Cons.prems(2,3) by (auto simp: r separated_Cons)
    with e show ?thesis by (intro Cons.prems(1) [of "r # xs" ys]) (auto simp: r below_def)
  qed
qed

lemma scan_below:
  assumes "separated xs" and "below xs pn" and "pn < 2 ^ 63"
  shows "scan_ranges pn i (xs @ ys) ml mr = scan_ranges pn (i + length xs) ys
    (if xs \<noteq> [] \<and> snd (last xs) + 1 = pn then Some (i + length xs - 1) else ml) mr"
  using assms
proof (induction xs arbitrary: i ml)
  case (Cons x xs)
  obtain s e where x: "x = (s, e)" by force
  have e: "s \<le> e" "e < pn" and b: "below xs pn" and sep: "separated xs"
    using Cons.prems by (auto simp: x below_def separated_Cons)
  have far: "xs \<noteq> [] \<Longrightarrow> e + 1 \<noteq> pn"
    using Cons.prems by (cases xs) (auto simp: x below_def separated_Cons)
  have "scan_ranges pn i ((x # xs) @ ys) ml mr
      = scan_ranges pn (i + 1) (xs @ ys) (if pn = e + 1 then Some i else ml) mr"
    using e Cons.prems(3) by (auto simp: x)
  also have "\<dots> = scan_ranges pn (i + 1 + length xs) ys
      (if xs \<noteq> [] \<and> snd (last xs) + 1 = pn then Some (i + 1 + length xs - 1)
       else if pn = e + 1 then Some i else ml) mr"
    by (rule Cons.IH [OF sep b Cons.prems(3)])
  finally show ?case using far by (cases "xs = []") (auto simp: x)
qed simp

lemma scan_above:
  assumes "separated ys" and "above ys pn" and "pn < 2 ^ 63" and "\<forall>(s, e) \<in> set ys. e < 2 ^ 63"
  shows "scan_ranges pn i ys ml mr
    = Some (ml, if ys \<noteq> [] \<and> fst (hd ys) = pn + 1 then Some i else mr)"
  using assms
proof (induction ys arbitrary: i mr)
  case (Cons y ys)
  obtain s e where y: "y = (s, e)" by force
  have e: "s \<le> e" "pn < s" "e < 2 ^ 63" and b: "above ys pn" and sep: "separated ys"
    and big: "\<forall>(s, e) \<in> set ys. e < 2 ^ 63"
    using Cons.prems by (auto simp: y above_def separated_Cons)
  have far: "ys \<noteq> [] \<Longrightarrow> fst (hd ys) \<noteq> pn + 1"
    using Cons.prems by (cases ys) (auto simp: y above_def separated_Cons)
  have "scan_ranges pn i (y # ys) ml mr = scan_ranges pn (i + 1) ys ml (if pn + 1 = s then Some i else mr)"
    using e Cons.prems(3) by (auto simp: y)
  also have "\<dots> = Some (ml, if ys \<noteq> [] \<and> fst (hd ys) = pn + 1 then Some (i + 1)
      else if pn + 1 = s then Some i else mr)"
    by (rule Cons.IH [OF sep b Cons.prems(3) big])
  finally show ?case using far by (auto simp: y)
qed simp

lemma scan_covered: "covers rs pn \<Longrightarrow> scan_ranges pn i rs ml mr = None"
  by (induction pn i rs ml mr rule: scan_ranges.induct) auto

lemma insert_range_split:
  assumes "\<forall>(s, e) \<in> set xs. s \<le> start" and "\<forall>(s, e) \<in> set ys. start < s"
    and "length xs + length ys < 32"
  shows "insert_range (xs @ ys) start fin = xs @ (start, fin) # ys"
proof -
  have "position (\<lambda>(s, _). s > start) (xs @ ys) = (if ys = [] then None else Some (length xs))"
    using assms(1,2)
  proof (induction xs)
    case Nil
    then show ?case by (cases ys) auto
  next
    case (Cons x xs)
    then show ?case by (auto split: prod.splits)
  qed
  then show ?thesis
    using assms(3) by (cases "ys = []") (auto simp: insert_range_def push_cap_def Let_def butlast_append)
qed

text \<open>The ranges after the number has been joined in.\<close>

definition touches_left :: "(nat \<times> nat) list \<Rightarrow> nat \<Rightarrow> bool" where
  "touches_left xs pn \<longleftrightarrow> xs \<noteq> [] \<and> snd (last xs) + 1 = pn"

definition touches_right :: "(nat \<times> nat) list \<Rightarrow> nat \<Rightarrow> bool" where
  "touches_right ys pn \<longleftrightarrow> ys \<noteq> [] \<and> fst (hd ys) = pn + 1"

definition join :: "(nat \<times> nat) list \<Rightarrow> nat \<Rightarrow> (nat \<times> nat) list \<Rightarrow> (nat \<times> nat) list" where
  "join xs pn ys =
    (if touches_left xs pn then butlast xs else xs)
    @ (if touches_left xs pn then fst (last xs) else pn, if touches_right ys pn then snd (hd ys) else pn)
    # (if touches_right ys pn then tl ys else ys)"

lemma join_covers:
  assumes "below xs pn" and "above ys pn"
  shows "covers (join xs pn ys) q \<longleftrightarrow> covers (xs @ ys) q \<or> q = pn"
proof -
  have l: "touches_left xs pn \<Longrightarrow> \<exists>xs0 a. xs = xs0 @ [(a, pn - 1)] \<and> a < pn"
    using assms(1) by (cases xs rule: rev_cases) (auto simp: touches_left_def below_def)
  have r: "touches_right ys pn \<Longrightarrow> \<exists>ys0 d. ys = (pn + 1, d) # ys0 \<and> pn < d"
    using assms(2) by (cases ys) (auto simp: touches_right_def above_def)
  show ?thesis using l r
    by (cases "touches_left xs pn"; cases "touches_right ys pn") (auto simp: join_def)
qed

lemma join_separated:
  assumes "separated (xs @ ys)" and "below xs pn" and "above ys pn"
  shows "separated (join xs pn ys)"
proof -
  have l: "touches_left xs pn \<Longrightarrow> \<exists>xs0 a. xs = xs0 @ [(a, pn - 1)] \<and> a < pn"
    using assms(2) by (cases xs rule: rev_cases) (auto simp: touches_left_def below_def)
  have r: "touches_right ys pn \<Longrightarrow> \<exists>ys0 d. ys = (pn + 1, d) # ys0 \<and> pn < d"
    using assms(3) by (cases ys) (auto simp: touches_right_def above_def)
  have nl: "\<forall>(s, e) \<in> set xs. e + 1 < pn" if "\<not> touches_left xs pn"
    using that assms(1,2) by (cases xs rule: rev_cases)
      (fastforce simp: touches_left_def below_def separated_append)+
  have nr: "\<forall>(s, e) \<in> set ys. pn + 1 < s" if "\<not> touches_right ys pn"
    using that assms(1,3) by (cases ys)
      (fastforce simp: touches_right_def above_def separated_append separated_Cons)+
  show ?thesis
    using l r nl nr assms
    by (cases "touches_left xs pn"; cases "touches_right ys pn";
        auto simp: join_def separated_append separated_Cons) fastforce+
qed

lemma join_length:
  "length (join xs pn ys) + (if touches_left xs pn then 1 else 0) + (if touches_right ys pn then 1 else 0)
     = length xs + length ys + 1"
  by (auto simp: join_def touches_left_def touches_right_def neq_Nil_conv)

lemma join_bound:
  assumes "\<forall>(s, e) \<in> set (xs @ ys). e < b" and "pn < b"
  shows "\<forall>(s, e) \<in> set (join xs pn ys). e < b"
proof -
  have "ys \<noteq> [] \<Longrightarrow> snd (hd ys) < b" using assms(1) by (cases ys) auto
  with assms show ?thesis
    by (auto simp: join_def touches_right_def dest: in_set_butlastD list.set_sel(2))
qed

text \<open>Dropping the lowest range keeps the split, and makes nothing adjacent to the number.\<close>

lemma evict_split:
  assumes "separated (xs @ ys)" and "below xs pn" and "above ys pn"
    and "\<not> touches_left xs pn" and "\<not> touches_right ys pn" and "xs @ ys = r # rest"
  obtains xs' ys' where "rest = xs' @ ys'" and "below xs' pn" and "above ys' pn"
    and "\<not> touches_left xs' pn" and "\<not> touches_right ys' pn"
proof (cases xs)
  case Nil
  then have "ys = r # rest" using assms(6) by simp
  moreover have "\<not> touches_right rest pn"
    using assms(1,3) Nil calculation
    by (cases r; cases rest) (auto simp: touches_right_def separated_Cons above_def)
  ultimately show thesis
    using assms(3) by (intro that [of "[]" rest]) (auto simp: below_def above_def touches_left_def)
next
  case (Cons x xs1)
  then show thesis
    using assms by (intro that [of xs1 ys]) (auto simp: below_def touches_left_def split: if_splits)
qed

lemma record_pn_known: "contains t pn \<Longrightarrow> record_pn t pn = t"
  by (auto simp: record_pn_def contains_covers scan_covered split: option.splits)

lemma record_pn_new:
  assumes "rp_inv t" and "pn < 2 ^ 63" and "\<not> contains t pn"
  obtains (join) xs ys where "rp_ranges t = xs @ ys" and "below xs pn" and "above ys pn"
      and "record_pn t pn = t\<lparr>rp_ranges := join xs pn ys\<rparr>" and "length (join xs pn ys) \<le> 32"
  | (evict) r rs xs ys f where "rp_ranges t = r # rs" and "rs = xs @ ys" and "below xs pn" and "above ys pn"
      and "length (join xs pn ys) \<le> 32" and "snd r \<le> f" and "\<And>g. rp_floor t = Some g \<Longrightarrow> g \<le> f"
      and "record_pn t pn = t\<lparr>rp_ranges := join xs pn ys, rp_floor := Some f\<rparr>"
proof -
  have sep: "separated (rp_ranges t)" and len: "length (rp_ranges t) \<le> 32"
    and big: "\<forall>(s, e) \<in> set (rp_ranges t). e < 2 ^ 63"
    and fl: "(case rp_floor t of Some f \<Rightarrow> pn \<le> f | None \<Rightarrow> False) = False"
    and nc: "\<not> covers (rp_ranges t) pn"
    using assms(1,3) by (auto simp: rp_inv_def contains_covers)
  obtain xs ys where rs: "rp_ranges t = xs @ ys" and b: "below xs pn" and a: "above ys pn"
    using split_ranges [OF sep nc] .
  have scan: "scan_ranges pn 0 (rp_ranges t) None None =
      Some (if touches_left xs pn then Some (length xs - 1) else None,
            if touches_right ys pn then Some (length xs) else None)"
    using scan_below [of xs pn 0 ys None None] scan_above [of ys pn "length xs"] sep big a b assms(2)
    by (simp add: rs separated_append touches_left_def touches_right_def)
  have starts: "\<forall>(s, e) \<in> set xs. s \<le> pn" "\<forall>(s, e) \<in> set ys. pn < s"
    using a b by (auto simp: below_def above_def)
  consider (both) "touches_left xs pn" "touches_right ys pn"
    | (left) "touches_left xs pn" "\<not> touches_right ys pn"
    | (right) "\<not> touches_left xs pn" "touches_right ys pn"
    | (none) "\<not> touches_left xs pn" "\<not> touches_right ys pn" by blast
  then show thesis
  proof cases
    case both
    then obtain xs0 x c ys0 d where xs: "xs = xs0 @ [(x, c)]" and ys: "ys = (pn + 1, d) # ys0"
      by (cases xs rule: rev_cases; cases ys) (auto simp: touches_left_def touches_right_def)
    have "insert_range (xs0 @ ys0) x d = xs0 @ (x, d) # ys0"
      using sep len b a by (intro insert_range_split)
        (fastforce simp: rs xs ys separated_append separated_Cons below_def above_def)+
    then have "record_pn t pn = t\<lparr>rp_ranges := join xs pn ys\<rparr>"
      using both unfolding record_pn_def fl scan
      by (simp add: rs xs ys join_def vec_remove_def nth_append)
    then show thesis using join [OF rs b a] join_length [of xs pn ys] both len by (simp add: rs)
  next
    case left
    then obtain xs0 x c where xs: "xs = xs0 @ [(x, c)]"
      by (cases xs rule: rev_cases) (auto simp: touches_left_def)
    have "record_pn t pn = t\<lparr>rp_ranges := join xs pn ys\<rparr>"
      using left unfolding record_pn_def fl scan by (simp add: rs xs join_def nth_append list_update_append)
    then show thesis using join [OF rs b a] join_length [of xs pn ys] left len by (simp add: rs)
  next
    case right
    then obtain c d ys0 where ys: "ys = (c, d) # ys0" by (cases ys) (auto simp: touches_right_def)
    have "record_pn t pn = t\<lparr>rp_ranges := join xs pn ys\<rparr>"
      using right unfolding record_pn_def fl scan by (simp add: rs ys join_def nth_append list_update_append)
    then show thesis using join [OF rs b a] join_length [of xs pn ys] right len by (simp add: rs)
  next
    case none
    show thesis
    proof (cases "length (rp_ranges t) < 32")
      case True
      then have "record_pn t pn = t\<lparr>rp_ranges := join xs pn ys\<rparr>"
        using none starts insert_range_split [of xs pn ys pn] unfolding record_pn_def fl scan
        by (simp add: rs join_def)
      then show thesis using join [OF rs b a] join_length [of xs pn ys] none True by (simp add: rs)
    next
      case False
      define f where "f = (case rp_floor t of None \<Rightarrow> snd (rp_ranges t ! 0)
          | Some g \<Rightarrow> max g (snd (rp_ranges t ! 0)))"
      have f: "snd (rp_ranges t ! 0) \<le> f" "\<And>g. rp_floor t = Some g \<Longrightarrow> g \<le> f"
        by (auto simp: f_def split: option.splits)
      have rec: "record_pn t pn
          = t\<lparr>rp_ranges := insert_range (tl (rp_ranges t)) pn pn, rp_floor := Some f\<rparr>"
        using none False unfolding record_pn_def fl scan
        by (simp add: f_def vec_remove_def drop_Suc split: option.splits)
      obtain r rest where r: "rp_ranges t = r # rest" using False by (cases "rp_ranges t") auto
      obtain xs' ys' where s': "rest = xs' @ ys'" "below xs' pn" "above ys' pn"
          "\<not> touches_left xs' pn" "\<not> touches_right ys' pn"
        by (rule evict_split [OF _ b a none]) (use r rs sep in auto)
      have "\<forall>(s, e) \<in> set xs'. s \<le> pn" "\<forall>(s, e) \<in> set ys'. pn < s"
        using s'(2,3) by (auto simp: below_def above_def)
      then have "insert_range rest pn pn = join xs' pn ys'"
        using s' len r insert_range_split [of xs' pn ys' pn] by (simp add: join_def)
      then show thesis
        using evict [OF r s'(1-3), of f] join_length [of xs' pn ys'] len f rec s' by (simp add: r)
    qed
  qed
qed

lemma record_pn_props:
  assumes "rp_inv t" and "pn < 2 ^ 63"
  shows "rp_inv (record_pn t pn)" and "contains (record_pn t pn) pn"
    and "contains t q \<Longrightarrow> contains (record_pn t pn) q"
    and "contains (record_pn t pn) q \<Longrightarrow>
      contains t q \<or> q = pn \<or> (\<exists>f. rp_floor (record_pn t pn) = Some f \<and> q \<le> f)"
    and "rp_floor t = Some f \<Longrightarrow> \<exists>f' \<ge> f. rp_floor (record_pn t pn) = Some f'"
proof -
  have "rp_inv (record_pn t pn) \<and> contains (record_pn t pn) pn
    \<and> (contains t q \<longrightarrow> contains (record_pn t pn) q)
    \<and> (contains (record_pn t pn) q \<longrightarrow>
        contains t q \<or> q = pn \<or> (\<exists>f. rp_floor (record_pn t pn) = Some f \<and> q \<le> f))
    \<and> (rp_floor t = Some f \<longrightarrow> (\<exists>f' \<ge> f. rp_floor (record_pn t pn) = Some f'))"
  proof (cases "contains t pn")
    case True
    then show ?thesis using assms by (auto simp: record_pn_known)
  next
    case False
    from assms this show ?thesis
    proof (cases rule: record_pn_new)
      case (join xs ys)
      have "rp_inv (record_pn t pn)"
        using assms join join_separated [of xs ys pn] join_bound [of xs ys "2 ^ 63" pn]
        by (simp add: rp_inv_def)
      moreover have "covers (join xs pn ys) q' \<longleftrightarrow> covers (xs @ ys) q' \<or> q' = pn" for q'
        by (rule join_covers [OF join(2,3)])
      ultimately show ?thesis using join by (auto simp: contains_covers)
    next
      case (evict r rs xs ys f')
      obtain s e where r: "r = (s, e)" by force
      have "separated (xs @ ys)" and "\<forall>(s, e) \<in> set (xs @ ys). e < 2 ^ 63"
        using assms(1) evict(1,2) by (auto simp: rp_inv_def r separated_Cons)
      then have "rp_inv (record_pn t pn)"
        using assms evict join_separated [of xs ys pn] join_bound [of xs ys "2 ^ 63" pn]
        by (simp add: rp_inv_def)
      moreover have "covers (join xs pn ys) q' \<longleftrightarrow> covers (xs @ ys) q' \<or> q' = pn" for q'
        by (rule join_covers [OF evict(3,4)])
      ultimately show ?thesis using evict r by (auto simp: contains_covers split: option.splits)
    qed
  qed
  then show "rp_inv (record_pn t pn)" and "contains (record_pn t pn) pn"
    and "contains t q \<Longrightarrow> contains (record_pn t pn) q"
    and "contains (record_pn t pn) q \<Longrightarrow>
      contains t q \<or> q = pn \<or> (\<exists>f. rp_floor (record_pn t pn) = Some f \<and> q \<le> f)"
    and "rp_floor t = Some f \<Longrightarrow> \<exists>f' \<ge> f. rp_floor (record_pn t pn) = Some f'"
    by blast+
qed

section \<open>The ACK frame of a tracker\<close>

text \<open>The gap and length pairs for a descending list of ranges below a range that starts at \<open>prev\<close>.\<close>

fun gaps :: "nat \<Rightarrow> (nat \<times> nat) list \<Rightarrow> (nat \<times> nat) list" where
  "gaps prev [] = []"
| "gaps prev ((s, e) # rs) = (prev - e - 2, e - s) # gaps s rs"

definition pairs_bytes :: "(nat \<times> nat) list \<Rightarrow> bytes" where
  "pairs_bytes ps = concat (map (\<lambda>(g, l). varint_bytes g @ varint_bytes l) ps)"

text \<open>A descending chain of ranges, each separated from the start of the one before it.\<close>

fun chain :: "nat \<Rightarrow> (nat \<times> nat) list \<Rightarrow> bool" where
  "chain prev [] = True"
| "chain prev ((s, e) # rs) \<longleftrightarrow> s \<le> e \<and> e + 1 < prev \<and> chain s rs"

lemma separated_chain:
  "separated (rs @ [(s, e)]) \<longleftrightarrow> s \<le> e \<and> chain s (rev rs)"
proof (induction rs arbitrary: s e rule: rev_induct)
  case (snoc r rs)
  obtain s' e' where r: "r = (s', e')" by force
  have "separated ((rs @ [r]) @ [(s, e)]) \<longleftrightarrow> separated (rs @ [(s', e')]) \<and> s \<le> e \<and> e' + 1 < s"
    unfolding r by (auto simp: separated_append)
  with snoc.IH [of s' e'] show ?case by (auto simp: r)
qed simp

lemma chain_take: "chain p rs \<Longrightarrow> chain p (take n rs)"
  by (induction p rs arbitrary: n rule: chain.induct) (auto simp: take_Cons')

lemma gaps_take: "gaps p (take n rs) = take n (gaps p rs)"
  by (induction p rs arbitrary: n rule: gaps.induct) (auto simp: take_Cons')

lemma length_gaps [simp]: "length (gaps p rs) = length rs"
  by (induction p rs rule: gaps.induct) auto

lemma chain_bound: "chain p rs \<Longrightarrow> (g, l) \<in> set (gaps p rs) \<Longrightarrow> g \<le> p \<and> l \<le> p"
  by (induction p rs rule: chain.induct) fastforce+

text \<open>The pairs denote the ranges.\<close>

lemma denoted_gaps:
  "chain prev rs \<Longrightarrow> not_negative (rfc_below (int prev) (gaps prev rs))
     \<and> (within (rfc_below (int prev) (gaps prev rs)) q \<longleftrightarrow> covers rs q)"
proof (induction prev rs rule: chain.induct)
  case (2 prev s e rs)
  then have se: "s \<le> e" "e + 1 < prev" by auto
  have "int prev - int (prev - e - 2) - 2 = int e" "int e - int (e - s) = int s" using se by auto
  then have "rfc_below (int prev) (gaps prev ((s, e) # rs)) = (int s, int e) # rfc_below (int s) (gaps s rs)"
    by (simp only: gaps.simps rfc_below.simps Let_def)
  with 2 show ?case by auto
qed simp

lemma build_ranges_wr:
  assumes "chain prev rs" and "prev \<le> 2 ^ 30" and "length out + 8 * length rs \<le> length buf"
  shows "build_ranges prev rs (wr buf out) = wr buf (out @ pairs_bytes (gaps prev rs))"
  using assms
proof (induction prev rs arbitrary: out rule: chain.induct)
  case (2 prev s e rs)
  then have se: "s \<le> e" "e + 1 < prev" and c: "chain s rs" by auto
  have e1: "u64_sub (u64_sub prev e) 2 = prev - e - 2" and e2: "u64_sub e s = e - s"
    using se 2(3) by (simp_all add: u64_sub_exact)
  have small: "varint_len v \<le> 4 \<and> v \<le> MAX_VARINT" if "v < 2 ^ 30" for v
    using that by (simp add: varint_len_def MAX_VARINT_def)
  have g: "prev - e - 2 < 2 ^ 30" "e - s < 2 ^ 30" using se 2(3) by linarith+
  have w1: "put_varint (prev - e - 2) (wr buf out) = Ok (wr buf (out @ varint_bytes (prev - e - 2)))"
    using small [OF g(1)] 2(4) by (intro put_varint_wr) auto
  have w2: "put_varint (e - s) (wr buf (out @ varint_bytes (prev - e - 2)))
      = Ok (wr buf ((out @ varint_bytes (prev - e - 2)) @ varint_bytes (e - s)))"
    using small [OF g(1)] small [OF g(2)] 2(4) by (intro put_varint_wr) auto
  have "build_ranges s rs (wr buf ((out @ varint_bytes (prev - e - 2)) @ varint_bytes (e - s)))
      = wr buf (((out @ varint_bytes (prev - e - 2)) @ varint_bytes (e - s)) @ pairs_bytes (gaps s rs))"
    using small [OF g(1)] small [OF g(2)] 2(3,4) se by (intro "2.IH" [OF c]) auto
  then show ?case using w1 w2 by (simp add: e1 e2 pairs_bytes_def)
qed (simp add: pairs_bytes_def)

lemma count_ranges_pairs:
  assumes "\<forall>(g, l) \<in> set ps. g \<le> MAX_VARINT \<and> l \<le> MAX_VARINT"
  shows "count_ranges (pairs_bytes ps) k = Ok (k + length ps)"
  using assms
proof (induction ps arbitrary: k)
  case (Cons p ps)
  obtain g l where p: "p = (g, l)" by force
  have d: "decode_varint (varint_bytes g @ varint_bytes l @ pairs_bytes ps) = Ok (g, length (varint_bytes g))"
      "decode_varint (varint_bytes l @ pairs_bytes ps) = Ok (l, length (varint_bytes l))"
    using Cons.prems by (auto simp: p decode_varint_bytes)
  have pb: "pairs_bytes (p # ps) = varint_bytes g @ varint_bytes l @ pairs_bytes ps"
    by (simp add: pairs_bytes_def p)
  show ?case using Cons unfolding pb by (subst count_ranges.simps) (simp add: d del: length_varint_bytes)
qed (simp add: pairs_bytes_def count_ranges.simps)

lemma ack_pairs_pairs:
  assumes "\<forall>(g, l) \<in> set ps. g \<le> MAX_VARINT \<and> l \<le> MAX_VARINT"
  shows "ack_pairs (pairs_bytes ps) acc = Ok (acc @ take (16 - length acc) ps)"
  using assms
proof (induction ps arbitrary: acc)
  case Nil
  show ?case by (subst ack_pairs.simps) (simp add: pairs_bytes_def ack_range_next_def)
next
  case (Cons p ps)
  obtain g l where p: "p = (g, l)" by force
  have d: "decode_varint (varint_bytes g @ varint_bytes l @ pairs_bytes ps) = Ok (g, length (varint_bytes g))"
      "decode_varint (varint_bytes l @ pairs_bytes ps) = Ok (l, length (varint_bytes l))"
    using Cons.prems by (auto simp: p decode_varint_bytes)
  have pb: "pairs_bytes (p # ps) = varint_bytes g @ varint_bytes l @ pairs_bytes ps"
    by (simp add: pairs_bytes_def p)
  have "ack_range_next (pairs_bytes (p # ps)) = Some (Ok p, pairs_bytes ps)"
    unfolding pb ack_range_next_def using d varint_bytes_nonempty [of g]
    by (simp add: p del: length_varint_bytes)
  then have "ack_pairs (pairs_bytes (p # ps)) acc = ack_pairs (pairs_bytes ps) (push_cap 16 acc p)"
    using varint_bytes_nonempty [of g] by (subst ack_pairs.simps) (simp add: pb)
  with Cons show ?case by (auto simp: push_cap_def take_Cons')
qed

text \<open>The frame that \<open>build_ack_frame\<close> writes.\<close>

lemma build_ack_frame_spec:
  assumes "rp_inv t" and "rp_ranges t = rs @ [(s, e)]" and "e < 2 ^ 30" and "300 \<le> length buf"
  defines "a \<equiv> \<lparr>largest_ack = e, ack_delay = 0, first_ack_range = e - s,
     ack_ranges = pairs_bytes (gaps s (rev rs)), ecn = None\<rparr>"
  shows "build_ack_frame t buf = Some (wr buf (frame_bytes (Ack a)))" and "wf_frame uw (Ack a)"
    and "length (frame_bytes (Ack a)) \<le> length buf"
proof -
  have se: "s \<le> e" and c: "chain s (rev rs)" and len: "length rs \<le> 31"
    using assms(1,2) separated_chain [of rs s e] by (auto simp: rp_inv_def)
  let ?ps = "gaps s (rev rs)"
  have small: "varint_len v \<le> 4 \<and> v \<le> MAX_VARINT" if "v < 2 ^ 30" for v
    using that by (simp add: varint_len_def MAX_VARINT_def)
  have ps: "\<forall>(g, l) \<in> set ?ps. g < 2 ^ 30 \<and> l < 2 ^ 30"
    using chain_bound [OF c] se assms(3) by fastforce
  then have psM: "\<forall>(g, l) \<in> set ?ps. g \<le> MAX_VARINT \<and> l \<le> MAX_VARINT" using small by fastforce
  have lps: "length ?ps = length rs" by simp
  have lpb: "length (pairs_bytes qs) \<le> 8 * length qs" if "\<forall>(g, l) \<in> set qs. g < 2 ^ 30 \<and> l < 2 ^ 30" for qs
    using that
  proof (induction qs)
    case (Cons q qs)
    obtain g l where q: "q = (g, l)" by force
    then show ?case using Cons small [of g] small [of l] by (simp add: pairs_bytes_def)
  qed (simp add: pairs_bytes_def)
  have cnt: "count_ranges (pairs_bytes ?ps) 0 = Ok (length rs)"
    using count_ranges_pairs [OF psM, of 0] lps by simp
  show wf: "wf_frame uw (Ack a)"
    using small [of e] small [of "e - s"] assms(3) cnt len
    by (simp add: a_def ranges_ok_def MAX_VARINT_def)
  have es: "e - s < 2 ^ 30" using assms(3) by linarith
  show fit: "length (frame_bytes (Ack a)) \<le> length buf"
    using lpb [OF ps] lps len small [of e] small [OF es] small [of "length rs"] assms(3,4)
      varint_len_le_8 [of 0] varint_len_le_8 [of 2]
    by (simp add: a_def ack_bytes_def range_count_def cnt)
  have "build_ranges s (rev rs) (wr (replicate 256 0) []) = wr (replicate 256 0) (pairs_bytes ?ps)"
    using build_ranges_wr [OF c, of "[]" "replicate 256 0"] se assms(3) len by simp
  then have "build_ranges s (rev rs) (replicate 256 0, 0) = (pairs_bytes ?ps @ drop (length (pairs_bytes ?ps)) (replicate 256 0), length (pairs_bytes ?ps))"
    by (simp add: wr_def)
  then show "build_ack_frame t buf = Some (wr buf (frame_bytes (Ack a)))"
    using encode_spec [OF wf fit] se assms(3) by (simp add: build_ack_frame_def assms(2) a_def)
qed

section \<open>Properties\<close>

text \<open>
  C13: Duplicate detection. After recording any sequence of packet numbers the tracker's ranges are
  disjoint, ascending and at most 32; every recorded number is contained, for good; and while
  nothing was evicted it contains exactly the recorded numbers. Once ranges were evicted, the
  only other numbers that count as received are those at or below the floor.
\<close>

theorem recv_pn_exact:
  assumes "\<forall>pn \<in> set pns. pn < 2 ^ 62" and "t = foldl record_pn recv_pn_new pns"
  shows "rp_inv t \<and> (\<forall>q \<in> set pns. contains t q)
    \<and> (\<forall>q. contains t q \<longrightarrow> q \<in> set pns \<or> (\<exists>f. rp_floor t = Some f \<and> q \<le> f))"
  using assms
proof (induction pns arbitrary: t rule: rev_induct)
  case Nil
  then show ?case by (simp add: recv_pn_new_def rp_inv_def contains_def)
next
  case (snoc pn pns)
  define u where "u = foldl record_pn recv_pn_new pns"
  have IH: "rp_inv u" "\<forall>q \<in> set pns. contains u q"
      "\<forall>q. contains u q \<longrightarrow> q \<in> set pns \<or> (\<exists>f. rp_floor u = Some f \<and> q \<le> f)"
    using snoc.IH [OF _ u_def] snoc.prems(1) by auto
  have pn: "pn < 2 ^ 63" using snoc.prems(1) by simp
  have t: "t = record_pn u pn" using snoc.prems(2) by (simp add: u_def)
  note step = record_pn_props [OF IH(1) pn]
  have "contains t q" if "q \<in> set (pns @ [pn])" for q
    using that IH(2) step(2,3) by (auto simp: t)
  moreover have "q \<in> set (pns @ [pn]) \<or> (\<exists>f. rp_floor t = Some f \<and> q \<le> f)" if "contains t q" for q
    using step(4) [of q] step(5) IH(3) that by (fastforce simp: t)
  ultimately show ?case using step(1) t by auto
qed

theorem recv_pn_exact_witness:
  "contains (foldl record_pn recv_pn_new [5, 3, 4, 9]) 4"
  using recv_pn_exact [OF _ refl, of "[5, 3, 4, 9]"] by simp

text \<open>
  C14: Acknowledgments end to end. The ACK frame built from a tracker of received packet numbers fits
  a buffer of 300 bytes, and the peer decodes it to that frame; when it processes the frame, it
  removes from its own sent packets of that space exactly those whose numbers lie in the 17
  highest received ranges. No packet is ever acknowledged that was not received.
\<close>

theorem ack_end_to_end:
  assumes "rp_inv t" and "largest t = Some hi" and "hi < 2 ^ 30" and "300 \<le> length buf"
  shows "\<exists>buf' n a ps. build_ack_frame t buf = Some (buf', n) \<and> decode uw buf' = Ok (Ack a, n)
    \<and> ack_pairs (ack_ranges a) [] = Ok ps
    \<and> mset (trk_entries (fst (on_ack_received sent lvl (largest_ack a) (first_ack_range a) ps)))
      = filter_mset (\<lambda>p. \<not> (sp_level p = lvl \<and> covers (take 17 (rev (rp_ranges t))) (sp_pn p)))
          (mset (trk_entries sent))"
proof -
  obtain rs s e where rs: "rp_ranges t = rs @ [(s, e)]" and e: "e = hi"
    using assms(2) by (cases "rp_ranges t" rule: rev_cases) (auto simp: largest_def)
  define a where "a = \<lparr>largest_ack = e, ack_delay = 0, first_ack_range = e - s,
     ack_ranges = pairs_bytes (gaps s (rev rs)), ecn = None\<rparr>"
  have spec: "build_ack_frame t buf = Some (wr buf (frame_bytes (Ack a)))" "wf_frame uw (Ack a)"
      "length (frame_bytes (Ack a)) \<le> length buf"
    using build_ack_frame_spec [OF assms(1) rs _ assms(4)] assms(3) e unfolding a_def by auto
  have se: "s \<le> e" and c: "chain s (rev rs)"
    using assms(1) separated_chain [of rs s e] by (auto simp: rp_inv_def rs)
  have M: "\<forall>(g, l) \<in> set (gaps s (rev rs)). g \<le> MAX_VARINT \<and> l \<le> MAX_VARINT"
    using chain_bound [OF c] se assms(3) e by (fastforce simp: MAX_VARINT_def)
  define ps where "ps = gaps s (take 16 (rev rs))"
  have ap: "ack_pairs (ack_ranges a) [] = Ok ps"
    using ack_pairs_pairs [OF M, of "[]"] by (simp add: a_def ps_def gaps_take)
  have "int e - int (e - s) = int s" using se by simp
  then have r: "rfc_ranges e (e - s) ps = (int s, int e) # rfc_below (int s) ps" by (simp add: rfc_ranges_def Let_def)
  note g = denoted_gaps [OF chain_take [OF c, of 16], folded ps_def]
  have "ack_valid e (e - s) ps" unfolding ack_valid_def r using g by simp
  moreover have "e < 2 ^ 62" using assms(3) e by simp
  ultimately have v: "is_acked lvl (acked_ranges e (e - s) ps) = covered lvl e (e - s) (take 31 ps)" by (rule is_acked_covered)
  have "take 31 ps = ps" by (simp add: ps_def)
  then have "covered lvl e (e - s) (take 31 ps) p \<longleftrightarrow>
      sp_level p = lvl \<and> covers (take 17 (rev (rp_ranges t))) (sp_pn p)" for p
    using g [of "sp_pn p"] by (auto simp: covered_def denoted_def r rs)
  then have "mset (trk_entries (fst (on_ack_received sent lvl (largest_ack a) (first_ack_range a) ps)))
      = filter_mset (\<lambda>p. \<not> (sp_level p = lvl \<and> covers (take 17 (rev (rp_ranges t))) (sp_pn p)))
          (mset (trk_entries sent))"
    using v by (simp add: on_ack_received_mset a_def)
  moreover have "decode uw (fst (wr buf (frame_bytes (Ack a)))) = Ok (Ack a, snd (wr buf (frame_bytes (Ack a))))"
    using decode_frame_bytes [OF spec(2)] by (simp add: wr_def)
  ultimately show ?thesis using spec(1) ap by (metis prod.collapse)
qed

theorem ack_end_to_end_witness:
  "\<exists>buf' n a ps. build_ack_frame \<lparr>rp_ranges = [(0, 3), (5, 5), (8, 9)], rp_floor = None\<rparr> (replicate 300 0)
        = Some (buf', n) \<and> decode 64 buf' = Ok (Ack a, n) \<and> ack_pairs (ack_ranges a) [] = Ok ps
    \<and> mset (trk_entries (fst (on_ack_received \<lparr>trk_capacity = 9, trk_entries = map pkt_of [2, 4, 5, 9]\<rparr>
          Application (largest_ack a) (first_ack_range a) ps))) = mset (map pkt_of [4])"
  using ack_end_to_end [of "\<lparr>rp_ranges = [(0, 3), (5, 5), (8, 9)], rp_floor = None\<rparr>" 9 "replicate 300 0" 64
      "\<lparr>trk_capacity = 9, trk_entries = map pkt_of [2, 4, 5, 9]\<rparr>" Application]
  by (simp add: rp_inv_def largest_def pkt_of_def)

end
