(* ===== verification/Crypto_Reasm.thy ===== *)
theory Crypto_Reasm
  imports Milli_Prelude
begin

text \<open>
  Reassembly of the CRYPTO byte stream (\<^verbatim>\<open>CryptoReassemblyBuf\<close> in \<^verbatim>\<open>src/connection/recv.rs\<close>). The
  buffer holds bytes relative to the delivery frontier; the received parts of it are half-open
  ranges, at most 16 of them. The theory reads the buffer as a partial map from absolute stream
  offsets to bytes and shows that insertion and delivery act on that map.
\<close>

section \<open>The code\<close>

record reasm =
  cb_buf :: bytes
  cb_delivered :: nat
  cb_ranges :: "(nat \<times> nat) list"

definition reasm_new :: "nat \<Rightarrow> reasm" where
  "reasm_new N = \<lparr>cb_buf = replicate N 0, cb_delivered = 0, cb_ranges = []\<rparr>"

text \<open>
  The loop of \<^verbatim>\<open>merge_range\<close>: ranges before the new one are skipped, overlapping or adjacent ones
  are removed and absorbed, and the first one past it ends the scan. The result is what stays
  before and after position \<^verbatim>\<open>i\<close>, and the merged range.
\<close>

fun merge_scan ::
  "nat \<Rightarrow> nat \<Rightarrow> (nat \<times> nat) list \<Rightarrow> (nat \<times> nat) list \<times> (nat \<times> nat) list \<times> nat \<times> nat" where
  "merge_scan new_start new_end [] = ([], [], new_start, new_end)"
| "merge_scan new_start new_end ((s, e) # ranges) =
    (if s > new_end then ([], (s, e) # ranges, new_start, new_end)
     else if e < new_start then
       let (before, after, ns, ne) = merge_scan new_start new_end ranges
       in ((s, e) # before, after, ns, ne)
     else merge_scan (min new_start s) (max new_end e) ranges)"

definition merge_range :: "(nat \<times> nat) list \<Rightarrow> nat \<Rightarrow> nat \<Rightarrow> (nat \<times> nat) list" where
  "merge_range ranges start fin =
    (let (before, after, ns, ne) = merge_scan start fin ranges
     in if length (before @ after) < 16 then before @ (ns, ne) # after else before @ after)"

definition insert_data :: "nat \<Rightarrow> reasm \<Rightarrow> nat \<Rightarrow> bytes \<Rightarrow> reasm \<times> unit res" where
  "insert_data uw r offset data =
    (if data = [] then (r, Ok ())
     else if u64_add offset (length data) \<le> cb_delivered r then (r, Ok ())
     else
       let (data, offset) =
             (if offset < cb_delivered r
              then (drop (as_usize uw (cb_delivered r - offset)) data, cb_delivered r)
              else (data, offset));
           rel_start = as_usize uw (offset - cb_delivered r);
           rel_end = usize_add uw rel_start (length data)
       in if rel_end > length (cb_buf r) then (r, Err (Transport CryptoBufferExceeded))
          else case copy_at (cb_buf r) rel_start data of
            Ok buf \<Rightarrow> (r\<lparr>cb_buf := buf, cb_ranges := merge_range (cb_ranges r) rel_start rel_end\<rparr>, Ok ())
          | _ \<Rightarrow> (r, Panic))"

definition contiguous_len :: "reasm \<Rightarrow> nat" where
  "contiguous_len r =
    (case cb_ranges r of (s, e) # _ \<Rightarrow> if s = 0 then e else 0 | [] \<Rightarrow> 0)"

definition contiguous_data :: "reasm \<Rightarrow> bytes res" where
  "contiguous_data r = slice (cb_buf r) 0 (contiguous_len r)"

fun shift_ranges :: "nat \<Rightarrow> (nat \<times> nat) list \<Rightarrow> (nat \<times> nat) list" where
  "shift_ranges n [] = []"
| "shift_ranges n ((s, e) # ranges) =
    (if e \<le> n then shift_ranges n ranges
     else if s < n then (0, e - n) # shift_ranges n ranges
     else (s - n, e - n) # shift_ranges n ranges)"

text \<open>\<^verbatim>\<open>copy_within(n.., 0)\<close> and zeroing the tail; both panic when \<open>n\<close> is past the buffer.\<close>

definition advance :: "reasm \<Rightarrow> nat \<Rightarrow> reasm res" where
  "advance r n =
    (if n = 0 then Ok r
     else if n > length (cb_buf r) then Panic
     else Ok (r\<lparr>cb_delivered := u64_add (cb_delivered r) n,
                cb_buf := drop n (cb_buf r) @ replicate n 0,
                cb_ranges := shift_ranges n (cb_ranges r)\<rparr>))"

section \<open>Ranges\<close>

fun apart :: "(nat \<times> nat) list \<Rightarrow> bool" where
  "apart [] = True"
| "apart [(s, e)] \<longleftrightarrow> s < e"
| "apart ((s, e) # (s', e') # rs) \<longleftrightarrow> s < e \<and> e < s' \<and> apart ((s', e') # rs)"

definition has :: "(nat \<times> nat) list \<Rightarrow> nat \<Rightarrow> bool" where
  "has rs q \<longleftrightarrow> (\<exists>(s, e) \<in> set rs. s \<le> q \<and> q < e)"

lemma has_simps [simp]: "\<not> has [] q" "has ((s, e) # rs) q \<longleftrightarrow> s \<le> q \<and> q < e \<or> has rs q"
    "has (xs @ ys) q \<longleftrightarrow> has xs q \<or> has ys q"
  by (auto simp: has_def)

lemma apart_Cons:
  "apart ((s, e) # rs) \<longleftrightarrow> s < e \<and> (\<forall>(s', e') \<in> set rs. e < s') \<and> apart rs"
proof (induction rs arbitrary: s e)
  case (Cons r rs)
  obtain s' e' where r: "r = (s', e')" by force
  show ?case unfolding r using Cons.IH [of s' e'] Cons.IH [of s e] by auto
qed simp

lemma apart_append:
  "apart (xs @ ys) \<longleftrightarrow> apart xs \<and> apart ys \<and> (\<forall>(s, e) \<in> set xs. \<forall>(s', e') \<in> set ys. e < s')"
proof (induction xs)
  case (Cons x xs)
  obtain s e where "x = (s, e)" by force
  with Cons show ?case by (auto simp: apart_Cons)
qed simp

text \<open>What the scan returns on separated ranges.\<close>

lemma merge_scan_spec:
  assumes "apart rs" and "a < b" and "merge_scan a b rs = (pre, suf, ns, ne)"
    and "\<forall>(s, e) \<in> set rs. e \<le> N" and "b \<le> N"
  shows "apart (pre @ (ns, ne) # suf) \<and> (\<forall>q. has (pre @ (ns, ne) # suf) q \<longleftrightarrow> has rs q \<or> a \<le> q \<and> q < b)
    \<and> (\<forall>(s, e) \<in> set (pre @ (ns, ne) # suf). e \<le> N) \<and> set pre \<union> set suf \<subseteq> set rs
    \<and> (length (pre @ suf) = length rs \<longrightarrow> pre @ suf = rs \<and> ns = a \<and> ne = b)
    \<and> ns \<le> a \<and> b \<le> ne \<and> (\<forall>c. c \<le> a \<and> (\<forall>(s, e) \<in> set rs. c \<le> s) \<longrightarrow> c \<le> ns)
    \<and> length (pre @ suf) \<le> length rs"
  using assms
proof (induction a b rs arbitrary: pre suf ns ne rule: merge_scan.induct)
  case (2 a b s e rs)
  have sep: "s < e" "\<forall>(s', e') \<in> set rs. e < s'" "apart rs" and bd: "e \<le> N" "\<forall>(s, e) \<in> set rs. e \<le> N"
    using 2(3,6) by (auto simp: apart_Cons)
  consider (past) "s > b" | (skip) "s \<le> b" "e < a" | (absorb) "s \<le> b" "a \<le> e" by linarith
  then show ?case
  proof cases
    case past
    then show ?thesis using 2(3-7) by (auto simp: apart_Cons) fastforce
  next
    case skip
    then obtain pre' where r: "merge_scan a b rs = (pre', suf, ns, ne)" and pre: "pre = (s, e) # pre'"
      using 2(5) by (auto split: prod.splits)
    note IH = 2(1) [OF _ skip(2) sep(3) 2(4) r bd(2) 2(7)]
    have IH: "apart (pre' @ (ns, ne) # suf)" "\<forall>q. has (pre' @ (ns, ne) # suf) q \<longleftrightarrow> has rs q \<or> a \<le> q \<and> q < b"
      "\<forall>(s, e) \<in> set (pre' @ (ns, ne) # suf). e \<le> N" "set pre' \<union> set suf \<subseteq> set rs"
      "length (pre' @ suf) = length rs \<longrightarrow> pre' @ suf = rs \<and> ns = a \<and> ne = b"
      "ns \<le> a" "b \<le> ne" "\<forall>c. c \<le> a \<and> (\<forall>(s, e) \<in> set rs. c \<le> s) \<longrightarrow> c \<le> ns"
      "length (pre' @ suf) \<le> length rs"
      using skip IH by auto
    have "e + 1 \<le> ns" using IH(8) [rule_format, of "e + 1"] skip(2) sep(2) by fastforce
    then have "\<forall>(s', e') \<in> set (pre' @ (ns, ne) # suf). e < s'"
      using IH(4) sep(2) by auto
    then have "apart (pre @ (ns, ne) # suf)" using IH(1) sep(1) by (simp add: pre apart_Cons)
    then show ?thesis using IH bd(1) sep(1) skip(2) 2(4) by (auto simp: pre)
  next
    case absorb
    then have r: "merge_scan (min a s) (max b e) rs = (pre, suf, ns, ne)"
      using 2(5) by simp
    have IH: "apart (pre @ (ns, ne) # suf)"
      "\<forall>q. has (pre @ (ns, ne) # suf) q \<longleftrightarrow> has rs q \<or> min a s \<le> q \<and> q < max b e"
      "\<forall>(s, e) \<in> set (pre @ (ns, ne) # suf). e \<le> N" "set pre \<union> set suf \<subseteq> set rs"
      "ns \<le> min a s" "max b e \<le> ne" "\<forall>c. c \<le> min a s \<and> (\<forall>(s, e) \<in> set rs. c \<le> s) \<longrightarrow> c \<le> ns"
      "length (pre @ suf) \<le> length rs"
      using 2(2) [OF _ _ sep(3) _ r bd(2)] absorb 2(4,7) bd(1) sep(1) by auto
    then show ?thesis using absorb sep(1) 2(4) by auto
  qed
qed auto

section \<open>The buffer as a map\<close>

definition view :: "reasm \<Rightarrow> nat \<Rightarrow> byte option" where
  "view r q = (if cb_delivered r \<le> q \<and> has (cb_ranges r) (q - cb_delivered r)
     then Some (cb_buf r ! (q - cb_delivered r)) else None)"

definition cb_inv :: "nat \<Rightarrow> reasm \<Rightarrow> bool" where
  "cb_inv uw r \<longleftrightarrow> apart (cb_ranges r) \<and> (\<forall>(s, e) \<in> set (cb_ranges r). e \<le> length (cb_buf r))
     \<and> length (cb_ranges r) \<le> 16 \<and> length (cb_buf r) < 2 ^ uw"

text \<open>The bytes of a frame at absolute offsets, from the delivery frontier on.\<close>

definition frame_view :: "nat \<Rightarrow> nat \<Rightarrow> bytes \<Rightarrow> nat \<Rightarrow> byte option" where
  "frame_view frontier offset data q =
    (if frontier \<le> q \<and> offset \<le> q \<and> q < offset + length data then Some (data ! (q - offset)) else None)"

lemma nth_splice:
  assumes "pos + length data \<le> length buf" and "i < length buf"
  shows "(take pos buf @ data @ drop (pos + length data) buf) ! i =
    (if pos \<le> i \<and> i < pos + length data then data ! (i - pos) else buf ! i)"
  using assms by (auto simp: nth_append min_def)

text \<open>Storing a non-empty piece at or after the frontier.\<close>

lemma store_spec:
  assumes inv: "cb_inv uw r" and "data \<noteq> []" and fits: "pos + length data \<le> length (cb_buf r)"
    and r': "r' = r\<lparr>cb_buf := take pos (cb_buf r) @ data @ drop (pos + length data) (cb_buf r),
               cb_ranges := merge_range (cb_ranges r) pos (pos + length data)\<rparr>"
  shows "cb_inv uw r' \<and> (view r' = view r ++ frame_view (cb_delivered r) (cb_delivered r + pos) data
     \<or> length (cb_ranges r) = 16 \<and> view r' = view r)"
proof -
  obtain pre suf ns ne where m: "merge_scan pos (pos + length data) (cb_ranges r) = (pre, suf, ns, ne)"
    by (metis prod_cases4)
  have sp: "apart (pre @ (ns, ne) # suf)"
      "\<And>q. has (pre @ (ns, ne) # suf) q \<longleftrightarrow> has (cb_ranges r) q \<or> pos \<le> q \<and> q < pos + length data"
      "\<forall>(s, e) \<in> set (pre @ (ns, ne) # suf). e \<le> length (cb_buf r)"
      "length (pre @ suf) = length (cb_ranges r) \<longrightarrow> pre @ suf = cb_ranges r \<and> ns = pos \<and> ne = pos + length data"
      "length (pre @ suf) \<le> length (cb_ranges r)"
    using merge_scan_spec [OF _ _ m, of "length (cb_buf r)"] inv assms(2) fits
    by (simp_all add: cb_inv_def)
  have len: "length (cb_ranges r) \<le> 16" using inv by (simp add: cb_inv_def)
  have lb: "length (cb_buf r') = length (cb_buf r)" using fits by (simp add: r')
  have val: "cb_buf r' ! i = (if pos \<le> i \<and> i < pos + length data then data ! (i - pos) else cb_buf r ! i)"
    if "i < length (cb_buf r)" for i
    using nth_splice [OF fits that] by (simp add: r')
  have inside: "i < length (cb_buf r)" if "has (cb_ranges r) i" for i
    using that inv by (fastforce simp: has_def cb_inv_def)
  show ?thesis
  proof (cases "length (pre @ suf) < 16")
    case True
    then have rs: "cb_ranges r' = pre @ (ns, ne) # suf" by (simp add: r' merge_range_def m)
    have "view r' q = (view r ++ frame_view (cb_delivered r) (cb_delivered r + pos) data) q" for q
    proof -
      have d: "cb_delivered r' = cb_delivered r" by (simp add: r')
      have iff: "cb_delivered r + pos \<le> q \<and> q < cb_delivered r + pos + length data \<longleftrightarrow>
          pos \<le> q - cb_delivered r \<and> q - cb_delivered r < pos + length data" if "cb_delivered r \<le> q"
        using that by auto
      have "cb_buf r' ! (q - cb_delivered r) = (if pos \<le> q - cb_delivered r \<and> q - cb_delivered r < pos + length data
          then data ! (q - cb_delivered r - pos) else cb_buf r ! (q - cb_delivered r))"
        if "has (cb_ranges r) (q - cb_delivered r)
          \<or> pos \<le> q - cb_delivered r \<and> q - cb_delivered r < pos + length data"
        using that inside fits by (intro val) auto
      then show ?thesis
        unfolding view_def d rs sp(2) map_add_def frame_view_def using iff by auto
    qed
    moreover have "cb_inv uw r'" using sp(1,3) True inv lb rs by (auto simp: cb_inv_def)
    ultimately show ?thesis by blast
  next
    case False
    then have full: "length (cb_ranges r) = 16" "pre @ suf = cb_ranges r" "ns = pos" "ne = pos + length data"
      using sp(4,5) len by auto
    have rs: "cb_ranges r' = cb_ranges r"
      using False full(2) unfolding r' merge_range_def m by (simp only: prod.case Let_def if_False) simp
    have that_free: "\<not> has (cb_ranges r) q" if "pos \<le> q" "q < pos + length data" for q
      using sp(1) that unfolding full(3,4) full(2) [symmetric]
      by (fastforce simp: apart_append apart_Cons has_def)
    have "view r' q = view r q" for q
    proof -
      have "cb_delivered r' = cb_delivered r" by (simp add: r')
      with that_free val [OF inside, of "q - cb_delivered r"] show ?thesis by (auto simp: view_def rs)
    qed
    moreover have "cb_inv uw r'" using inv lb rs by (auto simp: cb_inv_def)
    ultimately show ?thesis using full(1) by blast
  qed
qed

lemma insert_data_spec:
  assumes inv: "cb_inv uw r" and small: "offset + length data < 2 ^ uw" "cb_delivered r < 2 ^ uw"
    and "uw \<le> 64"
    and res: "insert_data uw r offset data = (r', x)"
  shows "if offset + length data \<le> cb_delivered r + length (cb_buf r) \<or> data = []
    then x = Ok () \<and> cb_inv uw r' \<and> cb_delivered r' = cb_delivered r
      \<and> length (cb_buf r') = length (cb_buf r)
      \<and> (view r' = view r ++ frame_view (cb_delivered r) offset data
         \<or> length (cb_ranges r) = 16 \<and> view r' = view r)
    else x = Err (Transport CryptoBufferExceeded) \<and> r' = r"
proof -
  have w: "u64_add offset (length data) = offset + length data"
  proof (rule u64_add_exact)
    have "(2::nat) ^ uw \<le> 2 ^ 64" using assms(4) by (intro power_increasing) auto
    with small(1) show "offset + length data < 2 ^ 64" by linarith
  qed
  show ?thesis
  proof (cases "data = [] \<or> offset + length data \<le> cb_delivered r")
    case True
    then have "insert_data uw r offset data = (r, Ok ())" by (auto simp: insert_data_def w)
    then have "r' = r" "x = Ok ()" using res by auto
    moreover have "frame_view (cb_delivered r) offset data = Map.empty"
      using True by (auto simp: frame_view_def)
    ultimately show ?thesis using True inv by auto
  next
    case False
    define skip where "skip = cb_delivered r - offset"
    define d where "d = drop skip data"
    define pos where "pos = offset - cb_delivered r"
    have eq: "(if offset < cb_delivered r then (drop (as_usize uw (cb_delivered r - offset)) data, cb_delivered r)
        else (data, offset)) = (d, cb_delivered r + pos)"
      using small(2) by (auto simp: d_def skip_def pos_def)
    have "0 < length data" using False by simp
    then have "skip < length data" using False unfolding skip_def by linarith
    then have ld: "length d = length data - skip" and ne: "d \<noteq> []" by (simp_all add: d_def)
    have tot: "cb_delivered r + pos + length d = offset + length data"
      using False by (auto simp: ld skip_def pos_def)
    have casts: "as_usize uw pos = pos"
        "usize_add uw pos (length d) = pos + length d"
      using small(1) tot by (simp_all add: pos_def)
    have fv: "frame_view (cb_delivered r) (cb_delivered r + pos) d = frame_view (cb_delivered r) offset data"
      by (rule ext, cases "offset \<le> cb_delivered r")
         (auto simp: frame_view_def d_def skip_def pos_def)
    have ins: "insert_data uw r offset data =
        (if pos + length d > length (cb_buf r) then (r, Err (Transport CryptoBufferExceeded))
         else (r\<lparr>cb_buf := take pos (cb_buf r) @ d @ drop (pos + length d) (cb_buf r),
                  cb_ranges := merge_range (cb_ranges r) pos (pos + length d)\<rparr>, Ok ()))"
      using False w unfolding insert_data_def eq Let_def prod.case diff_add_inverse casts by simp
    show ?thesis
    proof (cases "pos + length d \<le> length (cb_buf r)")
      case True
      with res ins have r': "r' = r\<lparr>cb_buf := take pos (cb_buf r) @ d @ drop (pos + length d) (cb_buf r),
                  cb_ranges := merge_range (cb_ranges r) pos (pos + length d)\<rparr>" and "x = Ok ()"
        by auto
      with store_spec [OF inv ne True r'] True tot show ?thesis by (simp add: fv) 
    next
      case False
      with res ins tot \<open>\<not> (data = [] \<or> offset + length data \<le> cb_delivered r)\<close> show ?thesis by auto
    qed
  qed
qed

text \<open>Delivery moves the frontier and forgets what is before it.\<close>

lemma shift_ranges_has: "has (shift_ranges n rs) q \<longleftrightarrow> has rs (q + n)"
  by (induction n rs rule: shift_ranges.induct) auto

lemma shift_ranges_bounds:
  "apart rs \<Longrightarrow> (s, e) \<in> set (shift_ranges n rs) \<Longrightarrow> \<exists>(s', e') \<in> set rs. s = s' - n \<and> e = e' - n \<and> n < e'"
  by (induction n rs rule: shift_ranges.induct) (auto simp: apart_Cons split: if_splits)

lemma shift_ranges_apart: "apart rs \<Longrightarrow> apart (shift_ranges n rs)"
proof (induction n rs rule: shift_ranges.induct)
  case (2 n s e rs)
  then have se: "s < e" and far: "\<forall>(s', e') \<in> set rs. e < s'" and sep: "apart rs"
    and IH: "apart (shift_ranges n rs)"
    by (auto simp: apart_Cons split: if_splits)
  have "e - n < s'" if "n < e" "(s', e') \<in> set (shift_ranges n rs)" for s' e'
    using shift_ranges_bounds [OF sep that(2)] far that(1) by fastforce
  then show ?case using IH se by (auto simp: apart_Cons)
qed simp

lemma shift_ranges_length: "length (shift_ranges n rs) \<le> length rs"
  by (induction n rs rule: shift_ranges.induct) auto

lemma advance_spec:
  assumes "cb_inv uw r" and "n \<le> contiguous_len r" and "cb_delivered r + n < 2 ^ 64"
  shows "\<exists>r'. advance r n = Ok r' \<and> cb_inv uw r' \<and> cb_delivered r' = cb_delivered r + n
    \<and> length (cb_buf r') = length (cb_buf r)
    \<and> view r' = (\<lambda>q. if cb_delivered r + n \<le> q then view r q else None)"
proof (cases "n = 0")
  case True
  then show ?thesis using assms by (auto simp: advance_def view_def)
next
  case False
  have le: "n \<le> length (cb_buf r)"
    using assms(1,2) False
    by (auto simp: contiguous_len_def cb_inv_def split: list.splits if_splits)
  define r' where "r' = r\<lparr>cb_delivered := cb_delivered r + n, cb_buf := drop n (cb_buf r) @ replicate n 0,
      cb_ranges := shift_ranges n (cb_ranges r)\<rparr>"
  have sep: "apart (cb_ranges r)" using assms(1) by (simp add: cb_inv_def)
  have inside: "i < length (cb_buf r)" if "has (cb_ranges r) i" for i
    using that assms(1) by (fastforce simp: has_def cb_inv_def)
  have "view r' q = (if cb_delivered r + n \<le> q then view r q else None)" for q
  proof (cases "cb_delivered r + n \<le> q")
    case True
    then have "q - (cb_delivered r + n) + n = q - cb_delivered r" by simp
    then show ?thesis
      using inside [of "q - cb_delivered r"] True le
      by (auto simp: view_def r'_def shift_ranges_has nth_append add.commute)
  qed (simp add: view_def r'_def)
  moreover have "cb_inv uw r'"
  proof -
    have "\<forall>(s, e) \<in> set (shift_ranges n (cb_ranges r)). e \<le> length (cb_buf r)"
      using shift_ranges_bounds [OF sep] assms(1) by (fastforce simp: cb_inv_def)
    then show ?thesis
      using assms(1) le shift_ranges_apart [OF sep] shift_ranges_length [of n "cb_ranges r"]
      by (simp add: cb_inv_def r'_def)
  qed
  ultimately show ?thesis
    using False le assms(3) by (auto simp: advance_def r'_def)
qed

section \<open>Properties\<close>

text \<open>
  The runs of a buffer that receives pieces of a byte stream \<open>S\<close>, in any order and with any
  overlaps, and delivers from its contiguous front.
\<close>

inductive reasm_run :: "nat \<Rightarrow> nat \<Rightarrow> bytes \<Rightarrow> reasm \<Rightarrow> bool" for uw N S where
  start: "reasm_run uw N S (reasm_new N)"
| piece: "reasm_run uw N S r \<Longrightarrow> offset + len \<le> length S \<Longrightarrow>
    reasm_run uw N S (fst (insert_data uw r offset (take len (drop offset S))))"
| deliver: "reasm_run uw N S r \<Longrightarrow> n \<le> contiguous_len r \<Longrightarrow> advance r n = Ok r' \<Longrightarrow>
    reasm_run uw N S r'"

lemma reasm_run_inv:
  assumes "reasm_run uw N S r" and "N < 2 ^ uw" and "length S < 2 ^ uw" and "uw \<le> 64"
  shows "cb_inv uw r \<and> length (cb_buf r) = N \<and> cb_delivered r \<le> length S
    \<and> (\<forall>q b. view r q = Some b \<longrightarrow> q < length S \<and> b = S ! q)"
  using assms
proof (induction rule: reasm_run.induct)
  case start
  then show ?case by (simp add: cb_inv_def reasm_new_def view_def)
next
  case (piece r offset len)
  let ?d = "take len (drop offset S)"
  have IH: "cb_inv uw r" "length (cb_buf r) = N" "cb_delivered r \<le> length S"
      "\<And>q b. view r q = Some b \<Longrightarrow> q < length S \<and> b = S ! q"
    using piece by auto
  have len: "length ?d = len" using piece(2) by simp
  have "if offset + length ?d \<le> cb_delivered r + length (cb_buf r) \<or> ?d = []
    then snd (insert_data uw r offset ?d) = Ok () \<and> cb_inv uw (fst (insert_data uw r offset ?d))
      \<and> cb_delivered (fst (insert_data uw r offset ?d)) = cb_delivered r
      \<and> length (cb_buf (fst (insert_data uw r offset ?d))) = length (cb_buf r)
      \<and> (view (fst (insert_data uw r offset ?d)) = view r ++ frame_view (cb_delivered r) offset ?d
         \<or> length (cb_ranges r) = 16 \<and> view (fst (insert_data uw r offset ?d)) = view r)
    else snd (insert_data uw r offset ?d) = Err (Transport CryptoBufferExceeded)
      \<and> fst (insert_data uw r offset ?d) = r"
    by (rule insert_data_spec [OF IH(1)]) (use IH piece len in auto)
  moreover have "q < length S \<and> b = S ! q" if "frame_view (cb_delivered r) offset ?d q = Some b" for q b
    using that piece(2) by (auto simp: frame_view_def len split: if_splits)
  ultimately show ?case
    using IH by (auto split: if_splits simp: map_add_Some_iff)
next
  case (deliver r n r')
  then have IH: "cb_inv uw r" "length (cb_buf r) = N" "cb_delivered r \<le> length S"
      "\<And>q b. view r q = Some b \<Longrightarrow> q < length S \<and> b = S ! q"
    by auto
  have front: "n = 0 \<or> view r (cb_delivered r + n - 1) \<noteq> None"
    using deliver(2) by (auto simp: view_def contiguous_len_def split: list.splits if_splits)
  have in_S: "cb_delivered r + n \<le> length S" using front IH(3,4) by (cases "n = 0") force+
  have "(2::nat) ^ uw \<le> 2 ^ 64" using deliver(7) by (intro power_increasing) auto
  then have "cb_delivered r + n < 2 ^ 64" using in_S deliver(6) by linarith
  from advance_spec [OF IH(1) deliver(2) this] deliver(3) in_S IH show ?case
    by (auto split: if_splits)
qed

text \<open>
  C15: CRYPTO reassembly. Whatever pieces of the handshake byte stream arrive, in whatever order and
  with whatever overlaps, what the buffer offers to the TLS engine is at every moment exactly the
  stream from the delivery frontier on; nothing is reordered, repeated or made up.
\<close>

theorem reassembly_correct:
  assumes "reasm_run uw N S r" and "N < 2 ^ uw" and "length S < 2 ^ uw" and "uw \<le> 64"
  shows "contiguous_data r = Ok (take (contiguous_len r) (drop (cb_delivered r) S))
    \<and> cb_delivered r + contiguous_len r \<le> length S"
proof -
  have inv: "cb_inv uw r" "cb_delivered r \<le> length S"
    and v: "\<And>q b. view r q = Some b \<Longrightarrow> q < length S \<and> b = S ! q"
    using reasm_run_inv [OF assms] by auto
  have "view r (cb_delivered r + i) = Some (cb_buf r ! i)" if "i < contiguous_len r" for i
    using that by (auto simp: view_def contiguous_len_def split: list.splits if_splits)
  from v [OF this] have S: "cb_delivered r + i < length S" "cb_buf r ! i = S ! (cb_delivered r + i)"
    if "i < contiguous_len r" for i using that by auto
  have len: "contiguous_len r \<le> length (cb_buf r)"
    using inv(1) by (auto simp: contiguous_len_def cb_inv_def split: list.splits if_splits)
  have le: "cb_delivered r + contiguous_len r \<le> length S"
    using S(1) [of "contiguous_len r - 1"] inv(2) by (cases "contiguous_len r = 0") force+
  have "take (contiguous_len r) (cb_buf r) = take (contiguous_len r) (drop (cb_delivered r) S)"
    using S len le by (intro nth_equalityI) auto
  then show ?thesis using len le by (simp add: contiguous_data_def)
qed

theorem reassembly_correct_witness:
  "contiguous_data (fst (insert_data 32 (fst (insert_data 32 (reasm_new 8) 2 [7, 9])) 0 [4, 5, 7]))
     = Ok [4, 5, 7, 9]"
proof -
  let ?S = "[4, 5, 7, 9] :: bytes"
  let ?r1 = "fst (insert_data 32 (reasm_new 8) 2 (take 2 (drop 2 ?S)))"
  let ?r2 = "fst (insert_data 32 ?r1 0 (take 3 (drop 0 ?S)))"
  have run: "reasm_run 32 8 ?S ?r2"
    by (intro reasm_run.piece reasm_run.start) simp_all
  have "contiguous_len ?r2 = 4 \<and> cb_delivered ?r2 = 0"
    by (simp add: insert_data_def reasm_new_def merge_range_def contiguous_len_def)
  with reassembly_correct [OF run] show ?thesis by simp
qed

text \<open>
  Full range list. When 16 separate ranges are buffered, a new separate piece is accepted with
  \<open>Ok\<close> but not recorded, even when it is the piece at the delivery frontier: the stream stays
  stuck, although the packet that carried the piece will be acknowledged.
\<close>

theorem frontier_lost_when_full:
  "\<exists>r r'. cb_inv 32 r \<and> contiguous_len r = 0 \<and> insert_data 32 r (cb_delivered r) [1] = (r', Ok ())
     \<and> contiguous_len r' = 0 \<and> view r' = view r"
proof -
  define r where "r = \<lparr>cb_buf = replicate 64 0, cb_delivered = 0,
    cb_ranges = map (\<lambda>i. (2 * i + 2, 2 * i + 3)) [0..<16]\<rparr>"
  have rs: "cb_ranges r = [(2, 3), (4, 5), (6, 7), (8, 9), (10, 11), (12, 13), (14, 15), (16, 17),
      (18, 19), (20, 21), (22, 23), (24, 25), (26, 27), (28, 29), (30, 31), (32, 33)]"
    by (simp add: r_def upt_conv_Cons)
  have inv: "cb_inv 32 r" unfolding cb_inv_def rs by (simp add: r_def)
  define r' where "r' = r\<lparr>cb_buf := 1 # replicate 63 0\<rparr>"
  have m: "merge_range (cb_ranges r) 0 (Suc 0) = cb_ranges r"
    unfolding rs by (simp add: merge_range_def)
  have ins: "insert_data 32 r (cb_delivered r) [1] = (r', Ok ())"
    using m by (simp add: insert_data_def r_def r'_def)
  have c: "contiguous_len r = 0" "contiguous_len r' = 0"
    by (simp_all add: contiguous_len_def r'_def rs)
  have "\<not> has (cb_ranges r) 0" unfolding rs by simp
  moreover have "q < 64 \<and> q - Suc 0 < 63" if "has (cb_ranges r) q" for q
    using that inv by (fastforce simp: has_def cb_inv_def r_def)
  ultimately have "view r' q = view r q" for q
    by (cases "q = 0") (auto simp: view_def r'_def r_def nth_Cons' nth_replicate)
  with inv c ins show ?thesis by blast
qed

end
