(* ===== verification/Stream_Io.thy ===== *)
theory Stream_Io
  imports Frame Stream_Map
begin

text \<open>
  The stream buffers of a connection (\<^verbatim>\<open>QuicStreamIo\<close> in \<^verbatim>\<open>src/connection/io.rs\<close>) and the operations
  that move application data through them: \<^verbatim>\<open>stream_send_capacity\<close>, \<^verbatim>\<open>stream_send\<close>, \<^verbatim>\<open>stream_recv\<close>
  and \<^verbatim>\<open>store_stream_data\<close> of \<^verbatim>\<open>src/connection/mod.rs\<close> and \<^verbatim>\<open>build_stream_frames\<close> of
  \<^verbatim>\<open>src/connection/transmit.rs\<close>. The const generics of the code are fields of \<open>stream_io\<close>.
\<close>

section \<open>The code\<close>

datatype conn_state = Handshaking | Active | Draining | Closing | Closed

record send_entry =
  se_stream_id :: nat
  se_offset :: nat
  se_data :: bytes
  se_len :: nat
  se_fin :: bool

record recv_buf =
  rb_stream_id :: nat
  rb_data :: bytes
  rb_len :: nat
  rb_read_offset :: nat
  rb_fin_received :: bool
  rb_next_offset :: nat

record stream_io =
  STREAM_BUF :: nat
  SEND_QUEUE :: nat
  MAX_STREAMS :: nat
  io_alloc :: bool
  send_queue :: "send_entry list"
  recv_bufs :: "recv_buf option list"

definition stream_io_new :: "bool \<Rightarrow> nat \<Rightarrow> nat \<Rightarrow> nat \<Rightarrow> stream_io" where
  "stream_io_new alloc sb sq ms =
    \<lparr>STREAM_BUF = sb, SEND_QUEUE = sq, MAX_STREAMS = ms, io_alloc = alloc, send_queue = [],
     recv_bufs = (if alloc then [] else replicate ms None)\<rparr>"

text \<open>The tail entry of the queue, when it belongs to the stream and carries no FIN.\<close>

definition coalesce_tail :: "stream_io \<Rightarrow> nat \<Rightarrow> bool" where
  "coalesce_tail sio stream_id \<longleftrightarrow> send_queue sio \<noteq> []
     \<and> se_stream_id (last (send_queue sio)) = stream_id \<and> \<not> se_fin (last (send_queue sio))"

definition stream_send_capacity ::
  "nat \<Rightarrow> conn_state \<Rightarrow> stream_map \<Rightarrow> stream_io \<Rightarrow> nat \<Rightarrow> nat" where
  "stream_send_capacity uw st m sio stream_id =
    (if st = Closed \<or> st = Draining then 0
     else case get m stream_id of None \<Rightarrow> 0
     | Some stream \<Rightarrow>
        (case str_send stream of None \<Rightarrow> 0
         | Some send \<Rightarrow>
            let window = as_usize uw (snd_max_data send - snd_offset send);
                tail_room = (if coalesce_tail sio stream_id
                             then STREAM_BUF sio - se_len (last (send_queue sio)) else 0);
                free_entries = SEND_QUEUE sio - length (send_queue sio)
            in min window (tail_room + free_entries * STREAM_BUF sio)))"

text \<open>
  The loop that spills data into fresh entries. \<open>written\<close> and \<open>offset\<close> are its variables, \<open>q\<close> the
  queue, which has a capacity only without \<^verbatim>\<open>alloc\<close>; the buffers of fresh entries are zeroed.
\<close>

definition fresh_entry :: "nat \<Rightarrow> nat \<Rightarrow> nat \<Rightarrow> bytes \<Rightarrow> bool \<Rightarrow> send_entry" where
  "fresh_entry sb stream_id offset chunk fin =
    \<lparr>se_stream_id = stream_id, se_offset = offset,
     se_data = chunk @ replicate (sb - length chunk) 0, se_len = length chunk, se_fin = fin\<rparr>"

definition push_entry :: "stream_io \<Rightarrow> send_entry list \<Rightarrow> send_entry \<Rightarrow> send_entry list" where
  "push_entry sio q e = (if io_alloc sio \<or> length q < SEND_QUEUE sio then q @ [e] else q)"

function spill ::
  "stream_io \<Rightarrow> nat \<Rightarrow> bytes \<Rightarrow> bool \<Rightarrow> bool \<Rightarrow> nat \<Rightarrow> nat \<Rightarrow> nat \<Rightarrow> send_entry list \<Rightarrow> send_entry list" where
  "spill sio stream_id data fin coalesced send_len written offset q =
    (if written < send_len \<or> (fin \<and> written = 0 \<and> \<not> coalesced) then
       let chunk = min (send_len - written) (STREAM_BUF sio);
           e = fresh_entry (STREAM_BUF sio) stream_id offset (take chunk (drop written data))
                 (fin \<and> written + chunk = send_len);
           q = push_entry sio q e
       in if chunk = 0 then q
          else spill sio stream_id data fin coalesced send_len (written + chunk) (u64_add offset chunk) q
     else q)"
  by pat_completeness auto
termination
  by (relation "measure (\<lambda>(sio, stream_id, data, fin, c, send_len, written, offset, q). send_len - written)")
     auto

declare spill.simps [simp del]

definition stream_send ::
  "nat \<Rightarrow> conn_state \<Rightarrow> stream_map \<Rightarrow> stream_io \<Rightarrow> nat \<Rightarrow> bytes \<Rightarrow> bool
   \<Rightarrow> stream_map \<times> stream_io \<times> nat res" where
  "stream_send uw st m sio stream_id data fin =
    (if st = Closed \<or> st = Draining then (m, sio, Err error.Closed)
     else case get m stream_id of None \<Rightarrow> (m, sio, Err InvalidState)
     | Some stream \<Rightarrow>
       (case str_send stream of None \<Rightarrow> (m, sio, Err InvalidState)
        | Some send \<Rightarrow>
          let offset = snd_offset send;
              send_len = min (length data) (stream_send_capacity uw st m sio stream_id);
              fin = (fin \<and> send_len = length data);
              coalesced = coalesce_tail sio stream_id
          in if send_len = 0 \<and> \<not> fin then (m, sio, Ok 0)
             else if send_len = 0 \<and> \<not> coalesced \<and> length (send_queue sio) \<ge> SEND_QUEUE sio
             then (m, sio, Err (BufferTooSmall (SEND_QUEUE sio + 1)))
             else
               (case mark_send m stream_id send_len fin of
                  (m, Ok ()) \<Rightarrow>
                    let tail = last (send_queue sio);
                        room = (if coalesced then min (STREAM_BUF sio - se_len tail) send_len else 0);
                        q = (if coalesced then
                               butlast (send_queue sio) @
                                 [tail\<lparr>se_data := take (se_len tail) (se_data tail) @ take room data
                                          @ drop (se_len tail + room) (se_data tail),
                                       se_len := se_len tail + room,
                                       se_fin := (fin \<and> room = send_len)\<rparr>]
                             else send_queue sio);
                        q = spill sio stream_id data fin coalesced send_len room
                              (u64_add offset room) q
                    in (m, sio\<lparr>send_queue := q\<rparr>, Ok send_len)
                | (m, Err e) \<Rightarrow> (m, sio, Err e)
                | (m, Panic) \<Rightarrow> (m, sio, Panic))))"

text \<open>The sending half of the queue: frames for the entries at the front, as long as they fit.\<close>

definition entry_frame :: "send_entry \<Rightarrow> frame" where
  "entry_frame e = Stream \<lparr>st_stream_id = se_stream_id e, st_offset = se_offset e,
     st_data = take (se_len e) (se_data e), st_fin = se_fin e\<rparr>"

text \<open>\<^verbatim>\<open>frame::encode(&f, &mut buf[total..])\<close>.\<close>

definition encode_from :: "frame \<Rightarrow> cursor \<Rightarrow> cursor res" where
  "encode_from f c =
    res_bind (slice_from (fst c) (snd c)) (\<lambda>s.
    res_bind (encode f s) (\<lambda>(s, n). Ok (take (snd c) (fst c) @ s, snd c + n)))"

fun build_loop :: "send_entry list \<Rightarrow> nat \<Rightarrow> cursor \<Rightarrow> nat \<times> cursor" where
  "build_loop [] i c = (i, c)"
| "build_loop (e # es) i c =
    (if length (fst c) - snd c < 16 then (i, c)
     else case encode_from (entry_frame e) c of
       Ok c' \<Rightarrow> build_loop es (i + 1) c'
     | _ \<Rightarrow> (i, c))"

definition build_stream_frames :: "stream_io \<Rightarrow> bytes \<Rightarrow> stream_io \<times> cursor" where
  "build_stream_frames sio buf =
    (let (i, c) = build_loop (send_queue sio) 0 (buf, 0)
     in (sio\<lparr>send_queue := drop i (send_queue sio)\<rparr>, c))"

subsection \<open>Receiving\<close>

definition is_recv_buf :: "nat \<Rightarrow> recv_buf option \<Rightarrow> bool" where
  "is_recv_buf stream_id slot = (case slot of Some b \<Rightarrow> rb_stream_id b = stream_id | None \<Rightarrow> False)"

text \<open>The slot for a stream: its own, a free one, or with \<^verbatim>\<open>alloc\<close> a new one.\<close>

definition recv_slot :: "stream_io \<Rightarrow> nat \<Rightarrow> (nat \<times> recv_buf option list) option" where
  "recv_slot sio stream_id =
    (case position (is_recv_buf stream_id) (recv_bufs sio) of
       Some i \<Rightarrow> Some (i, recv_bufs sio)
     | None \<Rightarrow>
        (case position (\<lambda>s. s = None) (recv_bufs sio) of
           Some i \<Rightarrow> Some (i, recv_bufs sio)
         | None \<Rightarrow>
            if io_alloc sio \<and> length (recv_bufs sio) < MAX_STREAMS sio
            then Some (length (recv_bufs sio), recv_bufs sio @ [None]) else None))"

definition recv_buf_new :: "nat \<Rightarrow> nat \<Rightarrow> recv_buf" where
  "recv_buf_new sb stream_id =
    \<lparr>rb_stream_id = stream_id, rb_data = replicate sb 0, rb_len = 0, rb_read_offset = 0,
     rb_fin_received = False, rb_next_offset = 0\<rparr>"

definition store_in_buf :: "nat \<Rightarrow> recv_buf \<Rightarrow> nat \<Rightarrow> bytes \<Rightarrow> bool \<Rightarrow> recv_buf" where
  "store_in_buf sb b offset data fin =
    (let frame_end = u64_add offset (length data)
     in if offset > rb_next_offset b then b
        else if frame_end \<le> rb_next_offset b then
          if fin then b\<lparr>rb_fin_received := True\<rparr> else b
        else
          let skip = rb_next_offset b - offset;
              new_data = drop skip data;
              copy_len = min (length new_data) (sb - rb_len b);
              b = b\<lparr>rb_data := take (rb_len b) (rb_data b) @ take copy_len new_data
                       @ drop (rb_len b + copy_len) (rb_data b),
                    rb_len := rb_len b + copy_len,
                    rb_next_offset := u64_add (rb_next_offset b) copy_len\<rparr>
          in if fin then b\<lparr>rb_fin_received := True\<rparr> else b)"

definition store_stream_data :: "stream_io \<Rightarrow> nat \<Rightarrow> nat \<Rightarrow> bytes \<Rightarrow> bool \<Rightarrow> stream_io" where
  "store_stream_data sio stream_id offset data fin =
    (case recv_slot sio stream_id of None \<Rightarrow> sio
     | Some (i, bufs) \<Rightarrow>
        let b = (case bufs ! i of None \<Rightarrow> recv_buf_new (STREAM_BUF sio) stream_id | Some b \<Rightarrow> b)
        in sio\<lparr>recv_bufs := bufs[i := Some (store_in_buf (STREAM_BUF sio) b offset data fin)]\<rparr>)"

text \<open>
  \<^verbatim>\<open>stream_recv\<close> into a buffer of length \<open>n\<close>: the bytes copied and whether the stream ended. The
  slot is emptied at the end of the stream; otherwise the unread bytes move to the front.
\<close>

definition read_buf :: "recv_buf \<Rightarrow> nat \<Rightarrow> recv_buf option \<times> (bytes \<times> bool) res" where
  "read_buf b n =
    (let available = rb_len b - rb_read_offset b
     in if available = 0 then
          if rb_fin_received b then (None, Ok ([], True)) else (Some b, Err WouldBlock)
        else
          let copy_len = min available n;
              out = take copy_len (drop (rb_read_offset b) (rb_data b));
              b = b\<lparr>rb_read_offset := rb_read_offset b + copy_len\<rparr>;
              fin = (rb_fin_received b \<and> rb_read_offset b \<ge> rb_len b)
          in if fin then (None, Ok (out, fin))
             else if rb_read_offset b > 0 then
               let moved = take (rb_len b - rb_read_offset b) (drop (rb_read_offset b) (rb_data b))
               in (Some (b\<lparr>rb_data := moved @ drop (length moved) (rb_data b),
                           rb_len := rb_len b - rb_read_offset b, rb_read_offset := 0\<rparr>), Ok (out, fin))
             else (Some b, Ok (out, fin)))"

definition stream_recv ::
  "conn_state \<Rightarrow> stream_io \<Rightarrow> nat \<Rightarrow> nat \<Rightarrow> stream_io \<times> (bytes \<times> bool) res" where
  "stream_recv st sio stream_id n =
    (if st = Closed then (sio, Err error.Closed)
     else case position (is_recv_buf stream_id) (recv_bufs sio) of
       None \<Rightarrow> (sio, Err WouldBlock)
     | Some i \<Rightarrow>
        (case recv_bufs sio ! i of None \<Rightarrow> (sio, Err WouldBlock)
         | Some b \<Rightarrow> (sio\<lparr>recv_bufs := (recv_bufs sio)[i := fst (read_buf b n)]\<rparr>, snd (read_buf b n))))"

section \<open>Reading back a stream\<close>

text \<open>The stream offset of the next byte the application reads.\<close>

definition rb_pos :: "recv_buf \<Rightarrow> nat" where
  "rb_pos b = rb_next_offset b - (rb_len b - rb_read_offset b)"

definition rb_ok :: "nat \<Rightarrow> bytes \<Rightarrow> recv_buf \<Rightarrow> bool" where
  "rb_ok sb S b \<longleftrightarrow> length (rb_data b) = sb \<and> rb_len b \<le> sb \<and> rb_read_offset b \<le> rb_len b
     \<and> rb_len b - rb_read_offset b \<le> rb_next_offset b \<and> rb_next_offset b \<le> length S
     \<and> take (rb_len b - rb_read_offset b) (drop (rb_read_offset b) (rb_data b))
       = take (rb_len b - rb_read_offset b) (drop (rb_pos b) S)"

text \<open>A piece of the stream fits: nothing of it is cut off at the end of the buffer.\<close>

definition fits_buf :: "nat \<Rightarrow> recv_buf \<Rightarrow> nat \<Rightarrow> nat \<Rightarrow> bool" where
  "fits_buf sb b offset len \<longleftrightarrow> offset + len - rb_next_offset b \<le> sb - rb_len b"

lemma rb_fin [simp]:
  "rb_pos (b\<lparr>rb_fin_received := f\<rparr>) = rb_pos b"
  "rb_ok sb S (b\<lparr>rb_fin_received := f\<rparr>) = rb_ok sb S b"
  by (simp_all add: rb_ok_def rb_pos_def)

lemma store_in_buf_spec:
  assumes ok: "rb_ok sb S b" and data: "data = take len (drop offset S)" "offset + len \<le> length S"
    and S: "length S < 2 ^ 62"
  shows "rb_ok sb S (store_in_buf sb b offset data fin)
    \<and> rb_pos (store_in_buf sb b offset data fin) = rb_pos b
    \<and> rb_read_offset (store_in_buf sb b offset data fin) = rb_read_offset b
    \<and> (offset \<le> rb_next_offset b \<and> fits_buf sb b offset len \<longrightarrow>
        rb_next_offset (store_in_buf sb b offset data fin) = max (rb_next_offset b) (offset + len))
    \<and> rb_next_offset b \<le> rb_next_offset (store_in_buf sb b offset data fin)
    \<and> rb_fin_received (store_in_buf sb b offset data fin)
      = (rb_fin_received b \<or> fin \<and> offset \<le> rb_next_offset b)"
proof -
  have len: "length data = len" using data by simp
  have e: "u64_add offset len = offset + len" using data(2) S by simp
  consider (gap) "offset > rb_next_offset b" | (old) "offset \<le> rb_next_offset b" "offset + len \<le> rb_next_offset b"
    | (new) "offset \<le> rb_next_offset b" "rb_next_offset b < offset + len" by linarith
  then show ?thesis
  proof cases
    case gap
    then show ?thesis using ok by (simp add: store_in_buf_def len e)
  next
    case old
    then show ?thesis using ok by (auto simp: store_in_buf_def len e rb_ok_def rb_pos_def)
  next
    case new
    let ?n = "rb_next_offset b" let ?u = "rb_len b - rb_read_offset b"
    define c where "c = min (length (drop (?n - offset) data)) (sb - rb_len b)"
    define piece where "piece = take c (drop (?n - offset) data)"
    have b: "length (rb_data b) = sb" "rb_len b \<le> sb" "rb_read_offset b \<le> rb_len b" "?u \<le> ?n" "?n \<le> length S"
        "take ?u (drop (rb_read_offset b) (rb_data b)) = take ?u (drop (?n - ?u) S)"
      using ok by (auto simp: rb_ok_def rb_pos_def)
    have lp: "length piece = c" by (simp add: piece_def c_def)
    have cl: "c \<le> offset + len - ?n" "c \<le> sb - rb_len b" using new by (auto simp: c_def len)
    have pS: "piece = take c (drop ?n S)"
    proof -
      have "drop (?n - offset) data = take (offset + len - ?n) (drop ?n S)"
        using new by (simp add: data(1) drop_take add.commute)
      then show ?thesis using cl(1) by (simp add: piece_def min_absorb1)
    qed
    define b' where "b' = b\<lparr>rb_data := take (rb_len b) (rb_data b) @ piece @ drop (rb_len b + c) (rb_data b),
        rb_len := rb_len b + c, rb_next_offset := ?n + c\<rparr>"
    have "?n + c \<le> length S" using cl(1) data(2) new by linarith
    then have nx: "u64_add ?n c = ?n + c" using S by simp
    have st: "store_in_buf sb b offset data fin = (if fin then b'\<lparr>rb_fin_received := True\<rparr> else b')"
      using new unfolding store_in_buf_def len e Let_def c_def [symmetric] piece_def [symmetric] nx
      by (simp add: b'_def)
    have "take (?u + c) (drop (rb_read_offset b) (rb_data b')) = take ?u (drop (rb_read_offset b) (rb_data b)) @ piece"
      using b cl lp by (simp add: b'_def drop_take min_absorb2)
    also have "\<dots> = take ?u (drop (?n - ?u) S) @ take c (drop (?n - ?u + ?u) S)"
      using b(4,6) pS by simp
    also have "\<dots> = take (?u + c) (drop (?n - ?u) S)"
      unfolding take_add [of ?u c] drop_drop by (simp only: add.commute)
    finally have content: "take (?u + c) (drop (rb_read_offset b) (rb_data b')) = take (?u + c) (drop (?n - ?u) S)" .
    have un: "rb_len b' - rb_read_offset b' = ?u + c" "rb_read_offset b' = rb_read_offset b"
        "rb_next_offset b' = ?n + c" "rb_fin_received b' = rb_fin_received b" "rb_pos b' = rb_pos b"
      using b by (simp_all add: b'_def rb_pos_def)
    have "rb_ok sb S b'"
      unfolding rb_ok_def un(5) unfolding un using content b cl lp data(2) new
      by (simp add: rb_pos_def) (simp add: b'_def, linarith)
    moreover have "fits_buf sb b offset len \<Longrightarrow> ?n + c = offset + len"
      using new by (simp add: fits_buf_def c_def len)
    ultimately show ?thesis using un(2-5) new unfolding st by simp
  qed
qed

lemma read_buf_spec:
  assumes ok: "rb_ok sb S b"
  shows "case read_buf b n of
      (b', Ok (out, fin)) \<Rightarrow>
        take (length out) (drop (rb_pos b) S) = out \<and> length out \<le> n
        \<and> (fin \<longleftrightarrow> rb_fin_received b \<and> rb_pos b + length out = rb_next_offset b)
        \<and> (if fin then b' = None
           else \<exists>c. b' = Some c \<and> rb_ok sb S c \<and> rb_pos c = rb_pos b + length out
             \<and> rb_next_offset c = rb_next_offset b \<and> rb_fin_received c = rb_fin_received b)
    | (b', Err e) \<Rightarrow> e = WouldBlock \<and> b' = Some b \<and> rb_pos b = rb_next_offset b \<and> \<not> rb_fin_received b
    | (b', Panic) \<Rightarrow> False"
proof -
  let ?u = "rb_len b - rb_read_offset b" and ?r = "rb_read_offset b" and ?d = "rb_data b"
  have b: "length ?d = sb" "rb_len b \<le> sb" "?r \<le> rb_len b" "?u \<le> rb_next_offset b"
      "rb_next_offset b \<le> length S" "take ?u (drop ?r ?d) = take ?u (drop (rb_pos b) S)"
    using ok by (auto simp: rb_ok_def)
  show ?thesis
  proof (cases "?u = 0")
    case True
    then show ?thesis using b by (simp add: read_buf_def rb_pos_def)
  next
    case False
    define c where "c = min ?u n"
    define out where "out = take c (drop ?r ?d)"
    define moved where "moved = take (rb_len b - (?r + c)) (drop (?r + c) ?d)"
    define b' where "b' = b\<lparr>rb_read_offset := 0, rb_data := moved @ drop (length moved) ?d, rb_len := rb_len b - (?r + c)\<rparr>"
    have c: "c \<le> ?u" "c \<le> n" by (auto simp: c_def)
    have lo: "length out = c" using b c by (simp add: out_def)
    have lm: "length moved = rb_len b - (?r + c)" using b c by (simp add: moved_def)
    have out: "out = take c (drop (rb_pos b) S)"
      using arg_cong [OF b(6), of "take c"] c by (simp add: out_def min_absorb1)
    have mS: "moved = take (?u - c) (drop (rb_pos b + c) S)"
      using arg_cong [OF b(6), of "drop c"] by (simp add: moved_def drop_take add.commute)
    have pos': "rb_pos b' = rb_pos b + c" using b c by (simp add: b'_def rb_pos_def)
    have ok': "rb_ok sb S b'"
      unfolding rb_ok_def pos' using b c lm mS by (simp add: b'_def) linarith
    define last_read where "last_read = (rb_fin_received b \<and> ?r + c \<ge> rb_len b)"
    have "read_buf b n = (if last_read then (None, Ok (out, True))
        else if ?r + c > 0 then (Some b', Ok (out, False)) else (Some b, Ok (out, False)))"
      using False unfolding read_buf_def Let_def c_def [symmetric] last_read_def
      by (cases b) (simp add: out_def moved_def b'_def)
    moreover have "last_read \<longleftrightarrow> rb_fin_received b \<and> rb_pos b + c = rb_next_offset b"
      using b c by (auto simp: last_read_def rb_pos_def)
    moreover have "rb_next_offset b' = rb_next_offset b" "rb_fin_received b' = rb_fin_received b"
      by (simp_all add: b'_def)
    ultimately show ?thesis
      using ok ok' pos' out lo c(2) by auto
  qed
qed

text \<open>
  The life of a receive buffer: pieces of the stream \<open>S\<close> are stored, the last ones with FIN, and
  the application reads. \<open>got\<close> is what it has read so far; \<open>ended\<close> says that a piece with FIN arrived
  that connects to what was received before it, \<open>whole\<close> that no such piece was cut off.
\<close>

inductive recv_run :: "nat \<Rightarrow> bytes \<Rightarrow> recv_buf \<Rightarrow> bytes \<Rightarrow> bool \<Rightarrow> bool \<Rightarrow> bool" for sb S where
  start: "recv_run sb S (recv_buf_new sb i) [] True False"
| piece: "recv_run sb S b got whole ended \<Longrightarrow> offset + len \<le> length S \<Longrightarrow> (fin \<longrightarrow> offset + len = length S) \<Longrightarrow>
    recv_run sb S (store_in_buf sb b offset (take len (drop offset S)) fin) got
      (whole \<and> (fin \<and> offset \<le> rb_next_offset b \<longrightarrow> fits_buf sb b offset len)) (ended \<or> fin \<and> offset \<le> rb_next_offset b)"
| read: "recv_run sb S b got whole ended \<Longrightarrow> read_buf b n = (Some b', Ok (out, fin)) \<Longrightarrow>
    recv_run sb S b' (got @ out) whole ended"

lemma recv_run_inv:
  assumes "recv_run sb S b got whole ended" and "length S < 2 ^ 62"
  shows "rb_ok sb S b \<and> rb_pos b = length got \<and> got = take (length got) S \<and> rb_fin_received b = ended
    \<and> (whole \<and> rb_fin_received b \<longrightarrow> rb_next_offset b = length S)"
  using assms
proof (induction rule: recv_run.induct)
  case (start i)
  then show ?case by (simp add: recv_buf_new_def rb_ok_def rb_pos_def)
next
  case (piece b got whole ended offset len fin)
  then have ok: "rb_ok sb S b" and IH: "rb_pos b = length got" "got = take (length got) S" "rb_fin_received b = ended"
      "whole \<and> rb_fin_received b \<longrightarrow> rb_next_offset b = length S"
    by auto
  let ?b = "store_in_buf sb b offset (take len (drop offset S)) fin"
  from store_in_buf_spec [OF ok refl piece(2) piece(5), of fin]
  have st: "rb_ok sb S ?b" "rb_pos ?b = rb_pos b" "rb_next_offset b \<le> rb_next_offset ?b"
      "offset \<le> rb_next_offset b \<and> fits_buf sb b offset len \<longrightarrow> rb_next_offset ?b = max (rb_next_offset b) (offset + len)"
      "rb_fin_received ?b = (rb_fin_received b \<or> fin \<and> offset \<le> rb_next_offset b)"
    by blast+
  have le: "rb_next_offset b \<le> length S" "rb_next_offset ?b \<le> length S"
    using ok st(1) by (simp_all add: rb_ok_def)
  have "rb_next_offset ?b = length S"
    if w: "whole" "fin \<and> offset \<le> rb_next_offset b \<longrightarrow> fits_buf sb b offset len" and f: "rb_fin_received ?b"
  proof (cases "rb_fin_received b")
    case True
    with w(1) IH(4) st(3) le(2) show ?thesis by linarith
  next
    case False
    with f st(5) have "fin" "offset \<le> rb_next_offset b" by blast+
    with w(2) st(4) piece(3) le(1) show ?thesis by (metis max.absorb2)
  qed
  then show ?case using st(1,2,5) IH(1-3) by simp
next
  case (read b got whole ended n b' out fin)
  then have ok: "rb_ok sb S b" and IH: "rb_pos b = length got" "got = take (length got) S" "rb_fin_received b = ended"
      "whole \<and> rb_fin_received b \<longrightarrow> rb_next_offset b = length S"
    by auto
  from read_buf_spec [OF ok, of n]
  have "take (length out) (drop (rb_pos b) S) = out \<and> (\<not> fin \<longrightarrow> rb_ok sb S b' \<and> rb_pos b' = rb_pos b + length out
      \<and> rb_next_offset b' = rb_next_offset b \<and> rb_fin_received b' = rb_fin_received b) \<and> \<not> fin"
    unfolding read(2) prod.case res.case by (cases fin) simp_all
  then have r: "take (length out) (drop (length got) S) = out"
    "rb_ok sb S b'" "rb_pos b' = length got + length out" "rb_next_offset b' = rb_next_offset b"
    "rb_fin_received b' = rb_fin_received b"
    unfolding IH(1) by blast+
  have "got @ out = take (length got + length out) S" using IH(2) r(1) by (metis take_add)
  moreover have "rb_pos b' = length (got @ out)" using r(3) by simp
  ultimately show ?case using r(2,4,5) IH(3,4) by (metis length_append)
qed

section \<open>Properties\<close>

text \<open>
  C16: Reading a stream. Whatever pieces of a stream arrive in a receive buffer, in whatever order
  and with whatever overlaps and losses, the application reads the stream from its start, in
  order and without gaps. Once the end of the stream has arrived a read never blocks, and if no piece
  with FIN was cut off by a full buffer, it reports the end exactly when all of the stream has been read.
  Before that no end is reported, and a read blocks only when everything received has been read.
\<close>

theorem stream_read_correct:
  assumes "recv_run sb S b got whole ended" and "length S < 2 ^ 62"
  shows "case read_buf b n of
      (b', Ok (out, fin)) \<Rightarrow> got @ out = take (length got + length out) S \<and> length out \<le> n
        \<and> (whole \<and> ended \<longrightarrow> (fin \<longleftrightarrow> got @ out = S)) \<and> (fin \<longrightarrow> ended)
    | (b', Err e) \<Rightarrow> e = WouldBlock \<and> \<not> ended \<and> length got = rb_next_offset b
    | (b', Panic) \<Rightarrow> False"
proof -
  have inv: "rb_ok sb S b" "rb_pos b = length got" "got = take (length got) S" "rb_fin_received b = ended"
      "whole \<and> rb_fin_received b \<longrightarrow> rb_next_offset b = length S"
    using recv_run_inv [OF assms] by auto
  obtain b' r where r: "read_buf b n = (b', r)" by force
  note spec = read_buf_spec [OF inv(1), of n, unfolded r prod.case inv(2,4)]
  show ?thesis
  proof (cases r)
    case (Ok x)
    obtain out fin where x: "x = (out, fin)" by force
    have o: "take (length out) (drop (length got) S) = out" "length out \<le> n"
        "fin \<longleftrightarrow> ended \<and> length got + length out = rb_next_offset b"
      using spec unfolding Ok x res.case prod.case by simp_all
    have "got @ out = take (length got + length out) S" using inv(3) o(1) by (metis take_add)
    moreover from this have "length got + length out = length S \<longleftrightarrow> got @ out = S"
      by (metis length_append take_all order_refl)
    ultimately show ?thesis using o inv(4,5) by (auto simp: r Ok x)
  next
    case (Err e)
    then show ?thesis using spec by (simp add: r)
  next
    case Panic
    then show ?thesis using spec by simp
  qed
qed

lemma replicate_8: "replicate 8 x = [x, x, x, x, x, x, x, x]"
  by (simp add: numeral_eq_Suc)

theorem stream_read_correct_witness:
  "\<exists>b b' out. recv_run 8 [1, 2, 3, 4] b [] True True \<and> read_buf b 10 = (b', Ok (out, True))
     \<and> [] @ out = [1, 2, 3, 4]"
proof -
  let ?S = "[1, 2, 3, 4] :: bytes"
  let ?b1 = "store_in_buf 8 (recv_buf_new 8 0) 0 (take 3 (drop 0 ?S)) False"
  let ?b = "store_in_buf 8 ?b1 2 (take 2 (drop 2 ?S)) True"
  have b1: "?b1 = \<lparr>rb_stream_id = 0, rb_data = [1, 2, 3, 0, 0, 0, 0, 0], rb_len = 3, rb_read_offset = 0,
      rb_fin_received = False, rb_next_offset = 3\<rparr>"
    by (simp add: store_in_buf_def recv_buf_new_def replicate_8)
  have b: "?b = \<lparr>rb_stream_id = 0, rb_data = [1, 2, 3, 4, 0, 0, 0, 0], rb_len = 4, rb_read_offset = 0,
      rb_fin_received = True, rb_next_offset = 4\<rparr>"
    unfolding b1 by (simp add: store_in_buf_def)
  have "recv_run 8 ?S ?b1 [] (True \<and> (False \<and> 0 \<le> rb_next_offset (recv_buf_new 8 0) \<longrightarrow> fits_buf 8 (recv_buf_new 8 0) 0 3))
      (False \<or> False \<and> 0 \<le> rb_next_offset (recv_buf_new 8 0))"
    by (rule recv_run.piece [OF recv_run.start]) simp_all
  then have "recv_run 8 ?S ?b [] ((True \<and> (False \<and> 0 \<le> rb_next_offset (recv_buf_new 8 0) \<longrightarrow> fits_buf 8 (recv_buf_new 8 0) 0 3))
      \<and> (True \<and> 2 \<le> rb_next_offset ?b1 \<longrightarrow> fits_buf 8 ?b1 2 2))
      ((False \<or> False \<and> 0 \<le> rb_next_offset (recv_buf_new 8 0)) \<or> True \<and> 2 \<le> rb_next_offset ?b1)"
    by (rule recv_run.piece) simp_all
  moreover have "fits_buf 8 ?b1 2 2" "2 \<le> rb_next_offset ?b1" unfolding b1 by (simp_all add: fits_buf_def)
  ultimately have run: "recv_run 8 ?S ?b [] True True" by simp
  have read: "read_buf ?b 10 = (None, Ok ([1, 2, 3, 4], True))"
    unfolding b by (simp add: read_buf_def)
  have "[] @ [1, 2, 3, 4] = ?S" using stream_read_correct [OF run, of 10] unfolding read by simp
  with run read show ?thesis by blast
qed

text \<open>
  Truncated streams end early. When a piece with FIN does not fit the receive buffer, the rest of
  it is dropped but the FIN is kept: the application reads the part that fitted and is told that
  the stream is complete. The missing bytes were acknowledged to the peer and are lost.
\<close>

theorem truncated_stream_reports_end:
  "\<exists>b b' out. recv_run 2 [1, 2, 3, 4] b [] False True \<and> read_buf b 10 = (b', Ok (out, True)) \<and> out = [1, 2]"
proof -
  let ?S = "[1, 2, 3, 4] :: bytes"
  let ?b = "store_in_buf 2 (recv_buf_new 2 0) 0 (take 4 (drop 0 ?S)) True"
  have b: "?b = \<lparr>rb_stream_id = 0, rb_data = [1, 2], rb_len = 2, rb_read_offset = 0,
      rb_fin_received = True, rb_next_offset = 2\<rparr>"
    by (simp add: store_in_buf_def recv_buf_new_def)
  have "recv_run 2 ?S ?b [] (True \<and> (True \<and> 0 \<le> rb_next_offset (recv_buf_new 2 0) \<longrightarrow> fits_buf 2 (recv_buf_new 2 0) 0 4))
      (False \<or> True \<and> 0 \<le> rb_next_offset (recv_buf_new 2 0))"
    by (rule recv_run.piece [OF recv_run.start]) simp_all
  moreover have "\<not> fits_buf 2 (recv_buf_new 2 0) 0 4" by (simp add: fits_buf_def recv_buf_new_def)
  ultimately have "recv_run 2 ?S ?b [] False True" by simp
  moreover have "read_buf ?b 10 = (None, Ok ([1, 2], True))"
    unfolding b by (simp add: read_buf_def)
  ultimately show ?thesis by blast
qed

end
