(* ===== verification/Transport_Params.thy ===== *)
theory Transport_Params
  imports Varint
begin

text \<open>
  QUIC transport parameters (\<^verbatim>\<open>src/tls/transport_params.rs\<close>): a sequence of triples of identifier,
  length and value. \<open>params_bytes\<close> is the wire image of a set of parameters; the encoder writes
  it, the decoder inverts it, and the decoder never panics where \<^verbatim>\<open>usize\<close> has 64 bits.
\<close>

section \<open>The code\<close>

record transport_params =
  max_idle_timeout :: nat
  max_udp_payload_size :: nat
  initial_max_data :: nat
  initial_max_stream_data_bidi_local :: nat
  initial_max_stream_data_bidi_remote :: nat
  initial_max_stream_data_uni :: nat
  initial_max_streams_bidi :: nat
  initial_max_streams_uni :: nat
  ack_delay_exponent :: nat
  max_ack_delay :: nat
  active_connection_id_limit :: nat
  original_dcid :: bytes
  original_dcid_len :: nat
  initial_scid :: bytes
  initial_scid_len :: nat

definition default_params :: transport_params where
  "default_params =
    \<lparr>max_idle_timeout = 30000, max_udp_payload_size = 65527, initial_max_data = 1048576,
     initial_max_stream_data_bidi_local = 262144, initial_max_stream_data_bidi_remote = 262144,
     initial_max_stream_data_uni = 262144, initial_max_streams_bidi = 100,
     initial_max_streams_uni = 100, ack_delay_exponent = 3, max_ack_delay = 25,
     active_connection_id_limit = 2, original_dcid = replicate 20 0, original_dcid_len = 0,
     initial_scid = replicate 20 0, initial_scid_len = 0\<rparr>"

fun encode_param :: "nat \<Rightarrow> nat \<Rightarrow> cursor \<Rightarrow> cursor res" where
  "encode_param i val (buf, offset) =
    (let val_len = varint_len val;
         needed = varint_len i + varint_len val_len + val_len
     in if length buf < offset + needed then Err (BufferTooSmall (offset + needed))
        else res_bind (put_varint i (buf, offset)) (\<lambda>c.
             res_bind (put_varint val_len c) (\<lambda>c. put_varint val c)))"

fun encode_bytes_param :: "nat \<Rightarrow> bytes \<Rightarrow> cursor \<Rightarrow> cursor res" where
  "encode_bytes_param i data (buf, offset) =
    (let data_len = length data;
         needed = varint_len i + varint_len data_len + data_len
     in if length buf < offset + needed then Err (BufferTooSmall (offset + needed))
        else res_bind (put_varint i (buf, offset)) (\<lambda>c.
             res_bind (put_varint data_len c) (\<lambda>c. put_bytes data c)))"

definition encode_cid_param :: "nat \<Rightarrow> bytes \<Rightarrow> nat \<Rightarrow> cursor \<Rightarrow> cursor res" where
  "encode_cid_param i cid len c =
    (if len > 0 then res_bind (slice cid 0 len) (\<lambda>data. encode_bytes_param i data c) else Ok c)"

definition params_encode :: "transport_params \<Rightarrow> bytes \<Rightarrow> cursor res" where
  "params_encode p buf =
    res_bind (encode_cid_param 0x00 (original_dcid p) (original_dcid_len p) (buf, 0)) (\<lambda>c.
    res_bind (encode_param 0x01 (max_idle_timeout p) c) (\<lambda>c.
    res_bind (encode_param 0x03 (max_udp_payload_size p) c) (\<lambda>c.
    res_bind (encode_param 0x04 (initial_max_data p) c) (\<lambda>c.
    res_bind (encode_param 0x05 (initial_max_stream_data_bidi_local p) c) (\<lambda>c.
    res_bind (encode_param 0x06 (initial_max_stream_data_bidi_remote p) c) (\<lambda>c.
    res_bind (encode_param 0x07 (initial_max_stream_data_uni p) c) (\<lambda>c.
    res_bind (encode_param 0x08 (initial_max_streams_bidi p) c) (\<lambda>c.
    res_bind (encode_param 0x09 (initial_max_streams_uni p) c) (\<lambda>c.
    res_bind (encode_param 0x0a (ack_delay_exponent p) c) (\<lambda>c.
    res_bind (encode_param 0x0b (max_ack_delay p) c) (\<lambda>c.
    res_bind (encode_param 0x0e (active_connection_id_limit p) c) (\<lambda>c.
    encode_cid_param 0x0f (initial_scid p) (initial_scid_len p) c))))))))))))"

definition params_initial :: transport_params where
  "params_initial =
    \<lparr>max_idle_timeout = 0, max_udp_payload_size = 65527, initial_max_data = 0,
     initial_max_stream_data_bidi_local = 0, initial_max_stream_data_bidi_remote = 0,
     initial_max_stream_data_uni = 0, initial_max_streams_bidi = 0,
     initial_max_streams_uni = 0, ack_delay_exponent = 3, max_ack_delay = 25,
     active_connection_id_limit = 2, original_dcid = replicate 20 0, original_dcid_len = 0,
     initial_scid = replicate 20 0, initial_scid_len = 0\<rparr>"

text \<open>The inner \<^verbatim>\<open>match\<close> on the identifiers whose value is a varint.\<close>

definition set_int_param :: "nat \<Rightarrow> nat \<Rightarrow> transport_params \<Rightarrow> transport_params res" where
  "set_int_param i val p =
    (if i = 0x01 then Ok (p\<lparr>max_idle_timeout := val\<rparr>)
     else if i = 0x03 then Ok (p\<lparr>max_udp_payload_size := val\<rparr>)
     else if i = 0x04 then Ok (p\<lparr>initial_max_data := val\<rparr>)
     else if i = 0x05 then Ok (p\<lparr>initial_max_stream_data_bidi_local := val\<rparr>)
     else if i = 0x06 then Ok (p\<lparr>initial_max_stream_data_bidi_remote := val\<rparr>)
     else if i = 0x07 then Ok (p\<lparr>initial_max_stream_data_uni := val\<rparr>)
     else if i = 0x08 then Ok (p\<lparr>initial_max_streams_bidi := val\<rparr>)
     else if i = 0x09 then Ok (p\<lparr>initial_max_streams_uni := val\<rparr>)
     else if i = 0x0a then Ok (p\<lparr>ack_delay_exponent := val\<rparr>)
     else if i = 0x0b then Ok (p\<lparr>max_ack_delay := val\<rparr>)
     else if i = 0x0e then Ok (p\<lparr>active_connection_id_limit := val\<rparr>)
     else Panic)"

definition is_int_param :: "nat \<Rightarrow> bool" where
  "is_int_param i \<longleftrightarrow>
    i \<in> {0x01, 0x03, 0x04, 0x05, 0x06, 0x07, 0x08, 0x09, 0x0a, 0x0b, 0x0e}"

definition set_param :: "nat \<Rightarrow> bytes \<Rightarrow> transport_params \<Rightarrow> transport_params res" where
  "set_param i param_data p =
    (if i = 0x00 then
       let copy_len = min (length param_data) 20
       in res_bind (copy_at (original_dcid p) 0 (take copy_len param_data)) (\<lambda>d.
          Ok (p\<lparr>original_dcid := d, original_dcid_len := copy_len\<rparr>))
     else if i = 0x0f then
       let copy_len = min (length param_data) 20
       in res_bind (copy_at (initial_scid p) 0 (take copy_len param_data)) (\<lambda>d.
          Ok (p\<lparr>initial_scid := d, initial_scid_len := copy_len\<rparr>))
     else if is_int_param i then
       res_bind (decode_varint param_data) (\<lambda>(val, _). set_int_param i val p)
     else Ok p)"

function params_loop :: "nat \<Rightarrow> bytes \<Rightarrow> nat \<Rightarrow> transport_params \<Rightarrow> transport_params res" where
  "params_loop uw buf off params =
    (if off < length buf then
       res_bind (decode_varint (drop off buf)) (\<lambda>(i, id_len).
       res_bind (slice_from buf (off + id_len)) (\<lambda>s.
       res_bind (decode_varint s) (\<lambda>(param_len, len_len).
       let start = off + id_len + len_len;
           param_end = usize_add uw start (as_usize uw param_len)
       in if param_end > length buf then Err Tls
          else res_bind (slice buf start param_end) (\<lambda>param_data.
               res_bind (set_param i param_data params) (\<lambda>params.
               params_loop uw buf param_end params)))))
     else Ok params)"
  by pat_completeness auto
termination
  by (relation "measure (\<lambda>(uw, buf, off, params). length buf - off)")
     (auto simp: buf_Ok dest!: decode_varint_consumed)

declare params_loop.simps [simp del]

definition params_decode :: "nat \<Rightarrow> bytes \<Rightarrow> transport_params res" where
  "params_decode uw buf = params_loop uw buf 0 params_initial"

section \<open>The wire image\<close>

definition param_bytes :: "nat \<times> bytes \<Rightarrow> bytes" where
  "param_bytes = (\<lambda>(i, d). varint_bytes i @ varint_bytes (length d) @ d)"

definition cid_item :: "nat \<Rightarrow> bytes \<Rightarrow> nat \<Rightarrow> (nat \<times> bytes) list" where
  "cid_item i cid len = (if len > 0 then [(i, take len cid)] else [])"

definition int_items :: "transport_params \<Rightarrow> (nat \<times> nat) list" where
  "int_items p =
    [(0x01, max_idle_timeout p), (0x03, max_udp_payload_size p), (0x04, initial_max_data p),
     (0x05, initial_max_stream_data_bidi_local p), (0x06, initial_max_stream_data_bidi_remote p),
     (0x07, initial_max_stream_data_uni p), (0x08, initial_max_streams_bidi p),
     (0x09, initial_max_streams_uni p), (0x0a, ack_delay_exponent p), (0x0b, max_ack_delay p),
     (0x0e, active_connection_id_limit p)]"

definition items :: "transport_params \<Rightarrow> (nat \<times> bytes) list" where
  "items p = cid_item 0x00 (original_dcid p) (original_dcid_len p)
     @ map (\<lambda>(i, v). (i, varint_bytes v)) (int_items p)
     @ cid_item 0x0f (initial_scid p) (initial_scid_len p)"

definition params_bytes :: "transport_params \<Rightarrow> bytes" where
  "params_bytes p = concat (map param_bytes (items p))"

text \<open>A connection identifier in its array of 20 bytes, the unused bytes zero.\<close>

definition cid_wf :: "bytes \<Rightarrow> nat \<Rightarrow> bool" where
  "cid_wf cid len \<longleftrightarrow> length cid = 20 \<and> len \<le> 20 \<and> drop len cid = replicate (20 - len) 0"

definition params_wf :: "transport_params \<Rightarrow> bool" where
  "params_wf p \<longleftrightarrow> list_all (\<lambda>(_, v). v \<le> MAX_VARINT) (int_items p)
     \<and> cid_wf (original_dcid p) (original_dcid_len p) \<and> cid_wf (initial_scid p) (initial_scid_len p)"

lemma length_param_bytes [simp]: "length (param_bytes (i, d)) = varint_len i + varint_len (length d) + length d"
  by (simp add: param_bytes_def)

lemma encode_bytes_param_wr [wire_simps]:
  assumes "i \<le> MAX_VARINT" and "length d \<le> MAX_VARINT" and "length (out @ param_bytes (i, d)) \<le> length buf"
  shows "encode_bytes_param i d (wr buf out) = Ok (wr buf (out @ param_bytes (i, d)))"
proof -
  have "length (out @ drop (length out) buf) = length buf" using assms(3) by simp
  then show ?thesis using assms put_varint_wr [of i out buf]
      put_varint_wr [of "length d" "out @ varint_bytes i" buf]
      put_bytes_wr [of "out @ varint_bytes i @ varint_bytes (length d)" d buf]
    by (simp add: wr_def Let_def param_bytes_def add.assoc)
qed

lemma varint_len_small [simp]: "varint_len v \<le> MAX_VARINT"
  using varint_len_le_8 [of v] by (simp add: MAX_VARINT_def)

lemma encode_param_wr [wire_simps]:
  assumes "i \<le> MAX_VARINT" and "v \<le> MAX_VARINT" and "length (out @ param_bytes (i, varint_bytes v)) \<le> length buf"
  shows "encode_param i v (wr buf out) = Ok (wr buf (out @ param_bytes (i, varint_bytes v)))"
proof -
  have "length (out @ drop (length out) buf) = length buf" using assms(3) by simp
  then show ?thesis using assms put_varint_wr [of i out buf]
      put_varint_wr [of "varint_len v" "out @ varint_bytes i" buf]
      put_varint_wr [of v "out @ varint_bytes i @ varint_bytes (varint_len v)" buf]
    by (simp add: wr_def Let_def param_bytes_def add.assoc)
qed

lemma encode_cid_param_wr [wire_simps]:
  assumes "i \<le> MAX_VARINT" and "cid_wf cid len"
    and "length (out @ concat (map param_bytes (cid_item i cid len))) \<le> length buf"
  shows "encode_cid_param i cid len (wr buf out) = Ok (wr buf (out @ concat (map param_bytes (cid_item i cid len))))"
  using assms encode_bytes_param_wr [of i "take len cid" out buf]
  by (cases "len > 0") (simp_all add: encode_cid_param_def cid_item_def cid_wf_def MAX_VARINT_def)

lemma params_encode_wr:
  assumes "params_wf p" and "length (params_bytes p) \<le> length buf"
  shows "params_encode p buf = Ok (wr buf (params_bytes p))"
  using assms unfolding params_encode_def wr_start
  by (simp add: params_wf_def int_items_def params_bytes_def items_def MAX_VARINT_def [THEN eq_reflection]
      encode_cid_param_wr encode_param_wr)

section \<open>Decoding\<close>

primrec set_all :: "(nat \<times> bytes) list \<Rightarrow> transport_params \<Rightarrow> transport_params res" where
  "set_all [] p = Ok p"
| "set_all (x # xs) p = res_bind (set_param (fst x) (snd x) p) (set_all xs)"

lemma params_loop_items:
  assumes "list_all (\<lambda>(i, d). i \<le> MAX_VARINT \<and> length d \<le> MAX_VARINT) ps"
    and "length (pre @ concat (map param_bytes ps)) < 2 ^ uw"
  shows "params_loop uw (pre @ concat (map param_bytes ps)) (length pre) p = set_all ps p"
  using assms
proof (induction ps arbitrary: pre p)
  case Nil
  then show ?case by (simp add: params_loop.simps)
next
  case (Cons x ps)
  obtain i d where x: "x = (i, d)" by force
  let ?rest = "concat (map param_bytes ps)"
  let ?buf = "pre @ concat (map param_bytes (x # ps))"
  have buf: "?buf = (pre @ param_bytes x) @ ?rest" by simp
  have b: "i \<le> MAX_VARINT" "length d \<le> MAX_VARINT" using Cons.prems(1) by (auto simp: x)
  have IH: "params_loop uw ?buf (length (pre @ param_bytes x)) = set_all ps"
    unfolding buf by (rule ext, rule Cons.IH) (use Cons.prems in simp_all)
  have d1: "decode_varint (drop (length pre) ?buf) = Ok (i, varint_len i)"
    using decode_varint_bytes [OF b(1)] by (simp add: x param_bytes_def)
  have d2: "slice_from ?buf (length pre + varint_len i) = Ok (varint_bytes (length d) @ d @ ?rest)"
    by (simp add: slice_from_def x param_bytes_def)
  have lt: "length pre + varint_len i + varint_len (length d) + length d < 2 ^ uw"
    using Cons.prems(2) by (simp add: x)
  then have au: "as_usize uw (length d) = length d" by simp
  have ua: "usize_add uw (length pre + varint_len i + varint_len (length d)) (length d)
      = length (pre @ param_bytes x)"
    using lt by (simp add: x)
  have sl: "slice ?buf (length pre + varint_len i + varint_len (length d)) (length (pre @ param_bytes x)) = Ok d"
    by (simp add: slice_def x param_bytes_def)
  have ne: "length pre < length ?buf" by (simp add: x)
  show ?case
    by (subst params_loop.simps)
       (simp only: ne d1 d2 decode_varint_bytes [OF b(2)] au ua sl res_bind.simps prod.case Let_def if_True,
        simp add: IH [unfolded x, simplified] x)
qed

lemma items_bounds: "params_wf p \<Longrightarrow> list_all (\<lambda>(i, d). i \<le> MAX_VARINT \<and> length d \<le> MAX_VARINT) (items p)"
  by (simp add: items_def int_items_def params_wf_def cid_item_def cid_wf_def MAX_VARINT_def
      le_trans [OF varint_len_le_8])

lemma cid_copy: "cid_wf cid len \<Longrightarrow> copy_at (replicate 20 0) 0 (take len cid) = Ok cid"
  by (simp add: cid_wf_def copy_at_def) (metis append_take_drop_id min_absorb2)

lemma cid_wf_0: "cid_wf cid 0 \<Longrightarrow> cid = replicate 20 0"
  by (simp add: cid_wf_def)

lemma decode_varint_whole: "v \<le> MAX_VARINT \<Longrightarrow> decode_varint (varint_bytes v) = Ok (v, varint_len v)"
  using decode_varint_bytes [of v "[]"] by simp

lemma set_all_cid0:
  assumes "cid_wf cid len"
  shows "set_all (cid_item 0 cid len @ xs) params_initial
    = set_all xs (params_initial\<lparr>original_dcid := cid, original_dcid_len := len\<rparr>)"
  using assms cid_wf_0 [of cid] cid_copy [OF assms]
  by (cases "len > 0") (auto simp: cid_item_def set_param_def Let_def params_initial_def cid_wf_def min_absorb1)

lemma set_all_int_items:
  assumes "list_all (\<lambda>(_, v). v \<le> MAX_VARINT) (int_items p)"
  shows "set_all (map (\<lambda>(i, v). (i, varint_bytes v)) (int_items p) @ xs)
      (params_initial\<lparr>original_dcid := cid, original_dcid_len := len\<rparr>)
    = set_all xs (p\<lparr>original_dcid := cid, original_dcid_len := len,
        initial_scid := replicate 20 0, initial_scid_len := 0\<rparr>)"
  using assms
  by (cases p) (simp add: int_items_def set_param_def is_int_param_def set_int_param_def
      decode_varint_whole params_initial_def)

lemma set_all_cid15:
  assumes "cid_wf cid len"
  shows "set_all (cid_item 15 cid len) (p\<lparr>initial_scid := replicate 20 0, initial_scid_len := 0\<rparr>)
    = Ok (p\<lparr>initial_scid := cid, initial_scid_len := len\<rparr>)"
  using assms cid_wf_0 [of cid] cid_copy [OF assms]
  by (cases "len > 0") (auto simp: cid_item_def set_param_def Let_def cid_wf_def min_absorb1)

lemma set_all_items:
  assumes "params_wf p"
  shows "set_all (items p) params_initial = Ok p"
proof -
  have w: "cid_wf (original_dcid p) (original_dcid_len p)" "cid_wf (initial_scid p) (initial_scid_len p)"
      "list_all (\<lambda>(_, v). v \<le> MAX_VARINT) (int_items p)"
    using assms by (auto simp: params_wf_def)
  show ?thesis
    unfolding items_def set_all_cid0 [OF w(1)] set_all_int_items [OF w(3)] set_all_cid15 [OF w(2)]
    by simp
qed

definition cid_lengths :: "transport_params \<Rightarrow> bool" where
  "cid_lengths p \<longleftrightarrow> length (original_dcid p) = 20 \<and> length (initial_scid p) = 20"

lemma set_param_safe:
  assumes "cid_lengths p"
  shows "set_param i d p \<noteq> Panic" and "set_param i d p = Ok q \<Longrightarrow> cid_lengths q"
  using assms
  by (auto simp: set_param_def is_int_param_def set_int_param_def cid_lengths_def Let_def
      res_bind_eq_Panic res_bind_eq_Ok copy_at_def split: if_splits)

lemma params_loop_no_panic:
  assumes "length buf + 2 ^ 62 \<le> 2 ^ uw" and "cid_lengths p"
  shows "params_loop uw buf off p \<noteq> Panic"
  using assms(2)
proof (induction "length buf - off" arbitrary: off p rule: less_induct)
  case less
  have sp: "set_param i d p \<noteq> Panic" for i d by (rule set_param_safe [OF less.prems])
  have lp: "params_loop uw buf e q \<noteq> Panic"
    if "set_param i d p = Ok q" and "off < e" and "off < length buf" for i d e q
    using less.hyps [of e q] set_param_safe(2) [OF less.prems that(1)] that(2,3) by simp
  have exact: "usize_add uw a (as_usize uw l) = a + l" if "l \<le> MAX_VARINT" "a \<le> length buf" for l a
    using that assms(1) by (simp add: MAX_VARINT_def)
  have dv: "0 < m \<and> m \<le> length s \<and> l \<le> MAX_VARINT" if "decode_varint s = Ok (l, m)" for s l m
    using decode_varint_consumed [OF that] decode_varint_MAX [OF that] by simp
  show ?case
    by (subst params_loop.simps)
       (auto simp: res_bind_eq_Panic buf_Panic buf_Ok exact sp Let_def dest!: dv dest: lp,
        use lp in fastforce)
qed

section \<open>Properties\<close>

lemma params_decode_bytes:
  assumes "params_wf p" and "length (params_bytes p) < 2 ^ uw"
  shows "params_decode uw (params_bytes p) = Ok p"
proof -
  have "params_loop uw ([] @ concat (map param_bytes (items p))) (length ([] :: bytes)) params_initial
      = set_all (items p) params_initial"
    by (rule params_loop_items [OF items_bounds [OF assms(1)]])
       (use assms(2) in \<open>simp add: params_bytes_def\<close>)
  then show ?thesis by (simp add: params_decode_def params_bytes_def set_all_items [OF assms(1)])
qed

text \<open>
  C19: Transport parameters survive the handshake: what \<open>params_encode\<close> writes for well-formed
  parameters into a large enough buffer is decoded by the peer to the same parameters.
\<close>

theorem params_roundtrip:
  assumes "params_wf p" and "length (params_bytes p) \<le> length buf" and "length buf < 2 ^ uw"
  shows "\<exists>buf' n. params_encode p buf = Ok (buf', n) \<and> params_decode uw (take n buf') = Ok p"
proof -
  have "params_decode uw (params_bytes p) = Ok p" using assms by (intro params_decode_bytes) auto
  with params_encode_wr [OF assms(1,2)] show ?thesis by (simp add: wr_def)
qed

lemma default_params_wf: "params_wf default_params"
  by (simp add: params_wf_def int_items_def default_params_def cid_wf_def MAX_VARINT_def)

lemma length_default_params: "length (params_bytes default_params) \<le> 100"
  by (simp add: params_bytes_def items_def int_items_def cid_item_def default_params_def varint_len_def)

theorem params_roundtrip_witness:
  "\<exists>buf' n. params_encode default_params (replicate 100 0) = Ok (buf', n)
     \<and> params_decode 32 (take n buf') = Ok default_params"
  by (rule params_roundtrip [OF default_params_wf]) (simp_all add: length_default_params)

lemma params_decode_no_panic: "length buf + 2 ^ 62 \<le> 2 ^ uw \<Longrightarrow> params_decode uw buf \<noteq> Panic"
  unfolding params_decode_def
  by (rule params_loop_no_panic) (simp_all add: params_initial_def cid_lengths_def)

text \<open>
  Decoding transport parameters is total: on 64-bit targets the decoder returns parameters or
  an error on every input, without a panic.
\<close>

theorem params_decode_total:
  assumes "length buf + 2 ^ 62 \<le> 2 ^ uw"
  shows "params_decode uw buf \<noteq> Panic"
  using assms by (rule params_decode_no_panic)

theorem params_decode_total_witness: "params_decode 64 [0x40, 0xff] \<noteq> Panic"
  by (rule params_decode_total) simp

end
