(* ===== verification/Crypto_Keys.thy ===== *)
theory Crypto_Keys
  imports Recovery
begin

unbundle bit_operations_syntax

text \<open>
  Key derivation (\<^verbatim>\<open>src/crypto/key_schedule.rs\<close>) and the keys of a connection with the key update of
  RFC 9001 section 6 (\<^verbatim>\<open>src/connection/keys.rs\<close>). The primitives of the crypto crates, HKDF, the
  AEAD and header protection, are fields of \<open>crypto_provider\<close>, an argument of every definition
  that uses them. The AEAD and header-protection objects of the Initial and of the negotiated
  cipher suite have one carrier type each.
\<close>

section \<open>Primitives\<close>

record ('a, 'h) crypto_provider =
  hkdf_extract :: "bytes \<Rightarrow> bytes \<Rightarrow> bytes"
  hkdf_expand :: "bytes \<Rightarrow> bytes \<Rightarrow> nat \<Rightarrow> bytes res"
  new_aead :: "bytes \<Rightarrow> 'a res"
  new_hp :: "bytes \<Rightarrow> 'h res"
  aead_seal :: "'a \<Rightarrow> bytes \<Rightarrow> bytes \<Rightarrow> bytes \<Rightarrow> bytes res"
  aead_open :: "'a \<Rightarrow> bytes \<Rightarrow> bytes \<Rightarrow> bytes \<Rightarrow> bytes res"
  hp_mask :: "'h \<Rightarrow> bytes \<Rightarrow> bytes"

record ('a, 'h) directional_keys =
  dk_aead :: 'a
  dk_hp :: 'h
  dk_iv :: bytes

definition nonce :: "('a, 'h) directional_keys \<Rightarrow> nat \<Rightarrow> bytes" where
  "nonce k packet_number =
    take 4 (dk_iv k) @ map2 (XOR) (drop 4 (dk_iv k)) (be_bytes 8 packet_number)"

datatype cipher_suite = TlsAes128GcmSha256 | TlsChacha20Poly1305Sha256

primrec suite_key_len :: "cipher_suite \<Rightarrow> nat" where
  "suite_key_len TlsAes128GcmSha256 = 16"
| "suite_key_len TlsChacha20Poly1305Sha256 = 32"

primrec suite_hp_key_len :: "cipher_suite \<Rightarrow> nat" where
  "suite_hp_key_len TlsAes128GcmSha256 = 16"
| "suite_hp_key_len TlsChacha20Poly1305Sha256 = 32"

section \<open>Key schedule\<close>

definition INITIAL_SALT_V1 :: bytes where
  "INITIAL_SALT_V1 =
    [0x38, 0x76, 0x2c, 0xf7, 0xf5, 0x59, 0x34, 0xb3, 0x4d, 0x17, 0x9a, 0xe6, 0xa4, 0xc8, 0x0c, 0xad,
     0xcc, 0xbb, 0x7f, 0x0a]"

definition hkdf_expand_label ::
  "('a, 'h) crypto_provider \<Rightarrow> bytes \<Rightarrow> bytes \<Rightarrow> bytes \<Rightarrow> nat \<Rightarrow> bytes res" where
  "hkdf_expand_label P secret label context out_len =
    (let tls13_prefix = ascii ''tls13 '';
         full_label_len = length tls13_prefix + length label;
         info_len = 2 + 1 + full_label_len + 1 + length context
     in if info_len > 80 then Err Crypto
        else hkdf_expand P secret
               (be_bytes 2 out_len @ [word_of_nat full_label_len] @ tls13_prefix @ label
                @ [word_of_nat (length context)] @ context) out_len)"

definition derive_initial_secrets ::
  "('a, 'h) crypto_provider \<Rightarrow> bytes \<Rightarrow> (bytes \<times> bytes) res" where
  "derive_initial_secrets P dcid =
    (let initial_secret = hkdf_extract P INITIAL_SALT_V1 dcid
     in res_bind (hkdf_expand_label P initial_secret (ascii ''client in'') [] 32) (\<lambda>client_secret.
        res_bind (hkdf_expand_label P initial_secret (ascii ''server in'') [] 32) (\<lambda>server_secret.
        Ok (client_secret, server_secret))))"

definition derive_next_application_secret ::
  "('a, 'h) crypto_provider \<Rightarrow> bytes \<Rightarrow> nat \<Rightarrow> bytes res" where
  "derive_next_application_secret P current_secret len =
    hkdf_expand_label P current_secret (ascii ''quic ku'') [] len"

definition derive_packet_keys ::
  "('a, 'h) crypto_provider \<Rightarrow> bytes \<Rightarrow> nat \<Rightarrow> nat \<Rightarrow> (bytes \<times> bytes \<times> bytes) res" where
  "derive_packet_keys P secret key_len hp_key_len =
    res_bind (hkdf_expand_label P secret (ascii ''quic key'') [] key_len) (\<lambda>key.
    res_bind (hkdf_expand_label P secret (ascii ''quic iv'') [] 12) (\<lambda>iv.
    res_bind (hkdf_expand_label P secret (ascii ''quic hp'') [] hp_key_len) (\<lambda>hp_key.
    Ok (key, iv, hp_key))))"

definition derive_directional_keys_for ::
  "('a, 'h) crypto_provider \<Rightarrow> bytes \<Rightarrow> cipher_suite \<Rightarrow> ('a, 'h) directional_keys res" where
  "derive_directional_keys_for P secret suite =
    res_bind (derive_packet_keys P secret (suite_key_len suite) (suite_hp_key_len suite)) (\<lambda>(key, iv, hp_key).
    res_bind (new_aead P key) (\<lambda>aead.
    res_bind (new_hp P hp_key) (\<lambda>hp.
    Ok \<lparr>dk_aead = aead, dk_hp = hp, dk_iv = iv\<rparr>)))"

section \<open>The keys of a connection\<close>

record derived_keys =
  der_level :: level
  der_cipher_suite :: cipher_suite
  der_send_secret :: bytes
  der_recv_secret :: bytes
  der_secret_len :: nat

record ('a, 'h) connection_keys =
  initial_send :: "('a, 'h) directional_keys option"
  initial_recv :: "('a, 'h) directional_keys option"
  handshake_send :: "('a, 'h) directional_keys option"
  handshake_recv :: "('a, 'h) directional_keys option"
  app_send :: "('a, 'h) directional_keys option"
  app_recv :: "('a, 'h) directional_keys option"
  ku_key_phase :: byte
  ku_send_secret :: bytes
  ku_recv_secret :: bytes
  ku_secret_len :: nat
  ku_send_hp_key :: bytes
  ku_recv_hp_key :: bytes
  ku_hp_key_len :: nat
  ku_key_len :: nat
  ku_prev_recv_key :: "('a, 'h) directional_keys option"
  ku_update_confirmed :: bool
  ku_packets_encrypted :: nat
  ku_packets_decrypted :: nat

definition AEAD_CONFIDENTIALITY_LIMIT :: nat where
  "AEAD_CONFIDENTIALITY_LIMIT = 2 ^ 23"

definition keys_new :: "('a, 'h) connection_keys" where
  "keys_new =
    \<lparr>initial_send = None, initial_recv = None, handshake_send = None, handshake_recv = None,
     app_send = None, app_recv = None, ku_key_phase = 0, ku_send_secret = replicate 48 0,
     ku_recv_secret = replicate 48 0, ku_secret_len = 0, ku_send_hp_key = replicate 32 0,
     ku_recv_hp_key = replicate 32 0, ku_hp_key_len = 0, ku_key_len = 0, ku_prev_recv_key = None,
     ku_update_confirmed = True, ku_packets_encrypted = 0, ku_packets_decrypted = 0\<rparr>"

text \<open>\<open>aes\<close> is the fixed AES-128-GCM provider of the Initial keys.\<close>

definition derive_initial ::
  "('a, 'h) crypto_provider \<Rightarrow> bytes \<Rightarrow> bool \<Rightarrow> ('a, 'h) connection_keys \<Rightarrow> ('a, 'h) connection_keys res" where
  "derive_initial aes dcid is_client keys =
    res_bind (derive_initial_secrets aes dcid) (\<lambda>(client_secret, server_secret).
    res_bind (derive_directional_keys_for aes client_secret TlsAes128GcmSha256) (\<lambda>client_keys.
    res_bind (derive_directional_keys_for aes server_secret TlsAes128GcmSha256) (\<lambda>server_keys.
    if is_client then Ok (keys\<lparr>initial_send := Some client_keys, initial_recv := Some server_keys\<rparr>)
    else Ok (keys\<lparr>initial_send := Some server_keys, initial_recv := Some client_keys\<rparr>))))"

definition install_derived ::
  "('a, 'h) crypto_provider \<Rightarrow> derived_keys \<Rightarrow> ('a, 'h) connection_keys \<Rightarrow> ('a, 'h) connection_keys res" where
  "install_derived P d keys =
    (let send_secret = slice (der_send_secret d) 0 (der_secret_len d);
         recv_secret = slice (der_recv_secret d) 0 (der_secret_len d)
     in res_bind send_secret (\<lambda>ss. res_bind recv_secret (\<lambda>rs.
        res_bind (derive_directional_keys_for P ss (der_cipher_suite d)) (\<lambda>send_keys.
        res_bind (derive_directional_keys_for P rs (der_cipher_suite d)) (\<lambda>recv_keys.
        case der_level d of
          Initial \<Rightarrow> Ok keys
        | Handshake \<Rightarrow> Ok (keys\<lparr>handshake_send := Some send_keys, handshake_recv := Some recv_keys\<rparr>)
        | Application \<Rightarrow>
            res_bind (copy_at (ku_send_secret keys) 0 ss) (\<lambda>ks.
            res_bind (copy_at (ku_recv_secret keys) 0 rs) (\<lambda>kr.
            let hp_key_len = suite_hp_key_len (der_cipher_suite d)
            in res_bind (hkdf_expand_label P ss (ascii ''quic hp'') [] hp_key_len) (\<lambda>send_hp.
               res_bind (hkdf_expand_label P rs (ascii ''quic hp'') [] hp_key_len) (\<lambda>recv_hp.
               Ok (keys\<lparr>app_send := Some send_keys, app_recv := Some recv_keys,
                     ku_send_secret := ks, ku_recv_secret := kr, ku_secret_len := der_secret_len d,
                     ku_key_len := suite_key_len (der_cipher_suite d), ku_key_phase := 0,
                     ku_update_confirmed := True,
                     ku_send_hp_key := send_hp @ replicate (32 - hp_key_len) 0,
                     ku_recv_hp_key := recv_hp @ replicate (32 - hp_key_len) 0,
                     ku_hp_key_len := hp_key_len\<rparr>))))))))))"

definition send_keys :: "('a, 'h) connection_keys \<Rightarrow> level \<Rightarrow> ('a, 'h) directional_keys option" where
  "send_keys keys lvl =
    (case lvl of Initial \<Rightarrow> None | Handshake \<Rightarrow> handshake_send keys | Application \<Rightarrow> app_send keys)"

definition recv_keys :: "('a, 'h) connection_keys \<Rightarrow> level \<Rightarrow> ('a, 'h) directional_keys option" where
  "recv_keys keys lvl =
    (case lvl of Initial \<Rightarrow> None | Handshake \<Rightarrow> handshake_recv keys | Application \<Rightarrow> app_recv keys)"

definition drop_initial :: "('a, 'h) connection_keys \<Rightarrow> ('a, 'h) connection_keys" where
  "drop_initial keys = keys\<lparr>initial_send := None, initial_recv := None\<rparr>"

definition drop_handshake :: "('a, 'h) connection_keys \<Rightarrow> ('a, 'h) connection_keys" where
  "drop_handshake keys = keys\<lparr>handshake_send := None, handshake_recv := None\<rparr>"

definition has_send_keys :: "('a, 'h) connection_keys \<Rightarrow> level \<Rightarrow> bool" where
  "has_send_keys keys lvl =
    (case lvl of Initial \<Rightarrow> initial_send keys \<noteq> None | _ \<Rightarrow> send_keys keys lvl \<noteq> None)"

definition has_recv_keys :: "('a, 'h) connection_keys \<Rightarrow> level \<Rightarrow> bool" where
  "has_recv_keys keys lvl =
    (case lvl of Initial \<Rightarrow> initial_recv keys \<noteq> None | _ \<Rightarrow> recv_keys keys lvl \<noteq> None)"

definition can_initiate_key_update :: "('a, 'h) connection_keys \<Rightarrow> bool" where
  "can_initiate_key_update keys \<longleftrightarrow>
    app_send keys \<noteq> None \<and> app_recv keys \<noteq> None \<and> ku_update_confirmed keys \<and> ku_secret_len keys > 0"

definition needs_key_update :: "('a, 'h) connection_keys \<Rightarrow> bool" where
  "needs_key_update keys \<longleftrightarrow> can_initiate_key_update keys
     \<and> (ku_packets_encrypted keys \<ge> AEAD_CONFIDENTIALITY_LIMIT
        \<or> ku_packets_decrypted keys \<ge> AEAD_CONFIDENTIALITY_LIMIT)"

definition derive_key_update_keys ::
  "('a, 'h) crypto_provider \<Rightarrow> ('a, 'h) connection_keys \<Rightarrow> bytes \<Rightarrow> bytes \<Rightarrow> ('a, 'h) directional_keys res" where
  "derive_key_update_keys P keys secret hp_key =
    res_bind (hkdf_expand_label P secret (ascii ''quic key'') [] (ku_key_len keys)) (\<lambda>key.
    res_bind (hkdf_expand_label P secret (ascii ''quic iv'') [] 12) (\<lambda>iv.
    res_bind (new_aead P key) (\<lambda>aead.
    res_bind (new_hp P hp_key) (\<lambda>hp.
    Ok \<lparr>dk_aead = aead, dk_hp = hp, dk_iv = iv\<rparr>))))"

text \<open>
  The next secret and the next keys of one direction: the four calls that \<^verbatim>\<open>perform_key_update\<close>,
  \<^verbatim>\<open>derive_next_recv_keys\<close> and \<^verbatim>\<open>confirm_peer_key_update\<close> share.
\<close>

definition next_secret ::
  "('a, 'h) crypto_provider \<Rightarrow> ('a, 'h) connection_keys \<Rightarrow> bytes \<Rightarrow> bytes res" where
  "next_secret P keys secret =
    res_bind (slice secret 0 (ku_secret_len keys)) (\<lambda>s.
    derive_next_application_secret P s (ku_secret_len keys))"

definition next_keys ::
  "('a, 'h) crypto_provider \<Rightarrow> ('a, 'h) connection_keys \<Rightarrow> bytes \<Rightarrow> bytes \<Rightarrow> ('a, 'h) directional_keys res" where
  "next_keys P keys new_secret hp_key =
    res_bind (slice hp_key 0 (ku_hp_key_len keys)) (\<lambda>hp. derive_key_update_keys P keys new_secret hp)"

definition perform_key_update ::
  "('a, 'h) crypto_provider \<Rightarrow> ('a, 'h) connection_keys \<Rightarrow> ('a, 'h) connection_keys res" where
  "perform_key_update P keys =
    (if \<not> can_initiate_key_update keys then Err (Transport KeyUpdateError)
     else
       res_bind (next_secret P keys (ku_send_secret keys)) (\<lambda>new_send_secret.
       res_bind (next_secret P keys (ku_recv_secret keys)) (\<lambda>new_recv_secret.
       res_bind (next_keys P keys new_send_secret (ku_send_hp_key keys)) (\<lambda>new_send_keys.
       res_bind (next_keys P keys new_recv_secret (ku_recv_hp_key keys)) (\<lambda>new_recv_keys.
       res_bind (copy_at (ku_send_secret keys) 0 new_send_secret) (\<lambda>ks.
       res_bind (copy_at (ku_recv_secret keys) 0 new_recv_secret) (\<lambda>kr.
       Ok (keys\<lparr>ku_prev_recv_key := app_recv keys, app_send := Some new_send_keys,
             app_recv := Some new_recv_keys, ku_send_secret := ks, ku_recv_secret := kr,
             ku_key_phase := ku_key_phase keys XOR 1, ku_update_confirmed := False,
             ku_packets_encrypted := 0, ku_packets_decrypted := 0\<rparr>))))))))"

definition derive_next_recv_keys ::
  "('a, 'h) crypto_provider \<Rightarrow> ('a, 'h) connection_keys \<Rightarrow> ('a, 'h) directional_keys res" where
  "derive_next_recv_keys P keys =
    (if ku_secret_len keys = 0 then Err Crypto
     else res_bind (next_secret P keys (ku_recv_secret keys)) (\<lambda>new_recv_secret.
          next_keys P keys new_recv_secret (ku_recv_hp_key keys)))"

definition confirm_peer_key_update ::
  "('a, 'h) crypto_provider \<Rightarrow> ('a, 'h) connection_keys \<Rightarrow> ('a, 'h) directional_keys
   \<Rightarrow> ('a, 'h) connection_keys res" where
  "confirm_peer_key_update P keys new_recv_keys =
    res_bind (next_secret P keys (ku_send_secret keys)) (\<lambda>new_send_secret.
    res_bind (next_secret P keys (ku_recv_secret keys)) (\<lambda>new_recv_secret.
    res_bind (next_keys P keys new_send_secret (ku_send_hp_key keys)) (\<lambda>new_send_keys.
    res_bind (copy_at (ku_send_secret keys) 0 new_send_secret) (\<lambda>ks.
    res_bind (copy_at (ku_recv_secret keys) 0 new_recv_secret) (\<lambda>kr.
    Ok (keys\<lparr>ku_prev_recv_key := app_recv keys, app_send := Some new_send_keys,
          app_recv := Some new_recv_keys, ku_send_secret := ks, ku_recv_secret := kr,
          ku_key_phase := ku_key_phase keys XOR 1, ku_update_confirmed := True,
          ku_packets_encrypted := 0, ku_packets_decrypted := 1\<rparr>))))))"

section \<open>Agreement of the two endpoints\<close>

text \<open>
  The part of the state that two endpoints share, read in one direction: what one sends with is
  what the other receives with.
\<close>

definition key_sizes :: "('a, 'h) connection_keys \<Rightarrow> nat \<times> nat \<times> nat" where
  "key_sizes keys = (ku_secret_len keys, ku_hp_key_len keys, ku_key_len keys)"

definition in_sync :: "('a, 'h) connection_keys \<Rightarrow> ('a, 'h) connection_keys \<Rightarrow> bool" where
  "in_sync a b \<longleftrightarrow> app_send a = app_recv b \<and> app_recv a = app_send b
     \<and> ku_send_secret a = ku_recv_secret b \<and> ku_recv_secret a = ku_send_secret b
     \<and> ku_send_hp_key a = ku_recv_hp_key b \<and> ku_recv_hp_key a = ku_send_hp_key b
     \<and> key_sizes a = key_sizes b \<and> ku_key_phase a = ku_key_phase b"

lemma in_sync_sym: "in_sync a b \<Longrightarrow> in_sync b a"
  by (auto simp: in_sync_def)

lemma next_cong:
  assumes "key_sizes a = key_sizes b"
  shows "next_secret P a = next_secret P b" and "next_keys P a = next_keys P b"
  using assms
  by (auto simp: fun_eq_iff next_secret_def next_keys_def derive_key_update_keys_def key_sizes_def)

section \<open>Properties\<close>

text \<open>
  C18: Key update agreement. When an endpoint that is in step with its peer performs a key update,
  the peer derives from the flipped key phase exactly the keys the endpoint now sends with,
  completing the update on its side succeeds, both are in step again one phase later, and the
  peer keeps the previous receive keys. The header-protection keys do not change.
\<close>

theorem key_update_agreement:
  assumes "in_sync a b" and "perform_key_update P a = Ok a'"
  shows "\<exists>k b'. derive_next_recv_keys P b = Ok k \<and> app_send a' = Some k
    \<and> confirm_peer_key_update P b k = Ok b' \<and> in_sync a' b'
    \<and> ku_key_phase b' = ku_key_phase b XOR 1 \<and> ku_prev_recv_key b' = app_send a
    \<and> ku_send_hp_key b' = ku_send_hp_key b \<and> ku_recv_hp_key b' = ku_recv_hp_key b"
proof -
  have sync: "ku_send_secret a = ku_recv_secret b" "ku_recv_secret a = ku_send_secret b"
      "ku_send_hp_key a = ku_recv_hp_key b" "ku_recv_hp_key a = ku_send_hp_key b"
      "app_send a = app_recv b" "key_sizes a = key_sizes b" "ku_key_phase a = ku_key_phase b"
    using assms(1) by (auto simp: in_sync_def)
  note cong = next_cong [OF sync(6)]
  have "ku_secret_len b > 0"
    using assms(2) sync(6)
    by (auto simp: perform_key_update_def can_initiate_key_update_def key_sizes_def split: if_splits)
  then show ?thesis
    using assms(2) sync
    by (auto simp: perform_key_update_def derive_next_recv_keys_def confirm_peer_key_update_def
        res_bind_eq_Ok cong in_sync_def key_sizes_def split: if_splits)
qed

text \<open>
  A provider for the examples: keys are their first byte, the AEAD adds that byte and appends it
  16 times as the tag, and the header mask repeats it. It satisfies the documented laws, and
  opening under another key fails.
\<close>

definition toy_aead :: "byte \<Rightarrow> bytes \<Rightarrow> bytes" where
  "toy_aead k pt = map (\<lambda>x. x + k) pt @ replicate 16 k"

definition toy_provider :: "(byte, byte) crypto_provider" where
  "toy_provider =
    \<lparr>hkdf_extract = (\<lambda>salt ikm. ikm), hkdf_expand = (\<lambda>secret info n. Ok (replicate n (hd secret + 1))),
     new_aead = (\<lambda>k. Ok (hd k)), new_hp = (\<lambda>k. Ok (hd k)),
     aead_seal = (\<lambda>k n aad pt. Ok (toy_aead k pt)),
     aead_open = (\<lambda>k n aad ct.
       if 16 \<le> length ct \<and> drop (length ct - 16) ct = replicate 16 k
       then Ok (map (\<lambda>x. x - k) (take (length ct - 16) ct)) else Err Crypto),
     hp_mask = (\<lambda>k sample. replicate 5 k)\<rparr>"

definition toy_dk :: "byte \<Rightarrow> (byte, byte) directional_keys" where
  "toy_dk k = \<lparr>dk_aead = k, dk_hp = 7, dk_iv = replicate 12 k\<rparr>"

definition toy_keys :: "byte \<Rightarrow> byte \<Rightarrow> (byte, byte) connection_keys" where
  "toy_keys s r = keys_new\<lparr>app_send := Some (toy_dk (s + 1)), app_recv := Some (toy_dk (r + 1)),
     ku_send_secret := [s], ku_recv_secret := [r], ku_secret_len := 1, ku_send_hp_key := [7],
     ku_recv_hp_key := [7], ku_hp_key_len := 1, ku_key_len := 16\<rparr>"

lemma toy_provider_sel [simp]:
  "hkdf_expand toy_provider secret info n = Ok (replicate n (hd secret + 1))"
  "new_aead toy_provider k = Ok (hd k)" "new_hp toy_provider k = Ok (hd k)"
  "aead_seal toy_provider key nn aad pt = Ok (toy_aead key pt)"
  "hp_mask toy_provider h sample = replicate 5 h"
  by (simp_all add: toy_provider_def)

lemma toy_expand_label [simp]:
  "length label \<le> 20 \<Longrightarrow> hkdf_expand_label toy_provider secret label [] n = Ok (replicate n (hd secret + 1))"
  by (simp add: hkdf_expand_label_def Let_def ascii_def)

lemma toy_update:
  "perform_key_update toy_provider (toy_keys s r) =
    Ok ((toy_keys (s + 1) (r + 1))\<lparr>ku_prev_recv_key := Some (toy_dk (r + 1)), ku_key_phase := 1,
      ku_update_confirmed := False\<rparr>)"
  by (simp add: perform_key_update_def toy_keys_def keys_new_def can_initiate_key_update_def
      next_secret_def derive_next_application_secret_def next_keys_def derive_key_update_keys_def
      ascii_def toy_dk_def)

theorem key_update_agreement_witness:
  "\<exists>a' k b'. perform_key_update toy_provider (toy_keys 1 2) = Ok a'
    \<and> derive_next_recv_keys toy_provider (toy_keys 2 1) = Ok k \<and> app_send a' = Some k
    \<and> confirm_peer_key_update toy_provider (toy_keys 2 1) k = Ok b' \<and> in_sync a' b'"
proof -
  have "in_sync (toy_keys 1 2) (toy_keys 2 1)"
    by (simp add: in_sync_def toy_keys_def keys_new_def key_sizes_def)
  from key_update_agreement [OF this toy_update [of 1 2]] toy_update [of 1 2] show ?thesis by blast
qed

end
