(* ===== verification/Packet_Protection.thy ===== *)
theory Packet_Protection
  imports Crypto_Keys Packet_Number Recv_Pn
begin

unbundle bit_operations_syntax

text \<open>
  Packet protection (RFC 9001 section 5): \<^verbatim>\<open>encrypt_and_protect\<close> of \<^verbatim>\<open>src/connection/transmit.rs\<close>,
  \<^verbatim>\<open>decrypt_long_packet\<close> and the decryption in \<^verbatim>\<open>recv_short\<close> of \<^verbatim>\<open>src/connection/recv.rs\<close>. The AEAD
  and the header-protection cipher are arguments; \<open>aead_laws\<close> states what their traits document:
  sealing appends 16 bytes, opening under the same key, nonce and header inverts it, and a mask
  has five bytes.
\<close>

section \<open>The code\<close>

text \<open>XOR of a mask onto the bytes from a position on, as the loops over \<^verbatim>\<open>pn_len\<close> do.\<close>

definition xor_range :: "bytes \<Rightarrow> nat \<Rightarrow> bytes \<Rightarrow> bytes res" where
  "xor_range out pos msk =
    (if pos + length msk \<le> length out
     then Ok (take pos out @ map2 (XOR) (take (length msk) (drop pos out)) msk
              @ drop (pos + length msk) out)
     else Panic)"

definition encrypt_and_protect ::
  "('a, 'h) crypto_provider \<Rightarrow> bytes \<Rightarrow> nat \<Rightarrow> nat \<Rightarrow> nat \<Rightarrow> nat \<Rightarrow> nat \<Rightarrow> bool
   \<Rightarrow> ('a, 'h) directional_keys \<Rightarrow> (bytes \<times> nat) res" where
  "encrypt_and_protect P out pn_offset payload_start padded_frame_len pn pn_len is_long send =
    (let total_pkt_len = payload_start + padded_frame_len + 16
     in if total_pkt_len > length out then Err (BufferTooSmall total_pkt_len)
        else
          res_bind (slice out 0 payload_start) (\<lambda>aad.
          res_bind (slice out payload_start (payload_start + padded_frame_len)) (\<lambda>payload.
          res_bind (aead_seal P (dk_aead send) (nonce send pn) aad payload) (\<lambda>ct.
          res_bind (copy_at out payload_start ct) (\<lambda>out.
          let sample_offset = pn_offset + 4;
              actual_total = payload_start + length ct
          in if sample_offset + 16 > actual_total then Err error.Crypto
             else
               res_bind (slice out sample_offset (sample_offset + 16)) (\<lambda>sample.
               let msk = hp_mask P (dk_hp send) sample
               in res_bind (idx msk 0) (\<lambda>m.
                  res_bind (xor_range out 0 [m AND (if is_long then 0x0f else 0x1f)]) (\<lambda>out.
                  res_bind (slice msk 1 (1 + pn_len)) (\<lambda>pn_mask.
                  res_bind (xor_range out pn_offset pn_mask) (\<lambda>out.
                  Ok (out, actual_total)))))))))))"

text \<open>
  Removing header protection, shared by the long and the short form: the length and the value of
  the truncated packet number, read from the unmasked bytes.
\<close>

definition unprotect ::
  "('a, 'h) crypto_provider \<Rightarrow> 'h \<Rightarrow> byte \<Rightarrow> bytes \<Rightarrow> nat \<Rightarrow> nat \<Rightarrow> (bytes \<times> nat \<times> 32 word) res" where
  "unprotect P hp bits scratch pn_offset total_len =
    (let sample_offset = pn_offset + 4
     in if sample_offset + 16 > total_len then Err error.Crypto
        else
          res_bind (slice scratch sample_offset (sample_offset + 16)) (\<lambda>sample.
          let msk = hp_mask P hp sample
          in res_bind (idx msk 0) (\<lambda>m.
             res_bind (xor_range scratch 0 [m AND bits]) (\<lambda>scratch.
             res_bind (idx scratch 0) (\<lambda>first.
             let pn_len = unat (first AND 0x03) + 1
             in res_bind (slice msk 1 (1 + pn_len)) (\<lambda>pn_mask.
                res_bind (xor_range scratch pn_offset pn_mask) (\<lambda>scratch.
                res_bind (slice scratch pn_offset (pn_offset + pn_len)) (\<lambda>pn_bytes.
                Ok (scratch, pn_len, word_of_nat (be_nat pn_bytes))))))))))"

definition decrypt_long_packet ::
  "('a, 'h) crypto_provider \<Rightarrow> nat \<Rightarrow> bytes \<Rightarrow> nat \<Rightarrow> nat \<Rightarrow> nat \<Rightarrow> ('a, 'h) directional_keys \<Rightarrow> bytes
   \<Rightarrow> (bytes \<times> nat \<times> nat \<times> nat) res" where
  "decrypt_long_packet P uw pkt_data pn_offset payload_length largest_pn recv scratch =
    (let total_len = usize_add uw pn_offset payload_length
     in if total_len > length scratch then Err (BufferTooSmall total_len)
        else
          res_bind (slice pkt_data 0 total_len) (\<lambda>src.
          res_bind (copy_at scratch 0 src) (\<lambda>scratch.
          res_bind (unprotect P (dk_hp recv) 0x0f scratch pn_offset total_len) (\<lambda>(scratch, pn_len, truncated_pn).
          let pn = unat (decode_pn truncated_pn pn_len (word_of_nat largest_pn))
          in if pn > MAX_VARINT then Err (Transport ProtocolViolation)
             else
               let payload_offset = pn_offset + pn_len;
                   encrypted_len = payload_length - pn_len
               in res_bind (slice scratch 0 payload_offset) (\<lambda>aad.
                  res_bind (slice scratch payload_offset (payload_offset + encrypted_len)) (\<lambda>ct.
                  res_bind (aead_open P (dk_aead recv) (nonce recv pn) aad ct) (\<lambda>pt.
                  res_bind (copy_at scratch payload_offset pt) (\<lambda>scratch.
                  Ok (scratch, payload_offset, length pt, pn)))))))))"

text \<open>
  The decryption of a short-header packet in \<^verbatim>\<open>recv_short\<close>, up to the dispatch of its frames: a
  duplicate, or the packet number and the payload. The keys change with the key phase.
\<close>

datatype opened = Duplicate nat | Opened nat bytes

definition open_short ::
  "('a, 'h) crypto_provider \<Rightarrow> ('a, 'h) connection_keys \<Rightarrow> recv_pn_tracker \<Rightarrow> nat \<Rightarrow> bytes \<Rightarrow> nat \<Rightarrow> bytes
   \<Rightarrow> ('a, 'h) connection_keys \<times> opened res" where
  "open_short P keys tracker largest_pn pkt_data pn_offset scratch =
    (case recv_keys keys Application of
       None \<Rightarrow> (keys, Err error.Crypto)
     | Some recv \<Rightarrow>
         if length pkt_data > length scratch then (keys, Err (BufferTooSmall (length pkt_data)))
         else
           (case unprotect P (dk_hp recv) 0x1f (pkt_data @ drop (length pkt_data) scratch)
                   pn_offset (length pkt_data) of
              Err e \<Rightarrow> (keys, Err e)
            | Panic \<Rightarrow> (keys, Panic)
            | Ok (scratch, pn_len, truncated_pn) \<Rightarrow>
                let received_key_phase = drop_bit 2 (scratch ! 0) AND 1;
                    pn = unat (decode_pn truncated_pn pn_len (word_of_nat largest_pn))
                in if pn > MAX_VARINT then (keys, Err (Transport ProtocolViolation))
                   else if contains tracker pn then (keys, Ok (Duplicate pn))
                   else
                     let payload_offset = pn_offset + pn_len;
                         aad = take payload_offset scratch;
                         ct = take (length pkt_data - payload_offset) (drop payload_offset scratch)
                     in if received_key_phase = ku_key_phase keys then
                          (case aead_open P (dk_aead recv) (nonce recv pn) aad ct of
                             Ok pt \<Rightarrow>
                               (keys\<lparr>ku_packets_decrypted := u64_add (ku_packets_decrypted keys) 1,
                                  ku_update_confirmed := True\<rparr>, Ok (Opened pn pt))
                           | Panic \<Rightarrow> (keys, Panic)
                           | Err _ \<Rightarrow>
                               (case ku_prev_recv_key keys of
                                  Some prev \<Rightarrow>
                                    (keys, res_bind (aead_open P (dk_aead prev) (nonce prev pn) aad ct)
                                             (\<lambda>pt. Ok (Opened pn pt)))
                                | None \<Rightarrow> (keys, Err error.Crypto)))
                        else
                          (case res_bind (derive_next_recv_keys P keys) (\<lambda>next_recv_keys.
                                res_bind (aead_open P (dk_aead next_recv_keys) (nonce next_recv_keys pn) aad ct)
                                  (\<lambda>pt.
                                res_bind (confirm_peer_key_update P keys next_recv_keys) (\<lambda>keys'.
                                Ok (keys', pt)))) of
                             Ok (keys', pt) \<Rightarrow> (keys', Ok (Opened pn pt))
                           | Err e \<Rightarrow> (keys, Err e)
                           | Panic \<Rightarrow> (keys, Panic))))"

section \<open>Masking\<close>

definition aead_laws :: "('a, 'h) crypto_provider \<Rightarrow> bool" where
  "aead_laws P \<longleftrightarrow>
    (\<forall>k n aad pt. \<exists>ct. aead_seal P k n aad pt = Ok ct \<and> length ct = length pt + 16
       \<and> aead_open P k n aad ct = Ok pt)
    \<and> (\<forall>h s. length (hp_mask P h s) = 5)"

text \<open>A packet with its header, packet number and ciphertext under a mask.\<close>

definition masked :: "bytes \<Rightarrow> byte \<Rightarrow> bytes \<Rightarrow> bytes \<Rightarrow> bytes \<Rightarrow> bytes" where
  "masked msk bits hdr pnb ct =
    (hd hdr XOR (msk ! 0 AND bits)) # tl hdr @ map2 (XOR) pnb (take (length pnb) (drop 1 msk)) @ ct"

lemma map2_xor_cancel: "length xs \<le> length ys \<Longrightarrow> map2 (XOR) (map2 (XOR) xs ys) ys = (xs :: byte list)"
proof (induction xs arbitrary: ys)
  case (Cons x xs)
  then obtain y ys' where "ys = y # ys'" by (cases ys) auto
  with Cons show ?case by (simp add: xor.assoc)
qed simp

lemma xor_range_mid:
  assumes "length msk = length xs"
  shows "xor_range (a @ xs @ b) (length a) msk = Ok (a @ map2 (XOR) xs msk @ b)"
  using assms by (simp add: xor_range_def)

lemma sample_behind_pn:
  assumes "length a + length b = n + k" and "k \<le> 4" and "4 \<le> k + length ct - 16"
  shows "take 16 (drop (n + 4) (a @ b @ ct @ w)) = take 16 (drop (4 - k) ct)"
  using assms by (simp add: drop_append take_append)

lemma masked_length [simp]:
  "hdr \<noteq> [] \<Longrightarrow> length msk = 5 \<Longrightarrow> length pnb \<le> 4 \<Longrightarrow>
   length (masked msk bits hdr pnb ct) = length hdr + length pnb + length ct"
  by (cases hdr) (auto simp: masked_def)

lemma masked_parts:
  assumes "hdr \<noteq> []" and "length msk = 5" and "length pnb \<le> 4"
  obtains h p where "masked msk bits hdr pnb ct = (h # tl hdr) @ p @ ct" and "length p = length pnb"
    "h = hd hdr XOR (msk ! 0 AND bits)" "p = map2 (XOR) pnb (take (length pnb) (drop 1 msk))"
  using assms by (simp add: masked_def min_absorb2)

lemma encrypt_masked:
  fixes P :: "('a, 'h) crypto_provider"
  assumes laws: "aead_laws P" and hdr: "hdr \<noteq> []" and k: "1 \<le> length pnb" "length pnb \<le> 4"
    and pt: "4 \<le> length pnb + length pt" and z: "16 \<le> length z"
    and seal: "aead_seal P (dk_aead send) (nonce send pn) (hdr @ pnb) pt = Ok ct" "length ct = length pt + 16"
  defines "msk \<equiv> hp_mask P (dk_hp send) (take 16 (drop (4 - length pnb) ct))"
  shows "encrypt_and_protect P (hdr @ pnb @ pt @ z) (length hdr) (length hdr + length pnb) (length pt)
      pn (length pnb) is_long send
    = Ok (masked msk (if is_long then 0x0f else 0x1f) hdr pnb ct @ drop 16 z,
          length hdr + length pnb + length ct)"
proof -
  obtain h t where ht: "hdr = h # t" using hdr by (cases hdr) auto
  have m5: "length msk = 5" using laws by (simp add: aead_laws_def msk_def)
  let ?bits = "if is_long then 0x0f else 0x1f :: byte"
  let ?out = "hdr @ pnb @ ct @ drop 16 z"
  have c: "copy_at (hdr @ pnb @ pt @ z) (length hdr + length pnb) ct = Ok ?out"
    using z seal(2) by (simp add: copy_at_def)
  have s: "slice ?out (length hdr + 4) (length hdr + 4 + 16) = Ok (take 16 (drop (4 - length pnb) ct))"
    using sample_behind_pn [of hdr pnb "length hdr" "length pnb" ct "drop 16 z"] k pt seal(2)
    by (simp add: slice_def)
  have x1: "xor_range ?out 0 [msk ! 0 AND ?bits]
      = Ok (((h XOR (msk ! 0 AND ?bits)) # t) @ pnb @ ct @ drop 16 z)"
    using xor_range_mid [of "[msk ! 0 AND ?bits]" "[h]" "[]"] by (simp add: ht)
  have sm: "slice msk 1 (1 + length pnb) = Ok (take (length pnb) (drop 1 msk))"
    using m5 k by (simp add: slice_def)
  have x2: "xor_range (((h XOR (msk ! 0 AND ?bits)) # t) @ pnb @ ct @ drop 16 z) (length hdr)
      (take (length pnb) (drop 1 msk)) = Ok (masked msk ?bits hdr pnb ct @ drop 16 z)"
    using xor_range_mid [of "take (length pnb) (drop 1 msk)" pnb "(h XOR (msk ! 0 AND ?bits)) # t"] m5 k
    by (simp add: ht masked_def)
  have i0: "idx msk 0 = Ok (msk ! 0)" using m5 by simp
  have sl: "slice (hdr @ pnb @ pt @ z) 0 (length hdr + length pnb) = Ok (hdr @ pnb)"
    "slice (hdr @ pnb @ pt @ z) (length hdr + length pnb) (length hdr + length pnb + length pt) = Ok pt"
    by (simp_all add: slice_def)
  have no: "\<not> length hdr + length pnb + length pt + 16 > length (hdr @ pnb @ pt @ z)"
    "\<not> length hdr + 4 + 16 > length hdr + length pnb + length ct"
    using z pt seal(2) by simp_all
  show ?thesis
    unfolding encrypt_and_protect_def Let_def
    by (simp only: no if_False sl res_bind.simps seal(1) c s msk_def [symmetric] i0 x1 sm x2)
qed

lemma unprotect_masked:
  fixes P :: "('a, 'h) crypto_provider" and hp :: 'h
  assumes laws: "aead_laws P" and hdr: "hdr \<noteq> []" and k: "length pnb = unat (hd hdr AND 0x03) + 1" "length pnb \<le> 4"
    and ct: "20 \<le> length pnb + length ct" and tl: "total_len = length hdr + length pnb + length ct"
  defines "msk \<equiv> hp_mask P hp (take 16 (drop (4 - length pnb) ct))"
  shows "unprotect P hp bits (masked msk bits hdr pnb ct @ w) (length hdr) total_len
    = Ok (hdr @ pnb @ ct @ w, length pnb, word_of_nat (be_nat pnb))"
proof -
  obtain h t where ht: "hdr = h # t" using hdr by (cases hdr) auto
  have m5: "length msk = 5" using laws by (simp add: aead_laws_def msk_def)
  let ?h = "h XOR (msk ! 0 AND bits)" and ?ms = "take (length pnb) (drop 1 msk)"
  let ?p = "map2 (XOR) pnb ?ms"
  have lm: "length ?ms = length pnb" using m5 k(2) by simp
  have m: "masked msk bits hdr pnb ct @ w = (?h # t) @ ?p @ ct @ w" by (simp add: masked_def ht)
  have s: "slice ((?h # t) @ ?p @ ct @ w) (length hdr + 4) (length hdr + 4 + 16)
      = Ok (take 16 (drop (4 - length pnb) ct))"
    using sample_behind_pn [of "?h # t" ?p "length hdr" "length pnb" ct w] k(2) ct lm
    by (simp add: slice_def ht)
  have x1: "xor_range ((?h # t) @ ?p @ ct @ w) 0 [msk ! 0 AND bits] = Ok ((h # t) @ ?p @ ct @ w)"
    using xor_range_mid [of "[msk ! 0 AND bits]" "[?h]" "[]"] by (simp add: xor.assoc)
  have i1: "idx ((h # t) @ ?p @ ct @ w) 0 = Ok h" by simp
  have sm: "slice msk 1 (1 + (unat (h AND 0x03) + 1)) = Ok ?ms"
    using m5 k by (simp add: slice_def ht)
  have x2: "xor_range ((h # t) @ ?p @ ct @ w) (length hdr) ?ms = Ok ((h # t) @ pnb @ ct @ w)"
    using xor_range_mid [of ?ms ?p "h # t" "ct @ w"] lm by (simp add: ht map2_xor_cancel)
  have s2: "slice ((h # t) @ pnb @ ct @ w) (length hdr) (length hdr + (unat (h AND 0x03) + 1)) = Ok pnb"
    using k(1) by (simp add: slice_def ht)
  have i0: "idx msk 0 = Ok (msk ! 0)" using m5 by simp
  have no: "\<not> length hdr + 4 + 16 > total_len" using ct tl by simp
  show ?thesis
    unfolding unprotect_def Let_def m
    by (simp only: no if_False s res_bind.simps msk_def [symmetric] i0 x1 i1 sm x2 s2)
       (simp add: k(1) ht)
qed

text \<open>The sealed packet opens again, on the long form.\<close>

lemma long_packet_opens:
  fixes P :: "('a, 'h) crypto_provider"
  assumes laws: "aead_laws P" and hdr: "hdr \<noteq> []" and k: "length pnb = unat (hd hdr AND 0x03) + 1" "length pnb \<le> 4"
    and ct: "20 \<le> length pnb + length ct"
    and op: "aead_open P (dk_aead keys) (nonce keys pn) (hdr @ pnb) ct = Ok pt" "length pt \<le> length ct"
    and pn: "unat (decode_pn (word_of_nat (be_nat pnb)) (length pnb) (word_of_nat lpn)) = pn" "pn \<le> MAX_VARINT"
    and fits: "length hdr + length pnb + length ct \<le> length scratch" "length scratch < 2 ^ uw"
  defines "msk \<equiv> hp_mask P (dk_hp keys) (take 16 (drop (4 - length pnb) ct))"
  shows "\<exists>scratch'. decrypt_long_packet P uw (masked msk 0x0f hdr pnb ct @ rest) (length hdr)
      (length pnb + length ct) lpn keys scratch
    = Ok (scratch', length hdr + length pnb, length pt, pn)
    \<and> take (length pt) (drop (length hdr + length pnb) scratch') = pt"
proof -
  let ?n = "length hdr + length pnb + length ct"
  let ?m = "masked msk 0x0f hdr pnb ct" and ?w = "drop ?n scratch"
  have m5: "length msk = 5" using laws by (simp add: aead_laws_def msk_def)
  have lm: "length ?m = ?n" using hdr m5 k(2) by simp
  have u: "usize_add uw (length hdr) (length pnb + length ct) = ?n" using fits by simp
  have s1: "slice (?m @ rest) 0 ?n = Ok ?m" using lm by (simp add: slice_def)
  have c1: "copy_at scratch 0 ?m = Ok (?m @ ?w)" using lm fits(1) by (simp add: copy_at_def)
  have up: "unprotect P (dk_hp keys) 0x0f (?m @ ?w) (length hdr) ?n
      = Ok (hdr @ pnb @ ct @ ?w, length pnb, word_of_nat (be_nat pnb))"
    unfolding msk_def by (rule unprotect_masked [OF laws hdr k ct refl])
  have s2: "slice (hdr @ pnb @ ct @ ?w) 0 (length hdr + length pnb) = Ok (hdr @ pnb)"
    "slice (hdr @ pnb @ ct @ ?w) (length hdr + length pnb)
       (length hdr + length pnb + (length pnb + length ct - length pnb)) = Ok ct"
    by (simp_all add: slice_def)
  have c2: "copy_at (hdr @ pnb @ ct @ ?w) (length hdr + length pnb) pt
      = Ok (hdr @ pnb @ pt @ drop (length pt) (ct @ ?w))"
    using op(2) by (simp add: copy_at_def)
  have no: "\<not> ?n > length scratch" "\<not> pn > MAX_VARINT" using fits(1) pn(2) by simp_all
  have "decrypt_long_packet P uw (?m @ rest) (length hdr) (length pnb + length ct) lpn keys scratch
      = Ok (hdr @ pnb @ pt @ drop (length pt) (ct @ ?w), length hdr + length pnb, length pt, pn)"
    unfolding decrypt_long_packet_def Let_def
    by (simp only: u no if_False s1 c1 up res_bind.simps prod.case pn(1) s2 op(1) c2)
  then show ?thesis by simp
qed

text \<open>The same on the short form, for a new packet of the current key phase.\<close>

lemma short_packet_opens:
  fixes P :: "('a, 'h) crypto_provider"
  assumes laws: "aead_laws P" and hdr: "hdr \<noteq> []" and k: "length pnb = unat (hd hdr AND 0x03) + 1" "length pnb \<le> 4"
    and ct: "20 \<le> length pnb + length ct"
    and op: "aead_open P (dk_aead keys) (nonce keys pn) (hdr @ pnb) ct = Ok pt"
    and pn: "unat (decode_pn (word_of_nat (be_nat pnb)) (length pnb) (word_of_nat lpn)) = pn" "pn \<le> MAX_VARINT"
    and fits: "length hdr + length pnb + length ct \<le> length scratch"
    and ck: "recv_keys ck Application = Some keys" "drop_bit 2 (hd hdr) AND 1 = ku_key_phase ck" "\<not> contains tracker pn"
  defines "msk \<equiv> hp_mask P (dk_hp keys) (take 16 (drop (4 - length pnb) ct))"
  shows "open_short P ck tracker lpn (masked msk 0x1f hdr pnb ct) (length hdr) scratch
    = (ck\<lparr>ku_packets_decrypted := u64_add (ku_packets_decrypted ck) 1, ku_update_confirmed := True\<rparr>, Ok (Opened pn pt))"
proof -
  let ?n = "length hdr + length pnb + length ct"
  let ?m = "masked msk 0x1f hdr pnb ct" and ?w = "drop ?n scratch"
  have m5: "length msk = 5" using laws by (simp add: aead_laws_def msk_def)
  have lm: "length ?m = ?n" using hdr m5 k(2) by simp
  have up: "unprotect P (dk_hp keys) 0x1f (?m @ ?w) (length hdr) ?n
      = Ok (hdr @ pnb @ ct @ ?w, length pnb, word_of_nat (be_nat pnb))"
    unfolding msk_def by (rule unprotect_masked [OF laws hdr k ct refl])
  have first: "(hdr @ pnb @ ct @ ?w) ! 0 = hd hdr" using hdr by (simp add: nth_append hd_conv_nth)
  have parts: "take (length hdr + length pnb) (hdr @ pnb @ ct @ ?w) = hdr @ pnb"
    "take (?n - (length hdr + length pnb)) (drop (length hdr + length pnb) (hdr @ pnb @ ct @ ?w)) = ct"
    by simp_all
  have no: "\<not> ?n > length scratch" "\<not> pn > MAX_VARINT" using fits pn(2) by simp_all
  show ?thesis
    unfolding open_short_def Let_def ck(1) option.case lm
    by (simp only: no if_False up res.case prod.case first pn(1) ck(2,3) parts op simp_thms if_True)
qed

section \<open>Properties\<close>

text \<open>A packet as the transmit path hands it to \<open>encrypt_and_protect\<close>: what both forms need of it and of the receiver.\<close>

definition sealable :: "('a, 'h) crypto_provider \<Rightarrow> bytes \<Rightarrow> nat \<Rightarrow> bytes \<Rightarrow> nat \<Rightarrow> nat \<Rightarrow> bytes \<Rightarrow> bool" where
  "sealable P hdr k pt pn lpn z \<longleftrightarrow> aead_laws P \<and> hdr \<noteq> [] \<and> k = unat (hd hdr AND 0x03) + 1 \<and> k \<le> 4
     \<and> 4 \<le> k + length pt \<and> pn < 2 ^ 62 \<and> lpn < 2 ^ 62
     \<and> pn \<le> lpn + 1 + 2 ^ (8 * k) div 2 \<and> lpn + 1 < pn + 2 ^ (8 * k) div 2 \<and> 16 \<le> length z"

lemma sealed_packet:
  assumes "sealable P hdr k pt pn lpn z"
  obtains ct where "length ct = length pt + 16"
    "aead_open P (dk_aead keys) (nonce keys pn) (hdr @ be_bytes k pn) ct = Ok pt"
    "\<And>is_long. encrypt_and_protect P (hdr @ be_bytes k pn @ pt @ z) (length hdr) (length hdr + k) (length pt) pn k is_long keys
       = Ok (masked (hp_mask P (dk_hp keys) (take 16 (drop (4 - k) ct))) (if is_long then 0x0f else 0x1f) hdr (be_bytes k pn) ct
             @ drop 16 z, length hdr + k + length ct)"
    "\<And>bits. length (masked (hp_mask P (dk_hp keys) (take 16 (drop (4 - k) ct))) bits hdr (be_bytes k pn) ct) = length hdr + k + length ct"
    "unat (decode_pn (word_of_nat (be_nat (be_bytes k pn))) k (word_of_nat lpn)) = pn"
proof -
  have h: "aead_laws P" "hdr \<noteq> []" "1 \<le> k" "k \<le> 4" "4 \<le> k + length pt" "pn < 2 ^ 62" "lpn < 2 ^ 62" "16 \<le> length z"
    "pn \<le> lpn + 1 + 2 ^ (8 * k) div 2" "lpn + 1 < pn + 2 ^ (8 * k) div 2"
    using assms by (auto simp: sealable_def)
  obtain ct where ct: "aead_seal P (dk_aead keys) (nonce keys pn) (hdr @ be_bytes k pn) pt = Ok ct" "length ct = length pt + 16"
      "aead_open P (dk_aead keys) (nonce keys pn) (hdr @ be_bytes k pn) ct = Ok pt"
    using h(1) unfolding aead_laws_def by blast
  show thesis
  proof (rule that [OF ct(2,3)])
    show "encrypt_and_protect P (hdr @ be_bytes k pn @ pt @ z) (length hdr) (length hdr + k) (length pt) pn k is_long keys
        = Ok (masked (hp_mask P (dk_hp keys) (take 16 (drop (4 - k) ct))) (if is_long then 0x0f else 0x1f) hdr (be_bytes k pn) ct
              @ drop 16 z, length hdr + k + length ct)" for is_long
      using encrypt_masked [OF h(1,2) _ _ _ h(8) ct(1,2), of is_long] h(3-5) by simp
    show "length (masked (hp_mask P (dk_hp keys) (take 16 (drop (4 - k) ct))) bits hdr (be_bytes k pn) ct) = length hdr + k + length ct" for bits
      using h(1,2,4) by (simp add: aead_laws_def)
    show "unat (decode_pn (word_of_nat (be_nat (be_bytes k pn))) k (word_of_nat lpn)) = pn"
      by (rule decode_pn_recovers [OF h(3,4,6,7,9,10)])
  qed
qed

text \<open>
  C17: Packet protection round trip. A packet that \<open>encrypt_and_protect\<close> seals is opened by the receive
  path under the same keys to the same packet number and payload: a packet with a long header by
  \<open>decrypt_long_packet\<close>, whatever follows it in the datagram, and one with a short header by \<open>open_short\<close>,
  if it is no duplicate and carries the key phase bit of the receiver. The AEAD and the
  header-protection cipher must behave as documented, the packet number must lie within half a window
  of the receiver's largest, as many bytes of it as the header says precede a payload that leaves room
  for the sample, and the scratch buffer must hold the packet.
\<close>

theorem packet_protection_roundtrip:
  assumes "sealable P hdr k pt pn lpn z"
    and "length hdr + k + length pt + 16 \<le> length scratch" and "length scratch < 2 ^ uw"
    and "recv_keys ck Application = Some keys" and "drop_bit 2 (hd hdr) AND 1 = ku_key_phase ck" and "\<not> contains tracker pn"
    and "n = length hdr + k + length pt + 16"
  shows "(\<exists>out scratch'.
        encrypt_and_protect P (hdr @ be_bytes k pn @ pt @ z) (length hdr) (length hdr + k) (length pt) pn k True keys = Ok (out, n)
      \<and> decrypt_long_packet P uw (take n out @ rest) (length hdr) (n - length hdr) lpn keys scratch
          = Ok (scratch', length hdr + k, length pt, pn)
      \<and> take (length pt) (drop (length hdr + k) scratch') = pt)
    \<and> (\<exists>out.
        encrypt_and_protect P (hdr @ be_bytes k pn @ pt @ z) (length hdr) (length hdr + k) (length pt) pn k False keys = Ok (out, n)
      \<and> open_short P ck tracker lpn (take n out) (length hdr) scratch
          = (ck\<lparr>ku_packets_decrypted := u64_add (ku_packets_decrypted ck) 1, ku_update_confirmed := True\<rparr>, Ok (Opened pn pt)))"
proof -
  have h: "aead_laws P" "hdr \<noteq> []" "length (be_bytes k pn) = unat (hd hdr AND 0x03) + 1" "length (be_bytes k pn) \<le> 4"
      "4 \<le> k + length pt" "pn \<le> MAX_VARINT"
    using assms(1) by (auto simp: sealable_def MAX_VARINT_def)
  obtain ct where ct: "length ct = length pt + 16" "aead_open P (dk_aead keys) (nonce keys pn) (hdr @ be_bytes k pn) ct = Ok pt"
    and enc: "\<And>is_long. encrypt_and_protect P (hdr @ be_bytes k pn @ pt @ z) (length hdr) (length hdr + k) (length pt) pn k is_long keys
       = Ok (masked (hp_mask P (dk_hp keys) (take 16 (drop (4 - k) ct))) (if is_long then 0x0f else 0x1f) hdr (be_bytes k pn) ct
             @ drop 16 z, length hdr + k + length ct)"
    and lm: "\<And>bits. length (masked (hp_mask P (dk_hp keys) (take 16 (drop (4 - k) ct))) bits hdr (be_bytes k pn) ct) = length hdr + k + length ct"
    and pn: "unat (decode_pn (word_of_nat (be_nat (be_bytes k pn))) (length (be_bytes k pn)) (word_of_nat lpn)) = pn"
    using sealed_packet [OF assms(1)] unfolding length_be_bytes by metis
  have n: "n = length hdr + k + length ct" using assms(7) ct(1) by simp
  have c20: "20 \<le> length (be_bytes k pn) + length ct" using h(5) ct(1) by simp
  have fit: "length hdr + length (be_bytes k pn) + length ct \<le> length scratch" "length pt \<le> length ct"
    using assms(2) ct(1) by simp_all
  obtain scratch' where long: "decrypt_long_packet P uw (masked (hp_mask P (dk_hp keys) (take 16 (drop (4 - k) ct))) 0x0f hdr (be_bytes k pn) ct @ rest)
        (length hdr) (k + length ct) lpn keys scratch = Ok (scratch', length hdr + k, length pt, pn)"
      "take (length pt) (drop (length hdr + k) scratch') = pt"
    using long_packet_opens [OF h(1-4) c20 ct(2) fit(2) pn h(6) fit(1) assms(3), of rest] unfolding length_be_bytes by blast
  note short = short_packet_opens [OF h(1-4) c20 ct(2) pn h(6) fit(1) assms(4-6), unfolded length_be_bytes]
  have tk: "take n (masked (hp_mask P (dk_hp keys) (take 16 (drop (4 - k) ct))) bits hdr (be_bytes k pn) ct @ w)
      = masked (hp_mask P (dk_hp keys) (take 16 (drop (4 - k) ct))) bits hdr (be_bytes k pn) ct" for bits w
    using lm [of bits] by (simp add: n)
  have nl: "n - length hdr = k + length ct" by (simp add: n)
  show ?thesis
  proof (intro conjI)
    show "\<exists>out scratch'. encrypt_and_protect P (hdr @ be_bytes k pn @ pt @ z) (length hdr) (length hdr + k) (length pt) pn k True keys = Ok (out, n)
      \<and> decrypt_long_packet P uw (take n out @ rest) (length hdr) (n - length hdr) lpn keys scratch
          = Ok (scratch', length hdr + k, length pt, pn) \<and> take (length pt) (drop (length hdr + k) scratch') = pt"
      by (rule exI, rule exI [of _ scratch'], rule conjI [OF enc [of True, folded n, unfolded if_True]])
        (simp only: tk nl long simp_thms)
    show "\<exists>out. encrypt_and_protect P (hdr @ be_bytes k pn @ pt @ z) (length hdr) (length hdr + k) (length pt) pn k False keys = Ok (out, n)
      \<and> open_short P ck tracker lpn (take n out) (length hdr) scratch
          = (ck\<lparr>ku_packets_decrypted := u64_add (ku_packets_decrypted ck) 1, ku_update_confirmed := True\<rparr>, Ok (Opened pn pt))"
      by (rule exI, rule conjI [OF enc [of False, folded n, unfolded if_False]]) (simp only: tk short)
  qed
qed

lemma toy_laws: "aead_laws toy_provider"
  by (simp add: aead_laws_def) (simp add: toy_provider_def toy_aead_def comp_def)

theorem packet_protection_roundtrip_witness:
  "\<exists>out scratch'.
      encrypt_and_protect toy_provider ([0x41, 9] @ be_bytes 2 1000 @ [1, 2, 3] @ replicate 20 0) 2 4 3
        1000 2 False (toy_dk 2) = Ok (out, 23)
    \<and> open_short toy_provider (toy_keys 2 1) recv_pn_new 999 (take 23 out) 2 (replicate 30 0)
        = (scratch', Ok (Opened 1000 [1, 2, 3]))"
proof -
  have l: "length [0x41, 9 :: byte] = 2" "length [1, 2, 3 :: byte] = 3" "length (replicate 30 (0 :: byte)) = 30" by simp_all
  have s: "sealable toy_provider [0x41, 9] 2 [1, 2, 3] 1000 999 (replicate 20 0)"
    by (simp add: sealable_def toy_laws)
  have k: "recv_keys (toy_keys 2 1) Application = Some (toy_dk 2)" "drop_bit 2 (hd [0x41, 9 :: byte]) AND 1 = ku_key_phase (toy_keys 2 1)"
    "\<not> contains recv_pn_new 1000"
    by (simp_all add: recv_keys_def toy_keys_def keys_new_def contains_def recv_pn_new_def)
  have "\<exists>out. encrypt_and_protect toy_provider ([0x41, 9] @ be_bytes 2 1000 @ [1, 2, 3] @ replicate 20 0) (length [0x41, 9 :: byte])
        (length [0x41, 9 :: byte] + 2) (length [1, 2, 3 :: byte]) 1000 2 False (toy_dk 2) = Ok (out, 23)
    \<and> open_short toy_provider (toy_keys 2 1) recv_pn_new 999 (take 23 out) (length [0x41, 9 :: byte]) (replicate 30 0)
        = ((toy_keys 2 1)\<lparr>ku_packets_decrypted := u64_add (ku_packets_decrypted (toy_keys 2 1)) 1, ku_update_confirmed := True\<rparr>,
           Ok (Opened 1000 [1, 2, 3]))"
    by (rule packet_protection_roundtrip [OF s _ _ k, of "replicate 30 0" 32, THEN conjunct2]) simp_all
  moreover have "(2 :: nat) + 2 = 4" by simp
  ultimately show ?thesis unfolding l by metis
qed

text \<open>
  Packets of the previous key phase. The receive path tries the previous keys only for packets
  whose key phase bit equals the current one; a packet of the previous phase carries the other
  bit and is tried under the next keys.
\<close>

lemma open_short_prev_unused:
  assumes "recv_keys keys Application = Some recv" and "length pkt_data \<le> length scratch"
    and "unprotect P (dk_hp recv) 0x1f (pkt_data @ drop (length pkt_data) scratch) pn_offset (length pkt_data)
      = Ok (s, pn_len, t)"
    and "drop_bit 2 (s ! 0) AND 1 \<noteq> ku_key_phase keys"
    and "\<And>k n aad ct. derive_next_recv_keys P keys = Ok k \<Longrightarrow> aead_open P (dk_aead k) n aad ct = Err error.Crypto"
    and "derive_next_recv_keys P keys = Ok k"
  shows "case open_short P keys tracker lpn pkt_data pn_offset scratch of
      (keys', r) \<Rightarrow> keys' = keys \<and> (\<forall>pn pt. r \<noteq> Ok (Opened pn pt))"
  using assms by (auto simp: open_short_def Let_def)

text \<open>
  Late packets are lost across a key update. A packet the peer sealed before an update opens under
  the keys it was sealed for; once the receiver has performed the update it still holds these
  keys as its previous ones, but the packet is rejected: it carries the previous key phase bit,
  and for such packets only the next keys are tried.
\<close>

theorem late_packet_lost:
  "\<exists>pkt b' b''. encrypt_and_protect toy_provider ([0x40, 5, 1, 2, 3] @ replicate 16 0) 1 2 3 5 1 False (toy_dk 2)
      = Ok (pkt, 21)
    \<and> perform_key_update toy_provider (toy_keys 2 1) = Ok b' \<and> ku_prev_recv_key b' = Some (toy_dk 2)
    \<and> open_short toy_provider (toy_keys 2 1) recv_pn_new 4 pkt 1 (replicate 21 0) = (b'', Ok (Opened 5 [1, 2, 3]))
    \<and> open_short toy_provider b' recv_pn_new 4 pkt 1 (replicate 21 0) = (b', Err error.Crypto)"
proof -
  let ?hdr = "[0x40] :: bytes" and ?pnb = "[5] :: bytes" and ?pt = "[1, 2, 3] :: bytes"
  let ?ct = "toy_aead 2 ?pt" and ?pkt = "masked (replicate 5 7) 0x1f [0x40] [5] (toy_aead 2 [1, 2, 3])"
  let ?b' = "(toy_keys 3 2)\<lparr>ku_prev_recv_key := Some (toy_dk 2), ku_key_phase := 1, ku_update_confirmed := False\<rparr>"
  have ct: "length ?ct = length ?pt + 16" "?ct = [3, 4, 5] @ replicate 16 2" by (simp_all add: toy_aead_def)
  have lp: "length ?pkt = 21" by (simp add: ct)
  have "encrypt_and_protect toy_provider (?hdr @ ?pnb @ ?pt @ replicate 16 0) (length ?hdr) (length ?hdr + length ?pnb)
      (length ?pt) 5 (length ?pnb) False (toy_dk 2) = Ok (?pkt, 21)"
    by (subst encrypt_masked [OF toy_laws, where ct = ?ct]) (simp_all add: ct toy_dk_def)
  then have enc: "encrypt_and_protect toy_provider ([0x40, 5, 1, 2, 3] @ replicate 16 0) 1 2 3 5 1 False (toy_dk 2)
      = Ok (?pkt, 21)"
    by (simp add: numeral_2_eq_2 numeral_3_eq_3 del: replicate.simps)
  have up: "unprotect toy_provider 7 0x1f (?pkt @ []) (length ?hdr) 21 = Ok (?hdr @ ?pnb @ ?ct @ [], length ?pnb, word_of_nat (be_nat ?pnb))"
    using unprotect_masked [OF toy_laws, of ?hdr ?pnb ?ct 21 7 "0x1f" "[]"] by (simp add: ct)
  have pn: "unat (decode_pn 5 1 4) = 5"
    using decode_pn_recovers [of 1 5 4] by simp
  have op: "open_short toy_provider keys recv_pn_new 4 ?pkt 1 (replicate 21 0) =
      (if ku_key_phase keys = 0 then
         (case aead_open toy_provider (dk_aead recv) (nonce recv 5) [0x40, 5] ?ct of
            Ok pt \<Rightarrow> (keys\<lparr>ku_packets_decrypted := u64_add (ku_packets_decrypted keys) 1,
               ku_update_confirmed := True\<rparr>, Ok (Opened 5 pt))
          | Panic \<Rightarrow> (keys, Panic)
          | Err _ \<Rightarrow> (case ku_prev_recv_key keys of
              Some prev \<Rightarrow> (keys, res_bind (aead_open toy_provider (dk_aead prev) (nonce prev 5) [0x40, 5] ?ct)
                 (\<lambda>pt. Ok (Opened 5 pt)))
            | None \<Rightarrow> (keys, Err error.Crypto)))
       else (case res_bind (derive_next_recv_keys toy_provider keys) (\<lambda>k.
            res_bind (aead_open toy_provider (dk_aead k) (nonce k 5) [0x40, 5] ?ct) (\<lambda>pt.
            res_bind (confirm_peer_key_update toy_provider keys k) (\<lambda>keys'. Ok (keys', pt)))) of
              Ok (keys', pt) \<Rightarrow> (keys', Ok (Opened 5 pt)) | Err e \<Rightarrow> (keys, Err e) | Panic \<Rightarrow> (keys, Panic)))"
    if r: "app_recv keys = Some recv" "dk_hp recv = 7" for keys recv
  proof -
    have "unprotect toy_provider 7 0x1f (?pkt @ drop (length ?pkt) (replicate 21 0)) 1 (length ?pkt)
        = Ok ([0x40, 5] @ ?ct, 1, 5)"
      using up by (simp add: lp)
    moreover have "drop_bit 2 (([0x40, 5] @ ?ct) ! 0) AND 1 = (0 :: byte)" by simp
    moreover have "\<not> contains recv_pn_new 5" by (simp add: contains_def recv_pn_new_def)
    moreover have "\<not> length ?pkt > length (replicate 21 0)" by (simp add: lp)
    ultimately show ?thesis
      unfolding open_short_def recv_keys_def level.case r option.case Let_def
      by (simp add: pn [unfolded One_nat_def] MAX_VARINT_def lp ct(1) eq_commute [of 0]
          cong: res.case_cong option.case_cong)
  qed
  have o1: "open_short toy_provider (toy_keys 2 1) recv_pn_new 4 ?pkt 1 (replicate 21 0)
      = ((toy_keys 2 1)\<lparr>ku_packets_decrypted := 1\<rparr>, Ok (Opened 5 ?pt))"
    by (subst op [where recv = "toy_dk 2"]) (simp_all add: toy_keys_def keys_new_def toy_dk_def toy_provider_def toy_aead_def)
  have o2: "open_short toy_provider ?b' recv_pn_new 4 ?pkt 1 (replicate 21 0) = (?b', Err error.Crypto)"
  proof -
    have "derive_next_recv_keys toy_provider ?b' = Ok (toy_dk 4)"
      by (simp add: derive_next_recv_keys_def toy_keys_def keys_new_def next_secret_def
          derive_next_application_secret_def next_keys_def derive_key_update_keys_def ascii_def toy_dk_def)
    moreover have "aead_open toy_provider (dk_aead (toy_dk 4)) n aad ?ct = Err error.Crypto" for n aad
      by (simp add: toy_provider_def toy_aead_def toy_dk_def)
    moreover have "app_recv ?b' = Some (toy_dk 3)" "dk_hp (toy_dk 3) = 7" "ku_key_phase ?b' = 1"
      by (simp_all add: toy_keys_def toy_dk_def)
    ultimately show ?thesis by (subst op [where recv = "toy_dk 3"]) simp_all
  qed
  show ?thesis
    using enc o1 o2 toy_update [of 2 1] by (intro exI [of _ ?pkt] exI conjI) simp_all
qed

end
