(* ===== verification/Handshake_Pool.thy ===== *)
theory Handshake_Pool
  imports Crypto_Keys Crypto_Reasm Transport_Params
begin

text \<open>
  The pool of handshake contexts that connections share (\<^verbatim>\<open>src/connection/handshake_pool.rs\<close>) and
  the part of the TLS engine that the connection reads (\<^verbatim>\<open>TlsEngine\<close> in \<^verbatim>\<open>src/tls/handshake.rs\<close>).
  A slot is a flag and a context; with \<^verbatim>\<open>alloc\<close> the context exists only while the slot is in use
  and a claimed slot starts with a new one.
\<close>

section \<open>The code\<close>

text \<open>The fields of the engine behind the accessors of \<^verbatim>\<open>TlsSession\<close>; \<open>te_engine\<close> is the rest.\<close>

record 't tls_engine =
  te_pending_keys :: "derived_keys option"
  te_complete :: bool
  te_peer_params :: "transport_params option"
  te_params :: transport_params
  te_engine :: 't

definition tls_derived_keys :: "'t tls_engine \<Rightarrow> 't tls_engine \<times> derived_keys option" where
  "tls_derived_keys t = (t\<lparr>te_pending_keys := None\<rparr>, te_pending_keys t)"

definition set_transport_param_cids :: "bytes \<Rightarrow> bytes \<Rightarrow> 't tls_engine \<Rightarrow> 't tls_engine" where
  "set_transport_param_cids odcid iscid t =
    (let o_len = min (length odcid) 20; i_len = min (length iscid) 20; p = te_params t
     in t\<lparr>te_params := p\<lparr>original_dcid := take o_len odcid @ drop o_len (original_dcid p),
            original_dcid_len := o_len,
            initial_scid := take i_len iscid @ drop i_len (initial_scid p),
            initial_scid_len := i_len\<rparr>\<rparr>)"

record 't hs_ctx =
  hc_tls :: "'t tls_engine"
  hc_pending_crypto :: "bytes list"
  hc_crypto_reasm :: "reasm list"
  hc_crypto_send_offset :: "nat list"
  hc_pending_level :: "level list"

text \<open>\<open>placeholder\<close> is the engine a new context starts with, \<open>CRYPTO_BUF\<close> the reassembly size.\<close>

definition ctx_new :: "'t tls_engine \<Rightarrow> nat \<Rightarrow> 't hs_ctx" where
  "ctx_new placeholder CRYPTO_BUF =
    \<lparr>hc_tls = placeholder, hc_pending_crypto = [[], [], []],
     hc_crypto_reasm = replicate 3 (reasm_new CRYPTO_BUF), hc_crypto_send_offset = [0, 0, 0],
     hc_pending_level = [Initial, Initial, Initial]\<rparr>"

definition ctx_reset :: "nat \<Rightarrow> 't hs_ctx \<Rightarrow> 't hs_ctx" where
  "ctx_reset CRYPTO_BUF ctx =
    ctx\<lparr>hc_pending_crypto := [[], [], []], hc_crypto_reasm := replicate 3 (reasm_new CRYPTO_BUF),
        hc_crypto_send_offset := [0, 0, 0], hc_pending_level := [Initial, Initial, Initial]\<rparr>"

record 't hs_pool =
  hp_alloc :: bool
  hp_crypto_buf :: nat
  hp_placeholder :: "'t tls_engine"
  hp_slots :: "(bool \<times> 't hs_ctx) list"

definition pool_new :: "bool \<Rightarrow> nat \<Rightarrow> nat \<Rightarrow> 't tls_engine \<Rightarrow> 't hs_pool" where
  "pool_new alloc N CRYPTO_BUF placeholder =
    \<lparr>hp_alloc = alloc, hp_crypto_buf = CRYPTO_BUF, hp_placeholder = placeholder,
     hp_slots = replicate N (False, ctx_new placeholder CRYPTO_BUF)\<rparr>"

definition slots_in_use :: "'t hs_pool \<Rightarrow> nat" where
  "slots_in_use p = length (filter fst (hp_slots p))"

text \<open>The index is returned as a byte.\<close>

definition pool_claim :: "'t hs_pool \<Rightarrow> 't hs_pool \<times> nat res" where
  "pool_claim p =
    (case position (\<lambda>s. \<not> fst s) (hp_slots p) of
       None \<Rightarrow> (p, Err HandshakePoolExhausted)
     | Some i \<Rightarrow>
         let ctx = (if hp_alloc p then ctx_new (hp_placeholder p) (hp_crypto_buf p) else snd (hp_slots p ! i))
         in (p\<lparr>hp_slots := (hp_slots p)[i := (True, ctx)]\<rparr>, Ok (i mod 256)))"

definition pool_release :: "nat \<Rightarrow> 't hs_pool \<Rightarrow> 't hs_pool" where
  "pool_release slot p =
    (if slot < length (hp_slots p)
     then p\<lparr>hp_slots := (hp_slots p)[slot := (False, ctx_reset (hp_crypto_buf p) (snd (hp_slots p ! slot)))]\<rparr>
     else p)"

definition pool_get :: "'t hs_pool \<Rightarrow> nat \<Rightarrow> 't hs_ctx res" where
  "pool_get p slot =
    (if slot < length (hp_slots p)
     then if hp_alloc p \<and> \<not> fst (hp_slots p ! slot) then Panic else Ok (snd (hp_slots p ! slot))
     else Panic)"

text \<open>A write through the mutable reference of \<^verbatim>\<open>get_mut\<close>.\<close>

definition pool_put :: "nat \<Rightarrow> 't hs_ctx \<Rightarrow> 't hs_pool \<Rightarrow> 't hs_pool" where
  "pool_put slot ctx p = p\<lparr>hp_slots := (hp_slots p)[slot := (fst (hp_slots p ! slot), ctx)]\<rparr>"

section \<open>Exclusive slots\<close>

definition claimed :: "'t hs_pool \<Rightarrow> nat set" where
  "claimed p = {i. i < length (hp_slots p) \<and> fst (hp_slots p ! i)}"

lemma slots_in_use_card: "slots_in_use p = card (claimed p)"
  by (simp add: slots_in_use_def claimed_def length_filter_conv_card)

lemma claimed_put [simp]: "claimed (pool_put i ctx p) = claimed p"
  by (cases "i < length (hp_slots p)") (auto simp: claimed_def pool_put_def nth_list_update)

lemma claimed_release [simp]: "claimed (pool_release i p) = claimed p - {i}"
  by (auto simp: claimed_def pool_release_def nth_list_update)

text \<open>
  The handshake pool hands a slot to one connection at a time. A claim succeeds exactly while
  a slot is free; it returns a slot that was not claimed, whose context is reachable; releasing it makes it free again and affects no other
  slot, and the number of slots in use never exceeds the size of the pool.
\<close>

theorem pool_claim_exclusive:
  assumes "length (hp_slots p) \<le> 256"
  shows "slots_in_use p \<le> length (hp_slots p)
    \<and> (case pool_claim p of
         (p', Ok i) \<Rightarrow> i \<notin> claimed p \<and> claimed p' = insert i (claimed p) \<and> pool_get p' i \<noteq> Panic
            \<and> slots_in_use p' = slots_in_use p + 1
            \<and> claimed (pool_release i p') = claimed p
            \<and> (\<forall>j. j \<noteq> i \<longrightarrow> pool_get p' j = pool_get p j)
       | (p', Err e) \<Rightarrow> p' = p \<and> e = HandshakePoolExhausted \<and> slots_in_use p = length (hp_slots p)
       | (p', Panic) \<Rightarrow> False)"
proof (cases "position (\<lambda>s. \<not> fst s) (hp_slots p)")
  case None
  then have "\<forall>s \<in> set (hp_slots p). fst s" by (auto simp: position_None)
  then have "filter fst (hp_slots p) = hp_slots p" by simp
  then show ?thesis using None by (simp add: pool_claim_def slots_in_use_def)
next
  case (Some i)
  then have i: "i < length (hp_slots p)" "\<not> fst (hp_slots p ! i)" by (auto dest: position_SomeD)
  obtain p' where p': "pool_claim p = (p', Ok i)" using Some i assms by (simp add: pool_claim_def Let_def)
  then have p'': "p' = fst (pool_claim p)" by simp
  have c: "claimed p' = insert i (claimed p)" "i \<notin> claimed p"
    using Some i by (auto simp: p'' claimed_def pool_claim_def Let_def nth_list_update)
  have fin: "finite (claimed p)" by (simp add: claimed_def)
  have "pool_get p' i \<noteq> Panic" "\<forall>j. j \<noteq> i \<longrightarrow> pool_get p' j = pool_get p j"
    using Some i by (auto simp: p'' pool_get_def pool_claim_def Let_def)
  moreover have "slots_in_use p \<le> length (hp_slots p)" by (simp add: slots_in_use_def)
  ultimately show ?thesis using p' c fin by (simp add: slots_in_use_card)
qed

definition toy_engine :: "unit tls_engine" where
  "toy_engine = \<lparr>te_pending_keys = None, te_complete = False, te_peer_params = None,
     te_params = default_params, te_engine = ()\<rparr>"

theorem pool_claim_exclusive_witness:
  "\<exists>p' i. pool_claim (pool_new False 1 64 toy_engine) = (p', Ok i) \<and> i = 0 \<and> claimed p' = {0}
    \<and> slots_in_use p' = 1 \<and> claimed (pool_release 0 p') = {}"
proof -
  let ?p = "pool_new False 1 64 toy_engine"
  have c: "claimed ?p = {}" by (auto simp: claimed_def pool_new_def)
  have ok: "snd (pool_claim ?p) = Ok 0" by (simp add: pool_claim_def pool_new_def)
  then obtain p' where p': "pool_claim ?p = (p', Ok 0)" by (cases "pool_claim ?p") simp
  show ?thesis
    using pool_claim_exclusive [of ?p] p' c by (simp add: slots_in_use_card) (simp add: pool_new_def)
qed

end
