(* ===== verification/Connection.thy ===== *)
theory Connection
  imports Stream_Io Flow_Control Loss Congestion Packet_Protection Handshake_Pool
begin

text \<open>
  The QUIC connection: its state (\<^verbatim>\<open>Connection\<close> in \<^verbatim>\<open>src/connection/mod.rs\<close>), the calls of the
  application, timers and the dispatch of received frames (\<^verbatim>\<open>src/connection/recv.rs\<close>). A call takes
  and returns the whole state, which includes the handshake pool and the stream buffers the code
  receives as mutable references. The TLS engine's \<^verbatim>\<open>read_handshake\<close> and
  \<^verbatim>\<open>write_handshake\<close> (into a buffer of 2048 bytes) and the crypto primitives are fields of the
  environment. An error keeps the changes made before it, except that a failed key
  installation keeps none.
\<close>

section \<open>State\<close>

datatype role = Client | Server

datatype event =
    Connected
  | StreamOpened nat
  | StreamReadable nat
  | StreamWritable nat
  | StreamReset nat nat
  | StopSendingEv nat nat
  | StreamFinished nat
  | ConnectionClosed nat bytes

record ('a, 'h, 't) endpoint =
  ep_state :: conn_state
  ep_role :: role
  ep_keys :: "('a, 'h) connection_keys"
  ep_streams :: stream_map
  ep_sent :: tracker
  ep_loss :: loss_detector
  ep_cc :: congestion
  ep_flow :: flow_controller
  ep_slot :: "nat option"
  ep_local_cids :: "bytes list"
  ep_remote_cid :: bytes
  ep_next_pn :: "nat list"
  ep_largest_recv_pn :: "nat option list"
  ep_recv_pn :: "recv_pn_tracker list"
  ep_ack_eliciting :: "bool list"
  ep_local_params :: transport_params
  ep_peer_params :: "transport_params option"
  ep_events :: "event list"
  ep_event_cap :: nat
  ep_close_frame :: "(nat \<times> bytes) option"
  ep_idle_timeout :: "nat option"
  ep_last_activity :: nat
  ep_crypto_rewind :: bool
  ep_need_handshake_done :: bool
  ep_path_response :: "bytes option"
  ep_amp_received :: nat
  ep_amp_sent :: nat
  ep_addr_validated :: bool
  ep_pool :: "'t hs_pool"
  ep_io :: stream_io

record ('a, 'h, 't) env =
  en_provider :: "('a, 'h) crypto_provider"
  en_aes :: "('a, 'h) crypto_provider"
  en_tls_read :: "level \<Rightarrow> bytes \<Rightarrow> 't tls_engine \<Rightarrow> 't tls_engine \<times> unit res"
  en_tls_write :: "'t tls_engine \<Rightarrow> 't tls_engine \<times> (bytes \<times> level) res"
  en_uw :: nat

section \<open>Construction\<close>

text \<open>
  \<^verbatim>\<open>Connection::client\<close> and \<^verbatim>\<open>Connection::server\<close>. The engine \<^verbatim>\<open>TlsEngine::new_client\<close> returns
  for a configuration with the given transport parameters and the bytes the generator returns for
  the connection ids are arguments.
\<close>

definition cid_from_slice :: "bytes \<Rightarrow> bytes" where
  "cid_from_slice data = take (min (length data) 20) data"

record config =
  cf_alloc :: bool
  cf_max_streams :: nat
  cf_sent_per_space :: nat
  cf_max_cids :: nat

definition endpoint_new ::
  "config \<Rightarrow> role \<Rightarrow> ('a, 'h) connection_keys \<Rightarrow> nat \<Rightarrow> bytes \<Rightarrow> bytes \<Rightarrow> transport_params
   \<Rightarrow> 't hs_pool \<Rightarrow> stream_io \<Rightarrow> ('a, 'h, 't) endpoint" where
  "endpoint_new cf r keys slot local_cid remote_cid tp pool sio =
    \<lparr>ep_state = Handshaking, ep_role = r, ep_keys = keys,
     ep_streams = stream_map_new (cf_alloc cf) (cf_max_streams cf),
     ep_sent = tracker_new (cf_sent_per_space cf), ep_loss = loss_new (u64_mul (max_ack_delay tp) 1000),
     ep_cc = congestion_new 1200,
     ep_flow = flow_new (initial_max_data tp) (initial_max_streams_bidi tp) (initial_max_streams_uni tp),
     ep_slot = Some slot, ep_local_cids = take (cf_max_cids cf) [local_cid], ep_remote_cid = remote_cid,
     ep_next_pn = [0, 0, 0], ep_largest_recv_pn = [None, None, None],
     ep_recv_pn = [recv_pn_new, recv_pn_new, recv_pn_new], ep_ack_eliciting = [False, False, False],
     ep_local_params = tp, ep_peer_params = None, ep_events = [], ep_event_cap = (if cf_alloc cf then 64 else 16),
     ep_close_frame = None, ep_idle_timeout = None, ep_last_activity = 0, ep_crypto_rewind = False,
     ep_need_handshake_done = (r = Server), ep_path_response = None, ep_amp_received = 0,
     ep_amp_sent = 0, ep_addr_validated = (r = Client), ep_pool = pool, ep_io = sio\<rparr>"

text \<open>The pool is returned beside the connection: it is the caller's, also when the call fails.\<close>

definition client_new ::
  "config \<Rightarrow> ('a, 'h, 't) env \<Rightarrow> bytes \<Rightarrow> (transport_params \<Rightarrow> 't tls_engine) \<Rightarrow> transport_params
   \<Rightarrow> bytes \<Rightarrow> bytes \<Rightarrow> stream_io \<Rightarrow> 't hs_pool \<Rightarrow> 't hs_pool \<times> ('a, 'h, 't) endpoint res" where
  "client_new cf E server_name new_client tp local_cid initial_dcid sio pool =
    sbind (pool_claim pool) (\<lambda>pool slot.
      if length server_name > 64 then (pool, Err error.Tls)
      else
        let scid_len = min (length local_cid) 20;
            tls_params = tp\<lparr>initial_scid := take scid_len local_cid @ drop scid_len (initial_scid tp),
                            initial_scid_len := scid_len\<rparr>
        in sbind (pool, pool_get pool slot) (\<lambda>pool ctx.
             let pool = pool_put slot (ctx\<lparr>hc_tls := new_client tls_params\<rparr>) pool
             in sbind (pool, derive_initial (en_aes E) initial_dcid True keys_new) (\<lambda>pool keys.
                  (pool, Ok (endpoint_new cf Client keys slot local_cid initial_dcid tp pool sio)))))"

definition server_new ::
  "config \<Rightarrow> 't tls_engine \<Rightarrow> transport_params \<Rightarrow> bytes \<Rightarrow> stream_io \<Rightarrow> 't hs_pool
   \<Rightarrow> 't hs_pool \<times> ('a, 'h, 't) endpoint res" where
  "server_new cf tls tp local_cid sio pool =
    sbind (pool_claim pool) (\<lambda>pool slot.
      sbind (pool, pool_get pool slot) (\<lambda>pool ctx.
        let pool = pool_put slot (ctx\<lparr>hc_tls := tls\<rparr>) pool
        in (pool, Ok (endpoint_new cf Server keys_new slot local_cid [] tp pool sio))))"

section \<open>Events, timers and the application's calls\<close>

definition push_event :: "event \<Rightarrow> ('a, 'h, 't) endpoint \<Rightarrow> ('a, 'h, 't) endpoint" where
  "push_event e s = (if length (ep_events s) < ep_event_cap s then s\<lparr>ep_events := ep_events s @ [e]\<rparr> else s)"

definition poll_event :: "('a, 'h, 't) endpoint \<Rightarrow> ('a, 'h, 't) endpoint \<times> event option" where
  "poll_event s =
    (case ep_events s of [] \<Rightarrow> (s, None) | e # es \<Rightarrow> (s\<lparr>ep_events := es\<rparr>, Some e))"

definition u64_sat_add :: "nat \<Rightarrow> nat \<Rightarrow> nat" where
  "u64_sat_add a b = min (a + b) u64_MAX"

definition drain_period :: "('a, 'h, 't) endpoint \<Rightarrow> nat" where
  "drain_period s = u64_mul 3 (pto_duration (ep_loss s))"

definition conn_next_timeout :: "('a, 'h, 't) endpoint \<Rightarrow> nat option" where
  "conn_next_timeout s =
    (if ep_state s = conn_state.Closed then None
     else if ep_state s = Draining then Some (u64_sat_add (ep_last_activity s) (drain_period s))
     else
       let earliest = next_timeout (ep_loss s) (ep_sent s)
       in case ep_idle_timeout s of None \<Rightarrow> earliest
          | Some idle \<Rightarrow>
              let idle_deadline = u64_sat_add (ep_last_activity s) idle
              in Some (case earliest of None \<Rightarrow> idle_deadline | Some e \<Rightarrow> min e idle_deadline))"

definition handle_timeout :: "nat \<Rightarrow> ('a, 'h, 't) endpoint \<Rightarrow> ('a, 'h, 't) endpoint" where
  "handle_timeout now s =
    (if ep_state s = Draining then
       if now - ep_last_activity s \<ge> drain_period s then s\<lparr>ep_state := conn_state.Closed\<rparr> else s
     else if (case ep_idle_timeout s of None \<Rightarrow> False | Some idle \<Rightarrow> now - ep_last_activity s \<ge> idle) then
       push_event (ConnectionClosed 0 []) (s\<lparr>ep_state := conn_state.Closed\<rparr>)
     else
       (case next_timeout (ep_loss s) (ep_sent s) of None \<Rightarrow> s
        | Some deadline \<Rightarrow>
            if now \<ge> deadline then
              s\<lparr>ep_loss := on_pto (ep_loss s),
                ep_crypto_rewind := (ep_slot s \<noteq> None \<or> ep_crypto_rewind s)\<rparr>
            else s))"

definition open_stream :: "('a, 'h, 't) endpoint \<Rightarrow> ('a, 'h, 't) endpoint \<times> nat res" where
  "open_stream s =
    (if ep_state s \<noteq> Active then (s, Err InvalidState)
     else
       (case open_bidi (ep_streams s) (ep_role s = Client) of
          (m, Ok stream_id) \<Rightarrow>
            (s\<lparr>ep_streams := set_stream_windows m stream_id
                 (map_option initial_max_stream_data_bidi_remote (ep_peer_params s))
                 (Some (initial_max_stream_data_bidi_local (ep_local_params s)))\<rparr>, Ok stream_id)
        | (m, Err e) \<Rightarrow> (s\<lparr>ep_streams := m\<rparr>, Err e)
        | (m, Panic) \<Rightarrow> (s\<lparr>ep_streams := m\<rparr>, Panic)))"

definition open_uni_stream :: "('a, 'h, 't) endpoint \<Rightarrow> ('a, 'h, 't) endpoint \<times> nat res" where
  "open_uni_stream s =
    (if ep_state s \<noteq> Active then (s, Err InvalidState)
     else
       (case open_uni (ep_streams s) (ep_role s = Client) of
          (m, Ok stream_id) \<Rightarrow>
            (s\<lparr>ep_streams := set_stream_windows m stream_id
                 (map_option initial_max_stream_data_uni (ep_peer_params s)) None\<rparr>, Ok stream_id)
        | (m, Err e) \<Rightarrow> (s\<lparr>ep_streams := m\<rparr>, Err e)
        | (m, Panic) \<Rightarrow> (s\<lparr>ep_streams := m\<rparr>, Panic)))"

definition conn_stream_send ::
  "('a, 'h, 't) env \<Rightarrow> nat \<Rightarrow> bytes \<Rightarrow> bool \<Rightarrow> ('a, 'h, 't) endpoint \<Rightarrow> ('a, 'h, 't) endpoint \<times> nat res" where
  "conn_stream_send E stream_id data fin s =
    (case stream_send (en_uw E) (ep_state s) (ep_streams s) (ep_io s) stream_id data fin of
       (m, sio, r) \<Rightarrow> (s\<lparr>ep_streams := m, ep_io := sio\<rparr>, r))"

definition conn_stream_recv ::
  "nat \<Rightarrow> nat \<Rightarrow> ('a, 'h, 't) endpoint \<Rightarrow> ('a, 'h, 't) endpoint \<times> (bytes \<times> bool) res" where
  "conn_stream_recv stream_id n s =
    (case stream_recv (ep_state s) (ep_io s) stream_id n of (sio, r) \<Rightarrow> (s\<lparr>ep_io := sio\<rparr>, r))"

definition stream_reset :: "nat \<Rightarrow> ('a, 'h, 't) endpoint \<Rightarrow> ('a, 'h, 't) endpoint \<times> unit res" where
  "stream_reset stream_id s =
    (case mark_reset_sent (ep_streams s) stream_id of (m, r) \<Rightarrow> (s\<lparr>ep_streams := m\<rparr>, r))"

definition stream_stop_sending :: "nat \<Rightarrow> ('a, 'h, 't) endpoint \<Rightarrow> ('a, 'h, 't) endpoint \<times> unit res" where
  "stream_stop_sending stream_id s =
    (case handle_stop_sending (ep_streams s) stream_id of (m, r) \<Rightarrow> (s\<lparr>ep_streams := m\<rparr>, r))"

definition close :: "nat \<Rightarrow> bytes \<Rightarrow> ('a, 'h, 't) endpoint \<Rightarrow> ('a, 'h, 't) endpoint" where
  "close error_code reason s =
    (if ep_state s = conn_state.Closed \<or> ep_state s = Draining \<or> ep_state s = Closing then s
     else s\<lparr>ep_close_frame := Some (error_code, take (min (length reason) 64) reason), ep_state := Closing\<rparr>)"

definition initiate_key_update ::
  "('a, 'h, 't) env \<Rightarrow> ('a, 'h, 't) endpoint \<Rightarrow> ('a, 'h, 't) endpoint \<times> unit res" where
  "initiate_key_update E s =
    (if ep_state s \<noteq> Active then (s, Err InvalidState)
     else case perform_key_update (en_provider E) (ep_keys s) of
       Ok keys \<Rightarrow> (s\<lparr>ep_keys := keys\<rparr>, Ok ())
     | Err e \<Rightarrow> (s, Err e)
     | Panic \<Rightarrow> (s, Panic))"

definition amplification_allows :: "('a, 'h, 't) env \<Rightarrow> ('a, 'h, 't) endpoint \<Rightarrow> nat \<Rightarrow> bool" where
  "amplification_allows E s bytes \<longleftrightarrow> ep_addr_validated s
     \<or> usize_add (en_uw E) (ep_amp_sent s) bytes \<le> as_usize (en_uw E) (3 * ep_amp_received s)"

definition track_received_pn :: "level \<Rightarrow> nat \<Rightarrow> ('a, 'h, 't) endpoint \<Rightarrow> ('a, 'h, 't) endpoint" where
  "track_received_pn lvl pn s =
    s\<lparr>ep_recv_pn := (ep_recv_pn s)[space_index lvl := record_pn (ep_recv_pn s ! space_index lvl) pn]\<rparr>"

section \<open>Keys from the TLS engine\<close>

definition drop_packet_space :: "level \<Rightarrow> ('a, 'h, 't) endpoint \<Rightarrow> ('a, 'h, 't) endpoint" where
  "drop_packet_space lvl s = s\<lparr>ep_sent := drop_space (ep_sent s) lvl, ep_loss := ld_drop_space (ep_loss s) lvl\<rparr>"

definition keys_installed :: "level \<Rightarrow> ('a, 'h, 't) endpoint \<Rightarrow> ('a, 'h, 't) endpoint" where
  "keys_installed lvl s =
    (case lvl of
       level.Handshake \<Rightarrow>
         if ep_role s = Client then drop_packet_space level.Initial (s\<lparr>ep_keys := drop_initial (ep_keys s)\<rparr>) else s
     | Application \<Rightarrow>
         if ep_role s = Server \<and> ep_state s = Handshaking then
           let s = push_event Connected (s\<lparr>ep_state := Active, ep_addr_validated := True\<rparr>)
           in drop_packet_space level.Handshake (s\<lparr>ep_keys := drop_handshake (ep_keys s)\<rparr>)
         else s
     | level.Initial \<Rightarrow> s)"

definition adopt_peer_params :: "transport_params \<Rightarrow> ('a, 'h, 't) endpoint \<Rightarrow> ('a, 'h, 't) endpoint" where
  "adopt_peer_params p s =
    (let fc = handle_max_data (ep_flow s) (initial_max_data p);
         fc = handle_max_streams fc True (initial_max_streams_bidi p);
         fc = handle_max_streams fc False (initial_max_streams_uni p);
         l = max_idle_timeout (ep_local_params s);
         r = max_idle_timeout p;
         effective_ms = (if l = 0 then r else if r = 0 then l else min l r)
     in s\<lparr>ep_flow := fc,
          ep_idle_timeout := (if effective_ms \<noteq> 0 then Some (min (effective_ms * 1000) u64_MAX)
                              else ep_idle_timeout s),
          ep_peer_params := Some p\<rparr>)"

definition can_release :: "nat \<Rightarrow> ('a, 'h, 't) endpoint \<Rightarrow> bool res" where
  "can_release slot s =
    (if ep_role s = Server then Ok (ep_state s = Active)
     else if app_send (ep_keys s) \<noteq> None \<and> app_recv (ep_keys s) \<noteq> None
     then res_bind (pool_get (ep_pool s) slot) (\<lambda>ctx. Ok (te_complete (hc_tls ctx)))
     else Ok False)"

definition maybe_release_handshake_slot :: "('a, 'h, 't) endpoint \<Rightarrow> ('a, 'h, 't) endpoint \<times> unit res" where
  "maybe_release_handshake_slot s =
    (case ep_slot s of None \<Rightarrow> (s, Ok ())
     | Some slot \<Rightarrow>
         sbind (s, can_release slot s) (\<lambda>s release.
           if release then (s\<lparr>ep_pool := pool_release slot (ep_pool s), ep_slot := None\<rparr>, Ok ())
           else (s, Ok ())))"

text \<open>
  \<^verbatim>\<open>check_tls_keys\<close>. The engine holds at most one set of pending keys, which \<^verbatim>\<open>derived_keys\<close> takes
  out, so the loop of the code runs at most once.
\<close>

definition check_tls_keys ::
  "('a, 'h, 't) env \<Rightarrow> ('a, 'h, 't) endpoint \<Rightarrow> ('a, 'h, 't) endpoint \<times> unit res" where
  "check_tls_keys E s =
    (case ep_slot s of None \<Rightarrow> (s, Ok ())
     | Some slot \<Rightarrow>
         (case pool_get (ep_pool s) slot of
            Ok ctx \<Rightarrow>
              (case te_pending_keys (hc_tls ctx) of
                 None \<Rightarrow> maybe_release_handshake_slot s
               | Some derived \<Rightarrow>
                   let tls = fst (tls_derived_keys (hc_tls ctx));
                       s = s\<lparr>ep_pool := pool_put slot (ctx\<lparr>hc_tls := tls\<rparr>) (ep_pool s)\<rparr>
                   in case install_derived (en_provider E) derived (ep_keys s) of
                        Ok keys \<Rightarrow>
                          let s = keys_installed (der_level derived) (s\<lparr>ep_keys := keys\<rparr>);
                              s = (case te_peer_params tls of None \<Rightarrow> s | Some p \<Rightarrow> adopt_peer_params p s)
                          in maybe_release_handshake_slot s
                      | Err e \<Rightarrow> (s, Err e)
                      | Panic \<Rightarrow> (s, Panic))
          | _ \<Rightarrow> (s, Panic)))"

section \<open>CRYPTO frames\<close>

lemma keys_installed_keeps [simp]:
  "ep_pool (keys_installed lvl s) = ep_pool s" "ep_slot (keys_installed lvl s) = ep_slot s"
  by (simp_all add: keys_installed_def push_event_def drop_packet_space_def Let_def split: level.split)

lemma adopt_peer_params_keeps [simp]:
  "ep_pool (adopt_peer_params p s) = ep_pool s" "ep_slot (adopt_peer_params p s) = ep_slot s"
  by (simp_all add: adopt_peer_params_def Let_def)

definition slot_ctx :: "('a, 'h, 't) endpoint \<Rightarrow> 't hs_ctx option" where
  "slot_ctx s =
    (case ep_slot s of None \<Rightarrow> None
     | Some slot \<Rightarrow> (case pool_get (ep_pool s) slot of Ok ctx \<Rightarrow> Some ctx | _ \<Rightarrow> None))"

lemma pool_get_put:
  "pool_get p i = Ok c \<Longrightarrow> pool_get (pool_put i ctx p) i = Ok ctx"
  by (auto simp: pool_get_def pool_put_def split: if_splits)

lemma release_keeps:
  assumes "maybe_release_handshake_slot s = (s', Ok ())"
  shows "ep_slot s' = None \<or> s' = s"
  using assms
  by (cases "ep_slot s"; cases "can_release (the (ep_slot s)) s")
     (auto simp: maybe_release_handshake_slot_def split: if_splits)

lemma check_tls_keys_keeps:
  assumes "check_tls_keys E s = (s', Ok ())"
  shows "ep_slot s' = None \<or> map_option hc_crypto_reasm (slot_ctx s') = map_option hc_crypto_reasm (slot_ctx s)"
proof (cases "ep_slot s' = None")
  case False
  show ?thesis
    using assms False
    by (auto simp: check_tls_keys_def slot_ctx_def Let_def pool_get_put
        split: option.splits res.splits dest!: release_keeps)
qed simp

lemma shift_ranges_le: "sum_list (map snd (shift_ranges n rs)) \<le> sum_list (map snd rs)"
proof (induction rs)
  case (Cons x rs)
  then show ?case by (cases x) auto
qed simp

lemma shift_ranges_less:
  assumes "0 < n" and "0 < e"
  shows "sum_list (map snd (shift_ranges n ((0, e) # rs))) < sum_list (map snd ((0, e) # rs))"
  using shift_ranges_le [of n rs] assms by auto

text \<open>What is left of the CRYPTO stream of a level decreases with every message that is delivered.\<close>

definition crypto_left :: "level \<Rightarrow> ('a, 'h, 't) endpoint \<Rightarrow> nat" where
  "crypto_left lvl s =
    (case slot_ctx s of None \<Rightarrow> 0
     | Some ctx \<Rightarrow> sum_list (map snd (cb_ranges (hc_crypto_reasm ctx ! space_index lvl))))"

lemma crypto_left_less:
  assumes "ep_slot s = Some slot" and "pool_get (ep_pool s) slot = Ok ctx"
    and "idx (hc_crypto_reasm ctx) (space_index lvl) = Ok r" and "\<not> contiguous_len r < 4"
    and "advance r n = Ok r'" and "0 < n"
    and "check_tls_keys E (s\<lparr>ep_pool := pool_put slot (ctx\<lparr>hc_tls := tls,
        hc_crypto_reasm := (hc_crypto_reasm ctx)[space_index lvl := r']\<rparr>) (ep_pool s)\<rparr>) = (s', Ok ())"
  shows "crypto_left lvl s' < crypto_left lvl s"
proof -
  have i: "space_index lvl < length (hc_crypto_reasm ctx)" "r = hc_crypto_reasm ctx ! space_index lvl"
    using assms(3) by (auto simp: idx_eq_Ok)
  obtain e rest where rs: "cb_ranges r = (0, e) # rest" and e: "4 \<le> e"
    using assms(4) by (auto simp: contiguous_len_def split: list.splits if_splits)
  have r': "cb_ranges r' = shift_ranges n (cb_ranges r)"
    using assms(5,6) by (auto simp: advance_def split: if_splits)
  have less: "sum_list (map snd (cb_ranges r')) < sum_list (map snd (cb_ranges r))"
    unfolding r' rs by (rule shift_ranges_less) (use e assms(6) in auto)
  have left: "crypto_left lvl s = sum_list (map snd (cb_ranges r))"
    using assms(1,2) i by (simp add: crypto_left_def slot_ctx_def)
  from check_tls_keys_keeps [OF assms(7)] show ?thesis
  proof
    assume "ep_slot s' = None"
    then show ?thesis using left rs e by (simp add: crypto_left_def slot_ctx_def)
  next
    assume "map_option hc_crypto_reasm (slot_ctx s') = map_option hc_crypto_reasm (slot_ctx
      (s\<lparr>ep_pool := pool_put slot (ctx\<lparr>hc_tls := tls,
        hc_crypto_reasm := (hc_crypto_reasm ctx)[space_index lvl := r']\<rparr>) (ep_pool s)\<rparr>))"
    then have "map_option hc_crypto_reasm (slot_ctx s') = Some ((hc_crypto_reasm ctx)[space_index lvl := r'])"
      using assms(1,2) by (simp add: slot_ctx_def pool_get_put)
    then show ?thesis using left less i(1) by (auto simp: crypto_left_def)
  qed
qed

text \<open>The messages at the front of the reassembled stream, one by one, into the TLS engine.\<close>

function crypto_loop ::
  "('a, 'h, 't) env \<Rightarrow> level \<Rightarrow> ('a, 'h, 't) endpoint \<Rightarrow> ('a, 'h, 't) endpoint \<times> unit res" where
  "crypto_loop E lvl s =
    (case ep_slot s of None \<Rightarrow> (s, Ok ())
     | Some slot \<Rightarrow>
        (case res_bind (pool_get (ep_pool s) slot) (\<lambda>ctx.
              res_bind (idx (hc_crypto_reasm ctx) (space_index lvl)) (\<lambda>r. Ok (ctx, r))) of
           Ok (ctx, r) \<Rightarrow>
             if contiguous_len r < 4 then (s, Ok ())
             else
               (case contiguous_data r of
                  Ok hdr \<Rightarrow>
                    let msg_len = 4 + be_nat (take 3 (drop 1 hdr))
                    in if contiguous_len r < msg_len then (s, Ok ())
                       else
                         (case en_tls_read E lvl (take msg_len hdr) (hc_tls ctx) of
                            (tls, Ok _) \<Rightarrow>
                              (case advance r msg_len of
                                 Ok r' \<Rightarrow>
                                   sbind (check_tls_keys E (s\<lparr>ep_pool := pool_put slot (ctx\<lparr>hc_tls := tls,
                                       hc_crypto_reasm := (hc_crypto_reasm ctx)[space_index lvl := r']\<rparr>) (ep_pool s)\<rparr>))
                                     (\<lambda>s _. crypto_loop E lvl s)
                               | _ \<Rightarrow> (s, Panic))
                          | (tls, Err e) \<Rightarrow>
                              (s\<lparr>ep_pool := pool_put slot (ctx\<lparr>hc_tls := tls\<rparr>) (ep_pool s)\<rparr>, Err e)
                          | (tls, Panic) \<Rightarrow> (s, Panic))
                | _ \<Rightarrow> (s, Panic))
         | _ \<Rightarrow> (s, Panic)))"
  by pat_completeness auto
termination
  by (relation "measure (\<lambda>(E, lvl, s). crypto_left lvl s)")
     (auto simp: res_bind_eq_Ok intro!: crypto_left_less)

declare crypto_loop.simps [simp del]

definition MAX_CRYPTO_OFFSET :: nat where
  "MAX_CRYPTO_OFFSET = 2 ^ 20"

definition handle_crypto_frame ::
  "('a, 'h, 't) env \<Rightarrow> level \<Rightarrow> nat \<Rightarrow> bytes \<Rightarrow> ('a, 'h, 't) endpoint \<Rightarrow> ('a, 'h, 't) endpoint \<times> unit res" where
  "handle_crypto_frame E lvl offset data s =
    (case ep_slot s of None \<Rightarrow> (s, Ok ())
     | Some slot \<Rightarrow>
        if offset > MAX_CRYPTO_OFFSET \<or> u64_sat_add offset (length data) > MAX_CRYPTO_OFFSET
        then (s, Err (Transport CryptoBufferExceeded))
        else
          (case res_bind (pool_get (ep_pool s) slot) (\<lambda>ctx.
                res_bind (idx (hc_crypto_reasm ctx) (space_index lvl)) (\<lambda>r. Ok (ctx, r))) of
             Ok (ctx, r) \<Rightarrow>
               (case insert_data (en_uw E) r offset data of
                  (r', res) \<Rightarrow>
                    sbind (s\<lparr>ep_pool := pool_put slot (ctx\<lparr>hc_crypto_reasm :=
                             (hc_crypto_reasm ctx)[space_index lvl := r']\<rparr>) (ep_pool s)\<rparr>, res)
                      (\<lambda>s _. crypto_loop E lvl s))
           | _ \<Rightarrow> (s, Panic)))"

section \<open>Dispatch of frames\<close>

text \<open>The congestion controller on every newly acknowledged packet, and on every lost one.\<close>

fun ack_all :: "congestion \<Rightarrow> sent_packet list \<Rightarrow> congestion res" where
  "ack_all cc [] = Ok cc"
| "ack_all cc (pkt # pkts) =
    res_bind (on_packet_acked cc (sp_size pkt) (sp_time_sent pkt)) (\<lambda>cc. ack_all cc pkts)"

fun lose_all :: "level \<Rightarrow> nat \<Rightarrow> nat list \<Rightarrow> tracker \<times> congestion \<Rightarrow> tracker \<times> congestion" where
  "lose_all lvl now [] (t, cc) = (t, cc)"
| "lose_all lvl now (pn # pns) (t, cc) =
    (case remove t lvl pn of
       (t, Some lost) \<Rightarrow> lose_all lvl now pns (t, on_packet_lost cc (sp_size lost) (sp_time_sent lost) now)
     | (t, None) \<Rightarrow> lose_all lvl now pns (t, cc))"

definition handle_ack_frame ::
  "level \<Rightarrow> nat \<Rightarrow> ack_frame \<Rightarrow> ('a, 'h, 't) endpoint \<Rightarrow> ('a, 'h, 't) endpoint \<times> unit res" where
  "handle_ack_frame lvl now ack s =
    (case ack_pairs (ack_ranges ack) [] of
       Err e \<Rightarrow> (s, Err e)
     | Panic \<Rightarrow> (s, Panic)
     | Ok ranges \<Rightarrow>
        let (t, result) = on_ack_received (ep_sent s) lvl (largest_ack ack) (first_ack_range ack) ranges;
            ld = ld_on_ack_received (ep_loss s) lvl (largest_ack ack);
            ld = (case largest_newly_acked result of None \<Rightarrow> ld
                  | Some l \<Rightarrow>
                      reset_pto_count
                        (if sp_time_sent l > 0 \<and> now \<ge> sp_time_sent l
                         then update_rtt ld (now - sp_time_sent l) (ack_delay ack) (ep_state s = Active)
                         else ld))
        in case ack_all (ep_cc s) (newly_acked result) of
             Ok cc \<Rightarrow>
               let (ld, lost_pns, _) = detect_lost_packets ld lvl t now;
                   (t, cc) = lose_all lvl now lost_pns (t, cc)
               in (s\<lparr>ep_sent := t, ep_loss := ld, ep_cc := cc\<rparr>, Ok ())
           | _ \<Rightarrow> (s\<lparr>ep_sent := t, ep_loss := ld\<rparr>, Panic))"

definition handle_stream_frame ::
  "stream_frame \<Rightarrow> ('a, 'h, 't) endpoint \<Rightarrow> ('a, 'h, 't) endpoint \<times> unit res" where
  "handle_stream_frame f s =
    (let m = fst (get_or_create (ep_streams s) (st_stream_id f) (ep_role s = Client)
                    (initial_max_stream_data_bidi_remote (ep_local_params s)));
         s = s\<lparr>ep_streams := m\<rparr>
     in if get m (st_stream_id f) = None then (s, Ok ())
        else
          (case mark_recv m (st_stream_id f) (st_offset f) (length (st_data f)) (st_fin f) of
             (m, r) \<Rightarrow>
               sbind (s\<lparr>ep_streams := m\<rparr>, r) (\<lambda>s new_bytes.
                 (case on_recv (ep_flow s) new_bytes of
                    (fc, r) \<Rightarrow>
                      sbind (s\<lparr>ep_flow := fc\<rparr>, r) (\<lambda>s _.
                        (push_event (StreamReadable (st_stream_id f))
                          (s\<lparr>ep_io := store_stream_data (ep_io s) (st_stream_id f) (st_offset f)
                               (st_data f) (st_fin f)\<rparr>), Ok ()))))))"

primrec dispatch_frame ::
  "('a, 'h, 't) env \<Rightarrow> level \<Rightarrow> nat \<Rightarrow> frame \<Rightarrow> ('a, 'h, 't) endpoint \<Rightarrow> ('a, 'h, 't) endpoint \<times> unit res" where
  "dispatch_frame E lvl now Padding s = (s, Ok ())"
| "dispatch_frame E lvl now Ping s = (s, Ok ())"
| "dispatch_frame E lvl now (Ack ack) s = handle_ack_frame lvl now ack s"
| "dispatch_frame E lvl now (frame.Crypto f) s = handle_crypto_frame E lvl (cr_offset f) (cr_data f) s"
| "dispatch_frame E lvl now (Stream f) s = handle_stream_frame f s"
| "dispatch_frame E lvl now (MaxData v) s = (s\<lparr>ep_flow := handle_max_data (ep_flow s) v\<rparr>, Ok ())"
| "dispatch_frame E lvl now (MaxStreamData f) s =
    (s\<lparr>ep_streams := fst (handle_max_stream_data (ep_streams s) (msd_stream_id f) (msd_max_data f))\<rparr>, Ok ())"
| "dispatch_frame E lvl now (MaxStreams f) s =
    (s\<lparr>ep_flow := handle_max_streams (ep_flow s) (ms_bidirectional f) (ms_max_streams f)\<rparr>, Ok ())"
| "dispatch_frame E lvl now (ResetStream f) s =
    (if get (ep_streams s) (rst_stream_id f) = None then (s, Ok ())
     else (push_event (StreamReset (rst_stream_id f) (rst_error_code f))
             (s\<lparr>ep_streams := fst (handle_reset (ep_streams s) (rst_stream_id f) (rst_final_size f))\<rparr>), Ok ()))"
| "dispatch_frame E lvl now (StopSending f) s =
    (if get (ep_streams s) (ss_stream_id f) = None then (s, Ok ())
     else (push_event (StopSendingEv (ss_stream_id f) (ss_error_code f))
             (s\<lparr>ep_streams := fst (handle_stop_sending (ep_streams s) (ss_stream_id f))\<rparr>), Ok ()))"
| "dispatch_frame E lvl now (ConnectionClose f) s =
    (push_event (ConnectionClosed (cc_error_code f) (take (min (length (cc_reason f)) 64) (cc_reason f)))
       (s\<lparr>ep_state := Draining\<rparr>), Ok ())"
| "dispatch_frame E lvl now HandshakeDone s =
    (if ep_role s = Client then
       let s = (if ep_state s = Handshaking
                then push_event Connected (s\<lparr>ep_state := Active, ep_addr_validated := True\<rparr>) else s)
       in (drop_packet_space level.Handshake (s\<lparr>ep_keys := drop_handshake (ep_keys s)\<rparr>), Ok ())
     else (s, Ok ()))"
| "dispatch_frame E lvl now (NewToken f) s = (s, Ok ())"
| "dispatch_frame E lvl now (NewConnectionId f) s = (s, Ok ())"
| "dispatch_frame E lvl now (RetireConnectionId v) s = (s, Ok ())"
| "dispatch_frame E lvl now (PathChallenge data) s = (s\<lparr>ep_path_response := Some data\<rparr>, Ok ())"
| "dispatch_frame E lvl now (PathResponse data) s = (s, Ok ())"
| "dispatch_frame E lvl now (DataBlocked v) s = (s, Ok ())"
| "dispatch_frame E lvl now (StreamDataBlocked f) s = (s, Ok ())"
| "dispatch_frame E lvl now (StreamsBlocked f) s = (s, Ok ())"

fun elicits_ack :: "frame \<Rightarrow> bool" where
  "elicits_ack Padding = False"
| "elicits_ack (Ack _) = False"
| "elicits_ack _ = True"

text \<open>The loop over the payload: decode a frame, dispatch it, go on behind it.\<close>

function dispatch_frames ::
  "('a, 'h, 't) env \<Rightarrow> level \<Rightarrow> nat \<Rightarrow> bytes \<Rightarrow> bool \<Rightarrow> ('a, 'h, 't) endpoint \<Rightarrow> ('a, 'h, 't) endpoint \<times> bool res" where
  "dispatch_frames E lvl now payload ack_eliciting s =
    (if payload = [] then (s, Ok ack_eliciting)
     else
       sbind (s, decode (en_uw E) payload) (\<lambda>s (f, consumed).
         sbind (dispatch_frame E lvl now f s) (\<lambda>s _.
           dispatch_frames E lvl now (drop consumed payload) (ack_eliciting \<or> elicits_ack f) s)))"
  by pat_completeness auto
termination
  by (relation "measure (\<lambda>(E, lvl, now, payload, a, s). length payload)")
     (auto dest!: frame.par_consumed)

declare dispatch_frames.simps [simp del]

end
