(* ===== verification/Connection_Recv.thy ===== *)
theory Connection_Recv
  imports Connection Coalesce
begin

unbundle bit_operations_syntax

text \<open>
  The receive path (\<^verbatim>\<open>src/connection/recv.rs\<close>): from a datagram to the frames of its packets. A
  packet that fails is dropped and the loop goes on, with the state as the failed call left it.
  The scratch buffer is handed to every packet as it was: a packet reads only what it copied into
  it.
\<close>

section \<open>The code\<close>

record packet_result =
  pr_level :: level
  pr_ack_eliciting :: bool
  pr_pn :: nat

definition largest_pn :: "level \<Rightarrow> ('a, 'h, 't) endpoint \<Rightarrow> nat" where
  "largest_pn lvl s = (case ep_largest_recv_pn s ! space_index lvl of None \<Rightarrow> 0 | Some pn \<Rightarrow> pn)"

definition local_scid :: "('a, 'h, 't) endpoint \<Rightarrow> bytes" where
  "local_scid s = (case ep_local_cids s of [] \<Rightarrow> [] | cid # _ \<Rightarrow> cid)"

text \<open>The duplicate check and the dispatch at the end of \<^verbatim>\<open>recv_initial\<close> and \<^verbatim>\<open>recv_handshake\<close>.\<close>

definition deliver ::
  "('a, 'h, 't) env \<Rightarrow> level \<Rightarrow> nat \<Rightarrow> nat \<Rightarrow> bytes \<Rightarrow> ('a, 'h, 't) endpoint
   \<Rightarrow> ('a, 'h, 't) endpoint \<times> packet_result res" where
  "deliver E lvl now pn payload s =
    sbind (dispatch_frames E lvl now payload False s) (\<lambda>s ack_eliciting.
      (s, Ok \<lparr>pr_level = lvl, pr_ack_eliciting = ack_eliciting, pr_pn = pn\<rparr>))"

definition deliver_new ::
  "('a, 'h, 't) env \<Rightarrow> level \<Rightarrow> nat \<Rightarrow> nat \<Rightarrow> bytes \<Rightarrow> ('a, 'h, 't) endpoint
   \<Rightarrow> ('a, 'h, 't) endpoint \<times> packet_result res" where
  "deliver_new E lvl now pn payload s =
    (if contains (ep_recv_pn s ! space_index lvl) pn
     then (s, Ok \<lparr>pr_level = lvl, pr_ack_eliciting = False, pr_pn = pn\<rparr>)
     else deliver E lvl now pn payload s)"

definition first_initial ::
  "('a, 'h, 't) env \<Rightarrow> bytes \<Rightarrow> ('a, 'h, 't) endpoint \<Rightarrow> ('a, 'h, 't) endpoint \<times> unit res" where
  "first_initial E dcid s =
    (if has_recv_keys (ep_keys s) level.Initial then (s, Ok ())
     else
       sbind (s, derive_initial (en_aes E) dcid (ep_role s = Client) (ep_keys s)) (\<lambda>s keys.
         let s = s\<lparr>ep_keys := keys\<rparr>
         in if ep_role s = Server then
              (case ep_slot s of None \<Rightarrow> (s, Ok ())
               | Some slot \<Rightarrow>
                   sbind (s, pool_get (ep_pool s) slot) (\<lambda>s ctx.
                     (s\<lparr>ep_pool := pool_put slot
                          (ctx\<lparr>hc_tls := set_transport_param_cids dcid (local_scid s) (hc_tls ctx)\<rparr>)
                          (ep_pool s)\<rparr>, Ok ())))
            else (s, Ok ())))"

definition learn_remote_cid :: "bytes \<Rightarrow> ('a, 'h, 't) endpoint \<Rightarrow> ('a, 'h, 't) endpoint" where
  "learn_remote_cid scid s =
    (if scid \<noteq> [] \<and> (length (ep_remote_cid s) = 0 \<or> ep_role s = Client \<and> ep_state s = Handshaking)
     then s\<lparr>ep_remote_cid := cid_from_slice scid\<rparr> else s)"

definition recv_initial ::
  "('a, 'h, 't) env \<Rightarrow> bytes \<Rightarrow> nat \<Rightarrow> bytes \<Rightarrow> ('a, 'h, 't) endpoint
   \<Rightarrow> ('a, 'h, 't) endpoint \<times> packet_result res" where
  "recv_initial E scratch now pkt_data s =
    sbind (s, parse_initial_header (en_uw E) pkt_data) (\<lambda>s (hdr, _).
    sbind (first_initial E (ih_dcid hdr) s) (\<lambda>s _.
    let s = learn_remote_cid (ih_scid hdr) s
    in case initial_recv (ep_keys s) of
         None \<Rightarrow> (s, Err error.Crypto)
       | Some recv \<Rightarrow>
           sbind (s, decrypt_long_packet (en_aes E) (en_uw E) pkt_data (ih_pn_offset hdr)
                       (ih_payload_length hdr) (largest_pn level.Initial s) recv scratch)
             (\<lambda>s (scratch, payload_offset, pt_len, pn).
               deliver_new E level.Initial now pn (take pt_len (drop payload_offset scratch)) s)))"

definition recv_handshake ::
  "('a, 'h, 't) env \<Rightarrow> bytes \<Rightarrow> nat \<Rightarrow> bytes \<Rightarrow> ('a, 'h, 't) endpoint
   \<Rightarrow> ('a, 'h, 't) endpoint \<times> packet_result res" where
  "recv_handshake E scratch now pkt_data s =
    sbind (s, parse_handshake_header (en_uw E) pkt_data) (\<lambda>s (hdr, _).
    case recv_keys (ep_keys s) level.Handshake of
      None \<Rightarrow> (s, Err error.Crypto)
    | Some recv \<Rightarrow>
        sbind (s, decrypt_long_packet (en_provider E) (en_uw E) pkt_data (hh_pn_offset hdr)
                    (hh_payload_length hdr) (largest_pn level.Handshake s) recv scratch)
          (\<lambda>s (scratch, payload_offset, pt_len, pn).
            if contains (ep_recv_pn s ! space_index level.Handshake) pn
            then (s, Ok \<lparr>pr_level = level.Handshake, pr_ack_eliciting = False, pr_pn = pn\<rparr>)
            else
              sbind (deliver E level.Handshake now pn (take pt_len (drop payload_offset scratch)) s) (\<lambda>s pr.
                if ep_role s = Server \<and> has_send_keys (ep_keys s) level.Initial
                then (drop_packet_space level.Initial (s\<lparr>ep_keys := drop_initial (ep_keys s)\<rparr>), Ok pr)
                else (s, Ok pr))))"

definition recv_short ::
  "('a, 'h, 't) env \<Rightarrow> bytes \<Rightarrow> nat \<Rightarrow> bytes \<Rightarrow> ('a, 'h, 't) endpoint
   \<Rightarrow> ('a, 'h, 't) endpoint \<times> packet_result res" where
  "recv_short E scratch now pkt_data s =
    sbind (s, parse_short_header pkt_data (length (local_scid s))) (\<lambda>s (_, pn_offset).
    case open_short (en_provider E) (ep_keys s) (ep_recv_pn s ! space_index Application)
           (largest_pn Application s) pkt_data pn_offset scratch of
      (keys, r) \<Rightarrow>
        sbind (s\<lparr>ep_keys := keys\<rparr>, r) (\<lambda>s op.
          case op of
            Duplicate pn \<Rightarrow> (s, Ok \<lparr>pr_level = Application, pr_ack_eliciting = False, pr_pn = pn\<rparr>)
          | Opened pn payload \<Rightarrow> deliver E Application now pn payload s))"

text \<open>What \<^verbatim>\<open>recv\<close> records of a packet that was processed.\<close>

definition packet_done :: "packet_result \<Rightarrow> ('a, 'h, 't) endpoint \<Rightarrow> ('a, 'h, 't) endpoint" where
  "packet_done pr s =
    (let i = space_index (pr_level pr);
         s = (if pr_ack_eliciting pr then s\<lparr>ep_ack_eliciting := (ep_ack_eliciting s)[i := True]\<rparr> else s);
         s = (case ep_largest_recv_pn s ! i of
                None \<Rightarrow> s\<lparr>ep_largest_recv_pn := (ep_largest_recv_pn s)[i := Some (pr_pn pr)]\<rparr>
              | Some prev \<Rightarrow>
                  if pr_pn pr > prev
                  then s\<lparr>ep_largest_recv_pn := (ep_largest_recv_pn s)[i := Some (pr_pn pr)]\<rparr> else s)
     in track_received_pn (pr_level pr) (pr_pn pr) s)"

definition recv_packet ::
  "('a, 'h, 't) env \<Rightarrow> bytes \<Rightarrow> nat \<Rightarrow> bytes \<Rightarrow> ('a, 'h, 't) endpoint
   \<Rightarrow> ('a, 'h, 't) endpoint \<times> unit res" where
  "recv_packet E scratch now pkt_data s =
    (case pkt_data of [] \<Rightarrow> (s, Ok ())
     | first_byte # _ \<Rightarrow>
         let attempt = (\<lambda>r. case r of
               (s, Ok pr) \<Rightarrow> (packet_done pr s, Ok ())
             | (s, Err _) \<Rightarrow> (s, Ok ())
             | (s, Panic) \<Rightarrow> (s, Panic))
         in if first_byte AND 0x80 \<noteq> 0 then
              let pkt_type = drop_bit 4 (first_byte AND 0x30)
              in if pkt_type = 0 then attempt (recv_initial E scratch now pkt_data s)
                 else if pkt_type = 2 then attempt (recv_handshake E scratch now pkt_data s)
                 else (s, Ok ())
            else attempt (recv_short E scratch now pkt_data s))"

fun recv_packets ::
  "('a, 'h, 't) env \<Rightarrow> bytes \<Rightarrow> nat \<Rightarrow> bytes res list \<Rightarrow> ('a, 'h, 't) endpoint
   \<Rightarrow> ('a, 'h, 't) endpoint \<times> unit res" where
  "recv_packets E scratch now [] s = (s, Ok ())"
| "recv_packets E scratch now (Ok pkt_data # ps) s =
    sbind (recv_packet E scratch now pkt_data s) (\<lambda>s _. recv_packets E scratch now ps s)"
| "recv_packets E scratch now (Err _ # ps) s = (s, Ok ())"
| "recv_packets E scratch now (Panic # ps) s = (s, Panic)"

text \<open>\<^verbatim>\<open>Connection::recv\<close>; \<open>None\<close> is a loop over the packets that does not end.\<close>

definition conn_recv ::
  "('a, 'h, 't) env \<Rightarrow> bytes \<Rightarrow> nat \<Rightarrow> bytes \<Rightarrow> ('a, 'h, 't) endpoint
   \<Rightarrow> (('a, 'h, 't) endpoint \<times> unit res) option" where
  "conn_recv E scratch now datagram s =
    (if ep_state s = conn_state.Closed then Some (s, Err error.Closed)
     else
       let s = s\<lparr>ep_last_activity := now\<rparr>;
           s = (if ep_addr_validated s then s
                else s\<lparr>ep_amp_received := min (ep_amp_received s + length datagram) (2 ^ en_uw E - 1)\<rparr>)
       in case packets (en_uw E) (coalesced_new datagram) of
            None \<Rightarrow> None
          | Some ps \<Rightarrow>
              Some (sbind (recv_packets E scratch now ps s) (\<lambda>s _. check_tls_keys E s)))"

text \<open>The state in which the packets of a datagram are processed.\<close>

definition recv_entry :: "('a, 'h, 't) env \<Rightarrow> nat \<Rightarrow> bytes \<Rightarrow> ('a, 'h, 't) endpoint \<Rightarrow> ('a, 'h, 't) endpoint" where
  "recv_entry E now datagram s =
    (if ep_addr_validated s then s\<lparr>ep_last_activity := now\<rparr>
     else s\<lparr>ep_last_activity := now,
       ep_amp_received := min (ep_amp_received s + length datagram) (2 ^ en_uw E - 1)\<rparr>)"

lemma conn_recv_cases:
  assumes "conn_recv E scratch now d s = Some (s', r)"
  obtains (closed) "ep_state s = conn_state.Closed" "s' = s"
  | (processed) ps where "ep_state s \<noteq> conn_state.Closed"
      "s' = fst (sbind (recv_packets E scratch now ps (recv_entry E now d s)) (\<lambda>s _. check_tls_keys E s))"
proof (cases "ep_state s = conn_state.Closed")
  case True
  then have "s' = s" using assms by (simp add: conn_recv_def)
  then show ?thesis by (rule closed [OF True])
next
  case False
  have "conn_recv E scratch now d s = map_option
      (\<lambda>ps. sbind (recv_packets E scratch now ps (recv_entry E now d s)) (\<lambda>s _. check_tls_keys E s))
      (packets (en_uw E) (coalesced_new d))"
    using False by (cases "ep_addr_validated s"; cases "packets (en_uw E) (coalesced_new d)")
      (simp_all add: conn_recv_def recv_entry_def Let_def)
  with assms obtain ps where
    "sbind (recv_packets E scratch now ps (recv_entry E now d s)) (\<lambda>s _. check_tls_keys E s) = (s', r)"
    by (cases "packets (en_uw E) (coalesced_new d)") simp_all
  then show ?thesis by (intro processed [OF False, of ps]) simp
qed

end
