(* ===== verification/Connection_Send.thy ===== *)
theory Connection_Send
  imports Connection_Recv
begin

unbundle bit_operations_syntax

text \<open>
  The transmit path (\<^verbatim>\<open>src/connection/transmit.rs\<close>): packets of the three levels, their frames and
  the datagram that \<^verbatim>\<open>poll_transmit\<close> returns. A builder writes its frames through a cursor on the
  part of the buffer behind the space reserved for the header, and the header in front of them
  afterwards; the frames never overlap the header, so the model keeps them apart until the packet
  is put together. A builder that returns nothing leaves the buffer as it was: every byte of a
  datagram is written by the packet it belongs to.
\<close>

section \<open>Writing frames\<close>

text \<open>A write moves the position forward inside the buffer and keeps what is in front of it.\<close>

definition writes :: "cursor \<Rightarrow> cursor \<Rightarrow> bool" where
  "writes c c' \<longleftrightarrow> length (fst c') = length (fst c) \<and> snd c \<le> snd c' \<and> snd c' \<le> length (fst c')
     \<and> take (snd c) (fst c') = take (snd c) (fst c)"

lemma writes_trans: "writes a b \<Longrightarrow> writes b c \<Longrightarrow> writes a c"
proof -
  assume ab: "writes a b" and bc: "writes b c"
  have "take (snd a) (fst c) = take (snd a) (take (snd b) (fst c))"
    using ab by (simp add: writes_def min_def)
  also have "\<dots> = take (snd a) (fst a)"
    using ab bc by (simp add: writes_def min_def)
  finally show "writes a c" using ab bc by (simp add: writes_def)
qed

lemma write_varint_writes:
  assumes "write_varint v c = Ok c'"
  shows "writes c c' \<and> snd c < snd c'"
proof (cases c)
  case (Pair buf pos)
  with assms have v: "v \<le> MAX_VARINT" "varint_len v \<le> length buf - pos" "pos \<le> length buf"
    by (auto simp: res_bind_eq_Ok buf_Ok encode_varint_def Let_def split: if_splits)
  have "c' = (take pos buf @ varint_bytes v @ drop (varint_len v) (drop pos buf), pos + varint_len v)"
    using assms Pair v by (simp add: encode_varint_spec)
  then show ?thesis using Pair v by (auto simp: writes_def)
qed

lemma write_bytes_writes:
  assumes "write_bytes data c = Ok c'"
  shows "writes c c'"
proof (cases c)
  case (Pair buf pos)
  with assms show ?thesis by (auto simp: res_bind_eq_Ok buf_Ok writes_def split: if_splits)
qed

text \<open>\<^verbatim>\<open>if let Ok(written) = frame::encode(..)\<close>: a frame that does not fit is left out.\<close>

definition try_frame :: "frame \<Rightarrow> cursor \<Rightarrow> cursor option res" where
  "try_frame f c = (case encode_from f c of Ok c' \<Rightarrow> Ok (Some c') | Err _ \<Rightarrow> Ok None | Panic \<Rightarrow> Panic)"

lemma try_frame_max_stream_data:
  assumes "try_frame (MaxStreamData f) c = Ok (Some c')"
  shows "length (fst c') = length (fst c) \<and> snd c < snd c' \<and> snd c' \<le> length (fst c')"
proof -
  from assms obtain s n where e: "snd c \<le> length (fst c)" "c' = (take (snd c) (fst c) @ s, snd c + n)"
    "encode (MaxStreamData f) (drop (snd c) (fst c)) = Ok (s, n)"
    by (auto simp: try_frame_def encode_from_def res_bind_eq_Ok buf_Ok split: res.splits)
  from e(3) obtain c1 c2 where w: "write_varint 0x11 (drop (snd c) (fst c), 0) = Ok c1"
    "write_varint (msd_stream_id f) c1 = Ok c2" "write_varint (msd_max_data f) c2 = Ok (s, n)"
    by (auto simp: encode_def res_bind_eq_Ok simp del: write_varint.simps)
  show ?thesis
    using write_varint_writes [OF w(1)] write_varint_writes [OF w(2)] write_varint_writes [OF w(3)] e(1,2)
    by (auto simp: writes_def)
qed

section \<open>The code\<close>

definition MIN_INITIAL_PACKET_SIZE :: nat where
  "MIN_INITIAL_PACKET_SIZE = 1200"

definition usize_sub :: "nat \<Rightarrow> nat \<Rightarrow> nat \<Rightarrow> nat" where
  "usize_sub uw a b = (a + (2 ^ uw - b mod 2 ^ uw)) mod 2 ^ uw"

text \<open>\<^verbatim>\<open>.ok()?\<close> in a function that returns an option.\<close>

fun ok_or_none :: "'s \<times> 'a res \<Rightarrow> ('s \<Rightarrow> 'a \<Rightarrow> 's \<times> 'b option res) \<Rightarrow> 's \<times> 'b option res" where
  "ok_or_none (s, Ok x) f = f s x"
| "ok_or_none (s, Err _) f = (s, Ok None)"
| "ok_or_none (s, Panic) f = (s, Panic)"

lemma ok_or_none_eq_Some:
  "ok_or_none p f = (s', Ok (Some y)) \<longleftrightarrow> (\<exists>s x. p = (s, Ok x) \<and> f s x = (s', Ok (Some y)))"
  by (cases p; cases "snd p") auto

definition write_ack :: "level \<Rightarrow> cursor \<Rightarrow> ('a, 'h, 't) endpoint \<Rightarrow> ('a, 'h, 't) endpoint \<times> cursor" where
  "write_ack lvl c s =
    (let i = space_index lvl
     in if ep_ack_eliciting s ! i then
          (case build_ack_frame (ep_recv_pn s ! i) (drop (snd c) (fst c)) of
             None \<Rightarrow> (s, c)
           | Some (b, n) \<Rightarrow>
               (s\<lparr>ep_ack_eliciting := (ep_ack_eliciting s)[i := False]\<rparr>,
                (take (snd c) (fst c) @ b, snd c + n)))
        else (s, c))"

text \<open>\<^verbatim>\<open>write_tls_crypto_data\<close>: the staging of the engine's output, and one CRYPTO frame.\<close>

definition stage_tls :: "('a, 'h, 't) env \<Rightarrow> nat \<Rightarrow> 't hs_ctx \<Rightarrow> 't hs_ctx res" where
  "stage_tls E tidx ctx =
    (if as_usize (en_uw E) (hc_crypto_send_offset ctx ! tidx) = length (hc_pending_crypto ctx ! tidx) then
       (case en_tls_write E (hc_tls ctx) of
          (tls, Ok (out, tls_level)) \<Rightarrow>
            let ctx = ctx\<lparr>hc_tls := tls\<rparr>; lidx = space_index tls_level; held = hc_pending_crypto ctx ! lidx
            in if length out > 0 then
                 Ok (ctx\<lparr>hc_pending_crypto := (hc_pending_crypto ctx)
                           [lidx := (if length held + length out \<le> 2048 then held @ out else held)],
                         hc_pending_level := (hc_pending_level ctx)[lidx := tls_level]\<rparr>)
               else Ok ctx
        | (tls, Err _) \<Rightarrow> Ok (ctx\<lparr>hc_tls := tls\<rparr>)
        | (tls, Panic) \<Rightarrow> Panic)
     else Ok ctx)"

definition FRAME_OVERHEAD :: nat where
  "FRAME_OVERHEAD = 33"

definition write_tls_crypto_data ::
  "('a, 'h, 't) env \<Rightarrow> level \<Rightarrow> cursor \<Rightarrow> ('a, 'h, 't) endpoint \<Rightarrow> ('a, 'h, 't) endpoint \<times> cursor res" where
  "write_tls_crypto_data E lvl c s =
    (case ep_slot s of None \<Rightarrow> (s, Ok c)
     | Some slot \<Rightarrow>
         let tidx = space_index lvl; room = length (fst c) - snd c
         in sbind (s, res_bind (pool_get (ep_pool s) slot) (stage_tls E tidx)) (\<lambda>s ctx.
              let s = s\<lparr>ep_pool := pool_put slot ctx (ep_pool s)\<rparr>;
                  offset = hc_crypto_send_offset ctx ! tidx;
                  start = as_usize (en_uw E) offset;
                  unsent = usize_sub (en_uw E) (length (hc_pending_crypto ctx ! tidx)) start
              in if unsent = 0 \<or> room \<le> FRAME_OVERHEAD then (s, Ok c)
                 else
                   let send_len = min (room - FRAME_OVERHEAD) unsent
                   in sbind (s, slice (hc_pending_crypto ctx ! tidx) start (start + send_len)) (\<lambda>s data.
                      sbind (s, try_frame (frame.Crypto \<lparr>cr_offset = offset, cr_data = data\<rparr>) c) (\<lambda>s r.
                        case r of
                          Some c' \<Rightarrow>
                            (s\<lparr>ep_pool := pool_put slot (ctx\<lparr>hc_crypto_send_offset :=
                                 (hc_crypto_send_offset ctx)[tidx := u64_add offset send_len]\<rparr>) (ep_pool s)\<rparr>,
                             Ok c')
                        | None \<Rightarrow> (s, Ok c)))))"

text \<open>The record of a packet that was sealed.\<close>

definition packet_sent ::
  "level \<Rightarrow> nat \<Rightarrow> nat \<Rightarrow> nat \<Rightarrow> bool \<Rightarrow> bool \<Rightarrow> ('a, 'h, 't) endpoint \<Rightarrow> ('a, 'h, 't) endpoint" where
  "packet_sent lvl pn now tot ack_eliciting in_flight s =
    s\<lparr>ep_next_pn := (ep_next_pn s)[space_index lvl := u64_add pn 1],
      ep_sent := fst (on_packet_sent (ep_sent s)
        \<lparr>sp_pn = pn, sp_level = lvl, sp_time_sent = now, sp_size = tot mod 2 ^ 16,
         sp_ack_eliciting = ack_eliciting, sp_in_flight = in_flight\<rparr>),
      ep_loss := (if ack_eliciting then on_ack_eliciting_sent (ep_loss s) lvl now else ep_loss s),
      ep_cc := (if in_flight then cc_on_packet_sent (ep_cc s) tot else ep_cc s)\<rparr>"

text \<open>
  The padding of an Initial packet: its size, and the length of the header with it. Padding may
  make the Length field longer, so it is computed twice.
\<close>

definition initial_padding :: "nat \<Rightarrow> nat \<Rightarrow> nat \<Rightarrow> bool \<Rightarrow> nat \<times> nat" where
  "initial_padding base_header pn_len frame_len pad_to_min =
    (let base_payload_length = pn_len + frame_len + 16;
         length_vi_len = varint_len base_payload_length;
         header_len = base_header + length_vi_len;
         total_no_pad = header_len + base_payload_length;
         padding_needed = (if pad_to_min \<and> total_no_pad < MIN_INITIAL_PACKET_SIZE
                           then MIN_INITIAL_PACKET_SIZE - total_no_pad else 0);
         new_vi_len = varint_len (pn_len + frame_len + padding_needed + 16)
     in if new_vi_len \<noteq> length_vi_len then
          let header_len = base_header + new_vi_len;
              tot = header_len + pn_len + frame_len + padding_needed + 16
          in (if pad_to_min \<and> tot < MIN_INITIAL_PACKET_SIZE
              then padding_needed + (MIN_INITIAL_PACKET_SIZE - tot) else padding_needed, header_len)
        else (padding_needed, header_len))"

text \<open>The packet number behind the header, the padded frames behind it, and the encryption.\<close>

definition seal_packet ::
  "('a, 'h) crypto_provider \<Rightarrow> cursor \<Rightarrow> nat \<Rightarrow> nat \<Rightarrow> bytes \<Rightarrow> bool \<Rightarrow> ('a, 'h) directional_keys option
   \<Rightarrow> (bytes \<times> nat) res" where
  "seal_packet P hdr pn largest_acked payload is_long send =
    (case hdr of (buf, pn_offset) \<Rightarrow>
       res_bind (slice_from buf pn_offset) (\<lambda>rest.
       res_bind (encode_pn pn largest_acked rest) (\<lambda>(rest, pn_len).
       let payload_start = pn_offset + pn_len
       in res_bind (copy_at (take pn_offset buf @ rest) payload_start payload) (\<lambda>buf.
          case send of None \<Rightarrow> Err error.Crypto
          | Some k \<Rightarrow> encrypt_and_protect P buf pn_offset payload_start (length payload) pn pn_len is_long k))))"

definition build_initial_packet ::
  "('a, 'h, 't) env \<Rightarrow> bytes \<Rightarrow> nat \<Rightarrow> ('a, 'h, 't) endpoint
   \<Rightarrow> ('a, 'h, 't) endpoint \<times> (bytes \<times> nat) option res" where
  "build_initial_packet E buf now s =
    (let lvl = level.Initial;
         pn = ep_next_pn s ! space_index lvl;
         largest_acked = largest_pn lvl s;
         pn_len = pn_length pn largest_acked;
         dcid = ep_remote_cid s;
         scid = local_scid s;
         reserve = 1 + 4 + 1 + length dcid + 1 + length scid + 1 + 8 + pn_len
     in if length buf < reserve + 32 then (s, Ok None)
        else
          let (s, c) = write_ack lvl (drop reserve buf, 0) s
          in sbind (if length buf \<ge> MIN_INITIAL_PACKET_SIZE then write_tls_crypto_data E lvl c s else (s, Ok c))
               (\<lambda>s c'.
                 if snd c' = 0 then (s, Ok None)
                 else
                   let has_crypto = snd c' > snd c;
                       pad_to_min = (ep_role s = Client \<or> has_crypto);
                       (padding_needed, header_len) =
                         initial_padding (1 + 4 + 1 + length dcid + 1 + length scid + varint_len 0)
                           pn_len (snd c') pad_to_min;
                       payload = take (snd c') (fst c') @ replicate padding_needed 0;
                       payload_length = pn_len + length payload + 16
                   in if header_len + payload_length > length buf then (s, Ok None)
                      else
                        ok_or_none (s, encode_initial_header dcid scid [] pn_len payload_length buf) (\<lambda>s hdr.
                        ok_or_none (s, seal_packet (en_aes E) hdr pn largest_acked payload True
                                         (initial_send (ep_keys s))) (\<lambda>s (out, tot).
                          (packet_sent lvl pn now tot has_crypto (has_crypto \<or> padding_needed > 0) s,
                           Ok (Some (out, tot)))))))"

definition build_handshake_packet ::
  "('a, 'h, 't) env \<Rightarrow> bytes \<Rightarrow> nat \<Rightarrow> ('a, 'h, 't) endpoint
   \<Rightarrow> ('a, 'h, 't) endpoint \<times> (bytes \<times> nat) option res" where
  "build_handshake_packet E buf now s =
    (let lvl = level.Handshake;
         pn = ep_next_pn s ! space_index lvl;
         largest_acked = largest_pn lvl s;
         pn_len = pn_length pn largest_acked;
         dcid = ep_remote_cid s;
         scid = local_scid s;
         reserve = 1 + 4 + 1 + length dcid + 1 + length scid + 8 + pn_len
     in if length buf < reserve + 32 then (s, Ok None)
        else
          let (s, c) = write_ack lvl (drop reserve buf, 0) s
          in sbind (write_tls_crypto_data E lvl c s) (\<lambda>s c'.
               if snd c' = 0 then (s, Ok None)
               else
                 let payload = take (snd c') (fst c');
                     ack_eliciting = (snd c' > snd c)
                 in ok_or_none (s, encode_handshake_header dcid scid pn_len (pn_len + length payload + 16) buf)
                      (\<lambda>s hdr.
                    ok_or_none (s, seal_packet (en_provider E) hdr pn largest_acked payload True
                                     (send_keys (ep_keys s) lvl)) (\<lambda>s (out, tot).
                      (packet_sent lvl pn now tot ack_eliciting ack_eliciting s, Ok (Some (out, tot)))))))"

text \<open>The frames of a 1-RTT packet, in the order of the code; the flag is \<^verbatim>\<open>ack_eliciting\<close>.\<close>

function write_max_stream_data ::
  "cursor \<Rightarrow> bool \<Rightarrow> ('a, 'h, 't) endpoint \<Rightarrow> ('a, 'h, 't) endpoint \<times> (cursor \<times> bool) res" where
  "write_max_stream_data c ack_eliciting s =
    (case should_send_max_stream_data (ep_streams s) of
       None \<Rightarrow> (s, Ok (c, ack_eliciting))
     | Some (sid, new_max) \<Rightarrow>
         (case try_frame (MaxStreamData \<lparr>msd_stream_id = sid, msd_max_data = new_max\<rparr>) c of
            Ok (Some c') \<Rightarrow>
              write_max_stream_data c' True
                (s\<lparr>ep_streams := mark_max_stream_data_sent (ep_streams s) sid\<rparr>)
          | Ok None \<Rightarrow> (s, Ok (c, ack_eliciting))
          | Err e \<Rightarrow> (s, Err e)
          | Panic \<Rightarrow> (s, Panic)))"
  by pat_completeness auto
termination
proof (relation "measure (\<lambda>(c, a, s). length (fst c) - snd c)", goal_cases)
  case (2 c a s x sid new_max x2 c')
  then show ?case using try_frame_max_stream_data by fastforce
qed simp

declare write_max_stream_data.simps [simp del]

definition write_control_frames ::
  "cursor \<Rightarrow> ('a, 'h, 't) endpoint \<Rightarrow> ('a, 'h, 't) endpoint \<times> (cursor \<times> bool \<times> bool) res" where
  "write_control_frames c s =
    sbind (s, if ep_role s = Server \<and> ep_need_handshake_done s then try_frame HandshakeDone c else Ok None)
      (\<lambda>s r1.
    let sending_handshake_done = (r1 \<noteq> None); c = (case r1 of Some c' \<Rightarrow> c' | None \<Rightarrow> c)
    in sbind (s, case ep_path_response s of Some d \<Rightarrow> try_frame (PathResponse d) c | None \<Rightarrow> Ok None) (\<lambda>s r2.
       let s = (if r2 \<noteq> None then s\<lparr>ep_path_response := None\<rparr> else s);
           c = (case r2 of Some c' \<Rightarrow> c' | None \<Rightarrow> c);
           (s, c) = write_ack Application c s
       in sbind (s, case should_send_max_data (ep_flow s) of
                      Some new_max \<Rightarrow> try_frame (MaxData new_max) c | None \<Rightarrow> Ok None) (\<lambda>s r3.
          let s = (if r3 \<noteq> None then s\<lparr>ep_flow := max_data_sent (ep_flow s)\<rparr> else s);
              c = (case r3 of Some c' \<Rightarrow> c' | None \<Rightarrow> c)
          in sbind (write_max_stream_data c (r1 \<noteq> None \<or> r2 \<noteq> None \<or> r3 \<noteq> None) s) (\<lambda>s (c, ack_eliciting).
               (s, Ok (c, sending_handshake_done, ack_eliciting))))))"

definition write_streams ::
  "('a, 'h, 't) env \<Rightarrow> cursor \<Rightarrow> ('a, 'h, 't) endpoint \<Rightarrow> ('a, 'h, 't) endpoint \<times> cursor" where
  "write_streams E c s =
    (let buf_avail = length (fst c) - snd c;
         stream_budget = min (as_usize (en_uw E) (available_window (ep_cc s))) buf_avail
     in if stream_budget > 0 then
          (case build_stream_frames (ep_io s) (take stream_budget (drop (snd c) (fst c))) of
             (sio, (b, n)) \<Rightarrow>
               (s\<lparr>ep_io := sio\<rparr>,
                (take (snd c) (fst c) @ b @ drop (snd c + stream_budget) (fst c), snd c + n)))
        else (s, c))"

definition short_first_byte :: "byte \<Rightarrow> nat \<Rightarrow> byte" where
  "short_first_byte key_phase pn_len =
    0x40 OR push_bit 2 (key_phase AND 1) OR (word_of_nat pn_len - 1)"

definition short_padding :: "nat \<Rightarrow> nat \<Rightarrow> nat" where
  "short_padding pn_len frame_len =
    (let min_encrypted = 20 - pn_len
     in if frame_len + 16 < min_encrypted then min_encrypted - frame_len - 16 else 0)"

definition build_short_packet ::
  "('a, 'h, 't) env \<Rightarrow> bytes \<Rightarrow> nat \<Rightarrow> ('a, 'h, 't) endpoint
   \<Rightarrow> ('a, 'h, 't) endpoint \<times> (bytes \<times> nat) option res" where
  "build_short_packet E buf now s =
    (let lvl = Application;
         pn = ep_next_pn s ! space_index lvl;
         largest_acked = largest_pn lvl s;
         pn_len = pn_length pn largest_acked;
         dcid = ep_remote_cid s;
         payload_start = 1 + length dcid + pn_len
     in if length buf < payload_start + 32 then (s, Ok None)
        else
          sbind (write_control_frames (drop payload_start buf, 0) s)
            (\<lambda>s (c, sending_handshake_done, ack_eliciting).
          let (s, c') = write_streams E c s;
              ack_eliciting = (ack_eliciting \<or> snd c' > snd c)
          in if snd c' = 0 then (s, Ok None)
             else
               let payload = take (snd c') (fst c') @ replicate (short_padding pn_len (snd c')) 0
               in ok_or_none (s, encode_short_header dcid (short_first_byte (ku_key_phase (ep_keys s)) pn_len) buf)
                    (\<lambda>s hdr.
                  ok_or_none (s, seal_packet (en_provider E) hdr pn largest_acked payload False
                                   (send_keys (ep_keys s) lvl)) (\<lambda>s (out, tot).
                    let s = (if sending_handshake_done then s\<lparr>ep_need_handshake_done := False\<rparr> else s);
                        s = s\<lparr>ep_keys := (ep_keys s)\<lparr>ku_packets_encrypted :=
                               u64_add (ku_packets_encrypted (ep_keys s)) 1\<rparr>\<rparr>
                    in (packet_sent lvl pn now tot ack_eliciting ack_eliciting s, Ok (Some (out, tot)))))))"

text \<open>The packet that carries CONNECTION\_CLOSE.\<close>

definition build_and_encrypt_initial_packet ::
  "('a, 'h, 't) env \<Rightarrow> bytes \<Rightarrow> bool \<Rightarrow> bytes \<Rightarrow> nat \<Rightarrow> ('a, 'h, 't) endpoint
   \<Rightarrow> ('a, 'h, 't) endpoint \<times> (bytes \<times> nat) res" where
  "build_and_encrypt_initial_packet E payload_frames pad_to_min out now s =
    (let lvl = level.Initial;
         pn = ep_next_pn s ! space_index lvl;
         largest_acked = largest_pn lvl s;
         pn_len = pn_length pn largest_acked;
         dcid = ep_remote_cid s;
         scid = local_scid s;
         (padding_needed, _) =
           initial_padding (1 + 4 + 1 + length dcid + 1 + length scid + varint_len 0 + 0)
             pn_len (length payload_frames) pad_to_min;
         payload = payload_frames @ replicate padding_needed 0
     in sbind (s, encode_initial_header dcid scid [] pn_len (pn_len + length payload + 16) out) (\<lambda>s hdr.
        if snd hdr + pn_len > length out then (s, Err (BufferTooSmall pn_len))
        else if snd hdr + pn_len + length payload + 16 > length out
        then (s, Err (BufferTooSmall (snd hdr + pn_len + length payload + 16)))
        else
          sbind (s, seal_packet (en_aes E) hdr pn largest_acked payload True (initial_send (ep_keys s)))
            (\<lambda>s (out, tot). (packet_sent lvl pn now tot False False s, Ok (out, tot)))))"

definition build_and_encrypt_packet ::
  "('a, 'h, 't) env \<Rightarrow> level \<Rightarrow> bytes \<Rightarrow> bytes \<Rightarrow> nat \<Rightarrow> ('a, 'h, 't) endpoint
   \<Rightarrow> ('a, 'h, 't) endpoint \<times> (bytes \<times> nat) res" where
  "build_and_encrypt_packet E lvl payload_frames out now s =
    (let pn = ep_next_pn s ! space_index lvl;
         largest_acked = largest_pn lvl s;
         pn_len = pn_length pn largest_acked;
         dcid = ep_remote_cid s;
         scid = local_scid s;
         payload = payload_frames @ replicate (short_padding pn_len (length payload_frames)) 0
     in sbind (s, case lvl of
                    level.Handshake \<Rightarrow>
                      encode_handshake_header dcid scid pn_len (pn_len + length payload + 16) out
                  | Application \<Rightarrow>
                      encode_short_header dcid (short_first_byte (ku_key_phase (ep_keys s)) pn_len) out
                  | level.Initial \<Rightarrow> Err InvalidState) (\<lambda>s hdr.
        if snd hdr + pn_len > length out then (s, Err (BufferTooSmall pn_len))
        else if snd hdr + pn_len + length payload + 16 > length out
        then (s, Err (BufferTooSmall (snd hdr + pn_len + length payload + 16)))
        else
          sbind (s, seal_packet (en_provider E) hdr pn largest_acked payload (lvl = level.Handshake)
                      (send_keys (ep_keys s) lvl))
            (\<lambda>s (out, tot).
              let s = (if lvl = Application
                       then s\<lparr>ep_keys := (ep_keys s)\<lparr>ku_packets_encrypted :=
                              u64_add (ku_packets_encrypted (ep_keys s)) 1\<rparr>\<rparr> else s)
              in (packet_sent lvl pn now tot False False s, Ok (out, tot)))))"

definition close_level :: "('a, 'h, 't) endpoint \<Rightarrow> level option" where
  "close_level s =
    (if has_send_keys (ep_keys s) Application then Some Application
     else if has_send_keys (ep_keys s) level.Handshake then Some level.Handshake
     else if has_send_keys (ep_keys s) level.Initial then Some level.Initial else None)"

definition send_close ::
  "('a, 'h, 't) env \<Rightarrow> nat \<Rightarrow> bytes \<Rightarrow> bytes \<Rightarrow> nat \<Rightarrow> ('a, 'h, 't) endpoint
   \<Rightarrow> ('a, 'h, 't) endpoint \<times> bytes option res" where
  "send_close E error_code reason buf now s =
    (case close_level s of None \<Rightarrow> (s, Ok None)
     | Some lvl \<Rightarrow>
         let close_frame = ConnectionClose \<lparr>cc_is_application = False, cc_error_code = error_code,
               cc_frame_type = 0, cc_reason = reason\<rparr>
         in (case encode close_frame (replicate 128 0) of
               Ok (frame_buf, frame_len) \<Rightarrow>
                 (case (if lvl = level.Initial
                        then build_and_encrypt_initial_packet E (take frame_len frame_buf) (ep_role s = Client) buf now s
                        else build_and_encrypt_packet E lvl (take frame_len frame_buf) buf now s) of
                    (s, Ok (out, pkt_len)) \<Rightarrow>
                      (s\<lparr>ep_state := conn_state.Closed\<rparr>,
                       Ok (if pkt_len > 0 then Some (take pkt_len out) else None))
                  | (s, Err _) \<Rightarrow> (s\<lparr>ep_state := conn_state.Closed\<rparr>, Ok None)
                  | (s, Panic) \<Rightarrow> (s, Panic))
             | Err _ \<Rightarrow> (s\<lparr>ep_state := conn_state.Closed\<rparr>, Ok None)
             | Panic \<Rightarrow> (s, Panic)))"

text \<open>One of the three builders on the rest of the datagram.\<close>

definition append_packet ::
  "(bytes \<Rightarrow> ('a, 'h, 't) endpoint \<Rightarrow> ('a, 'h, 't) endpoint \<times> (bytes \<times> nat) option res)
   \<Rightarrow> level \<Rightarrow> cursor \<Rightarrow> ('a, 'h, 't) endpoint \<Rightarrow> ('a, 'h, 't) endpoint \<times> cursor res" where
  "append_packet build lvl c s =
    (if has_send_keys (ep_keys s) lvl then
       sbind (build (drop (snd c) (fst c)) s) (\<lambda>s r.
         (s, Ok (case r of Some (out, n) \<Rightarrow> (take (snd c) (fst c) @ out, snd c + n) | None \<Rightarrow> c)))
     else (s, Ok c))"

definition rewind_crypto :: "('a, 'h, 't) endpoint \<Rightarrow> ('a, 'h, 't) endpoint \<times> unit res" where
  "rewind_crypto s =
    (if ep_crypto_rewind s then
       let s = s\<lparr>ep_crypto_rewind := False\<rparr>
       in (case ep_slot s of None \<Rightarrow> (s, Ok ())
           | Some slot \<Rightarrow>
               sbind (s, pool_get (ep_pool s) slot) (\<lambda>s ctx.
                 (s\<lparr>ep_pool := pool_put slot (ctx\<lparr>hc_crypto_send_offset := [0, 0, 0]\<rparr>) (ep_pool s)\<rparr>, Ok ())))
     else (s, Ok ()))"

text \<open>The packets of a datagram and the final check against the amplification limit.\<close>

definition finish_datagram ::
  "('a, 'h, 't) env \<Rightarrow> cursor \<Rightarrow> ('a, 'h, 't) endpoint \<Rightarrow> ('a, 'h, 't) endpoint \<times> bytes option res" where
  "finish_datagram E c s =
    (if snd c > 0 then
       if \<not> ep_addr_validated s \<and> \<not> amplification_allows E s (snd c) then (s, Ok None)
       else
         let s = (if ep_addr_validated s then s
                  else s\<lparr>ep_amp_sent := min (ep_amp_sent s + snd c) (2 ^ en_uw E - 1)\<rparr>)
         in (s, Ok (Some (take (snd c) (fst c))))
     else (s, Ok None))"

definition send_packets ::
  "('a, 'h, 't) env \<Rightarrow> bytes \<Rightarrow> nat \<Rightarrow> ('a, 'h, 't) endpoint \<Rightarrow> ('a, 'h, 't) endpoint \<times> bytes option res" where
  "send_packets E buf now s =
    sbind (append_packet (\<lambda>b. build_initial_packet E b now) level.Initial (buf, 0) s) (\<lambda>s c.
    sbind (append_packet (\<lambda>b. build_handshake_packet E b now) level.Handshake c s) (\<lambda>s c.
    sbind (maybe_release_handshake_slot s) (\<lambda>s _.
    sbind (append_packet (\<lambda>b. build_short_packet E b now) Application c s) (\<lambda>s c.
    finish_datagram E c s))))"

definition poll_transmit ::
  "('a, 'h, 't) env \<Rightarrow> bytes \<Rightarrow> nat \<Rightarrow> ('a, 'h, 't) endpoint \<Rightarrow> ('a, 'h, 't) endpoint \<times> bytes option res" where
  "poll_transmit E buf now s =
    (if ep_state s = conn_state.Closed then (s, Ok None)
     else if \<not> ep_addr_validated s \<and> \<not> amplification_allows E s 1 then (s, Ok None)
     else
       (case (if needs_key_update (ep_keys s) then perform_key_update (en_provider E) (ep_keys s)
              else Ok (ep_keys s)) of
          Panic \<Rightarrow> (s, Panic)
        | Err _ \<Rightarrow> (s\<lparr>ep_state := conn_state.Closed\<rparr>, Ok None)
        | Ok keys \<Rightarrow>
            sbind (rewind_crypto (s\<lparr>ep_keys := keys\<rparr>)) (\<lambda>s _.
              case ep_close_frame s of
                Some (error_code, reason) \<Rightarrow> send_close E error_code reason buf now s
              | None \<Rightarrow> send_packets E buf now s)))"

end
