(* ===== verification/Connection_Order.thy ===== *)
theory Connection_Order
  imports Connection_Send
begin

text \<open>
  Reasoning about the connection by preorders on its state. A relation that holds along the
  primitive updates of the code holds along every call: \<open>endpoint_order\<close> carries it through key
  installation and CRYPTO frames, \<open>recv_order\<close> through \<open>conn_recv\<close> and \<open>send_order\<close> through the
  packet builders. Each invariant of the connection is an interpretation.
\<close>

section \<open>Preorders on the state\<close>

lemma crypto_loop_cases:
  obtains (stop) r where "crypto_loop E lvl s = (s, r)"
  | (failed) p r where "crypto_loop E lvl s = (s\<lparr>ep_pool := p\<rparr>, r)"
  | (next_message) p where
      "crypto_loop E lvl s = sbind (check_tls_keys E (s\<lparr>ep_pool := p\<rparr>)) (\<lambda>s _. crypto_loop E lvl s)"
      "\<And>s' x. check_tls_keys E (s\<lparr>ep_pool := p\<rparr>) = (s', Ok x) \<Longrightarrow> crypto_left lvl s' < crypto_left lvl s"
proof (cases "\<exists>r. crypto_loop E lvl s = (s, r)")
  case False
  note eq0 = crypto_loop.simps [of E lvl s]
  obtain slot where 1: "ep_slot s = Some slot"
    using False eq0 by (cases "ep_slot s") simp_all
  obtain ctx where 2: "pool_get (ep_pool s) slot = Ok ctx"
    using False eq0 1 by (cases "pool_get (ep_pool s) slot") simp_all
  obtain r where 3: "idx (hc_crypto_reasm ctx) (space_index lvl) = Ok r"
    using False eq0 1 2 by (cases "idx (hc_crypto_reasm ctx) (space_index lvl)") simp_all
  note slot = 1 2 3
  have len: "\<not> contiguous_len r < 4"
    using False eq0 slot by (cases "contiguous_len r < 4") simp_all
  obtain hdr where hdr1: "contiguous_data r = Ok hdr"
    using False eq0 slot len by (cases "contiguous_data r") simp_all
  have "\<not> contiguous_len r < 4 + be_nat (take 3 (drop 1 hdr))"
    using False eq0 slot len hdr1 by (cases "contiguous_len r < 4 + be_nat (take 3 (drop 1 hdr))") simp_all
  note hdr = hdr1 this
  let ?n = "4 + be_nat (take 3 (drop 1 hdr))"
  obtain tls tr where tls: "en_tls_read E lvl (take ?n hdr) (hc_tls ctx) = (tls, tr)" by fastforce
  show ?thesis
  proof (cases tr)
    case (Ok u)
    then have tr: "tr = Ok ()" by (cases u) simp
    show ?thesis
    proof (cases "advance r ?n")
      case (Ok r')
      let ?p = "pool_put slot (ctx\<lparr>hc_tls := tls,
        hc_crypto_reasm := (hc_crypto_reasm ctx)[space_index lvl := r']\<rparr>) (ep_pool s)"
      have 1: "crypto_loop E lvl s = sbind (check_tls_keys E (s\<lparr>ep_pool := ?p\<rparr>)) (\<lambda>s _. crypto_loop E lvl s)"
        using len hdr by (subst crypto_loop.simps) (simp add: Let_def slot tls tr Ok del: One_nat_def)
      have 2: "crypto_left lvl s' < crypto_left lvl s"
        if "check_tls_keys E (s\<lparr>ep_pool := ?p\<rparr>) = (s', Ok x)" for s' x
        by (rule crypto_left_less [OF slot len Ok]) (use that in \<open>simp_all add: old.unit.exhaust\<close>)
      show ?thesis by (rule next_message [OF 1 2])
    qed (use eq0 False len hdr in \<open>simp_all add: Let_def slot tls tr del: One_nat_def\<close>)
  next
    case (Err e)
    show ?thesis
      by (rule failed, use len hdr in \<open>subst crypto_loop.simps\<close>) (simp add: Let_def slot tls Err del: One_nat_def)
  qed (use eq0 False len hdr in \<open>simp add: Let_def slot tls del: One_nat_def\<close>)
qed (use stop in blast)

locale endpoint_order =
  fixes le :: "('a, 'h, 't) endpoint \<Rightarrow> ('a, 'h, 't) endpoint \<Rightarrow> bool"
  assumes le_refl: "le s s"
    and le_trans: "le s s' \<Longrightarrow> le s' s'' \<Longrightarrow> le s s''"
    and le_pool: "le s (s\<lparr>ep_pool := p\<rparr>)"
    and le_slot: "le s (s\<lparr>ep_slot := sl\<rparr>)"
    and le_keys: "le s (s\<lparr>ep_keys := k\<rparr>)"
    and le_installed: "le s (keys_installed lvl s)"
    and le_params: "le s (adopt_peer_params tp s)"
begin

lemma le_sbind:
  assumes "le s (fst p)" and "\<And>s' x. p = (s', Ok x) \<Longrightarrow> le s' (fst (f s' x))"
  shows "le s (fst (sbind p f))"
proof (cases p)
  case (Pair s' r)
  then show ?thesis using assms by (cases r) (auto intro: le_trans)
qed

lemma le_sbind_same:
  assumes "\<And>x. r = Ok x \<Longrightarrow> le s (fst (f s x))"
  shows "le s (fst (sbind (s, r) f))"
  by (rule le_sbind) (auto intro: le_refl assms)

lemma le_release: "le s (fst (maybe_release_handshake_slot s))"
proof (cases "ep_slot s")
  case (Some slot)
  have "le s (s\<lparr>ep_pool := pool_release slot (ep_pool s), ep_slot := None\<rparr>)"
    using le_trans [OF le_pool le_slot] by simp
  then show ?thesis using Some
    by (auto simp: maybe_release_handshake_slot_def intro!: le_sbind_same intro: le_refl)
qed (simp add: maybe_release_handshake_slot_def le_refl)

lemma le_check_tls_keys: "le s (fst (check_tls_keys E s))"
proof -
  have params: "le s (case tpo of None \<Rightarrow> s | Some p \<Rightarrow> adopt_peer_params p s)" for s and tpo :: "transport_params option"
    by (simp add: le_refl le_params split: option.split)
  have "le s (fst (maybe_release_handshake_slot (case tpo of None \<Rightarrow> keys_installed lvl (s\<lparr>ep_pool := p, ep_keys := k\<rparr>)
      | Some q \<Rightarrow> adopt_peer_params q (keys_installed lvl (s\<lparr>ep_pool := p, ep_keys := k\<rparr>)))))"
    for tpo :: "transport_params option" and lvl p k
    by (rule le_trans [OF _ le_release], rule le_trans [OF _ params], rule le_trans [OF _ le_installed],
        rule le_trans [OF le_pool], rule le_keys)
  then show ?thesis
    by (auto simp: check_tls_keys_def Let_def le_refl le_release le_pool
        split: option.split res.split)
qed

lemma le_crypto_loop: "le s (fst (crypto_loop E lvl s))"
proof (induction "crypto_left lvl s" arbitrary: s rule: less_induct)
  case less
  show ?case
    using crypto_loop_cases [of E lvl s]
  proof cases
    case (next_message p)
    show ?thesis
      unfolding next_message(1)
      by (rule le_sbind) (use less next_message(2) in \<open>auto intro: le_trans [OF le_pool le_check_tls_keys]\<close>)
  qed (auto simp: le_refl le_pool)
qed

lemma le_crypto_frame: "le s (fst (handle_crypto_frame E lvl offset data s))"
  by (auto simp: handle_crypto_frame_def intro!: le_sbind le_pool le_crypto_loop le_refl
      split: option.split res.split prod.split)

text \<open>The same facts as rules that peel the last update off a state that is reached from \<open>s\<close>.\<close>

lemma peel_sbind:
  assumes "le s (fst p)" and "\<And>s' x. p = (s', Ok x) \<Longrightarrow> le s s' \<Longrightarrow> le s (fst (f s' x))"
  shows "le s (fst (sbind p f))"
proof (cases p)
  case (Pair s' r)
  then show ?thesis using assms by (cases r) auto
qed

lemmas peel = peel_sbind le_trans [OF _ le_pool] le_trans [OF _ le_slot] le_trans [OF _ le_keys]
  le_trans [OF _ le_crypto_frame] le_trans [OF _ le_check_tls_keys] le_trans [OF _ le_release]

end

section \<open>Along the receive path\<close>

locale recv_order = endpoint_order le
  for le :: "('a, 'h, 't) endpoint \<Rightarrow> ('a, 'h, 't) endpoint \<Rightarrow> bool" +
  assumes le_other_frame: "(\<And>g. f \<noteq> frame.Crypto g) \<Longrightarrow> le s (fst (dispatch_frame E lvl now f s))"
    and le_space: "le s (drop_packet_space lvl s)"
    and le_remote: "le s (s\<lparr>ep_remote_cid := cid\<rparr>)"
    and le_done: "le s (packet_done pr s)"
begin

lemma le_frame: "le s (fst (dispatch_frame E lvl now f s))"
  by (cases "\<exists>g. f = frame.Crypto g") (auto simp: le_crypto_frame intro: le_other_frame)

lemma le_dispatch_frames: "le s (fst (dispatch_frames E lvl now payload a s))"
proof (induction E lvl now payload a s rule: dispatch_frames.induct)
  case (1 E lvl now payload a s)
  show ?case
  proof (cases "payload = []")
    case False
    have "le s (fst (sbind (dispatch_frame E lvl now f s)
        (\<lambda>s _. dispatch_frames E lvl now (drop n payload) (a \<or> elicits_ack f) s)))"
      if d: "decode (en_uw E) payload = Ok (f, n)" for f n
      by (rule le_sbind [OF le_frame]) (rule 1 [OF False _ refl], simp_all add: d)
    then show ?thesis
      using False by (subst dispatch_frames.simps) (auto intro!: le_sbind_same)
  qed (subst dispatch_frames.simps, simp add: le_refl)
qed

lemma le_deliver: "le s (fst (deliver E lvl now pn payload s))"
  unfolding deliver_def by (rule le_sbind [OF le_dispatch_frames]) (simp add: le_refl)

lemma le_first_initial: "le s (fst (first_initial E dcid s))"
  by (auto simp: first_initial_def Let_def le_refl intro!: peel split: option.split)

lemma le_learn: "le s (learn_remote_cid scid s)"
  by (simp add: learn_remote_cid_def le_refl le_remote)

lemmas peel_recv = peel le_trans [OF _ le_deliver] le_trans [OF _ le_space]
  le_trans [OF _ le_first_initial] le_trans [OF _ le_learn]

lemma le_recv_initial: "le s (fst (recv_initial E scratch now pkt s))"
  by (auto simp: recv_initial_def deliver_new_def Let_def le_refl intro!: peel_recv split: option.split)

lemma le_recv_handshake: "le s (fst (recv_handshake E scratch now pkt s))"
  by (auto simp: recv_handshake_def le_refl intro!: peel_recv split: option.split)

lemma le_recv_short: "le s (fst (recv_short E scratch now pkt s))"
  by (auto simp: recv_short_def le_refl intro!: peel_recv split: prod.split opened.split)

lemma le_recv_packet: "le s (fst (recv_packet E scratch now pkt s))"
proof -
  have recorded: "le s (fst (case p of (s, Ok pr) \<Rightarrow> (packet_done pr s, Ok ()) | (s, Err _) \<Rightarrow> (s, Ok ())
      | (s, Panic) \<Rightarrow> (s, Panic)))" if "le s (fst p)" for p
    using that by (auto intro: le_trans [OF _ le_done] split: prod.split res.split)
  show ?thesis
    by (auto simp: recv_packet_def Let_def le_refl le_recv_initial le_recv_handshake le_recv_short
        intro!: recorded split: list.split)
qed

lemma le_recv_packets: "le s (fst (recv_packets E scratch now ps s))"
  by (induction E scratch now ps s rule: recv_packets.induct)
     (auto intro!: le_sbind [OF le_recv_packet] simp: le_refl)

end

section \<open>Along the transmit path\<close>

locale send_order = endpoint_order le
  for le :: "('a, 'h, 't) endpoint \<Rightarrow> ('a, 'h, 't) endpoint \<Rightarrow> bool" +
  assumes le_ack_flags: "le s (s\<lparr>ep_ack_eliciting := a\<rparr>)"
    and le_path: "le s (s\<lparr>ep_path_response := None\<rparr>)"
    and le_flow: "le s (s\<lparr>ep_flow := max_data_sent (ep_flow s)\<rparr>)"
    and le_streams: "le s (s\<lparr>ep_streams := mark_max_stream_data_sent (ep_streams s) sid\<rparr>)"
    and le_io: "le s (s\<lparr>ep_io := fst (build_stream_frames (ep_io s) buf)\<rparr>)"
    and le_sent: "le s (packet_sent lvl pn now tot ae fl s)"
    and le_handshake_done: "le s (s\<lparr>ep_need_handshake_done := False\<rparr>)"
    and le_rewind: "le s (s\<lparr>ep_crypto_rewind := False\<rparr>)"
begin

lemma peel_none:
  assumes "le s (fst p)" and "\<And>s' x. p = (s', Ok x) \<Longrightarrow> le s s' \<Longrightarrow> le s (fst (f s' x))"
  shows "le s (fst (ok_or_none p f))"
proof (cases p)
  case (Pair s' r)
  then show ?thesis using assms by (cases r) auto
qed

lemma le_write_ack: "le s (fst (write_ack lvl c s))"
  by (auto simp: write_ack_def Let_def le_refl le_ack_flags split: option.split)

lemma le_write_tls: "le s (fst (write_tls_crypto_data E lvl c s))"
  by (auto simp: write_tls_crypto_data_def Let_def le_refl intro!: peel split: option.split)

lemma le_rewind_crypto: "le s (fst (rewind_crypto s))"
  by (auto simp: rewind_crypto_def Let_def le_refl intro!: peel le_trans [OF _ le_rewind] split: option.split)

lemma le_write_streams: "le s (fst (write_streams E c s))"
  by (simp add: write_streams_def Let_def le_refl le_io case_prod_unfold)

lemma le_write_max_stream_data: "le s (fst (write_max_stream_data c a s))"
proof (induction c a s rule: write_max_stream_data.induct)
  case (1 c a s)
  have "le s (fst (write_max_stream_data c' True (s\<lparr>ep_streams := mark_max_stream_data_sent (ep_streams s) sid\<rparr>)))"
    if "should_send_max_stream_data (ep_streams s) = Some (sid, new_max)"
      "try_frame (MaxStreamData \<lparr>msd_stream_id = sid, msd_max_data = new_max\<rparr>) c = Ok (Some c')" for sid new_max c'
    by (rule le_trans [OF le_streams 1 [OF that(1) refl that(2) refl]])
  then show ?case
    by (subst write_max_stream_data.simps) (auto simp: le_refl split: option.split res.split)
qed

lemmas peel_send = peel peel_none le_trans [OF _ le_write_ack] le_trans [OF _ le_write_tls]
  le_trans [OF _ le_write_streams] le_trans [OF _ le_write_max_stream_data]
  le_trans [OF _ le_sent] le_trans [OF _ le_path] le_trans [OF _ le_flow] le_trans [OF _ le_handshake_done]

lemma le_build_initial: "le s (fst (build_initial_packet E buf now s))"
  by (auto simp: build_initial_packet_def Let_def le_refl case_prod_unfold intro!: peel_send)

lemma le_build_handshake: "le s (fst (build_handshake_packet E buf now s))"
  by (auto simp: build_handshake_packet_def Let_def le_refl case_prod_unfold intro!: peel_send)

lemma le_write_control: "le s (fst (write_control_frames c s))"
  by (auto simp: write_control_frames_def Let_def le_refl case_prod_unfold intro!: peel_send)

lemma le_build_short: "le s (fst (build_short_packet E buf now s))"
  by (auto simp: build_short_packet_def Let_def le_refl case_prod_unfold
      intro!: peel_send le_trans [OF _ le_write_control])

lemma le_append:
  assumes "\<And>b s. le s (fst (build b s))"
  shows "le s (fst (append_packet build lvl c s))"
  by (auto simp: append_packet_def le_refl intro!: le_sbind [OF assms])

end

end
