(* ===== verification/Connection_Run.thy ===== *)
theory Connection_Run
  imports Connection_Order
begin

text \<open>
  The connection as a state machine: a step is a call of the application or of the event loop,
  labelled with the bytes it takes from or gives to the network. The life of the connection only
  moves forward, and a server sends at most three times what it received until the address of the
  client is validated.
\<close>

section \<open>Steps\<close>

text \<open>
  A datagram that \<^verbatim>\<open>poll_transmit\<close> builds for a pending close has a label of its own: the code
  does not hold it against the amplification limit.
\<close>

datatype label = Quiet | Received nat | Transmitted nat | Close_sent nat

definition datagram_size :: "bytes option \<Rightarrow> nat" where
  "datagram_size r = (case r of None \<Rightarrow> 0 | Some d \<Rightarrow> length d)"

lemma datagram_size_simps [simp]: "datagram_size None = 0" "datagram_size (Some d) = length d"
  by (simp_all add: datagram_size_def)

inductive conn_step :: "('a, 'h, 't) env \<Rightarrow> ('a, 'h, 't) endpoint \<Rightarrow> label \<Rightarrow> ('a, 'h, 't) endpoint \<Rightarrow> bool"
  for E where
  recv: "conn_recv E scratch now d s = Some (s', r) \<Longrightarrow> conn_step E s (Received (length d)) s'"
| transmit: "poll_transmit E buf now s = (s', Ok r) \<Longrightarrow> ep_close_frame s = None \<Longrightarrow>
    conn_step E s (Transmitted (datagram_size r)) s'"
| transmit_close: "poll_transmit E buf now s = (s', Ok r) \<Longrightarrow> ep_close_frame s \<noteq> None \<Longrightarrow>
    conn_step E s (Close_sent (datagram_size r)) s'"
| timeout: "conn_step E s Quiet (handle_timeout now s)"
| event: "conn_step E s Quiet (fst (poll_event s))"
| open_bidi: "conn_step E s Quiet (fst (open_stream s))"
| open_uni: "conn_step E s Quiet (fst (open_uni_stream s))"
| send: "conn_step E s Quiet (fst (conn_stream_send E sid data fin s))"
| read: "conn_step E s Quiet (fst (conn_stream_recv sid n s))"
| reset: "conn_step E s Quiet (fst (stream_reset sid s))"
| stop: "conn_step E s Quiet (fst (stream_stop_sending sid s))"
| shut: "conn_step E s Quiet (close code reason s)"
| key_update: "conn_step E s Quiet (fst (initiate_key_update E s))"
| shared_pool: "conn_step E s Quiet (s\<lparr>ep_pool := p\<rparr>)"

text \<open>The last step is what other connections do to the shared pool.\<close>

inductive conn_run ::
  "('a, 'h, 't) env \<Rightarrow> ('a, 'h, 't) endpoint \<Rightarrow> label list \<Rightarrow> ('a, 'h, 't) endpoint \<Rightarrow> bool" for E where
  start: "conn_run E s [] s"
| more: "conn_run E s ls s' \<Longrightarrow> conn_step E s' l s'' \<Longrightarrow> conn_run E s (ls @ [l]) s''"

section \<open>The life of a connection\<close>

text \<open>The states in the order in which a connection goes through them.\<close>

primrec stage :: "conn_state \<Rightarrow> nat" where
  "stage Handshaking = 0"
| "stage Active = 1"
| "stage Closing = 2"
| "stage Draining = 3"
| "stage conn_state.Closed = 4"

definition life_le :: "('a, 'h, 't) endpoint \<Rightarrow> ('a, 'h, 't) endpoint \<Rightarrow> bool" where
  "life_le s s' \<longleftrightarrow>
     (ep_state s \<noteq> conn_state.Closed \<longrightarrow>
        ep_state s' \<noteq> conn_state.Closed \<and> stage (ep_state s) \<le> stage (ep_state s'))
     \<and> (ep_addr_validated s \<longrightarrow> ep_addr_validated s') \<and> ep_amp_sent s' = ep_amp_sent s
     \<and> ep_amp_received s' = ep_amp_received s \<and> ep_close_frame s' = ep_close_frame s"

text \<open>What no call but \<open>poll_transmit\<close> and \<open>handle_timeout\<close> undoes or jumps over.\<close>

lemma life_fields [simp]:
  "life_le s (s'\<lparr>ep_streams := m\<rparr>) = life_le s s'"
  "life_le s (s'\<lparr>ep_flow := fc\<rparr>) = life_le s s'"
  "life_le s (s'\<lparr>ep_io := sio\<rparr>) = life_le s s'"
  by (simp_all add: life_le_def)

lemma life_refl [simp]: "life_le s s"
  by (simp add: life_le_def)

lemma life_push [simp]: "life_le s (push_event e s') = life_le s s'"
  by (simp add: life_le_def push_event_def)

lemma life_space [simp]: "life_le s (drop_packet_space lvl s') = life_le s s'"
  by (simp add: life_le_def drop_packet_space_def)

lemma life_ack_frame: "life_le s (fst (handle_ack_frame lvl now ack s))"
  by (auto simp: handle_ack_frame_def life_le_def Let_def split: res.split prod.split)

lemma life_sbind:
  assumes "life_le s (fst p)" and "\<And>s' x. p = (s', Ok x) \<Longrightarrow> life_le s s' \<Longrightarrow> life_le s (fst (f s' x))"
  shows "life_le s (fst (sbind p f))"
proof (cases p)
  case (Pair s' r)
  then show ?thesis using assms by (cases r) auto
qed

lemma life_stream_frame: "life_le s (fst (handle_stream_frame f s))"
  by (auto simp: handle_stream_frame_def Let_def split: prod.split intro!: life_sbind)

lemma life_other_frame: "(\<And>g. f \<noteq> frame.Crypto g) \<Longrightarrow> life_le s (fst (dispatch_frame E lvl now f s))"
proof (cases f)
  case (Ack ack)
  then show ?thesis by (simp add: life_ack_frame)
next
  case (Stream g)
  then show ?thesis by (simp add: life_stream_frame)
next
  case HandshakeDone
  then show ?thesis by (auto simp: life_le_def Let_def push_event_def drop_packet_space_def)
next
  case (ConnectionClose g)
  then show ?thesis by (cases "ep_state s") (auto simp: life_le_def push_event_def)
qed (auto simp: life_le_def push_event_def)

interpretation life: recv_order life_le
proof unfold_locales
  fix s :: "('a, 'h, 't) endpoint" and lvl
  show "life_le s (keys_installed lvl s)"
    by (cases lvl) (auto simp: keys_installed_def life_le_def Let_def push_event_def drop_packet_space_def)
next
  fix s :: "('a, 'h, 't) endpoint" and tp
  show "life_le s (adopt_peer_params tp s)"
    by (simp add: adopt_peer_params_def life_le_def Let_def)
next
  fix s :: "('a, 'h, 't) endpoint" and pr
  show "life_le s (packet_done pr s)"
    by (simp add: packet_done_def track_received_pn_def life_le_def Let_def split: option.split)
next
  fix f and s :: "('a, 'h, 't) endpoint" and E lvl now
  assume "\<And>g. f \<noteq> frame.Crypto g"
  then show "life_le s (fst (dispatch_frame E lvl now f s))" by (rule life_other_frame)
next
  fix s :: "('a, 'h, 't) endpoint" and lvl
  show "life_le s (drop_packet_space lvl s)" by simp
qed (auto simp: life_le_def)

interpretation life: send_order life_le
  by unfold_locales (auto simp: life_le_def packet_sent_def)

text \<open>The two calls that move bytes, and how they change the counters of the amplification limit.\<close>

lemma conn_recv_life:
  assumes "conn_recv E scratch now d s = Some (s', r)"
  shows "if ep_state s = conn_state.Closed then s' = s
    else life_le (s\<lparr>ep_amp_received := ep_amp_received s'\<rparr>) s'
      \<and> (ep_amp_received s < 2 ^ en_uw E \<longrightarrow>
           ep_amp_received s \<le> ep_amp_received s' \<and> ep_amp_received s' < 2 ^ en_uw E)
      \<and> ep_amp_received s' \<le> ep_amp_received s + length d"
  using assms
proof (cases rule: conn_recv_cases)
  case (processed ps)
  have "life_le (recv_entry E now d s) s'"
    unfolding processed by (rule life.le_sbind) (rule life.le_recv_packets, rule life.le_check_tls_keys)
  then show ?thesis using processed(1) by (auto simp: life_le_def recv_entry_def split: if_splits)
qed simp

lemma xor_range_length: "xor_range out pos m = Ok out' \<Longrightarrow> length out' = length out"
  by (auto simp: xor_range_def split: if_splits)

lemma copy_at_bound: "copy_at buf pos data = Ok buf' \<Longrightarrow> pos + length data \<le> length buf'"
  by (auto simp: copy_at_def split: if_splits)

lemma encrypt_bound:
  assumes "encrypt_and_protect P out po ps fl pn pl il k = Ok (out', n)"
  shows "n \<le> length out'"
proof -
  from assms obtain ct o1 o2 m1 m2 where "copy_at out ps ct = Ok o1" "xor_range o1 0 m1 = Ok o2"
    "xor_range o2 po m2 = Ok out'" "n = ps + length ct"
    unfolding encrypt_and_protect_def Let_def
    by (auto simp only: res_bind_eq_Ok prod.inject res.inject res.distinct split: if_splits) metis+
  then show ?thesis using copy_at_bound xor_range_length by metis
qed

lemma seal_bound: "seal_packet P hdr pn la payload il k = Ok (out, n) \<Longrightarrow> n \<le> length out"
  by (auto simp: seal_packet_def Let_def res_bind_eq_Ok dest: encrypt_bound split: prod.splits option.splits)

lemma build_bounds:
  "build_initial_packet E buf now s = (s', Ok (Some (out, n))) \<Longrightarrow> n \<le> length out"
  "build_handshake_packet E buf now s = (s', Ok (Some (out, n))) \<Longrightarrow> n \<le> length out"
  "build_short_packet E buf now s = (s', Ok (Some (out, n))) \<Longrightarrow> n \<le> length out"
  by (auto simp: build_initial_packet_def build_handshake_packet_def build_short_packet_def Let_def
      case_prod_unfold sbind_eq_Ok ok_or_none_eq_Some dest: seal_bound split: if_splits)

lemma append_bound:
  assumes "append_packet build lvl c s = (s', Ok c')" and "snd c \<le> length (fst c)"
    and "\<And>b s s' out n. build b s = (s', Ok (Some (out, n))) \<Longrightarrow> n \<le> length out"
  shows "snd c' \<le> length (fst c')"
  using assms by (auto simp: append_packet_def sbind_eq_Ok min_def split: if_splits option.splits)

lemma send_packets_life:
  assumes "send_packets E buf now s = (s', Ok r)"
  defines "n \<equiv> datagram_size r"
  shows "life_le (s\<lparr>ep_amp_sent := ep_amp_sent s'\<rparr>) s'
    \<and> (\<not> ep_addr_validated s' \<and> ep_amp_sent s + n < 2 ^ en_uw E \<longrightarrow>
         ep_amp_sent s' = ep_amp_sent s + n
         \<and> (r \<noteq> None \<longrightarrow> ep_amp_sent s' \<le> 3 * ep_amp_received s))"
proof -
  from assms(1) obtain s1 c1 s2 c2 s3 u s4 c4 where
    1: "append_packet (\<lambda>b. build_initial_packet E b now) level.Initial (buf, 0) s = (s1, Ok c1)" and
    2: "append_packet (\<lambda>b. build_handshake_packet E b now) level.Handshake c1 s1 = (s2, Ok c2)" and
    3: "maybe_release_handshake_slot s2 = (s3, Ok u)" and
    4: "append_packet (\<lambda>b. build_short_packet E b now) Application c2 s3 = (s4, Ok c4)" and
    fin: "finish_datagram E c4 s4 = (s', Ok r)"
    unfolding send_packets_def sbind_eq_Ok by (elim exE conjE) (rule that)
  have "life_le s (fst (s1, Ok c1))" unfolding 1 [symmetric] by (intro life.le_append life.le_build_initial)
  moreover have "life_le s1 (fst (s2, Ok c2))" unfolding 2 [symmetric] by (intro life.le_append life.le_build_handshake)
  moreover have "life_le s2 (fst (s3, Ok u))" unfolding 3 [symmetric] by (rule life.le_release)
  moreover have "life_le s3 (fst (s4, Ok c4))" unfolding 4 [symmetric] by (intro life.le_append life.le_build_short)
  ultimately have life: "life_le s s4" unfolding fst_conv by (blast intro: life.le_trans)
  have "snd c1 \<le> length (fst c1)" by (rule append_bound [OF 1]) (simp, rule build_bounds(1))
  then have "snd c2 \<le> length (fst c2)" by (rule append_bound [OF 2 _ build_bounds(2)])
  then have bound: "snd c4 \<le> length (fst c4)" by (rule append_bound [OF 4 _ build_bounds(3)])
  have lim: "amplification_allows E s4 m \<Longrightarrow> ep_amp_sent s4 + m < 2 ^ en_uw E \<Longrightarrow>
    \<not> ep_addr_validated s4 \<Longrightarrow> ep_amp_sent s4 + m \<le> 3 * ep_amp_received s4" for m
    by (auto simp: amplification_allows_def usize_add_def as_usize_def) (metis le_trans mod_less_eq_dividend)
  show ?thesis using fin life bound lim
    by (auto simp: life_le_def n_def finish_datagram_def Let_def split: if_splits)
qed

lemma build_close_life:
  "life_le s (fst (build_and_encrypt_initial_packet E f p out now s))"
  "life_le s (fst (build_and_encrypt_packet E lvl f out now s))"
  by (auto simp: build_and_encrypt_initial_packet_def build_and_encrypt_packet_def Let_def
      case_prod_unfold intro!: life_sbind) (auto simp: life_le_def packet_sent_def)

text \<open>The same without the bytes sent, for the calls that may close the connection.\<close>

definition live_le :: "('a, 'h, 't) endpoint \<Rightarrow> ('a, 'h, 't) endpoint \<Rightarrow> bool" where
  "live_le s s' \<longleftrightarrow> stage (ep_state s) \<le> stage (ep_state s')
     \<and> (ep_addr_validated s \<longrightarrow> ep_addr_validated s') \<and> ep_amp_received s' = ep_amp_received s
     \<and> ep_close_frame s' = ep_close_frame s"

lemma stage_le [simp]: "stage st \<le> 4"
  by (cases st) simp_all

lemma life_live: "life_le s s' \<Longrightarrow> ep_state s \<noteq> conn_state.Closed \<Longrightarrow> live_le s s'"
  by (simp add: life_le_def live_le_def)

lemma life_closed: "life_le s s' \<Longrightarrow> live_le s (s'\<lparr>ep_state := conn_state.Closed\<rparr>)"
  by (simp add: life_le_def live_le_def)

text \<open>
  A close is not counted as sent, and a datagram that carries it is the last of the connection.
\<close>

definition closes :: "('a, 'h, 't) endpoint \<Rightarrow> ('a, 'h, 't) endpoint \<times> bytes option res \<Rightarrow> bool" where
  "closes s p \<longleftrightarrow> live_le s (fst p) \<and> ep_amp_sent (fst p) = ep_amp_sent s
     \<and> (\<forall>d. snd p = Ok (Some d) \<longrightarrow> ep_state (fst p) = conn_state.Closed)"

lemma life_closes:
  "life_le s s' \<Longrightarrow> closes s (s'\<lparr>ep_state := conn_state.Closed\<rparr>, r)"
  "life_le s s' \<Longrightarrow> ep_state s \<noteq> conn_state.Closed \<Longrightarrow> \<forall>d. r \<noteq> Ok (Some d) \<Longrightarrow> closes s (s', r)"
  by (simp_all add: closes_def life_closed life_live) (simp_all add: life_le_def)

lemma send_close_life:
  fixes s :: "('a, 'h, 't) endpoint"
  assumes "ep_state s \<noteq> conn_state.Closed"
  shows "closes s (send_close E code reason buf now s)"
proof -
  have built: "closes s (case p of
      (s, Ok (out, pkt_len)) \<Rightarrow> (s\<lparr>ep_state := conn_state.Closed\<rparr>,
         Ok (if pkt_len > 0 then Some (take pkt_len out) else None))
    | (s, Err _) \<Rightarrow> (s\<lparr>ep_state := conn_state.Closed\<rparr>, Ok None)
    | (s, Panic) \<Rightarrow> (s, Panic))" if "life_le s (fst p)" for p :: "('a, 'h, 't) endpoint \<times> (bytes \<times> nat) res"
    using that assms by (auto intro: life_closes split: prod.split res.split)
  show ?thesis
    using assms
    by (auto simp: send_close_def Let_def built build_close_life life_closes
        split: option.split res.split)
qed

lemma poll_transmit_life:
  assumes "poll_transmit E buf now s = (s', Ok r)"
  defines "n \<equiv> datagram_size r"
  shows "live_le s s' \<and> (ep_state s = conn_state.Closed \<longrightarrow> r = None)
    \<and> (ep_close_frame s = None \<and> \<not> ep_addr_validated s' \<and> ep_amp_sent s + n < 2 ^ en_uw E \<longrightarrow>
         ep_amp_sent s' = ep_amp_sent s + n \<and> (r \<noteq> None \<longrightarrow> ep_amp_sent s' \<le> 3 * ep_amp_received s))
    \<and> (ep_close_frame s \<noteq> None \<longrightarrow>
         ep_amp_sent s' = ep_amp_sent s \<and> (r \<noteq> None \<longrightarrow> ep_state s' = conn_state.Closed))"
proof (cases "ep_state s = conn_state.Closed \<or> \<not> ep_addr_validated s \<and> \<not> amplification_allows E s 1")
  case True
  then have "poll_transmit E buf now s = (s, Ok None)" by (auto simp: poll_transmit_def simp del: One_nat_def)
  then show ?thesis using assms by (simp add: live_le_def)
next
  case not_blocked: False
  define keys where "keys = (if needs_key_update (ep_keys s) then perform_key_update (en_provider E) (ep_keys s)
              else Ok (ep_keys s))"
  have pt: "poll_transmit E buf now s = (case keys of
        Panic \<Rightarrow> (s, Panic)
      | Err _ \<Rightarrow> (s\<lparr>ep_state := conn_state.Closed\<rparr>, Ok None)
      | Ok keys \<Rightarrow> sbind (rewind_crypto (s\<lparr>ep_keys := keys\<rparr>)) (\<lambda>s _.
          case ep_close_frame s of
            Some (error_code, reason) \<Rightarrow> send_close E error_code reason buf now s
          | None \<Rightarrow> send_packets E buf now s))"
    using not_blocked by (auto simp: poll_transmit_def keys_def simp del: One_nat_def)
  show ?thesis
  proof (cases keys)
    case (Ok k)
    with assms(1) pt obtain s1 u where 1: "rewind_crypto (s\<lparr>ep_keys := k\<rparr>) = (s1, Ok u)"
      and 2: "(case ep_close_frame s1 of Some (c, reason) \<Rightarrow> send_close E c reason buf now s1
          | None \<Rightarrow> send_packets E buf now s1) = (s', Ok r)"
      by (auto simp: sbind_eq_Ok)
    have "life_le (s\<lparr>ep_keys := k\<rparr>) (fst (s1, Ok u))" unfolding 1 [symmetric] by (rule life.le_rewind_crypto)
    then have s1: "life_le s s1" by (simp add: life_le_def)
    then have eqs: "ep_close_frame s1 = ep_close_frame s" "ep_amp_sent s1 = ep_amp_sent s"
      "ep_amp_received s1 = ep_amp_received s" "ep_state s1 \<noteq> conn_state.Closed"
      using not_blocked by (auto simp: life_le_def)
    show ?thesis
    proof (cases "ep_close_frame s1")
      case None
      then show ?thesis
        using send_packets_life [of E buf now s1 s' r] 2 s1 eqs not_blocked unfolding n_def
        by (auto simp: life_le_def live_le_def)
    next
      case (Some cf)
      then have "closes s1 (s', Ok r)"
        using 2 send_close_life [OF eqs(4), of E "fst cf" "snd cf" buf now] by (simp add: case_prod_unfold)
      then show ?thesis using s1 eqs Some not_blocked by (auto simp: closes_def life_le_def live_le_def)
    qed
  qed (use assms pt in \<open>auto simp: live_le_def n_def\<close>)
qed

section \<open>Runs\<close>

primrec sent_by :: "label \<Rightarrow> nat" where
  "sent_by Quiet = 0"
| "sent_by (Received n) = 0"
| "sent_by (Transmitted n) = n"
| "sent_by (Close_sent n) = n"

primrec close_by :: "label \<Rightarrow> nat" where
  "close_by Quiet = 0"
| "close_by (Received n) = 0"
| "close_by (Transmitted n) = 0"
| "close_by (Close_sent n) = n"

primrec received_by :: "label \<Rightarrow> nat" where
  "received_by Quiet = 0"
| "received_by (Received n) = n"
| "received_by (Transmitted n) = 0"
| "received_by (Close_sent n) = 0"

definition sent_bytes :: "label list \<Rightarrow> nat" where
  "sent_bytes ls = sum_list (map sent_by ls)"

definition close_bytes :: "label list \<Rightarrow> nat" where
  "close_bytes ls = sum_list (map close_by ls)"

definition close_datagrams :: "label list \<Rightarrow> nat" where
  "close_datagrams ls = length (filter (\<lambda>l. 0 < close_by l) ls)"

definition received_bytes :: "label list \<Rightarrow> nat" where
  "received_bytes ls = sum_list (map received_by ls)"

text \<open>The calls of the application keep the counters, and only \<open>close\<close> touches the close frame.\<close>

definition quiet_le :: "('a, 'h, 't) endpoint \<Rightarrow> ('a, 'h, 't) endpoint \<Rightarrow> bool" where
  "quiet_le s s' \<longleftrightarrow> stage (ep_state s) \<le> stage (ep_state s')
     \<and> ep_addr_validated s' = ep_addr_validated s \<and> ep_amp_received s' = ep_amp_received s
     \<and> ep_amp_sent s' = ep_amp_sent s \<and> (ep_close_frame s' = None \<longrightarrow> ep_close_frame s = None)"

lemma stage_open: "st \<notin> {conn_state.Closed, Draining, Closing} \<Longrightarrow> stage st \<le> 2"
  by (cases st) auto

lemma quiet_steps:
  "quiet_le s (handle_timeout now s)" "quiet_le s (fst (poll_event s))" "quiet_le s (fst (open_stream s))"
  "quiet_le s (fst (open_uni_stream s))" "quiet_le s (fst (conn_stream_send E sid data fin s))"
  "quiet_le s (fst (conn_stream_recv sid n s))" "quiet_le s (fst (stream_reset sid s))"
  "quiet_le s (fst (stream_stop_sending sid s))" "quiet_le s (close code reason s)"
  "quiet_le s (fst (initiate_key_update E s))" "quiet_le s (s\<lparr>ep_pool := p\<rparr>)"
  by (auto simp: quiet_le_def handle_timeout_def push_event_def poll_event_def open_stream_def
      open_uni_stream_def conn_stream_send_def conn_stream_recv_def stream_reset_def
      stream_stop_sending_def close_def initiate_key_update_def stage_open
      split: option.split list.split prod.split res.split)

lemma step_cases:
  assumes "conn_step E s l s'"
  obtains (recv) scratch now d r where "l = Received (length d)" "conn_recv E scratch now d s = Some (s', r)"
  | (transmit) buf now r where "poll_transmit E buf now s = (s', Ok r)"
      "l = (if ep_close_frame s = None then Transmitted (datagram_size r) else Close_sent (datagram_size r))"
  | (quiet) "l = Quiet" "quiet_le s s'"
  using assms by cases (auto simp: quiet_steps)

lemma step_forward:
  assumes "conn_step E s l s'"
  shows "stage (ep_state s) \<le> stage (ep_state s') \<and> (ep_addr_validated s \<longrightarrow> ep_addr_validated s')
    \<and> (ep_close_frame s' = None \<longrightarrow> ep_close_frame s = None)
    \<and> (ep_state s = conn_state.Closed \<longrightarrow> sent_by l = 0)"
  using assms
proof (cases rule: step_cases)
  case (recv scratch now d r)
  from conn_recv_life [OF recv(2)] show ?thesis
    using recv(1) by (cases "ep_state s = conn_state.Closed") (auto simp: life_le_def)
next
  case (transmit buf now r)
  from poll_transmit_life [OF transmit(1)] show ?thesis
    using transmit(2) by (auto simp: live_le_def)
qed (auto simp: quiet_le_def)

lemma close_step:
  assumes "conn_step E s l s'" and "0 < close_by l"
  shows "ep_state s \<noteq> conn_state.Closed \<and> ep_state s' = conn_state.Closed"
  using assms(1)
proof (cases rule: step_cases)
  case (transmit buf now r)
  then show ?thesis
    using poll_transmit_life [OF transmit(1)] assms(2) by (cases r) (auto split: if_splits)
qed (use assms in auto)

lemma step_amplification:
  assumes "conn_step E s l s'" and "\<not> ep_addr_validated s'"
    and "ep_amp_received s < 2 ^ en_uw E" and "ep_amp_sent s + sent_by l < 2 ^ en_uw E"
    and "ep_amp_sent s \<le> 3 * ep_amp_received s"
  shows "ep_amp_sent s' + close_by l = ep_amp_sent s + sent_by l \<and> ep_amp_received s' < 2 ^ en_uw E
    \<and> ep_amp_received s' \<le> ep_amp_received s + received_by l \<and> ep_amp_sent s' \<le> 3 * ep_amp_received s'"
  using assms(1)
proof (cases rule: step_cases)
  case (recv scratch now d r)
  from conn_recv_life [OF recv(2)] show ?thesis
    using recv(1) assms(3-5) by (cases "ep_state s = conn_state.Closed") (auto simp: life_le_def)
next
  case (transmit buf now r)
  then show ?thesis
    using poll_transmit_life [OF transmit(1)] assms by (cases r) (auto simp: live_le_def split: if_splits)
qed (use assms in \<open>auto simp: quiet_le_def\<close>)

lemma run_forward:
  assumes "conn_run E s ls s'"
  shows "stage (ep_state s) \<le> stage (ep_state s') \<and> (ep_addr_validated s \<longrightarrow> ep_addr_validated s')
    \<and> (ep_close_frame s' = None \<longrightarrow> ep_close_frame s = None)
    \<and> (ep_state s = conn_state.Closed \<longrightarrow> sent_bytes ls = 0)"
  using assms
proof induction
  case (more s ls s' l s'')
  have "ep_state s = conn_state.Closed \<Longrightarrow> ep_state s' = conn_state.Closed"
    using more.IH by (cases "ep_state s'") auto
  with more step_forward [OF more(2)] show ?case by (auto simp: sent_bytes_def)
qed (simp add: sent_bytes_def)

lemma closed_by: "stage (ep_state s) \<le> stage (ep_state s') \<Longrightarrow> ep_state s = conn_state.Closed \<Longrightarrow> ep_state s' = conn_state.Closed"
  by (cases "ep_state s'") auto

lemma run_close_once:
  assumes "conn_run E s ls s'"
  shows "close_datagrams ls \<le> 1 \<and> (ep_state s' \<noteq> conn_state.Closed \<longrightarrow> close_datagrams ls = 0)"
  using assms
proof induction
  case (more s ls s' l s'')
  then show ?case
    using close_step [OF more(2)] closed_by step_forward [OF more(2)] by (fastforce simp: close_datagrams_def)
qed (simp add: close_datagrams_def)

lemma run_amplification:
  assumes "conn_run E s ls s'" and "\<not> ep_addr_validated s'"
    and "ep_amp_received s = 0" and "ep_amp_sent s = 0" and "sent_bytes ls < 2 ^ en_uw E"
  shows "ep_amp_sent s' + close_bytes ls = sent_bytes ls \<and> ep_amp_received s' < 2 ^ en_uw E
    \<and> ep_amp_received s' \<le> received_bytes ls \<and> ep_amp_sent s' \<le> 3 * ep_amp_received s'"
  using assms
proof induction
  case (more s ls s' l s'')
  have "\<not> ep_addr_validated s'"
    using step_forward [OF more(2)] more.prems by auto
  with more step_amplification [OF more(2)] show ?case
    by (simp add: sent_bytes_def received_bytes_def close_bytes_def)
qed (simp add: sent_bytes_def close_bytes_def)

section \<open>A small server\<close>

text \<open>The environment of the witnesses: toy crypto, a silent TLS engine and 64-bit words.\<close>

definition toy_env :: "(byte, byte, unit) env" where
  "toy_env = \<lparr>en_provider = toy_provider, en_aes = toy_provider, en_tls_read = (\<lambda>_ _ t. (t, Ok ())),
     en_tls_write = (\<lambda>t. (t, Err InvalidState)), en_uw = 64\<rparr>"

definition toy_config :: config where
  "toy_config = \<lparr>cf_alloc = False, cf_max_streams = 2, cf_sent_per_space = 4, cf_max_cids = 1\<rparr>"

definition toy_pool :: "unit hs_pool" where
  "toy_pool = fst (pool_claim (pool_new False 1 64 toy_engine))"

definition toy_server :: "(byte, byte, unit) endpoint" where
  "toy_server = endpoint_new toy_config Server keys_new 0 [1, 2, 3, 4] [] default_params toy_pool
     (stream_io_new False 64 4 2)"

lemma toy_server_new:
  "server_new toy_config toy_engine default_params [1, 2, 3, 4] (stream_io_new False 64 4 2)
     (pool_new False 1 64 toy_engine) = (toy_pool, Ok toy_server)"
  by (simp add: server_new_def pool_claim_def pool_new_def pool_get_def pool_put_def
      toy_server_def toy_pool_def ctx_new_def Let_def)

lemma toy_server_sel [simp]:
  "ep_state toy_server = Handshaking" "ep_addr_validated toy_server = False" "ep_amp_received toy_server = 0"
  "ep_amp_sent toy_server = 0" "ep_close_frame toy_server = None" "ep_keys toy_server = keys_new"
  "ep_local_cids toy_server = [[1, 2, 3, 4]]" "ep_slot toy_server = Some 0"
  by (simp_all add: toy_server_def endpoint_new_def toy_config_def)

lemma toy_pool_get [simp]: "pool_get toy_pool 0 = Ok (ctx_new toy_engine 64)"
  by (simp add: toy_pool_def pool_claim_def pool_new_def pool_get_def Let_def)

text \<open>
  A client Initial packet for this server: a header, packet number 0 and a PING frame with padding,
  sealed with the toy keys. The server derives its keys from it, delivers the frame and answers with
  an Initial packet that acknowledges it.
\<close>

definition toy_hdr :: bytes where "toy_hdr = [0xc0, 0, 0, 0, 1, 1, 9, 1, 5, 0, 21]"
definition toy_initial :: bytes where
  "toy_initial = [0xcb, 0, 0, 0, 1, 1, 9, 1, 5, 0, 21, 11, 12, 11, 11, 11] @ replicate 16 11"

lemma toy_initial_masked: "toy_initial = masked (replicate 5 11) 0x0f toy_hdr [0] (toy_aead 11 [1, 0, 0, 0])"
  by (simp add: toy_initial_def masked_def toy_hdr_def toy_aead_def)


lemma toy_varints:
  "decode_varint (0 # bs) = Ok (0, 1)" "decode_varint (21 # bs) = Ok (21, 1)"
  by (simp_all add: decode_varint_def idx_def Let_def)

lemma toy_parse: "parse_initial_header 64 toy_initial = Ok (\<lparr>ih_version = 1, ih_dcid = [9], ih_scid = [5], ih_token = [], ih_pn_offset = 11, ih_payload_length = 21\<rparr>, 11)"
  by (simp add: toy_initial_def parse_initial_header_def parse_cids_def Let_def idx_def idxs_def toy_varints as_usize_def usize_add_def be_nat_def slice_def slice_from_def)

lemma toy_packets: "packets 64 (coalesced_new toy_initial) = Some [Ok toy_initial]"
proof -
  have "long_packet_end 64 (coalesced_new toy_initial) toy_initial 0xcb = Ok (Some 32)"
    by (simp add: toy_initial_def long_packet_end_def Let_def idx_def idxs_def toy_varints as_usize_def usize_add_def be_nat_def slice_def slice_from_def)
  then show ?thesis
    by (subst packets.simps, subst packets.simps) (simp add: coalesced_next_def coalesced_new_def Let_def toy_initial_def)
qed


lemma toy_ping: "dispatch_frames toy_env lvl now [1, 0, 0, 0] False s = (s, Ok True)"
proof -
  have "decode 64 (1 # bs) = Ok (Ping, 1)" "decode 64 (0 # bs) = Ok (Padding, 1)" for bs
    using decode_frame_bytes [of 64 Ping bs] decode_frame_bytes [of 64 Padding bs] by (simp_all add: varint_bytes_def varint_log_def)
  then show ?thesis
    by (simp add: dispatch_frames.simps toy_env_def dispatch_frame_def)
qed

definition toy_ikey :: "(byte, byte) directional_keys" where
  "toy_ikey = \<lparr>dk_aead = 11, dk_hp = 11, dk_iv = replicate 12 11\<rparr>"

lemma toy_derive: "derive_initial toy_provider [9] is_client keys
    = Ok (keys\<lparr>initial_send := Some toy_ikey, initial_recv := Some toy_ikey\<rparr>)"
  by (simp add: derive_initial_def derive_initial_secrets_def derive_directional_keys_for_def derive_packet_keys_def
      ascii_def toy_ikey_def Let_def) (simp add: toy_provider_def)


lemma toy_decrypt:
  "\<exists>scratch'. decrypt_long_packet toy_provider 64 toy_initial 11 21 0 toy_ikey (replicate 64 0) = Ok (scratch', 12, 4, 0)
     \<and> take 4 (drop 12 scratch') = [1, 0, 0, 0]"
proof -
  have pn: "unat (decode_pn (word_of_nat (be_nat [0])) (length [0 :: byte]) (word_of_nat 0)) = 0"
    using decode_pn_recovers [of 1 0 0] by simp
  have l: "length toy_hdr = 11" "length [0 :: byte] = 1" "length (toy_aead 11 [1, 0, 0, 0]) = 20" "length [1, 0, 0, 0 :: byte] = 4"
    by (simp_all add: toy_hdr_def toy_aead_def)
  have k: "dk_aead toy_ikey = 11" "dk_hp toy_ikey = 11" by (simp_all add: toy_ikey_def)
  have op: "aead_open toy_provider (dk_aead toy_ikey) (nonce toy_ikey 0) (toy_hdr @ [0]) (toy_aead 11 [1, 0, 0, 0]) = Ok [1, 0, 0, 0]"
    by (simp add: k toy_provider_def toy_aead_def)
  show ?thesis
    using long_packet_opens [OF toy_laws _ _ _ _ op _ pn, of "replicate 64 0" 64 "[]"] unfolding l k
    by (simp add: toy_initial_masked l MAX_VARINT_def) (simp add: toy_hdr_def)
qed

definition toy_heard :: "(byte, byte, unit) endpoint" where
  "toy_heard = toy_server\<lparr>ep_last_activity := 9, ep_amp_received := 32,
     ep_keys := keys_new\<lparr>initial_send := Some toy_ikey, initial_recv := Some toy_ikey\<rparr>, ep_remote_cid := [5],
     ep_pool := pool_put 0 ((ctx_new toy_engine 64)\<lparr>hc_tls := set_transport_param_cids [9] [1, 2, 3, 4] toy_engine\<rparr>) toy_pool,
     ep_ack_eliciting := [True, False, False], ep_largest_recv_pn := [Some 0, None, None],
     ep_recv_pn := [\<lparr>rp_ranges = [(0, 0)], rp_floor = None\<rparr>, recv_pn_new, recv_pn_new]\<rparr>"


lemma heard_sel:
  "ep_slot toy_heard = Some 0" "ep_role toy_heard = Server" "ep_state toy_heard = Handshaking"
  "pool_get (ep_pool toy_heard) 0 = Ok ((ctx_new toy_engine 64)\<lparr>hc_tls := set_transport_param_cids [9] [1, 2, 3, 4] toy_engine\<rparr>)"
  "te_pending_keys (set_transport_param_cids [9] [1, 2, 3, 4] toy_engine) = None"
  by (simp_all add: toy_heard_def toy_server_def endpoint_new_def toy_config_def set_transport_param_cids_def Let_def toy_engine_def)
    (simp add: toy_pool_def pool_claim_def pool_new_def pool_get_def pool_put_def Let_def toy_engine_def ctx_new_def)

lemma toy_hears: "conn_recv toy_env (replicate 64 0) 9 toy_initial toy_server = Some (toy_heard, Ok ())"
proof -
  let ?s = "toy_server\<lparr>ep_last_activity := 9, ep_amp_received := 32\<rparr>"
  let ?s2 = "toy_heard\<lparr>ep_ack_eliciting := [False, False, False], ep_largest_recv_pn := [None, None, None],
     ep_recv_pn := [recv_pn_new, recv_pn_new, recv_pn_new]\<rparr>"
  have len: "length toy_initial = 32" by (simp add: toy_initial_def)
  have sel: "en_uw toy_env = 64" "en_aes toy_env = toy_provider" by (simp_all add: toy_env_def)
  have init: "ep_role toy_server = Server" "ep_remote_cid toy_server = []" "ep_pool toy_server = toy_pool"
     "ep_largest_recv_pn toy_server = [None, None, None]" "ep_recv_pn toy_server = [recv_pn_new, recv_pn_new, recv_pn_new]"
     "ep_ack_eliciting toy_server = [False, False, False]"
    by (simp_all add: toy_server_def endpoint_new_def toy_config_def)
  have f: "first_initial toy_env [9] ?s = (?s\<lparr>ep_keys := keys_new\<lparr>initial_send := Some toy_ikey, initial_recv := Some toy_ikey\<rparr>,
     ep_pool := ep_pool toy_heard\<rparr>, Ok ())"
    by (simp add: first_initial_def has_recv_keys_def sel init toy_derive toy_heard_def local_scid_def ctx_new_def) (simp add: keys_new_def)
  obtain scratch' where d: "decrypt_long_packet toy_provider 64 toy_initial 11 21 0 toy_ikey (replicate 64 0) = Ok (scratch', 12, 4, 0)"
     "take 4 (drop 12 scratch') = [1, 0, 0, 0]" using toy_decrypt by blast
  have ini: "recv_initial toy_env (replicate 64 0) 9 toy_initial ?s = (?s2, Ok \<lparr>pr_level = level.Initial, pr_ack_eliciting = True, pr_pn = 0\<rparr>)"
    by (simp add: recv_initial_def sel toy_parse f learn_remote_cid_def init cid_from_slice_def largest_pn_def d deliver_new_def deliver_def toy_ping contains_def recv_pn_new_def toy_heard_def)
  have "recv_packet toy_env (replicate 64 0) 9 toy_initial ?s = (toy_heard, Ok ())"
    using ini
    by (simp add: recv_packet_def) (simp add: toy_initial_def packet_done_def toy_heard_def track_received_pn_def record_pn_def recv_pn_new_def insert_range_def push_cap_def)
  moreover have "check_tls_keys toy_env toy_heard = (toy_heard, Ok ())"
    by (simp add: check_tls_keys_def heard_sel maybe_release_handshake_slot_def can_release_def)
  ultimately show ?thesis by (simp add: conn_recv_def Let_def sel toy_packets len)
qed

text \<open>A packet that fits its buffer is sealed, and its size is the sum of its parts.\<close>

lemma seal_packet_size:
  assumes "aead_laws P" and "hdr \<noteq> []" and "4 \<le> pn_length pn la + length payload"
    and "length hdr + pn_length pn la + length payload + 16 \<le> length buf"
  shows "\<exists>out. seal_packet P (wr buf hdr) pn la payload is_long (Some k)
    = Ok (out, length hdr + pn_length pn la + length payload + 16)"
proof -
  let ?p = "be_bytes (pn_length pn la) pn" and ?z = "drop (length payload + pn_length pn la + length hdr) buf"
  note r = pn_length_range [of pn la]
  obtain ct where ct: "aead_seal P (dk_aead k) (nonce k pn) (hdr @ ?p) payload = Ok ct" "length ct = length payload + 16"
    using assms(1) unfolding aead_laws_def by metis
  have "encrypt_and_protect P (hdr @ ?p @ payload @ ?z) (length hdr) (length hdr + length ?p) (length payload)
      pn (length ?p) is_long k
    = Ok (masked (hp_mask P (dk_hp k) (take 16 (drop (4 - length ?p) ct))) (if is_long then 0x0f else 0x1f) hdr ?p ct @ drop 16 ?z,
          length hdr + length ?p + length ct)"
    using assms r by (intro encrypt_masked ct) auto
  then show ?thesis
    using assms r ct by (simp add: seal_packet_def wr_def slice_from_def encode_pn_spec copy_at_def Let_def add.assoc [symmetric])
qed

lemma heard_more:
  "ep_next_pn toy_heard = [0, 0, 0]" "largest_pn level.Initial toy_heard = 0" "ep_remote_cid toy_heard = [5]"
  "local_scid toy_heard = [1, 2, 3, 4]" "ep_addr_validated toy_heard = False" "ep_close_frame toy_heard = None"
  "ep_amp_sent toy_heard = 0" "ep_amp_received toy_heard = 32" "ep_crypto_rewind toy_heard = False"
  "ep_ack_eliciting toy_heard = [True, False, False]" "ep_recv_pn toy_heard ! 0 = \<lparr>rp_ranges = [(0, 0)], rp_floor = None\<rparr>"
  "initial_send (ep_keys toy_heard) = Some toy_ikey" "has_send_keys (ep_keys toy_heard) level.Initial"
  "\<not> has_send_keys (ep_keys toy_heard) level.Handshake" "\<not> has_send_keys (ep_keys toy_heard) Application"
  "needs_key_update (ep_keys toy_heard) = False"
  by (simp_all add: toy_heard_def toy_server_def endpoint_new_def toy_config_def largest_pn_def local_scid_def
     has_send_keys_def send_keys_def keys_new_def needs_key_update_def can_initiate_key_update_def)


lemma toy_ack:
  assumes "300 \<le> length buf"
  shows "build_ack_frame \<lparr>rp_ranges = [(0, 0)], rp_floor = None\<rparr> buf = Some (wr buf [2, 0, 0, 0, 0])"
  using build_ack_frame_spec(1) [of "\<lparr>rp_ranges = [(0, 0)], rp_floor = None\<rparr>" "[]" 0 0 buf] assms
  by (simp add: rp_inv_def varint_bytes_def varint_log_def pairs_bytes_def ack_bytes_def range_count_def count_ranges.simps)

lemma toy_answers:
  "\<exists>s d. poll_transmit toy_env (replicate 400 0) 10 toy_heard = (s, Ok (Some d)) \<and> length d = 36 \<and> \<not> ep_addr_validated s"
proof -
  let ?s = "toy_heard\<lparr>ep_ack_eliciting := [False, False, False]\<rparr>"
  let ?hdr = "initial_bytes [5] [1, 2, 3, 4] [] 1 22"
  have hdr: "length ?hdr = 14" "?hdr \<noteq> []" by (simp_all add: initial_bytes_def cids_bytes_def varint_len_def)
  have pl: "pn_length 0 0 = 1" by (simp add: pn_length_def)
  have aes: "en_aes toy_env = toy_provider" by (simp add: toy_env_def)
  have w: "write_ack level.Initial (replicate 378 0, 0) toy_heard = (?s, [2, 0, 0, 0, 0] @ replicate 373 0, 5)"
    by (simp add: write_ack_def heard_more toy_ack wr_def)
  have enc: "encode_initial_header [5] [1, 2, 3, 4] [] 1 22 (replicate 400 0) = Ok (wr (replicate 400 0) ?hdr)"
    by (rule encode_initial_header_spec) (use hdr in \<open>simp_all add: MAX_VARINT_def\<close>)
  obtain out where seal: "seal_packet toy_provider (wr (replicate 400 0) ?hdr) 0 0 [2, 0, 0, 0, 0] True (Some toy_ikey) = Ok (out, 36)"
    using seal_packet_size [OF toy_laws hdr(2), of 0 0 "[2, 0, 0, 0, 0]" "replicate 400 0" True toy_ikey]
    unfolding hdr pl by auto
  have ini: "build_initial_packet toy_env (replicate 400 0) 10 toy_heard
    = (packet_sent level.Initial 0 10 36 False False ?s, Ok (Some (out, 36)))"
    by (simp add: build_initial_packet_def Let_def heard_more heard_sel w pl enc seal aes initial_padding_def varint_len_def MIN_INITIAL_PACKET_SIZE_def del: One_nat_def)
  have keys: "\<not> has_send_keys (ep_keys (packet_sent level.Initial 0 10 36 False False ?s)) level.Handshake"
    "\<not> has_send_keys (ep_keys (packet_sent level.Initial 0 10 36 False False ?s)) Application"
    "maybe_release_handshake_slot (packet_sent level.Initial 0 10 36 False False ?s) = (packet_sent level.Initial 0 10 36 False False ?s, Ok ())"
    "amplification_allows toy_env (packet_sent level.Initial 0 10 36 False False ?s) 36" "amplification_allows toy_env toy_heard 1"
    by (simp_all add: packet_sent_def heard_more heard_sel maybe_release_handshake_slot_def can_release_def amplification_allows_def
        usize_add_def as_usize_def toy_env_def)
  have "36 \<le> length out" by (rule seal_bound [OF seal])
  then have "\<exists>s d. send_packets toy_env (replicate 400 0) 10 toy_heard = (s, Ok (Some d)) \<and> length d = 36 \<and> \<not> ep_addr_validated s"
    using keys by (simp add: send_packets_def append_packet_def heard_more ini finish_datagram_def Let_def) (simp add: packet_sent_def heard_more)
  moreover have "poll_transmit toy_env (replicate 400 0) 10 toy_heard = send_packets toy_env (replicate 400 0) 10 toy_heard"
    using keys(5) by (simp add: poll_transmit_def heard_more heard_sel rewind_crypto_def)
  ultimately show ?thesis by simp
qed

section \<open>Properties\<close>

text \<open>
  C21: The life of a connection only moves forward. Along every sequence of calls, datagrams and
  timeouts the connection goes from \<^verbatim>\<open>Handshaking\<close> to \<^verbatim>\<open>Active\<close>, \<^verbatim>\<open>Closing\<close>, \<^verbatim>\<open>Draining\<close> and \<^verbatim>\<open>Closed\<close> in this
  order, possibly skipping states and never going back; a validated address stays validated; and
  once the connection is \<^verbatim>\<open>Closed\<close> it never puts a byte on the network again.
\<close>

theorem lifecycle_forward:
  assumes "conn_run E s ls s'"
  shows "stage (ep_state s) \<le> stage (ep_state s') \<and> (ep_addr_validated s \<longrightarrow> ep_addr_validated s')
    \<and> (ep_state s = conn_state.Closed \<longrightarrow> sent_bytes ls = 0 \<and> ep_state s' = conn_state.Closed)"
proof -
  have "stage (ep_state s') = 4 \<Longrightarrow> ep_state s' = conn_state.Closed" by (cases "ep_state s'") auto
  with run_forward [OF assms] show ?thesis by (auto simp: le_antisym)
qed

text \<open>
  C20: Anti-amplification. From the creation of a server connection until the address of its client
  is validated, the datagrams it sends, other than the one that carries a CONNECTION_CLOSE, hold
  together at most three times the bytes of the datagrams it received, whatever the client, the TLS
  engine and the application do, as long as the counter of sent bytes does not overflow. A pending
  close escapes the limit: its bytes are neither counted nor checked, but the connection sends at
  most one datagram of this kind.
\<close>

theorem amplification_limit:
  assumes "server_new cf tls tp cid sio pool = (pool', Ok s0)" and "conn_run E s0 ls s"
    and "\<not> ep_addr_validated s" and "sent_bytes ls < 2 ^ en_uw E"
  shows "sent_bytes ls \<le> 3 * received_bytes ls + close_bytes ls \<and> close_datagrams ls \<le> 1"
proof -
  have "ep_amp_received s0 = 0" "ep_amp_sent s0 = 0"
    using assms(1) by (auto simp: server_new_def endpoint_new_def sbind_eq_Ok Let_def)
  from run_amplification [OF assms(2,3) this assms(4)] run_close_once [OF assms(2)] show ?thesis by simp
qed

theorem amplification_limit_witness:
  "\<exists>s. conn_run toy_env toy_server [Received 32, Transmitted 36] s \<and> \<not> ep_addr_validated s
     \<and> sent_bytes [Received 32, Transmitted 36] = 36 \<and> received_bytes [Received 32, Transmitted 36] = 32
     \<and> 36 \<le> 3 * received_bytes [Received 32, Transmitted 36] + close_bytes [Received 32, Transmitted 36]"
proof -
  have "conn_step toy_env toy_server (Received 32) toy_heard"
    using recv [OF toy_hears] by (simp add: toy_initial_def)
  then have 1: "conn_run toy_env toy_server [Received 32] toy_heard" using more [OF start] by fastforce
  obtain s d where s: "poll_transmit toy_env (replicate 400 0) 10 toy_heard = (s, Ok (Some d))" "length d = 36"
      "\<not> ep_addr_validated s" using toy_answers by blast
  have run: "conn_run toy_env toy_server [Received 32, Transmitted 36] s"
    using more [OF 1 transmit [OF s(1) heard_more(6)]] s(2) by simp
  have b: "sent_bytes [Received 32, Transmitted 36] = 36" "received_bytes [Received 32, Transmitted 36] = 32"
    by (simp_all add: sent_bytes_def received_bytes_def)
  with amplification_limit [OF toy_server_new run s(3)] run s(3) show ?thesis by (auto simp: toy_env_def)
qed

theorem lifecycle_forward_witness:
  "conn_run toy_env toy_server [Quiet] (close 7 [] toy_server)
     \<and> stage (ep_state toy_server) \<le> stage (ep_state (close 7 [] toy_server))"
proof -
  have run: "conn_run toy_env toy_server [Quiet] (close 7 [] toy_server)"
    using more [OF start shut] by fastforce
  with lifecycle_forward [OF run] show ?thesis by simp
qed

end
