(* ===== verification/Connection_Gaps.thy ===== *)
theory Connection_Gaps
  imports Connection_Run
begin

text \<open>
  Behaviours of the connection that differ from what RFC 9000 and RFC 9001 ask for, each stated as
  the code has it: Initial packets after the handshake, stream data that a full packet or a lost
  packet takes with it, and a loss timer that is never cleared.
\<close>

section \<open>Initial packets after the handshake\<close>

text \<open>
  When the Initial keys are gone, an Initial packet makes the endpoint derive new ones from the
  connection id in the packet itself. Whoever can send a datagram to the connection can build such
  a packet, and its frames are dispatched like those of any other packet.
\<close>

theorem initial_rekeyed_from_packet:
  assumes "initial_recv (ep_keys s) = None" and "ep_slot s = None"
    and "parse_initial_header (en_uw E) pkt = Ok (hdr, n)"
    and "derive_initial (en_aes E) (ih_dcid hdr) (ep_role s = Client) (ep_keys s) = Ok keys"
    and "initial_recv keys = Some recv"
    and "decrypt_long_packet (en_aes E) (en_uw E) pkt (ih_pn_offset hdr) (ih_payload_length hdr)
           (largest_pn level.Initial s) recv scratch = Ok (scratch', off, len, pn)"
    and "\<not> contains (ep_recv_pn s ! space_index level.Initial) pn"
  shows "recv_initial E scratch now pkt s =
    deliver E level.Initial now pn (take len (drop off scratch'))
      (learn_remote_cid (ih_scid hdr) (s\<lparr>ep_keys := keys\<rparr>))"
proof -
  have "first_initial E (ih_dcid hdr) s = (s\<lparr>ep_keys := keys\<rparr>, Ok ())"
    using assms by (simp add: first_initial_def has_recv_keys_def Let_def)
  moreover have "ep_keys (learn_remote_cid cid t) = ep_keys t" "ep_recv_pn (learn_remote_cid cid t) = ep_recv_pn t"
    "largest_pn lvl (learn_remote_cid cid t) = largest_pn lvl t" for cid lvl and t :: "('a, 'b, 'c) endpoint"
    by (simp_all add: learn_remote_cid_def largest_pn_def)
  moreover have "largest_pn level.Initial (s\<lparr>ep_keys := keys\<rparr>) = largest_pn level.Initial s"
    by (simp add: largest_pn_def)
  ultimately show ?thesis using assms by (simp add: recv_initial_def deliver_new_def)
qed

section \<open>Lost stream data\<close>

text \<open>
  The space for STREAM frames in a short packet does not leave room for the 16 bytes of the AEAD
  tag. When the frames reach into it, the packet cannot be sealed: nothing is sent, and the state
  is the one in which the frames have already been taken out of the send queue.
\<close>

lemma seal_too_long:
  assumes "pn_offset + pn_length pn la + length payload \<le> length buf"
    and "length buf < pn_offset + pn_length pn la + length payload + 16"
  shows "\<exists>e. seal_packet P (buf, pn_offset) pn la payload il send = Err e"
proof -
  have "encode_pn pn la (drop pn_offset buf)
      = Ok (be_bytes (pn_length pn la) pn @ drop (pn_length pn la) (drop pn_offset buf), pn_length pn la)"
    by (rule encode_pn_spec) (use assms in simp_all)
  then show ?thesis
    using assms by (cases send) (simp_all add: seal_packet_def copy_at_def encrypt_and_protect_def Let_def)
qed

theorem full_packet_loses_frames:
  assumes start: "payload_start = 1 + length (ep_remote_cid s) + pn_length pn (largest_pn Application s)"
    and pn: "pn = ep_next_pn s ! space_index Application"
    and buf: "payload_start + 32 \<le> length buf"
    and ctl: "write_control_frames (drop payload_start buf, 0) s = (s1, Ok (c, hdone, ae))"
    and str: "write_streams E c s1 = (s2, c')"
    and len: "length (fst c') = length buf - payload_start" "snd c' \<le> length (fst c')"
    and full: "length buf - payload_start < snd c' + 16"
  shows "build_short_packet E buf now s = (s2, Ok None)"
proof -
  let ?pl = "pn_length pn (largest_pn Application s)"
  let ?payload = "take (snd c') (fst c') @ replicate (short_padding ?pl (snd c')) 0"
  have pay: "length ?payload = snd c'"
    using buf full len by (auto simp: short_padding_def Let_def)
  have hdr: "encode_short_header (ep_remote_cid s) fb buf = Ok ([fb] @ ep_remote_cid s
      @ drop (1 + length (ep_remote_cid s)) buf, 1 + length (ep_remote_cid s))" for fb
    using buf start encode_short_header_spec [of "ep_remote_cid s" buf fb] by (simp add: wr_def)
  let ?fb = "short_first_byte (ku_key_phase (ep_keys s2)) ?pl"
  have "\<exists>e. seal_packet (en_provider E) ([?fb] @ ep_remote_cid s @ drop (1 + length (ep_remote_cid s)) buf,
      1 + length (ep_remote_cid s)) pn (largest_pn Application s) ?payload False
      (send_keys (ep_keys s2) Application) = Err e"
    by (rule seal_too_long) (use pay buf start len full in simp_all)
  then obtain e where "seal_packet (en_provider E) ([?fb] @ ep_remote_cid s
      @ drop (1 + length (ep_remote_cid s)) buf, 1 + length (ep_remote_cid s)) pn
      (largest_pn Application s) ?payload False (send_keys (ep_keys s2) Application) = Err e" by blast
  moreover have "snd c' \<noteq> 0" using buf full by auto
  moreover have "\<not> length buf < payload_start + 32" using buf by simp
  ultimately show ?thesis
    unfolding build_short_packet_def Let_def pn(1) [symmetric] start [symmetric] ctl
    by (simp only: if_False sbind.simps prod.case str hdr ok_or_none.simps)
qed

section \<open>Nothing is sent again\<close>

text \<open>
  What was taken out of the send queue never comes back: neither a received packet, an
  acknowledgement that shows a loss included, nor a timeout changes the queue, and the record of a
  sent packet holds no data. Stream data in a lost packet is lost to the peer.
\<close>

definition queue_eq :: "('a, 'h, 't) endpoint \<Rightarrow> ('a, 'h, 't) endpoint \<Rightarrow> bool" where
  "queue_eq s s' \<longleftrightarrow> send_queue (ep_io s') = send_queue (ep_io s)"

lemma queue_eq_stream_frame: "queue_eq s (fst (handle_stream_frame f s))"
proof -
  have store: "send_queue (store_stream_data sio sid off data fin) = send_queue sio" for sio sid off data fin
    by (simp add: store_stream_data_def Let_def split: option.split prod.split)
  have bind: "queue_eq s (fst (sbind p g))"
    if "queue_eq s (fst p)" "\<And>s' x. p = (s', Ok x) \<Longrightarrow> queue_eq s s' \<Longrightarrow> queue_eq s (fst (g s' x))"
    for p and g :: "('a, 'h, 't) endpoint \<Rightarrow> 'x \<Rightarrow> ('a, 'h, 't) endpoint \<times> 'y res" and s
    using that by (cases p; cases "snd p") auto
  show ?thesis
    by (auto simp: handle_stream_frame_def Let_def queue_eq_def push_event_def store split: prod.split
        intro!: bind [unfolded queue_eq_def])
qed

lemma queue_eq_frame:
  assumes "\<And>g. f \<noteq> frame.Crypto g"
  shows "queue_eq s (fst (dispatch_frame E lvl now f s))"
proof (cases f)
  case (Ack ack)
  then show ?thesis
    by (auto simp: handle_ack_frame_def queue_eq_def Let_def split: res.split prod.split)
next
  case (Stream g)
  then show ?thesis by (simp add: queue_eq_stream_frame)
qed (use assms in \<open>auto simp: queue_eq_def push_event_def drop_packet_space_def Let_def\<close>)

interpretation queue: recv_order queue_eq
proof unfold_locales
  fix f and s :: "('a, 'h, 't) endpoint" and E lvl now
  assume "\<And>g. f \<noteq> frame.Crypto g"
  then show "queue_eq s (fst (dispatch_frame E lvl now f s))" by (rule queue_eq_frame)
qed (auto simp: queue_eq_def keys_installed_def adopt_peer_params_def packet_done_def track_received_pn_def
    drop_packet_space_def push_event_def Let_def split: level.split option.split)

theorem lost_data_not_requeued:
  "conn_recv E scratch now d s = Some (s', r) \<Longrightarrow> send_queue (ep_io s') = send_queue (ep_io s)"
  "send_queue (ep_io (handle_timeout now s)) = send_queue (ep_io s)"
proof -
  assume "conn_recv E scratch now d s = Some (s', r)"
  then show "send_queue (ep_io s') = send_queue (ep_io s)"
  proof (cases rule: conn_recv_cases)
    case (processed ps)
    have "queue_eq (recv_entry E now d s) s'"
      unfolding processed by (rule queue.le_sbind) (rule queue.le_recv_packets, rule queue.le_check_tls_keys)
    then show ?thesis by (simp add: queue_eq_def recv_entry_def)
  qed simp
next
  show "send_queue (ep_io (handle_timeout now s)) = send_queue (ep_io s)"
    by (auto simp: handle_timeout_def push_event_def split: option.split)
qed

section \<open>The loss timer\<close>

text \<open>
  A loss timer that has expired stays expired: \<open>handle_timeout\<close> only counts a probe timeout, and
  packets are declared lost only when an ACK arrives. The deadline the event loop is told stays in
  the past, so it wakes up at once again and again.
\<close>

theorem loss_timer_stays_expired:
  assumes "ep_state s \<notin> {conn_state.Closed, Draining}" and "min_time (ld_loss_time (ep_loss s)) = Some t"
    and "t \<le> now" and "ep_idle_timeout s = None"
  shows "\<exists>t'. conn_next_timeout (handle_timeout now s) = Some t' \<and> t' \<le> now"
proof -
  have "\<exists>t'. next_timeout ld q = Some t' \<and> t' \<le> t"
    if "min_time (ld_loss_time ld) = Some t" for ld q
    using that by (auto simp: next_timeout_def split: option.split)
  moreover have "ld_loss_time (on_pto ld) = ld_loss_time ld" for ld
    by (simp add: on_pto_def)
  ultimately show ?thesis
    using assms by (auto simp: handle_timeout_def conn_next_timeout_def split: option.splits)
      (metis (no_types, lifting) le_trans option.inject)+
qed

section \<open>A slot that is never released\<close>

text \<open>
  A client that is created with a server name of more than 64 bytes fails after it has claimed a
  handshake slot. The slot stays claimed, and no connection exists that could release it.
\<close>

theorem failed_client_keeps_slot:
  assumes "pool_claim pool = (pool', Ok slot)" and "64 < length server_name"
  shows "client_new cf E server_name new_client tp local_cid initial_dcid sio pool = (pool', Err error.Tls)"
  using assms by (simp add: client_new_def)

section \<open>Lengths of packet numbers\<close>

text \<open>
  The transmit path measures the length of a packet number against the largest number it received, not the
  largest the peer acknowledged. An endpoint that received more packets than it sent always uses one byte;
  a peer that missed more than half of a window of 256 numbers recovers another number.
\<close>

lemma number_length_ignores_acks:
  assumes "ep_largest_recv_pn s ! space_index Application = Some 5000"
  shows "pn_length 1000 (largest_pn Application s) = 1
    \<and> unat (decode_pn (word_of_nat (be_nat (be_bytes 1 1000))) 1 500) = 488"
proof -
  have "pn_length 1000 (largest_pn Application s) = 1"
    using assms by (simp add: largest_pn_def pn_length_def)
  moreover have "decode_pn (word_of_nat (be_nat (be_bytes 1 1000))) 1 500 = 488"
    by (simp add: decode_pn_def Let_def be_nat_def)
  ultimately show ?thesis by simp
qed

end
