(* ===== verification/Byte_Buf.thy ===== *)
theory Byte_Buf
  imports Milli_Prelude
begin

text \<open>
  The bounded byte buffers (\<^verbatim>\<open>src/buf.rs\<close>, with \<^verbatim>\<open>alloc\<close>): one type over two storages, a growing heap
  vector and a fixed slice, with a hidden tail behind the visible bytes. The interface
  \<open>byte_buffer\<close> is what the connections rely on: a queue of visible bytes in front of a parked
  tail, with one bound for both. Both storages implement it, and so does \<^verbatim>\<open>heapless::Vec\<close>.
\<close>

section \<open>The code\<close>

text \<open>
  The capacity of a heap vector is part of its state. What the allocator does is a parameter: which
  requests it satisfies and the capacity it returns, at least the one asked for.
\<close>

record allocator =
  al_ok :: "nat \<Rightarrow> bool"
  al_cap :: "nat \<Rightarrow> nat"

datatype storage = Heap bytes nat | Static bytes nat

record buf =
  storage :: storage
  hidden :: nat

definition buf_new :: buf where
  "buf_new = \<lparr>storage = Heap [] 0, hidden = 0\<rparr>"

definition from_static :: "nat \<Rightarrow> bytes \<Rightarrow> buf res" where
  "from_static N mem = (if length mem \<ge> N then Ok \<lparr>storage = Static mem 0, hidden = 0\<rparr> else Panic)"

definition take_static :: "buf \<Rightarrow> buf \<times> bytes option" where
  "take_static b =
    (case storage b of
       Static mem len \<Rightarrow> (\<lparr>storage = Heap [] 0, hidden = 0\<rparr>, Some mem)
     | Heap v c \<Rightarrow> (b, None))"

definition phys_len :: "buf \<Rightarrow> nat" where
  "phys_len b = (case storage b of Heap v c \<Rightarrow> length v | Static mem len \<Rightarrow> len)"

definition buf_len :: "buf \<Rightarrow> nat" where
  "buf_len b = phys_len b - hidden b"

definition buf_is_empty :: "buf \<Rightarrow> bool" where
  "buf_is_empty b \<longleftrightarrow> buf_len b = 0"

definition buf_clear :: "buf \<Rightarrow> buf" where
  "buf_clear b =
    b\<lparr>storage := (case storage b of Heap v c \<Rightarrow> Heap [] c | Static mem len \<Rightarrow> Static mem 0), hidden := 0\<rparr>"

text \<open>\<^verbatim>\<open>slice::copy_within\<close> and \<^verbatim>\<open>slice::rotate_left\<close>.\<close>

definition copy_within :: "bytes \<Rightarrow> nat \<Rightarrow> nat \<Rightarrow> nat \<Rightarrow> bytes res" where
  "copy_within xs a b dest =
    (if a \<le> b \<and> b \<le> length xs \<and> dest \<le> length xs - (b - a)
     then Ok (take dest xs @ take (b - a) (drop a xs) @ drop (dest + (b - a)) xs) else Panic)"

definition rotate_left :: "nat \<Rightarrow> bytes \<Rightarrow> bytes res" where
  "rotate_left k xs = (if k \<le> length xs then Ok (drop k xs @ take k xs) else Panic)"

definition buf_truncate :: "nat \<Rightarrow> buf \<Rightarrow> buf res" where
  "buf_truncate len b =
    (let vis = buf_len b; h = hidden b
     in if len \<ge> vis then Ok b
        else
          case storage b of
            Heap v c \<Rightarrow>
              res_bind (if h > 0 then copy_within v vis (vis + h) len else Ok v) (\<lambda>v.
                Ok (b\<lparr>storage := Heap (take (len + h) v) c\<rparr>))
          | Static mem cur \<Rightarrow>
              res_bind (if h > 0 then copy_within mem vis (vis + h) len else Ok mem) (\<lambda>mem.
                Ok (b\<lparr>storage := Static mem (len + h)\<rparr>)))"

definition hide_tail :: "nat \<Rightarrow> buf \<Rightarrow> buf res" where
  "hide_tail n b = (if n \<le> buf_len b then Ok (b\<lparr>hidden := hidden b + n\<rparr>) else Panic)"

definition unhide_tail :: "buf \<Rightarrow> buf \<times> nat" where
  "unhide_tail b = (b\<lparr>hidden := 0\<rparr>, hidden b)"

text \<open>\<^verbatim>\<open>Vec::reserve_exact\<close> aborts when the allocator fails, and changes nothing when there is room.\<close>

definition reserve_exact :: "allocator \<Rightarrow> nat \<Rightarrow> bytes \<Rightarrow> nat \<Rightarrow> nat option" where
  "reserve_exact A additional v c =
    (if length v + additional \<le> c then Some c
     else if al_ok A (length v + additional) then Some (al_cap A (length v + additional)) else None)"

definition reserve_clamped :: "allocator \<Rightarrow> nat \<Rightarrow> nat \<Rightarrow> buf \<Rightarrow> buf res" where
  "reserve_clamped A N additional b =
    (case storage b of
       Heap v c \<Rightarrow>
         let needed = length v + additional
         in if needed \<le> c then Ok b
            else
              let target = min (max (c * 2) needed) N
              in (case reserve_exact A (target - length v) v c of
                    Some c' \<Rightarrow> Ok (b\<lparr>storage := Heap v c'\<rparr>)
                  | None \<Rightarrow> Panic)
     | Static mem len \<Rightarrow> Ok b)"

definition try_reserve :: "allocator \<Rightarrow> nat \<Rightarrow> nat \<Rightarrow> buf \<Rightarrow> buf \<times> unit res" where
  "try_reserve A N additional b =
    (case storage b of
       Heap v c \<Rightarrow>
         let needed = length v + additional
         in if needed \<le> c then (b, Ok ())
            else
              let target = min (max (c * 2) needed) N
              in (case reserve_exact A (target - length v) v c of
                    Some c' \<Rightarrow> (b\<lparr>storage := Heap v c'\<rparr>, Ok ())
                  | None \<Rightarrow>
                      (case reserve_exact A (needed - length v) v c of
                         Some c' \<Rightarrow> (b\<lparr>storage := Heap v c'\<rparr>, Ok ())
                       | None \<Rightarrow> (b, Err OutOfMemory)))
     | Static mem len \<Rightarrow> (b, Ok ()))"

text \<open>
  \<^verbatim>\<open>extend_from_slice\<close>: \<open>None\<close> in the place of its error \<^verbatim>\<open>Err(())\<close>. The vector does not grow beyond
  the capacity reserved for it.
\<close>

definition extend_from_slice :: "allocator \<Rightarrow> nat \<Rightarrow> bytes \<Rightarrow> buf \<Rightarrow> buf option res" where
  "extend_from_slice A N data b =
    (let h = hidden b
     in case storage b of
          Heap v c \<Rightarrow>
            if phys_len b + length data > N then Ok None
            else
              res_bind (reserve_clamped A N (length data) b) (\<lambda>b.
                case storage b of
                  Heap v c \<Rightarrow>
                    let v = v @ data
                    in if h > 0 \<and> data \<noteq> [] then
                         let vis = length v - h - length data
                         in res_bind (slice_from v vis) (\<lambda>t.
                            res_bind (rotate_left h t) (\<lambda>t. Ok (Some (b\<lparr>storage := Heap (take vis v @ t) c\<rparr>))))
                       else Ok (Some (b\<lparr>storage := Heap v c\<rparr>))
                | Static mem len \<Rightarrow> Ok (Some b))
        | Static mem len \<Rightarrow>
            let cap = min N (length mem)
            in if len + length data > cap then Ok None
               else
                 let vis = len - h
                 in res_bind (if h > 0 \<and> data \<noteq> [] then copy_within mem vis len (vis + length data) else Ok mem) (\<lambda>mem.
                    res_bind (copy_at mem vis data) (\<lambda>mem.
                      Ok (Some (b\<lparr>storage := Static mem (len + length data)\<rparr>)))))"

definition buf_extend_from_slice :: "allocator \<Rightarrow> nat \<Rightarrow> bytes \<Rightarrow> buf \<Rightarrow> buf \<times> unit res" where
  "buf_extend_from_slice A N data b =
    (let needed = buf_len b + length data
     in case extend_from_slice A N data b of
          Ok (Some b') \<Rightarrow> (b', Ok ())
        | Ok None \<Rightarrow> (b, Err (BufferTooSmall needed))
        | Err e \<Rightarrow> (b, Err e)
        | Panic \<Rightarrow> (b, Panic))"

definition buf_push :: "allocator \<Rightarrow> nat \<Rightarrow> byte \<Rightarrow> buf \<Rightarrow> buf \<times> unit res" where
  "buf_push A N x b = buf_extend_from_slice A N [x] b"

definition allocated_capacity :: "buf \<Rightarrow> nat" where
  "allocated_capacity b = (case storage b of Heap v c \<Rightarrow> c | Static mem len \<Rightarrow> length mem)"

definition shrink_to :: "allocator \<Rightarrow> nat \<Rightarrow> buf \<Rightarrow> buf" where
  "shrink_to A min_capacity b =
    (case storage b of
       Heap v c \<Rightarrow>
         if c \<le> min_capacity then b
         else if v = [] then b\<lparr>storage := Heap [] 0\<rparr>
         else
           (case reserve_exact A (max (length v) min_capacity) [] 0 of
              None \<Rightarrow> b
            | Some c' \<Rightarrow> b\<lparr>storage := Heap v c'\<rparr>)
     | Static mem len \<Rightarrow> b)"

definition as_slice :: "buf \<Rightarrow> bytes" where
  "as_slice b = (case storage b of Heap v c \<Rightarrow> take (buf_len b) v | Static mem len \<Rightarrow> take (buf_len b) mem)"

text \<open>\<^verbatim>\<open>as_mut_slice().copy_within(n.., 0)\<close> and \<^verbatim>\<open>truncate\<close>.\<close>

definition buf_drain_front :: "nat \<Rightarrow> buf \<Rightarrow> buf res" where
  "buf_drain_front n b =
    (let len = buf_len b
     in case storage b of
          Heap v c \<Rightarrow>
            res_bind (copy_within (take len v) n len 0) (\<lambda>s.
              buf_truncate (len - n) (b\<lparr>storage := Heap (s @ drop len v) c\<rparr>))
        | Static mem cur \<Rightarrow>
            res_bind (copy_within (take len mem) n len 0) (\<lambda>s.
              buf_truncate (len - n) (b\<lparr>storage := Static (s @ drop len mem) cur\<rparr>)))"

definition buf_clone :: "buf \<Rightarrow> nat \<Rightarrow> buf" where
  "buf_clone b c =
    (let contents = (case storage b of Heap v _ \<Rightarrow> v | Static mem len \<Rightarrow> take (phys_len b) mem)
     in \<lparr>storage = Heap contents c, hidden = hidden b\<rparr>)"

text \<open>\<^verbatim>\<open>BufExt\<close> for \<^verbatim>\<open>heapless::Vec<u8, N>\<close>, the buffer of the build without \<^verbatim>\<open>alloc\<close>.\<close>

definition hv_extend_from_slice :: "nat \<Rightarrow> bytes \<Rightarrow> bytes \<Rightarrow> bytes \<times> unit res" where
  "hv_extend_from_slice N data v =
    (if length v + length data > N then (v, Err (BufferTooSmall (length v + length data))) else (v @ data, Ok ()))"

definition hv_truncate :: "nat \<Rightarrow> bytes \<Rightarrow> bytes res" where
  "hv_truncate len v = Ok (take len v)"

definition hv_drain_front :: "nat \<Rightarrow> bytes \<Rightarrow> bytes res" where
  "hv_drain_front n v =
    res_bind (copy_within v n (length v) 0) (\<lambda>v. hv_truncate (length v - n) v)"

section \<open>The contract of a byte buffer\<close>

text \<open>What a caller does with a buffer, and what it may expect to find there.\<close>

datatype buf_op = Extend bytes | Drain nat | Truncate nat

fun queue_step :: "nat \<Rightarrow> buf_op \<Rightarrow> bytes \<times> bytes \<Rightarrow> bytes \<times> bytes" where
  "queue_step N (Extend data) (v, h) = (if length v + length h + length data \<le> N then (v @ data, h) else (v, h))"
| "queue_step N (Drain n) (v, h) = (drop n v, h)"
| "queue_step N (Truncate n) (v, h) = (take n v, h)"

fun buf_step ::
  "(bytes \<Rightarrow> 'b \<Rightarrow> 'b \<times> unit res) \<Rightarrow> (nat \<Rightarrow> 'b \<Rightarrow> 'b res) \<Rightarrow> (nat \<Rightarrow> 'b \<Rightarrow> 'b res) \<Rightarrow> buf_op \<Rightarrow> 'b \<Rightarrow> 'b res" where
  "buf_step ext drn trn (Extend data) b = (case ext data b of (b', r) \<Rightarrow> if r = Panic then Panic else Ok b')"
| "buf_step ext drn trn (Drain n) b = drn n b"
| "buf_step ext drn trn (Truncate n) b = trn n b"

fun buf_run ::
  "(bytes \<Rightarrow> 'b \<Rightarrow> 'b \<times> unit res) \<Rightarrow> (nat \<Rightarrow> 'b \<Rightarrow> 'b res) \<Rightarrow> (nat \<Rightarrow> 'b \<Rightarrow> 'b res) \<Rightarrow> buf_op list \<Rightarrow> 'b \<Rightarrow> 'b res" where
  "buf_run ext drn trn [] b = Ok b"
| "buf_run ext drn trn (p # ps) b = res_bind (buf_step ext drn trn p b) (\<lambda>b. buf_run ext drn trn ps b)"

text \<open>A drain asks for no more than there is.\<close>

fun ops_ok :: "nat \<Rightarrow> buf_op list \<Rightarrow> bytes \<times> bytes \<Rightarrow> bool" where
  "ops_ok N [] q \<longleftrightarrow> True"
| "ops_ok N (p # ps) q \<longleftrightarrow> (case p of Drain n \<Rightarrow> n \<le> length (fst q) | _ \<Rightarrow> True) \<and> ops_ok N ps (queue_step N p q)"

locale byte_queue =
  fixes N :: nat
    and inv :: "'b \<Rightarrow> bool"
    and view :: "'b \<Rightarrow> bytes \<times> bytes"
    and ext :: "bytes \<Rightarrow> 'b \<Rightarrow> 'b \<times> unit res"
    and drn :: "nat \<Rightarrow> 'b \<Rightarrow> 'b res"
    and trn :: "nat \<Rightarrow> 'b \<Rightarrow> 'b res"
  assumes extend_room: "inv b \<Longrightarrow> view b = (v, h) \<Longrightarrow> length v + length h + length data \<le> N \<Longrightarrow>
      \<exists>b'. ext data b = (b', Ok ()) \<and> inv b' \<and> view b' = (v @ data, h)"
    and extend_full: "inv b \<Longrightarrow> view b = (v, h) \<Longrightarrow> N < length v + length h + length data \<Longrightarrow>
      ext data b = (b, Err (BufferTooSmall (length v + length data)))"
    and drain: "inv b \<Longrightarrow> view b = (v, h) \<Longrightarrow> n \<le> length v \<Longrightarrow> \<exists>b'. drn n b = Ok b' \<and> inv b' \<and> view b' = (drop n v, h)"
    and truncate: "inv b \<Longrightarrow> view b = (v, h) \<Longrightarrow> \<exists>b'. trn n b = Ok b' \<and> inv b' \<and> view b' = (take n v, h)"
begin

lemma step_refines:
  assumes "inv b" and "ops_ok N [p] (view b)"
  shows "\<exists>b'. buf_step ext drn trn p b = Ok b' \<and> inv b' \<and> view b' = queue_step N p (view b)"
proof -
  obtain v h where q: "view b = (v, h)" by fastforce
  show ?thesis
  proof (cases p)
    case (Extend data)
    then show ?thesis
      using extend_room [OF assms(1) q, of data] extend_full [OF assms(1) q, of data] q assms(1)
      by (cases "length v + length h + length data \<le> N") auto
  next
    case (Drain n)
    then show ?thesis using drain [OF assms(1) q, of n] assms(2) q by simp
  next
    case (Truncate n)
    then show ?thesis using truncate [OF assms(1) q, of n] q by simp
  qed
qed

lemma run_refines:
  assumes "inv b" and "ops_ok N ps (view b)"
  shows "\<exists>b'. buf_run ext drn trn ps b = Ok b' \<and> inv b' \<and> view b' = fold (queue_step N) ps (view b)"
  using assms
proof (induction ps arbitrary: b)
  case (Cons p ps)
  from Cons(3) have "ops_ok N [p] (view b)" by simp
  from step_refines [OF Cons(2) this] obtain b' where
    b': "buf_step ext drn trn p b = Ok b'" "inv b'" "view b' = queue_step N p (view b)" by blast
  with Cons.IH [OF b'(2)] Cons(3) show ?case by simp
qed simp

text \<open>The parked tail survives whatever happens in front of it.\<close>

lemma tail_kept: "snd (fold (queue_step N) ps q) = snd q"
proof (induction ps arbitrary: q)
  case (Cons p ps)
  have "snd (queue_step N p q) = snd q" by (cases q; cases p) auto
  with Cons show ?case by simp
qed simp

end

section \<open>Both storages implement it\<close>

definition contents :: "buf \<Rightarrow> bytes" where
  "contents b = (case storage b of Heap v c \<Rightarrow> v | Static mem len \<Rightarrow> take len mem)"

definition buf_view :: "buf \<Rightarrow> bytes \<times> bytes" where
  "buf_view b = (take (buf_len b) (contents b), drop (buf_len b) (contents b))"

definition buf_inv :: "nat \<Rightarrow> buf \<Rightarrow> bool" where
  "buf_inv N b \<longleftrightarrow> hidden b \<le> phys_len b \<and> phys_len b \<le> N \<and>
    (case storage b of Heap v c \<Rightarrow> True | Static mem len \<Rightarrow> N \<le> length mem)"

text \<open>The two forms of a buffer with the visible bytes \<open>v\<close> and the tail \<open>h\<close>.\<close>

definition heap_buf :: "bytes \<Rightarrow> bytes \<Rightarrow> nat \<Rightarrow> buf" where
  "heap_buf v h c = \<lparr>storage = Heap (v @ h) c, hidden = length h\<rparr>"

definition static_buf :: "bytes \<Rightarrow> bytes \<Rightarrow> bytes \<Rightarrow> buf" where
  "static_buf v h u = \<lparr>storage = Static (v @ h @ u) (length v + length h), hidden = length h\<rparr>"

lemma buf_forms:
  "buf_view (heap_buf v h c) = (v, h)" "buf_view (static_buf v h u) = (v, h)"
  "buf_inv N (heap_buf v h c) \<longleftrightarrow> length v + length h \<le> N"
  "buf_inv N (static_buf v h u) \<longleftrightarrow> length v + length h \<le> N \<and> N \<le> length v + length h + length u"
  "buf_len (heap_buf v h c) = length v" "buf_len (static_buf v h u) = length v"
  by (auto simp: buf_view_def buf_inv_def buf_len_def phys_len_def contents_def heap_buf_def static_buf_def)

lemma buf_formsE:
  assumes "buf_inv N b" and "buf_view b = (v, h)"
  obtains (heap) c where "b = heap_buf v h c" and "length v + length h \<le> N"
    | (static) u where "b = static_buf v h u" and "length v + length h \<le> N" and "N \<le> length v + length h + length u"
proof (cases "storage b")
  case (Heap w c)
  then have "w = v @ h" "length h = hidden b"
    using assms by (auto simp: buf_view_def contents_def buf_len_def phys_len_def buf_inv_def)
  then have "b = heap_buf v h c" using Heap by (cases b) (simp add: heap_buf_def)
  then show thesis using heap assms(1) by (simp add: buf_forms)
next
  case (Static mem len)
  have len: "hidden b \<le> len" "len \<le> length mem" using assms(1) Static by (auto simp: buf_inv_def phys_len_def)
  have v: "v = take (len - hidden b) mem" and h: "h = drop (len - hidden b) (take len mem)"
    using assms Static len by (auto simp: buf_view_def contents_def buf_len_def phys_len_def min_def)
  have "mem = v @ h @ drop len mem"
    unfolding v h using len by (metis append.assoc append_take_drop_id diff_le_self min_def take_take)
  moreover have "length v + length h = len" "length h = hidden b" unfolding v h using len by simp_all
  ultimately have "b = static_buf v h (drop len mem)" using Static by (cases b) (simp add: static_buf_def)
  then show thesis using static assms(1) by (simp add: buf_forms)
qed

lemma truncate_heap: "\<exists>c'. buf_truncate n (heap_buf v h c) = Ok (heap_buf (take n v) h c')"
  by (auto simp: buf_truncate_def buf_forms Let_def) (auto simp: heap_buf_def copy_within_def)

lemma truncate_static: "\<exists>u'. buf_truncate n (static_buf v h u) = Ok (static_buf (take n v) h u')
    \<and> length (take n v) + length u' = length v + length u"
proof (cases "length v \<le> n")
  case True
  then show ?thesis by (auto simp: buf_truncate_def buf_forms)
next
  case False
  let ?w = "drop n v @ h @ u"
  have "(if length h > 0 then copy_within (v @ h @ u) (length v) (length v + length h) n else Ok (v @ h @ u))
    = Ok (take n v @ h @ drop (length h) ?w)"
    using False by (auto simp: copy_within_def add.commute)
  then have "buf_truncate n (static_buf v h u) = Ok (static_buf (take n v) h (drop (length h) ?w))"
    using False by (simp add: buf_truncate_def buf_forms Let_def) (simp add: static_buf_def split: if_splits)
  then show ?thesis using False by (intro exI [of _ "drop (length h) ?w"]) simp
qed

lemma truncate_refines:
  assumes "buf_inv N b" and "buf_view b = (v, h)"
  shows "\<exists>b'. buf_truncate n b = Ok b' \<and> buf_inv N b' \<and> buf_view b' = (take n v, h)"
  using assms
proof (cases rule: buf_formsE)
  case (heap c)
  then show ?thesis using truncate_heap [of n v h c] by (auto simp: buf_forms)
next
  case (static u)
  then show ?thesis using truncate_static [of n v h u] by (auto simp: buf_forms)
qed

lemma drain_refines:
  assumes "buf_inv N b" and "buf_view b = (v, h)" and "n \<le> length v"
  shows "\<exists>b'. buf_drain_front n b = Ok b' \<and> buf_inv N b' \<and> buf_view b' = (drop n v, h)"
  using assms(1,2)
proof (cases rule: buf_formsE)
  case (heap c)
  let ?v = "drop n v @ drop (length v - n) v"
  have "buf_drain_front n b = buf_truncate (length v - n) (heap_buf ?v h c)"
    using assms(3) heap by (simp add: buf_drain_front_def buf_forms Let_def) (simp add: heap_buf_def copy_within_def)
  then show ?thesis using truncate_heap [of "length v - n" ?v h c] heap assms(3) by (auto simp: buf_forms)
next
  case (static u)
  let ?v = "drop n v @ drop (length v - n) v"
  have "buf_drain_front n b = buf_truncate (length v - n) (static_buf ?v h u)"
    using assms(3) static by (simp add: buf_drain_front_def buf_forms Let_def) (simp add: static_buf_def copy_within_def)
  then show ?thesis using truncate_static [of "length v - n" ?v h u] static assms(3) by (auto simp: buf_forms)
qed

lemma extend_heap:
  assumes "length v + length h + length data \<le> N" and "\<forall>n \<le> N. al_ok A n"
  shows "\<exists>c'. extend_from_slice A N data (heap_buf v h c) = Ok (Some (heap_buf (v @ data) h c'))"
proof -
  have "\<exists>c'. reserve_clamped A N (length data) (heap_buf v h c) = Ok (heap_buf v h c')"
    using assms by (auto simp: reserve_clamped_def heap_buf_def reserve_exact_def Let_def)
  then obtain c' where "reserve_clamped A N (length data) (heap_buf v h c) = Ok (heap_buf v h c')" ..
  then show ?thesis
    using assms(1)
    by (intro exI [of _ c']) (auto simp: extend_from_slice_def heap_buf_def phys_len_def rotate_left_def Let_def)
qed

lemma extend_static:
  assumes "length v + length h + length data \<le> N" and "N \<le> length v + length h + length u"
  shows "extend_from_slice A N data (static_buf v h u) = Ok (Some (static_buf (v @ data) h (drop (length data) u)))"
proof -
  have "\<exists>m. (if length h > 0 \<and> data \<noteq> [] then copy_within (v @ h @ u) (length v) (length v + length h) (length v + length data)
      else Ok (v @ h @ u)) = Ok (v @ m @ h @ drop (length data) u) \<and> length m = length data"
  proof (cases "h = [] \<or> data = []")
    case True
    then show ?thesis using assms by (intro exI [of _ "take (length data) u"]) auto
  next
    case False
    then show ?thesis
      using assms by (intro exI [of _ "take (length data) (h @ u)"]) (simp add: copy_within_def add.commute add.left_commute)
  qed
  then obtain m where "(if length h > 0 \<and> data \<noteq> []
      then copy_within (v @ h @ u) (length v) (length v + length h) (length v + length data)
      else Ok (v @ h @ u)) = Ok (v @ m @ h @ drop (length data) u)" and "length m = length data" by blast
  then show ?thesis
    using assms by (auto simp: extend_from_slice_def static_buf_def Let_def split: if_splits)
qed

lemma extend_refines:
  assumes "buf_inv N b" and "buf_view b = (v, h)" and "length v + length h + length data \<le> N" and "\<forall>n \<le> N. al_ok A n"
  shows "\<exists>b'. buf_extend_from_slice A N data b = (b', Ok ()) \<and> buf_inv N b' \<and> buf_view b' = (v @ data, h)"
  using assms(1,2)
proof (cases rule: buf_formsE)
  case (heap c)
  then show ?thesis
    using extend_heap [OF assms(3,4), of c] assms(3) by (auto simp: buf_extend_from_slice_def buf_forms)
next
  case (static u)
  then show ?thesis
    using extend_static [OF assms(3) static(3), of A] assms(3) by (auto simp: buf_extend_from_slice_def buf_forms)
qed

lemma extend_full_refines:
  assumes "buf_inv N b" and "buf_view b = (v, h)" and "N < length v + length h + length data"
  shows "buf_extend_from_slice A N data b = (b, Err (BufferTooSmall (length v + length data)))"
  using assms(1,2)
proof (cases rule: buf_formsE)
  case (heap c)
  then show ?thesis
    using assms(3) by (simp add: buf_extend_from_slice_def buf_forms)
      (simp add: extend_from_slice_def heap_buf_def phys_len_def Let_def)
next
  case (static u)
  then show ?thesis
    using assms(3) by (simp add: buf_extend_from_slice_def buf_forms) (simp add: extend_from_slice_def static_buf_def Let_def)
qed

text \<open>The contract of the hidden tail on top of the queue.\<close>

locale byte_buffer = byte_queue N inv view ext drn trn
  for N inv and view :: "'b \<Rightarrow> bytes \<times> bytes" and ext drn trn +
  fixes hide :: "nat \<Rightarrow> 'b \<Rightarrow> 'b res" and unhide :: "'b \<Rightarrow> 'b \<times> nat"
  assumes hide_view: "inv b \<Longrightarrow> view b = (v, h) \<Longrightarrow> n \<le> length v \<Longrightarrow>
      \<exists>b'. hide n b = Ok b' \<and> inv b' \<and> view b' = (take (length v - n) v, drop (length v - n) v @ h)"
    and unhide_view: "inv b \<Longrightarrow> view b = (v, h) \<Longrightarrow> inv (fst (unhide b)) \<and> view (fst (unhide b)) = (v @ h, []) \<and>
      snd (unhide b) = length h"
begin

text \<open>
  Parking the last \<open>n\<close> bytes, working on what is in front of them and revealing them again leaves the
  result of that work followed by the parked bytes.
\<close>

lemma park_work_reveal:
  assumes "inv b" and "view b = (v, [])" and "n \<le> length v"
    and "ops_ok N ps (take (length v - n) v, drop (length v - n) v)"
  shows "\<exists>b1 b2. hide n b = Ok b1 \<and> buf_run ext drn trn ps b1 = Ok b2 \<and>
    view (fst (unhide b2)) =
      (fst (fold (queue_step N) ps (take (length v - n) v, drop (length v - n) v)) @ drop (length v - n) v, []) \<and>
    snd (unhide b2) = n"
proof -
  let ?q = "(take (length v - n) v, drop (length v - n) v)"
  from hide_view [OF assms(1-3)] obtain b1 where b1: "hide n b = Ok b1" "inv b1" "view b1 = ?q" by auto
  from run_refines [OF b1(2)] assms(4) b1(3) obtain b2 where
    b2: "buf_run ext drn trn ps b1 = Ok b2" "inv b2" "view b2 = fold (queue_step N) ps ?q" by auto
  moreover have "snd (fold (queue_step N) ps ?q) = drop (length v - n) v" by (simp add: tail_kept)
  ultimately obtain w where "view b2 = (w, drop (length v - n) v)" "w = fst (fold (queue_step N) ps ?q)"
    by (cases "fold (queue_step N) ps ?q") auto
  with unhide_view [OF b2(2)] b1(1) b2(1) assms(3) show ?thesis by auto
qed

end

lemma hide_refines:
  assumes "buf_inv N b" and "buf_view b = (v, h)" and "n \<le> length v"
  shows "\<exists>b'. hide_tail n b = Ok b' \<and> buf_inv N b' \<and> buf_view b' = (take (length v - n) v, drop (length v - n) v @ h)"
  using assms(1,2)
proof (cases rule: buf_formsE)
  case (heap c)
  then have "hide_tail n b = Ok (heap_buf (take (length v - n) v) (drop (length v - n) v @ h) c)"
    using assms(3) by (simp add: hide_tail_def buf_forms) (simp add: heap_buf_def flip: append_assoc)
  then show ?thesis using heap assms(3) by (simp add: buf_forms)
next
  case (static u)
  then have "hide_tail n b = Ok (static_buf (take (length v - n) v) (drop (length v - n) v @ h) u)"
    using assms(3) by (simp add: hide_tail_def buf_forms) (simp add: static_buf_def flip: append_assoc)
  then show ?thesis using static assms(3) by (simp add: buf_forms)
qed

lemma unhide_refines:
  assumes "buf_inv N b" and "buf_view b = (v, h)"
  shows "buf_inv N (fst (unhide_tail b)) \<and> buf_view (fst (unhide_tail b)) = (v @ h, []) \<and> snd (unhide_tail b) = length h"
  using assms
proof (cases rule: buf_formsE)
  case (heap c)
  then have "unhide_tail b = (heap_buf (v @ h) [] c, length h)" by (simp add: unhide_tail_def heap_buf_def)
  then show ?thesis using heap by (simp add: buf_forms)
next
  case (static u)
  then have "unhide_tail b = (static_buf (v @ h) [] u, length h)" by (simp add: unhide_tail_def static_buf_def)
  then show ?thesis using static by (simp add: buf_forms)
qed

text \<open>An allocator that satisfies every request up to the bound of the buffers.\<close>

definition heap_ok :: "allocator \<Rightarrow> nat \<Rightarrow> bool" where
  "heap_ok A N \<longleftrightarrow> (\<forall>n \<le> N. al_ok A n)"

definition full_heap :: allocator where
  "full_heap = \<lparr>al_ok = \<lambda>_. True, al_cap = \<lambda>n. n\<rparr>"

interpretation alloc_buf: byte_buffer N "\<lambda>b. buf_inv N b \<and> heap_ok A N" buf_view "buf_extend_from_slice A N"
    buf_drain_front buf_truncate hide_tail unhide_tail
proof unfold_locales
  fix b v h data assume b: "buf_inv N b \<and> heap_ok A N" and v: "buf_view b = (v, h)"
  show "\<exists>b'. buf_extend_from_slice A N data b = (b', Ok ()) \<and> (buf_inv N b' \<and> heap_ok A N) \<and> buf_view b' = (v @ data, h)"
    if "length v + length h + length data \<le> N"
    using extend_refines [of N b v h data A] b v that by (auto simp: heap_ok_def)
  show "buf_extend_from_slice A N data b = (b, Err (BufferTooSmall (length v + length data)))"
    if "N < length v + length h + length data"
    using extend_full_refines [of N b v h data A] b v that by simp
  show "\<exists>b'. buf_drain_front n b = Ok b' \<and> (buf_inv N b' \<and> heap_ok A N) \<and> buf_view b' = (drop n v, h)"
    if "n \<le> length v" for n
    using drain_refines [of N b v h n] b v that by auto
  show "\<exists>b'. buf_truncate n b = Ok b' \<and> (buf_inv N b' \<and> heap_ok A N) \<and> buf_view b' = (take n v, h)" for n
    using truncate_refines [of N b v h n] b v by auto
  show "\<exists>b'. hide_tail n b = Ok b' \<and> (buf_inv N b' \<and> heap_ok A N) \<and>
      buf_view b' = (take (length v - n) v, drop (length v - n) v @ h)" if "n \<le> length v" for n
    using hide_refines [of N b v h n] b v that by auto
  show "(buf_inv N (fst (unhide_tail b)) \<and> heap_ok A N) \<and> buf_view (fst (unhide_tail b)) = (v @ h, []) \<and>
      snd (unhide_tail b) = length h"
    using unhide_refines [of N b v h] b v by simp
qed

interpretation heapless_vec: byte_queue N "\<lambda>v. length v \<le> N" "\<lambda>v. (v, [])" "hv_extend_from_slice N" hv_drain_front hv_truncate
  by unfold_locales (auto simp: hv_extend_from_slice_def hv_drain_front_def hv_truncate_def copy_within_def)

lemma as_slice_view: "buf_inv N b \<Longrightarrow> as_slice b = fst (buf_view b)"
  by (cases "storage b")
     (auto simp: as_slice_def buf_view_def contents_def buf_len_def phys_len_def buf_inv_def min_def)

text \<open>
  C30: A buffer is a bounded queue in front of a parked tail, over either storage: hiding the last
  \<open>n\<close> bytes, then appending, draining and truncating in any order, and revealing the tail again
  gives exactly the bytes the queue of these operations holds, followed by the hidden bytes; appends
  that would exceed the capacity, the tail included, are refused and change nothing.
\<close>

theorem parked_tail_survives:
  assumes "heap_ok A N" and "buf_inv N b" and "buf_view b = (v, [])" and "n \<le> length v"
    and "ops_ok N ps (take (length v - n) v, drop (length v - n) v)"
  shows "\<exists>b1 b2. hide_tail n b = Ok b1 \<and>
    buf_run (buf_extend_from_slice A N) buf_drain_front buf_truncate ps b1 = Ok b2 \<and>
    buf_view (fst (unhide_tail b2)) =
      (fst (fold (queue_step N) ps (take (length v - n) v, drop (length v - n) v)) @ drop (length v - n) v, []) \<and>
    snd (unhide_tail b2) = n"
  using alloc_buf.park_work_reveal [of N b A v n ps] assms by simp

theorem parked_tail_survives_witness:
  "\<exists>b1 b2. hide_tail 2 (static_buf [1, 2, 3, 4] [] [0, 0, 0, 0]) = Ok b1 \<and>
    buf_run (buf_extend_from_slice full_heap 6) buf_drain_front buf_truncate [Drain 1, Extend [7, 8], Extend [9, 9]] b1 = Ok b2 \<and>
    buf_view (fst (unhide_tail b2)) = ([2, 7, 8, 3, 4], []) \<and> snd (unhide_tail b2) = 2"
proof -
  have "heap_ok full_heap 6" by (simp add: heap_ok_def full_heap_def)
  then show ?thesis
    using parked_tail_survives [of full_heap 6 "static_buf [1, 2, 3, 4] [] [0, 0, 0, 0]" "[1, 2, 3, 4]" 2
      "[Drain 1, Extend [7, 8], Extend [9, 9]]"] by (simp add: buf_forms)
qed

end
