(* ===== verification/Huff_Table.thy ===== *)
theory Huff_Table
  imports Milli_Prelude
begin

text \<open>
  The table of the Huffman code of HPACK and QPACK (\<^verbatim>\<open>src/hpack/huffman.rs\<close>, RFC 7541 appendix B), in
  pieces of sixteen entries, the decoding tables derived from it, and the facts about them that the
  proofs about the coder use.
\<close>

section \<open>The code\<close>

datatype huff_sym = HuffSym (hs_bits: nat) (hs_len: nat)

definition huff_0 :: "huff_sym list" where
  "huff_0 = [
    HuffSym 0x1ff8 13, HuffSym 0x7fffd8 23, HuffSym 0xfffffe2 28, HuffSym 0xfffffe3 28,
    HuffSym 0xfffffe4 28, HuffSym 0xfffffe5 28, HuffSym 0xfffffe6 28, HuffSym 0xfffffe7 28,
    HuffSym 0xfffffe8 28, HuffSym 0xffffea 24, HuffSym 0x3ffffffc 30, HuffSym 0xfffffe9 28,
    HuffSym 0xfffffea 28, HuffSym 0x3ffffffd 30, HuffSym 0xfffffeb 28, HuffSym 0xfffffec 28]"

definition huff_1 :: "huff_sym list" where
  "huff_1 = [
    HuffSym 0xfffffed 28, HuffSym 0xfffffee 28, HuffSym 0xfffffef 28, HuffSym 0xffffff0 28,
    HuffSym 0xffffff1 28, HuffSym 0xffffff2 28, HuffSym 0x3ffffffe 30, HuffSym 0xffffff3 28,
    HuffSym 0xffffff4 28, HuffSym 0xffffff5 28, HuffSym 0xffffff6 28, HuffSym 0xffffff7 28,
    HuffSym 0xffffff8 28, HuffSym 0xffffff9 28, HuffSym 0xffffffa 28, HuffSym 0xffffffb 28]"

definition huff_2 :: "huff_sym list" where
  "huff_2 = [
    HuffSym 0x14 6, HuffSym 0x3f8 10, HuffSym 0x3f9 10, HuffSym 0xffa 12, HuffSym 0x1ff9 13,
    HuffSym 0x15 6, HuffSym 0xf8 8, HuffSym 0x7fa 11, HuffSym 0x3fa 10, HuffSym 0x3fb 10,
    HuffSym 0xf9 8, HuffSym 0x7fb 11, HuffSym 0xfa 8, HuffSym 0x16 6, HuffSym 0x17 6, HuffSym 0x18 6]"

definition huff_3 :: "huff_sym list" where
  "huff_3 = [
    HuffSym 0x0 5, HuffSym 0x1 5, HuffSym 0x2 5, HuffSym 0x19 6, HuffSym 0x1a 6, HuffSym 0x1b 6,
    HuffSym 0x1c 6, HuffSym 0x1d 6, HuffSym 0x1e 6, HuffSym 0x1f 6, HuffSym 0x5c 7, HuffSym 0xfb 8,
    HuffSym 0x7ffc 15, HuffSym 0x20 6, HuffSym 0xffb 12, HuffSym 0x3fc 10]"

definition huff_4 :: "huff_sym list" where
  "huff_4 = [
    HuffSym 0x1ffa 13, HuffSym 0x21 6, HuffSym 0x5d 7, HuffSym 0x5e 7, HuffSym 0x5f 7,
    HuffSym 0x60 7, HuffSym 0x61 7, HuffSym 0x62 7, HuffSym 0x63 7, HuffSym 0x64 7, HuffSym 0x65 7,
    HuffSym 0x66 7, HuffSym 0x67 7, HuffSym 0x68 7, HuffSym 0x69 7, HuffSym 0x6a 7]"

definition huff_5 :: "huff_sym list" where
  "huff_5 = [
    HuffSym 0x6b 7, HuffSym 0x6c 7, HuffSym 0x6d 7, HuffSym 0x6e 7, HuffSym 0x6f 7, HuffSym 0x70 7,
    HuffSym 0x71 7, HuffSym 0x72 7, HuffSym 0xfc 8, HuffSym 0x73 7, HuffSym 0xfd 8,
    HuffSym 0x1ffb 13, HuffSym 0x7fff0 19, HuffSym 0x1ffc 13, HuffSym 0x3ffc 14, HuffSym 0x22 6]"

definition huff_6 :: "huff_sym list" where
  "huff_6 = [
    HuffSym 0x7ffd 15, HuffSym 0x3 5, HuffSym 0x23 6, HuffSym 0x4 5, HuffSym 0x24 6, HuffSym 0x5 5,
    HuffSym 0x25 6, HuffSym 0x26 6, HuffSym 0x27 6, HuffSym 0x6 5, HuffSym 0x74 7, HuffSym 0x75 7,
    HuffSym 0x28 6, HuffSym 0x29 6, HuffSym 0x2a 6, HuffSym 0x7 5]"

definition huff_7 :: "huff_sym list" where
  "huff_7 = [
    HuffSym 0x2b 6, HuffSym 0x76 7, HuffSym 0x2c 6, HuffSym 0x8 5, HuffSym 0x9 5, HuffSym 0x2d 6,
    HuffSym 0x77 7, HuffSym 0x78 7, HuffSym 0x79 7, HuffSym 0x7a 7, HuffSym 0x7b 7,
    HuffSym 0x7ffe 15, HuffSym 0x7fc 11, HuffSym 0x3ffd 14, HuffSym 0x1ffd 13, HuffSym 0xffffffc 28]"

definition huff_8 :: "huff_sym list" where
  "huff_8 = [
    HuffSym 0xfffe6 20, HuffSym 0x3fffd2 22, HuffSym 0xfffe7 20, HuffSym 0xfffe8 20,
    HuffSym 0x3fffd3 22, HuffSym 0x3fffd4 22, HuffSym 0x3fffd5 22, HuffSym 0x7fffd9 23,
    HuffSym 0x3fffd6 22, HuffSym 0x7fffda 23, HuffSym 0x7fffdb 23, HuffSym 0x7fffdc 23,
    HuffSym 0x7fffdd 23, HuffSym 0x7fffde 23, HuffSym 0xffffeb 24, HuffSym 0x7fffdf 23]"

definition huff_9 :: "huff_sym list" where
  "huff_9 = [
    HuffSym 0xffffec 24, HuffSym 0xffffed 24, HuffSym 0x3fffd7 22, HuffSym 0x7fffe0 23,
    HuffSym 0xffffee 24, HuffSym 0x7fffe1 23, HuffSym 0x7fffe2 23, HuffSym 0x7fffe3 23,
    HuffSym 0x7fffe4 23, HuffSym 0x1fffdc 21, HuffSym 0x3fffd8 22, HuffSym 0x7fffe5 23,
    HuffSym 0x3fffd9 22, HuffSym 0x7fffe6 23, HuffSym 0x7fffe7 23, HuffSym 0xffffef 24]"

definition huff_10 :: "huff_sym list" where
  "huff_10 = [
    HuffSym 0x3fffda 22, HuffSym 0x1fffdd 21, HuffSym 0xfffe9 20, HuffSym 0x3fffdb 22,
    HuffSym 0x3fffdc 22, HuffSym 0x7fffe8 23, HuffSym 0x7fffe9 23, HuffSym 0x1fffde 21,
    HuffSym 0x7fffea 23, HuffSym 0x3fffdd 22, HuffSym 0x3fffde 22, HuffSym 0xfffff0 24,
    HuffSym 0x1fffdf 21, HuffSym 0x3fffdf 22, HuffSym 0x7fffeb 23, HuffSym 0x7fffec 23]"

definition huff_11 :: "huff_sym list" where
  "huff_11 = [
    HuffSym 0x1fffe0 21, HuffSym 0x1fffe1 21, HuffSym 0x3fffe0 22, HuffSym 0x1fffe2 21,
    HuffSym 0x7fffed 23, HuffSym 0x3fffe1 22, HuffSym 0x7fffee 23, HuffSym 0x7fffef 23,
    HuffSym 0xfffea 20, HuffSym 0x3fffe2 22, HuffSym 0x3fffe3 22, HuffSym 0x3fffe4 22,
    HuffSym 0x7ffff0 23, HuffSym 0x3fffe5 22, HuffSym 0x3fffe6 22, HuffSym 0x7ffff1 23]"

definition huff_12 :: "huff_sym list" where
  "huff_12 = [
    HuffSym 0x3ffffe0 26, HuffSym 0x3ffffe1 26, HuffSym 0xfffeb 20, HuffSym 0x7fff1 19,
    HuffSym 0x3fffe7 22, HuffSym 0x7ffff2 23, HuffSym 0x3fffe8 22, HuffSym 0x1ffffec 25,
    HuffSym 0x3ffffe2 26, HuffSym 0x3ffffe3 26, HuffSym 0x3ffffe4 26, HuffSym 0x7ffffde 27,
    HuffSym 0x7ffffdf 27, HuffSym 0x3ffffe5 26, HuffSym 0xfffff1 24, HuffSym 0x1ffffed 25]"

definition huff_13 :: "huff_sym list" where
  "huff_13 = [
    HuffSym 0x7fff2 19, HuffSym 0x1fffe3 21, HuffSym 0x3ffffe6 26, HuffSym 0x7ffffe0 27,
    HuffSym 0x7ffffe1 27, HuffSym 0x3ffffe7 26, HuffSym 0x7ffffe2 27, HuffSym 0xfffff2 24,
    HuffSym 0x1fffe4 21, HuffSym 0x1fffe5 21, HuffSym 0x3ffffe8 26, HuffSym 0x3ffffe9 26,
    HuffSym 0xffffffd 28, HuffSym 0x7ffffe3 27, HuffSym 0x7ffffe4 27, HuffSym 0x7ffffe5 27]"

definition huff_14 :: "huff_sym list" where
  "huff_14 = [
    HuffSym 0xfffec 20, HuffSym 0xfffff3 24, HuffSym 0xfffed 20, HuffSym 0x1fffe6 21,
    HuffSym 0x3fffe9 22, HuffSym 0x1fffe7 21, HuffSym 0x1fffe8 21, HuffSym 0x7ffff3 23,
    HuffSym 0x3fffea 22, HuffSym 0x3fffeb 22, HuffSym 0x1ffffee 25, HuffSym 0x1ffffef 25,
    HuffSym 0xfffff4 24, HuffSym 0xfffff5 24, HuffSym 0x3ffffea 26, HuffSym 0x7ffff4 23]"

definition huff_15 :: "huff_sym list" where
  "huff_15 = [
    HuffSym 0x3ffffeb 26, HuffSym 0x7ffffe6 27, HuffSym 0x3ffffec 26, HuffSym 0x3ffffed 26,
    HuffSym 0x7ffffe7 27, HuffSym 0x7ffffe8 27, HuffSym 0x7ffffe9 27, HuffSym 0x7ffffea 27,
    HuffSym 0x7ffffeb 27, HuffSym 0xffffffe 28, HuffSym 0x7ffffec 27, HuffSym 0x7ffffed 27,
    HuffSym 0x7ffffee 27, HuffSym 0x7ffffef 27, HuffSym 0x7fffff0 27, HuffSym 0x3ffffee 26]"

definition huff_16 :: "huff_sym list" where
  "huff_16 = [
    HuffSym 0x3fffffff 30]"

definition HUFF_TABLE :: "huff_sym list" where
  "HUFF_TABLE = huff_0 @ huff_1 @ huff_2 @ huff_3 @ huff_4 @ huff_5 @ huff_6 @ huff_7 @ huff_8 @
    huff_9 @ huff_10 @ huff_11 @ huff_12 @ huff_13 @ huff_14 @ huff_15 @ huff_16"

definition LEN_COUNT :: "nat list" where
  "LEN_COUNT = map (\<lambda>len. length (filter (\<lambda>e. hs_len e = len) HUFF_TABLE)) [0..<31]"

text \<open>The loop that builds \<^verbatim>\<open>SYMBOLS\<close>: for every length and every code of it, the first symbol that has it.\<close>

function symbols_from :: "nat \<Rightarrow> nat \<Rightarrow> nat list" where
  "symbols_from len code =
    (if len \<le> 30 then
       let count = LEN_COUNT ! len
       in List.map_filter (\<lambda>c. position (\<lambda>e. hs_len e = len \<and> hs_bits e = code + c) HUFF_TABLE) [0..<count]
          @ symbols_from (len + 1) (2 * (code + count))
     else [])"
  by pat_completeness auto
termination
  by (relation "measure (\<lambda>(len, code). 31 - len)") auto

declare symbols_from.simps [simp del]

definition SYMBOLS :: "nat list" where
  "SYMBOLS = symbols_from 1 0 @ replicate (257 - length (symbols_from 1 0)) 0"

section \<open>The table\<close>

text \<open>
  The facts about the 257 entries that the proofs use, computed from the table: the entries of every
  length, hence their counts, the first code of every length, that every entry lies in the range of
  its length and that no entry occurs twice.
\<close>

lemmas huff_defs = huff_0_def huff_1_def huff_2_def huff_3_def huff_4_def huff_5_def huff_6_def huff_7_def huff_8_def 
  huff_9_def huff_10_def huff_11_def huff_12_def huff_13_def huff_14_def huff_15_def huff_16_def

lemma huff_by_len:
  "filter (\<lambda>e. hs_len e = 5) HUFF_TABLE = [
    HuffSym 0x0 5, HuffSym 0x1 5, HuffSym 0x2 5, HuffSym 0x3 5, HuffSym 0x4 5, HuffSym 0x5 5,
    HuffSym 0x6 5, HuffSym 0x7 5, HuffSym 0x8 5, HuffSym 0x9 5]"
  "filter (\<lambda>e. hs_len e = 6) HUFF_TABLE = [
    HuffSym 0x14 6, HuffSym 0x15 6, HuffSym 0x16 6, HuffSym 0x17 6, HuffSym 0x18 6, HuffSym 0x19 6,
    HuffSym 0x1a 6, HuffSym 0x1b 6, HuffSym 0x1c 6, HuffSym 0x1d 6, HuffSym 0x1e 6, HuffSym 0x1f 6,
    HuffSym 0x20 6, HuffSym 0x21 6, HuffSym 0x22 6, HuffSym 0x23 6, HuffSym 0x24 6, HuffSym 0x25 6,
    HuffSym 0x26 6, HuffSym 0x27 6, HuffSym 0x28 6, HuffSym 0x29 6, HuffSym 0x2a 6, HuffSym 0x2b 6,
    HuffSym 0x2c 6, HuffSym 0x2d 6]"
  "filter (\<lambda>e. hs_len e = 7) HUFF_TABLE = [
    HuffSym 0x5c 7, HuffSym 0x5d 7, HuffSym 0x5e 7, HuffSym 0x5f 7, HuffSym 0x60 7, HuffSym 0x61 7,
    HuffSym 0x62 7, HuffSym 0x63 7, HuffSym 0x64 7, HuffSym 0x65 7, HuffSym 0x66 7, HuffSym 0x67 7,
    HuffSym 0x68 7, HuffSym 0x69 7, HuffSym 0x6a 7, HuffSym 0x6b 7, HuffSym 0x6c 7, HuffSym 0x6d 7,
    HuffSym 0x6e 7, HuffSym 0x6f 7, HuffSym 0x70 7, HuffSym 0x71 7, HuffSym 0x72 7, HuffSym 0x73 7,
    HuffSym 0x74 7, HuffSym 0x75 7, HuffSym 0x76 7, HuffSym 0x77 7, HuffSym 0x78 7, HuffSym 0x79 7,
    HuffSym 0x7a 7, HuffSym 0x7b 7]"
  "filter (\<lambda>e. hs_len e = 8) HUFF_TABLE = [
    HuffSym 0xf8 8, HuffSym 0xf9 8, HuffSym 0xfa 8, HuffSym 0xfb 8, HuffSym 0xfc 8, HuffSym 0xfd 8]"
  "filter (\<lambda>e. hs_len e = 10) HUFF_TABLE = [
    HuffSym 0x3f8 10, HuffSym 0x3f9 10, HuffSym 0x3fa 10, HuffSym 0x3fb 10, HuffSym 0x3fc 10]"
  "filter (\<lambda>e. hs_len e = 11) HUFF_TABLE = [
    HuffSym 0x7fa 11, HuffSym 0x7fb 11, HuffSym 0x7fc 11]"
  "filter (\<lambda>e. hs_len e = 12) HUFF_TABLE = [
    HuffSym 0xffa 12, HuffSym 0xffb 12]"
  "filter (\<lambda>e. hs_len e = 13) HUFF_TABLE = [
    HuffSym 0x1ff8 13, HuffSym 0x1ff9 13, HuffSym 0x1ffa 13, HuffSym 0x1ffb 13, HuffSym 0x1ffc 13,
    HuffSym 0x1ffd 13]"
  "filter (\<lambda>e. hs_len e = 14) HUFF_TABLE = [
    HuffSym 0x3ffc 14, HuffSym 0x3ffd 14]"
  "filter (\<lambda>e. hs_len e = 15) HUFF_TABLE = [
    HuffSym 0x7ffc 15, HuffSym 0x7ffd 15, HuffSym 0x7ffe 15]"
  "filter (\<lambda>e. hs_len e = 19) HUFF_TABLE = [
    HuffSym 0x7fff0 19, HuffSym 0x7fff1 19, HuffSym 0x7fff2 19]"
  "filter (\<lambda>e. hs_len e = 20) HUFF_TABLE = [
    HuffSym 0xfffe6 20, HuffSym 0xfffe7 20, HuffSym 0xfffe8 20, HuffSym 0xfffe9 20,
    HuffSym 0xfffea 20, HuffSym 0xfffeb 20, HuffSym 0xfffec 20, HuffSym 0xfffed 20]"
  "filter (\<lambda>e. hs_len e = 21) HUFF_TABLE = [
    HuffSym 0x1fffdc 21, HuffSym 0x1fffdd 21, HuffSym 0x1fffde 21, HuffSym 0x1fffdf 21,
    HuffSym 0x1fffe0 21, HuffSym 0x1fffe1 21, HuffSym 0x1fffe2 21, HuffSym 0x1fffe3 21,
    HuffSym 0x1fffe4 21, HuffSym 0x1fffe5 21, HuffSym 0x1fffe6 21, HuffSym 0x1fffe7 21,
    HuffSym 0x1fffe8 21]"
  "filter (\<lambda>e. hs_len e = 22) HUFF_TABLE = [
    HuffSym 0x3fffd2 22, HuffSym 0x3fffd3 22, HuffSym 0x3fffd4 22, HuffSym 0x3fffd5 22,
    HuffSym 0x3fffd6 22, HuffSym 0x3fffd7 22, HuffSym 0x3fffd8 22, HuffSym 0x3fffd9 22,
    HuffSym 0x3fffda 22, HuffSym 0x3fffdb 22, HuffSym 0x3fffdc 22, HuffSym 0x3fffdd 22,
    HuffSym 0x3fffde 22, HuffSym 0x3fffdf 22, HuffSym 0x3fffe0 22, HuffSym 0x3fffe1 22,
    HuffSym 0x3fffe2 22, HuffSym 0x3fffe3 22, HuffSym 0x3fffe4 22, HuffSym 0x3fffe5 22,
    HuffSym 0x3fffe6 22, HuffSym 0x3fffe7 22, HuffSym 0x3fffe8 22, HuffSym 0x3fffe9 22,
    HuffSym 0x3fffea 22, HuffSym 0x3fffeb 22]"
  "filter (\<lambda>e. hs_len e = 23) HUFF_TABLE = [
    HuffSym 0x7fffd8 23, HuffSym 0x7fffd9 23, HuffSym 0x7fffda 23, HuffSym 0x7fffdb 23,
    HuffSym 0x7fffdc 23, HuffSym 0x7fffdd 23, HuffSym 0x7fffde 23, HuffSym 0x7fffdf 23,
    HuffSym 0x7fffe0 23, HuffSym 0x7fffe1 23, HuffSym 0x7fffe2 23, HuffSym 0x7fffe3 23,
    HuffSym 0x7fffe4 23, HuffSym 0x7fffe5 23, HuffSym 0x7fffe6 23, HuffSym 0x7fffe7 23,
    HuffSym 0x7fffe8 23, HuffSym 0x7fffe9 23, HuffSym 0x7fffea 23, HuffSym 0x7fffeb 23,
    HuffSym 0x7fffec 23, HuffSym 0x7fffed 23, HuffSym 0x7fffee 23, HuffSym 0x7fffef 23,
    HuffSym 0x7ffff0 23, HuffSym 0x7ffff1 23, HuffSym 0x7ffff2 23, HuffSym 0x7ffff3 23,
    HuffSym 0x7ffff4 23]"
  "filter (\<lambda>e. hs_len e = 24) HUFF_TABLE = [
    HuffSym 0xffffea 24, HuffSym 0xffffeb 24, HuffSym 0xffffec 24, HuffSym 0xffffed 24,
    HuffSym 0xffffee 24, HuffSym 0xffffef 24, HuffSym 0xfffff0 24, HuffSym 0xfffff1 24,
    HuffSym 0xfffff2 24, HuffSym 0xfffff3 24, HuffSym 0xfffff4 24, HuffSym 0xfffff5 24]"
  "filter (\<lambda>e. hs_len e = 25) HUFF_TABLE = [
    HuffSym 0x1ffffec 25, HuffSym 0x1ffffed 25, HuffSym 0x1ffffee 25, HuffSym 0x1ffffef 25]"
  "filter (\<lambda>e. hs_len e = 26) HUFF_TABLE = [
    HuffSym 0x3ffffe0 26, HuffSym 0x3ffffe1 26, HuffSym 0x3ffffe2 26, HuffSym 0x3ffffe3 26,
    HuffSym 0x3ffffe4 26, HuffSym 0x3ffffe5 26, HuffSym 0x3ffffe6 26, HuffSym 0x3ffffe7 26,
    HuffSym 0x3ffffe8 26, HuffSym 0x3ffffe9 26, HuffSym 0x3ffffea 26, HuffSym 0x3ffffeb 26,
    HuffSym 0x3ffffec 26, HuffSym 0x3ffffed 26, HuffSym 0x3ffffee 26]"
  "filter (\<lambda>e. hs_len e = 27) HUFF_TABLE = [
    HuffSym 0x7ffffde 27, HuffSym 0x7ffffdf 27, HuffSym 0x7ffffe0 27, HuffSym 0x7ffffe1 27,
    HuffSym 0x7ffffe2 27, HuffSym 0x7ffffe3 27, HuffSym 0x7ffffe4 27, HuffSym 0x7ffffe5 27,
    HuffSym 0x7ffffe6 27, HuffSym 0x7ffffe7 27, HuffSym 0x7ffffe8 27, HuffSym 0x7ffffe9 27,
    HuffSym 0x7ffffea 27, HuffSym 0x7ffffeb 27, HuffSym 0x7ffffec 27, HuffSym 0x7ffffed 27,
    HuffSym 0x7ffffee 27, HuffSym 0x7ffffef 27, HuffSym 0x7fffff0 27]"
  "filter (\<lambda>e. hs_len e = 28) HUFF_TABLE = [
    HuffSym 0xfffffe2 28, HuffSym 0xfffffe3 28, HuffSym 0xfffffe4 28, HuffSym 0xfffffe5 28,
    HuffSym 0xfffffe6 28, HuffSym 0xfffffe7 28, HuffSym 0xfffffe8 28, HuffSym 0xfffffe9 28,
    HuffSym 0xfffffea 28, HuffSym 0xfffffeb 28, HuffSym 0xfffffec 28, HuffSym 0xfffffed 28,
    HuffSym 0xfffffee 28, HuffSym 0xfffffef 28, HuffSym 0xffffff0 28, HuffSym 0xffffff1 28,
    HuffSym 0xffffff2 28, HuffSym 0xffffff3 28, HuffSym 0xffffff4 28, HuffSym 0xffffff5 28,
    HuffSym 0xffffff6 28, HuffSym 0xffffff7 28, HuffSym 0xffffff8 28, HuffSym 0xffffff9 28,
    HuffSym 0xffffffa 28, HuffSym 0xffffffb 28, HuffSym 0xffffffc 28, HuffSym 0xffffffd 28,
    HuffSym 0xffffffe 28]"
  "filter (\<lambda>e. hs_len e = 30) HUFF_TABLE = [
    HuffSym 0x3ffffffc 30, HuffSym 0x3ffffffd 30, HuffSym 0x3ffffffe 30, HuffSym 0x3fffffff 30]"
  by (simp_all add: HUFF_TABLE_def huff_defs)

lemma huff_unused_len:
  "filter (\<lambda>e. hs_len e = 0) HUFF_TABLE = []"
  "filter (\<lambda>e. hs_len e = 1) HUFF_TABLE = []"
  "filter (\<lambda>e. hs_len e = 2) HUFF_TABLE = []"
  "filter (\<lambda>e. hs_len e = 3) HUFF_TABLE = []"
  "filter (\<lambda>e. hs_len e = 4) HUFF_TABLE = []"
  "filter (\<lambda>e. hs_len e = 9) HUFF_TABLE = []"
  "filter (\<lambda>e. hs_len e = 16) HUFF_TABLE = []"
  "filter (\<lambda>e. hs_len e = 17) HUFF_TABLE = []"
  "filter (\<lambda>e. hs_len e = 18) HUFF_TABLE = []"
  "filter (\<lambda>e. hs_len e = 29) HUFF_TABLE = []"
  by (simp_all add: HUFF_TABLE_def huff_defs)

lemma huff_len_range: "\<forall>e \<in> set HUFF_TABLE. 5 \<le> hs_len e \<and> hs_len e \<le> 30"
  by (simp add: HUFF_TABLE_def huff_defs)

lemma length_HUFF_TABLE [simp]: "length HUFF_TABLE = 257"
  by (simp add: HUFF_TABLE_def huff_defs)

lemma LEN_COUNT_eq:
  "LEN_COUNT = [0, 0, 0, 0, 0, 10, 26, 32, 6, 0, 5, 3, 2, 6, 2, 3, 0, 0, 0,
    3, 8, 13, 26, 29, 12, 4, 15, 19, 29, 0, 4]"
proof -
  have "[0..<31] = [0, 1, 2, 3, 4, 5, 6, 7, 8, 9, 10, 11, 12, 13, 14, 15, 16, 17, 18, 19, 20, 21, 22, 23,
    24, 25, 26, 27, 28, 29, 30 :: nat]" by code_simp
  then show ?thesis by (simp add: LEN_COUNT_def huff_by_len huff_unused_len del: One_nat_def)
qed

lemma length_LEN_COUNT [simp]: "length LEN_COUNT = 31"
  by (simp add: LEN_COUNT_def)

text \<open>The first code and the first index of every length, as the decoder computes them.\<close>

fun firsts :: "nat \<Rightarrow> nat list \<Rightarrow> nat list" where
  "firsts f [] = []"
| "firsts f (c # cs) = f # firsts (2 * (f + c)) cs"

definition first_code :: "nat \<Rightarrow> nat" where
  "first_code l = firsts 0 LEN_COUNT ! l"

definition first_index :: "nat \<Rightarrow> nat" where
  "first_index l = sum_list (take l LEN_COUNT)"

lemma FIRST_CODES:
  "firsts 0 LEN_COUNT = [0, 0, 0, 0, 0, 0, 20, 92, 248, 508, 1016, 2042, 4090, 8184, 
    16380, 32764, 65534, 131068, 262136, 524272, 1048550, 2097116, 4194258, 8388568, 
    16777194, 33554412, 67108832, 134217694, 268435426, 536870910, 1073741820]"
  by (simp add: LEN_COUNT_eq)

lemma firsts_Suc: "Suc l < length cs \<Longrightarrow> firsts f cs ! Suc l = 2 * (firsts f cs ! l + cs ! l)"
proof (induction f cs arbitrary: l rule: firsts.induct)
  case (2 f c cs)
  then show ?case by (cases l; cases cs) auto
qed simp

lemma first_code_Suc: "Suc l < 31 \<Longrightarrow> first_code (Suc l) = 2 * (first_code l + LEN_COUNT ! l)"
  by (simp add: first_code_def firsts_Suc)

lemma first_index_Suc: "l < 31 \<Longrightarrow> first_index (Suc l) = first_index l + LEN_COUNT ! l"
  by (simp add: first_index_def take_Suc_conv_app_nth)

lemma first_code_0 [simp]: "first_code 0 = 0" "first_code (Suc 0) = 0"
  by (simp_all add: first_code_def FIRST_CODES)

lemma huff_code_range:
  assumes "e \<in> set HUFF_TABLE"
  shows "first_code (hs_len e) \<le> hs_bits e \<and> hs_bits e < first_code (hs_len e) + LEN_COUNT ! hs_len e"
proof -
  have "\<forall>e \<in> set HUFF_TABLE. first_code (hs_len e) \<le> hs_bits e \<and> hs_bits e < first_code (hs_len e) + LEN_COUNT ! hs_len e"
    by (simp add: HUFF_TABLE_def huff_defs first_code_def FIRST_CODES LEN_COUNT_eq)
  with assms show ?thesis by blast
qed

lemma distinct_by:
  assumes "\<And>l. distinct (filter (\<lambda>e. f e = l) xs)"
  shows "distinct xs"
proof (rule ccontr)
  assume "\<not> distinct xs"
  then obtain as x bs cs where "xs = as @ [x] @ bs @ [x] @ cs" using not_distinct_decomp by blast
  with assms [of "f x"] show False by simp
qed

lemma distinct_huff: "distinct HUFF_TABLE"
proof (rule distinct_by)
  fix l
  show "distinct (filter (\<lambda>e. hs_len e = l) HUFF_TABLE)"
  proof (cases "\<exists>e \<in> set HUFF_TABLE. hs_len e = l")
    case True
    then have "5 \<le> l \<and> l \<le> 30" using huff_len_range by auto
    then have "l \<in> {5, 6, 7, 8, 9, 10, 11, 12, 13, 14, 15, 16, 17, 18, 19, 20, 21, 22, 23, 24, 25, 26, 27, 28, 29, 30}"
      by (simp, presburger)
    then show ?thesis
      by (elim insertE emptyE) (simp_all only: huff_by_len huff_unused_len, simp_all)
  qed (simp add: filter_empty_conv)
qed

end
