(* ===== verification/Huffman.thy ===== *)
theory Huffman
  imports Huff_Table
begin

text \<open>
  The Huffman coder of HPACK and QPACK (\<^verbatim>\<open>src/hpack/huffman.rs\<close>): encoder and decoder with their bit
  accumulators. The code is canonical, so that the decoder's walk over the lengths finds exactly
  the code words; the interface \<open>prefix_code\<close> states what the loop over the input needs of that walk.
  The output buffer is a capacity; the bytes written into it are the result.
\<close>

section \<open>The code\<close>

definition u32_wrapping_sub :: "nat \<Rightarrow> nat \<Rightarrow> nat" where
  "u32_wrapping_sub a b = (a + (2 ^ 32 - b)) mod 2 ^ 32"

text \<open>The loop of \<^verbatim>\<open>decode_one\<close>; its 32-bit variables stay below \<open>2 ^ 31\<close>.\<close>

function decode_walk :: "nat \<Rightarrow> nat \<Rightarrow> nat \<Rightarrow> nat \<Rightarrow> nat \<Rightarrow> nat \<Rightarrow> nat \<Rightarrow> (nat \<times> nat) option" where
  "decode_walk acc acc_len mx len code first index =
    (if len < mx then
       let bt = (acc div 2 ^ (acc_len - 1 - len)) mod 2;
           len = len + 1;
           code = 2 * code + bt;
           count = LEN_COUNT ! len
       in if u32_wrapping_sub code first < count then Some (SYMBOLS ! (index + (code - first)), len)
          else decode_walk acc acc_len mx len code (2 * (first + count)) (index + count)
     else None)"
  by pat_completeness auto
termination
  by (relation "measure (\<lambda>(acc, acc_len, mx, len, code, first, index). mx - len)") auto

declare decode_walk.simps [simp del]

definition decode_one :: "nat \<Rightarrow> nat \<Rightarrow> (nat \<times> nat) option" where
  "decode_one acc acc_len = decode_walk acc acc_len (if acc_len < 30 then acc_len else 30) 0 0 0 0"

lemma decode_walk_used: "decode_walk acc al mx len code f i = Some (s, u) \<Longrightarrow> len < u \<and> u \<le> mx"
proof (induction acc al mx len code f i rule: decode_walk.induct)
  case (1 acc al mx len code f i)
  from 1(2) show ?case
    by (subst (asm) decode_walk.simps) (fastforce simp: Let_def split: if_splits dest!: 1(1) [OF _ refl refl refl refl])
qed

lemma decode_one_used: "decode_one acc al = Some (s, u) \<Longrightarrow> 0 < u \<and> u \<le> al"
  by (auto simp: decode_one_def dest!: decode_walk_used split: if_splits)

abbreviation huffman_error :: error where
  "huffman_error \<equiv> Http3 QpackDecompressionFailed"

text \<open>The inner loop of \<^verbatim>\<open>decode\<close>: all symbols the accumulator holds.\<close>

function decode_emit :: "nat \<Rightarrow> nat \<Rightarrow> nat \<Rightarrow> bytes \<Rightarrow> (nat \<times> nat \<times> bytes) res" where
  "decode_emit cap acc acc_len out =
    (if acc_len \<ge> 5 then
       (case decode_one acc acc_len of
          Some (symb, used) \<Rightarrow>
            if symb = 256 then Err huffman_error
            else if length out \<ge> cap then Err (BufferTooSmall (length out + 1))
            else decode_emit cap (acc mod 2 ^ (acc_len - used)) (acc_len - used) (out @ [word_of_nat symb])
        | None \<Rightarrow> if acc_len \<ge> 30 then Err huffman_error else Ok (acc, acc_len, out))
     else Ok (acc, acc_len, out))"
  by pat_completeness auto
termination
  by (relation "measure (\<lambda>(cap, acc, acc_len, out). acc_len)") (auto dest!: decode_one_used)

declare decode_emit.simps [simp del]

fun decode_bytes :: "nat \<Rightarrow> bytes \<Rightarrow> nat \<Rightarrow> nat \<Rightarrow> bytes \<Rightarrow> (nat \<times> nat \<times> bytes) res" where
  "decode_bytes cap [] acc acc_len out = Ok (acc, acc_len, out)"
| "decode_bytes cap (b # src) acc acc_len out =
    res_bind (decode_emit cap ((acc * 2 ^ 8) mod 2 ^ 64 + unat b) (acc_len + 8) out)
      (\<lambda>(acc, acc_len, out). decode_bytes cap src acc acc_len out)"

definition huffman_decode :: "bytes \<Rightarrow> nat \<Rightarrow> bytes res" where
  "huffman_decode src cap =
    res_bind (decode_bytes cap src 0 0 []) (\<lambda>(acc, acc_len, out).
      if acc_len > 7 then Err huffman_error
      else if acc_len > 0 \<and> acc mod 2 ^ acc_len \<noteq> 2 ^ acc_len - 1 then Err huffman_error
      else Ok out)"

text \<open>The encoder: the inner loop that flushes whole bytes, the loop over the input, the padding.\<close>

function flush :: "nat \<Rightarrow> nat \<Rightarrow> nat \<Rightarrow> bytes \<Rightarrow> (nat \<times> nat \<times> bytes) res" where
  "flush cap bit_buf bit_count out =
    (if bit_count \<ge> 8 then
       let bit_count = bit_count - 8
       in if length out \<ge> cap then Err (BufferTooSmall (length out + 1))
          else flush cap (bit_buf mod 2 ^ bit_count) bit_count (out @ [word_of_nat (bit_buf div 2 ^ bit_count)])
     else Ok (bit_buf, bit_count, out))"
  by pat_completeness auto
termination
  by (relation "measure (\<lambda>(cap, bit_buf, bit_count, out). bit_count)") auto

declare flush.simps [simp del]

fun encode_bytes :: "nat \<Rightarrow> bytes \<Rightarrow> nat \<Rightarrow> nat \<Rightarrow> bytes \<Rightarrow> (nat \<times> nat \<times> bytes) res" where
  "encode_bytes cap [] bit_buf bit_count out = Ok (bit_buf, bit_count, out)"
| "encode_bytes cap (b # src) bit_buf bit_count out =
    (let entry = HUFF_TABLE ! unat b
     in res_bind (flush cap ((bit_buf * 2 ^ hs_len entry) mod 2 ^ 64 + hs_bits entry) (bit_count + hs_len entry) out)
          (\<lambda>(bit_buf, bit_count, out). encode_bytes cap src bit_buf bit_count out))"

definition huffman_encode :: "bytes \<Rightarrow> nat \<Rightarrow> bytes res" where
  "huffman_encode src cap =
    res_bind (encode_bytes cap src 0 0 []) (\<lambda>(bit_buf, bit_count, out).
      if bit_count > 0 then
        if length out \<ge> cap then Err (BufferTooSmall (length out + 1))
        else Ok (out @ [word_of_nat (bit_buf * 2 ^ (8 - bit_count) + (2 ^ (8 - bit_count) - 1))])
      else Ok out)"

definition encoded_len :: "bytes \<Rightarrow> nat" where
  "encoded_len src = (sum_list (map (\<lambda>b. hs_len (HUFF_TABLE ! unat b)) src) + 7) div 8"

section \<open>Bit strings\<close>

primrec bits_of :: "nat \<Rightarrow> nat \<Rightarrow> bool list" where
  "bits_of 0 n = []"
| "bits_of (Suc k) n = bit n k # bits_of k n"

lemma length_bits_of [simp]: "length (bits_of k n) = k"
  by (induction k) simp_all

lemma bits_of_mod: "k \<le> j \<Longrightarrow> bits_of k (n mod 2 ^ j) = bits_of k n"
  by (induction k) (simp_all flip: take_bit_eq_mod add: bit_take_bit_iff)

lemma bit_div: "bit (n div 2 ^ b :: nat) a = bit n (a + b)"
  by (simp add: bit_iff_odd div_mult2_eq [symmetric] power_add mult.commute)

lemma bits_of_add: "bits_of (a + b) n = bits_of a (n div 2 ^ b) @ bits_of b n"
  by (induction a) (simp_all add: bit_div)

lemma bits_of_shift: "y < 2 ^ b \<Longrightarrow> bits_of (a + b) (x * 2 ^ b + y) = bits_of a x @ bits_of b y"
  using bits_of_mod [of b b "x * 2 ^ b + y"] by (simp add: bits_of_add)

lemma div_step: "2 * (c div 2 ^ Suc m) + of_bool (bit c m) = (c div 2 ^ m :: nat)"
proof -
  have "c div 2 ^ Suc m = c div 2 ^ m div 2"
    using div_mult2_eq [of c "2 ^ m" 2] by (simp add: mult.commute)
  moreover have "of_bool (bit c m) = c div 2 ^ m mod 2" by (simp add: bit_iff_odd mod_2_eq_odd)
  ultimately show ?thesis using mult_div_mod_eq [of 2 "c div 2 ^ m"] by simp
qed

lemma bits_of_ones: "k \<le> j \<Longrightarrow> bits_of k (2 ^ j - 1) = replicate k True"
  by (induction k) (simp_all add: bit_mask_iff del: One_nat_def flip: mask_eq_exp_minus_1)

lemma bits_of_inj: "bits_of k m = bits_of k n \<Longrightarrow> m mod 2 ^ k = n mod 2 ^ k"
proof -
  assume eq: "bits_of k m = bits_of k n"
  have "bit m i = bit n i" if "i < k" for i
    using eq that by (induction k) (auto simp: less_Suc_eq)
  then show ?thesis
    by (simp flip: take_bit_eq_mod) (rule bit_eqI, auto simp: bit_take_bit_iff)
qed

section \<open>One symbol\<close>

text \<open>The loop of \<open>decode_one\<close> on the bits themselves.\<close>

fun bwalk :: "bool list \<Rightarrow> nat \<Rightarrow> nat \<Rightarrow> nat \<Rightarrow> nat \<Rightarrow> (nat \<times> nat) option" where
  "bwalk [] len code first index = None"
| "bwalk (b # bs) len code first index =
    (let len = len + 1; code = 2 * code + of_bool b; count = LEN_COUNT ! len
     in if u32_wrapping_sub code first < count then Some (SYMBOLS ! (index + (code - first)), len)
        else bwalk bs len code (2 * (first + count)) (index + count))"

lemma decode_walk_bits:
  "len \<le> mx \<Longrightarrow> mx \<le> al \<Longrightarrow>
   decode_walk acc al mx len code f i = bwalk (take (mx - len) (bits_of (al - len) acc)) len code f i"
proof (induction acc al mx len code f i rule: decode_walk.induct)
  case (1 acc al mx len code f i)
  show ?case
  proof (cases "len < mx")
    case True
    then have al: "al - len = Suc (al - 1 - len)" and mx: "mx - len = Suc (mx - (len + 1))" using 1(3) by auto
    have "(acc div 2 ^ (al - 1 - len)) mod 2 = of_bool (bit acc (al - 1 - len))"
      by (simp add: bit_iff_odd odd_iff_mod_2_eq_one of_bool_def)
    moreover have "al - (len + 1) = al - 1 - len" by simp
    ultimately show ?thesis
      using True 1(1) [OF True refl refl refl refl] 1(2,3)
      by (subst decode_walk.simps) (simp add: al mx Let_def)
  qed (use 1 in \<open>subst decode_walk.simps, simp\<close>)
qed

definition walk :: "bool list \<Rightarrow> (nat \<times> nat) option" where
  "walk w = bwalk (take 30 w) 0 0 0 0"

lemma decode_one_walk: "decode_one acc al = walk (bits_of al acc)"
  by (simp add: decode_one_def walk_def decode_walk_bits)

lemma wrapping_less:
  assumes "a < 2 ^ 31" and "b < 2 ^ 31" and "n \<le> 2 ^ 31"
  shows "u32_wrapping_sub a b < n \<longleftrightarrow> b \<le> a \<and> a - b < n"
proof (cases "b \<le> a")
  case True
  then have "a + (2 ^ 32 - b) = (a - b) + 2 ^ 32" using assms by simp
  then have "u32_wrapping_sub a b = a - b"
    unfolding u32_wrapping_sub_def using assms(1) by (simp only: mod_add_self2) simp
  then show ?thesis using True by simp
next
  case False
  then have "a + (2 ^ 32 - b) < 2 ^ 32" "2 ^ 31 \<le> a + (2 ^ 32 - b)" using assms by auto
  then show ?thesis using False assms(3) by (simp add: u32_wrapping_sub_def)
qed

lemma table_bounds:
  assumes "l < 31"
  shows "first_code l < 2 ^ 31" and "LEN_COUNT ! l \<le> 2 ^ 31"
proof -
  have "list_all (\<lambda>x. x < 2 ^ 31) (firsts 0 LEN_COUNT)" by (simp add: FIRST_CODES)
  then show "first_code l < 2 ^ 31" using assms by (simp add: first_code_def list_all_length FIRST_CODES)
  have "list_all (\<lambda>x. x \<le> 2 ^ 31) LEN_COUNT" by (simp add: LEN_COUNT_eq)
  then show "LEN_COUNT ! l \<le> 2 ^ 31" using assms by (simp add: list_all_length)
qed

lemma first_code_shorter:
  "k < l \<Longrightarrow> l < 31 \<Longrightarrow> 2 ^ (l - k) * (first_code k + LEN_COUNT ! k) \<le> first_code l"
proof (induction l)
  case (Suc l)
  show ?case
  proof (cases "k = l")
    case False
    then have "2 ^ (Suc l - k) * (first_code k + LEN_COUNT ! k) \<le> 2 * first_code l"
      using Suc by (simp add: Suc_diff_le)
    also have "\<dots> \<le> first_code (Suc l)" using first_code_Suc [OF Suc(3)] by simp
    finally show ?thesis .
  qed (use first_code_Suc [OF Suc(3)] in simp)
qed simp

text \<open>A code of length \<open>l\<close>, of which \<open>m\<close> bits are still to be read.\<close>

definition is_code :: "nat \<Rightarrow> nat \<Rightarrow> bool" where
  "is_code l c \<longleftrightarrow> 0 < l \<and> l \<le> 30 \<and> first_code l \<le> c \<and> c < first_code l + LEN_COUNT ! l"

lemma code_not_yet:
  assumes "is_code l c" and "0 < m" and "m < l"
  shows "\<not> u32_wrapping_sub (c div 2 ^ m) (first_code (l - m)) < LEN_COUNT ! (l - m)"
proof -
  have l: "l < 31" "l - m < 31" using assms by (auto simp: is_code_def)
  have "2 ^ m * (first_code (l - m) + LEN_COUNT ! (l - m)) \<le> c"
    using first_code_shorter [of "l - m" l] assms l by (simp add: is_code_def)
  then have ge: "first_code (l - m) + LEN_COUNT ! (l - m) \<le> c div 2 ^ m"
    by (simp add: less_eq_div_iff_mult_less_eq mult.commute)
  have "c < 2 ^ 31 + 2 ^ 31" using assms table_bounds [OF l(1)] by (auto simp: is_code_def)
  then have "c div 2 < 2 ^ 31" by (simp add: less_mult_imp_div_less)
  moreover have "c div 2 ^ m \<le> c div 2" using assms(2) self_le_power [of 2 m] by (intro div_le_mono2) auto
  ultimately have "c div 2 ^ m < 2 ^ 31" by simp
  then show ?thesis using ge table_bounds [OF l(2)] by (subst wrapping_less) auto
qed

lemma position_nth: "distinct xs \<Longrightarrow> i < length xs \<Longrightarrow> position (\<lambda>x. x = xs ! i) xs = Some i"
  by (auto simp: position_Some nth_eq_iff_index_eq)

lemma huff_entry:
  assumes "is_code l c"
  shows "HuffSym c l \<in> set HUFF_TABLE"
proof -
  let ?E = "set (filter (\<lambda>e. hs_len e = l) HUFF_TABLE)"
  let ?R = "{first_code l ..< first_code l + LEN_COUNT ! l}"
  have "inj_on hs_bits ?E" by (auto simp: inj_on_def huff_sym.expand)
  moreover have "card ?E = LEN_COUNT ! l"
    using assms distinct_huff by (subst distinct_card) (auto simp: LEN_COUNT_def is_code_def)
  ultimately have "card (hs_bits ` ?E) = card ?R" by (simp add: card_image)
  moreover have "hs_bits ` ?E \<subseteq> ?R" using huff_code_range by fastforce
  ultimately have "hs_bits ` ?E = ?R" by (intro card_subset_eq) auto
  moreover have "c \<in> ?R" using assms by (simp add: is_code_def)
  ultimately have "c \<in> hs_bits ` ?E" by simp
  then obtain e where "e \<in> set HUFF_TABLE" "hs_len e = l" "hs_bits e = c" by auto
  then show ?thesis using huff_sym.collapse [of e] by simp
qed

lemma huff_position:
  assumes "HUFF_TABLE ! s = HuffSym c l" and "s < 257"
  shows "position (\<lambda>e. hs_len e = l \<and> hs_bits e = c) HUFF_TABLE = Some s"
proof -
  have "(\<lambda>e. hs_len e = l \<and> hs_bits e = c) = (\<lambda>e. e = HUFF_TABLE ! s)"
    using assms by (auto simp: fun_eq_iff huff_sym.expand)
  then show ?thesis using assms position_nth [OF distinct_huff, of s] by simp
qed

lemma huff_index: "is_code l c \<Longrightarrow> position (\<lambda>e. hs_len e = l \<and> hs_bits e = c) HUFF_TABLE \<noteq> None"
  using huff_entry [of l c] by (auto simp: in_set_conv_nth huff_position)

lemma map_filter_total:
  assumes "\<And>x. x \<in> set xs \<Longrightarrow> f x \<noteq> None"
  shows "List.map_filter f xs = map (\<lambda>x. the (f x)) xs"
  using assms by (induction xs) (auto simp: List.map_filter_simps split: option.splits)

lemma symbols_step:
  assumes "0 < l" and "l \<le> 30"
  shows "symbols_from l (first_code l) =
    map (\<lambda>c. the (position (\<lambda>e. hs_len e = l \<and> hs_bits e = first_code l + c) HUFF_TABLE)) [0..<LEN_COUNT ! l]
    @ symbols_from (Suc l) (first_code l * 2 + LEN_COUNT ! l * 2)"
proof -
  have "position (\<lambda>e. hs_len e = l \<and> hs_bits e = first_code l + c) HUFF_TABLE \<noteq> None"
    if "c < LEN_COUNT ! l" for c
    using huff_index [of l "first_code l + c"] that assms by (auto simp: is_code_def)
  then show ?thesis
    by (subst symbols_from.simps, unfold Let_def, subst map_filter_total) (auto simp: assms algebra_simps)
qed

lemma symbols_nth:
  assumes "0 < k" and "k \<le> l" and "is_code l c" and "HUFF_TABLE ! s = HuffSym c l" and "s < 257"
  shows "first_index k \<le> first_index l \<and>
    first_index l - first_index k + (c - first_code l) < length (symbols_from k (first_code k)) \<and>
    symbols_from k (first_code k) ! (first_index l - first_index k + (c - first_code l)) = s"
  using assms
proof (induction "l - k" arbitrary: k)
  case 0
  then have "k = l" by simp
  then show ?case using 0 huff_position [OF 0(5,6)] by (auto simp: symbols_step is_code_def nth_append)
next
  case (Suc n)
  then have k: "k < 31" "Suc k < 31" "k \<le> 30" by (auto simp: is_code_def)
  define j where "j = first_index l - first_index (Suc k) + (c - first_code l)"
  have IH: "first_index (Suc k) \<le> first_index l \<and> j < length (symbols_from (Suc k) (first_code (Suc k))) \<and>
    symbols_from (Suc k) (first_code (Suc k)) ! j = s"
    unfolding j_def using Suc by (intro Suc(1)) auto
  have eq: "symbols_from k (first_code k) =
    map (\<lambda>c. the (position (\<lambda>e. hs_len e = k \<and> hs_bits e = first_code k + c) HUFF_TABLE)) [0..<LEN_COUNT ! k]
    @ symbols_from (Suc k) (first_code (Suc k))"
    using symbols_step [OF Suc(3) k(3)] first_code_Suc [OF k(2)] by (simp add: algebra_simps)
  have "first_index l - first_index k + (c - first_code l) = LEN_COUNT ! k + j"
    using IH by (simp add: j_def first_index_Suc [OF k(1)])
  then show ?case using IH unfolding eq by (simp add: first_index_Suc [OF k(1)] nth_append)
qed

lemma SYMBOLS_nth:
  assumes "HUFF_TABLE ! s = HuffSym c l" and "s < 257"
  shows "is_code l c" and "SYMBOLS ! (first_index l + (c - first_code l)) = s"
proof -
  have "HuffSym c l \<in> set HUFF_TABLE" using assms by (metis length_HUFF_TABLE nth_mem)
  then show code: "is_code l c" using huff_code_range huff_len_range by (fastforce simp: is_code_def)
  have "first_index 1 = 0" by (simp add: first_index_def LEN_COUNT_eq)
  then show "SYMBOLS ! (first_index l + (c - first_code l)) = s"
    using symbols_nth [of 1 l c s] code assms by (auto simp: SYMBOLS_def nth_append is_code_def)
qed

lemma lens_upt:
  "[0..<31] = [0, 1, 2, 3, 4, 5, 6, 7, 8, 9, 10, 11, 12, 13, 14, 15, 16, 17, 18, 19, 20, 21, 22, 23,
    24, 25, 26, 27, 28, 29, 30 :: nat]"
  by code_simp

lemma code_fits:
  assumes "is_code l c"
  shows "c < 2 ^ l"
proof -
  have "list_all (\<lambda>l. first_code l + LEN_COUNT ! l \<le> 2 ^ l) [0..<31]"
    unfolding lens_upt by (simp add: first_code_def FIRST_CODES LEN_COUNT_eq del: One_nat_def)
  then have "first_code l + LEN_COUNT ! l \<le> 2 ^ l" using assms by (simp add: is_code_def list_all_iff)
  with assms show ?thesis by (simp add: is_code_def)
qed

lemma code_here:
  assumes "is_code l c"
  shows "u32_wrapping_sub c (first_code l) < LEN_COUNT ! l"
proof -
  have "l < 31" using assms by (simp add: is_code_def)
  moreover from this have "(2 :: nat) ^ l \<le> 2 ^ 31" by (intro power_increasing) auto
  ultimately show ?thesis
    using assms code_fits [OF assms] table_bounds [of l] by (subst wrapping_less) (auto simp: is_code_def)
qed

lemma bwalk_code:
  assumes "is_code l c" and "m \<le> l" and "0 < m"
  shows "bwalk (take j (bits_of m c @ u)) (l - m) (c div 2 ^ m) (first_code (Suc (l - m))) (first_index (Suc (l - m)))
    = (if j < m then None else Some (SYMBOLS ! (first_index l + (c - first_code l)), l))"
  using assms(2,3)
proof (induction m arbitrary: j)
  case (Suc m)
  show ?case
  proof (cases j)
    case (Suc i)
    have l: "Suc (l - Suc m) = l - m" "l - m < 31" using Suc.prems assms(1) by (auto simp: is_code_def)
    show ?thesis
    proof (cases "m = 0")
      case True
      then show ?thesis using Suc l div_step [of c 0] code_here [OF assms(1)] by (simp add: Let_def)
    next
      case False
      then have "\<not> u32_wrapping_sub (c div 2 ^ m) (first_code (l - m)) < LEN_COUNT ! (l - m)"
        using assms(1) Suc.prems by (intro code_not_yet) auto
      moreover have "Suc (l - m) < 31" using False Suc.prems assms(1) by (auto simp: is_code_def)
      ultimately show ?thesis
        using Suc False Suc.IH [of i] Suc.prems l div_step [of c m]
        by (simp add: Let_def first_code_Suc first_index_Suc)
    qed
  qed simp
qed simp

text \<open>The code word of a symbol; symbol 256 is the end-of-string symbol, thirty ones.\<close>

definition symbol_bits :: "nat \<Rightarrow> bool list" where
  "symbol_bits s = bits_of (hs_len (HUFF_TABLE ! s)) (hs_bits (HUFF_TABLE ! s))"

lemma walk_symbol:
  assumes "s < 257"
  shows "walk (symbol_bits s @ u) = Some (s, length (symbol_bits s))"
    and "j < length (symbol_bits s) \<Longrightarrow> walk (take j (symbol_bits s)) = None"
    and "5 \<le> length (symbol_bits s)" and "length (symbol_bits s) \<le> 30"
proof -
  obtain c l where e: "HUFF_TABLE ! s = HuffSym c l" by (cases "HUFF_TABLE ! s")
  note code = SYMBOLS_nth [OF e assms]
  have l: "5 \<le> l" "l \<le> 30" using e assms huff_len_range by (metis huff_sym.sel(2) length_HUFF_TABLE nth_mem)+
  have z: "c div 2 ^ l = 0" "first_index 1 = 0" using code_fits [OF code(1)]
    by (simp_all add: first_index_def LEN_COUNT_eq)
  show "walk (symbol_bits s @ u) = Some (s, length (symbol_bits s))"
    using bwalk_code [OF code(1), of l 30 u] e z l code(2) by (simp add: walk_def symbol_bits_def)
  show "walk (take j (symbol_bits s)) = None" if "j < length (symbol_bits s)"
    using bwalk_code [OF code(1), of l j "[]"] e z l that by (simp add: walk_def symbol_bits_def min_def)
  show "5 \<le> length (symbol_bits s)" "length (symbol_bits s) \<le> 30" using e l by (simp_all add: symbol_bits_def)
qed

section \<open>The interface of the two loops\<close>

text \<open>
  What the loops over the input need of a code: a complete code word is found whatever follows it,
  an incomplete one is not. The next symbol of a coded text is then determined by the bits read so far.
\<close>

locale prefix_code =
  fixes sym_word :: "'a \<Rightarrow> bool list" and find :: "bool list \<Rightarrow> ('s \<times> nat) option" and name :: "'a \<Rightarrow> 's"
  assumes found: "find (sym_word x @ u) = Some (name x, length (sym_word x))"
    and pending: "j < length (sym_word x) \<Longrightarrow> find (take j (sym_word x)) = None"
begin

lemma next_symbol:
  assumes "w @ v = sym_word x @ r"
  shows "find w = (if length (sym_word x) \<le> length w then Some (name x, length (sym_word x)) else None)"
proof (cases "length (sym_word x) \<le> length w")
  case True
  then have "w = sym_word x @ drop (length (sym_word x)) w"
    using assms by (metis append_eq_append_conv_if append_take_drop_id)
  then show ?thesis using True found by metis
next
  case False
  then have "w = take (length w) (sym_word x)" using assms by (simp add: append_eq_append_conv_if)
  then show ?thesis using False pending [of "length w" x] by simp
qed

lemma rest_after_symbol:
  assumes "w @ v = sym_word x @ r" and "length (sym_word x) \<le> length w"
  shows "drop (length (sym_word x)) w @ v = r"
  using assms by (metis append_eq_conv_conj drop_append diff_is_0_eq drop_0)

end

definition byte_bits :: "8 word \<Rightarrow> bool list" where
  "byte_bits b = symbol_bits (unat b)"

lemma byte_sym: "unat (b :: byte) < 257" "unat b \<noteq> 256"
  using unat_byte_bound [of b] by linarith+

interpretation huff: prefix_code byte_bits walk unat
  by unfold_locales (simp_all add: byte_bits_def walk_symbol byte_sym(1))

lemmas byte_bits_len = walk_symbol(3,4) [OF byte_sym(1), folded byte_bits_def]

definition text_bits :: "bytes \<Rightarrow> bool list" where
  "text_bits bs = concat (map byte_bits bs)"

lemma text_bits_simps [simp]:
  "text_bits [] = []" "text_bits (b # bs) = byte_bits b @ text_bits bs"
  by (simp_all add: text_bits_def)

definition Bits :: "bytes \<Rightarrow> bool list" where
  "Bits bs = concat (map (\<lambda>b. bits_of 8 (unat b)) bs)"

lemma Bits_simps [simp]:
  "Bits [] = []" "Bits (b # bs) = bits_of 8 (unat b) @ Bits bs" "Bits (xs @ ys) = Bits xs @ Bits ys"
  by (simp_all add: Bits_def)

section \<open>Decoding\<close>

lemma pad_pending:
  assumes "j < 30"
  shows "walk (replicate j True) = None"
proof -
  have e: "HUFF_TABLE ! 256 = HuffSym 0x3fffffff 30" by (simp add: HUFF_TABLE_def huff_defs)
  have "symbol_bits 256 = replicate 30 True"
    using bits_of_ones [of 30 30] by (simp add: symbol_bits_def e)
  then show ?thesis using walk_symbol(2) [of 256 j] assms by (simp add: min_def)
qed

lemma bits_of_drop: "u \<le> al \<Longrightarrow> bits_of (al - u) (acc mod 2 ^ (al - u)) = drop u (bits_of al acc)"
  using bits_of_add [of u "al - u" acc] by (simp add: bits_of_mod)

text \<open>The accumulator and the bytes still to come hold the code of \<open>rest\<close> and the padding.\<close>

definition holds :: "nat \<Rightarrow> nat \<Rightarrow> bool list \<Rightarrow> bytes \<Rightarrow> nat \<Rightarrow> bool" where
  "holds acc al v rest n \<longleftrightarrow> bits_of al acc @ v = text_bits rest @ replicate n True"

lemma holds_Cons:
  assumes "holds acc al v (x # rest) n"
  shows "decode_one acc al = (if length (byte_bits x) \<le> al then Some (unat x, length (byte_bits x)) else None)"
    and "length (byte_bits x) \<le> al \<Longrightarrow>
      holds (acc mod 2 ^ (al - length (byte_bits x))) (al - length (byte_bits x)) v rest n"
proof -
  have eq: "bits_of al acc @ v = byte_bits x @ text_bits rest @ replicate n True"
    using assms by (simp add: holds_def)
  show "decode_one acc al = (if length (byte_bits x) \<le> al then Some (unat x, length (byte_bits x)) else None)"
    using huff.next_symbol [OF eq] by (simp add: decode_one_walk)
  show "holds (acc mod 2 ^ (al - length (byte_bits x))) (al - length (byte_bits x)) v rest n"
    if "length (byte_bits x) \<le> al"
    using huff.rest_after_symbol [OF eq] that by (simp add: holds_def bits_of_drop)
qed

lemma holds_Nil:
  assumes "holds acc al v [] n" and "n < 8"
  shows "al \<le> n" and "decode_one acc al = None"
proof -
  have "bits_of al acc @ v = replicate n True" using assms by (simp add: holds_def)
  then have "al \<le> n \<and> bits_of al acc = replicate al True" 
    by (metis append_eq_conv_conj le_add1 length_append length_bits_of length_replicate take_replicate min.absorb2 min.commute)
  then show "al \<le> n" "decode_one acc al = None"
    using pad_pending [of al] assms(2) by (auto simp: decode_one_walk)
qed

lemma decode_emit_holds:
  assumes "holds acc al v rest n" and "n < 8" and "length out + length rest \<le> cap"
  shows "\<exists>acc' al' k. decode_emit cap acc al out = Ok (acc', al', out @ take k rest) \<and>
    holds acc' al' v (drop k rest) n \<and> al' < 30 \<and> (acc < 2 ^ al \<longrightarrow> acc' < 2 ^ al') \<and>
    (drop k rest \<noteq> [] \<longrightarrow> al' < length (byte_bits (hd (drop k rest))))"
  using assms
proof (induction rest arbitrary: acc al out)
  case Nil
  then show ?case
    using holds_Nil [OF Nil(1,2)]
    by (intro exI [of _ acc] exI [of _ al] exI [of _ 0]) (subst decode_emit.simps, auto)
next
  case (Cons x rest)
  note one = holds_Cons [OF Cons(2)]
  show ?case
  proof (cases "length (byte_bits x) \<le> al")
    case True
    let ?al = "al - length (byte_bits x)"
    from Cons.IH [OF one(2) [OF True] Cons(3), of "out @ [x]"] Cons(4) obtain acc' al' k where
      "decode_emit cap (acc mod 2 ^ ?al) ?al (out @ [x]) = Ok (acc', al', (out @ [x]) @ take k rest)"
      "holds acc' al' v (drop k rest) n \<and> al' < 30 \<and> acc' < 2 ^ al' \<and>
       (drop k rest \<noteq> [] \<longrightarrow> al' < length (byte_bits (hd (drop k rest))))" by auto
    moreover have "unat x \<noteq> 256" "5 \<le> al" "length out < cap"
      using byte_sym(2) [of x] True byte_bits_len [of x] Cons(4) by auto
    ultimately show ?thesis
      using True one(1) by (intro exI [of _ acc'] exI [of _ al'] exI [of _ "Suc k"]) (subst decode_emit.simps, auto)
  next
    case False
    then show ?thesis
      using one(1) Cons(2) byte_bits_len [of x]
      by (intro exI [of _ acc] exI [of _ al] exI [of _ 0]) (subst decode_emit.simps, auto)
  qed
qed

lemma holds_byte:
  assumes "holds acc al (Bits (b # src)) rest n" and "acc < 2 ^ al" and "al < 30"
  shows "holds ((acc * 2 ^ 8) mod 2 ^ 64 + unat b) (al + 8) (Bits src) rest n"
    and "(acc * 2 ^ 8) mod 2 ^ 64 + unat b < 2 ^ (al + 8)"
proof -
  have le: "(acc + 1) * 2 ^ 8 \<le> 2 ^ al * 2 ^ 8" using assms(2) by (intro mult_le_mono1) simp
  have "(2 :: nat) ^ al \<le> 2 ^ 30" using assms(3) by (intro power_increasing) auto
  then have eq: "acc * 2 ^ 8 mod 2 ^ 64 = acc * 2 ^ 8" using assms(2) by simp
  show "holds ((acc * 2 ^ 8) mod 2 ^ 64 + unat b) (al + 8) (Bits src) rest n"
    using assms(1) bits_of_shift [of "unat b" 8 al acc] eq by (simp add: holds_def)
  show "(acc * 2 ^ 8) mod 2 ^ 64 + unat b < 2 ^ (al + 8)"
  proof -
    have "acc * 2 ^ 8 + unat b < (acc + 1) * 2 ^ 8" by simp
    also note le
    finally show ?thesis unfolding eq power_add .
  qed
qed

lemma decode_bytes_holds:
  assumes "holds acc al (Bits src) rest n" and "n < 8" and "length out + length rest \<le> cap"
    and "acc < 2 ^ al" and "al < 30" and "rest \<noteq> [] \<longrightarrow> al < length (byte_bits (hd rest))"
  shows "\<exists>acc' al'. decode_bytes cap src acc al out = Ok (acc', al', out @ rest) \<and> holds acc' al' [] [] n"
  using assms
proof (induction src arbitrary: acc al out rest)
  case Nil
  have "rest = []"
  proof (cases rest)
    case (Cons x xs)
    with Nil(1) have "bits_of al acc = byte_bits x @ text_bits xs @ replicate n True" by (simp add: holds_def)
    from arg_cong [OF this, of length] Nil(6) Cons show ?thesis by simp
  qed
  with Nil show ?case by simp
next
  case (Cons b src)
  let ?acc = "(acc * 2 ^ 8) mod 2 ^ 64 + unat b"
  note byte = holds_byte [OF Cons(2,5,6)]
  from decode_emit_holds [OF byte(1) Cons(3,4)] byte(2) obtain acc' al' k where
    emit: "decode_emit cap ?acc (al + 8) out = Ok (acc', al', out @ take k rest)" and
    h: "holds acc' al' (Bits src) (drop k rest) n" "al' < 30" "acc' < 2 ^ al'"
      "drop k rest \<noteq> [] \<longrightarrow> al' < length (byte_bits (hd (drop k rest)))" by auto
  have "length (out @ take k rest) + length (drop k rest) \<le> cap" using Cons(4) by simp
  from Cons.IH [OF h(1) Cons(3) this h(3,2,4)] emit show ?case by auto
qed

section \<open>Encoding\<close>

lemma bits_of_byte: "bits_of 8 (unat (word_of_nat x :: byte)) = bits_of 8 x"
  using bits_of_mod [of 8 8 x] by (simp add: unat_byte_of_nat)

lemma flush_bits:
  assumes "bb < 2 ^ bc" and "length out + bc div 8 \<le> cap"
  shows "\<exists>bb' out'. flush cap bb bc out = Ok (bb', bc mod 8, out @ out') \<and> length out' = bc div 8 \<and>
    bb' < 2 ^ (bc mod 8) \<and> Bits out' @ bits_of (bc mod 8) bb' = bits_of bc bb"
  using assms
proof (induction cap bb bc out rule: flush.induct)
  case (1 cap bb bc out)
  show ?case
  proof (cases "8 \<le> bc")
    case True
    let ?b = "word_of_nat (bb div 2 ^ (bc - 8)) :: byte"
    have n: "bc mod 8 = (bc - 8) mod 8" "bc div 8 = Suc ((bc - 8) div 8)"
      using True by (simp_all add: le_mod_geq le_div_geq)
    have room: "length out < cap" "length (out @ [?b]) + (bc - 8) div 8 \<le> cap" using 1(3) n by auto
    from 1(1) [OF True refl _ _ room(2)] room(1) obtain bb' out' where
      "flush cap (bb mod 2 ^ (bc - 8)) (bc - 8) (out @ [?b]) = Ok (bb', (bc - 8) mod 8, (out @ [?b]) @ out')"
      "length out' = (bc - 8) div 8" "bb' < 2 ^ ((bc - 8) mod 8)"
      "Bits out' @ bits_of ((bc - 8) mod 8) bb' = bits_of (bc - 8) (bb mod 2 ^ (bc - 8))" by auto
    moreover have "bits_of bc bb = bits_of 8 (unat ?b) @ bits_of (bc - 8) (bb mod 2 ^ (bc - 8))"
      using bits_of_add [of 8 "bc - 8" bb] True by (simp add: bits_of_byte bits_of_mod)
    ultimately show ?thesis
      using True room(1) n by (intro exI [of _ bb'] exI [of _ "?b # out'"]) (subst flush.simps, simp add: Let_def)
  qed (use 1 in \<open>subst flush.simps, simp\<close>)
qed

definition bit_length :: "bytes \<Rightarrow> nat" where
  "bit_length src = sum_list (map (\<lambda>b. hs_len (HUFF_TABLE ! unat b)) src)"

lemma shift_in:
  assumes "bb < 2 ^ bc" and "bc < 8" and "c < 2 ^ l" and "l \<le> 30"
  shows "(bb * 2 ^ l) mod 2 ^ 64 + c < 2 ^ (bc + l)"
    and "bits_of (bc + l) ((bb * 2 ^ l) mod 2 ^ 64 + c) = bits_of bc bb @ bits_of l c"
proof -
  have le: "(bb + 1) * 2 ^ l \<le> 2 ^ bc * 2 ^ l" using assms(1) by (intro mult_le_mono1) simp
  have "(2 :: nat) ^ (bc + l) \<le> 2 ^ 64" using assms(2,4) by (intro power_increasing) auto
  moreover have "bb * 2 ^ l < 2 ^ bc * 2 ^ l" using assms(1) by simp
  ultimately have "bb * 2 ^ l < 2 ^ 64" unfolding power_add by linarith
  then have eq: "(bb * 2 ^ l) mod 2 ^ 64 = bb * 2 ^ l" by simp
  show "(bb * 2 ^ l) mod 2 ^ 64 + c < 2 ^ (bc + l)"
    unfolding eq power_add using le assms(3) by simp
  show "bits_of (bc + l) ((bb * 2 ^ l) mod 2 ^ 64 + c) = bits_of bc bb @ bits_of l c"
    unfolding eq using bits_of_shift [OF assms(3)] .
qed

lemma div8_split: "a div 8 + (a mod 8 + n) div 8 = (a + n) div (8 :: nat)" "(a mod 8 + n) mod 8 = (a + n) mod (8 :: nat)"
  by presburger+

lemma encode_bytes_bits:
  assumes "bb < 2 ^ bc" and "bc < 8" and "length out + (bc + bit_length src) div 8 \<le> cap"
  shows "\<exists>bb' out'. encode_bytes cap src bb bc out = Ok (bb', (bc + bit_length src) mod 8, out @ out') \<and>
    length out' = (bc + bit_length src) div 8 \<and> bb' < 2 ^ ((bc + bit_length src) mod 8) \<and>
    Bits out' @ bits_of ((bc + bit_length src) mod 8) bb' = bits_of bc bb @ text_bits src"
  using assms
proof (induction src arbitrary: bb bc out)
  case Nil
  then show ?case by (simp add: bit_length_def)
next
  case (Cons b src)
  obtain c l where e: "HUFF_TABLE ! unat b = HuffSym c l" by (cases "HUFF_TABLE ! unat b")
  then have c: "c < 2 ^ l" "l \<le> 30"
    using code_fits SYMBOLS_nth(1) [OF e byte_sym(1)] by (auto simp: is_code_def)
  note si = shift_in [OF Cons(2,3) c]
  have bl: "bc + bit_length (b # src) = (bc + l) + bit_length src" using e by (simp add: bit_length_def)
  let ?bc = "(bc + l) mod 8"
  have room: "length out + (bc + l) div 8 + (?bc + bit_length src) div 8 \<le> cap"
    using Cons(4) unfolding bl by (simp only: add.assoc div8_split)
  then obtain bb1 out1 where
    f: "flush cap ((bb * 2 ^ l) mod 2 ^ 64 + c) (bc + l) out = Ok (bb1, ?bc, out @ out1)" and
    l1: "length out1 = (bc + l) div 8" and b1: "bb1 < 2 ^ ?bc" and
    bits1: "Bits out1 @ bits_of ?bc bb1 = bits_of bc bb @ byte_bits b"
    using flush_bits [OF si(1), of out cap, unfolded si(2)] e
    by (auto simp: byte_bits_def symbol_bits_def simp del: power_numeral)
  have "length (out @ out1) + (?bc + bit_length src) div 8 \<le> cap" using room l1 by simp
  from Cons.IH [OF b1 _ this] obtain bb2 out2 where
    "encode_bytes cap src bb1 ?bc (out @ out1) = Ok (bb2, (?bc + bit_length src) mod 8, (out @ out1) @ out2)"
    "length out2 = (?bc + bit_length src) div 8" "bb2 < 2 ^ ((?bc + bit_length src) mod 8)"
    "Bits out2 @ bits_of ((?bc + bit_length src) mod 8) bb2 = bits_of ?bc bb1 @ text_bits src" by auto
  note r = this [unfolded div8_split(2)]
  let ?w = "bits_of ((bc + l + bit_length src) mod 8) bb2"
  have "Bits (out1 @ out2) @ ?w = Bits out1 @ (Bits out2 @ ?w)" by simp
  also have "\<dots> = (Bits out1 @ bits_of ?bc bb1) @ text_bits src" unfolding r(4) by simp
  also have "\<dots> = bits_of bc bb @ text_bits (b # src)" unfolding bits1 by simp
  finally show ?case
    unfolding bl using f e l1 r div8_split(1) [of "bc + l" "bit_length src"]
    by (intro exI [of _ bb2] exI [of _ "out1 @ out2"]) (simp add: Let_def)
qed

lemma encoded_len_bits: "encoded_len src = (bit_length src + 7) div 8"
  by (simp add: encoded_len_def bit_length_def)

lemma huffman_encode_bits:
  assumes "encoded_len src \<le> cap"
  shows "\<exists>e n. huffman_encode src cap = Ok e \<and> length e = encoded_len src \<and> n < 8 \<and>
    Bits e = text_bits src @ replicate n True"
proof -
  let ?L = "bit_length src" and ?r = "bit_length src mod 8"
  have len: "encoded_len src = ?L div 8 + (if ?r = 0 then 0 else 1)"
    unfolding encoded_len_bits by presburger
  with assms have "length ([] :: bytes) + (0 + ?L) div 8 \<le> cap" by (simp split: if_splits)
  from encode_bytes_bits [of 0 0 "[]", OF _ _ this] obtain bb out where
    enc: "encode_bytes cap src 0 0 [] = Ok (bb, ?r, out)" and lo: "length out = ?L div 8" and
    bb: "bb < 2 ^ ?r" and bits: "Bits out @ bits_of ?r bb = text_bits src" by auto
  show ?thesis
  proof (cases "?r = 0")
    case True
    then show ?thesis using enc lo len bits by (intro exI [of _ out] exI [of _ 0]) (simp add: huffman_encode_def)
  next
    case False
    let ?n = "8 - ?r"
    let ?b = "word_of_nat (bb * 2 ^ ?n + (2 ^ ?n - 1)) :: byte"
    have "bits_of (?r + ?n) (bb * 2 ^ ?n + (2 ^ ?n - 1)) = bits_of ?r bb @ bits_of ?n (2 ^ ?n - 1)"
      by (rule bits_of_shift) simp
    moreover have "?r + ?n = 8" by simp
    ultimately have "bits_of 8 (unat ?b) = bits_of ?r bb @ replicate ?n True"
      by (simp only: bits_of_byte bits_of_ones)
    then have "Bits (out @ [?b]) = text_bits src @ replicate ?n True" using bits by simp
    then show ?thesis
      using enc lo len assms False by (intro exI [of _ "out @ [?b]"] exI [of _ ?n]) (simp add: huffman_encode_def)
  qed
qed

lemma huffman_decode_bits:
  assumes "Bits e = text_bits src @ replicate n True" and "n < 8" and "length src \<le> cap"
  shows "huffman_decode e cap = Ok src"
proof -
  have "holds 0 0 (Bits e) src n" using assms(1) by (simp add: holds_def)
  moreover have "src \<noteq> [] \<longrightarrow> 0 < length (byte_bits (hd src))"
    using byte_bits_len(1) [of "hd src"] by (auto simp del: length_greater_0_conv)
  ultimately obtain acc al where dec: "decode_bytes cap e 0 0 [] = Ok (acc, al, src)" and h: "holds acc al [] [] n"
    using decode_bytes_holds [of 0 0 e src n "[]" cap] assms by auto
  from h have bits: "bits_of al acc = replicate n True" by (simp add: holds_def)
  from arg_cong [OF this, of length] have "al = n" by simp
  moreover from this bits have "acc mod 2 ^ n = (2 ^ n - 1) mod 2 ^ n"
    by (intro bits_of_inj) (simp only: bits_of_ones)
  ultimately show ?thesis using dec assms(2) by (simp add: huffman_decode_def)
qed

text \<open>
  C22: The Huffman coder is lossless: a string encodes into any buffer of \<^verbatim>\<open>encoded_len\<close> bytes or more, into
  exactly \<^verbatim>\<open>encoded_len\<close> bytes, and decoding these into a buffer that can hold the string gives it back.
\<close>

theorem huffman_roundtrip:
  assumes "encoded_len src \<le> cap" and "length src \<le> cap'"
  shows "\<exists>e. huffman_encode src cap = Ok e \<and> length e = encoded_len src \<and> huffman_decode e cap' = Ok src"
  using huffman_encode_bits [OF assms(1)] huffman_decode_bits [OF _ _ assms(2)] by auto

lemma HUFF_a: "HUFF_TABLE ! 97 = HuffSym 0x3 5" "HUFF_TABLE ! 48 = HuffSym 0x0 5"
  by (simp_all add: HUFF_TABLE_def huff_defs)

theorem huffman_roundtrip_witness:
  "\<exists>e. huffman_encode [97, 48, 97] 2 = Ok e \<and> length e = 2 \<and> huffman_decode e 3 = Ok [97, 48, 97]"
proof -
  have "encoded_len [97, 48, 97] = 2" by (simp add: encoded_len_def HUFF_a)
  then show ?thesis using huffman_roundtrip [of "[97, 48, 97]" 2 3] by simp
qed

end
