(* ===== verification/Hpack_Integer.thy ===== *)
theory Hpack_Integer
  imports Milli_Prelude
begin

unbundle bit_operations_syntax

text \<open>
  The prefix integers of HPACK and QPACK (\<^verbatim>\<open>src/hpack/integer.rs\<close>, RFC 7541 section 5.1): a value in
  the low bits of a byte, continued in groups of seven bits when it does not fit. The reference
  encoding is \<open>prefix_int\<close>; the decoder inverts it for every 64-bit value, and accepts some longer
  encodings whose value it truncates.
\<close>

section \<open>The code\<close>

text \<open>The loop of \<^verbatim>\<open>encode_integer\<close> over the remaining value, from index \<open>i\<close> on.\<close>

function encode_rest :: "nat \<Rightarrow> nat \<Rightarrow> bytes \<Rightarrow> (bytes \<times> nat) res" where
  "encode_rest remaining i buf =
    (if i \<ge> length buf then Err (BufferTooSmall (i + 1))
     else if remaining \<ge> 128 then
       encode_rest (remaining div 2 ^ 7) (i + 1) (buf[i := 0x80 OR word_of_nat (remaining mod 2 ^ 7)])
     else Ok (buf[i := word_of_nat remaining], i + 1))"
  by pat_completeness auto
termination
  by (relation "measure (\<lambda>(remaining, i, buf). remaining)") auto

declare encode_rest.simps [simp del]

definition encode_integer :: "nat \<Rightarrow> nat \<Rightarrow> byte \<Rightarrow> bytes \<Rightarrow> (bytes \<times> nat) res" where
  "encode_integer val prefix_bits first_byte_mask buf =
    (if buf = [] then Err (BufferTooSmall 1)
     else
       let max_prefix = 2 ^ prefix_bits - 1
       in if val < max_prefix then Ok (buf[0 := first_byte_mask OR word_of_nat val], 1)
          else encode_rest (val - max_prefix) 1 (buf[0 := first_byte_mask OR word_of_nat max_prefix]))"

text \<open>The loop of \<^verbatim>\<open>decode_integer\<close>; \<^verbatim>\<open>checked_shl\<close> fails only for a shift of 64 or more.\<close>

definition int_overflow :: error where
  "int_overflow = Transport FrameEncodingError"

function decode_rest :: "bytes \<Rightarrow> nat \<Rightarrow> nat \<Rightarrow> nat \<Rightarrow> (nat \<times> nat) res" where
  "decode_rest buf val shift i =
    (if i \<ge> length buf then Err (BufferTooSmall (i + 1))
     else
       let b = buf ! i;
           addition = (unat (b AND 0x7f) * 2 ^ shift) mod 2 ^ 64
       in if shift \<ge> 64 then Err int_overflow
          else if val + addition > u64_MAX then Err int_overflow
          else if b AND 0x80 = 0 then Ok (val + addition, i + 1)
          else if shift + 7 > 63 then Err int_overflow
          else decode_rest buf (val + addition) (shift + 7) (i + 1))"
  by pat_completeness auto
termination
  by (relation "measure (\<lambda>(buf, val, shift, i). length buf - i)") auto

declare decode_rest.simps [simp del]

definition decode_integer :: "bytes \<Rightarrow> nat \<Rightarrow> (nat \<times> nat) res" where
  "decode_integer buf prefix_bits =
    (if buf = [] then Err (BufferTooSmall 1)
     else
       let max_prefix = 2 ^ prefix_bits - 1;
           val = unat (buf ! 0) mod 2 ^ prefix_bits
       in if val < max_prefix then Ok (val, 1) else decode_rest buf max_prefix 0 1)"

section \<open>The reference encoding\<close>

function rest_bytes :: "nat \<Rightarrow> bytes" where
  "rest_bytes r = (if r \<ge> 128 then word_of_nat (128 + r mod 128) # rest_bytes (r div 128) else [word_of_nat r])"
  by pat_completeness auto
termination
  by (relation "measure id") auto

declare rest_bytes.simps [simp del]

definition prefix_int :: "nat \<Rightarrow> byte \<Rightarrow> nat \<Rightarrow> bytes" where
  "prefix_int prefix_bits m v =
    (let max_prefix = 2 ^ prefix_bits - 1
     in if v < max_prefix then [m OR word_of_nat v]
        else (m OR word_of_nat max_prefix) # rest_bytes (v - max_prefix))"

subsection \<open>Bits of a byte\<close>

lemma continuation_byte:
  assumes "r < 128"
  shows "(0x80 OR word_of_nat r :: byte) = word_of_nat (128 + r)"
proof -
  have "(word_of_nat r :: byte) AND 0x80 = 0"
    using assms by (simp add: byte_high_bit unat_of_nat)
  then have "(word_of_nat r :: byte) + 0x80 = word_of_nat r OR 0x80"
    by (metis add.left_neutral word_plus_and_or)
  then show ?thesis by (simp add: or.commute add.commute)
qed

lemma prefix_byte:
  assumes "pb \<le> 8" and "v < 2 ^ pb" and "take_bit pb (m :: byte) = 0"
  shows "unat (m OR word_of_nat v) mod 2 ^ pb = v"
proof -
  have "v < 2 ^ 8" using assms(1,2) by (meson less_le_trans power_increasing one_le_numeral)
  then have v: "unat (word_of_nat v :: byte) = v" by (simp add: unat_of_nat)
  have "unat (m OR word_of_nat v) mod 2 ^ pb = unat (take_bit pb (m OR word_of_nat v))"
    unfolding unsigned_take_bit_eq by (simp add: take_bit_eq_mod)
  also have "\<dots> = unat (take_bit pb (word_of_nat v :: byte))"
    using assms(3) by simp
  also have "\<dots> = v" using assms(2) v by (simp add: unsigned_take_bit_eq take_bit_nat_eq_self)
  finally show ?thesis .
qed

section \<open>The code against the reference\<close>

lemma length_rest_bytes [simp]: "0 < length (rest_bytes r)"
  by (subst rest_bytes.simps) simp

lemma encode_rest_spec:
  assumes "length out + length (rest_bytes r) \<le> length buf"
  shows "encode_rest r (length out) (out @ drop (length out) buf)
    = Ok (out @ rest_bytes r @ drop (length out + length (rest_bytes r)) buf,
          length out + length (rest_bytes r))"
  using assms
proof (induction r arbitrary: out rule: rest_bytes.induct)
  case (1 r)
  have lt: "length out < length buf" using 1(2) length_rest_bytes [of r] by linarith
  then have upd: "(out @ drop (length out) buf)[length out := x] = (out @ [x]) @ drop (length (out @ [x])) buf" for x
    by (simp add: list_update_append Cons_nth_drop_Suc [symmetric])
  show ?case
  proof (cases "128 \<le> r")
    case True
    then have rb: "rest_bytes r = word_of_nat (128 + r mod 128) # rest_bytes (r div 128)"
      by (subst rest_bytes.simps) simp
    let ?out = "out @ [word_of_nat (128 + r mod 128)]"
    have "encode_rest (r div 128) (length ?out) (?out @ drop (length ?out) buf)
      = Ok (?out @ rest_bytes (r div 128) @ drop (length ?out + length (rest_bytes (r div 128))) buf,
          length ?out + length (rest_bytes (r div 128)))"
      by (rule 1(1) [OF True]) (use 1(2) rb in simp)
    then show ?thesis
      using True lt upd [of "word_of_nat (128 + r mod 128)"] continuation_byte [of "r mod 128"]
      by (subst encode_rest.simps) (simp add: rb)
  next
    case False
    then have "rest_bytes r = [word_of_nat r]" by (subst rest_bytes.simps) simp
    then show ?thesis using False lt upd [of "word_of_nat r"] by (subst encode_rest.simps) simp
  qed
qed

lemma encode_integer_spec:
  assumes "length (prefix_int pb m v) \<le> length buf"
  shows "encode_integer v pb m buf
    = Ok (prefix_int pb m v @ drop (length (prefix_int pb m v)) buf, length (prefix_int pb m v))"
proof (cases buf)
  case (Cons b bs)
  show ?thesis
    using assms encode_rest_spec [of "[m OR word_of_nat (2 ^ pb - 1)]" "v - (2 ^ pb - 1)" buf] Cons
    by (auto simp: encode_integer_def prefix_int_def Let_def)
qed (use assms in \<open>simp add: prefix_int_def Let_def split: if_splits\<close>)

lemma decode_rest_spec:
  assumes "v + r * 2 ^ sh < 2 ^ 64" and "sh \<le> 63" and "drop i buf = rest_bytes r @ rest"
  shows "decode_rest buf v sh i = Ok (v + r * 2 ^ sh, i + length (rest_bytes r))"
  using assms
proof (induction r arbitrary: v sh i rule: rest_bytes.induct)
  case (1 r)
  have i: "i < length buf" using 1(4) length_rest_bytes [of r] by (metis append_is_Nil_conv drop_all length_0_conv not_le nat_less_le)
  have "r mod 128 * 2 ^ sh \<le> r * 2 ^ sh" by simp
  then have low: "v + r mod 128 * 2 ^ sh < 2 ^ 64" "r mod 128 * 2 ^ sh < 2 ^ 64" using 1(2) by linarith+
  show ?case
  proof (cases "128 \<le> r")
    case True
    then have rb: "rest_bytes r = word_of_nat (128 + r mod 128) # rest_bytes (r div 128)"
      by (subst rest_bytes.simps) simp
    have byte: "buf ! i = word_of_nat (128 + r mod 128)" "drop (i + 1) buf = rest_bytes (r div 128) @ rest"
      using 1(4) i rb by (metis append_Cons list.sel(1) hd_drop_conv_nth, metis append_Cons drop_Suc drop_tl list.sel(3) Suc_eq_plus1)
    have u: "unat (word_of_nat (128 + r mod 128) :: byte) = 128 + r mod 128"
      by (simp add: unat_of_nat del: of_nat_add)
    have "(2 :: nat) ^ (7 + sh) \<le> r * 2 ^ sh" using True by (simp only: power_add) simp
    then have "(2 :: nat) ^ (7 + sh) < 2 ^ 64" using 1(2) by linarith
    then have sh: "sh + 7 \<le> 63" using power_less_imp_less_exp [of "2 :: nat" "7 + sh" 64] by simp
    have "r * 2 ^ sh = (r div 128 * 128 + r mod 128) * 2 ^ sh" by simp
    then have split: "v + r mod 128 * 2 ^ sh + r div 128 * 2 ^ (sh + 7) = v + r * 2 ^ sh"
      by (simp only: power_add distrib_right) simp
    have "decode_rest buf (v + r mod 128 * 2 ^ sh) (sh + 7) (i + 1)
      = Ok (v + r mod 128 * 2 ^ sh + r div 128 * 2 ^ (sh + 7), i + 1 + length (rest_bytes (r div 128)))"
      by (rule 1(1) [OF True]) (use 1(2) split sh byte in simp_all)
    then show ?thesis
      using i byte(1) u low sh 1(3) split
      by (subst decode_rest.simps) (simp add: Let_def byte_high_bit byte_low_bits rb del: of_nat_add)
  next
    case False
    then have rb: "rest_bytes r = [word_of_nat r]" by (subst rest_bytes.simps) simp
    then have "buf ! i = word_of_nat r" using 1(4) i by (metis append_Cons list.sel(1) hd_drop_conv_nth)
    moreover have "unat (word_of_nat r :: byte) = r" using False by (simp add: unat_of_nat)
    ultimately show ?thesis
      using i low 1(3) False
      by (subst decode_rest.simps) (simp add: Let_def byte_high_bit byte_low_bits rb)
  qed
qed

lemma decode_prefix_int:
  assumes "1 \<le> pb" and "pb \<le> 8" and "take_bit pb m = 0" and "v < 2 ^ 64"
  shows "decode_integer (prefix_int pb m v @ rest) pb = Ok (v, length (prefix_int pb m v))"
proof (cases "v < 2 ^ pb - 1")
  case True
  then show ?thesis
    using assms prefix_byte [of pb v m] by (simp add: decode_integer_def prefix_int_def Let_def)
next
  case False
  have "unat (m OR word_of_nat (2 ^ pb - 1)) mod 2 ^ pb = 2 ^ pb - 1"
    by (rule prefix_byte) (use assms in auto)
  moreover have "decode_rest ((m OR word_of_nat (2 ^ pb - 1)) # rest_bytes (v - (2 ^ pb - 1)) @ rest)
      (2 ^ pb - 1) 0 1 = Ok (2 ^ pb - 1 + (v - (2 ^ pb - 1)) * 2 ^ 0, 1 + length (rest_bytes (v - (2 ^ pb - 1))))"
    by (rule decode_rest_spec) (use False assms(4) in auto)
  ultimately show ?thesis
    using False by (simp add: decode_integer_def prefix_int_def Let_def)
qed

lemma decode_rest_bound:
  "decode_rest buf v sh i = Ok (v', n) \<Longrightarrow> i < n \<and> n \<le> length buf \<and> v' < 2 ^ 64"
proof (induction buf v sh i rule: decode_rest.induct)
  case (1 buf v sh i)
  from 1(2) show ?case
    by (subst (asm) decode_rest.simps)
       (auto simp: Let_def split: if_splits dest!: 1(1) [OF _ refl refl])
qed

lemma decode_integer_bound:
  assumes "decode_integer buf pb = Ok (v, n)" and "pb \<le> 8"
  shows "0 < n \<and> n \<le> length buf \<and> v < 2 ^ 64"
proof -
  have "(2 :: nat) ^ pb \<le> 2 ^ 8" using assms(2) by (intro power_increasing) auto
  then show ?thesis
    using assms by (auto simp: decode_integer_def Let_def Suc_le_eq split: if_splits dest!: decode_rest_bound)
qed

lemma decode_integer_no_panic [panic_free]: "decode_integer buf pb \<noteq> Panic"
proof -
  have "decode_rest buf v sh i \<noteq> Panic" for v sh i
  proof (induction buf v sh i rule: decode_rest.induct)
    case (1 buf v sh i)
    then show ?case by (subst decode_rest.simps) (auto simp: Let_def)
  qed
  then show ?thesis by (auto simp: decode_integer_def Let_def)
qed

text \<open>
  \<^verbatim>\<open>checked_shl\<close> does not see bits that are shifted out: the encoding of \<open>2 ^ 64 + 127\<close> is decoded to 127
  where RFC 7541 section 5.1 asks for a decoding error.
\<close>

theorem overlong_integer_truncated:
  "decode_integer [0x7f, 0x80, 0x80, 0x80, 0x80, 0x80, 0x80, 0x80, 0x80, 0x80, 0x02] 7 = Ok (127, 11)"
  by (simp add: decode_integer_def decode_rest.simps Let_def)

section \<open>Property\<close>

text \<open>
  Prefix integers survive the wire. For every 64-bit value, every prefix size and every mask
  that leaves the prefix bits clear, what \<open>encode_integer\<close> writes into a buffer with enough room is
  decoded by \<open>decode_integer\<close>, whatever follows it, to the same value and length; a buffer that is too
  short is an error.
\<close>

theorem integer_roundtrip:
  assumes "1 \<le> pb" and "pb \<le> 8" and "take_bit pb m = 0" and "v < 2 ^ 64"
    and "length (prefix_int pb m v) \<le> length buf"
  shows "\<exists>buf' n. encode_integer v pb m buf = Ok (buf', n) \<and> n = length (prefix_int pb m v)
    \<and> drop n buf' = drop n buf \<and> decode_integer (take n buf' @ rest) pb = Ok (v, n)"
  using encode_integer_spec [OF assms(5)] decode_prefix_int [OF assms(1-4)] by simp

theorem integer_roundtrip_witness:
  "\<exists>buf' n. encode_integer 1337 5 0x20 [0, 0, 0, 9] = Ok (buf', n) \<and> drop n buf' = [9]
    \<and> decode_integer (take n buf' @ [5]) 5 = Ok (1337, n)"
proof -
  have len: "length (prefix_int 5 0x20 1337) = 3"
    by (simp add: prefix_int_def rest_bytes.simps Let_def)
  have "\<exists>buf' n. encode_integer 1337 5 0x20 [0, 0, 0, 9] = Ok (buf', n) \<and> n = length (prefix_int 5 0x20 1337)
    \<and> drop n buf' = drop n [0, 0, 0, 9] \<and> decode_integer (take n buf' @ [5]) 5 = Ok (1337, n)"
    by (rule integer_roundtrip) (simp_all add: len take_bit_eq_mod)
  then show ?thesis unfolding len by auto
qed

end
