(* ===== verification/Hpack.thy ===== *)
theory Hpack
  imports Huffman Hpack_Integer
begin

unbundle bit_operations_syntax

text \<open>
  HPACK (\<^verbatim>\<open>src/hpack/static_table.rs\<close>, \<^verbatim>\<open>src/hpack/codec.rs\<close>, built with \<^verbatim>\<open>alloc\<close>): the static table, the
  encoder, which never indexes, and the decoder with its dynamic table. The decoder reports every
  header to a callback as soon as it is decoded, also those before an error; the model collects them
  beside the decoder. The dynamic table refines the eviction rule of RFC 7541 section 4.4, and the
  decoder inverts the encoder.
\<close>

section \<open>The static table\<close>

datatype static_entry = StaticEntry (se_name: bytes) (se_value: bytes)

datatype lookup_result = ExactMatch nat | NameMatch nat | NotFound

definition static_0 :: "static_entry list" where
  "static_0 = [
    StaticEntry (ascii '':authority'') (ascii ''''),
    StaticEntry (ascii '':method'') (ascii ''GET''),
    StaticEntry (ascii '':method'') (ascii ''POST''),
    StaticEntry (ascii '':path'') (ascii ''/''),
    StaticEntry (ascii '':path'') (ascii ''/index.html''),
    StaticEntry (ascii '':scheme'') (ascii ''http''),
    StaticEntry (ascii '':scheme'') (ascii ''https''),
    StaticEntry (ascii '':status'') (ascii ''200''),
    StaticEntry (ascii '':status'') (ascii ''204''),
    StaticEntry (ascii '':status'') (ascii ''206''),
    StaticEntry (ascii '':status'') (ascii ''304''),
    StaticEntry (ascii '':status'') (ascii ''400''),
    StaticEntry (ascii '':status'') (ascii ''404''),
    StaticEntry (ascii '':status'') (ascii ''500''),
    StaticEntry (ascii ''accept-charset'') (ascii ''''),
    StaticEntry (ascii ''accept-encoding'') (ascii ''gzip, deflate''),
    StaticEntry (ascii ''accept-language'') (ascii ''''),
    StaticEntry (ascii ''accept-ranges'') (ascii ''''),
    StaticEntry (ascii ''accept'') (ascii ''''),
    StaticEntry (ascii ''access-control-allow-origin'') (ascii '''')]"

definition static_1 :: "static_entry list" where
  "static_1 = [
    StaticEntry (ascii ''age'') (ascii ''''),
    StaticEntry (ascii ''allow'') (ascii ''''),
    StaticEntry (ascii ''authorization'') (ascii ''''),
    StaticEntry (ascii ''cache-control'') (ascii ''''),
    StaticEntry (ascii ''content-disposition'') (ascii ''''),
    StaticEntry (ascii ''content-encoding'') (ascii ''''),
    StaticEntry (ascii ''content-language'') (ascii ''''),
    StaticEntry (ascii ''content-length'') (ascii ''''),
    StaticEntry (ascii ''content-location'') (ascii ''''),
    StaticEntry (ascii ''content-range'') (ascii ''''),
    StaticEntry (ascii ''content-type'') (ascii ''''),
    StaticEntry (ascii ''cookie'') (ascii ''''),
    StaticEntry (ascii ''date'') (ascii ''''),
    StaticEntry (ascii ''etag'') (ascii ''''),
    StaticEntry (ascii ''expect'') (ascii ''''),
    StaticEntry (ascii ''expires'') (ascii ''''),
    StaticEntry (ascii ''from'') (ascii ''''),
    StaticEntry (ascii ''host'') (ascii ''''),
    StaticEntry (ascii ''if-match'') (ascii ''''),
    StaticEntry (ascii ''if-modified-since'') (ascii '''')]"

definition static_2 :: "static_entry list" where
  "static_2 = [
    StaticEntry (ascii ''if-none-match'') (ascii ''''),
    StaticEntry (ascii ''if-range'') (ascii ''''),
    StaticEntry (ascii ''if-unmodified-since'') (ascii ''''),
    StaticEntry (ascii ''last-modified'') (ascii ''''),
    StaticEntry (ascii ''link'') (ascii ''''),
    StaticEntry (ascii ''location'') (ascii ''''),
    StaticEntry (ascii ''max-forwards'') (ascii ''''),
    StaticEntry (ascii ''proxy-authenticate'') (ascii ''''),
    StaticEntry (ascii ''proxy-authorization'') (ascii ''''),
    StaticEntry (ascii ''range'') (ascii ''''),
    StaticEntry (ascii ''referer'') (ascii ''''),
    StaticEntry (ascii ''refresh'') (ascii ''''),
    StaticEntry (ascii ''retry-after'') (ascii ''''),
    StaticEntry (ascii ''server'') (ascii ''''),
    StaticEntry (ascii ''set-cookie'') (ascii ''''),
    StaticEntry (ascii ''strict-transport-security'') (ascii ''''),
    StaticEntry (ascii ''transfer-encoding'') (ascii ''''),
    StaticEntry (ascii ''user-agent'') (ascii ''''),
    StaticEntry (ascii ''vary'') (ascii ''''),
    StaticEntry (ascii ''via'') (ascii '''')]"

definition static_3 :: "static_entry list" where
  "static_3 = [
    StaticEntry (ascii ''www-authenticate'') (ascii '''')]"

definition STATIC_TABLE :: "static_entry list" where
  "STATIC_TABLE = static_0 @ static_1 @ static_2 @ static_3"

fun lookup_from :: "nat \<Rightarrow> nat option \<Rightarrow> static_entry list \<Rightarrow> bytes \<Rightarrow> bytes \<Rightarrow> lookup_result" where
  "lookup_from i name_match [] name val = (case name_match of Some i \<Rightarrow> NameMatch i | None \<Rightarrow> NotFound)"
| "lookup_from i name_match (entry # rest) name val =
    (if se_name entry = name then
       if se_value entry = val then ExactMatch i
       else lookup_from (i + 1) (if name_match = None then Some i else name_match) rest name val
     else lookup_from (i + 1) name_match rest name val)"

definition static_lookup :: "bytes \<Rightarrow> bytes \<Rightarrow> lookup_result" where
  "static_lookup name val = lookup_from 1 None STATIC_TABLE name val"

section \<open>The encoder\<close>

definition encode_string_literal :: "bytes \<Rightarrow> bytes \<Rightarrow> (bytes \<times> nat) res" where
  "encode_string_literal s buf =
    res_bind (write_from 0 buf (encode_integer (length s) 7 0x00)) (\<lambda>(buf, offset).
      if length buf - offset < length s then Err (BufferTooSmall (offset + length s))
      else res_bind (copy_at buf offset s) (\<lambda>buf. Ok (buf, offset + length s)))"

text \<open>The body of the loop of \<^verbatim>\<open>encode\<close>.\<close>

definition encode_field :: "bytes \<Rightarrow> bytes \<Rightarrow> bytes \<Rightarrow> nat \<Rightarrow> (bytes \<times> nat) res" where
  "encode_field name val buf offset =
    (case static_lookup name val of
       ExactMatch i \<Rightarrow> write_from offset buf (encode_integer i 7 0x80)
     | NameMatch i \<Rightarrow>
         res_bind (write_from offset buf (encode_integer i 4 0x00)) (\<lambda>(buf, offset).
           write_from offset buf (encode_string_literal val))
     | NotFound \<Rightarrow>
         if offset \<ge> length buf then Err (BufferTooSmall (offset + 1))
         else
           res_bind (write_from (offset + 1) (buf[offset := 0x00]) (encode_string_literal name))
             (\<lambda>(buf, offset). write_from offset buf (encode_string_literal val)))"

fun hpack_encode_from :: "(bytes \<times> bytes) list \<Rightarrow> bytes \<Rightarrow> nat \<Rightarrow> (bytes \<times> nat) res" where
  "hpack_encode_from [] buf offset = Ok (buf, offset)"
| "hpack_encode_from ((name, val) # headers) buf offset =
    res_bind (encode_field name val buf offset) (\<lambda>(buf, offset). hpack_encode_from headers buf offset)"

definition hpack_encode :: "(bytes \<times> bytes) list \<Rightarrow> bytes \<Rightarrow> (bytes \<times> nat) res" where
  "hpack_encode headers buf = hpack_encode_from headers buf 0"

section \<open>The decoder\<close>

record hpack_decoder =
  dynamic :: "(bytes \<times> bytes) list"
  dynamic_size :: nat
  max_size :: nat

definition INITIAL_DYNAMIC_TABLE_SIZE :: nat where
  "INITIAL_DYNAMIC_TABLE_SIZE = 4096"

definition hpack_decoder_new :: hpack_decoder where
  "hpack_decoder_new = \<lparr>dynamic = [], dynamic_size = 0, max_size = INITIAL_DYNAMIC_TABLE_SIZE\<rparr>"

definition entry_size :: "bytes \<times> bytes \<Rightarrow> nat" where
  "entry_size e = length (fst e) + length (snd e) + 32"

definition table_lookup :: "hpack_decoder \<Rightarrow> nat \<Rightarrow> (bytes \<times> bytes) res" where
  "table_lookup d index =
    (if index = 0 then Err InvalidState
     else if index \<le> length STATIC_TABLE then
       res_bind (idx STATIC_TABLE (index - 1)) (\<lambda>entry. Ok (se_name entry, se_value entry))
     else if index - length STATIC_TABLE - 1 < length (dynamic d)
     then Ok (dynamic d ! (index - length STATIC_TABLE - 1))
     else Err InvalidState)"

text \<open>The eviction loop of \<^verbatim>\<open>dynamic_insert\<close>: None when the entry does not fit into the whole table.\<close>

function make_room :: "nat \<Rightarrow> hpack_decoder \<Rightarrow> hpack_decoder \<times> bool" where
  "make_room need d =
    (if dynamic_size d + need > max_size d then
       if dynamic d = [] then (d, False)
       else make_room need (d\<lparr>dynamic := butlast (dynamic d),
              dynamic_size := dynamic_size d - entry_size (last (dynamic d))\<rparr>)
     else (d, True))"
  by pat_completeness auto
termination
  by (relation "measure (\<lambda>(need, d). length (dynamic d))") auto

declare make_room.simps [simp del]

definition dynamic_insert :: "bytes \<Rightarrow> bytes \<Rightarrow> hpack_decoder \<Rightarrow> hpack_decoder" where
  "dynamic_insert name val d =
    (let need = length name + length val + 32
     in case make_room need d of
          (d, True) \<Rightarrow> d\<lparr>dynamic := (name, val) # dynamic d, dynamic_size := dynamic_size d + need\<rparr>
        | (d, False) \<Rightarrow> d)"

function shrink :: "hpack_decoder \<Rightarrow> hpack_decoder" where
  "shrink d =
    (if dynamic_size d > max_size d then
       if dynamic d = [] then d
       else shrink (d\<lparr>dynamic := butlast (dynamic d),
              dynamic_size := dynamic_size d - entry_size (last (dynamic d))\<rparr>)
     else d)"
  by pat_completeness auto
termination
  by (relation "measure (\<lambda>d. length (dynamic d))") auto

declare shrink.simps [simp del]

definition resize :: "nat \<Rightarrow> hpack_decoder \<Rightarrow> hpack_decoder \<times> unit res" where
  "resize new_size d =
    (if new_size > INITIAL_DYNAMIC_TABLE_SIZE then (d, Err InvalidState)
     else (shrink (d\<lparr>max_size := new_size\<rparr>), Ok ()))"

definition parse_string_header :: "nat \<Rightarrow> bytes \<Rightarrow> (bool \<times> nat \<times> nat) res" where
  "parse_string_header uw src =
    (if src = [] then Err (BufferTooSmall 1)
     else
       let huffman = src ! 0 AND 0x80 \<noteq> 0
       in res_bind (decode_integer src 7) (\<lambda>(len, len_consumed).
            let len = as_usize uw len
            in if length src - len_consumed < len then Err (BufferTooSmall (usize_add uw len_consumed len))
               else Ok (huffman, len, len_consumed)))"

text \<open>The name of a literal field and the position after it: from a table, or a string literal.\<close>

definition literal_name :: "nat \<Rightarrow> hpack_decoder \<Rightarrow> bytes \<Rightarrow> nat \<Rightarrow> nat \<Rightarrow> (bytes \<times> nat) res" where
  "literal_name uw d src pos name_index =
    (if name_index > 0 then
       res_bind (table_lookup d name_index) (\<lambda>(name, _).
         if length name > 256 then Err (BufferTooSmall (length name)) else Ok (name, pos))
     else
       res_bind (slice_from src pos) (\<lambda>rest.
       res_bind (parse_string_header uw rest) (\<lambda>(huf_n, len_n, lc_n).
       res_bind (slice src (pos + lc_n) (pos + lc_n + len_n)) (\<lambda>raw_name.
         if huf_n then res_bind (huffman_decode raw_name 256) (\<lambda>name. Ok (name, pos + lc_n + len_n))
         else if len_n > 256 then Err (BufferTooSmall len_n)
         else Ok (raw_name, pos + lc_n + len_n)))))"

definition literal_value :: "nat \<Rightarrow> bytes \<Rightarrow> nat \<Rightarrow> (bytes \<times> nat) res" where
  "literal_value uw src pos =
    res_bind (slice_from src pos) (\<lambda>rest.
    res_bind (parse_string_header uw rest) (\<lambda>(huf_v, len_v, lc_v).
    res_bind (slice src (pos + lc_v) (pos + lc_v + len_v)) (\<lambda>raw_value.
      if huf_v then res_bind (huffman_decode raw_value 1024) (\<lambda>val. Ok (val, pos + lc_v + len_v))
      else Ok (raw_value, pos + lc_v + len_v))))"

type_synonym decoding = "hpack_decoder \<times> (bytes \<times> bytes) list"

definition decode_literal_field ::
  "nat \<Rightarrow> bytes \<Rightarrow> nat \<Rightarrow> nat \<Rightarrow> bool \<Rightarrow> decoding \<Rightarrow> decoding \<times> nat res" where
  "decode_literal_field uw src start name_index index s =
    sbind (s, literal_name uw (fst s) src start name_index) (\<lambda>s (name, pos).
    sbind (s, literal_value uw src pos) (\<lambda>(d, out) (val, pos).
      let d = (if index then dynamic_insert name val d else d)
      in ((d, out @ [(name, val)]), Ok (pos - start))))"

text \<open>One iteration of the loop of \<^verbatim>\<open>decode\<close>; the result is the new position.\<close>

definition decode_field :: "nat \<Rightarrow> bytes \<Rightarrow> nat \<Rightarrow> decoding \<Rightarrow> decoding \<times> nat res" where
  "decode_field uw src pos s =
    sbind (s, idx src pos) (\<lambda>s first.
    sbind (s, slice_from src pos) (\<lambda>s rest.
      if first AND 0x80 \<noteq> 0 then
        sbind (s, decode_integer rest 7) (\<lambda>s (index, consumed).
        sbind (s, table_lookup (fst s) (as_usize uw index)) (\<lambda>(d, out) header.
          ((d, out @ [header]), Ok (pos + consumed))))
      else if first AND 0xc0 = 0x40 then
        sbind (s, decode_integer rest 6) (\<lambda>s (name_index, consumed).
        sbind (decode_literal_field uw src (pos + consumed) (as_usize uw name_index) True s) (\<lambda>s n.
          (s, Ok (pos + consumed + n))))
      else if first AND 0xf0 = 0x00 then
        sbind (s, decode_integer rest 4) (\<lambda>s (name_index, consumed).
        sbind (decode_literal_field uw src (pos + consumed) (as_usize uw name_index) False s) (\<lambda>s n.
          (s, Ok (pos + consumed + n))))
      else if first AND 0xf0 = 0x10 then
        sbind (s, decode_integer rest 4) (\<lambda>s (name_index, consumed).
        sbind (decode_literal_field uw src (pos + consumed) (as_usize uw name_index) False s) (\<lambda>s n.
          (s, Ok (pos + consumed + n))))
      else if first AND 0xe0 = 0x20 then
        sbind (s, decode_integer rest 5) (\<lambda>(d, out) (new_size, consumed).
          case resize (as_usize uw new_size) d of
            (d, Ok _) \<Rightarrow> ((d, out), Ok (pos + consumed))
          | (d, Err e) \<Rightarrow> ((d, out), Err e)
          | (d, Panic) \<Rightarrow> ((d, out), Panic))
      else (s, Err InvalidState)))"

lemma literal_value_pos: "literal_value uw src pos = Ok (v, p) \<Longrightarrow> pos \<le> p \<and> p \<le> length src"
  by (auto simp: literal_value_def res_bind_eq_Ok buf_Ok split: if_splits)

lemma literal_name_pos: "literal_name uw d src pos i = Ok (v, p) \<Longrightarrow> pos \<le> p"
  by (auto simp: literal_name_def res_bind_eq_Ok buf_Ok split: if_splits)

lemma decode_literal_field_Ok:
  assumes "literal_name uw d src start i = Ok (name, p)" and "literal_value uw src p = Ok (val, p')"
  shows "decode_literal_field uw src start i index (d, out) =
    ((if index then dynamic_insert name val d else d, out @ [(name, val)]), Ok (p' - start))"
  using assms by (simp add: decode_literal_field_def)

lemma decode_literal_field_OkE:
  assumes "decode_literal_field uw src start i index (d, out) = (s', Ok n)"
  obtains name p val p' where "literal_name uw d src start i = Ok (name, p)" and "literal_value uw src p = Ok (val, p')"
    and "n = p' - start" and "s' = (if index then dynamic_insert name val d else d, out @ [(name, val)])"
proof -
  obtain name p where n: "literal_name uw d src start i = Ok (name, p)"
    using assms by (auto simp: decode_literal_field_def sbind_eq_Ok)
  moreover obtain val p' where "literal_value uw src p = Ok (val, p')"
    using assms n by (auto simp: decode_literal_field_def sbind_eq_Ok)
  ultimately show thesis using assms by (intro that) (auto simp: decode_literal_field_Ok)
qed

lemma decode_field_progress:
  assumes "decode_field uw src pos s = (s', Ok p)"
  shows "pos < p"
  using assms
  by (cases s) (auto simp: decode_field_def resize_def sbind_eq_Ok buf_Ok dest!: decode_integer_bound split: if_splits)

function hpack_decode_from :: "nat \<Rightarrow> bytes \<Rightarrow> nat \<Rightarrow> decoding \<Rightarrow> decoding \<times> nat res" where
  "hpack_decode_from uw src pos s =
    (if pos < length src then
       sbind (decode_field uw src pos s) (\<lambda>s pos. hpack_decode_from uw src pos s)
     else (s, Ok pos))"
  by pat_completeness auto
termination
  by (relation "measure (\<lambda>(uw, src, pos, s). length src - pos)") (auto dest!: decode_field_progress)

declare hpack_decode_from.simps [simp del]

definition hpack_decode :: "nat \<Rightarrow> bytes \<Rightarrow> hpack_decoder \<Rightarrow> decoding \<times> nat res" where
  "hpack_decode uw src d = hpack_decode_from uw src 0 (d, [])"

section \<open>The dynamic table\<close>

text \<open>
  The rule of the RFC: a table holds the newest entries whose sizes fit. An insertion adds the entry
  in front and a new limit changes the limit, and the entries that no longer fit go from the back.
\<close>

fun evict :: "nat \<Rightarrow> (bytes \<times> bytes) list \<Rightarrow> (bytes \<times> bytes) list" where
  "evict limit [] = []"
| "evict limit (e # es) = (if entry_size e \<le> limit then e # evict (limit - entry_size e) es else [])"

definition table_size :: "(bytes \<times> bytes) list \<Rightarrow> nat" where
  "table_size es = sum_list (map entry_size es)"

lemma table_size_simps [simp]:
  "table_size [] = 0" "table_size (e # es) = entry_size e + table_size es"
  "table_size (xs @ ys) = table_size xs + table_size ys"
  by (simp_all add: table_size_def)

lemma evict_fits: "table_size es \<le> limit \<Longrightarrow> evict limit es = es"
  by (induction limit es rule: evict.induct) auto

lemma evict_size: "table_size (evict limit es) \<le> limit"
  by (induction limit es rule: evict.induct) auto

lemma evict_last: "limit < table_size (es @ [e]) \<Longrightarrow> evict limit (es @ [e]) = evict limit es"
  by (induction limit es rule: evict.induct) auto

definition table_inv :: "hpack_decoder \<Rightarrow> bool" where
  "table_inv d \<longleftrightarrow> dynamic_size d = table_size (dynamic d) \<and> dynamic_size d \<le> max_size d \<and>
    max_size d \<le> INITIAL_DYNAMIC_TABLE_SIZE"

lemma make_room_spec:
  assumes "dynamic_size d = table_size (dynamic d)"
  shows "make_room need d =
    (let es = evict (max_size d - need) (dynamic d)
     in if need \<le> max_size d then (d\<lparr>dynamic := es, dynamic_size := table_size es\<rparr>, True)
        else (d\<lparr>dynamic := [], dynamic_size := 0\<rparr>, False))"
  using assms
proof (induction need d rule: make_room.induct)
  case (1 need d)
  show ?case
  proof (cases "dynamic_size d + need > max_size d \<and> dynamic d \<noteq> []")
    case True
    then obtain es e where es: "dynamic d = es @ [e]" by (metis append_butlast_last_id)
    have "make_room need d = make_room need (d\<lparr>dynamic := es, dynamic_size := table_size es\<rparr>)"
      using True es 1(2) by (subst make_room.simps) simp
    with 1 True es show ?thesis using evict_last [of "max_size d - need" es e] by (simp add: Let_def)
  next
    case False
    then show ?thesis
      using 1(2) by (subst make_room.simps) (auto simp: Let_def evict_fits)
  qed
qed

lemma shrink_spec:
  assumes "dynamic_size d = table_size (dynamic d)"
  shows "shrink d = d\<lparr>dynamic := evict (max_size d) (dynamic d), dynamic_size := table_size (evict (max_size d) (dynamic d))\<rparr>"
  using assms
proof (induction d rule: shrink.induct)
  case (1 d)
  show ?case
  proof (cases "dynamic_size d > max_size d \<and> dynamic d \<noteq> []")
    case True
    then obtain es e where es: "dynamic d = es @ [e]" by (metis append_butlast_last_id)
    then have "shrink d = shrink (d\<lparr>dynamic := es, dynamic_size := table_size es\<rparr>)"
      using True 1(2) by (subst shrink.simps) simp
    then show ?thesis using 1 True es evict_last [of "max_size d" es e] by simp
  next
    case False
    then show ?thesis using 1(2) by (subst shrink.simps) (auto simp: evict_fits)
  qed
qed

lemma dynamic_insert_spec:
  assumes "table_inv d"
  shows "dynamic (dynamic_insert n v d) = evict (max_size d) ((n, v) # dynamic d)"
    and "max_size (dynamic_insert n v d) = max_size d" and "table_inv (dynamic_insert n v d)"
proof -
  have "dynamic_size d = table_size (dynamic d)" using assms by (simp add: table_inv_def)
  note room = make_room_spec [OF this, of "length n + length v + 32"]
  show "dynamic (dynamic_insert n v d) = evict (max_size d) ((n, v) # dynamic d)"
    "max_size (dynamic_insert n v d) = max_size d"
    by (simp_all add: dynamic_insert_def room Let_def entry_size_def)
  show "table_inv (dynamic_insert n v d)"
    using assms evict_size [of "max_size d - (length n + length v + 32)" "dynamic d"]
    by (auto simp: dynamic_insert_def room Let_def entry_size_def table_inv_def)
qed

lemma resize_spec:
  assumes "table_inv d" and "resize n d = (d', r)"
  shows "table_inv d'"
    and "r = Ok () \<Longrightarrow> max_size d' = n \<and> dynamic d' = evict n (dynamic d)"
    and "r \<noteq> Ok () \<Longrightarrow> d' = d \<and> r = Err InvalidState"
  using assms evict_size [of n "dynamic d"]
  by (auto simp: resize_def table_inv_def shrink_spec split: if_splits)

section \<open>The format\<close>

definition string_bytes :: "bytes \<Rightarrow> bytes" where
  "string_bytes s = prefix_int 7 0x00 (length s) @ s"

fun field_bytes :: "bytes \<times> bytes \<Rightarrow> bytes" where
  "field_bytes (name, val) =
    (case static_lookup name val of
       ExactMatch i \<Rightarrow> prefix_int 7 0x80 i
     | NameMatch i \<Rightarrow> prefix_int 4 0x00 i @ string_bytes val
     | NotFound \<Rightarrow> prefix_int 4 0x00 0 @ string_bytes name @ string_bytes val)"

declare field_bytes.simps [simp del]

subsection \<open>The encoder writes it\<close>

text \<open>A writer that puts \<open>w\<close> at the front of any buffer that has the room.\<close>

definition writes :: "('a list \<Rightarrow> ('a list \<times> nat) res) \<Rightarrow> 'a list \<Rightarrow> bool" where
  "writes f w \<longleftrightarrow> (\<forall>buf. length w \<le> length buf \<longrightarrow> f buf = Ok (w @ drop (length w) buf, length w))"

lemma writes_from:
  assumes "writes f w" and "length (out @ w) \<le> length buf"
  shows "write_from (length out) (out @ drop (length out) buf) f
    = Ok ((out @ w) @ drop (length (out @ w)) buf, length (out @ w))"
  using assms by (simp add: writes_def write_from_def add.commute)

lemma encode_integer_writes: "writes (encode_integer v pb m) (prefix_int pb m v)"
  by (simp add: writes_def encode_integer_spec)

lemma encode_string_literal_writes: "writes (encode_string_literal s) (string_bytes s)"
  unfolding writes_def
proof (intro allI impI)
  fix buf :: bytes assume room: "length (string_bytes s) \<le> length buf"
  let ?p = "prefix_int 7 0 (length s)"
  have "write_from 0 buf (encode_integer (length s) 7 0x00) = Ok (?p @ drop (length ?p) buf, length ?p)"
    using writes_from [OF encode_integer_writes, of "[]" 7 0 "length s" buf] room by (simp add: string_bytes_def)
  then show "encode_string_literal s buf = Ok (string_bytes s @ drop (length (string_bytes s)) buf, length (string_bytes s))"
    using room by (simp add: encode_string_literal_def string_bytes_def add.commute)
qed

lemma prefix_int_zero: "prefix_int 4 0x00 0 = [0x00]"
  by (simp add: prefix_int_def)

lemma list_update_drop:
  "length out < length buf \<Longrightarrow> (out @ drop (length out) buf)[length out := b] = (out @ [b]) @ drop (length (out @ [b])) buf"
  by (simp add: list_update_append Cons_nth_drop_Suc [symmetric])

lemma encode_field_writes:
  assumes "length (out @ field_bytes (name, val)) \<le> length buf"
  shows "encode_field name val (out @ drop (length out) buf) (length out) =
    Ok ((out @ field_bytes (name, val)) @ drop (length (out @ field_bytes (name, val))) buf,
        length (out @ field_bytes (name, val)))"
proof (cases "static_lookup name val")
  case (ExactMatch i)
  then show ?thesis
    using assms writes_from [OF encode_integer_writes [of i 7 "0x80"], of out buf]
    by (simp add: encode_field_def field_bytes.simps)
next
  case (NameMatch i)
  let ?out = "out @ prefix_int 4 0x00 i"
  have "write_from (length out) (out @ drop (length out) buf) (encode_integer i 4 0x00)
    = Ok (?out @ drop (length ?out) buf, length ?out)"
    using assms NameMatch by (intro writes_from encode_integer_writes) (simp add: field_bytes.simps)
  moreover have "write_from (length ?out) (?out @ drop (length ?out) buf) (encode_string_literal val)
    = Ok ((?out @ string_bytes val) @ drop (length (?out @ string_bytes val)) buf, length (?out @ string_bytes val))"
    using assms NameMatch by (intro writes_from encode_string_literal_writes) (simp add: field_bytes.simps)
  ultimately show ?thesis using NameMatch by (simp add: encode_field_def field_bytes.simps)
next
  case NotFound
  let ?out = "out @ [0x00]"
  let ?out' = "?out @ string_bytes name"
  have room: "length out < length buf"
    using assms NotFound by (simp add: field_bytes.simps prefix_int_zero)
  have "write_from (length ?out) (?out @ drop (length ?out) buf) (encode_string_literal name)
    = Ok (?out' @ drop (length ?out') buf, length ?out')"
    using assms NotFound by (intro writes_from encode_string_literal_writes) (simp add: field_bytes.simps prefix_int_zero)
  moreover have "write_from (length ?out') (?out' @ drop (length ?out') buf) (encode_string_literal val)
    = Ok ((?out' @ string_bytes val) @ drop (length (?out' @ string_bytes val)) buf, length (?out' @ string_bytes val))"
    using assms NotFound by (intro writes_from encode_string_literal_writes) (simp add: field_bytes.simps prefix_int_zero)
  ultimately show ?thesis
    using NotFound list_update_drop [OF room, of 0] room
    by (simp add: encode_field_def field_bytes.simps prefix_int_zero)
qed

lemma hpack_encode_from_spec:
  assumes "length (out @ concat (map field_bytes hs)) \<le> length buf"
  shows "hpack_encode_from hs (out @ drop (length out) buf) (length out) =
    Ok ((out @ concat (map field_bytes hs)) @ drop (length (out @ concat (map field_bytes hs))) buf,
        length (out @ concat (map field_bytes hs)))"
  using assms
proof (induction hs arbitrary: out)
  case (Cons h hs)
  obtain name val where h: "h = (name, val)" by fastforce
  have "length (out @ field_bytes (name, val)) \<le> length buf" using Cons(2) h by simp
  from encode_field_writes [OF this] Cons.IH [of "out @ field_bytes h"] Cons(2) show ?case
    by (simp add: h)
qed simp

lemma hpack_encode_spec:
  "length (concat (map field_bytes hs)) \<le> length buf \<Longrightarrow> hpack_encode hs buf =
    Ok (concat (map field_bytes hs) @ drop (length (concat (map field_bytes hs))) buf,
        length (concat (map field_bytes hs)))"
  using hpack_encode_from_spec [of "[]" hs buf] by (simp add: hpack_encode_def)

subsection \<open>The decoder reads it\<close>

lemma parse_string_bytes:
  assumes "length s < 2 ^ uw" and "length s < 2 ^ 64"
  shows "parse_string_header uw (string_bytes s @ rest) = Ok (False, length s, length (prefix_int 7 0x00 (length s)))"
proof -
  let ?p = "prefix_int 7 0x00 (length s)"
  have "decode_integer (?p @ (s @ rest)) 7 = Ok (length s, length ?p)"
    using assms(2) by (intro decode_prefix_int) simp_all
  moreover have "?p ! 0 AND 0x80 = 0" "?p \<noteq> []"
    by (auto simp: prefix_int_def Let_def byte_high_bit unat_of_nat)
  ultimately show ?thesis
    using assms by (simp add: parse_string_header_def string_bytes_def nth_append Let_def)
qed

lemma literal_string:
  assumes "length s < 2 ^ uw" and "length s < 2 ^ 64" and "drop pos src = string_bytes s @ rest" and "pos \<le> length src"
  shows "literal_value uw src pos = Ok (s, pos + length (string_bytes s))"
    and "length s \<le> 256 \<Longrightarrow> literal_name uw d src pos 0 = Ok (s, pos + length (string_bytes s))"
    and "256 < length s \<Longrightarrow> literal_name uw d src pos 0 = Err (BufferTooSmall (length s))"
proof -
  let ?n = "length (prefix_int 7 0x00 (length s))"
  have sl: "slice src (pos + ?n) (pos + ?n + length s) = Ok s"
  proof -
    have "length src = pos + ?n + length s + length rest"
      using arg_cong [OF assms(3), of length] assms(4) by (simp add: string_bytes_def)
    moreover have "drop (pos + ?n) src = s @ rest"
      using assms(3) by (simp add: string_bytes_def drop_append_shift)
    ultimately show ?thesis by simp
  qed
  note parse = parse_string_bytes [OF assms(1,2), of rest]
  show "literal_value uw src pos = Ok (s, pos + length (string_bytes s))"
    using sl assms parse by (simp add: literal_value_def) (simp add: string_bytes_def)
  show "literal_name uw d src pos 0 = Ok (s, pos + length (string_bytes s))" if "length s \<le> 256"
    using sl assms parse that by (simp add: literal_name_def) (simp add: string_bytes_def)
  show "literal_name uw d src pos 0 = Err (BufferTooSmall (length s))" if "256 < length s"
    using sl assms parse that by (simp add: literal_name_def)
qed

lemma lookup_from_Exact:
  "lookup_from i nm es name val = ExactMatch k \<Longrightarrow>
   i \<le> k \<and> k < i + length es \<and> es ! (k - i) = StaticEntry name val"
proof (induction es arbitrary: i nm)
  case (Cons e es)
  then show ?case
    by (cases e) (fastforce simp: nth_Cons' split: if_splits)
qed (simp split: option.splits)

lemma lookup_from_Name:
  "lookup_from i nm es name val = NameMatch k \<Longrightarrow>
   nm = Some k \<or> (i \<le> k \<and> k < i + length es \<and> se_name (es ! (k - i)) = name)"
proof (induction es arbitrary: i nm)
  case (Cons e es)
  then show ?case
    by (fastforce simp: nth_Cons' split: if_splits)
qed (simp split: option.splits)

lemma STATIC_TABLE_names: "length STATIC_TABLE = 61" "\<forall>e \<in> set STATIC_TABLE. length (se_name e) \<le> 256"
  by (simp_all add: STATIC_TABLE_def static_0_def static_1_def static_2_def static_3_def ascii_def)

lemma static_lookup_sound:
  "static_lookup name val = ExactMatch k \<Longrightarrow> 0 < k \<and> k \<le> 61 \<and> STATIC_TABLE ! (k - 1) = StaticEntry name val"
  "static_lookup name val = NameMatch k \<Longrightarrow> 0 < k \<and> k \<le> 61 \<and> se_name (STATIC_TABLE ! (k - 1)) = name"
  using lookup_from_Exact [of 1 None STATIC_TABLE name val k] lookup_from_Name [of 1 None STATIC_TABLE name val k]
  by (auto simp: static_lookup_def STATIC_TABLE_names)

lemma table_lookup_static:
  "0 < k \<Longrightarrow> k \<le> 61 \<Longrightarrow> table_lookup d k = Ok (se_name (STATIC_TABLE ! (k - 1)), se_value (STATIC_TABLE ! (k - 1)))"
  by (simp add: table_lookup_def STATIC_TABLE_names)

text \<open>The first byte of each of the encoder's three representations.\<close>

lemma small_byte:
  assumes "unat (b :: byte) < 16"
  shows "b AND 0x80 = 0 \<and> b AND 0xc0 \<noteq> 0x40 \<and> b AND 0xf0 = 0x00"
proof -
  have "unat b \<in> {0, 1, 2, 3, 4, 5, 6, 7, 8, 9, 10, 11, 12, 13, 14, 15}" using assms by (simp, presburger)
  then have "word_of_nat (unat b) \<in> (word_of_nat ` {0, 1, 2, 3, 4, 5, 6, 7, 8, 9, 10, 11, 12, 13, 14, 15} :: byte set)"
    by blast
  then have "b \<in> {0, 1, 2, 3, 4, 5, 6, 7, 8, 9, 10, 11, 12, 13, 14, 15}" by simp
  then show ?thesis by (elim insertE emptyE) simp_all
qed

lemma prefix_int_4: "\<exists>b r. prefix_int 4 0x00 i = b # r \<and> unat b < 16"
  by (auto simp: prefix_int_def Let_def unat_of_nat)

lemma indexed_byte:
  assumes "v < 128"
  shows "(0x80 OR word_of_nat v :: byte) AND 0x80 \<noteq> 0"
  using assms by (simp add: continuation_byte byte_high_bit unat_byte_of_nat del: of_nat_add)

lemma usize_index: "i \<le> 61 \<Longrightarrow> 8 \<le> uw \<Longrightarrow> as_usize uw i = i"
proof -
  assume i: "i \<le> 61" and uw: "8 \<le> uw"
  have "i < 2 ^ 8" using i by simp
  also have "(2 :: nat) ^ 8 \<le> 2 ^ uw" using uw by (intro power_increasing) auto
  finally show ?thesis by simp
qed

lemma decode_field_literal:
  assumes src: "drop pos src = prefix_int 4 0x00 i @ rest" and pos: "pos < length src" and i: "i \<le> 61" "8 \<le> uw"
  shows "decode_field uw src pos s =
    sbind (decode_literal_field uw src (pos + length (prefix_int 4 0x00 i)) i False s) (\<lambda>s n.
      (s, Ok (pos + length (prefix_int 4 0x00 i) + n)))"
proof -
  obtain b r where b: "prefix_int 4 0x00 i = b # r" "unat b < 16" using prefix_int_4 by blast
  then have "src ! pos = b" using src pos by (simp add: Cons_nth_drop_Suc [symmetric])
  moreover have "decode_integer (drop pos src) 4 = Ok (i, length (prefix_int 4 0x00 i))"
    unfolding src using i by (intro decode_prefix_int) simp_all
  ultimately show ?thesis
    using small_byte [OF b(2)] pos by (simp add: decode_field_def usize_index [OF i])
qed

lemma decode_name_match:
  assumes src: "drop pos src = (prefix_int 4 0x00 i @ string_bytes val) @ rest" and pos: "pos < length src"
    and i: "0 < i" "i \<le> 61" "se_name (STATIC_TABLE ! (i - 1)) = name" and "length name \<le> 256"
    and uw: "length src < 2 ^ uw" "8 \<le> uw" "length src < 2 ^ 64"
  shows "decode_field uw src pos (d, out) =
    ((d, out @ [(name, val)]), Ok (pos + length (prefix_int 4 0x00 i @ string_bytes val)))"
proof -
  let ?p = "prefix_int 4 0x00 i"
  have total: "length src = pos + length (?p @ string_bytes val) + length rest"
    using arg_cong [OF src, of length] pos by simp
  have dr: "drop (pos + length ?p) src = string_bytes val @ rest" using src by (simp add: drop_append_shift)
  have len: "length val < 2 ^ uw" "length val < 2 ^ 64" "pos + length ?p \<le> length src"
    using total uw by (auto simp: string_bytes_def)
  have "literal_name uw d src (pos + length ?p) i = Ok (name, pos + length ?p)"
    using i assms(6) by (simp add: literal_name_def table_lookup_static)
  from decode_literal_field_Ok [OF this literal_string(1) [OF len(1,2) dr len(3)], of False out]
  have lit: "decode_literal_field uw src (pos + length ?p) i False (d, out) =
    ((d, out @ [(name, val)]), Ok (length (string_bytes val)))" by simp
  show ?thesis using decode_field_literal [OF _ pos _ uw(2), of i "string_bytes val @ rest" "(d, out)"] lit src i by simp
qed

lemma decode_new_name:
  assumes src: "drop pos src = (prefix_int 4 0x00 0 @ string_bytes name @ string_bytes val) @ rest"
    and pos: "pos < length src" and "length name \<le> 256"
    and uw: "length src < 2 ^ uw" "8 \<le> uw" "length src < 2 ^ 64"
  shows "decode_field uw src pos (d, out) =
    ((d, out @ [(name, val)]), Ok (pos + length (prefix_int 4 0x00 0 @ string_bytes name @ string_bytes val)))"
proof -
  let ?p = "prefix_int 4 0x00 0"
  have total: "length src = pos + length (?p @ string_bytes name @ string_bytes val) + length rest"
    using arg_cong [OF src, of length] pos by simp
  have dn: "drop (pos + length ?p) src = string_bytes name @ string_bytes val @ rest"
    using src by (simp add: drop_append_shift)
  have dv: "drop (pos + length ?p + length (string_bytes name)) src = string_bytes val @ rest"
    using drop_append_shift [OF dn] .
  have len: "length val < 2 ^ uw" "length val < 2 ^ 64" "length name < 2 ^ uw" "length name < 2 ^ 64"
    "pos + length ?p \<le> length src" "pos + length ?p + length (string_bytes name) \<le> length src"
    using total uw by (auto simp: string_bytes_def)
  from decode_literal_field_Ok [OF literal_string(2) [OF len(3,4) dn len(5) assms(3)]
      literal_string(1) [OF len(1,2) dv len(6)], where d = d and index = False and out = out]
  have lit: "decode_literal_field uw src (pos + length ?p) 0 False (d, out) =
    ((d, out @ [(name, val)]), Ok (length (string_bytes name) + length (string_bytes val)))" by simp
  show ?thesis
    using decode_field_literal [OF _ pos _ uw(2), of 0 "string_bytes name @ string_bytes val @ rest" "(d, out)"] lit src by simp
qed

text \<open>The decoder has room for 256 bytes of a name; a longer one is never in the static table.\<close>

definition short_name :: "bytes \<times> bytes \<Rightarrow> bool" where
  "short_name h \<longleftrightarrow> length (fst h) \<le> 256"

lemma static_names_short:
  assumes "static_lookup name val \<noteq> NotFound"
  shows "length name \<le> 256"
proof (cases "static_lookup name val")
  case (ExactMatch k)
  from static_lookup_sound(1) [OF this] have "k - 1 < length STATIC_TABLE" "se_name (STATIC_TABLE ! (k - 1)) = name"
    by (auto simp: STATIC_TABLE_names(1))
  then show ?thesis using STATIC_TABLE_names(2) nth_mem by metis
next
  case (NameMatch k)
  from static_lookup_sound(2) [OF this] have "k - 1 < length STATIC_TABLE" "se_name (STATIC_TABLE ! (k - 1)) = name"
    by (auto simp: STATIC_TABLE_names(1))
  then show ?thesis using STATIC_TABLE_names(2) nth_mem by metis
qed (use assms in simp)

lemma decode_long_name:
  assumes src: "drop pos src = field_bytes (name, val) @ rest" and pos: "pos < length src" and long: "256 < length name"
    and uw: "length src < 2 ^ uw" "8 \<le> uw" "length src < 2 ^ 64"
  shows "decode_field uw src pos (d, out) = ((d, out), Err (BufferTooSmall (length name)))"
proof -
  let ?p = "prefix_int 4 0x00 0"
  have "static_lookup name val = NotFound" using static_names_short [of name val] long by force
  then have f: "field_bytes (name, val) = ?p @ string_bytes name @ string_bytes val" by (simp add: field_bytes.simps)
  have total: "length src = pos + length (?p @ string_bytes name @ string_bytes val) + length rest"
    using arg_cong [OF src, of length] f pos by simp
  have dn: "drop (pos + length ?p) src = string_bytes name @ string_bytes val @ rest"
    using src f by (simp add: drop_append_shift)
  have "length name < 2 ^ uw" "length name < 2 ^ 64" "pos + length ?p \<le> length src"
    using total uw by (auto simp: string_bytes_def)
  from literal_string(3) [OF this(1,2) dn this(3) long]
  show ?thesis
    using decode_field_literal [OF _ pos _ uw(2), of 0 "string_bytes name @ string_bytes val @ rest" "(d, out)"] src f
    by (simp add: decode_literal_field_def)
qed

lemma decode_field_bytes:
  assumes src: "drop pos src = field_bytes (name, val) @ rest" and pos: "pos < length src"
    and name: "length name \<le> 256" and uw: "length src < 2 ^ uw" "8 \<le> uw" "length src < 2 ^ 64"
  shows "decode_field uw src pos (d, out) = ((d, out @ [(name, val)]), Ok (pos + length (field_bytes (name, val))))"
proof (cases "static_lookup name val")
  case (ExactMatch i)
  note i = static_lookup_sound(1) [OF this]
  have f: "field_bytes (name, val) = prefix_int 7 0x80 i" using ExactMatch by (simp add: field_bytes.simps)
  have "src ! pos = 0x80 OR word_of_nat i"
    using src f i pos by (simp add: prefix_int_def Cons_nth_drop_Suc [symmetric])
  moreover have "decode_integer (drop pos src) 7 = Ok (i, length (prefix_int 7 0x80 i))"
    unfolding src f using i by (intro decode_prefix_int) (simp_all add: take_bit_eq_mod)
  ultimately show ?thesis
    using i pos f indexed_byte [of i] usize_index [of i uw] uw by (simp add: decode_field_def table_lookup_static)
next
  case (NameMatch i)
  then have f: "field_bytes (name, val) = prefix_int 4 0x00 i @ string_bytes val" by (simp add: field_bytes.simps)
  show ?thesis using decode_name_match [OF src [unfolded f] pos _ _ _ name uw] static_lookup_sound(2) [OF NameMatch] f by simp
next
  case NotFound
  then have f: "field_bytes (name, val) = prefix_int 4 0x00 0 @ string_bytes name @ string_bytes val"
    by (simp add: field_bytes.simps)
  show ?thesis using decode_new_name [OF src [unfolded f] pos name uw] f by simp
qed

text \<open>What decoding the block of a header list returns: its first overlong name ends it.\<close>

definition block_result :: "nat \<Rightarrow> (bytes \<times> bytes) list \<Rightarrow> nat res" where
  "block_result n hs = (case dropWhile short_name hs of [] \<Rightarrow> Ok n | h # _ \<Rightarrow> Err (BufferTooSmall (length (fst h))))"

lemma hpack_decode_block:
  assumes "drop pos src = concat (map field_bytes hs)" and "pos \<le> length src"
    and "length src < 2 ^ uw" and "8 \<le> uw" and "length src < 2 ^ 64"
  shows "hpack_decode_from uw src pos (d, out) = ((d, out @ takeWhile short_name hs), block_result (length src) hs)"
  using assms
proof (induction hs arbitrary: pos out)
  case Nil
  then show ?case by (subst hpack_decode_from.simps) (simp add: block_result_def)
next
  case (Cons h hs)
  obtain name val where h: "h = (name, val)" by fastforce
  have src: "drop pos src = field_bytes (name, val) @ concat (map field_bytes hs)" using Cons(2) h by simp
  have ne: "field_bytes (name, val) \<noteq> []"
    by (auto simp: field_bytes.simps prefix_int_def Let_def split: lookup_result.splits)
  then have pos: "pos < length src" using src Cons(3) by (metis append_is_Nil_conv drop_all leI)
  have "pos + length (field_bytes (name, val)) \<le> length src" using length_of_drop_append [OF src ne] by simp
  note IH = Cons.IH [OF drop_append_shift [OF src] this Cons(4-6)]
  show ?case
  proof (cases "short_name h")
    case True
    then have "length name \<le> 256" using h by (simp add: short_name_def)
    with True IH decode_field_bytes [OF src pos _ Cons(4-6)] h pos
    show ?thesis by (subst hpack_decode_from.simps) (simp add: block_result_def)
  next
    case False
    then have "256 < length name" using h by (simp add: short_name_def)
    with False decode_long_name [OF src pos _ Cons(4-6), of d out] h pos
    show ?thesis by (subst hpack_decode_from.simps) (simp add: block_result_def)
  qed
qed

text \<open>
  C23: HPACK is lossless for names the decoder has room for. Any list of headers encodes, when the buffer
  has the room, into a block of a determined length. Any decoder, whatever its dynamic table holds,
  reports these headers in order up to the first whose name is longer than 256 bytes and keeps its
  table; without such a name it consumes the whole block, and with one it fails with
  \<^verbatim>\<open>BufferTooSmall\<close> although the encoder accepted it.
\<close>

theorem hpack_roundtrip:
  assumes "length (concat (map field_bytes hs)) \<le> length buf" and "length buf < 2 ^ uw"
    and "8 \<le> uw" and "uw \<le> 64"
  shows "\<exists>buf' n. hpack_encode hs buf = Ok (buf', n) \<and> n = length (concat (map field_bytes hs)) \<and>
    length buf' = length buf \<and> drop n buf' = drop n buf \<and>
    hpack_decode uw (take n buf') d = ((d, takeWhile short_name hs),
      case dropWhile short_name hs of [] \<Rightarrow> Ok n | h # _ \<Rightarrow> Err (BufferTooSmall (length (fst h))))"
proof -
  let ?w = "concat (map field_bytes hs)"
  have "(2 :: nat) ^ uw \<le> 2 ^ 64" using assms(4) by (intro power_increasing) auto
  then have "hpack_decode uw ?w d = ((d, takeWhile short_name hs), block_result (length ?w) hs)"
    using hpack_decode_block [of 0 ?w hs uw d "[]"] assms by (simp add: hpack_decode_def)
  then show ?thesis using hpack_encode_spec [OF assms(1)] assms(1) by (simp add: block_result_def)
qed

theorem hpack_roundtrip_witness:
  "\<exists>buf' n. hpack_encode [(ascii '':method'', ascii ''GET''), (ascii ''x'', ascii ''yz'')] (replicate 16 0) = Ok (buf', n)
    \<and> n = 7 \<and> hpack_decode 64 (take n buf') hpack_decoder_new
      = ((hpack_decoder_new, [(ascii '':method'', ascii ''GET''), (ascii ''x'', ascii ''yz'')]), Ok n)"
proof -
  have l: "static_lookup (ascii '':method'') (ascii ''GET'') = ExactMatch 2"
    "static_lookup (ascii ''x'') (ascii ''yz'') = NotFound"
    by (simp_all add: static_lookup_def STATIC_TABLE_def static_0_def static_1_def static_2_def static_3_def ascii_def)
  have n: "length (field_bytes (ascii '':method'', ascii ''GET'')) = 1" "length (field_bytes (ascii ''x'', ascii ''yz'')) = 6"
    by (simp_all add: field_bytes.simps l string_bytes_def prefix_int_def) (simp_all add: ascii_def)
  show ?thesis
    using hpack_roundtrip [of "[(ascii '':method'', ascii ''GET''), (ascii ''x'', ascii ''yz'')]" "replicate 16 0" 64
      hpack_decoder_new] n by (auto simp: ascii_def short_name_def)
qed

section \<open>The decoder on arbitrary input\<close>

lemma decode_emit_no_panic: "decode_emit cap acc al out \<noteq> Panic"
  by (induction cap acc al out rule: decode_emit.induct) (subst decode_emit.simps, auto split: option.splits)

lemma decode_bytes_no_panic: "decode_bytes cap src acc al out \<noteq> Panic"
  by (induction cap src acc al out rule: decode_bytes.induct) (auto simp: res_bind_eq_Panic decode_emit_no_panic)

lemma huffman_decode_no_panic [panic_free]: "huffman_decode src cap \<noteq> Panic"
  by (auto simp: huffman_decode_def res_bind_eq_Panic decode_bytes_no_panic)

lemma table_lookup_no_panic [panic_free]: "table_lookup d i \<noteq> Panic"
  by (auto simp: table_lookup_def res_bind_eq_Panic buf_Panic)

lemma parse_string_header_Ok:
  "parse_string_header uw src = Ok (h, len, lc) \<Longrightarrow> lc + len \<le> length src"
  by (auto simp: parse_string_header_def Let_def res_bind_eq_Ok dest!: decode_integer_bound split: if_splits)

lemma parse_string_header_no_panic [panic_free]: "parse_string_header uw src \<noteq> Panic"
  by (auto simp: parse_string_header_def Let_def res_bind_eq_Panic panic_free)

lemma literal_name_no_panic: "pos \<le> length src \<Longrightarrow> literal_name uw d src pos i \<noteq> Panic"
  by (auto simp: literal_name_def res_bind_eq_Panic panic_free buf_Panic buf_Ok dest!: parse_string_header_Ok split: if_splits)

lemma literal_value_no_panic: "pos \<le> length src \<Longrightarrow> literal_value uw src pos \<noteq> Panic"
  by (auto simp: literal_value_def res_bind_eq_Panic panic_free buf_Panic buf_Ok dest!: parse_string_header_Ok split: if_splits)

lemma literal_name_end: "literal_name uw d src pos i = Ok (n, p) \<Longrightarrow> pos \<le> length src \<Longrightarrow> p \<le> length src"
  by (auto simp: literal_name_def res_bind_eq_Ok buf_Ok split: if_splits)

text \<open>What one field keeps: the table's invariant, a position inside the block, and no panic.\<close>

definition field_ok :: "bytes \<Rightarrow> decoding \<times> nat res \<Rightarrow> bool" where
  "field_ok src p \<longleftrightarrow> table_inv (fst (fst p)) \<and> snd p \<noteq> Panic \<and> (\<forall>n. snd p = Ok n \<longrightarrow> n \<le> length src)"

lemma sbind_literal_ok:
  assumes "table_inv d" and "start \<le> length src"
  shows "field_ok src (sbind (decode_literal_field uw src start i index (d, out)) (\<lambda>s n. (s, Ok (start + n))))"
proof (cases "literal_name uw d src start i")
  case (Ok x)
  then obtain name p where n: "literal_name uw d src start i = Ok (name, p)" by (cases x) simp
  note np = literal_name_pos [OF n] literal_name_end [OF n assms(2)]
  show ?thesis
  proof (cases "literal_value uw src p")
    case (Ok y)
    then obtain val p' where v: "literal_value uw src p = Ok (val, p')" by (cases y) simp
    show ?thesis
      using literal_value_pos [OF v] np assms(1) dynamic_insert_spec(3) [OF assms(1)]
      by (simp add: decode_literal_field_Ok [OF n v] field_ok_def)
  qed (use n assms literal_value_no_panic [OF np(2)] in \<open>simp_all add: decode_literal_field_def field_ok_def\<close>)
qed (use assms literal_name_no_panic [OF assms(2)] in \<open>simp_all add: decode_literal_field_def field_ok_def\<close>)

lemma integer_field_ok:
  assumes "table_inv d" and "pos \<le> length src"
    and "\<And>v n. decode_integer (drop pos src) pb = Ok (v, n) \<Longrightarrow> pos + n \<le> length src \<Longrightarrow> field_ok src (f (d, out) (v, n))"
    and "pb \<le> 8"
  shows "field_ok src (sbind ((d, out), decode_integer (drop pos src) pb) f)"
proof (cases "decode_integer (drop pos src) pb")
  case (Ok x)
  then show ?thesis using assms decode_integer_bound [of "drop pos src" pb] by (cases x) fastforce
qed (use assms decode_integer_no_panic [of "drop pos src" pb] in \<open>simp_all add: field_ok_def\<close>)

lemma decode_field_ok:
  assumes inv: "table_inv d" and pos: "pos < length src"
  shows "field_ok src (decode_field uw src pos (d, out))"
proof -
  let ?rest = "drop pos src"
  have p: "pos \<le> length src" using pos by simp
  have lit: "field_ok src (sbind ((d, out), decode_integer ?rest pb) (\<lambda>s (name_index, consumed).
        sbind (decode_literal_field uw src (pos + consumed) (as_usize uw name_index) ix s) (\<lambda>s n.
          (s, Ok (pos + consumed + n)))))" if "pb \<le> 8" for pb ix
    using sbind_literal_ok [OF inv] that by (intro integer_field_ok [OF inv p]) auto
  have indexed: "field_ok src (sbind ((d, out), decode_integer ?rest 7) (\<lambda>s (index, consumed).
        sbind (s, table_lookup (fst s) (as_usize uw index)) (\<lambda>(d, out) header.
          ((d, out @ [header]), Ok (pos + consumed)))))"
  proof (rule integer_field_ok [OF inv p])
    fix v n assume "pos + n \<le> length src"
    then show "field_ok src ((\<lambda>(index, consumed). sbind ((d, out), table_lookup (fst (d, out)) (as_usize uw index))
        (\<lambda>(d, out) header. ((d, out @ [header]), Ok (pos + consumed)))) (v, n))"
      using inv by (cases "table_lookup d (as_usize uw v)") (auto simp: field_ok_def panic_free)
  qed simp
  have size: "field_ok src (sbind ((d, out), decode_integer ?rest 5) (\<lambda>(d, out) (new_size, consumed).
          case resize (as_usize uw new_size) d of
            (d, Ok _) \<Rightarrow> ((d, out), Ok (pos + consumed))
          | (d, Err e) \<Rightarrow> ((d, out), Err e)
          | (d, Panic) \<Rightarrow> ((d, out), Panic)))"
  proof (rule integer_field_ok [OF inv p])
    fix v n assume "pos + n \<le> length src"
    then show "field_ok src ((\<lambda>(d, out) (new_size, consumed). case resize (as_usize uw new_size) d of
            (d, Ok _) \<Rightarrow> ((d, out), Ok (pos + consumed))
          | (d, Err e) \<Rightarrow> ((d, out), Err e)
          | (d, Panic) \<Rightarrow> ((d, out), Panic)) (d, out) (v, n))"
      using resize_spec(1) [OF inv, of "as_usize uw v"] by (auto simp: field_ok_def resize_def split: if_splits)
  qed simp
  show ?thesis
    using pos inv lit indexed size by (simp add: decode_field_def field_ok_def [of src "((d, out), Err InvalidState)"])
qed

lemma hpack_decode_from_keeps:
  assumes "p = hpack_decode_from uw src pos s" and "table_inv (fst s)" and "pos \<le> length src"
  shows "table_inv (fst (fst p)) \<and> snd p \<noteq> Panic \<and> (\<forall>n. snd p = Ok n \<longrightarrow> n = length src)"
  using assms
proof (induction uw src pos s arbitrary: p rule: hpack_decode_from.induct)
  case (1 uw src pos s)
  obtain d out where s: "s = (d, out)" by fastforce
  show ?case
  proof (cases "pos < length src")
    case True
    have ok: "field_ok src (decode_field uw src pos (d, out))" using decode_field_ok 1(3) True s by simp
    show ?thesis
      using 1(1) [OF True] ok 1(2) True s
      by (cases "decode_field uw src pos (d, out)"; cases "snd (decode_field uw src pos (d, out))")
         (auto simp: hpack_decode_from.simps [of uw src pos] field_ok_def)
  qed (use 1 in \<open>subst (asm) hpack_decode_from.simps, simp\<close>)
qed

text \<open>
  C24: The HPACK decoder accepts arbitrary bytes safely: it returns after every input, never panics,
  succeeds only at the end of the block, and leaves, also after an error, a dynamic table whose
  recorded size is the sum of its entries' sizes and within the limit, which never exceeds 4096.
\<close>

theorem hpack_decoder_safe:
  assumes "table_inv d" and "hpack_decode uw src d = ((d', out), r)"
  shows "table_inv d' \<and> r \<noteq> Panic \<and> (\<forall>n. r = Ok n \<longrightarrow> n = length src)"
  using hpack_decode_from_keeps [of _ uw src 0 "(d, [])"] assms by (simp add: hpack_decode_def)

theorem hpack_decoder_safe_witness:
  "table_inv hpack_decoder_new \<and> table_inv (fst (fst (hpack_decode 64 [0x40, 1, 97, 1, 98, 0xbf] hpack_decoder_new)))"
proof -
  have "table_inv hpack_decoder_new" by (simp add: table_inv_def hpack_decoder_new_def)
  then show ?thesis
    using hpack_decoder_safe [of hpack_decoder_new 64 "[0x40, 1, 97, 1, 98, 0xbf]"]
    by (cases "hpack_decode 64 [0x40, 1, 97, 1, 98, 0xbf] hpack_decoder_new"; cases "fst (hpack_decode 64 [0x40, 1, 97, 1, 98, 0xbf] hpack_decoder_new)") auto
qed

text \<open>
  C25: The dynamic table refines the RFC's eviction rule: an insertion leaves the newest entries that
  fit into the limit, the new one first, and nothing when the new one alone does not fit; a size
  update leaves the newest entries that fit into the new limit, and is refused above 4096.
\<close>

theorem dynamic_table_refines:
  assumes "table_inv d"
  shows "dynamic (dynamic_insert name val d) = evict (max_size d) ((name, val) # dynamic d) \<and>
    dynamic (fst (resize n d)) = (if n \<le> 4096 then evict n (dynamic d) else dynamic d) \<and>
    snd (resize n d) = (if n \<le> 4096 then Ok () else Err InvalidState)"
  using dynamic_insert_spec(1) [OF assms] assms
  by (simp add: resize_def shrink_spec table_inv_def INITIAL_DYNAMIC_TABLE_SIZE_def)

theorem dynamic_table_refines_witness:
  "dynamic (dynamic_insert [1] [2] hpack_decoder_new) = [([1], [2])]"
proof -
  have "table_inv hpack_decoder_new" by (simp add: table_inv_def hpack_decoder_new_def)
  from dynamic_table_refines [OF this, of "[1]" "[2]" 0] show ?thesis
    by (simp add: hpack_decoder_new_def INITIAL_DYNAMIC_TABLE_SIZE_def entry_size_def)
qed

end
