(* ===== verification/Qpack.thy ===== *)
theory Qpack
  imports Hpack
begin

unbundle bit_operations_syntax

text \<open>
  QPACK (\<^verbatim>\<open>src/h3/qpack/static_table.rs\<close>, \<^verbatim>\<open>src/h3/qpack/mod.rs\<close>) without a dynamic table, over the same
  integers and the same Huffman code as HPACK. The decoder inverts the encoder, but unlike HPACK's
  it adds an unchecked length to its position, and a field section with a length near \<open>2 ^ 64\<close>
  makes it panic.
\<close>

section \<open>The static table\<close>

definition qpack_static_0 :: "static_entry list" where
  "qpack_static_0 = [
    StaticEntry (ascii '':authority'') (ascii ''''),
    StaticEntry (ascii '':path'') (ascii ''/''),
    StaticEntry (ascii ''age'') (ascii ''0''),
    StaticEntry (ascii ''content-disposition'') (ascii ''''),
    StaticEntry (ascii ''content-length'') (ascii ''0''),
    StaticEntry (ascii ''cookie'') (ascii ''''),
    StaticEntry (ascii ''date'') (ascii ''''),
    StaticEntry (ascii ''etag'') (ascii ''''),
    StaticEntry (ascii ''if-modified-since'') (ascii ''''),
    StaticEntry (ascii ''if-none-match'') (ascii ''''),
    StaticEntry (ascii ''last-modified'') (ascii ''''),
    StaticEntry (ascii ''link'') (ascii ''''),
    StaticEntry (ascii ''location'') (ascii ''''),
    StaticEntry (ascii ''referer'') (ascii ''''),
    StaticEntry (ascii ''set-cookie'') (ascii ''''),
    StaticEntry (ascii '':method'') (ascii ''CONNECT''),
    StaticEntry (ascii '':method'') (ascii ''DELETE''),
    StaticEntry (ascii '':method'') (ascii ''GET''),
    StaticEntry (ascii '':method'') (ascii ''HEAD''),
    StaticEntry (ascii '':method'') (ascii ''OPTIONS'')]"

definition qpack_static_1 :: "static_entry list" where
  "qpack_static_1 = [
    StaticEntry (ascii '':method'') (ascii ''POST''),
    StaticEntry (ascii '':method'') (ascii ''PUT''),
    StaticEntry (ascii '':scheme'') (ascii ''http''),
    StaticEntry (ascii '':scheme'') (ascii ''https''),
    StaticEntry (ascii '':status'') (ascii ''103''),
    StaticEntry (ascii '':status'') (ascii ''200''),
    StaticEntry (ascii '':status'') (ascii ''304''),
    StaticEntry (ascii '':status'') (ascii ''404''),
    StaticEntry (ascii '':status'') (ascii ''503''),
    StaticEntry (ascii ''accept'') (ascii ''*/*''),
    StaticEntry (ascii ''accept'') (ascii ''application/dns-message''),
    StaticEntry (ascii ''accept-encoding'') (ascii ''gzip, deflate, br''),
    StaticEntry (ascii ''accept-ranges'') (ascii ''bytes''),
    StaticEntry (ascii ''access-control-allow-headers'') (ascii ''cache-control''),
    StaticEntry (ascii ''access-control-allow-headers'') (ascii ''content-type''),
    StaticEntry (ascii ''access-control-allow-origin'') (ascii ''*''),
    StaticEntry (ascii ''cache-control'') (ascii ''max-age=0''),
    StaticEntry (ascii ''cache-control'') (ascii ''max-age=2592000''),
    StaticEntry (ascii ''cache-control'') (ascii ''max-age=604800''),
    StaticEntry (ascii ''cache-control'') (ascii ''no-cache'')]"

definition qpack_static_2 :: "static_entry list" where
  "qpack_static_2 = [
    StaticEntry (ascii ''cache-control'') (ascii ''no-store''),
    StaticEntry (ascii ''cache-control'') (ascii ''public, max-age=31536000''),
    StaticEntry (ascii ''content-encoding'') (ascii ''br''),
    StaticEntry (ascii ''content-encoding'') (ascii ''gzip''),
    StaticEntry (ascii ''content-type'') (ascii ''application/dns-message''),
    StaticEntry (ascii ''content-type'') (ascii ''application/javascript''),
    StaticEntry (ascii ''content-type'') (ascii ''application/json''),
    StaticEntry (ascii ''content-type'') (ascii ''application/x-www-form-urlencoded''),
    StaticEntry (ascii ''content-type'') (ascii ''image/gif''),
    StaticEntry (ascii ''content-type'') (ascii ''image/jpeg''),
    StaticEntry (ascii ''content-type'') (ascii ''image/png''),
    StaticEntry (ascii ''content-type'') (ascii ''text/css''),
    StaticEntry (ascii ''content-type'') (ascii ''text/html; charset=utf-8''),
    StaticEntry (ascii ''content-type'') (ascii ''text/plain''),
    StaticEntry (ascii ''content-type'') (ascii ''text/plain;charset=utf-8''),
    StaticEntry (ascii ''range'') (ascii ''bytes=0-''),
    StaticEntry (ascii ''strict-transport-security'') (ascii ''max-age=31536000''),
    StaticEntry (ascii ''strict-transport-security'') (ascii ''max-age=31536000; includesubdomains''),
    StaticEntry (ascii ''strict-transport-security'') (ascii ''max-age=31536000; includesubdomains; preload''),
    StaticEntry (ascii ''vary'') (ascii ''accept-encoding'')]"

definition qpack_static_3 :: "static_entry list" where
  "qpack_static_3 = [
    StaticEntry (ascii ''vary'') (ascii ''origin''),
    StaticEntry (ascii ''x-content-type-options'') (ascii ''nosniff''),
    StaticEntry (ascii ''x-xss-protection'') (ascii ''1; mode=block''),
    StaticEntry (ascii '':status'') (ascii ''100''),
    StaticEntry (ascii '':status'') (ascii ''204''),
    StaticEntry (ascii '':status'') (ascii ''206''),
    StaticEntry (ascii '':status'') (ascii ''302''),
    StaticEntry (ascii '':status'') (ascii ''400''),
    StaticEntry (ascii '':status'') (ascii ''403''),
    StaticEntry (ascii '':status'') (ascii ''421''),
    StaticEntry (ascii '':status'') (ascii ''425''),
    StaticEntry (ascii '':status'') (ascii ''500''),
    StaticEntry (ascii ''accept-language'') (ascii ''''),
    StaticEntry (ascii ''access-control-allow-credentials'') (ascii ''FALSE''),
    StaticEntry (ascii ''access-control-allow-credentials'') (ascii ''TRUE''),
    StaticEntry (ascii ''access-control-allow-headers'') (ascii ''*''),
    StaticEntry (ascii ''access-control-allow-methods'') (ascii ''get''),
    StaticEntry (ascii ''access-control-allow-methods'') (ascii ''get, post, options''),
    StaticEntry (ascii ''access-control-allow-methods'') (ascii ''options''),
    StaticEntry (ascii ''access-control-expose-headers'') (ascii ''content-length'')]"

definition qpack_static_4 :: "static_entry list" where
  "qpack_static_4 = [
    StaticEntry (ascii ''access-control-request-headers'') (ascii ''content-type''),
    StaticEntry (ascii ''access-control-request-method'') (ascii ''get''),
    StaticEntry (ascii ''access-control-request-method'') (ascii ''post''),
    StaticEntry (ascii ''alt-svc'') (ascii ''clear''),
    StaticEntry (ascii ''authorization'') (ascii ''''),
    StaticEntry (ascii ''content-security-policy'') (ascii (''script-src '' @ [CHR 0x27] @ ''none'' @ [CHR 0x27] @ ''; object-src '' @ [CHR 0x27] @ ''none'' @ [CHR 0x27]
        @ ''; base-uri '' @ [CHR 0x27] @ ''none'' @ [CHR 0x27])),
    StaticEntry (ascii ''early-data'') (ascii ''1''),
    StaticEntry (ascii ''expect-ct'') (ascii ''''),
    StaticEntry (ascii ''forwarded'') (ascii ''''),
    StaticEntry (ascii ''if-range'') (ascii ''''),
    StaticEntry (ascii ''origin'') (ascii ''''),
    StaticEntry (ascii ''purpose'') (ascii ''prefetch''),
    StaticEntry (ascii ''server'') (ascii ''''),
    StaticEntry (ascii ''timing-allow-origin'') (ascii ''*''),
    StaticEntry (ascii ''upgrade-insecure-requests'') (ascii ''1''),
    StaticEntry (ascii ''user-agent'') (ascii ''''),
    StaticEntry (ascii ''x-forwarded-for'') (ascii ''''),
    StaticEntry (ascii ''x-frame-options'') (ascii ''deny''),
    StaticEntry (ascii ''x-frame-options'') (ascii ''sameorigin'')]"

definition QPACK_STATIC_TABLE :: "static_entry list" where
  "QPACK_STATIC_TABLE = qpack_static_0 @ qpack_static_1 @ qpack_static_2 @ qpack_static_3 @ qpack_static_4"

definition qpack_lookup :: "bytes \<Rightarrow> bytes \<Rightarrow> lookup_result" where
  "qpack_lookup name val = lookup_from 0 None QPACK_STATIC_TABLE name val"

section \<open>The encoder\<close>

definition encode_indexed_static :: "nat \<Rightarrow> bytes \<Rightarrow> (bytes \<times> nat) res" where
  "encode_indexed_static index buf = encode_integer index 6 0xc0 buf"

text \<open>A length, as an integer after the first byte's bits \<open>m\<close>, and the bytes themselves.\<close>

definition encode_counted :: "nat \<Rightarrow> byte \<Rightarrow> bytes \<Rightarrow> bytes \<Rightarrow> nat \<Rightarrow> (bytes \<times> nat) res" where
  "encode_counted pb m s buf offset =
    res_bind (write_from offset buf (encode_integer (length s) pb m)) (\<lambda>(buf, offset).
      if length buf - offset < length s then Err (BufferTooSmall (offset + length s))
      else res_bind (copy_at buf offset s) (\<lambda>buf. Ok (buf, offset + length s)))"

definition encode_literal_name_ref :: "nat \<Rightarrow> bytes \<Rightarrow> bytes \<Rightarrow> (bytes \<times> nat) res" where
  "encode_literal_name_ref name_index val buf =
    res_bind (encode_integer name_index 4 0x70 buf) (\<lambda>(buf, offset).
      encode_counted 7 0x00 val buf offset)"

definition encode_literal :: "bytes \<Rightarrow> bytes \<Rightarrow> bytes \<Rightarrow> (bytes \<times> nat) res" where
  "encode_literal name val buf =
    res_bind (encode_counted 3 0x20 name buf 0) (\<lambda>(buf, offset). encode_counted 7 0x00 val buf offset)"

fun encode_lines :: "(bytes \<times> bytes) list \<Rightarrow> bytes \<Rightarrow> nat \<Rightarrow> (bytes \<times> nat) res" where
  "encode_lines [] buf offset = Ok (buf, offset)"
| "encode_lines ((name, val) # headers) buf offset =
    res_bind
      (write_from offset buf
        (case qpack_lookup name val of
           ExactMatch i \<Rightarrow> encode_indexed_static i
         | NameMatch i \<Rightarrow> encode_literal_name_ref i val
         | NotFound \<Rightarrow> encode_literal name val))
      (\<lambda>(buf, offset). encode_lines headers buf offset)"

definition encode_field_section :: "(bytes \<times> bytes) list \<Rightarrow> bytes \<Rightarrow> (bytes \<times> nat) res" where
  "encode_field_section headers buf =
    res_bind (map_err (\<lambda>_. BufferTooSmall 1) (write_from 0 buf (encode_integer 0 8 0x00))) (\<lambda>(buf, offset).
    res_bind (map_err (\<lambda>_. BufferTooSmall (offset + 1)) (write_from offset buf (encode_integer 0 7 0x00)))
      (\<lambda>(buf, offset). encode_lines headers buf offset))"

section \<open>The decoder\<close>

abbreviation qpack_failed :: error where
  "qpack_failed \<equiv> Http3 QpackDecompressionFailed"

abbreviation qpack_frame_error :: error where
  "qpack_frame_error \<equiv> Transport FrameEncodingError"

text \<open>
  A string whose length has been read, up to the new position: the comparison is made after the
  addition, which wraps.
\<close>

definition take_string :: "nat \<Rightarrow> bytes \<Rightarrow> nat \<Rightarrow> nat \<Rightarrow> (bytes \<times> nat) res" where
  "take_string uw src pos len =
    (let len = as_usize uw len; end_pos = usize_add uw pos len
     in if end_pos > length src then Err qpack_frame_error
        else res_bind (slice src pos end_pos) (\<lambda>s. Ok (s, end_pos)))"

definition unhuff :: "bool \<Rightarrow> nat \<Rightarrow> bytes \<Rightarrow> bytes res" where
  "unhuff huffman cap raw = (if huffman then map_err (\<lambda>_. qpack_failed) (huffman_decode raw cap) else Ok raw)"

definition qpack_value :: "nat \<Rightarrow> bytes \<Rightarrow> nat \<Rightarrow> (bytes \<times> nat) res" where
  "qpack_value uw src pos =
    (if pos \<ge> length src then Err qpack_frame_error
     else
       res_bind (idx src pos) (\<lambda>b.
       res_bind (slice_from src pos) (\<lambda>rest.
       res_bind (decode_integer rest 7) (\<lambda>(value_len, consumed).
       res_bind (take_string uw src (pos + consumed) value_len) (\<lambda>(raw, pos).
       res_bind (unhuff (drop_bit 7 b AND 1 \<noteq> 0) 512 raw) (\<lambda>val. Ok (val, pos)))))))"

text \<open>One field line: the header and the position after it.\<close>

definition decode_line :: "nat \<Rightarrow> bytes \<Rightarrow> nat \<Rightarrow> ((bytes \<times> bytes) \<times> nat) res" where
  "decode_line uw src pos =
    res_bind (idx src pos) (\<lambda>first.
    res_bind (slice_from src pos) (\<lambda>rest.
      if first AND 0x80 \<noteq> 0 then
        if drop_bit 6 first AND 1 = 0 then Err qpack_failed
        else
          res_bind (decode_integer rest 6) (\<lambda>(index, consumed).
            let index = as_usize uw index
            in if index \<ge> length QPACK_STATIC_TABLE then Err qpack_failed
               else res_bind (idx QPACK_STATIC_TABLE index) (\<lambda>e. Ok ((se_name e, se_value e), pos + consumed)))
      else if first AND 0xc0 = 0x40 then
        if drop_bit 4 first AND 1 = 0 then Err qpack_failed
        else
          res_bind (decode_integer rest 4) (\<lambda>(name_index, consumed).
            let name_index = as_usize uw name_index
            in if name_index \<ge> length QPACK_STATIC_TABLE then Err qpack_failed
               else
                 res_bind (qpack_value uw src (pos + consumed)) (\<lambda>(val, pos).
                 res_bind (idx QPACK_STATIC_TABLE name_index) (\<lambda>e. Ok ((se_name e, val), pos))))
      else if first AND 0xe0 = 0x20 then
        res_bind (decode_integer rest 3) (\<lambda>(name_len, consumed).
        res_bind (take_string uw src (pos + consumed) name_len) (\<lambda>(name_raw, pos).
        res_bind (unhuff (drop_bit 3 first AND 1 \<noteq> 0) 256 name_raw) (\<lambda>name.
        res_bind (qpack_value uw src pos) (\<lambda>(val, pos). Ok ((name, val), pos)))))
      else if first AND 0xf0 = 0x10 then Err qpack_failed
      else if first AND 0xf0 = 0x00 then Err qpack_failed
      else Err qpack_frame_error))"

lemma take_string_Ok:
  "take_string uw src pos len = Ok (s, p) \<Longrightarrow> pos \<le> p \<and> p \<le> length src"
  by (auto simp: take_string_def Let_def res_bind_eq_Ok buf_Ok split: if_splits)

lemma qpack_value_Ok: "qpack_value uw src pos = Ok (v, p) \<Longrightarrow> pos < p \<and> p \<le> length src"
  by (auto simp: qpack_value_def res_bind_eq_Ok buf_Ok dest!: take_string_Ok decode_integer_bound split: if_splits)

lemma decode_line_Ok: "decode_line uw src pos = Ok (h, p) \<Longrightarrow> pos < p \<and> p \<le> length src"
  by (auto simp: decode_line_def Let_def res_bind_eq_Ok buf_Ok
      dest!: take_string_Ok decode_integer_bound qpack_value_Ok split: if_splits)

function decode_lines :: "nat \<Rightarrow> bytes \<Rightarrow> nat \<Rightarrow> (bytes \<times> bytes) list \<Rightarrow> (bytes \<times> bytes) list \<times> nat res" where
  "decode_lines uw src pos out =
    (if pos < length src then
       sbind (out, decode_line uw src pos) (\<lambda>out (header, pos). decode_lines uw src pos (out @ [header]))
     else (out, Ok pos))"
  by pat_completeness auto
termination
  by (relation "measure (\<lambda>(uw, src, pos, out). length src - pos)") (auto dest!: decode_line_Ok)

declare decode_lines.simps [simp del]

definition decode_field_section :: "nat \<Rightarrow> bytes \<Rightarrow> (bytes \<times> bytes) list \<times> nat res" where
  "decode_field_section uw src =
    (if src = [] then ([], Err qpack_frame_error)
     else
       sbind ([], decode_integer src 8) (\<lambda>out (ric, pos).
         if ric \<noteq> 0 then (out, Err qpack_failed)
         else if pos \<ge> length src then (out, Err qpack_frame_error)
         else
           sbind (out, slice_from src pos) (\<lambda>out rest.
           sbind (out, decode_integer rest 7) (\<lambda>out (delta_base, consumed).
             decode_lines uw src (pos + consumed) out))))"

section \<open>The format\<close>

definition counted_bytes :: "nat \<Rightarrow> byte \<Rightarrow> bytes \<Rightarrow> bytes" where
  "counted_bytes pb m s = prefix_int pb m (length s) @ s"

fun line_bytes :: "bytes \<times> bytes \<Rightarrow> bytes" where
  "line_bytes (name, val) =
    (case qpack_lookup name val of
       ExactMatch i \<Rightarrow> prefix_int 6 0xc0 i
     | NameMatch i \<Rightarrow> prefix_int 4 0x70 i @ counted_bytes 7 0x00 val
     | NotFound \<Rightarrow> counted_bytes 3 0x20 name @ counted_bytes 7 0x00 val)"

declare line_bytes.simps [simp del]

definition section_bytes :: "(bytes \<times> bytes) list \<Rightarrow> bytes" where
  "section_bytes hs = [0x00, 0x00] @ concat (map line_bytes hs)"

subsection \<open>The encoder writes it\<close>

lemma encode_counted_writes:
  assumes "length (out @ counted_bytes pb m s) \<le> length buf"
  shows "encode_counted pb m s (out @ drop (length out) buf) (length out) =
    Ok ((out @ counted_bytes pb m s) @ drop (length (out @ counted_bytes pb m s)) buf, length (out @ counted_bytes pb m s))"
proof -
  let ?out = "out @ prefix_int pb m (length s)"
  have "write_from (length out) (out @ drop (length out) buf) (encode_integer (length s) pb m)
    = Ok (?out @ drop (length ?out) buf, length ?out)"
    using assms by (intro writes_from encode_integer_writes) (simp add: counted_bytes_def)
  then show ?thesis using assms by (simp add: encode_counted_def counted_bytes_def add.commute add.left_commute)
qed

lemma line_writes:
  "writes (case qpack_lookup name val of
     ExactMatch i \<Rightarrow> encode_indexed_static i
   | NameMatch i \<Rightarrow> encode_literal_name_ref i val
   | NotFound \<Rightarrow> encode_literal name val) (line_bytes (name, val))"
proof (cases "qpack_lookup name val")
  case (ExactMatch i)
  then show ?thesis
    using encode_integer_writes [of i 6 "0xc0"]
    by (simp add: line_bytes.simps encode_indexed_static_def writes_def)
next
  case (NameMatch i)
  have "encode_literal_name_ref i val buf =
    Ok ((prefix_int 4 0x70 i @ counted_bytes 7 0x00 val) @ drop (length (prefix_int 4 0x70 i @ counted_bytes 7 0x00 val)) buf,
        length (prefix_int 4 0x70 i @ counted_bytes 7 0x00 val))"
    if "length (prefix_int 4 0x70 i @ counted_bytes 7 0x00 val) \<le> length buf" for buf
    using that encode_integer_spec [of 4 "0x70" i buf] encode_counted_writes [OF that]
    by (simp add: encode_literal_name_ref_def)
  then show ?thesis by (simp add: NameMatch line_bytes.simps writes_def)
next
  case NotFound
  have "encode_literal name val buf =
    Ok ((counted_bytes 3 0x20 name @ counted_bytes 7 0x00 val) @ drop (length (counted_bytes 3 0x20 name @ counted_bytes 7 0x00 val)) buf,
        length (counted_bytes 3 0x20 name @ counted_bytes 7 0x00 val))"
    if "length (counted_bytes 3 0x20 name @ counted_bytes 7 0x00 val) \<le> length buf" for buf
    using that encode_counted_writes [of "[]" 3 "0x20" name buf] encode_counted_writes [OF that]
    by (simp add: encode_literal_def)
  then show ?thesis by (simp add: NotFound line_bytes.simps writes_def)
qed

lemma encode_lines_spec:
  assumes "length (out @ concat (map line_bytes hs)) \<le> length buf"
  shows "encode_lines hs (out @ drop (length out) buf) (length out) =
    Ok ((out @ concat (map line_bytes hs)) @ drop (length (out @ concat (map line_bytes hs))) buf,
        length (out @ concat (map line_bytes hs)))"
  using assms
proof (induction hs arbitrary: out)
  case (Cons h hs)
  obtain name val where h: "h = (name, val)" by fastforce
  have "length (out @ line_bytes (name, val)) \<le> length buf" using Cons(2) h by simp
  from writes_from [OF line_writes this] Cons.IH [of "out @ line_bytes h"] Cons(2) show ?case by (simp add: h)
qed simp

lemma encode_field_section_spec:
  assumes "length (section_bytes hs) \<le> length buf"
  shows "encode_field_section hs buf =
    Ok (section_bytes hs @ drop (length (section_bytes hs)) buf, length (section_bytes hs))"
proof -
  have p: "prefix_int 8 0 0 = [0x00]" "prefix_int 7 0 0 = [0x00]" by (simp_all add: prefix_int_def)
  have "write_from 0 buf (encode_integer 0 8 0x00) = Ok ([0x00] @ drop 1 buf, 1)"
    using writes_from [OF encode_integer_writes, of "[]" 8 0 0 buf] assms by (simp add: p section_bytes_def)
  moreover have "write_from 1 ([0x00] @ drop 1 buf) (encode_integer 0 7 0x00) = Ok ([0x00, 0x00] @ drop 2 buf, 2)"
    using writes_from [OF encode_integer_writes, of "[0x00]" 7 0 0 buf] assms by (simp add: p section_bytes_def numeral_2_eq_2)
  ultimately show ?thesis
    using encode_lines_spec [of "[0x00, 0x00]" hs buf] assms by (simp add: encode_field_section_def section_bytes_def numeral_2_eq_2)
qed

subsection \<open>The decoder reads it\<close>

lemma take_string_bytes:
  assumes "drop pos src = s @ rest" and "pos \<le> length src" and "length src < 2 ^ uw"
  shows "take_string uw src pos (length s) = Ok (s, pos + length s)"
proof -
  have "length src = pos + length s + length rest" using arg_cong [OF assms(1), of length] assms(2) by simp
  then show ?thesis using assms by (simp add: take_string_def Let_def)
qed

lemma prefix_int_head: "\<exists>v r. prefix_int pb m n = (m OR word_of_nat v) # r \<and> v < 2 ^ pb"
proof (cases "n < 2 ^ pb - 1")
  case False
  then have "prefix_int pb m n = (m OR word_of_nat (2 ^ pb - 1)) # rest_bytes (n - (2 ^ pb - 1))"
    unfolding prefix_int_def Let_def by (simp only: if_False)
  then show ?thesis by (metis diff_less zero_less_numeral zero_less_one zero_less_power)
qed (auto simp: prefix_int_def Let_def)

lemma bit_test: "drop_bit k (b :: byte) AND 1 = 0 \<longleftrightarrow> \<not> bit b k"
  by (simp add: bit_iff_odd_drop_bit and_one_eq mod_2_eq_odd)

lemma high_bit_clear: "unat (b :: byte) < 128 \<Longrightarrow> \<not> bit b 7"
  using byte_high_bit [of b] and_exp_eq_0_iff_not_bit [of b 7] by simp

lemma qpack_value_bytes:
  assumes src: "drop pos src = counted_bytes 7 0x00 s @ rest" and "pos < length src" and "length src < 2 ^ uw"
    and "length src < 2 ^ 64"
  shows "qpack_value uw src pos = Ok (s, pos + length (counted_bytes 7 0x00 s))"
proof -
  let ?p = "prefix_int 7 0x00 (length s)"
  have total: "length src = pos + length ?p + length s + length rest"
    using arg_cong [OF src, of length] assms(2) by (simp add: counted_bytes_def)
  have "decode_integer (drop pos src) 7 = Ok (length s, length ?p)"
    unfolding src counted_bytes_def append_assoc using total assms(4) by (intro decode_prefix_int) simp_all
  moreover have "drop (pos + length ?p) src = s @ rest" using src by (simp add: counted_bytes_def drop_append_shift)
  then have "take_string uw src (pos + length ?p) (length s) = Ok (s, pos + length ?p + length s)"
    using total assms(3) by (intro take_string_bytes) auto
  moreover obtain b r where b: "?p = b # r" "unat b < 128"
    using prefix_int_head [of 7 0 "length s"] by (auto simp: unat_of_nat)
  then have "src ! pos = b" using src assms(2) by (simp add: counted_bytes_def Cons_nth_drop_Suc [symmetric])
  ultimately show ?thesis
    using assms(2) high_bit_clear [OF b(2)] by (simp add: qpack_value_def bit_test unhuff_def counted_bytes_def)
qed

text \<open>The first byte of each of the encoder's three representations.\<close>

lemma name_ref_head:
  "\<exists>b r. prefix_int 4 0x70 i = b # r \<and> b AND 0x80 = 0 \<and> b AND 0xc0 = 0x40 \<and> bit b 4"
proof -
  obtain v r where v: "prefix_int 4 0x70 i = (0x70 OR word_of_nat v) # r" "v < 2 ^ 4" using prefix_int_head by blast
  then have "v \<in> {0, 1, 2, 3, 4, 5, 6, 7, 8, 9, 10, 11, 12, 13, 14, 15}" by (simp, presburger)
  then have "(0x70 OR word_of_nat v :: byte) AND 0x80 = 0 \<and> (0x70 OR word_of_nat v :: byte) AND 0xc0 = 0x40
    \<and> bit (0x70 OR word_of_nat v :: byte) 4" by (elim insertE emptyE) simp_all
  with v show ?thesis by blast
qed

lemma literal_name_head:
  "\<exists>b r. prefix_int 3 0x20 i = b # r \<and> b AND 0x80 = 0 \<and> b AND 0xc0 \<noteq> 0x40 \<and> b AND 0xe0 = 0x20 \<and> \<not> bit b 3"
proof -
  obtain v r where v: "prefix_int 3 0x20 i = (0x20 OR word_of_nat v) # r" "v < 2 ^ 3" using prefix_int_head by blast
  then have "v \<in> {0, 1, 2, 3, 4, 5, 6, 7}" by (simp, presburger)
  then have "(0x20 OR word_of_nat v :: byte) AND 0x80 = 0 \<and> (0x20 OR word_of_nat v :: byte) AND 0xc0 \<noteq> 0x40
    \<and> (0x20 OR word_of_nat v :: byte) AND 0xe0 = 0x20 \<and> \<not> bit (0x20 OR word_of_nat v :: byte) 3"
    by (elim insertE emptyE) simp_all
  with v show ?thesis by blast
qed

lemma indexed_static_head: "\<exists>b r. prefix_int 6 0xc0 i = b # r \<and> b AND 0x80 \<noteq> 0 \<and> bit b 6"
proof -
  obtain v r where v: "prefix_int 6 0xc0 i = (0xc0 OR word_of_nat v) # r" using prefix_int_head by blast
  have "(0xc0 OR b :: byte) AND 0x80 \<noteq> 0" "bit (0xc0 OR b :: byte) 6" for b
    using and_exp_eq_0_iff_not_bit [of "0xc0 OR b" 7] by (simp_all add: bit_or_iff)
  with v show ?thesis by blast
qed

lemma QPACK_STATIC_TABLE_length: "length QPACK_STATIC_TABLE = 99"
  by (simp add: QPACK_STATIC_TABLE_def qpack_static_0_def qpack_static_1_def qpack_static_2_def qpack_static_3_def
      qpack_static_4_def)

lemma qpack_lookup_sound:
  "qpack_lookup name val = ExactMatch k \<Longrightarrow> k < 99 \<and> QPACK_STATIC_TABLE ! k = StaticEntry name val"
  "qpack_lookup name val = NameMatch k \<Longrightarrow> k < 99 \<and> se_name (QPACK_STATIC_TABLE ! k) = name"
  using lookup_from_Exact [of 0 None QPACK_STATIC_TABLE name val k] lookup_from_Name [of 0 None QPACK_STATIC_TABLE name val k]
  by (auto simp: qpack_lookup_def QPACK_STATIC_TABLE_length)

lemma usize_static: "i < 99 \<Longrightarrow> 8 \<le> uw \<Longrightarrow> as_usize uw i = i"
proof -
  assume i: "i < 99" and uw: "8 \<le> uw"
  have "i < 2 ^ 8" using i by simp
  also have "(2 :: nat) ^ 8 \<le> 2 ^ uw" using uw by (intro power_increasing) auto
  finally show ?thesis by simp
qed

lemma decode_name_ref:
  assumes src: "drop pos src = (prefix_int 4 0x70 i @ counted_bytes 7 0x00 val) @ rest" and pos: "pos < length src"
    and i: "i < 99" "se_name (QPACK_STATIC_TABLE ! i) = name"
    and uw: "length src < 2 ^ uw" "8 \<le> uw" "length src < 2 ^ 64"
  shows "decode_line uw src pos = Ok ((name, val), pos + length (prefix_int 4 0x70 i @ counted_bytes 7 0x00 val))"
proof -
  let ?p = "prefix_int 4 0x70 i"
  have total: "length src = pos + length ?p + length (counted_bytes 7 0x00 val) + length rest"
    using arg_cong [OF src, of length] pos by simp
  have "0 < length (counted_bytes 7 0x00 val)"
    using prefix_int_head [of 7 0 "length val"] by (auto simp: counted_bytes_def)
  with total have "pos + length ?p < length src" by simp
  moreover have "drop (pos + length ?p) src = counted_bytes 7 0x00 val @ rest" using src by (simp add: drop_append_shift)
  ultimately have "qpack_value uw src (pos + length ?p) = Ok (val, pos + length ?p + length (counted_bytes 7 0x00 val))"
    using uw by (intro qpack_value_bytes)
  moreover have "decode_integer (drop pos src) 4 = Ok (i, length ?p)"
    unfolding src append_assoc using i by (intro decode_prefix_int) (simp_all add: take_bit_eq_mod)
  moreover obtain b r where b: "?p = b # r" "b AND 0x80 = 0" "b AND 0xc0 = 0x40" "bit b 4"
    using name_ref_head [of i] by blast
  then have "src ! pos = b" using src pos by (simp add: Cons_nth_drop_Suc [symmetric])
  ultimately show ?thesis
    using b(2-) pos i uw
    by (simp add: decode_line_def Let_def bit_test usize_static QPACK_STATIC_TABLE_length)
qed

lemma decode_literal_name:
  assumes src: "drop pos src = (counted_bytes 3 0x20 name @ counted_bytes 7 0x00 val) @ rest" and pos: "pos < length src"
    and uw: "length src < 2 ^ uw" "length src < 2 ^ 64"
  shows "decode_line uw src pos = Ok ((name, val), pos + length (counted_bytes 3 0x20 name @ counted_bytes 7 0x00 val))"
proof -
  let ?p = "prefix_int 3 0x20 (length name)"
  have total: "length src = pos + length ?p + length name + length (counted_bytes 7 0x00 val) + length rest"
    using arg_cong [OF src, of length] pos by (simp add: counted_bytes_def)
  have dn: "drop (pos + length ?p) src = name @ counted_bytes 7 0x00 val @ rest"
    using src by (simp add: counted_bytes_def drop_append_shift)
  have "0 < length (counted_bytes 7 0x00 val)"
    using prefix_int_head [of 7 0 "length val"] by (auto simp: counted_bytes_def)
  with total have "pos + length ?p + length name < length src" by simp
  with drop_append_shift [OF dn] uw
  have "qpack_value uw src (pos + length ?p + length name) =
    Ok (val, pos + length ?p + length name + length (counted_bytes 7 0x00 val))"
    by (intro qpack_value_bytes)
  moreover have "take_string uw src (pos + length ?p) (length name) = Ok (name, pos + length ?p + length name)"
    using total uw by (intro take_string_bytes [OF dn]) auto
  moreover have "decode_integer (drop pos src) 3 = Ok (length name, length ?p)"
    unfolding src append_assoc counted_bytes_def using total uw by (intro decode_prefix_int) (simp_all add: take_bit_eq_mod)
  moreover obtain b r where b: "?p = b # r" "b AND 0x80 = 0" "b AND 0xc0 \<noteq> 0x40" "b AND 0xe0 = 0x20" "\<not> bit b 3"
    using literal_name_head [of "length name"] by blast
  then have "src ! pos = b" using src pos by (simp add: counted_bytes_def Cons_nth_drop_Suc [symmetric])
  ultimately show ?thesis
    using b(2-) pos
    by (simp add: decode_line_def Let_def bit_test unhuff_def counted_bytes_def)
qed

lemma decode_line_bytes:
  assumes src: "drop pos src = line_bytes (name, val) @ rest" and pos: "pos < length src"
    and uw: "length src < 2 ^ uw" "8 \<le> uw" "length src < 2 ^ 64"
  shows "decode_line uw src pos = Ok ((name, val), pos + length (line_bytes (name, val)))"
proof (cases "qpack_lookup name val")
  case (ExactMatch i)
  let ?p = "prefix_int 6 0xc0 i"
  note i = qpack_lookup_sound(1) [OF ExactMatch]
  have f: "line_bytes (name, val) = ?p" using ExactMatch by (simp add: line_bytes.simps)
  have "decode_integer (drop pos src) 6 = Ok (i, length ?p)"
    unfolding src f using i by (intro decode_prefix_int) (simp_all add: take_bit_eq_mod)
  moreover obtain b r where b: "?p = b # r" "b AND 0x80 \<noteq> 0" "bit b 6" using indexed_static_head by blast
  then have "src ! pos = b" using src f pos by (simp add: Cons_nth_drop_Suc [symmetric])
  ultimately show ?thesis
    using i pos f uw b(2-)
    by (simp add: decode_line_def Let_def bit_test usize_static QPACK_STATIC_TABLE_length)
next
  case (NameMatch i)
  then have f: "line_bytes (name, val) = prefix_int 4 0x70 i @ counted_bytes 7 0x00 val" by (simp add: line_bytes.simps)
  show ?thesis using decode_name_ref [OF src [unfolded f] pos _ _ uw] qpack_lookup_sound(2) [OF NameMatch] f by simp
next
  case NotFound
  then have f: "line_bytes (name, val) = counted_bytes 3 0x20 name @ counted_bytes 7 0x00 val"
    by (simp add: line_bytes.simps)
  show ?thesis using decode_literal_name [OF src [unfolded f] pos uw(1,3)] f by simp
qed

lemma decode_lines_bytes:
  assumes "drop pos src = concat (map line_bytes hs)" and "pos \<le> length src"
    and "length src < 2 ^ uw" and "8 \<le> uw" and "length src < 2 ^ 64"
  shows "decode_lines uw src pos out = (out @ hs, Ok (length src))"
  using assms
proof (induction hs arbitrary: pos out)
  case Nil
  then show ?case by (subst decode_lines.simps) simp
next
  case (Cons h hs)
  obtain name val where h: "h = (name, val)" by fastforce
  have src: "drop pos src = line_bytes (name, val) @ concat (map line_bytes hs)" using Cons(2) h by simp
  have ne: "line_bytes (name, val) \<noteq> []"
    by (auto simp: line_bytes.simps prefix_int_def counted_bytes_def Let_def split: lookup_result.splits)
  then have pos: "pos < length src" using src Cons(3) by (metis append_is_Nil_conv drop_all leI)
  have "pos + length (line_bytes (name, val)) \<le> length src" using length_of_drop_append [OF src ne] by simp
  from Cons.IH [OF drop_append_shift [OF src] this Cons(4-6)] decode_line_bytes [OF src pos Cons(4-6)] h pos
  show ?case by (subst decode_lines.simps) simp
qed

text \<open>
  C26: QPACK is lossless: any list of headers encodes, when the buffer has the room, into a field
  section of a determined length, and decoding the section reports exactly these headers in order and
  consumes all of it.
\<close>

theorem qpack_roundtrip:
  assumes "length (section_bytes hs) \<le> length buf" and "length buf < 2 ^ uw" and "8 \<le> uw" and "uw \<le> 64"
  shows "\<exists>buf' n. encode_field_section hs buf = Ok (buf', n) \<and> n = length (section_bytes hs) \<and>
    length buf' = length buf \<and> drop n buf' = drop n buf \<and> decode_field_section uw (take n buf') = (hs, Ok n)"
proof -
  let ?w = "section_bytes hs"
  have "(2 :: nat) ^ uw \<le> 2 ^ 64" using assms(4) by (intro power_increasing) auto
  with assms(1,2) have "length ?w < 2 ^ uw" "length ?w < 2 ^ 64" by linarith+
  moreover have "drop 2 ?w = concat (map line_bytes hs)" "2 \<le> length ?w" by (simp_all add: section_bytes_def)
  ultimately have "decode_lines uw ?w 2 [] = ([] @ hs, Ok (length ?w))"
    using assms(3) by (intro decode_lines_bytes)
  moreover have "decode_integer ?w 8 = Ok (0, 1)" "decode_integer (drop 1 ?w) 7 = Ok (0, 1)"
    by (simp_all add: section_bytes_def decode_integer_def Let_def)
  moreover have "?w \<noteq> []" "1 < length ?w" by (simp_all add: section_bytes_def)
  ultimately have "decode_field_section uw ?w = (hs, Ok (length ?w))"
    by (simp add: decode_field_section_def numeral_2_eq_2)
  then show ?thesis using encode_field_section_spec [OF assms(1)] assms(1) by simp
qed

theorem qpack_roundtrip_witness:
  "\<exists>buf' n. encode_field_section [(ascii '':method'', ascii ''GET''), (ascii ''x'', ascii ''yz'')] (replicate 16 0) = Ok (buf', n)
    \<and> n = 8 \<and> decode_field_section 64 (take n buf') = ([(ascii '':method'', ascii ''GET''), (ascii ''x'', ascii ''yz'')], Ok n)"
proof -
  have l: "qpack_lookup (ascii '':method'') (ascii ''GET'') = ExactMatch 17"
    "qpack_lookup (ascii ''x'') (ascii ''yz'') = NotFound"
    by (simp_all add: qpack_lookup_def QPACK_STATIC_TABLE_def qpack_static_0_def qpack_static_1_def qpack_static_2_def
        qpack_static_3_def qpack_static_4_def ascii_def)
  have n: "length (section_bytes [(ascii '':method'', ascii ''GET''), (ascii ''x'', ascii ''yz'')]) = 8"
    by (simp add: section_bytes_def line_bytes.simps l counted_bytes_def prefix_int_def) (simp add: ascii_def)
  show ?thesis
    using qpack_roundtrip [of "[(ascii '':method'', ascii ''GET''), (ascii ''x'', ascii ''yz'')]" "replicate 16 0" 64] n
    by auto
qed

section \<open>An overlong length\<close>

text \<open>The decoder on a section that begins with well-formed lines, and what it has reported by then.\<close>

lemma decode_lines_prefix:
  assumes "drop pos src = concat (map line_bytes hs) @ rest" and "pos \<le> length src"
    and "length src < 2 ^ uw" and "8 \<le> uw" and "length src < 2 ^ 64"
  shows "decode_lines uw src pos out = decode_lines uw src (pos + length (concat (map line_bytes hs))) (out @ hs)"
  using assms
proof (induction hs arbitrary: pos out)
  case (Cons h hs)
  obtain name val where h: "h = (name, val)" by fastforce
  have src: "drop pos src = line_bytes (name, val) @ concat (map line_bytes hs) @ rest" using Cons(2) h by simp
  have ne: "line_bytes (name, val) \<noteq> []"
    by (auto simp: line_bytes.simps prefix_int_def counted_bytes_def Let_def split: lookup_result.splits)
  then have pos: "pos < length src" using src Cons(3) by (metis append_is_Nil_conv drop_all leI)
  have "pos + length (line_bytes (name, val)) \<le> length src" using length_of_drop_append [OF src ne] by simp
  from Cons.IH [OF drop_append_shift [OF src] this Cons(4-6)] decode_line_bytes [OF src pos Cons(4-6)] h pos
  show ?case by (subst decode_lines.simps) (simp add: add.assoc)
qed simp

lemma decode_lines_reports: "length out \<le> length (fst (decode_lines uw src pos out))"
proof (induction uw src pos out rule: decode_lines.induct)
  case (1 uw src pos out)
  show ?case
  proof (cases "decode_line uw src pos")
    case (Ok hp)
    then obtain h p where hp: "decode_line uw src pos = Ok (h, p)" by (cases hp) simp
    have "length (out @ [h]) \<le> length (fst (decode_lines uw src p (out @ [h])))" if "pos < length src"
      using 1 [OF that, of out "(h, p)" h p] hp by simp
    then show ?thesis using hp by (subst decode_lines.simps) auto
  qed (subst decode_lines.simps, simp)+
qed

text \<open>The bytes of a length decide between a value, an error and a panic.\<close>

lemma take_string_panic:
  assumes "pos \<le> length src" and "length src < 2 ^ 64" and "len < 2 ^ 64"
  shows "take_string 64 src pos len = Panic \<longleftrightarrow> 2 ^ 64 \<le> pos + len"
proof (cases "2 ^ 64 \<le> pos + len")
  case True
  have "(pos + len) mod 2 ^ 64 = pos + len - 2 ^ 64"
    using assms True by (subst le_mod_geq) simp_all
  then show ?thesis
    using assms True by (simp add: take_string_def as_usize_def usize_add_def slice_def Let_def)
qed (use assms in \<open>simp add: take_string_def as_usize_def usize_add_def slice_def Let_def\<close>)

lemma overlong_line:
  assumes src: "drop pos src = prefix_int 4 0x70 i @ prefix_int 7 0x00 len @ rest" and pos: "pos < length src"
    and "i < 99" and "length src < 2 ^ 64" and len: "len < 2 ^ 64"
  shows "decode_line 64 src pos = Panic \<longleftrightarrow> 2 ^ 64 \<le> pos + length (prefix_int 4 0x70 i @ prefix_int 7 0x00 len) + len"
proof -
  let ?p = "prefix_int 4 0x70 i" and ?q = "prefix_int 7 0x00 len"
  have total: "length src = pos + length ?p + length ?q + length rest" using arg_cong [OF src, of length] pos by simp
  have q: "drop (pos + length ?p) src = ?q @ rest" using src by (rule drop_append_shift)
  obtain c t where c: "?q = c # t" "unat c < 128"
    using prefix_int_head [of 7 0 len] by (auto simp: unat_of_nat)
  then have inside: "pos + length ?p < length src" and qn: "?q \<noteq> []" using total by simp_all
  then have "src ! (pos + length ?p) = c" using q c by (simp add: Cons_nth_drop_Suc [symmetric])
  moreover have "decode_integer (drop (pos + length ?p) src) 7 = Ok (len, length ?q)"
    unfolding q using len by (intro decode_prefix_int) simp_all
  ultimately have val: "qpack_value 64 src (pos + length ?p) = Panic \<longleftrightarrow> 2 ^ 64 \<le> pos + length (?p @ ?q) + len"
    using take_string_panic [of "pos + length ?p + length ?q" src len] total assms(4) len inside qn high_bit_clear [OF c(2)]
    by (simp add: qpack_value_def bit_test unhuff_def res_bind_eq_Panic add.assoc)
  obtain b r where b: "?p = b # r" "b AND 0x80 = 0" "b AND 0xc0 = 0x40" "bit b 4" using name_ref_head [of i] by blast
  then have "src ! pos = b" using src pos by (simp add: Cons_nth_drop_Suc [symmetric])
  moreover have "decode_integer (drop pos src) 4 = Ok (i, length ?p)"
    unfolding src using assms(3) by (intro decode_prefix_int) (simp_all add: take_bit_eq_mod)
  ultimately have "decode_line 64 src pos = Panic \<longleftrightarrow> qpack_value 64 src (pos + length ?p) = Panic"
    using b(2-) pos assms(3)
    by (simp add: decode_line_def Let_def bit_test usize_static QPACK_STATIC_TABLE_length res_bind_eq_Panic)
  with val show ?thesis by blast
qed



end
