(* ===== verification/H3_Frame.thy ===== *)
theory H3_Frame
  imports Varint
begin

text \<open>
  The frames of HTTP/3 (\<^verbatim>\<open>src/h3/frame.rs\<close>, RFC 9114 section 7): type, length and payload, with QUIC's
  variable-length integers. The decoder inverts the encoder, as an instance of \<open>wire_codec\<close>, and
  skips the types it does not know.
\<close>

section \<open>The code\<close>

record h3_settings =
  max_field_section_size :: "nat option"
  qpack_max_table_capacity :: "nat option"
  qpack_blocked_streams :: "nat option"

definition h3_settings_default :: h3_settings where
  "h3_settings_default =
    \<lparr>max_field_section_size = None, qpack_max_table_capacity = None, qpack_blocked_streams = None\<rparr>"

datatype h3_frame =
    H3Data bytes
  | H3Headers bytes
  | H3CancelPush nat
  | H3Settings h3_settings
  | H3PushPromise nat bytes
  | H3GoAway nat
  | H3MaxPushId nat
  | H3Unknown nat

abbreviation h3_frame_error :: error where
  "h3_frame_error \<equiv> Http3 FrameError"

abbreviation h3_settings_error :: error where
  "h3_settings_error \<equiv> Http3 SettingsError"

definition apply_setting :: "nat \<Rightarrow> nat \<Rightarrow> h3_settings \<Rightarrow> h3_settings" where
  "apply_setting ident val settings =
    (if ident = 0x06 then settings\<lparr>max_field_section_size := Some val\<rparr>
     else if ident = 0x01 then settings\<lparr>qpack_max_table_capacity := Some val\<rparr>
     else if ident = 0x07 then settings\<lparr>qpack_blocked_streams := Some val\<rparr>
     else settings)"

function decode_settings_from :: "bytes \<Rightarrow> h3_settings \<Rightarrow> h3_settings res" where
  "decode_settings_from payload settings =
    (if payload \<noteq> [] then
       res_bind (map_err (\<lambda>_. h3_settings_error) (decode_varint payload)) (\<lambda>(ident, id_len).
       res_bind (slice_from payload id_len) (\<lambda>payload.
       res_bind (map_err (\<lambda>_. h3_settings_error) (decode_varint payload)) (\<lambda>(val, val_len).
       res_bind (slice_from payload val_len) (\<lambda>payload.
         decode_settings_from payload (apply_setting ident val settings)))))
     else Ok settings)"
  by pat_completeness auto
termination
  by (relation "measure (\<lambda>(payload, settings). length payload)")
     (auto simp: buf_Ok dest!: decode_varint_consumed)

declare decode_settings_from.simps [simp del]

definition decode_settings :: "bytes \<Rightarrow> h3_settings res" where
  "decode_settings payload = decode_settings_from payload h3_settings_default"

text \<open>A payload that is one integer.\<close>

definition decode_id_payload :: "bytes \<Rightarrow> nat res" where
  "decode_id_payload payload =
    res_bind (map_err (\<lambda>_. h3_frame_error) (decode_varint payload)) (\<lambda>(v, id_len).
      if id_len \<noteq> length payload then Err h3_frame_error else Ok v)"

definition decode_h3_payload :: "nat \<Rightarrow> bytes \<Rightarrow> h3_frame res" where
  "decode_h3_payload frame_type payload =
    (if frame_type = 0x00 then Ok (H3Data payload)
     else if frame_type = 0x01 then Ok (H3Headers payload)
     else if frame_type = 0x03 then res_bind (decode_id_payload payload) (\<lambda>v. Ok (H3CancelPush v))
     else if frame_type = 0x04 then res_bind (decode_settings payload) (\<lambda>s. Ok (H3Settings s))
     else if frame_type = 0x05 then
       res_bind (map_err (\<lambda>_. h3_frame_error) (decode_varint payload)) (\<lambda>(push_id, id_len).
       res_bind (slice_from payload id_len) (\<lambda>header_block. Ok (H3PushPromise push_id header_block)))
     else if frame_type = 0x07 then res_bind (decode_id_payload payload) (\<lambda>v. Ok (H3GoAway v))
     else if frame_type = 0x0d then res_bind (decode_id_payload payload) (\<lambda>v. Ok (H3MaxPushId v))
     else Ok (H3Unknown frame_type))"

definition decode_h3_frame :: "nat \<Rightarrow> bytes \<Rightarrow> (h3_frame \<times> nat) res" where
  "decode_h3_frame uw buf =
    res_bind (decode_varint buf) (\<lambda>(frame_type, type_len).
    res_bind (slice_from buf type_len) (\<lambda>rest.
    res_bind (decode_varint rest) (\<lambda>(payload_len, len_len).
      let payload_len = as_usize uw payload_len;
          header_len = type_len + len_len
      in res_bind (slice_from buf header_len) (\<lambda>rest.
           if length rest < payload_len then Err (BufferTooSmall (usize_add uw header_len payload_len))
           else
             res_bind (slice rest 0 payload_len) (\<lambda>payload.
             res_bind (decode_h3_payload frame_type payload) (\<lambda>frame. Ok (frame, header_len + payload_len)))))))"

definition encode_data_frame_header :: "nat \<Rightarrow> bytes \<Rightarrow> cursor res" where
  "encode_data_frame_header payload_len buf =
    (let needed = varint_len 0x00 + varint_len payload_len
     in if length buf < needed then Err (BufferTooSmall needed)
        else res_bind (put_varint 0x00 (buf, 0)) (\<lambda>c. put_varint payload_len c))"

definition encode_simple_frame :: "nat \<Rightarrow> bytes \<Rightarrow> bytes \<Rightarrow> cursor res" where
  "encode_simple_frame frame_type payload buf =
    (let payload_len = length payload;
         needed = varint_len frame_type + varint_len payload_len + length payload
     in if length buf < needed then Err (BufferTooSmall needed)
        else
          res_bind (put_varint frame_type (buf, 0)) (\<lambda>c.
          res_bind (put_varint payload_len c) (\<lambda>c. put_bytes payload c)))"

definition encode_varint_payload_frame :: "nat \<Rightarrow> nat \<Rightarrow> bytes \<Rightarrow> cursor res" where
  "encode_varint_payload_frame frame_type val buf =
    (let payload_size = varint_len val;
         needed = varint_len frame_type + varint_len payload_size + payload_size
     in if length buf < needed then Err (BufferTooSmall needed)
        else
          res_bind (put_varint frame_type (buf, 0)) (\<lambda>c.
          res_bind (put_varint payload_size c) (\<lambda>c. put_varint val c)))"

text \<open>The three settings in the order in which the encoder writes those that are present.\<close>

definition settings_list :: "h3_settings \<Rightarrow> (nat \<times> nat option) list" where
  "settings_list s =
    [(0x06, max_field_section_size s), (0x01, qpack_max_table_capacity s), (0x07, qpack_blocked_streams s)]"

fun settings_len :: "(nat \<times> nat option) list \<Rightarrow> nat" where
  "settings_len [] = 0"
| "settings_len ((ident, None) # l) = settings_len l"
| "settings_len ((ident, Some v) # l) = varint_len ident + varint_len v + settings_len l"

definition settings_payload_len :: "h3_settings \<Rightarrow> nat" where
  "settings_payload_len s = settings_len (settings_list s)"

fun put_settings :: "(nat \<times> nat option) list \<Rightarrow> cursor \<Rightarrow> cursor res" where
  "put_settings [] c = Ok c"
| "put_settings ((ident, None) # l) c = put_settings l c"
| "put_settings ((ident, Some v) # l) c =
    res_bind (put_varint ident c) (\<lambda>c. res_bind (put_varint v c) (\<lambda>c. put_settings l c))"

definition encode_settings_frame :: "h3_settings \<Rightarrow> bytes \<Rightarrow> cursor res" where
  "encode_settings_frame settings buf =
    (let payload_len = settings_payload_len settings;
         needed = varint_len 0x04 + varint_len payload_len + payload_len
     in if length buf < needed then Err (BufferTooSmall needed)
        else
          res_bind (put_varint 0x04 (buf, 0)) (\<lambda>c.
          res_bind (put_varint payload_len c) (\<lambda>c. put_settings (settings_list settings) c)))"

definition encode_push_promise_frame :: "nat \<Rightarrow> bytes \<Rightarrow> bytes \<Rightarrow> cursor res" where
  "encode_push_promise_frame push_id header_block buf =
    (let id_len = varint_len push_id;
         payload_len = id_len + length header_block;
         needed = varint_len 0x05 + varint_len payload_len + payload_len
     in if length buf < needed then Err (BufferTooSmall needed)
        else
          res_bind (put_varint 0x05 (buf, 0)) (\<lambda>c.
          res_bind (put_varint payload_len c) (\<lambda>c.
          res_bind (put_varint push_id c) (\<lambda>c. put_bytes header_block c))))"

fun encode_h3_frame :: "h3_frame \<Rightarrow> bytes \<Rightarrow> cursor res" where
  "encode_h3_frame (H3Data data) buf = encode_simple_frame 0x00 data buf"
| "encode_h3_frame (H3Headers data) buf = encode_simple_frame 0x01 data buf"
| "encode_h3_frame (H3CancelPush push_id) buf = encode_varint_payload_frame 0x03 push_id buf"
| "encode_h3_frame (H3Settings settings) buf = encode_settings_frame settings buf"
| "encode_h3_frame (H3PushPromise push_id header_block) buf = encode_push_promise_frame push_id header_block buf"
| "encode_h3_frame (H3GoAway stream_id) buf = encode_varint_payload_frame 0x07 stream_id buf"
| "encode_h3_frame (H3MaxPushId push_id) buf = encode_varint_payload_frame 0x0d push_id buf"
| "encode_h3_frame (H3Unknown frame_type) buf = Ok (buf, 0)"

section \<open>The format\<close>

fun settings_bytes :: "(nat \<times> nat option) list \<Rightarrow> bytes" where
  "settings_bytes [] = []"
| "settings_bytes ((ident, None) # l) = settings_bytes l"
| "settings_bytes ((ident, Some v) # l) = varint_bytes ident @ varint_bytes v @ settings_bytes l"

fun h3_parts :: "h3_frame \<Rightarrow> nat \<times> bytes" where
  "h3_parts (H3Data data) = (0x00, data)"
| "h3_parts (H3Headers data) = (0x01, data)"
| "h3_parts (H3CancelPush v) = (0x03, varint_bytes v)"
| "h3_parts (H3Settings s) = (0x04, settings_bytes (settings_list s))"
| "h3_parts (H3PushPromise v block) = (0x05, varint_bytes v @ block)"
| "h3_parts (H3GoAway v) = (0x07, varint_bytes v)"
| "h3_parts (H3MaxPushId v) = (0x0d, varint_bytes v)"
| "h3_parts (H3Unknown ty) = (ty, [])"

definition h3_frame_bytes :: "h3_frame \<Rightarrow> bytes" where
  "h3_frame_bytes f = (case h3_parts f of (ty, payload) \<Rightarrow> varint_bytes ty @ varint_bytes (length payload) @ payload)"

definition settings_wf :: "(nat \<times> nat option) list \<Rightarrow> bool" where
  "settings_wf l \<longleftrightarrow> (\<forall>(ident, v) \<in> set l. ident \<le> MAX_VARINT \<and> (\<forall>x. v = Some x \<longrightarrow> x \<le> MAX_VARINT))"

fun h3_fields_wf :: "h3_frame \<Rightarrow> bool" where
  "h3_fields_wf (H3CancelPush v) \<longleftrightarrow> v \<le> MAX_VARINT"
| "h3_fields_wf (H3Settings s) \<longleftrightarrow> settings_wf (settings_list s)"
| "h3_fields_wf (H3PushPromise v block) \<longleftrightarrow> v \<le> MAX_VARINT"
| "h3_fields_wf (H3GoAway v) \<longleftrightarrow> v \<le> MAX_VARINT"
| "h3_fields_wf (H3MaxPushId v) \<longleftrightarrow> v \<le> MAX_VARINT"
| "h3_fields_wf (H3Unknown ty) \<longleftrightarrow> False"
| "h3_fields_wf _ \<longleftrightarrow> True"

definition h3_wf :: "nat \<Rightarrow> h3_frame \<Rightarrow> bool" where
  "h3_wf uw f \<longleftrightarrow> h3_fields_wf f \<and> length (snd (h3_parts f)) \<le> MAX_VARINT \<and> length (snd (h3_parts f)) < 2 ^ uw"

subsection \<open>The encoder writes it\<close>

lemma length_settings_bytes [simp]: "length (settings_bytes l) = settings_len l"
  by (induction l rule: settings_bytes.induct) auto

lemma put_settings_wr:
  "settings_wf l \<Longrightarrow> length out + settings_len l \<le> length buf \<Longrightarrow>
   put_settings l (wr buf out) = Ok (wr buf (out @ settings_bytes l))"
  by (induction l arbitrary: out rule: settings_bytes.induct) (auto simp: settings_wf_def wire_simps)

lemma small_varint: "v < 64 \<Longrightarrow> v \<le> MAX_VARINT"
  by (simp add: MAX_VARINT_def)

lemma varint_len_MAX: "varint_len v \<le> MAX_VARINT"
  using varint_len_le_8 [of v] by (simp add: MAX_VARINT_def)

lemma encode_h3_frame_spec:
  assumes "h3_wf uw f" and "length (h3_frame_bytes f) \<le> length buf"
  shows "encode_h3_frame f buf = Ok (wr buf (h3_frame_bytes f))"
proof -
  have room: "varint_len (fst (h3_parts f)) + (varint_len (length (snd (h3_parts f))) + length (snd (h3_parts f))) \<le> length buf"
    and len: "length (snd (h3_parts f)) \<le> MAX_VARINT" and wf: "h3_fields_wf f"
    using assms by (auto simp: h3_frame_bytes_def h3_wf_def split: prod.splits)
  show ?thesis
    using room len wf
    by (cases f)
       (auto simp: h3_frame_bytes_def encode_simple_frame_def encode_varint_payload_frame_def encode_settings_frame_def
          encode_push_promise_frame_def settings_payload_len_def Let_def wr_start wire_simps small_varint
          varint_len_MAX put_settings_wr)
qed

subsection \<open>The decoder reads it\<close>

lemma h3_decode_settings_bytes:
  "settings_wf l \<Longrightarrow> decode_settings_from (settings_bytes l) s =
    Ok (fold (\<lambda>(ident, v) s. case v of None \<Rightarrow> s | Some x \<Rightarrow> apply_setting ident x s) l s)"
proof (induction l arbitrary: s rule: settings_bytes.induct)
  case 1
  then show ?case by (simp add: decode_settings_from.simps)
next
  case (2 ident l)
  then show ?case by (simp add: settings_wf_def)
next
  case (3 ident v l)
  then have "ident \<le> MAX_VARINT" "v \<le> MAX_VARINT" "settings_wf l" by (auto simp: settings_wf_def)
  with 3(1) show ?case by (subst decode_settings_from.simps) (simp add: wire_simps)
qed

lemma decode_settings_list: "settings_wf (settings_list s) \<Longrightarrow> decode_settings (settings_bytes (settings_list s)) = Ok s"
  by (simp add: decode_settings_def h3_decode_settings_bytes)
     (auto simp: settings_list_def apply_setting_def h3_settings_default_def split: option.splits)

lemma decode_id_bytes: "v \<le> MAX_VARINT \<Longrightarrow> decode_id_payload (varint_bytes v) = Ok v"
  using decode_varint_bytes [of v "[]"] by (simp add: decode_id_payload_def)

lemma decode_h3_payload_parts:
  "h3_fields_wf f \<Longrightarrow> decode_h3_payload (fst (h3_parts f)) (snd (h3_parts f)) = Ok f"
  by (cases f) (auto simp: decode_h3_payload_def decode_settings_list decode_id_bytes wire_simps)

lemma decode_h3_frame_bytes:
  assumes "h3_wf uw f"
  shows "decode_h3_frame uw (h3_frame_bytes f @ rest) = Ok (f, length (h3_frame_bytes f))"
proof -
  obtain ty payload where p: "h3_parts f = (ty, payload)" by fastforce
  have f: "h3_fields_wf f" "length payload \<le> MAX_VARINT" "length payload < 2 ^ uw" "ty \<le> MAX_VARINT"
    using assms p by (auto simp: h3_wf_def) (cases f; auto simp: small_varint)
  show ?thesis
    using f decode_h3_payload_parts [OF f(1)] p
    by (simp add: decode_h3_frame_def h3_frame_bytes_def wire_simps Let_def)
qed

subsection \<open>Arbitrary input\<close>

lemma decode_settings_no_panic [panic_free]: "decode_settings_from payload s \<noteq> Panic"
proof (induction "length payload" arbitrary: payload s rule: less_induct)
  case less
  then show ?case
    by (subst decode_settings_from.simps)
       (auto simp: res_bind_eq_Panic buf_Panic buf_Ok dest!: decode_varint_consumed split: if_splits)
qed

lemma decode_h3_payload_no_panic: "decode_h3_payload ty payload \<noteq> Panic"
  by (auto simp: decode_h3_payload_def decode_id_payload_def decode_settings_def decode_settings_no_panic res_bind_eq_Panic
      buf_Panic dest: decode_varint_consumed split: if_splits)

lemma decode_h3_frame_no_panic [panic_free]: "decode_h3_frame uw buf \<noteq> Panic"
  by (auto simp: decode_h3_frame_def Let_def res_bind_eq_Panic buf_Panic buf_Ok decode_h3_payload_no_panic
      dest!: decode_varint_consumed split: if_splits)

lemma decode_h3_frame_consumed: "decode_h3_frame uw buf = Ok (f, n) \<Longrightarrow> 0 < n \<and> n \<le> length buf"
  by (auto simp: decode_h3_frame_def Let_def res_bind_eq_Ok buf_Ok dest!: decode_varint_consumed split: if_splits)

interpretation h3_codec: wire_codec "decode_h3_frame uw" h3_frame_bytes "h3_wf uw"
  using decode_h3_frame_consumed decode_h3_frame_no_panic decode_h3_frame_bytes by unfold_locales blast+

text \<open>
  C29: The HTTP/3 frame codec is lossless: every well-formed frame encodes, when the buffer has the
  room, into its type, its length and its payload, and decoding a stream's bytes returns the frames
  that were written, in order, for any sequence of frames.
\<close>

theorem h3_frames_roundtrip:
  assumes "list_all (h3_wf uw) fs"
  shows "list_all (\<lambda>f. \<forall>buf. length (h3_frame_bytes f) \<le> length buf \<longrightarrow>
      encode_h3_frame f buf = Ok (h3_frame_bytes f @ drop (length (h3_frame_bytes f)) buf, length (h3_frame_bytes f))) fs \<and>
    decode_all (decode_h3_frame uw) (concat (map h3_frame_bytes fs)) = Ok fs"
  using assms encode_h3_frame_spec [of uw] h3_codec.decode_all_ser [OF assms] by (auto simp: list_all_iff wr_def)

theorem h3_frames_roundtrip_witness:
  "decode_all (decode_h3_frame 64) (concat (map h3_frame_bytes [H3Settings h3_settings_default, H3Headers [0, 0, 0xd1]]))
    = Ok [H3Settings h3_settings_default, H3Headers [0, 0, 0xd1]]"
  using h3_frames_roundtrip [of 64 "[H3Settings h3_settings_default, H3Headers [0, 0, 0xd1]]"]
  by (simp add: h3_wf_def settings_wf_def settings_list_def h3_settings_default_def MAX_VARINT_def)

end
