(* ===== verification/H2_Frame.thy ===== *)
theory H2_Frame
  imports Milli_Prelude
begin

unbundle bit_operations_syntax

text \<open>
  The frames of HTTP/2 (\<^verbatim>\<open>src/h2/frame.rs\<close>, RFC 9113 section 4): the nine-byte header, the ten frame
  types and the parameters of SETTINGS. The decoder inverts the encoder; as an instance of
  \<open>wire_codec\<close> the frames of a connection can be read back one after the other.
\<close>

section \<open>The code\<close>

definition FRAME_DATA :: byte where "FRAME_DATA = 0x0"
definition FRAME_HEADERS :: byte where "FRAME_HEADERS = 0x1"
definition FRAME_PRIORITY :: byte where "FRAME_PRIORITY = 0x2"
definition FRAME_RST_STREAM :: byte where "FRAME_RST_STREAM = 0x3"
definition FRAME_SETTINGS :: byte where "FRAME_SETTINGS = 0x4"
definition FRAME_PUSH_PROMISE :: byte where "FRAME_PUSH_PROMISE = 0x5"
definition FRAME_PING :: byte where "FRAME_PING = 0x6"
definition FRAME_GOAWAY :: byte where "FRAME_GOAWAY = 0x7"
definition FRAME_WINDOW_UPDATE :: byte where "FRAME_WINDOW_UPDATE = 0x8"
definition FRAME_CONTINUATION :: byte where "FRAME_CONTINUATION = 0x9"

definition FLAG_ACK :: byte where "FLAG_ACK = 0x1"
definition FLAG_END_STREAM :: byte where "FLAG_END_STREAM = 0x1"
definition FLAG_END_HEADERS :: byte where "FLAG_END_HEADERS = 0x4"
definition FLAG_PADDED :: byte where "FLAG_PADDED = 0x8"
definition FLAG_PRIORITY :: byte where "FLAG_PRIORITY = 0x20"

record h2_frame_header =
  hd_length :: nat
  hd_type :: byte
  hd_flags :: byte
  hd_stream_id :: nat

record h2_priority =
  exclusive :: bool
  dependency :: nat
  weight :: byte

datatype h2_frame =
    H2Data nat bytes bool
  | H2Headers nat bytes bool bool "h2_priority option"
  | H2Priority nat h2_priority
  | H2RstStream nat nat
  | H2Settings bool bytes
  | H2PushPromise nat nat bytes bool
  | H2Ping bytes bool
  | H2GoAway nat nat bytes
  | H2WindowUpdate nat nat
  | H2Continuation nat bytes bool
  | H2Unknown byte nat byte bytes

definition decode_frame_header :: "bytes \<Rightarrow> h2_frame_header res" where
  "decode_frame_header buf =
    (if length buf < 9 then Err (BufferTooSmall 9)
     else
       res_bind (idxs buf [0, 1, 2]) (\<lambda>len.
       res_bind (idx buf 3) (\<lambda>frame_type.
       res_bind (idx buf 4) (\<lambda>flags.
       res_bind (idx buf 5) (\<lambda>b.
       res_bind (idxs buf [6, 7, 8]) (\<lambda>rest.
         Ok \<lparr>hd_length = be_nat len, hd_type = frame_type, hd_flags = flags,
             hd_stream_id = be_nat ((b AND 0x7f) # rest)\<rparr>))))))"

definition encode_frame_header :: "h2_frame_header \<Rightarrow> bytes \<Rightarrow> bytes res" where
  "encode_frame_header hdr buf =
    (if length buf < 9 then Err (BufferTooSmall 9)
     else if hd_stream_id hdr > 0x7fffffff then Err InvalidState
     else
       let id_bytes = be_bytes 4 (hd_stream_id hdr mod 2 ^ 32)
       in Ok (buf[0 := word_of_nat (hd_length hdr div 2 ^ 16 mod 256),
                  1 := word_of_nat (hd_length hdr div 2 ^ 8 mod 256),
                  2 := word_of_nat (hd_length hdr mod 256),
                  3 := hd_type hdr, 4 := hd_flags hdr,
                  5 := id_bytes ! 0 AND 0x7f, 6 := id_bytes ! 1, 7 := id_bytes ! 2, 8 := id_bytes ! 3]))"

definition strip_padding :: "bytes \<Rightarrow> byte \<Rightarrow> (bytes \<times> nat) res" where
  "strip_padding payload flags =
    (if flags AND FLAG_PADDED \<noteq> 0 then
       if payload = [] then Err (BufferTooSmall 1)
       else
         let pad_len = unat (payload ! 0)
         in if pad_len \<ge> length payload then Err InvalidState
            else res_bind (slice payload 1 (length payload - pad_len)) (\<lambda>data. Ok (data, pad_len))
     else Ok (payload, 0))"

text \<open>\<^verbatim>\<open>u32::from_be_bytes([p[i] & 0x7f, p[i + 1], p[i + 2], p[i + 3]])\<close>.\<close>

definition read_u31 :: "bytes \<Rightarrow> nat res" where
  "read_u31 p = res_bind (idx p 0) (\<lambda>b. res_bind (idxs p [1, 2, 3]) (\<lambda>r. Ok (be_nat ((b AND 0x7f) # r))))"

definition read_u32 :: "bytes \<Rightarrow> nat \<Rightarrow> nat res" where
  "read_u32 p i = res_bind (idxs p [i, i + 1, i + 2, i + 3]) (\<lambda>r. Ok (be_nat r))"

definition read_priority :: "bytes \<Rightarrow> h2_priority res" where
  "read_priority p =
    res_bind (idx p 0) (\<lambda>b.
    res_bind (read_u31 p) (\<lambda>dep.
    res_bind (idx p 4) (\<lambda>w. Ok \<lparr>exclusive = (b AND 0x80 \<noteq> 0), dependency = dep, weight = w\<rparr>)))"

definition decode_payload :: "h2_frame_header \<Rightarrow> bytes \<Rightarrow> h2_frame res" where
  "decode_payload hdr payload =
    (let ty = hd_type hdr; flags = hd_flags hdr; sid = hd_stream_id hdr
     in if ty = FRAME_DATA then
          res_bind (strip_padding payload flags) (\<lambda>(data, _).
            Ok (H2Data sid data (flags AND FLAG_END_STREAM \<noteq> 0)))
        else if ty = FRAME_HEADERS then
          res_bind (strip_padding payload flags) (\<lambda>(data, _).
          res_bind (if flags AND FLAG_PRIORITY \<noteq> 0 then
                      if length data < 5 then Err (BufferTooSmall 5)
                      else res_bind (read_priority data) (\<lambda>p.
                           res_bind (slice_from data 5) (\<lambda>fragment. Ok (Some p, fragment)))
                    else Ok (None, data)) (\<lambda>(priority, fragment).
            Ok (H2Headers sid fragment (flags AND FLAG_END_STREAM \<noteq> 0) (flags AND FLAG_END_HEADERS \<noteq> 0) priority)))
        else if ty = FRAME_PRIORITY then
          if sid = 0 then Err InvalidState
          else if length payload \<noteq> 5 then Err InvalidState
          else res_bind (read_priority payload) (\<lambda>p. Ok (H2Priority sid p))
        else if ty = FRAME_RST_STREAM then
          if sid = 0 then Err InvalidState
          else if length payload \<noteq> 4 then Err InvalidState
          else res_bind (read_u32 payload 0) (\<lambda>error_code. Ok (H2RstStream sid error_code))
        else if ty = FRAME_SETTINGS then
          if sid \<noteq> 0 then Err InvalidState
          else Ok (H2Settings (flags AND FLAG_ACK \<noteq> 0) payload)
        else if ty = FRAME_PUSH_PROMISE then
          res_bind (strip_padding payload flags) (\<lambda>(data, _).
            if length data < 4 then Err (BufferTooSmall 4)
            else
              res_bind (read_u31 data) (\<lambda>promised_id.
              res_bind (slice_from data 4) (\<lambda>fragment.
                Ok (H2PushPromise sid promised_id fragment (flags AND FLAG_END_HEADERS \<noteq> 0)))))
        else if ty = FRAME_PING then
          if sid \<noteq> 0 then Err InvalidState
          else if length payload \<noteq> 8 then Err InvalidState
          else Ok (H2Ping payload (flags AND FLAG_ACK \<noteq> 0))
        else if ty = FRAME_GOAWAY then
          if sid \<noteq> 0 then Err InvalidState
          else if length payload < 8 then Err (BufferTooSmall 8)
          else
            res_bind (read_u31 payload) (\<lambda>last_stream_id.
            res_bind (read_u32 payload 4) (\<lambda>error_code.
            res_bind (slice_from payload 8) (\<lambda>debug. Ok (H2GoAway last_stream_id error_code debug))))
        else if ty = FRAME_WINDOW_UPDATE then
          if length payload \<noteq> 4 then Err InvalidState
          else res_bind (read_u31 payload) (\<lambda>increment. Ok (H2WindowUpdate sid increment))
        else if ty = FRAME_CONTINUATION then
          Ok (H2Continuation sid payload (flags AND FLAG_END_HEADERS \<noteq> 0))
        else Ok (H2Unknown ty sid flags payload))"

definition decode_h2_frame :: "bytes \<Rightarrow> (h2_frame \<times> nat) res" where
  "decode_h2_frame buf =
    res_bind (decode_frame_header buf) (\<lambda>hdr.
      let end_pos = 9 + hd_length hdr
      in if length buf < end_pos then Err (BufferTooSmall end_pos)
         else
           res_bind (slice buf 9 end_pos) (\<lambda>payload.
           res_bind (decode_payload hdr payload) (\<lambda>frame. Ok (frame, end_pos))))"

text \<open>
  Every branch of \<^verbatim>\<open>encode_frame\<close> checks the room, writes the header and copies the payload behind
  it piece by piece.
\<close>

fun put_all :: "bytes \<Rightarrow> nat \<Rightarrow> bytes list \<Rightarrow> bytes res" where
  "put_all buf off [] = Ok buf"
| "put_all buf off (p # ps) = res_bind (copy_at buf off p) (\<lambda>buf. put_all buf (off + length p) ps)"

definition encode_with :: "byte \<Rightarrow> byte \<Rightarrow> nat \<Rightarrow> bytes list \<Rightarrow> bytes \<Rightarrow> (bytes \<times> nat) res" where
  "encode_with ty flags sid parts buf =
    (let payload_len = length (concat parts);
         end_pos = 9 + payload_len
     in if length buf < end_pos then Err (BufferTooSmall end_pos)
        else
          res_bind (encode_frame_header
              \<lparr>hd_length = payload_len mod 2 ^ 32, hd_type = ty, hd_flags = flags, hd_stream_id = sid\<rparr> buf) (\<lambda>buf.
          res_bind (put_all buf 9 parts) (\<lambda>buf. Ok (buf, end_pos))))"

definition dep_bytes :: "h2_priority \<Rightarrow> bytes" where
  "dep_bytes p =
    (let dep = (if exclusive p then or (dependency p) 0x80000000 else dependency p) in be_bytes 4 dep)"

fun encode_h2_frame :: "h2_frame \<Rightarrow> bytes \<Rightarrow> (bytes \<times> nat) res" where
  "encode_h2_frame (H2Data sid payload end_stream) buf =
    encode_with FRAME_DATA (if end_stream then FLAG_END_STREAM else 0) sid [payload] buf"
| "encode_h2_frame (H2Headers sid fragment end_stream end_headers priority) buf =
    (let flags = 0;
         flags = (if end_stream then flags OR FLAG_END_STREAM else flags);
         flags = (if end_headers then flags OR FLAG_END_HEADERS else flags)
     in case priority of
          Some p \<Rightarrow> encode_with FRAME_HEADERS (flags OR FLAG_PRIORITY) sid [dep_bytes p, [weight p], fragment] buf
        | None \<Rightarrow> encode_with FRAME_HEADERS flags sid [fragment] buf)"
| "encode_h2_frame (H2Priority sid p) buf = encode_with FRAME_PRIORITY 0 sid [dep_bytes p, [weight p]] buf"
| "encode_h2_frame (H2RstStream sid error_code) buf = encode_with FRAME_RST_STREAM 0 sid [be_bytes 4 error_code] buf"
| "encode_h2_frame (H2Settings ack params) buf =
    encode_with FRAME_SETTINGS (if ack then FLAG_ACK else 0) 0 [params] buf"
| "encode_h2_frame (H2PushPromise sid promised_id fragment end_headers) buf =
    encode_with FRAME_PUSH_PROMISE (if end_headers then FLAG_END_HEADERS else 0) sid
      [be_bytes 4 (promised_id mod 2 ^ 31), fragment] buf"
| "encode_h2_frame (H2Ping data ack) buf = encode_with FRAME_PING (if ack then FLAG_ACK else 0) 0 [data] buf"
| "encode_h2_frame (H2GoAway last_stream_id error_code debug) buf =
    encode_with FRAME_GOAWAY 0 0 [be_bytes 4 (last_stream_id mod 2 ^ 31), be_bytes 4 error_code, debug] buf"
| "encode_h2_frame (H2WindowUpdate sid increment) buf =
    encode_with FRAME_WINDOW_UPDATE 0 sid [be_bytes 4 (increment mod 2 ^ 31)] buf"
| "encode_h2_frame (H2Continuation sid fragment end_headers) buf =
    encode_with FRAME_CONTINUATION (if end_headers then FLAG_END_HEADERS else 0) sid [fragment] buf"
| "encode_h2_frame (H2Unknown ty sid flags payload) buf = Ok (buf, 0)"

definition encode_setting :: "nat \<Rightarrow> nat \<Rightarrow> bytes \<Rightarrow> (bytes \<times> nat) res" where
  "encode_setting ident val buf =
    (if length buf < 6 then Err (BufferTooSmall 6)
     else
       res_bind (copy_at buf 0 (be_bytes 2 ident)) (\<lambda>buf.
       res_bind (copy_at buf 2 (be_bytes 4 val)) (\<lambda>buf. Ok (buf, 6))))"

text \<open>
  The loop of \<^verbatim>\<open>decode_settings_params\<close>; the callback is a function on the caller's state, and its
  error ends the loop.
\<close>

function settings_from ::
  "(nat \<Rightarrow> nat \<Rightarrow> 's \<Rightarrow> 's \<times> unit res) \<Rightarrow> bytes \<Rightarrow> nat \<Rightarrow> 's \<Rightarrow> 's \<times> unit res" where
  "settings_from emit payload pos s =
    (if pos + 6 \<le> length payload then
       sbind (s, read_u32 payload (pos + 2)) (\<lambda>s val.
       sbind (s, idxs payload [pos, pos + 1]) (\<lambda>s ident.
       sbind (emit (be_nat ident) val s) (\<lambda>s _. settings_from emit payload (pos + 6) s)))
     else (s, Ok ()))"
  by pat_completeness auto
termination
  by (relation "measure (\<lambda>(emit, payload, pos, s). length payload - pos)") auto

declare settings_from.simps [simp del]

definition decode_settings_params ::
  "(nat \<Rightarrow> nat \<Rightarrow> 's \<Rightarrow> 's \<times> unit res) \<Rightarrow> bytes \<Rightarrow> 's \<Rightarrow> 's \<times> unit res" where
  "decode_settings_params emit payload s =
    (if length payload mod 6 \<noteq> 0 then (s, Err InvalidState) else settings_from emit payload 0 s)"

section \<open>The format\<close>

definition h2_wire :: "byte \<Rightarrow> byte \<Rightarrow> nat \<Rightarrow> bytes \<Rightarrow> bytes" where
  "h2_wire ty flags sid payload = be_bytes 3 (length payload) @ [ty, flags] @ be_bytes 4 sid @ payload"

definition flag :: "bool \<Rightarrow> byte \<Rightarrow> byte" where
  "flag b f = (if b then f else 0)"

definition priority_bytes :: "h2_priority \<Rightarrow> bytes" where
  "priority_bytes p = be_bytes 4 (dependency p + (if exclusive p then 2 ^ 31 else 0)) @ [weight p]"

text \<open>The type, the flags, the stream and the payload of a frame.\<close>

fun h2_parts :: "h2_frame \<Rightarrow> byte \<times> byte \<times> nat \<times> bytes" where
  "h2_parts (H2Data sid payload es) = (FRAME_DATA, flag es FLAG_END_STREAM, sid, payload)"
| "h2_parts (H2Headers sid fragment es eh pr) =
    (FRAME_HEADERS, flag es FLAG_END_STREAM OR flag eh FLAG_END_HEADERS OR flag (pr \<noteq> None) FLAG_PRIORITY, sid,
     (case pr of Some p \<Rightarrow> priority_bytes p | None \<Rightarrow> []) @ fragment)"
| "h2_parts (H2Priority sid p) = (FRAME_PRIORITY, 0, sid, priority_bytes p)"
| "h2_parts (H2RstStream sid code) = (FRAME_RST_STREAM, 0, sid, be_bytes 4 code)"
| "h2_parts (H2Settings ack params) = (FRAME_SETTINGS, flag ack FLAG_ACK, 0, params)"
| "h2_parts (H2PushPromise sid pid fragment eh) =
    (FRAME_PUSH_PROMISE, flag eh FLAG_END_HEADERS, sid, be_bytes 4 pid @ fragment)"
| "h2_parts (H2Ping data ack) = (FRAME_PING, flag ack FLAG_ACK, 0, data)"
| "h2_parts (H2GoAway lsid code debug) = (FRAME_GOAWAY, 0, 0, be_bytes 4 lsid @ be_bytes 4 code @ debug)"
| "h2_parts (H2WindowUpdate sid inc) = (FRAME_WINDOW_UPDATE, 0, sid, be_bytes 4 inc)"
| "h2_parts (H2Continuation sid fragment eh) = (FRAME_CONTINUATION, flag eh FLAG_END_HEADERS, sid, fragment)"
| "h2_parts (H2Unknown ty sid flags payload) = (ty, flags, sid, payload)"

definition h2_frame_bytes :: "h2_frame \<Rightarrow> bytes" where
  "h2_frame_bytes f = (case h2_parts f of (ty, flags, sid, payload) \<Rightarrow> h2_wire ty flags sid payload)"

fun h2_fields_wf :: "h2_frame \<Rightarrow> bool" where
  "h2_fields_wf (H2Headers sid fragment es eh pr) \<longleftrightarrow> (\<forall>p. pr = Some p \<longrightarrow> dependency p < 2 ^ 31)"
| "h2_fields_wf (H2Priority sid p) \<longleftrightarrow> 0 < sid \<and> dependency p < 2 ^ 31"
| "h2_fields_wf (H2RstStream sid code) \<longleftrightarrow> 0 < sid \<and> code < 2 ^ 32"
| "h2_fields_wf (H2PushPromise sid pid fragment eh) \<longleftrightarrow> pid < 2 ^ 31"
| "h2_fields_wf (H2Ping data ack) \<longleftrightarrow> length data = 8"
| "h2_fields_wf (H2GoAway lsid code debug) \<longleftrightarrow> lsid < 2 ^ 31 \<and> code < 2 ^ 32"
| "h2_fields_wf (H2WindowUpdate sid inc) \<longleftrightarrow> inc < 2 ^ 31"
| "h2_fields_wf (H2Unknown ty sid flags payload) \<longleftrightarrow> False"
| "h2_fields_wf _ \<longleftrightarrow> True"

definition h2_wf :: "h2_frame \<Rightarrow> bool" where
  "h2_wf f \<longleftrightarrow> h2_fields_wf f \<and>
    (case h2_parts f of (ty, flags, sid, payload) \<Rightarrow> sid < 2 ^ 31 \<and> length payload < 2 ^ 24)"

subsection \<open>The encoder writes it\<close>

lemma list_9: "9 \<le> length xs \<Longrightarrow> \<exists>a b c d e f g h i t. xs = a # b # c # d # e # f # g # h # i # t"
  by (auto simp: numeral_eq_Suc Suc_le_length_iff)

lemma byte_mod: "(word_of_nat (n mod 256) :: byte) = word_of_nat n"
  by (simp add: word_unat_eq_iff unat_byte_of_nat)

lemma and_7f: "unat (b :: byte) < 128 \<Longrightarrow> b AND 0x7f = b"
  by (simp add: word_unat_eq_iff byte_low_bits)

lemma u31_head: "v < 2 ^ 31 \<Longrightarrow> (word_of_nat (v div 16777216) :: byte) AND 0x7f = word_of_nat (v div 16777216)"
  by (intro and_7f) (simp add: unat_byte_of_nat less_mult_imp_div_less)

lemma encode_frame_header_spec:
  assumes "9 \<le> length buf" and "sid < 2 ^ 31"
  shows "encode_frame_header \<lparr>hd_length = n, hd_type = ty, hd_flags = fl, hd_stream_id = sid\<rparr> buf
    = Ok ((be_bytes 3 n @ [ty, fl] @ be_bytes 4 sid) @ drop 9 buf)"
proof -
  obtain a b c d e f g h i t where buf: "buf = a # b # c # d # e # f # g # h # i # t"
    using list_9 [OF assms(1)] by blast
  have "sid mod 2 ^ 32 = sid" using assms(2) by simp
  then show ?thesis
    using assms(2) u31_head [OF assms(2)] by (simp add: encode_frame_header_def buf Let_def byte_mod)
qed

lemma put_all_spec:
  "length out + length (concat ps) \<le> length buf \<Longrightarrow>
   put_all (out @ drop (length out) buf) (length out) ps = Ok ((out @ concat ps) @ drop (length (out @ concat ps)) buf)"
proof (induction ps arbitrary: out)
  case (Cons p ps)
  have "copy_at (out @ drop (length out) buf) (length out) p = Ok ((out @ p) @ drop (length (out @ p)) buf)"
    using Cons(2) by (simp add: add.commute)
  then show ?case using Cons.IH [of "out @ p"] Cons(2) by simp
qed simp

lemma encode_with_spec:
  assumes "sid < 2 ^ 31" and "length (concat parts) < 2 ^ 24"
    and "length (h2_wire ty flags sid (concat parts)) \<le> length buf"
  shows "encode_with ty flags sid parts buf =
    Ok (h2_wire ty flags sid (concat parts) @ drop (length (h2_wire ty flags sid (concat parts))) buf,
        length (h2_wire ty flags sid (concat parts)))"
proof -
  define n where "n = length (concat parts)"
  define H where "H = be_bytes 3 n @ [ty, flags] @ be_bytes 4 sid"
  have hl: "length H = 9" by (simp add: H_def)
  have wire: "h2_wire ty flags sid (concat parts) = H @ concat parts" by (simp add: h2_wire_def H_def n_def)
  have room: "9 + n \<le> length buf" using assms(3) by (simp add: wire hl n_def)
  have n: "n mod 2 ^ 32 = n" using assms(2) by (simp add: n_def)
  have hdr: "encode_frame_header \<lparr>hd_length = n, hd_type = ty, hd_flags = flags, hd_stream_id = sid\<rparr> buf
    = Ok (H @ drop 9 buf)"
    unfolding H_def using room assms(1) by (intro encode_frame_header_spec) auto
  have put: "put_all (H @ drop 9 buf) 9 parts = Ok ((H @ concat parts) @ drop (length (H @ concat parts)) buf)"
    using put_all_spec [of H parts buf] room by (simp add: hl n_def)
  show ?thesis
    unfolding encode_with_def Let_def wire n_def [symmetric] n hdr res_bind.simps put using room by (simp add: hl n_def)
qed

lemma dep_bytes_eq: "dependency p < 2 ^ 31 \<Longrightarrow> priority_bytes p = dep_bytes p @ [weight p]"
proof -
  assume "dependency p < 2 ^ 31"
  then have "dependency p = take_bit 31 (dependency p)" by (simp add: take_bit_eq_mod)
  then have "bit (dependency p) n \<Longrightarrow> n < 31" for n by (metis bit_take_bit_iff)
  then have "dependency p + 2 ^ 31 = or (dependency p) (2 ^ 31)"
    by (intro disjunctive_add) (auto simp: bit_exp_iff simp del: power_numeral)
  then show ?thesis by (simp add: dep_bytes_def priority_bytes_def del: be_bytes_numeral)
qed

fun h2_pieces :: "h2_frame \<Rightarrow> bytes list" where
  "h2_pieces (H2Headers sid fragment es eh (Some p)) = [dep_bytes p, [weight p], fragment]"
| "h2_pieces (H2Headers sid fragment es eh None) = [fragment]"
| "h2_pieces (H2Priority sid p) = [dep_bytes p, [weight p]]"
| "h2_pieces (H2PushPromise sid pid fragment eh) = [be_bytes 4 pid, fragment]"
| "h2_pieces (H2GoAway lsid code debug) = [be_bytes 4 lsid, be_bytes 4 code, debug]"
| "h2_pieces f = [snd (snd (snd (h2_parts f)))]"

lemma h2_pieces_spec:
  assumes "h2_parts f = (ty, flags, sid, payload)" and "h2_fields_wf f"
  shows "concat (h2_pieces f) = payload" and "encode_h2_frame f buf = encode_with ty flags sid (h2_pieces f) buf"
proof -
  show "concat (h2_pieces f) = payload"
    using assms by (cases f rule: h2_pieces.cases) (auto simp: dep_bytes_eq simp del: be_bytes_numeral)
  show "encode_h2_frame f buf = encode_with ty flags sid (h2_pieces f) buf"
    using assms
    by (cases f rule: h2_pieces.cases) (auto simp: flag_def or.assoc Let_def simp del: be_bytes_numeral)
qed

lemma encode_h2_frame_spec:
  assumes "h2_wf f" and "length (h2_frame_bytes f) \<le> length buf"
  shows "encode_h2_frame f buf = Ok (h2_frame_bytes f @ drop (length (h2_frame_bytes f)) buf, length (h2_frame_bytes f))"
proof -
  obtain ty flags sid payload where p: "h2_parts f = (ty, flags, sid, payload)" by (cases "h2_parts f")
  have f: "h2_frame_bytes f = h2_wire ty flags sid payload" "sid < 2 ^ 31" "length payload < 2 ^ 24" "h2_fields_wf f"
    using assms(1) p by (auto simp: h2_frame_bytes_def h2_wf_def)
  show ?thesis
    using encode_with_spec [of sid "h2_pieces f" ty flags buf] f assms(2)
    by (simp add: h2_pieces_spec [OF p f(4)])
qed

subsection \<open>The decoder reads it\<close>

lemma decode_wire_header:
  assumes "sid < 2 ^ 31" and "length payload < 2 ^ 24"
  shows "decode_frame_header (h2_wire ty flags sid payload @ rest) =
    Ok \<lparr>hd_length = length payload, hd_type = ty, hd_flags = flags, hd_stream_id = sid\<rparr>"
proof -
  have "be_nat (be_bytes 3 (length payload)) = length payload" "be_nat (be_bytes 4 sid) = sid"
    using assms by (simp_all only: be_nat_be_bytes) simp_all
  then show ?thesis using u31_head [OF assms(1)] by (simp add: decode_frame_header_def h2_wire_def idxs_def)
qed

lemma decode_wire:
  assumes "sid < 2 ^ 31" and "length payload < 2 ^ 24"
  shows "decode_h2_frame (h2_wire ty flags sid payload @ rest) =
    res_bind (decode_payload \<lparr>hd_length = length payload, hd_type = ty, hd_flags = flags, hd_stream_id = sid\<rparr> payload)
      (\<lambda>frame. Ok (frame, length (h2_wire ty flags sid payload)))"
proof -
  have "length (h2_wire ty flags sid payload) = 9 + length payload" by (simp add: h2_wire_def)
  moreover have "drop 9 (h2_wire ty flags sid payload @ rest) = payload @ rest" by (simp add: h2_wire_def)
  ultimately show ?thesis using decode_wire_header [OF assms] by (simp add: decode_h2_frame_def)
qed

lemma flag_tests:
  "flag a FLAG_END_STREAM OR flag b FLAG_END_HEADERS OR flag c FLAG_PRIORITY = fl \<Longrightarrow>
   (fl AND FLAG_END_STREAM \<noteq> 0) = a \<and> (fl AND FLAG_END_HEADERS \<noteq> 0) = b \<and> (fl AND FLAG_PRIORITY \<noteq> 0) = c
   \<and> fl AND FLAG_PADDED = 0"
  by (cases a; cases b; cases c)
     (auto simp: flag_def FLAG_END_STREAM_def FLAG_END_HEADERS_def FLAG_PRIORITY_def FLAG_PADDED_def)

lemma flag_test [simp]:
  "flag a FLAG_END_STREAM AND FLAG_END_STREAM = 0 \<longleftrightarrow> \<not> a"
  "flag a FLAG_END_HEADERS AND FLAG_END_HEADERS = 0 \<longleftrightarrow> \<not> a"
  "flag a FLAG_ACK AND FLAG_ACK = 0 \<longleftrightarrow> \<not> a"
  by (simp_all add: flag_def FLAG_END_STREAM_def FLAG_END_HEADERS_def FLAG_ACK_def)

lemma no_padding: "fl AND FLAG_PADDED = 0 \<Longrightarrow> strip_padding p fl = Ok (p, 0)"
  by (simp add: strip_padding_def)

lemma flags_unpadded [simp]:
  "flag a FLAG_END_STREAM AND FLAG_PADDED = 0" "flag a FLAG_END_HEADERS AND FLAG_PADDED = 0"
  by (simp_all add: flag_def FLAG_END_STREAM_def FLAG_END_HEADERS_def FLAG_PADDED_def)

lemma read_u31_bytes: "v < 2 ^ 31 \<Longrightarrow> read_u31 (be_bytes 4 v @ rest) = Ok v"
proof -
  assume v: "v < 2 ^ 31"
  then have "be_nat (be_bytes 4 v) = v" by (simp only: be_nat_be_bytes) simp
  then show ?thesis using u31_head [OF v] by (simp add: read_u31_def idxs_def)
qed

lemma read_u32_bytes: "v < 2 ^ 32 \<Longrightarrow> read_u32 (pre @ be_bytes 4 v @ rest) (length pre) = Ok v"
proof -
  assume v: "v < 2 ^ 32"
  then have "be_nat (be_bytes 4 v) = v" by (simp only: be_nat_be_bytes) simp
  then show ?thesis by (simp add: read_u32_def idxs_def nth_append)
qed

lemma read_priority_bytes:
  assumes "dependency p < 2 ^ 31"
  shows "read_priority (priority_bytes p @ rest) = Ok p"
proof -
  let ?d = "dependency p + (if exclusive p then 2 ^ 31 else 0)"
  define b where "b = (word_of_nat (?d div 256 ^ 3) :: byte)"
  define t where "t = be_bytes 3 (dependency p)"
  have b: "unat b = dependency p div 256 ^ 3 + (if exclusive p then 128 else 0)"
  proof -
    have "dependency p div 256 ^ 3 < 128" using assms by (simp add: less_mult_imp_div_less)
    moreover have "(dependency p + 128 * 256 ^ 3) div 256 ^ 3 = 128 + dependency p div 256 ^ 3"
      by (rule div_mult_self1) simp
    ultimately show ?thesis by (simp add: b_def unat_byte_of_nat)
  qed
  have "be_bytes 3 ?d = t"
    using be_bytes_mod [of 3 "dependency p" 128] by (simp add: t_def)
  then have eq: "priority_bytes p @ rest = b # t @ weight p # rest"
    using be_bytes.simps(2) [of 3 ?d] by (simp add: priority_bytes_def b_def del: be_bytes_numeral)
  obtain x y z where t: "t = [x, y, z]" by (simp add: t_def)
  have low: "unat b mod 128 = dependency p div 256 ^ 3"
    using b assms by (simp add: less_mult_imp_div_less)
  have "be_nat t = dependency p mod 256 ^ 3" unfolding t_def by (rule be_nat_be_bytes)
  moreover have "length t = 3" by (simp add: t)
  ultimately have "be_nat ((b AND 0x7f) # t) = dependency p"
    using div_mult_mod_eq [of "dependency p" "256 ^ 3"] by (simp add: byte_low_bits low)
  moreover have "(b AND 0x80 \<noteq> 0) = exclusive p"
    using b assms by (simp add: byte_high_bit less_mult_imp_div_less)
  ultimately show ?thesis
    unfolding eq by (simp add: read_priority_def read_u31_def idxs_def t)
qed

lemmas frame_types = FRAME_DATA_def FRAME_HEADERS_def FRAME_PRIORITY_def FRAME_RST_STREAM_def FRAME_SETTINGS_def
  FRAME_PUSH_PROMISE_def FRAME_PING_def FRAME_GOAWAY_def FRAME_WINDOW_UPDATE_def FRAME_CONTINUATION_def

lemma decode_headers_parts:
  assumes "flag es FLAG_END_STREAM OR flag eh FLAG_END_HEADERS OR flag (pr \<noteq> None) FLAG_PRIORITY = flags"
    and "\<forall>p. pr = Some p \<longrightarrow> dependency p < 2 ^ 31"
  shows "decode_payload \<lparr>hd_length = n, hd_type = FRAME_HEADERS, hd_flags = flags, hd_stream_id = sid\<rparr>
    ((case pr of Some p \<Rightarrow> priority_bytes p | None \<Rightarrow> []) @ fragment) = Ok (H2Headers sid fragment es eh pr)"
proof (cases pr)
  case None
  then show ?thesis using flag_tests [OF assms(1)] by (simp add: decode_payload_def no_padding frame_types)
next
  case (Some q)
  have "length (priority_bytes q) = 5" by (simp add: priority_bytes_def)
  then have "length (priority_bytes q @ fragment) \<ge> 5" "drop 5 (priority_bytes q @ fragment) = fragment" by simp_all
  then show ?thesis
    using flag_tests [OF assms(1)] Some assms(2) read_priority_bytes [of q fragment]
    by (simp add: decode_payload_def no_padding frame_types)
qed

lemma decode_payload_parts:
  assumes "h2_parts f = (ty, flags, sid, payload)" and "h2_fields_wf f"
  shows "decode_payload \<lparr>hd_length = n, hd_type = ty, hd_flags = flags, hd_stream_id = sid\<rparr> payload = Ok f"
proof (cases f)
  case (H2Headers sid' fragment es eh pr)
  then show ?thesis using decode_headers_parts [of es eh pr flags n sid' fragment] assms by auto
next
  case (H2Priority sid' p)
  moreover have "length (priority_bytes p) = 5" by (simp add: priority_bytes_def)
  ultimately show ?thesis
    using assms read_priority_bytes [of p "[]"] by (auto simp: decode_payload_def frame_types)
next
  case (H2RstStream sid' code)
  then show ?thesis
    using assms read_u32_bytes [of code "[]" "[]"] by (auto simp: decode_payload_def frame_types simp del: be_bytes_numeral)
next
  case (H2PushPromise sid' pid fragment eh)
  moreover have "drop 4 (be_bytes 4 pid @ fragment) = fragment" by simp
  ultimately show ?thesis
    using assms read_u31_bytes [of pid fragment]
    by (auto simp: decode_payload_def frame_types no_padding simp del: be_bytes_numeral)
next
  case (H2GoAway lsid code debug)
  moreover have "drop 8 (be_bytes 4 lsid @ be_bytes 4 code @ debug) = debug" by simp
  ultimately show ?thesis
    using assms read_u31_bytes [of lsid "be_bytes 4 code @ debug"] read_u32_bytes [of code "be_bytes 4 lsid" debug]
    by (auto simp: decode_payload_def frame_types simp del: be_bytes_numeral)
next
  case (H2WindowUpdate sid' inc)
  then show ?thesis
    using assms read_u31_bytes [of inc "[]"] by (auto simp: decode_payload_def frame_types simp del: be_bytes_numeral)
qed (use assms in \<open>auto simp: decode_payload_def no_padding frame_types\<close>)

lemma decode_h2_frame_bytes:
  assumes "h2_wf f"
  shows "decode_h2_frame (h2_frame_bytes f @ rest) = Ok (f, length (h2_frame_bytes f))"
proof -
  obtain ty flags sid payload where p: "h2_parts f = (ty, flags, sid, payload)" by (cases "h2_parts f")
  have f: "sid < 2 ^ 31" "length payload < 2 ^ 24" "h2_fields_wf f" using assms p by (auto simp: h2_wf_def)
  show ?thesis using decode_wire [OF f(1,2)] decode_payload_parts [OF p f(3)] by (simp add: h2_frame_bytes_def p)
qed

subsection \<open>Arbitrary input\<close>

lemma strip_padding_no_panic [panic_free]: "strip_padding p fl \<noteq> Panic"
  by (auto simp: strip_padding_def Let_def res_bind_eq_Panic buf_Panic)

lemma read_no_panic [panic_free]:
  "4 \<le> length p \<Longrightarrow> read_u31 p \<noteq> Panic" "i + 4 \<le> length p \<Longrightarrow> read_u32 p i \<noteq> Panic"
  "5 \<le> length p \<Longrightarrow> read_priority p \<noteq> Panic"
  by (auto simp: read_priority_def read_u31_def read_u32_def idxs_def res_bind_eq_Panic buf_Panic split: if_splits)

lemma if_no_panic: "(c \<Longrightarrow> a \<noteq> Panic) \<Longrightarrow> (\<not> c \<Longrightarrow> b \<noteq> Panic) \<Longrightarrow> (if c then a else b) \<noteq> Panic"
  by simp

lemma decode_payload_no_panic [panic_free]: "decode_payload hdr payload \<noteq> Panic"
  unfolding decode_payload_def Let_def
  by (intro if_no_panic res_bind_no_panic) (auto simp: buf_Panic strip_padding_no_panic read_no_panic res_bind_eq_Panic split: if_splits)

lemma decode_frame_header_no_panic [panic_free]: "decode_frame_header buf \<noteq> Panic"
  by (auto simp: decode_frame_header_def idxs_def res_bind_eq_Panic buf_Panic split: if_splits)

lemma decode_h2_frame_no_panic [panic_free]: "decode_h2_frame buf \<noteq> Panic"
  by (auto simp: decode_h2_frame_def Let_def res_bind_eq_Panic buf_Panic panic_free)

lemma decode_h2_frame_consumed: "decode_h2_frame buf = Ok (f, n) \<Longrightarrow> 9 \<le> n \<and> n \<le> length buf"
  by (auto simp: decode_h2_frame_def Let_def res_bind_eq_Ok split: if_splits)

interpretation h2_codec: wire_codec decode_h2_frame h2_frame_bytes h2_wf
  using decode_h2_frame_consumed
  by unfold_locales (fastforce simp: panic_free decode_h2_frame_bytes)+

text \<open>
  C28: The HTTP/2 frame codec is lossless: every well-formed frame encodes, when the buffer has the
  room, into its nine-byte header and its payload; decoding a connection's bytes returns the frames
  that were written, in order, for any sequence of frames.
\<close>

theorem h2_frames_roundtrip:
  assumes "list_all h2_wf fs"
  shows "list_all (\<lambda>f. \<forall>buf. length (h2_frame_bytes f) \<le> length buf \<longrightarrow>
      encode_h2_frame f buf = Ok (h2_frame_bytes f @ drop (length (h2_frame_bytes f)) buf, length (h2_frame_bytes f))) fs \<and>
    decode_all decode_h2_frame (concat (map h2_frame_bytes fs)) = Ok fs"
  using assms encode_h2_frame_spec h2_codec.decode_all_ser [OF assms] by (auto simp: list_all_iff)

theorem h2_frames_roundtrip_witness:
  "decode_all decode_h2_frame (concat (map h2_frame_bytes [H2Settings False [], H2Headers 1 [0x82] True True None]))
    = Ok [H2Settings False [], H2Headers 1 [0x82] True True None]"
  using h2_frames_roundtrip [of "[H2Settings False [], H2Headers 1 [0x82] True True None]"]
  by (simp add: h2_wf_def)

subsection \<open>Settings\<close>

definition setting_bytes :: "nat \<times> nat \<Rightarrow> bytes" where
  "setting_bytes p = be_bytes 2 (fst p) @ be_bytes 4 (snd p)"

lemma setting_bytes_len: "length (setting_bytes p) = 6"
  by (simp add: setting_bytes_def)

lemma encode_setting_spec:
  "6 \<le> length buf \<Longrightarrow> encode_setting i v buf = Ok (setting_bytes (i, v) @ drop 6 buf, 6)"
  by (simp add: encode_setting_def setting_bytes_def del: be_bytes_numeral)

text \<open>The parameters reach the callback in order, until it fails.\<close>

fun emit_all :: "(nat \<Rightarrow> nat \<Rightarrow> 's \<Rightarrow> 's \<times> unit res) \<Rightarrow> (nat \<times> nat) list \<Rightarrow> 's \<Rightarrow> 's \<times> unit res" where
  "emit_all emit [] s = (s, Ok ())"
| "emit_all emit ((i, v) # ps) s = sbind (emit i v s) (\<lambda>s _. emit_all emit ps s)"

lemma settings_from_bytes:
  assumes "drop pos payload = concat (map setting_bytes ps)" and "pos \<le> length payload"
    and "list_all (\<lambda>(i, v). i < 2 ^ 16 \<and> v < 2 ^ 32) ps"
  shows "settings_from emit payload pos s = emit_all emit ps s"
  using assms
proof (induction ps arbitrary: pos s)
  case Nil
  then show ?case by (subst settings_from.simps) simp
next
  case (Cons p ps)
  obtain i v where p: "p = (i, v)" by fastforce
  define pre where "pre = take pos payload"
  let ?t = "concat (map setting_bytes ps)"
  have pay: "payload = pre @ setting_bytes p @ ?t" and pos: "pos = length pre"
    using Cons(2,3) append_take_drop_id [of pos payload] by (simp_all add: pre_def)
  have iv: "i < 2 ^ 16" "v < 2 ^ 32" using Cons(4) p by auto
  then have "be_nat (be_bytes 2 i) = i" by (simp only: be_nat_be_bytes) simp
  then have "idxs payload [pos, pos + 1] = Ok (be_bytes 2 i)"
    by (simp add: idxs_def pay pos p setting_bytes_def nth_append)
  moreover have "read_u32 payload (pos + 2) = Ok v"
    using read_u32_bytes [OF iv(2), of "pre @ be_bytes 2 i" ?t] by (simp add: pay pos p setting_bytes_def del: be_bytes_numeral)
  moreover have "settings_from emit payload (pos + 6) s' = emit_all emit ps s'" for s'
    using Cons(4) by (intro Cons.IH) (simp_all add: pay pos setting_bytes_len)
  moreover have "pos + 6 \<le> length payload" by (simp add: pay pos setting_bytes_len)
  ultimately show ?case
    using \<open>be_nat (be_bytes 2 i) = i\<close> by (subst settings_from.simps) (simp add: p del: be_bytes_numeral)
qed

lemma decode_settings_bytes:
  assumes "list_all (\<lambda>(i, v). i < 2 ^ 16 \<and> v < 2 ^ 32) ps"
  shows "decode_settings_params emit (concat (map setting_bytes ps)) s = emit_all emit ps s"
proof -
  have "length (concat (map setting_bytes ps)) = 6 * length ps" by (induction ps) (simp_all add: setting_bytes_len)
  then show ?thesis
    using settings_from_bytes [of 0 "concat (map setting_bytes ps)" ps emit s] assms
    by (simp add: decode_settings_params_def)
qed

end
