(* ===== verification/H2_Stream.thy ===== *)
theory H2_Stream
  imports Milli_Prelude
begin

text \<open>
  Flow-control windows and stream states of HTTP/2 (\<^verbatim>\<open>src/h2/flow_control.rs\<close>,
  \<^verbatim>\<open>src/h2/stream.rs\<close>; RFC 9113 sections 5.1 and 5.2). A window is a signed 32-bit integer, kept as
  an \<open>int\<close> with the wrap-around of \<^verbatim>\<open>i32\<close> written out. The interface \<open>credit_window\<close> states what the
  connection relies on: what was taken from a window never exceeds what was put into it.
\<close>

section \<open>Flow-control windows\<close>

definition as_i32 :: "int \<Rightarrow> int" where
  "as_i32 x = (x + 2 ^ 31) mod 2 ^ 32 - 2 ^ 31"

record h2_flow_controller =
  fc_window :: int
  fc_initial :: int

definition DEFAULT_INITIAL_WINDOW_SIZE :: int where
  "DEFAULT_INITIAL_WINDOW_SIZE = 65535"

definition DEFAULT_CONNECTION_WINDOW_SIZE :: int where
  "DEFAULT_CONNECTION_WINDOW_SIZE = 65535"

definition fc_new :: "int \<Rightarrow> h2_flow_controller" where
  "fc_new initial_window = \<lparr>fc_window = initial_window, fc_initial = initial_window\<rparr>"

definition fc_consume :: "nat \<Rightarrow> h2_flow_controller \<Rightarrow> h2_flow_controller \<times> unit res" where
  "fc_consume n fc =
    (if n > 2 ^ 31 - 1 then (fc, Err InvalidState)
     else
       let n_i32 = as_i32 (int n)
       in if fc_window fc < n_i32 then (fc, Err (Http2 h2_error.FlowControlError))
          else (fc\<lparr>fc_window := as_i32 (fc_window fc - n_i32)\<rparr>, Ok ()))"

definition fc_replenish :: "nat \<Rightarrow> h2_flow_controller \<Rightarrow> h2_flow_controller \<times> unit res" where
  "fc_replenish n fc =
    (let new_window = fc_window fc + int n
     in if new_window > 0x7fffffff then (fc, Err InvalidState)
        else (fc\<lparr>fc_window := as_i32 new_window\<rparr>, Ok ()))"

definition fc_update_initial_window :: "int \<Rightarrow> h2_flow_controller \<Rightarrow> h2_flow_controller" where
  "fc_update_initial_window new_initial fc =
    (let delta = as_i32 (new_initial - fc_initial fc)
     in fc\<lparr>fc_window := as_i32 (fc_window fc + delta), fc_initial := new_initial\<rparr>)"

section \<open>Streams\<close>

datatype h2_stream_state = Idle | Open | ReservedLocal | ReservedRemote
  | HalfClosedLocal | HalfClosedRemote | Closed

record h2_stream =
  hs_id :: nat
  hs_state :: h2_stream_state
  hs_send_window :: int
  hs_recv_window :: int
  hs_headers_data :: bytes
  hs_headers_received :: bool
  hs_data_buf :: bytes
  hs_data_available :: bool
  hs_fin_received :: bool
  hs_fin_sent :: bool
  hs_pending_recv_credit :: nat
  hs_pending_rst :: "nat option"

definition h2_stream_new :: "nat \<Rightarrow> int \<Rightarrow> int \<Rightarrow> h2_stream" where
  "h2_stream_new sid initial_send_window initial_recv_window =
    \<lparr>hs_id = sid, hs_state = Idle, hs_send_window = initial_send_window, hs_recv_window = initial_recv_window,
     hs_headers_data = [], hs_headers_received = False, hs_data_buf = [], hs_data_available = False,
     hs_fin_received = False, hs_fin_sent = False, hs_pending_recv_credit = 0, hs_pending_rst = None\<rparr>"

definition hs_open :: "h2_stream \<Rightarrow> h2_stream" where
  "hs_open s = (if hs_state s = Idle then s\<lparr>hs_state := Open\<rparr> else s)"

definition hs_recv_end_stream :: "h2_stream \<Rightarrow> h2_stream" where
  "hs_recv_end_stream s0 =
    (let s = s0\<lparr>hs_fin_received := True\<rparr>
     in case hs_state s of
          Open \<Rightarrow> s\<lparr>hs_state := HalfClosedRemote\<rparr>
        | HalfClosedLocal \<Rightarrow> s\<lparr>hs_state := Closed\<rparr>
        | _ \<Rightarrow> s)"

definition hs_send_end_stream :: "h2_stream \<Rightarrow> h2_stream" where
  "hs_send_end_stream s0 =
    (let s = s0\<lparr>hs_fin_sent := True\<rparr>
     in case hs_state s of
          Open \<Rightarrow> s\<lparr>hs_state := HalfClosedLocal\<rparr>
        | HalfClosedRemote \<Rightarrow> s\<lparr>hs_state := Closed\<rparr>
        | _ \<Rightarrow> s)"

definition hs_can_recv :: "h2_stream \<Rightarrow> bool" where
  "hs_can_recv s \<longleftrightarrow> hs_state s = Open \<or> hs_state s = HalfClosedLocal"

definition hs_can_send :: "h2_stream \<Rightarrow> bool" where
  "hs_can_send s \<longleftrightarrow> hs_state s = Open \<or> hs_state s = HalfClosedRemote"

definition hs_reset :: "h2_stream \<Rightarrow> h2_stream" where
  "hs_reset s = s\<lparr>hs_state := Closed\<rparr>"

section \<open>Windows as credit\<close>

lemma as_i32_exact [simp]: "- (2 ^ 31) \<le> x \<Longrightarrow> x < 2 ^ 31 \<Longrightarrow> as_i32 x = x"
  by (simp add: as_i32_def)

lemma as_i32_range: "- (2 ^ 31) \<le> as_i32 x \<and> as_i32 x < 2 ^ 31"
  using pos_mod_bound [of "2 ^ 32" "x + 2 ^ 31"] pos_mod_sign [of "2 ^ 32" "x + 2 ^ 31"] by (simp add: as_i32_def)

definition fc_inv :: "h2_flow_controller \<Rightarrow> bool" where
  "fc_inv fc \<longleftrightarrow> - (2 ^ 31) \<le> fc_window fc \<and> fc_window fc < 2 ^ 31"

datatype window_op = Take nat | Put nat

text \<open>
  What a user of a window relies on: taking \<open>n\<close> succeeds exactly when the window holds \<open>n\<close> and lowers
  it by \<open>n\<close>; putting \<open>n\<close> raises it by \<open>n\<close> or fails; a failing operation changes nothing.
\<close>

locale credit_window =
  fixes inv :: "'w \<Rightarrow> bool" and level :: "'w \<Rightarrow> int"
    and takes :: "nat \<Rightarrow> 'w \<Rightarrow> 'w \<times> unit res" and puts :: "nat \<Rightarrow> 'w \<Rightarrow> 'w \<times> unit res"
  assumes take_ok: "inv w \<Longrightarrow> n < 2 ^ 31 \<Longrightarrow> int n \<le> level w \<Longrightarrow>
      \<exists>w'. takes n w = (w', Ok ()) \<and> inv w' \<and> level w' = level w - int n"
    and take_refused: "inv w \<Longrightarrow> level w < int n \<Longrightarrow> \<exists>e. takes n w = (w, Err e)"
    and put_ok: "inv w \<Longrightarrow> level w + int n < 2 ^ 31 \<Longrightarrow>
      \<exists>w'. puts n w = (w', Ok ()) \<and> inv w' \<and> level w' = level w + int n"
    and put_refused: "inv w \<Longrightarrow> 2 ^ 31 \<le> level w + int n \<Longrightarrow> \<exists>e. puts n w = (w, Err e)"
    and level_bound: "inv w \<Longrightarrow> level w < 2 ^ 31"
begin

lemma take_cases:
  assumes "inv w"
  obtains (ok) w' where "takes n w = (w', Ok ())" "inv w'" "level w' = level w - int n" "int n \<le> level w"
    | (refused) e where "takes n w = (w, Err e)" "level w < int n"
  using take_ok [OF assms, of n] take_refused [OF assms, of n] level_bound [OF assms]
  by (cases "int n \<le> level w") force+

lemma put_cases:
  assumes "inv w"
  obtains (ok) w' where "puts n w = (w', Ok ())" "inv w'" "level w' = level w + int n"
    | (refused) e where "puts n w = (w, Err e)" "2 ^ 31 \<le> level w + int n"
  using put_ok [OF assms, of n] put_refused [OF assms, of n] by (cases "level w + int n < 2 ^ 31") force+

text \<open>One operation with the amounts that were taken and put so far.\<close>

definition ledger_step :: "window_op \<Rightarrow> 'w \<times> nat \<times> nat \<Rightarrow> 'w \<times> nat \<times> nat" where
  "ledger_step p l =
    (case (p, l) of
       (Take n, (w, taken, given)) \<Rightarrow>
         (case takes n w of (w', Ok _) \<Rightarrow> (w', taken + n, given) | (w', _) \<Rightarrow> (w', taken, given))
     | (Put n, (w, taken, given)) \<Rightarrow>
         (case puts n w of (w', Ok _) \<Rightarrow> (w', taken, given + n) | (w', _) \<Rightarrow> (w', taken, given)))"

lemma ledger_step_inv:
  assumes "inv w" and "level w = c + int given - int taken" and "ledger_step p (w, taken, given) = (w', taken', given')"
  shows "inv w' \<and> level w' = c + int given' - int taken'"
proof (cases p)
  case (Take n)
  from assms(1) show ?thesis by (cases rule: take_cases [where n = n]) (use assms Take in \<open>auto simp: ledger_step_def\<close>)
next
  case (Put n)
  from assms(1) show ?thesis by (cases rule: put_cases [where n = n]) (use assms Put in \<open>auto simp: ledger_step_def\<close>)
qed

text \<open>The ledger of any sequence of operations balances.\<close>

lemma ledger_balances:
  assumes "inv w" and "fold ledger_step ps (w, taken, given) = (w', taken', given')"
    and "level w = c + int given - int taken"
  shows "inv w' \<and> level w' = c + int given' - int taken'"
  using assms
proof (induction ps arbitrary: w taken given)
  case (Cons p ps)
  obtain w1 t1 g1 where s: "ledger_step p (w, taken, given) = (w1, t1, g1)" by (metis prod_cases3)
  show ?case using Cons.IH [of w1 t1 g1] ledger_step_inv [OF Cons.prems(1,3) s] Cons.prems(2) s by simp
qed simp

end

interpretation h2_window: credit_window fc_inv fc_window fc_consume fc_replenish
  by unfold_locales (auto simp: fc_inv_def fc_consume_def fc_replenish_def Let_def)

section \<open>Stream states\<close>

text \<open>The life cycle of a stream as RFC 9113 section 5.1 draws it, without the reserved states.\<close>

inductive stream_step :: "h2_stream_state \<Rightarrow> h2_stream_state \<Rightarrow> bool" where
  opened: "stream_step Idle Open"
| peer_ended: "stream_step Open HalfClosedRemote"
| we_ended: "stream_step Open HalfClosedLocal"
| peer_ended_last: "stream_step HalfClosedLocal Closed"
| we_ended_last: "stream_step HalfClosedRemote Closed"
| was_reset: "stream_step st Closed"

inductive_simps stream_step_from: "stream_step st st'"

text \<open>The flags record which ends were closed, as long as the stream was not reset.\<close>

fun ends_ok :: "h2_stream \<Rightarrow> bool" where
  "ends_ok s \<longleftrightarrow>
    (case hs_state s of
       Open \<Rightarrow> \<not> hs_fin_received s \<and> \<not> hs_fin_sent s
     | HalfClosedRemote \<Rightarrow> hs_fin_received s \<and> \<not> hs_fin_sent s
     | HalfClosedLocal \<Rightarrow> \<not> hs_fin_received s \<and> hs_fin_sent s
     | Idle \<Rightarrow> \<not> hs_fin_received s \<and> \<not> hs_fin_sent s
     | _ \<Rightarrow> True)"

end
