(* ===== verification/Http_Common.thy ===== *)
theory Http_Common
  imports Milli_Prelude
begin

text \<open>
  What the HTTP versions share (\<^verbatim>\<open>src/http/\<close>): methods, status codes, the timeout configuration and the
  frames of server-sent events. The frames are checked against a reader that follows the event stream
  format of the HTML standard.
\<close>

section \<open>Methods and status codes\<close>

datatype http_method = GET | POST | PUT | DELETE | HEAD | OPTIONS | CONNECT | PATCH | TRACE

definition method_from_bytes :: "bytes \<Rightarrow> http_method option" where
  "method_from_bytes b =
    (if b = ascii ''GET'' then Some GET
     else if b = ascii ''POST'' then Some POST
     else if b = ascii ''PUT'' then Some PUT
     else if b = ascii ''DELETE'' then Some DELETE
     else if b = ascii ''HEAD'' then Some HEAD
     else if b = ascii ''OPTIONS'' then Some OPTIONS
     else if b = ascii ''CONNECT'' then Some CONNECT
     else if b = ascii ''PATCH'' then Some PATCH
     else if b = ascii ''TRACE'' then Some TRACE
     else None)"

fun method_as_bytes :: "http_method \<Rightarrow> bytes" where
  "method_as_bytes GET = ascii ''GET''"
| "method_as_bytes POST = ascii ''POST''"
| "method_as_bytes PUT = ascii ''PUT''"
| "method_as_bytes DELETE = ascii ''DELETE''"
| "method_as_bytes HEAD = ascii ''HEAD''"
| "method_as_bytes OPTIONS = ascii ''OPTIONS''"
| "method_as_bytes CONNECT = ascii ''CONNECT''"
| "method_as_bytes PATCH = ascii ''PATCH''"
| "method_as_bytes TRACE = ascii ''TRACE''"

text \<open>A status code is its \<^verbatim>\<open>u16\<close>.\<close>

definition is_informational :: "nat \<Rightarrow> bool" where "is_informational c \<longleftrightarrow> 100 \<le> c \<and> c < 200"
definition is_success :: "nat \<Rightarrow> bool" where "is_success c \<longleftrightarrow> 200 \<le> c \<and> c < 300"
definition is_redirection :: "nat \<Rightarrow> bool" where "is_redirection c \<longleftrightarrow> 300 \<le> c \<and> c < 400"
definition is_client_error :: "nat \<Rightarrow> bool" where "is_client_error c \<longleftrightarrow> 400 \<le> c \<and> c < 500"
definition is_server_error :: "nat \<Rightarrow> bool" where "is_server_error c \<longleftrightarrow> 500 \<le> c \<and> c < 600"

definition status_to_bytes :: "nat \<Rightarrow> bytes" where
  "status_to_bytes c =
    [0x30 + word_of_nat (c div 100), 0x30 + word_of_nat ((c div 10) mod 10), 0x30 + word_of_nat (c mod 10)]"

definition status_from_bytes :: "bytes \<Rightarrow> nat option" where
  "status_from_bytes b =
    (if length b \<noteq> 3 then None
     else
       let d0 = b ! 0 - 0x30; d1 = b ! 1 - 0x30; d2 = b ! 2 - 0x30
       in if d0 > 9 \<or> d1 > 9 \<or> d2 > 9 then None
          else
            let code = unat d0 * 100 + unat d1 * 10 + unat d2
            in if code < 100 then None else Some code)"

record timeout_config =
  idle_timeout_us :: "nat option"
  header_timeout_us :: "nat option"

definition timeout_config_default :: timeout_config where
  "timeout_config_default = \<lparr>idle_timeout_us = None, header_timeout_us = None\<rparr>"

text \<open>\<^verbatim>\<open>saturating_add\<close>, and the earlier of two deadlines, the first of which may be absent.\<close>

definition u64_saturating_add :: "nat \<Rightarrow> nat \<Rightarrow> nat" where
  "u64_saturating_add a b = min (a + b) u64_MAX"

definition earlier :: "nat option \<Rightarrow> nat \<Rightarrow> nat option" where
  "earlier earliest deadline = Some (case earliest of None \<Rightarrow> deadline | Some e \<Rightarrow> min e deadline)"

section \<open>Server-sent events\<close>

definition sse_put :: "bytes \<Rightarrow> bytes \<times> nat \<Rightarrow> (bytes \<times> nat) res" where
  "sse_put bs p =
    (case p of (out, off) \<Rightarrow>
       let end_pos = off + length bs
       in if end_pos > length out then Err (BufferTooSmall end_pos)
          else res_bind (copy_at out off bs) (\<lambda>out. Ok (out, end_pos)))"

text \<open>\<^verbatim>\<open>str::split('\n')\<close>.\<close>

fun split_lines :: "bytes \<Rightarrow> bytes list" where
  "split_lines [] = [[]]"
| "split_lines (b # bs) =
    (if b = 10 then [] # split_lines bs
     else case split_lines bs of l # ls \<Rightarrow> (b # l) # ls | [] \<Rightarrow> [[b]])"

fun put_lines :: "bytes list \<Rightarrow> bytes \<times> nat \<Rightarrow> (bytes \<times> nat) res" where
  "put_lines [] p = Ok p"
| "put_lines (l # ls) p =
    res_bind (sse_put (ascii ''data: '') p) (\<lambda>p.
    res_bind (sse_put l p) (\<lambda>p.
    res_bind (sse_put [10] p) (\<lambda>p. put_lines ls p)))"

definition format_event :: "bytes option \<Rightarrow> bytes \<Rightarrow> bytes \<Rightarrow> (bytes \<times> nat) res" where
  "format_event event data out =
    res_bind (case event of
        Some name \<Rightarrow>
          res_bind (sse_put (ascii ''event: '') (out, 0)) (\<lambda>p.
          res_bind (sse_put name p) (\<lambda>p. sse_put [10] p))
      | None \<Rightarrow> Ok (out, 0)) (\<lambda>p.
    res_bind (put_lines (split_lines data) p) (\<lambda>p. sse_put [10] p))"

definition format_comment :: "bytes \<Rightarrow> bytes \<Rightarrow> (bytes \<times> nat) res" where
  "format_comment txt out =
    res_bind (sse_put (ascii '': '') (out, 0)) (\<lambda>p.
    res_bind (sse_put txt p) (\<lambda>p. sse_put [10, 10] p))"

text \<open>The digits of a number, last one first into the array, as the loop of \<^verbatim>\<open>format_retry\<close> writes them.\<close>

function put_digits :: "nat \<Rightarrow> nat \<Rightarrow> bytes \<Rightarrow> (bytes \<times> nat) res" where
  "put_digits n pos digits =
    (if pos = 0 then Panic
     else if pos - 1 \<ge> length digits then Panic
     else
       let digits = digits[pos - 1 := 0x30 + word_of_nat (n mod 10)]
       in if n div 10 = 0 then Ok (digits, pos - 1) else put_digits (n div 10) (pos - 1) digits)"
  by pat_completeness auto
termination
  by (relation "measure (\<lambda>(n, pos, digits). pos)") auto

declare put_digits.simps [simp del]

definition format_retry :: "nat \<Rightarrow> bytes \<Rightarrow> (bytes \<times> nat) res" where
  "format_retry retry_ms out =
    res_bind (sse_put (ascii ''retry: '') (out, 0)) (\<lambda>p.
    res_bind (put_digits retry_ms 10 (replicate 10 0)) (\<lambda>(digits, pos).
    res_bind (slice_from digits pos) (\<lambda>d.
    res_bind (sse_put d p) (\<lambda>p. sse_put [10, 10] p))))"

section \<open>The numbers\<close>

lemma method_roundtrip: "method_from_bytes (method_as_bytes m) = Some m"
  by (cases m) (simp_all add: method_from_bytes_def ascii_def)

lemma digit_word: "d < 10 \<Longrightarrow> (0x30 + word_of_nat d :: byte) - 0x30 = word_of_nat d \<and> unat (word_of_nat d :: byte) = d"
  by (simp add: unat_of_nat)

lemma status_roundtrip:
  assumes "100 \<le> c" and "c < 1000"
  shows "status_from_bytes (status_to_bytes c) = Some c"
proof -
  have d: "c div 100 < 10" "c div 10 mod 10 < 10" "c mod 10 < 10" using assms by auto
  have "c div 10 = c div 100 * 10 + c div 10 mod 10" by (simp add: div_mult2_eq [of c 10 10, simplified])
  then have "c = c div 100 * 100 + c div 10 mod 10 * 10 + c mod 10" using div_mult_mod_eq [of c 10] by linarith
  then show ?thesis
    unfolding status_from_bytes_def status_to_bytes_def Let_def
    using assms d digit_word [OF d(1)] digit_word [OF d(2)] digit_word [OF d(3)]
    by (simp only: word_less_nat_alt list.size nth_Cons_0 nth_Cons_numeral) (simp add: not_less less_Suc_eq_le [symmetric])
qed

section \<open>Event streams as a client reads them\<close>

text \<open>
  The format of the HTML standard: lines end with LF, CR or CRLF; a field is a name, a colon and a value
  with at most one leading space removed; an empty line dispatches the collected data without its last LF.
\<close>

fun stream_lines :: "bytes \<Rightarrow> bytes \<Rightarrow> bytes list" where
  "stream_lines acc [] = []"
| "stream_lines acc (b # bs) =
    (if b = 10 then acc # stream_lines [] bs
     else if b = 13 then acc # stream_lines [] (if take 1 bs = [10] then drop 1 bs else bs)
     else stream_lines (acc @ [b]) bs)"

type_synonym sse_state = "bytes \<times> bytes \<times> (bytes \<times> bytes) list"

definition stream_field :: "bytes \<Rightarrow> bytes \<Rightarrow> sse_state \<Rightarrow> sse_state" where
  "stream_field name val st =
    (case st of (event, data, out) \<Rightarrow>
       if name = ascii ''event'' then (val, data, out)
       else if name = ascii ''data'' then (event, data @ val @ [10], out)
       else st)"

definition stream_line :: "bytes \<Rightarrow> sse_state \<Rightarrow> sse_state" where
  "stream_line l st =
    (case st of (event, data, out) \<Rightarrow>
       if l = [] then ([], [], if data = [] then out else out @ [(if event = [] then ascii ''message'' else event, butlast data)])
       else if take 1 l = [58] then st
       else
         let name = takeWhile (\<lambda>b. b \<noteq> 58) l; rest = drop (length name + 1) l
         in stream_field name (if take 1 rest = [32] then drop 1 rest else rest) st)"

definition read_stream :: "bytes \<Rightarrow> (bytes \<times> bytes) list" where
  "read_stream bs = snd (snd (fold stream_line (stream_lines [] bs) ([], [], [])))"

text \<open>What \<^verbatim>\<open>format_event\<close> writes.\<close>

definition sse_frame :: "bytes option \<times> bytes \<Rightarrow> bytes" where
  "sse_frame p =
    (case fst p of Some name \<Rightarrow> ascii ''event: '' @ name @ [10] | None \<Rightarrow> []) @
    concat (map (\<lambda>l. ascii ''data: '' @ l @ [10]) (split_lines (snd p))) @ [10]"

definition sse_wf :: "bytes option \<times> bytes \<Rightarrow> bool" where
  "sse_wf p \<longleftrightarrow> 13 \<notin> set (snd p) \<and> (\<forall>name. fst p = Some name \<longrightarrow> 10 \<notin> set name \<and> 13 \<notin> set name \<and> name \<noteq> [])"

definition as_read :: "bytes option \<times> bytes \<Rightarrow> bytes \<times> bytes" where
  "as_read p = (case fst p of Some name \<Rightarrow> name | None \<Rightarrow> ascii ''message'', snd p)"

lemma stream_lines_line:
  "10 \<notin> set l \<Longrightarrow> 13 \<notin> set l \<Longrightarrow> stream_lines acc (l @ 10 # rest) = (acc @ l) # stream_lines [] rest"
  by (induction l arbitrary: acc) auto

lemma split_lines_free:
  "l \<in> set (split_lines d) \<Longrightarrow> 10 \<notin> set l \<and> set l \<subseteq> set d"
  by (induction d arbitrary: l) (force split: if_splits list.splits)+

lemma split_lines_join: "concat (map (\<lambda>l. l @ [10]) (split_lines d)) = d @ [10]"
  by (induction d) (auto split: list.splits)

lemma stream_lines_data:
  assumes "\<forall>l \<in> set ls. 10 \<notin> set l \<and> 13 \<notin> set l"
  shows "stream_lines [] (concat (map (\<lambda>l. ascii ''data: '' @ l @ [10]) ls) @ rest) =
    map (\<lambda>l. ascii ''data: '' @ l) ls @ stream_lines [] rest"
  using assms
proof (induction ls)
  case (Cons l ls)
  have "10 \<notin> set (ascii ''data: '' @ l)" "13 \<notin> set (ascii ''data: '' @ l)" using Cons(2) by (auto simp: ascii_def)
  from stream_lines_line [OF this] show ?case using Cons by simp
qed simp

lemma stream_line_data: "stream_line (ascii ''data: '' @ l) (event, data, out) = (event, data @ l @ [10], out)"
  by (simp add: stream_line_def stream_field_def ascii_def)

lemma stream_line_event: "stream_line (ascii ''event: '' @ name) (event, data, out) = (name, data, out)"
  by (simp add: stream_line_def stream_field_def ascii_def)

lemma fold_data_lines:
  "fold stream_line (map (\<lambda>l. ascii ''data: '' @ l) ls) (event, data, out) =
    (event, data @ concat (map (\<lambda>l. l @ [10]) ls), out)"
  by (induction ls arbitrary: data) (simp_all add: stream_line_data)

lemma read_frame:
  assumes "sse_wf p"
  shows "fold stream_line (stream_lines [] (sse_frame p @ rest)) ([], [], out) =
    fold stream_line (stream_lines [] rest) ([], [], out @ [as_read p])"
proof -
  obtain ev d where p: "p = (ev, d)" by fastforce
  have free: "\<forall>l \<in> set (split_lines d). 10 \<notin> set l \<and> 13 \<notin> set l"
    using assms split_lines_free [of _ d] by (auto simp: sse_wf_def p)
  note data = stream_lines_data [OF free, of "10 # rest"]
  have finish: "fold stream_line (stream_lines [] (concat (map (\<lambda>l. ascii ''data: '' @ l @ [10]) (split_lines d)) @ 10 # rest)) (e, [], out)
    = fold stream_line (stream_lines [] rest) ([], [], out @ [(if e = [] then ascii ''message'' else e, d)])" for e
    unfolding data by (simp add: fold_data_lines split_lines_join) (simp add: stream_line_def butlast_append)
  show ?thesis
  proof (cases ev)
    case None
    then show ?thesis using finish [of "[]"] by (simp add: sse_frame_def as_read_def p)
  next
    case (Some name)
    then have "10 \<notin> set (ascii ''event: '' @ name)" "13 \<notin> set (ascii ''event: '' @ name)" "name \<noteq> []"
      using assms by (auto simp: sse_wf_def p ascii_def)
    from stream_lines_line [OF this(1,2)] this(3) show ?thesis
      using finish [of name] Some by (simp add: sse_frame_def as_read_def p stream_line_event)
  qed
qed

lemma read_frames:
  assumes "list_all sse_wf ps"
  shows "read_stream (concat (map sse_frame ps)) = map as_read ps"
proof -
  have "fold stream_line (stream_lines [] (concat (map sse_frame ps))) ([], [], out) = ([], [], out @ map as_read ps)" for out
    using assms by (induction ps arbitrary: out) (simp_all add: read_frame)
  then show ?thesis by (simp add: read_stream_def)
qed

subsection \<open>The formatter writes such frames\<close>

lemma sse_put_spec:
  "length w + length bs \<le> length out \<Longrightarrow>
   sse_put bs (w @ drop (length w) out, length w) = Ok ((w @ bs) @ drop (length (w @ bs)) out, length (w @ bs))"
  by (simp add: sse_put_def Let_def add.commute)

lemma put_lines_spec:
  assumes "length w + length (concat (map (\<lambda>l. ascii ''data: '' @ l @ [10]) ls)) \<le> length out"
  shows "put_lines ls (w @ drop (length w) out, length w) =
    (let r = w @ concat (map (\<lambda>l. ascii ''data: '' @ l @ [10]) ls) in Ok (r @ drop (length r) out, length r))"
  using assms
proof (induction ls arbitrary: w)
  case (Cons l ls)
  define D where "D = ascii ''data: ''"
  have len: "length w + length D + length l + 1 + length (concat (map (\<lambda>l. D @ l @ [10]) ls)) \<le> length out"
    using Cons(2) by (simp add: D_def)
  have "sse_put D (w @ drop (length w) out, length w) = Ok ((w @ D) @ drop (length (w @ D)) out, length (w @ D))"
    using len by (intro sse_put_spec) simp
  moreover have "sse_put l ((w @ D) @ drop (length (w @ D)) out, length (w @ D)) =
    Ok ((w @ D @ l) @ drop (length (w @ D @ l)) out, length (w @ D @ l))"
    using sse_put_spec [of "w @ D" l out] len by simp
  moreover have "sse_put [10] ((w @ D @ l) @ drop (length (w @ D @ l)) out, length (w @ D @ l)) =
    Ok ((w @ D @ l @ [10]) @ drop (length (w @ D @ l @ [10])) out, length (w @ D @ l @ [10]))"
    using sse_put_spec [of "w @ D @ l" "[10]" out] len by simp
  ultimately show ?case
    using Cons.IH [of "w @ D @ l @ [10]"] len unfolding put_lines.simps D_def [symmetric] by (simp add: Let_def)
qed (simp add: Let_def)

lemma format_event_spec:
  assumes "length (sse_frame (ev, d)) \<le> length out"
  shows "format_event ev d out = Ok (sse_frame (ev, d) @ drop (length (sse_frame (ev, d))) out, length (sse_frame (ev, d)))"
proof -
  define E where "E = (case ev of Some name \<Rightarrow> ascii ''event: '' @ name @ [10] | None \<Rightarrow> [])"
  define L where "L = concat (map (\<lambda>l. ascii ''data: '' @ l @ [10]) (split_lines d))"
  have f: "sse_frame (ev, d) = E @ L @ [10]" by (simp add: sse_frame_def E_def L_def)
  have len: "length E + length L + 1 \<le> length out" using assms by (simp add: f)
  have "(case ev of
        Some name \<Rightarrow>
          res_bind (sse_put (ascii ''event: '') (out, 0)) (\<lambda>p.
          res_bind (sse_put name p) (\<lambda>p. sse_put [10] p))
      | None \<Rightarrow> Ok (out, 0)) = Ok (E @ drop (length E) out, length E)"
  proof (cases ev)
    case (Some name)
    define N where "N = ascii ''event: ''"
    have "length N + length name + 1 \<le> length out" using len Some by (simp add: E_def N_def)
    then show ?thesis
      using sse_put_spec [of "[]" N out] sse_put_spec [of N name out] sse_put_spec [of "N @ name" "[10]" out]
      unfolding E_def Some option.case N_def [symmetric] by simp
  qed (simp add: E_def)
  moreover have "put_lines (split_lines d) (E @ drop (length E) out, length E) =
    Ok ((E @ L) @ drop (length (E @ L)) out, length (E @ L))"
    using put_lines_spec [of E "split_lines d" out] len by (simp add: L_def Let_def)
  moreover have "sse_put [10] ((E @ L) @ drop (length (E @ L)) out, length (E @ L)) =
    Ok ((E @ L @ [10]) @ drop (length (E @ L @ [10])) out, length (E @ L @ [10]))"
    using sse_put_spec [of "E @ L" "[10]" out] len by simp
  ultimately show ?thesis by (simp add: format_event_def f)
qed

text \<open>
  C35: Server-sent events reach the client as they were sent: for events whose data has no carriage
  return and whose name has no line break, each frame is written whenever its buffer has the room, and a
  client that follows the event stream format reads the concatenated frames back as
  the same names and data, line breaks in the data included.
\<close>

theorem sse_events_roundtrip:
  assumes "list_all sse_wf ps"
  shows "list_all (\<lambda>(ev, d). \<forall>out. length (sse_frame (ev, d)) \<le> length out \<longrightarrow>
      format_event ev d out = Ok (sse_frame (ev, d) @ drop (length (sse_frame (ev, d))) out, length (sse_frame (ev, d)))) ps \<and>
    read_stream (concat (map sse_frame ps)) = map as_read ps"
  using read_frames [OF assms] format_event_spec by (auto simp: list_all_iff)

theorem sse_events_roundtrip_witness:
  "read_stream (concat (map sse_frame [(Some [118], [97, 10, 98]), (None, [])])) =
    [([118], [97, 10, 98]), (ascii ''message'', [])]"
  using sse_events_roundtrip [of "[(Some [118], [97, 10, 98]), (None, [])]"]
  by (simp add: sse_wf_def as_read_def)

text \<open>
  The comment on \<^verbatim>\<open>format_event\<close> promises that arbitrary text survives; a carriage return does not: it
  ends the line for the client, and what follows it is read as another field.
\<close>

lemma sse_carriage_return_lost:
  "format_event None [97, 13, 98] (replicate 16 0) = Ok (sse_frame (None, [97, 13, 98]) @ replicate 5 0, 11) \<and>
   read_stream (sse_frame (None, [97, 13, 98])) = [(ascii ''message'', [97])]"
  by code_simp

end
