(* ===== verification/H2_Connection.thy ===== *)
theory H2_Connection
  imports Hpack H2_Frame H2_Stream Http_Common
begin

unbundle bit_operations_syntax

text \<open>
  The HTTP/2 connection (\<^verbatim>\<open>src/h2/connection.rs\<close>, \<^verbatim>\<open>src/h2/io.rs\<close>): the preface and SETTINGS exchange, the stream
  table, the receive loop over frames with DATA payloads pumped in pieces, receive-window credit that
  waits for room in the send buffer, and the application's calls. The buffers are byte lists bounded by
  their const generics (\<open>Byte_Buf\<close> proves that both storages behave so); the answers of the allocator to
  the coming requests are part of the state, so that every statement holds whatever they are.
\<close>

section \<open>Data\<close>

text \<open>The const generics, the event queue's capacity (64 with alloc, 32 without) and the width of \<^verbatim>\<open>usize\<close>.\<close>

record h2_cfg =
  MAX_STREAMS :: nat
  HDRBUF :: nat
  DATABUF :: nat
  BUF :: nat
  EVENTS :: nat
  USIZE :: nat

text \<open>\<open>heap\<close> holds the answers to the coming reservations; when it is empty they succeed.\<close>

record h2_io =
  recv_buf :: bytes
  send_buf :: bytes
  heap :: "bool list"

definition CONNECTION_PREFACE :: bytes where
  "CONNECTION_PREFACE = ascii ''PRI * HTTP/2.0'' @ [13, 10, 13, 10] @ ascii ''SM'' @ [13, 10, 13, 10]"

datatype h2_event = Connected | Headers nat | Data nat | StreamReset nat nat | GoAway nat nat | Finished nat | Timeout

datatype h2_role = Client | Server

record h2_settings =
  header_table_size :: nat
  enable_push :: bool
  max_concurrent_streams :: nat
  initial_window_size :: nat
  max_frame_size :: nat
  max_header_list_size :: nat

definition h2_settings_default :: h2_settings where
  "h2_settings_default =
    \<lparr>header_table_size = 0, enable_push = False, max_concurrent_streams = 128,
     initial_window_size = nat DEFAULT_INITIAL_WINDOW_SIZE, max_frame_size = 16384, max_header_list_size = 8192\<rparr>"

definition SETTINGS_HEADER_TABLE_SIZE :: nat where "SETTINGS_HEADER_TABLE_SIZE = 0x1"
definition SETTINGS_ENABLE_PUSH :: nat where "SETTINGS_ENABLE_PUSH = 0x2"
definition SETTINGS_MAX_CONCURRENT_STREAMS :: nat where "SETTINGS_MAX_CONCURRENT_STREAMS = 0x3"
definition SETTINGS_INITIAL_WINDOW_SIZE :: nat where "SETTINGS_INITIAL_WINDOW_SIZE = 0x4"
definition SETTINGS_MAX_FRAME_SIZE :: nat where "SETTINGS_MAX_FRAME_SIZE = 0x5"
definition SETTINGS_MAX_HEADER_LIST_SIZE :: nat where "SETTINGS_MAX_HEADER_LIST_SIZE = 0x6"

definition encode_params :: "h2_settings \<Rightarrow> bytes \<Rightarrow> (bytes \<times> nat) res" where
  "encode_params s buf =
    res_bind (write_from 0 buf (encode_setting SETTINGS_HEADER_TABLE_SIZE (header_table_size s))) (\<lambda>(buf, off).
    res_bind (if \<not> enable_push s then write_from off buf (encode_setting SETTINGS_ENABLE_PUSH 0) else Ok (buf, off)) (\<lambda>(buf, off).
    res_bind (write_from off buf (encode_setting SETTINGS_MAX_CONCURRENT_STREAMS (max_concurrent_streams s))) (\<lambda>(buf, off).
    res_bind (write_from off buf (encode_setting SETTINGS_INITIAL_WINDOW_SIZE (initial_window_size s))) (\<lambda>(buf, off).
    res_bind (write_from off buf (encode_setting SETTINGS_MAX_FRAME_SIZE (max_frame_size s))) (\<lambda>(buf, off).
    write_from off buf (encode_setting SETTINGS_MAX_HEADER_LIST_SIZE (max_header_list_size s)))))))"

definition settings_apply :: "nat \<Rightarrow> nat \<Rightarrow> h2_settings \<Rightarrow> h2_settings \<times> unit res" where
  "settings_apply ident val s =
    (if ident = SETTINGS_HEADER_TABLE_SIZE then (s\<lparr>header_table_size := val\<rparr>, Ok ())
     else if ident = SETTINGS_ENABLE_PUSH then
       if val > 1 then (s, Err (Http2 ProtocolError)) else (s\<lparr>enable_push := (val \<noteq> 0)\<rparr>, Ok ())
     else if ident = SETTINGS_MAX_CONCURRENT_STREAMS then (s\<lparr>max_concurrent_streams := val\<rparr>, Ok ())
     else if ident = SETTINGS_INITIAL_WINDOW_SIZE then
       if val > 0x7fffffff then (s, Err (Http2 h2_error.FlowControlError)) else (s\<lparr>initial_window_size := val\<rparr>, Ok ())
     else if ident = SETTINGS_MAX_FRAME_SIZE then
       if \<not> (16384 \<le> val \<and> val \<le> 16777215) then (s, Err (Http2 ProtocolError)) else (s\<lparr>max_frame_size := val\<rparr>, Ok ())
     else if ident = SETTINGS_MAX_HEADER_LIST_SIZE then (s\<lparr>max_header_list_size := val\<rparr>, Ok ())
     else (s, Ok ()))"

datatype h2_conn_state = WaitingPreface | WaitingSettings | Active | Closing | Closed

definition HEADERS_SCRATCH :: nat where "HEADERS_SCRATCH = 1024"

record partial_data =
  pd_stream_id :: nat
  pd_end_stream :: bool
  pd_data_remaining :: nat
  pd_pad_remaining :: nat
  pd_deliver :: bool

record h2_conn =
  role :: h2_role
  h2_state :: h2_conn_state
  local_settings :: h2_settings
  peer_settings :: h2_settings
  streams :: "h2_stream list"
  decoder :: hpack_decoder
  send_offset :: nat
  conn_send_fc :: h2_flow_controller
  conn_recv_fc :: h2_flow_controller
  pending_conn_credit :: nat
  events :: "h2_event list"
  next_stream_id :: nat
  last_peer_stream_id :: nat
  continuation_stream_id :: "nat option"
  settings_sent :: bool
  settings_ack_received :: bool
  peer_settings_received :: bool
  preface_sent :: bool
  preface_validated :: bool
  preface_bytes_seen :: nat
  goaway_sent :: bool
  timeouts :: timeout_config
  last_activity :: nat
  sent_since_tick :: bool
  connection_start :: nat
  headers_phase_complete :: bool
  partial :: "partial_data option"

text \<open>A connection together with the buffers its caller lends it.\<close>

record h2_sys = h2_conn + h2io :: h2_io

definition h2_new :: "h2_cfg \<Rightarrow> h2_role \<Rightarrow> h2_io \<Rightarrow> h2_sys" where
  "h2_new K r i =
    \<lparr>role = r, h2_state = WaitingPreface,
     local_settings = h2_settings_default\<lparr>initial_window_size := DATABUF K mod 2 ^ 32, max_concurrent_streams := MAX_STREAMS K mod 2 ^ 32\<rparr>,
     peer_settings = h2_settings_default, streams = [], decoder = hpack_decoder_new, send_offset = 0,
     conn_send_fc = fc_new DEFAULT_CONNECTION_WINDOW_SIZE, conn_recv_fc = fc_new DEFAULT_CONNECTION_WINDOW_SIZE,
     pending_conn_credit = 0, events = [], next_stream_id = (case r of Client \<Rightarrow> 1 | Server \<Rightarrow> 2),
     last_peer_stream_id = 0, continuation_stream_id = None, settings_sent = False, settings_ack_received = False,
     peer_settings_received = False, preface_sent = False, preface_validated = False, preface_bytes_seen = 0,
     goaway_sent = False, timeouts = timeout_config_default, last_activity = 0,
     sent_since_tick = False, connection_start = 0, headers_phase_complete = False, partial = None, h2io = i\<rparr>"

section \<open>Buffers and events\<close>

text \<open>\<^verbatim>\<open>buf_try_reserve\<close>: a request for more bytes asks the allocator.\<close>

definition buf_try_reserve :: "nat \<Rightarrow> h2_io \<Rightarrow> h2_io \<times> unit res" where
  "buf_try_reserve n i =
    (if n = 0 then (i, Ok ())
     else case heap i of
       [] \<Rightarrow> (i, Ok ())
     | b # bs \<Rightarrow> (i\<lparr>heap := bs\<rparr>, if b then Ok () else Err OutOfMemory))"

definition io_drain_recv :: "nat \<Rightarrow> h2_io \<Rightarrow> h2_io \<times> unit res" where
  "io_drain_recv n i =
    (if n \<le> length (recv_buf i) then (i\<lparr>recv_buf := drop n (recv_buf i)\<rparr>, Ok ()) else (i, Panic))"

definition io_queue_send :: "h2_cfg \<Rightarrow> bytes \<Rightarrow> h2_io \<Rightarrow> h2_io \<times> unit res" where
  "io_queue_send K data i =
    (if length (send_buf i) + length data > BUF K then (i, Err (BufferTooSmall (length (send_buf i) + length data)))
     else sbind (buf_try_reserve (length data) i) (\<lambda>i _. (i\<lparr>send_buf := send_buf i @ data\<rparr>, Ok ())))"

text \<open>An operation on the lent buffers, as a step of the connection.\<close>

definition on_io :: "(h2_io \<Rightarrow> h2_io \<times> 'a res) \<Rightarrow> h2_sys \<Rightarrow> h2_sys \<times> 'a res" where
  "on_io f c = (case f (h2io c) of (i, r) \<Rightarrow> (c\<lparr>h2io := i\<rparr>, r))"

abbreviation drain_recv :: "nat \<Rightarrow> h2_sys \<Rightarrow> h2_sys \<times> unit res" where
  "drain_recv n \<equiv> on_io (io_drain_recv n)"

abbreviation queue_send :: "h2_cfg \<Rightarrow> bytes \<Rightarrow> h2_sys \<Rightarrow> h2_sys \<times> unit res" where
  "queue_send K data \<equiv> on_io (io_queue_send K data)"

text \<open>A frame encoded on the stack into an array of \<open>k\<close> bytes, and queued.\<close>

definition frame_to_send :: "nat \<Rightarrow> h2_frame \<Rightarrow> bytes res" where
  "frame_to_send k f = res_bind (encode_h2_frame f (replicate k 0)) (\<lambda>(buf, n). slice buf 0 n)"

definition io_queue_frame :: "h2_cfg \<Rightarrow> nat \<Rightarrow> h2_frame \<Rightarrow> h2_io \<Rightarrow> h2_io \<times> unit res" where
  "io_queue_frame K k f i = sbind (i, frame_to_send k f) (\<lambda>i data. io_queue_send K data i)"

definition h2_push_event :: "h2_cfg \<Rightarrow> h2_event \<Rightarrow> h2_sys \<Rightarrow> h2_sys" where
  "h2_push_event K e c = c\<lparr>events := (if EVENTS K \<le> length (events c) then tl (events c) else events c) @ [e]\<rparr>"

definition h2_poll_event :: "h2_sys \<Rightarrow> h2_sys \<times> h2_event option" where
  "h2_poll_event c = (case events c of [] \<Rightarrow> (c, None) | e # es \<Rightarrow> (c\<lparr>events := es\<rparr>, Some e))"

section \<open>Stream table\<close>

definition h2_find_stream :: "nat \<Rightarrow> h2_stream list \<Rightarrow> h2_stream option" where
  "h2_find_stream sid ss = find (\<lambda>s. hs_id s = sid) ss"

abbreviation get_stream :: "nat \<Rightarrow> h2_sys \<Rightarrow> h2_stream option" where
  "get_stream sid c \<equiv> h2_find_stream sid (streams c)"

text \<open>\<^verbatim>\<open>if let Some(stream) = self.get_stream_mut(id)\<close>: the first stream with that id is changed.\<close>

fun modify_stream :: "nat \<Rightarrow> (h2_stream \<Rightarrow> h2_stream) \<Rightarrow> h2_stream list \<Rightarrow> h2_stream list" where
  "modify_stream sid f [] = []"
| "modify_stream sid f (s # ss) = (if hs_id s = sid then f s # ss else s # modify_stream sid f ss)"

definition with_stream :: "nat \<Rightarrow> (h2_stream \<Rightarrow> h2_stream) \<Rightarrow> h2_sys \<Rightarrow> h2_sys" where
  "with_stream sid f c = c\<lparr>streams := modify_stream sid f (streams c)\<rparr>"

text \<open>The predicate of both sweeps.\<close>

definition retained :: "h2_stream \<Rightarrow> bool" where
  "retained s \<longleftrightarrow> hs_state s \<noteq> h2_stream_state.Closed \<or> hs_data_available s \<or> hs_headers_received s \<or> hs_pending_rst s \<noteq> None"

definition ensure_stream :: "h2_cfg \<Rightarrow> nat \<Rightarrow> h2_sys \<Rightarrow> h2_sys \<times> bool" where
  "ensure_stream K sid c =
    (if get_stream sid c \<noteq> None then (c, True)
     else
       let c = (if MAX_STREAMS K \<le> length (streams c) then c\<lparr>streams := filter retained (streams c)\<rparr> else c)
       in if MAX_STREAMS K \<le> length (streams c) then (c, False)
          else (c\<lparr>streams := streams c @ [h2_stream_new sid (as_i32 (int (initial_window_size (peer_settings c))))
                  (as_i32 (int (initial_window_size (local_settings c))))]\<rparr>, True))"

section \<open>Control frames\<close>

definition send_initial_settings :: "h2_cfg \<Rightarrow> h2_sys \<Rightarrow> h2_sys \<times> unit res" where
  "send_initial_settings K c =
    sbind (c, encode_params (local_settings c) (replicate 64 0)) (\<lambda>c (params, params_len).
    sbind (c, slice params 0 params_len) (\<lambda>c params.
    sbind (on_io (io_queue_frame K 128 (H2Settings False params)) c) (\<lambda>c _.
      (c\<lparr>settings_sent := True\<rparr>, Ok ()))))"

definition send_settings_ack :: "h2_cfg \<Rightarrow> h2_sys \<Rightarrow> h2_sys \<times> unit res" where
  "send_settings_ack K = on_io (io_queue_frame K 16 (H2Settings True []))"

definition send_ping_ack :: "h2_cfg \<Rightarrow> bytes \<Rightarrow> h2_sys \<Rightarrow> h2_sys \<times> unit res" where
  "send_ping_ack K data = on_io (io_queue_frame K 32 (H2Ping data True))"

definition h2_send_goaway :: "h2_cfg \<Rightarrow> nat \<Rightarrow> h2_sys \<Rightarrow> h2_sys \<times> unit res" where
  "h2_send_goaway K code c =
    sbind (on_io (io_queue_frame K 32 (H2GoAway (last_peer_stream_id c) code [])) c) (\<lambda>c _.
      (c\<lparr>goaway_sent := True, h2_state := Closing\<rparr>, Ok ()))"

text \<open>The body of the loop of \<^verbatim>\<open>flush_window_updates\<close> on one stream.\<close>

definition flush_credit :: "h2_cfg \<Rightarrow> h2_io \<times> h2_stream \<Rightarrow> (h2_io \<times> h2_stream) \<times> unit res" where
  "flush_credit K p =
    (case p of (i, s) \<Rightarrow>
       if hs_pending_recv_credit s > 0 then
         let inc = hs_pending_recv_credit s
         in case attempt (io_queue_frame K 16 (H2WindowUpdate (hs_id s) inc) i) of
              (i, Ok True) \<Rightarrow> ((i, s\<lparr>hs_recv_window := as_i32 (min (hs_recv_window s + int inc) 0x7fffffff),
                                    hs_pending_recv_credit := 0\<rparr>), Ok ())
            | (i, Ok False) \<Rightarrow> ((i, s), Ok ())
            | (i, Err e) \<Rightarrow> ((i, s), Err e)
            | (i, Panic) \<Rightarrow> ((i, s), Panic)
       else ((i, s), Ok ()))"

definition flush_rst :: "h2_cfg \<Rightarrow> h2_io \<times> h2_stream \<Rightarrow> (h2_io \<times> h2_stream) \<times> unit res" where
  "flush_rst K p =
    (case p of (i, s) \<Rightarrow>
       case hs_pending_rst s of
         Some error_code \<Rightarrow>
           (case attempt (io_queue_frame K 16 (H2RstStream (hs_id s) error_code) i) of
              (i, Ok True) \<Rightarrow> ((i, s\<lparr>hs_pending_rst := None\<rparr>), Ok ())
            | (i, Ok False) \<Rightarrow> ((i, s), Ok ())
            | (i, Err e) \<Rightarrow> ((i, s), Err e)
            | (i, Panic) \<Rightarrow> ((i, s), Panic))
       | None \<Rightarrow> ((i, s), Ok ()))"

definition flush_stream :: "h2_cfg \<Rightarrow> h2_io \<times> h2_stream \<Rightarrow> (h2_io \<times> h2_stream) \<times> unit res" where
  "flush_stream K p = sbind (flush_credit K p) (\<lambda>p _. flush_rst K p)"

fun flush_streams :: "h2_cfg \<Rightarrow> h2_io \<Rightarrow> h2_stream list \<Rightarrow> (h2_io \<times> h2_stream list) \<times> unit res" where
  "flush_streams K i [] = ((i, []), Ok ())"
| "flush_streams K i (s # ss) =
    (case flush_stream K (i, s) of
       ((i, s), Ok _) \<Rightarrow> (case flush_streams K i ss of ((i, ss), r) \<Rightarrow> ((i, s # ss), r))
     | ((i, s), Err e) \<Rightarrow> ((i, s # ss), Err e)
     | ((i, s), Panic) \<Rightarrow> ((i, s # ss), Panic))"

definition flush_conn :: "h2_cfg \<Rightarrow> h2_sys \<Rightarrow> h2_sys \<times> unit res" where
  "flush_conn K c =
    (if pending_conn_credit c > 0 then
       let inc = pending_conn_credit c
       in sbind (attempt (on_io (io_queue_frame K 16 (H2WindowUpdate 0 inc)) c)) (\<lambda>c ok.
            if ok then (c\<lparr>conn_recv_fc := fst (fc_replenish inc (conn_recv_fc c)), pending_conn_credit := 0\<rparr>, Ok ())
            else (c, Ok ()))
     else (c, Ok ()))"

definition flush_window_updates :: "h2_cfg \<Rightarrow> h2_sys \<Rightarrow> h2_sys \<times> unit res" where
  "flush_window_updates K c =
    sbind (flush_conn K c) (\<lambda>c _.
      case flush_streams K (h2io c) (streams c) of ((i, ss), r) \<Rightarrow> (c\<lparr>h2io := i, streams := ss\<rparr>, r))"

definition u32_sat_add :: "nat \<Rightarrow> nat \<Rightarrow> nat" where
  "u32_sat_add a b = min (a + b) (2 ^ 32 - 1)"

definition send_window_update :: "h2_cfg \<Rightarrow> nat \<Rightarrow> nat \<Rightarrow> h2_sys \<Rightarrow> h2_sys \<times> unit res" where
  "send_window_update K sid increment c =
    (if increment = 0 then (c, Ok ())
     else
       let c = (if sid = 0 then c\<lparr>pending_conn_credit := u32_sat_add (pending_conn_credit c) increment\<rparr>
                else with_stream sid (\<lambda>s. s\<lparr>hs_pending_recv_credit := u32_sat_add (hs_pending_recv_credit s) increment\<rparr>) c)
       in flush_window_updates K c)"

definition h2_generate_output :: "h2_cfg \<Rightarrow> h2_sys \<Rightarrow> h2_sys \<times> unit res" where
  "h2_generate_output K c =
    sbind (if \<not> preface_sent c then
             sbind (if role c = Client then attempt (queue_send K CONNECTION_PREFACE c) else (c, Ok True)) (\<lambda>c _.
             sbind (attempt (send_initial_settings K c)) (\<lambda>c _. (c\<lparr>preface_sent := True\<rparr>, Ok ())))
           else (c, Ok ())) (\<lambda>c _.
      flush_window_updates K c)"

definition h2_poll_output :: "h2_cfg \<Rightarrow> nat \<Rightarrow> h2_sys \<Rightarrow> h2_sys \<times> bytes option res" where
  "h2_poll_output K buf_len c =
    sbind (h2_generate_output K c) (\<lambda>c _.
      if send_offset c \<ge> length (send_buf (h2io c)) then (c, Ok None)
      else
        let avail = length (send_buf (h2io c)) - send_offset c;
            n = min avail buf_len
        in sbind (c, slice (send_buf (h2io c)) (send_offset c) (send_offset c + n)) (\<lambda>c chunk.
             let c = c\<lparr>send_offset := send_offset c + n\<rparr>;
                 c = (if send_offset c \<ge> length (send_buf (h2io c))
                      then c\<lparr>h2io := (h2io c)\<lparr>send_buf := []\<rparr>, send_offset := 0\<rparr> else c)
             in (c, Ok (Some chunk))))"

section \<open>Receiving\<close>

subsection \<open>The payload of a DATA frame\<close>

text \<open>
  The inner block of \<^verbatim>\<open>pump_partial_data\<close>: \<open>n\<close> bytes go from the receive buffer to the stream's buffer,
  unless the allocator refuses the room.
\<close>

definition pump_deliver :: "h2_cfg \<Rightarrow> nat \<Rightarrow> nat \<Rightarrow> h2_sys \<Rightarrow> h2_sys \<times> bool res" where
  "pump_deliver K sid n c =
    sbind (attempt (on_io (buf_try_reserve n) c)) (\<lambda>c ok.
      if \<not> ok then (c, Ok False)
      else
        sbind (c, slice (recv_buf (h2io c)) 0 n) (\<lambda>c chunk.
        sbind (drain_recv n (with_stream sid (\<lambda>s. s\<lparr>hs_data_buf := hs_data_buf s @ chunk,
            hs_data_available := True, hs_recv_window := as_i32 (hs_recv_window s - int n)\<rparr>) c)) (\<lambda>c _.
          (h2_push_event K (Data sid) c, Ok True))))"

definition pump_discard :: "h2_cfg \<Rightarrow> nat \<Rightarrow> h2_sys \<Rightarrow> h2_sys \<times> unit res" where
  "pump_discard K n c =
    sbind (drain_recv n c) (\<lambda>c _. if n > 0 then send_window_update K 0 n c else (c, Ok ()))"

text \<open>
  Its loop: payload goes to the stream as far as its buffer has room, or is dropped and credited to the
  connection when the stream is gone.
\<close>

function pump_loop :: "h2_cfg \<Rightarrow> partial_data \<Rightarrow> h2_sys \<Rightarrow> h2_sys \<times> partial_data res" where
  "pump_loop K pd c =
    (let avail = length (recv_buf (h2io c))
     in if pd_data_remaining pd = 0 \<or> avail = 0 then (c, Ok pd)
        else if pd_deliver pd then
          case get_stream (pd_stream_id pd) c of
            None \<Rightarrow> pump_loop K (pd\<lparr>pd_deliver := False\<rparr>) c
          | Some s \<Rightarrow>
              let free = DATABUF K - length (hs_data_buf s);
                  n = min (min (pd_data_remaining pd) avail) free
              in if free = 0 then (c, Ok pd)
                 else sbind (pump_deliver K (pd_stream_id pd) n c) (\<lambda>c ok.
                   if ok then pump_loop K (pd\<lparr>pd_data_remaining := pd_data_remaining pd - n\<rparr>) c
                   else (c, Ok pd))
        else
          let n = min (pd_data_remaining pd) avail
          in sbind (pump_discard K n c) (\<lambda>c _.
               pump_loop K (pd\<lparr>pd_data_remaining := pd_data_remaining pd - n\<rparr>) c))"
  by pat_completeness auto
termination
  by (relation "measure (\<lambda>(K, pd, c). 2 * pd_data_remaining pd + (if pd_deliver pd then 1 else 0))") auto

declare pump_loop.simps [simp del]

definition pump_padding :: "partial_data \<Rightarrow> h2_sys \<Rightarrow> h2_sys \<times> partial_data res" where
  "pump_padding pd c =
    (if pd_data_remaining pd = 0 \<and> pd_pad_remaining pd > 0 then
       let n = min (pd_pad_remaining pd) (length (recv_buf (h2io c)))
       in sbind (drain_recv n c) (\<lambda>c _. (c, Ok (pd\<lparr>pd_pad_remaining := pd_pad_remaining pd - n\<rparr>)))
     else (c, Ok pd))"

definition pump_finish :: "h2_cfg \<Rightarrow> partial_data \<Rightarrow> h2_sys \<Rightarrow> h2_sys" where
  "pump_finish K pd c =
    (if pd_data_remaining pd = 0 \<and> pd_pad_remaining pd = 0 then
       if pd_deliver pd then
         let c = with_stream (pd_stream_id pd) (\<lambda>s.
                   let s = s\<lparr>hs_data_available := True\<rparr>
                   in if pd_end_stream pd then hs_recv_end_stream s else s) c
         in if pd_end_stream pd then h2_push_event K (Finished (pd_stream_id pd)) c else c
       else c
     else c\<lparr>partial := Some pd\<rparr>)"

definition pump_partial_data :: "h2_cfg \<Rightarrow> h2_sys \<Rightarrow> h2_sys \<times> unit res" where
  "pump_partial_data K c =
    (case partial c of
       None \<Rightarrow> (c, Ok ())
     | Some pd \<Rightarrow>
         sbind (pump_loop K pd (c\<lparr>partial := None\<rparr>)) (\<lambda>c pd.
         sbind (pump_padding pd c) (\<lambda>c pd. (pump_finish K pd c, Ok ()))))"

subsection \<open>Frames\<close>

definition recv_u31 :: "nat \<Rightarrow> h2_sys \<Rightarrow> nat res" where
  "recv_u31 i c = res_bind (slice_from (recv_buf (h2io c)) i) read_u31"

text \<open>The lengths of the payload and of the padding of a DATA frame.\<close>

definition data_lengths :: "byte \<Rightarrow> nat \<Rightarrow> h2_sys \<Rightarrow> (nat \<times> nat) res" where
  "data_lengths flags payload_len c =
    (if flags AND FLAG_PADDED \<noteq> 0 then
       if payload_len = 0 then Err (BufferTooSmall 1)
       else res_bind (idx (recv_buf (h2io c)) 9) (\<lambda>b.
         let pad_len = unat b
         in if pad_len \<ge> payload_len then Err InvalidState
            else Ok (payload_len - 1 - pad_len, pad_len))
     else Ok (payload_len, 0))"

text \<open>The window check, the commitment to the connection window and the hand-over to the pump.\<close>

definition accept_data :: "byte \<Rightarrow> nat \<Rightarrow> nat \<Rightarrow> nat \<Rightarrow> nat \<Rightarrow> h2_sys \<Rightarrow> h2_sys \<times> bool res" where
  "accept_data flags sid header_len data_total pad_total c =
    (let live = find (\<lambda>s. hs_id s = sid \<and> hs_state s \<noteq> h2_stream_state.Closed) (streams c)
     in if settings_ack_received c \<and>
           (case live of Some s \<Rightarrow> as_i32 (int data_total) > hs_recv_window s | None \<Rightarrow> False)
        then (c, Err (Http2 h2_error.FlowControlError))
        else
          case fc_consume data_total (conn_recv_fc c) of (fc, r) \<Rightarrow>
          sbind (c\<lparr>conn_recv_fc := fc\<rparr>, r) (\<lambda>c _.
          sbind (drain_recv header_len c) (\<lambda>c _.
            (c\<lparr>partial := Some \<lparr>pd_stream_id = sid, pd_end_stream = (flags AND FLAG_END_STREAM \<noteq> 0),
                pd_data_remaining = data_total, pd_pad_remaining = pad_total, pd_deliver = (live \<noteq> None)\<rparr>\<rparr>,
             Ok True))))"

definition on_data :: "byte \<Rightarrow> nat \<Rightarrow> nat \<Rightarrow> h2_sys \<Rightarrow> h2_sys \<times> bool res" where
  "on_data flags sid payload_len c =
    (if sid = 0 then (c, Err (Http2 ProtocolError))
     else
       let header_len = (if flags AND FLAG_PADDED \<noteq> 0 then 10 else 9)
       in if length (recv_buf (h2io c)) < header_len then (c, Ok False)
          else sbind (c, data_lengths flags payload_len c) (\<lambda>c (data_total, pad_total).
            accept_data flags sid header_len data_total pad_total c))"

text \<open>The range of the header block fragment in the receive buffer.\<close>

definition headers_range :: "byte \<Rightarrow> nat \<Rightarrow> h2_sys \<Rightarrow> (nat \<times> nat) res" where
  "headers_range flags payload_len c =
    (let ps = 9; pe = 9 + payload_len
     in res_bind (if flags AND FLAG_PADDED \<noteq> 0 then
                    if payload_len = 0 then Err (BufferTooSmall 1)
                    else res_bind (idx (recv_buf (h2io c)) ps) (\<lambda>b.
                      let pad_len = unat b
                      in if pad_len \<ge> payload_len then Err InvalidState else Ok (ps + 1, pe - pad_len))
                  else Ok (ps, pe)) (\<lambda>(data_start, data_end).
          if flags AND FLAG_PRIORITY \<noteq> 0 then
            if data_end - data_start < 5 then Err (BufferTooSmall 5) else Ok (data_start + 5, data_end)
          else Ok (data_start, data_end)))"

definition headers_closed :: "nat \<Rightarrow> h2_sys \<Rightarrow> bool" where
  "headers_closed sid c \<longleftrightarrow>
    (\<exists>s \<in> set (streams c). hs_id s = sid \<and> hs_state s = h2_stream_state.Closed) \<or>
    ((\<forall>s \<in> set (streams c). hs_id s \<noteq> sid) \<and> sid < next_stream_id c \<and>
     (case role c of Client \<Rightarrow> sid mod 2 = 1 | Server \<Rightarrow> sid mod 2 = 0))"

text \<open>Appending a fragment to the header block, bounded by \<^verbatim>\<open>HDRBUF\<close>.\<close>

definition append_headers :: "h2_cfg \<Rightarrow> nat \<Rightarrow> bytes \<Rightarrow> h2_sys \<Rightarrow> h2_sys \<times> unit res" where
  "append_headers K sid fragment c =
    sbind (attempt (on_io (buf_try_reserve (length fragment)) c)) (\<lambda>c ok.
      if \<not> ok \<or> (case get_stream sid c of Some s \<Rightarrow> length (hs_headers_data s) + length fragment > HDRBUF K | None \<Rightarrow> False)
      then (c, Err (Http2 EnhanceYourCalm))
      else (with_stream sid (\<lambda>s. s\<lparr>hs_headers_data := hs_headers_data s @ fragment\<rparr>) c, Ok ()))"

definition on_headers_open :: "h2_cfg \<Rightarrow> nat \<Rightarrow> bytes \<Rightarrow> bool \<Rightarrow> bool \<Rightarrow> h2_sys \<Rightarrow> h2_sys \<times> unit res" where
  "on_headers_open K sid fragment end_stream end_headers c =
    (let c = c\<lparr>last_peer_stream_id := max (last_peer_stream_id c) sid\<rparr>
     in case ensure_stream K sid c of
          (c, False) \<Rightarrow> (c, Err (Http2 ProtocolError))
        | (c, True) \<Rightarrow>
            let c = with_stream sid (\<lambda>s. (if hs_state s = Idle then hs_open s else s)\<lparr>hs_headers_data := []\<rparr>) c
            in sbind (append_headers K sid fragment c) (\<lambda>c _.
                 let c = with_stream sid (\<lambda>s.
                           let s = (if end_headers then s\<lparr>hs_headers_received := True\<rparr> else s)
                           in if end_stream then hs_recv_end_stream s else s) c;
                     c = (if \<not> end_headers then c\<lparr>continuation_stream_id := Some sid\<rparr>
                          else h2_push_event K (Headers sid) c);
                     c = (if end_stream then h2_push_event K (Finished sid) c else c)
                 in (c, Ok ())))"

text \<open>A header block for a closed stream only passes through the decoder, to keep its table in step.\<close>

definition skip_block :: "h2_cfg \<Rightarrow> bytes \<Rightarrow> h2_sys \<Rightarrow> h2_sys \<times> unit res" where
  "skip_block K block c =
    (case hpack_decode (USIZE K) block (decoder c) of
       ((d, _), r) \<Rightarrow> sbind (c\<lparr>decoder := d\<rparr>, r) (\<lambda>c _. (c, Ok ())))"

definition on_fragment :: "h2_cfg \<Rightarrow> nat \<Rightarrow> bytes \<Rightarrow> bool \<Rightarrow> bool \<Rightarrow> h2_sys \<Rightarrow> h2_sys \<times> unit res" where
  "on_fragment K sid fragment end_stream end_headers c =
    (if headers_closed sid c then
       if \<not> end_headers then (c, Err (Http2 CompressionError)) else skip_block K fragment c
     else if get_stream sid c = None \<and>
         \<not> (case role c of Server \<Rightarrow> sid mod 2 = 1 | Client \<Rightarrow> False) then (c, Err (Http2 ProtocolError))
     else on_headers_open K sid fragment end_stream end_headers c)"

definition on_headers :: "h2_cfg \<Rightarrow> byte \<Rightarrow> nat \<Rightarrow> nat \<Rightarrow> h2_sys \<Rightarrow> h2_sys \<times> unit res" where
  "on_headers K flags sid payload_len c =
    (if sid = 0 then (c, Err (Http2 ProtocolError))
     else
       sbind (c, headers_range flags payload_len c) (\<lambda>c (frag_start, data_end).
       sbind (c, slice (recv_buf (h2io c)) frag_start data_end) (\<lambda>c fragment.
         on_fragment K sid fragment (flags AND FLAG_END_STREAM \<noteq> 0) (flags AND FLAG_END_HEADERS \<noteq> 0) c)))"

text \<open>The loop that adds the change of \<^verbatim>\<open>INITIAL_WINDOW_SIZE\<close> to every stream's send window.\<close>

fun adjust_windows :: "int \<Rightarrow> h2_stream list \<Rightarrow> h2_stream list \<times> unit res" where
  "adjust_windows delta [] = ([], Ok ())"
| "adjust_windows delta (s # ss) =
    (let w = hs_send_window s + delta
     in if - (2 ^ 31) \<le> w \<and> w < 2 ^ 31
        then (case adjust_windows delta ss of (ss, r) \<Rightarrow> (s\<lparr>hs_send_window := w\<rparr> # ss, r))
        else (s # ss, Err (Http2 h2_error.FlowControlError)))"

definition on_settings_ack :: "h2_cfg \<Rightarrow> nat \<Rightarrow> h2_sys \<Rightarrow> h2_sys \<times> unit res" where
  "on_settings_ack K payload_len c =
    (if payload_len \<noteq> 0 then (c, Err (Http2 FrameSizeError))
     else
       let c = c\<lparr>settings_ack_received := True\<rparr>
       in (if peer_settings_received c \<and> h2_state c = WaitingSettings
           then h2_push_event K Connected (c\<lparr>h2_state := Active, headers_phase_complete := True\<rparr>) else c, Ok ()))"

text \<open>The end of the SETTINGS case: the connection becomes active, and the streams' send windows follow.\<close>

definition settle_settings :: "h2_cfg \<Rightarrow> int \<Rightarrow> h2_sys \<Rightarrow> h2_sys \<times> unit res" where
  "settle_settings K old_initial c0 =
    (let c = (if h2_state c0 = WaitingPreface \<or> h2_state c0 = WaitingSettings
              then h2_push_event K Connected (c0\<lparr>h2_state := Active, headers_phase_complete := True\<rparr>) else c0);
         new_initial = as_i32 (int (initial_window_size (peer_settings c)));
         delta = as_i32 (new_initial - old_initial)
     in if delta \<noteq> 0 then case adjust_windows delta (streams c) of (ss, r) \<Rightarrow> (c\<lparr>streams := ss\<rparr>, r)
        else (c, Ok ()))"

definition on_settings_new :: "h2_cfg \<Rightarrow> nat \<Rightarrow> h2_sys \<Rightarrow> h2_sys \<times> unit res" where
  "on_settings_new K payload_len c =
    (let old_initial = as_i32 (int (initial_window_size (peer_settings c)))
     in sbind (c, slice (recv_buf (h2io c)) 9 (9 + payload_len)) (\<lambda>c params.
        case decode_settings_params settings_apply params (peer_settings c) of (ps, r) \<Rightarrow>
        sbind (c\<lparr>peer_settings := ps\<rparr>, r) (\<lambda>c _.
        sbind (send_settings_ack K (c\<lparr>peer_settings_received := True\<rparr>)) (\<lambda>c _.
          settle_settings K old_initial c))))"

definition on_settings :: "h2_cfg \<Rightarrow> byte \<Rightarrow> nat \<Rightarrow> nat \<Rightarrow> h2_sys \<Rightarrow> h2_sys \<times> unit res" where
  "on_settings K flags sid payload_len c =
    (if sid \<noteq> 0 then (c, Err (Http2 ProtocolError))
     else if flags AND FLAG_ACK \<noteq> 0 then on_settings_ack K payload_len c
     else on_settings_new K payload_len c)"

definition on_window_update :: "nat \<Rightarrow> nat \<Rightarrow> h2_sys \<Rightarrow> h2_sys \<times> unit res" where
  "on_window_update sid payload_len c =
    (if payload_len \<noteq> 4 then (c, Err InvalidState)
     else sbind (c, recv_u31 9 c) (\<lambda>c increment.
       if increment = 0 then (c, Err (Http2 ProtocolError))
       else if sid = 0 then
         case fc_replenish increment (conn_send_fc c) of (fc, r) \<Rightarrow> (c\<lparr>conn_send_fc := fc\<rparr>, r)
       else case get_stream sid c of
         Some s \<Rightarrow>
           let new_window = hs_send_window s + int increment
           in if new_window > 0x7fffffff then (c, Err (Http2 h2_error.FlowControlError))
              else (with_stream sid (\<lambda>s. s\<lparr>hs_send_window := as_i32 new_window\<rparr>) c, Ok ())
       | None \<Rightarrow> (c, Ok ())))"

definition on_ping :: "h2_cfg \<Rightarrow> byte \<Rightarrow> nat \<Rightarrow> nat \<Rightarrow> h2_sys \<Rightarrow> h2_sys \<times> unit res" where
  "on_ping K flags sid payload_len c =
    (if sid \<noteq> 0 then (c, Err (Http2 ProtocolError))
     else if payload_len \<noteq> 8 then (c, Err (Http2 FrameSizeError))
     else if flags AND FLAG_ACK = 0 then
       sbind (c, slice (recv_buf (h2io c)) 9 17) (\<lambda>c data. send_ping_ack K data c)
     else (c, Ok ()))"

definition on_goaway :: "h2_cfg \<Rightarrow> nat \<Rightarrow> nat \<Rightarrow> h2_sys \<Rightarrow> h2_sys \<times> unit res" where
  "on_goaway K sid payload_len c =
    (if sid \<noteq> 0 then (c, Err InvalidState)
     else if payload_len < 8 then (c, Err (BufferTooSmall 8))
     else
       sbind (c, recv_u31 9 c) (\<lambda>c last_stream_id.
       sbind (c, read_u32 (recv_buf (h2io c)) 13) (\<lambda>c error_code.
         (h2_push_event K (GoAway last_stream_id error_code) (c\<lparr>h2_state := Closing\<rparr>), Ok ()))))"

definition drop_body :: "h2_stream \<Rightarrow> h2_stream" where
  "drop_body s = hs_reset (s\<lparr>hs_data_buf := [], hs_data_available := False\<rparr>)"

definition on_rst_stream :: "h2_cfg \<Rightarrow> nat \<Rightarrow> nat \<Rightarrow> h2_sys \<Rightarrow> h2_sys \<times> unit res" where
  "on_rst_stream K sid payload_len c =
    (if sid = 0 then (c, Err InvalidState)
     else if payload_len \<noteq> 4 then (c, Err InvalidState)
     else sbind (c, read_u32 (recv_buf (h2io c)) 9) (\<lambda>c error_code.
       let c = c\<lparr>partial := map_option (\<lambda>pd. if pd_stream_id pd = sid then pd\<lparr>pd_deliver := False\<rparr> else pd) (partial c)\<rparr>;
           buffered = (case get_stream sid c of Some s \<Rightarrow> length (hs_data_buf s) mod 2 ^ 32 | None \<Rightarrow> 0);
           c = with_stream sid drop_body c
       in sbind (if buffered > 0 then send_window_update K 0 buffered c else (c, Ok ())) (\<lambda>c _.
            (h2_push_event K (StreamReset sid error_code) c, Ok ()))))"

definition on_continuation :: "h2_cfg \<Rightarrow> byte \<Rightarrow> nat \<Rightarrow> nat \<Rightarrow> h2_sys \<Rightarrow> h2_sys \<times> unit res" where
  "on_continuation K flags sid payload_len c =
    (if sid = 0 then (c, Err (Http2 ProtocolError))
     else
       let end_headers = flags AND FLAG_END_HEADERS \<noteq> 0;
           c = (if end_headers then c\<lparr>continuation_stream_id := None\<rparr> else c)
       in if get_stream sid c = None then (c, Ok ())
          else
            sbind (c, slice (recv_buf (h2io c)) 9 (9 + payload_len)) (\<lambda>c fragment.
            sbind (append_headers K sid fragment c) (\<lambda>c _.
              (if end_headers then h2_push_event K (Headers sid) (with_stream sid (\<lambda>s. s\<lparr>hs_headers_received := True\<rparr>) c)
               else c, Ok ()))))"

definition on_frame :: "h2_cfg \<Rightarrow> byte \<Rightarrow> byte \<Rightarrow> nat \<Rightarrow> nat \<Rightarrow> h2_sys \<Rightarrow> h2_sys \<times> unit res" where
  "on_frame K frame_type flags sid payload_len c =
    (if frame_type = FRAME_HEADERS then on_headers K flags sid payload_len c
     else if frame_type = FRAME_SETTINGS then on_settings K flags sid payload_len c
     else if frame_type = FRAME_WINDOW_UPDATE then on_window_update sid payload_len c
     else if frame_type = FRAME_PING then on_ping K flags sid payload_len c
     else if frame_type = FRAME_GOAWAY then on_goaway K sid payload_len c
     else if frame_type = FRAME_RST_STREAM then on_rst_stream K sid payload_len c
     else if frame_type = FRAME_PRIORITY then (c, Ok ())
     else if frame_type = FRAME_CONTINUATION then on_continuation K flags sid payload_len c
     else if frame_type = FRAME_PUSH_PROMISE then (c, Ok ())
     else (c, Ok ()))"

text \<open>
  One turn of the loop of \<^verbatim>\<open>process_recv\<close>; the result says whether the loop goes on.
\<close>

definition recv_turn :: "h2_cfg \<Rightarrow> h2_sys \<Rightarrow> h2_sys \<times> bool res" where
  "recv_turn K c =
    (if partial c \<noteq> None then
       sbind (pump_partial_data K c) (\<lambda>c _. (c, Ok (partial c = None)))
     else if length (recv_buf (h2io c)) < 9 then (c, Ok False)
     else
       sbind (c, decode_frame_header (recv_buf (h2io c))) (\<lambda>c hdr.
         let payload_len = hd_length hdr; tot = 9 + payload_len;
             frame_type = hd_type hdr; flags = hd_flags hdr; sid = hd_stream_id hdr
         in if payload_len > max_frame_size (local_settings c) then (c, Err (Http2 FrameSizeError))
            else if (case continuation_stream_id c of
                       Some expected_sid \<Rightarrow> frame_type \<noteq> FRAME_CONTINUATION \<or> sid \<noteq> expected_sid
                     | None \<Rightarrow> False) then (c, Err (Http2 ProtocolError))
            else if frame_type = FRAME_DATA then on_data flags sid payload_len c
            else if tot > BUF K then (c, Err (Http2 FrameSizeError))
            else if length (recv_buf (h2io c)) < tot then (c, Ok False)
            else
              sbind (on_frame K frame_type flags sid payload_len c) (\<lambda>c _.
              sbind (drain_recv tot c) (\<lambda>c _. (c, Ok True)))))"

subsection \<open>The loop\<close>

text \<open>
  The turns end: each one either consumes bytes of the receive buffer or finishes the frame in
  progress. Everything else a turn does leaves the receive buffer alone.
\<close>

definition same_in :: "h2_sys \<Rightarrow> h2_sys \<Rightarrow> bool" where
  "same_in c c' \<longleftrightarrow> recv_buf (h2io c') = recv_buf (h2io c) \<and> (partial c = None \<longrightarrow> partial c' = None)"

abbreviation quiet :: "h2_sys \<Rightarrow> h2_sys \<times> 'a res \<Rightarrow> bool" where
  "quiet c \<equiv> post (\<lambda>_. same_in c) (same_in c)"

lemma same_in_refl [simp]: "same_in c c"
  by (simp add: same_in_def)

lemma same_in_trans: "same_in a b \<Longrightarrow> same_in b c \<Longrightarrow> same_in a c"
  by (simp add: same_in_def)

lemma same_in_upd [simp]:
  "same_in a (h2_push_event K e c) = same_in a c" "same_in a (with_stream sid f c) = same_in a c"
  "same_in a (c\<lparr>streams := ss\<rparr>) = same_in a c" "same_in a (c\<lparr>conn_recv_fc := fc\<rparr>) = same_in a c"
  "same_in a (c\<lparr>conn_send_fc := fc\<rparr>) = same_in a c" "same_in a (c\<lparr>pending_conn_credit := n\<rparr>) = same_in a c"
  "same_in a (c\<lparr>decoder := d\<rparr>) = same_in a c" "same_in a (c\<lparr>last_peer_stream_id := n\<rparr>) = same_in a c"
  "same_in a (c\<lparr>peer_settings := ps\<rparr>) = same_in a c" "same_in a (c\<lparr>continuation_stream_id := x\<rparr>) = same_in a c"
  "same_in a (c\<lparr>h2_state := st\<rparr>) = same_in a c" "same_in a (c\<lparr>peer_settings_received := b\<rparr>) = same_in a c"
  "same_in a (c\<lparr>headers_phase_complete := b\<rparr>) = same_in a c" "same_in a (c\<lparr>settings_ack_received := b\<rparr>) = same_in a c"
  "same_in a (c\<lparr>partial := map_option g (partial c)\<rparr>) = same_in a c"
  by (simp_all add: same_in_def h2_push_event_def with_stream_def)

lemma quiet_sbind: "quiet c p \<Longrightarrow> (\<And>x c'. same_in c c' \<Longrightarrow> quiet c (f c' x)) \<Longrightarrow> quiet c (sbind p f)"
  by (rule post_sbind)

lemma quiet_trans: "quiet c' p \<Longrightarrow> same_in c c' \<Longrightarrow> quiet c p"
  by (erule post_mono) (auto intro: same_in_trans)

lemma quiet_attempt: "quiet c p \<Longrightarrow> quiet c (attempt p)"
  by (rule post_attempt)

lemma post_on_io: "post (\<lambda>x i. Q x (c\<lparr>h2io := i\<rparr>)) (\<lambda>i. E (c\<lparr>h2io := i\<rparr>)) (f (h2io c)) \<Longrightarrow> post Q E (on_io f c)"
  by (cases "f (h2io c)"; cases "snd (f (h2io c))") (auto simp: on_io_def)

lemma encode_with_shape:
  "post (\<lambda>(b, n) _. n \<le> length b) (\<lambda>_. True) ((), encode_with ty flags sid parts buf)"
proof (cases "9 + length (concat parts) \<le> length buf \<and> sid < 2 ^ 31")
  case True
  define H where "H = be_bytes 3 (length (concat parts) mod 2 ^ 32) @ [ty, flags] @ be_bytes 4 sid"
  have "encode_frame_header \<lparr>hd_length = length (concat parts) mod 2 ^ 32, hd_type = ty, hd_flags = flags, hd_stream_id = sid\<rparr> buf
    = Ok (H @ drop 9 buf)" unfolding H_def using True by (intro encode_frame_header_spec) auto
  moreover have "length H = 9" by (simp add: H_def)
  moreover from this have "put_all (H @ drop 9 buf) 9 parts = Ok ((H @ concat parts) @ drop (length (H @ concat parts)) buf)"
    using put_all_spec [of H parts buf] True by simp
  ultimately show ?thesis using True by (simp add: encode_with_def Let_def del: be_bytes_numeral)
next
  case False
  then show ?thesis by (auto simp: encode_with_def encode_frame_header_def Let_def)
qed

lemma encode_h2_frame_shape: "post (\<lambda>(b, n) _. n \<le> length b) (\<lambda>_. True) ((), encode_h2_frame f buf)"
  by (cases f) (auto simp: encode_with_shape Let_def split: option.splits)

lemma frame_to_send_no_panic [simp]: "frame_to_send k f \<noteq> Panic"
  using encode_h2_frame_shape [of f "replicate k 0"]
  by (cases "encode_h2_frame f (replicate k 0)") (auto simp: frame_to_send_def slice_def)

lemma reserve_post: "post (\<lambda>_ i'. \<exists>h. i' = i\<lparr>heap := h\<rparr>) (\<lambda>i'. \<exists>h. i' = i\<lparr>heap := h\<rparr>) (buf_try_reserve n i)"
  by (cases i) (auto simp: buf_try_reserve_def split: list.splits)

text \<open>Queueing only appends to the send buffer, within its bound.\<close>

definition queued :: "h2_cfg \<Rightarrow> h2_io \<Rightarrow> h2_io \<Rightarrow> bool" where
  "queued K i i' \<longleftrightarrow> recv_buf i' = recv_buf i \<and> (\<exists>d. send_buf i' = send_buf i @ d) \<and>
    (length (send_buf i) \<le> BUF K \<longrightarrow> length (send_buf i') \<le> BUF K)"

lemma queued_refl [simp]: "queued K i i" "queued K i (i\<lparr>heap := h\<rparr>)"
  by (simp_all add: queued_def)

lemma queued_trans: "queued K a b \<Longrightarrow> queued K b c \<Longrightarrow> queued K a c"
  by (auto simp: queued_def)

lemma queue_send_post: "post (\<lambda>_. queued K i) (queued K i) (io_queue_send K data i)"
proof (cases "BUF K < length (send_buf i) + length data")
  case False
  then show ?thesis
    unfolding io_queue_send_def
    by simp (rule post_sbind, rule reserve_post [THEN post_mono], auto simp: queued_def)
qed (simp add: io_queue_send_def)

lemma queue_frame_post: "post (\<lambda>_. queued K i) (queued K i) (io_queue_frame K k f i)"
  unfolding io_queue_frame_def by (rule post_lift) (simp_all add: queue_send_post)

lemma flush_stream_post:
  "post (\<lambda>_ (i', s'). queued K i i' \<and> hs_id s' = hs_id s \<and> hs_data_buf s' = hs_data_buf s \<and>
      hs_data_available s' = hs_data_available s \<and> hs_headers_data s' = hs_headers_data s) (\<lambda>_. False) (flush_stream K (i, s))"
  (is "post ?Q _ _")
proof -
  have 1: "post ?Q (\<lambda>_. False) (flush_credit K (i, s))"
    using queue_frame_post [of K i 16 "H2WindowUpdate (hs_id s) (hs_pending_recv_credit s)"]
    by (cases "io_queue_frame K 16 (H2WindowUpdate (hs_id s) (hs_pending_recv_credit s)) i";
        cases "snd (io_queue_frame K 16 (H2WindowUpdate (hs_id s) (hs_pending_recv_credit s)) i)")
       (auto simp: flush_credit_def)
  have 2: "post ?Q (\<lambda>_. False) (flush_rst K (i', s'))" if "?Q () (i', s')" for i' s'
  proof (cases "hs_pending_rst s'")
    case (Some code)
    then show ?thesis
      using queue_frame_post [of K i' 16 "H2RstStream (hs_id s') code"] that
      by (cases "io_queue_frame K 16 (H2RstStream (hs_id s') code) i'";
          cases "snd (io_queue_frame K 16 (H2RstStream (hs_id s') code) i')")
         (auto simp: flush_rst_def intro: queued_trans)
  qed (use that in \<open>simp add: flush_rst_def\<close>)
  show ?thesis
    unfolding flush_stream_def by (rule post_sbind [OF 1]) (use 2 in \<open>auto split: prod.splits\<close>)
qed

text \<open>What the flush leaves of a stream.\<close>

definition kept_stream :: "h2_stream \<Rightarrow> h2_stream \<Rightarrow> bool" where
  "kept_stream s s' \<longleftrightarrow> hs_id s' = hs_id s \<and> hs_data_buf s' = hs_data_buf s \<and>
      hs_data_available s' = hs_data_available s \<and> hs_headers_data s' = hs_headers_data s"

lemma flush_streams_post:
  "post (\<lambda>_ (i', ss'). queued K i i' \<and> list_all2 kept_stream ss ss') (\<lambda>_. False) (flush_streams K i ss)"
proof (induction ss arbitrary: i)
  case (Cons s ss)
  obtain i1 s1 r where f: "flush_stream K (i, s) = ((i1, s1), r)" by (metis surj_pair)
  from flush_stream_post [of K i s] f have r: "r = Ok ()" "queued K i i1" "kept_stream s s1"
    by (cases r; simp add: kept_stream_def)+
  obtain i2 ss2 r2 where fs: "flush_streams K i1 ss = ((i2, ss2), r2)" by (metis surj_pair)
  with Cons.IH [of i1] have "r2 = Ok ()" "queued K i1 i2" "list_all2 kept_stream ss ss2" by (cases r2; simp)+
  then show ?case using f fs r by (auto intro: queued_trans)
qed simp

lemma on_io_quiet: "post (\<lambda>_. queued K (h2io c)) (queued K (h2io c)) (f (h2io c)) \<Longrightarrow> quiet c (on_io f c)"
  by (rule post_on_io) (auto simp: same_in_def queued_def elim: post_mono)

lemma reserve_quiet: "quiet c (on_io (buf_try_reserve n) c)"
  by (rule post_on_io, rule reserve_post [THEN post_mono]) (auto simp: same_in_def)

lemma queue_frame_quiet: "quiet c (on_io (io_queue_frame K k f) c)"
  by (rule on_io_quiet) (rule queue_frame_post)

lemma flush_conn_quiet: "post (\<lambda>_. same_in c) (\<lambda>_. False) (flush_conn K c)"
  unfolding flush_conn_def Let_def
  by (intro post_if post_sbind [OF post_attempt [OF queue_frame_quiet]]) (auto simp: same_in_def)

lemma flush_quiet: "post (\<lambda>_. same_in c) (\<lambda>_. False) (flush_window_updates K c)"
  unfolding flush_window_updates_def
proof (rule post_sbind [OF flush_conn_quiet])
  fix c' assume c': "same_in c c'"
  obtain i ss r where f: "flush_streams K (h2io c') (streams c') = ((i, ss), r)" by (metis surj_pair)
  with flush_streams_post [of K "h2io c'" "streams c'"] have "r = Ok ()" "queued K (h2io c') i" by (cases r; simp)+
  then show "post (\<lambda>_. same_in c) (\<lambda>_. False)
      (case flush_streams K (h2io c') (streams c') of ((i, ss), r) \<Rightarrow> (c'\<lparr>h2io := i, streams := ss\<rparr>, r))"
    using c' f by (simp add: same_in_def queued_def)
qed

lemma send_window_update_quiet: "post (\<lambda>_. same_in c) (\<lambda>_. False) (send_window_update K sid n c)"
  unfolding send_window_update_def Let_def
  by (auto intro!: flush_quiet [THEN post_mono] simp: same_in_def with_stream_def)

definition shrinks :: "h2_sys \<Rightarrow> h2_sys \<Rightarrow> bool" where
  "shrinks c c' \<longleftrightarrow> length (recv_buf (h2io c')) \<le> length (recv_buf (h2io c)) \<and> (partial c = None \<longrightarrow> partial c' = None)"

lemma shrinks_trans: "shrinks a b \<Longrightarrow> shrinks b c \<Longrightarrow> shrinks a c"
  by (simp add: shrinks_def)

lemma same_in_shrinks: "same_in c c' \<Longrightarrow> shrinks c c'"
  by (simp add: same_in_def shrinks_def)

lemma drain_post:
  "n \<le> length (recv_buf (h2io c)) \<Longrightarrow>
   drain_recv n c = (c\<lparr>h2io := (h2io c)\<lparr>recv_buf := drop n (recv_buf (h2io c))\<rparr>\<rparr>, Ok ())"
  by (simp add: on_io_def io_drain_recv_def)

lemma slice_take: "n \<le> length xs \<Longrightarrow> slice xs 0 n = Ok (take n xs)"
  by simp

lemma pump_deliver_shrinks:
  assumes "n \<le> length (recv_buf (h2io c))"
  shows "post (\<lambda>_. shrinks c) (\<lambda>_. False) (pump_deliver K sid n c)"
  unfolding pump_deliver_def
proof (rule post_sbind [OF post_attempt [OF reserve_quiet]])
  fix ok c' assume c': "same_in c c'"
  then have n: "n \<le> length (recv_buf (h2io c'))" using assms by (simp add: same_in_def)
  show "post (\<lambda>_. shrinks c) (\<lambda>_. False) (if \<not> ok then (c', Ok False)
      else sbind (c', slice (recv_buf (h2io c')) 0 n) (\<lambda>c chunk.
        sbind (drain_recv n (with_stream sid (\<lambda>s. s\<lparr>hs_data_buf := hs_data_buf s @ chunk,
            hs_data_available := True, hs_recv_window := as_i32 (hs_recv_window s - int n)\<rparr>) c)) (\<lambda>c _.
          (h2_push_event K (Data sid) c, Ok True))))"
    using c' n by (auto simp: drain_post with_stream_def h2_push_event_def shrinks_def same_in_def)
qed

lemma pump_discard_shrinks:
  assumes "n \<le> length (recv_buf (h2io c))"
  shows "post (\<lambda>_. shrinks c) (\<lambda>_. False) (pump_discard K n c)"
  unfolding pump_discard_def drain_post [OF assms] sbind.simps
  by (intro post_if post_mono [OF send_window_update_quiet]) (auto simp: same_in_def shrinks_def)

text \<open>The rule for reasoning about the pump: one round of its loop at a time.\<close>

lemma pump_loop_post:
  assumes "P pd c"
    and gone: "\<And>pd c. P pd c \<Longrightarrow> get_stream (pd_stream_id pd) c = None \<Longrightarrow> P (pd\<lparr>pd_deliver := False\<rparr>) c"
    and deliver: "\<And>pd c s n. P pd c \<Longrightarrow> get_stream (pd_stream_id pd) c = Some s \<Longrightarrow> pd_deliver pd \<Longrightarrow>
      length (hs_data_buf s) + n \<le> DATABUF K \<Longrightarrow> n \<le> pd_data_remaining pd \<Longrightarrow> n \<le> length (recv_buf (h2io c)) \<Longrightarrow>
      post (\<lambda>ok c'. P (if ok then pd\<lparr>pd_data_remaining := pd_data_remaining pd - n\<rparr> else pd) c') (\<lambda>_. False)
        (pump_deliver K (pd_stream_id pd) n c)"
    and discard: "\<And>pd c n. P pd c \<Longrightarrow> \<not> pd_deliver pd \<Longrightarrow> n \<le> pd_data_remaining pd \<Longrightarrow> n \<le> length (recv_buf (h2io c)) \<Longrightarrow>
      post (\<lambda>_ c'. P (pd\<lparr>pd_data_remaining := pd_data_remaining pd - n\<rparr>) c') (\<lambda>_. False) (pump_discard K n c)"
  shows "post P (\<lambda>_. False) (pump_loop K pd c)"
  using assms(1)
proof (induction "2 * pd_data_remaining pd + (if pd_deliver pd then 1 else 0 :: nat)" arbitrary: pd c rule: less_induct)
  case less
  note P = less(2)
  let ?avail = "length (recv_buf (h2io c))"
  consider (stop) "pd_data_remaining pd = 0 \<or> ?avail = 0"
    | (none) "\<not> (pd_data_remaining pd = 0 \<or> ?avail = 0)" "pd_deliver pd" "get_stream (pd_stream_id pd) c = None"
    | (some) s where "\<not> (pd_data_remaining pd = 0 \<or> ?avail = 0)" "pd_deliver pd" "get_stream (pd_stream_id pd) c = Some s"
    | (drop) "\<not> (pd_data_remaining pd = 0 \<or> ?avail = 0)" "\<not> pd_deliver pd"
    by (cases "get_stream (pd_stream_id pd) c") blast+
  then show ?case
  proof cases
    case stop
    then show ?thesis using P by (subst pump_loop.simps) simp
  next
    case none
    then show ?thesis using less(1) [of "pd\<lparr>pd_deliver := False\<rparr>"] P gone by (subst pump_loop.simps) (simp add: Let_def)
  next
    case some
    define free n where "free = DATABUF K - length (hs_data_buf s)" and "n = min (min (pd_data_remaining pd) ?avail) free"
    show ?thesis
    proof (cases "free = 0")
      case True
      then show ?thesis using some P by (subst pump_loop.simps) (simp add: Let_def free_def)
    next
      case False
      have n: "0 < n" "n \<le> pd_data_remaining pd" "n \<le> ?avail" "length (hs_data_buf s) + n \<le> DATABUF K"
        using False some(1) by (auto simp: n_def free_def)
      have "post P (\<lambda>_. False) (sbind (pump_deliver K (pd_stream_id pd) n c) (\<lambda>c ok.
          if ok then pump_loop K (pd\<lparr>pd_data_remaining := pd_data_remaining pd - n\<rparr>) c else (c, Ok pd)))"
        by (rule post_sbind [OF deliver [OF P some(3,2) n(4,2,3)]], rule post_if) (use n some(2) in \<open>auto intro!: less(1)\<close>)
      then show ?thesis using some False unfolding n_def free_def by (subst pump_loop.simps) (simp add: Let_def)
    qed
  next
    case drop
    define n where "n = min (pd_data_remaining pd) ?avail"
    have n: "0 < n" "n \<le> pd_data_remaining pd" "n \<le> ?avail" using drop(1) by (auto simp: n_def)
    have "post P (\<lambda>_. False) (sbind (pump_discard K n c) (\<lambda>c _.
        pump_loop K (pd\<lparr>pd_data_remaining := pd_data_remaining pd - n\<rparr>) c))"
      by (rule post_sbind [OF discard [OF P drop(2) n(2,3)]]) (use n drop(2) in \<open>auto intro!: less(1)\<close>)
    then show ?thesis using drop unfolding n_def by (subst pump_loop.simps) (simp add: Let_def)
  qed
qed

lemma pump_loop_shrinks: "post (\<lambda>_. shrinks c) (\<lambda>_. False) (pump_loop K pd c)"
proof (rule pump_loop_post)
  show "shrinks c c" by (simp add: shrinks_def)
next
  fix pd c' s n assume *: "shrinks c c'" and n: "n \<le> length (recv_buf (h2io c'))"
  show "post (\<lambda>ok. shrinks c) (\<lambda>_. False) (pump_deliver K (pd_stream_id pd) n c')"
    by (rule post_mono [OF pump_deliver_shrinks [OF n]]) (use * in \<open>auto intro: shrinks_trans\<close>)
next
  fix pd c' n assume *: "shrinks c c'" and n: "n \<le> length (recv_buf (h2io c'))"
  show "post (\<lambda>_. shrinks c) (\<lambda>_. False) (pump_discard K n c')"
    by (rule post_mono [OF pump_discard_shrinks [OF n]]) (use * in \<open>auto intro: shrinks_trans\<close>)
qed

lemma pump_shrinks:
  "post (\<lambda>_ c'. length (recv_buf (h2io c')) \<le> length (recv_buf (h2io c))) (\<lambda>_. False) (pump_partial_data K c)"
proof (cases "partial c")
  case (Some pd)
  show ?thesis
    unfolding pump_partial_data_def Some option.case
    by (rule post_sbind [OF pump_loop_shrinks])
       (auto simp: shrinks_def pump_padding_def pump_finish_def Let_def drain_post with_stream_def h2_push_event_def)
qed (simp add: pump_partial_data_def)

lemma fst_sbind: "R (fst p) \<Longrightarrow> (\<And>s x. p = (s, Ok x) \<Longrightarrow> R s \<Longrightarrow> R (fst (f s x))) \<Longrightarrow> R (fst (sbind p f))"
  by (cases p; cases "snd p") auto

lemma quiet_fst: "quiet c p \<Longrightarrow> same_in c (fst p)"
  by (cases p; cases "snd p") auto

lemma same_in_on_io: "quiet c' p \<Longrightarrow> same_in c c' \<Longrightarrow> same_in c (fst p)"
  by (rule same_in_trans [OF _ quiet_fst])

lemma append_headers_quiet: "quiet c (append_headers K sid fragment c)"
  unfolding append_headers_def
  by (rule quiet_sbind [OF quiet_attempt [OF reserve_quiet]]) simp

lemma ensure_stream_same: "same_in a (fst (ensure_stream K sid c)) = same_in a c"
  by (auto simp: ensure_stream_def Let_def)

lemma on_headers_open_same: "same_in c (fst (on_headers_open K sid fragment es eh c))"
proof -
  obtain c1 b where e: "ensure_stream K sid (c\<lparr>last_peer_stream_id := max (last_peer_stream_id c) sid\<rparr>) = (c1, b)" by fastforce
  have "same_in c c1"
    using ensure_stream_same [of c K sid "c\<lparr>last_peer_stream_id := max (last_peer_stream_id c) sid\<rparr>"] by (simp add: e)
  then show ?thesis
    using e unfolding on_headers_open_def Let_def
    by (auto split: bool.splits intro!: fst_sbind [of "same_in c"] same_in_on_io [OF append_headers_quiet])
qed

lemma on_headers_same: "same_in c (fst (on_headers K flags sid payload_len c))"
  unfolding on_headers_def on_fragment_def skip_block_def Let_def
  by (auto intro!: fst_sbind [of "same_in c"] same_in_trans [OF _ on_headers_open_same] split: prod.splits)

lemma on_settings_same: "same_in c (fst (on_settings K flags sid payload_len c))"
proof -
  have "same_in c (fst (send_settings_ack K c'))" if "same_in c c'" for c'
    unfolding send_settings_ack_def using that by (rule same_in_on_io [OF queue_frame_quiet])
  then have "same_in c (fst (on_settings_new K payload_len c))"
    unfolding on_settings_new_def settle_settings_def Let_def
    by (auto intro!: fst_sbind [of "same_in c"] split: prod.splits)
  then show ?thesis by (auto simp: on_settings_def on_settings_ack_def Let_def)
qed

lemma on_frame_same: "same_in c (fst (on_frame K ty flags sid payload_len c))"
proof -
  have "same_in c (fst (on_window_update sid payload_len c))"
    unfolding on_window_update_def Let_def
    by (auto intro!: fst_sbind [of "same_in c"] split: prod.splits option.splits)
  moreover have "same_in c (fst (on_ping K flags sid payload_len c))"
    unfolding on_ping_def send_ping_ack_def
    by (auto intro!: fst_sbind [of "same_in c"] same_in_on_io [OF queue_frame_quiet])
  moreover have "same_in c (fst (on_goaway K sid payload_len c))"
    unfolding on_goaway_def by (auto intro!: fst_sbind [of "same_in c"])
  moreover have "same_in c (fst (on_rst_stream K sid payload_len c))"
  proof -
    have "same_in c (fst (send_window_update K 0 n c'))" if "same_in c c'" for n c'
      using post_mono [OF send_window_update_quiet, of c' "\<lambda>_. same_in c'" "same_in c'"] that by (intro same_in_on_io) auto
    then show ?thesis
      unfolding on_rst_stream_def Let_def by (auto intro!: fst_sbind [of "same_in c"])
  qed
  moreover have "same_in c (fst (on_continuation K flags sid payload_len c))"
    unfolding on_continuation_def Let_def
    by (auto intro!: fst_sbind [of "same_in c"] same_in_on_io [OF append_headers_quiet])
  ultimately show ?thesis
    by (auto simp: on_frame_def on_headers_same on_settings_same)
qed

definition loop_size :: "h2_sys \<Rightarrow> nat" where
  "loop_size c = 2 * length (recv_buf (h2io c)) + (if partial c \<noteq> None then 1 else 0)"

lemma on_data_shrinks:
  "on_data flags sid payload_len c = (c', Ok True) \<Longrightarrow> length (recv_buf (h2io c')) + 9 \<le> length (recv_buf (h2io c))"
  unfolding on_data_def accept_data_def Let_def
  by (auto simp: sbind_eq_Ok drain_post not_less split: if_splits prod.splits)

lemma recv_turn_progress:
  assumes "recv_turn K c = (c', Ok True)"
  shows "loop_size c' < loop_size c"
proof (cases "partial c")
  case None
  from assms None obtain hdr where l: "\<not> length (recv_buf (h2io c)) < 9" and h: "decode_frame_header (recv_buf (h2io c)) = Ok hdr"
    by (cases "decode_frame_header (recv_buf (h2io c))") (auto simp: recv_turn_def split: if_splits)
  show ?thesis
  proof (cases "hd_type hdr = FRAME_DATA")
    case True
    with assms None l h have "on_data (hd_flags hdr) (hd_stream_id hdr) (hd_length hdr) c = (c', Ok True)"
      by (auto simp: recv_turn_def Let_def split: if_splits)
    from on_data_shrinks [OF this] show ?thesis by (auto simp: loop_size_def)
  next
    case False
    let ?f = "on_frame K (hd_type hdr) (hd_flags hdr) (hd_stream_id hdr) (hd_length hdr) c"
    from assms None l h False obtain c1 where f: "?f = (c1, Ok ())" and d: "drain_recv (9 + hd_length hdr) c1 = (c', Ok ())"
      by (auto simp: recv_turn_def Let_def sbind_eq_Ok split: if_splits)
    from on_frame_same [of c K "hd_type hdr" "hd_flags hdr" "hd_stream_id hdr" "hd_length hdr"] f
    have "same_in c c1" by simp
    then show ?thesis
      using d None l by (auto simp: same_in_def loop_size_def on_io_def io_drain_recv_def split: if_splits)
  qed
next
  case (Some pd)
  with assms obtain r where "pump_partial_data K c = (c', r)" "partial c' = None" "r = Ok ()"
    by (auto simp: recv_turn_def sbind_eq_Ok)
  then show ?thesis using pump_shrinks [of c K] Some by (simp add: loop_size_def)
qed

function recv_loop :: "h2_cfg \<Rightarrow> h2_sys \<Rightarrow> h2_sys \<times> unit res" where
  "recv_loop K c =
    (case recv_turn K c of
       (c, Ok again) \<Rightarrow> if again then recv_loop K c else (c, Ok ())
     | (c, Err e) \<Rightarrow> (c, Err e)
     | (c, Panic) \<Rightarrow> (c, Panic))"
  by pat_completeness auto
termination
  by (relation "measure (loop_size \<circ> snd)") (auto dest: recv_turn_progress [OF sym])

declare recv_loop.simps [simp del]

definition validate_client_preface :: "h2_sys \<Rightarrow> h2_sys \<times> unit res" where
  "validate_client_preface c =
    sbind (c, slice_from CONNECTION_PREFACE (preface_bytes_seen c)) (\<lambda>c remaining_preface.
      let check_len = min (length remaining_preface) (length (recv_buf (h2io c)))
      in if take check_len (recv_buf (h2io c)) \<noteq> take check_len remaining_preface then (c, Err InvalidState)
         else
           let c = c\<lparr>preface_bytes_seen := preface_bytes_seen c + check_len\<rparr>
           in sbind (if check_len > 0 then drain_recv check_len c else (c, Ok ())) (\<lambda>c _.
                (if preface_bytes_seen c \<ge> length CONNECTION_PREFACE then c\<lparr>preface_validated := True\<rparr> else c, Ok ())))"

definition h2_process_recv :: "h2_cfg \<Rightarrow> h2_sys \<Rightarrow> h2_sys \<times> unit res" where
  "h2_process_recv K c =
    sbind (if role c = Server \<and> \<not> preface_validated c then validate_client_preface c else (c, Ok ())) (\<lambda>c _.
      if role c = Server \<and> \<not> preface_validated c then (c, Ok ())
      else sbind (recv_loop K c) (\<lambda>c _. (c\<lparr>streams := filter retained (streams c)\<rparr>, Ok ())))"

definition h2_feed_data :: "h2_cfg \<Rightarrow> bytes \<Rightarrow> h2_sys \<Rightarrow> h2_sys \<times> unit res" where
  "h2_feed_data K data c =
    sbind (h2_generate_output K c) (\<lambda>c _.
      if length (recv_buf (h2io c)) + length data > BUF K
      then (c, Err (BufferTooSmall (length (recv_buf (h2io c)) + length data)))
      else
        sbind (on_io (buf_try_reserve (length data)) c) (\<lambda>c _.
          h2_process_recv K (c\<lparr>h2io := (h2io c)\<lparr>recv_buf := recv_buf (h2io c) @ data\<rparr>\<rparr>)))"

section \<open>The application's calls\<close>

text \<open>
  The header block on the stack first, in the send buffer itself when it outgrows the scratch array. A
  failing encoder leaves the tail of the send buffer with what it wrote so far; the codec model does not
  describe these bytes, so \<open>junk\<close> stands for them.
\<close>

definition encode_headers_block ::
  "h2_cfg \<Rightarrow> bytes \<Rightarrow> (bytes \<times> bytes) list \<Rightarrow> h2_sys \<Rightarrow> h2_sys \<times> nat res" where
  "encode_headers_block K junk headers c =
    (let hdr_start = length (send_buf (h2io c))
     in case hpack_encode headers (replicate HEADERS_SCRATCH 0) of
          Ok (scratch, n) \<Rightarrow>
            if hdr_start + 9 + n > BUF K then (c, Err (BufferTooSmall (hdr_start + 9 + n)))
            else
              sbind (on_io (buf_try_reserve (9 + n)) c) (\<lambda>c _.
              sbind (c, slice scratch 0 n) (\<lambda>c block.
                (c\<lparr>h2io := (h2io c)\<lparr>send_buf := send_buf (h2io c) @ replicate 9 0 @ block\<rparr>\<rparr>, Ok n)))
        | Err (BufferTooSmall _) \<Rightarrow>
            sbind (on_io (buf_try_reserve (BUF K - hdr_start)) c) (\<lambda>c _.
              let encode_start = hdr_start + 9;
                  max_hpack = BUF K - encode_start;
                  front = send_buf (h2io c) @ replicate 9 0
              in case hpack_encode headers (replicate max_hpack 0) of
                   Ok (tail, n) \<Rightarrow> (c\<lparr>h2io := (h2io c)\<lparr>send_buf := take (encode_start + n) (front @ tail)\<rparr>\<rparr>, Ok n)
                 | Err e \<Rightarrow> (c\<lparr>h2io := (h2io c)\<lparr>send_buf := front @ take max_hpack (junk @ replicate max_hpack 0)\<rparr>\<rparr>, Err e)
                 | Panic \<Rightarrow> (c, Panic))
        | Err e \<Rightarrow> (c, Err e)
        | Panic \<Rightarrow> (c, Panic))"

text \<open>\<^verbatim>\<open>encode_frame_header(&hdr, &mut io.send_buf[start..start + 9])\<close>.\<close>

definition patch_header :: "h2_frame_header \<Rightarrow> nat \<Rightarrow> h2_sys \<Rightarrow> h2_sys \<times> unit res" where
  "patch_header hdr start c =
    (let b = send_buf (h2io c)
     in sbind (c, slice b start (start + 9)) (\<lambda>c window.
        sbind (c, encode_frame_header hdr window) (\<lambda>c window.
          (c\<lparr>h2io := (h2io c)\<lparr>send_buf := take start b @ window @ drop (start + 9) b\<rparr>\<rparr>, Ok ()))))"

definition h2_send_headers ::
  "h2_cfg \<Rightarrow> bytes \<Rightarrow> nat \<Rightarrow> (bytes \<times> bytes) list \<Rightarrow> bool \<Rightarrow> h2_sys \<Rightarrow> h2_sys \<times> unit res" where
  "h2_send_headers K junk sid headers end_stream c =
    (case ensure_stream K sid c of
       (c, False) \<Rightarrow> (c, Err InvalidState)
     | (c, True) \<Rightarrow>
         let hdr_start = length (send_buf (h2io c))
         in if hdr_start + 9 > BUF K then (c, Err (BufferTooSmall (hdr_start + 9)))
            else
              sbind (encode_headers_block K junk headers c) (\<lambda>c hpack_len.
                let flags = (if end_stream then 0 OR FLAG_END_STREAM else 0) OR FLAG_END_HEADERS
                in sbind (patch_header \<lparr>hd_length = hpack_len mod 2 ^ 32, hd_type = FRAME_HEADERS, hd_flags = flags,
                     hd_stream_id = sid\<rparr> hdr_start c) (\<lambda>c _.
                   ((with_stream sid (\<lambda>s.
                       let s = (if hs_state s = Idle then hs_open s else s)
                       in if end_stream then hs_send_end_stream s else s) c)\<lparr>sent_since_tick := True\<rparr>, Ok ()))))"

definition h2_open_stream ::
  "h2_cfg \<Rightarrow> bytes \<Rightarrow> (bytes \<times> bytes) list \<Rightarrow> bool \<Rightarrow> h2_sys \<Rightarrow> h2_sys \<times> nat res" where
  "h2_open_stream K junk headers end_stream c =
    (if next_stream_id c > 0x7fffffff then (c, Err StreamLimitExhausted)
     else
       let sid = next_stream_id c
       in sbind (h2_send_headers K junk sid headers end_stream (c\<lparr>next_stream_id := u64_add sid 2\<rparr>)) (\<lambda>c _. (c, Ok sid)))"

definition h2_send_capacity :: "nat \<Rightarrow> h2_sys \<Rightarrow> nat option" where
  "h2_send_capacity sid c =
    (case get_stream sid c of
       None \<Rightarrow> None
     | Some s \<Rightarrow>
         if \<not> hs_can_send s then None
         else Some (min (min (nat (fc_window (conn_send_fc c))) (nat (hs_send_window s))) (max_frame_size (peer_settings c))))"

text \<open>The number of bytes a call may send now.\<close>

definition sendable :: "nat \<Rightarrow> bytes \<Rightarrow> h2_sys \<Rightarrow> nat" where
  "sendable sid data c =
    (let max_by_conn = nat (fc_window (conn_send_fc c));
         max_by_stream = (case get_stream sid c of Some s \<Rightarrow> nat (hs_send_window s) | None \<Rightarrow> 0);
         max_frame = max_frame_size (peer_settings c)
     in min (min (min (length data) max_by_conn) max_by_stream) max_frame)"

text \<open>The DATA frame goes to the send buffer: room, nine bytes for the header, the header, the payload.\<close>

definition queue_data :: "h2_cfg \<Rightarrow> nat \<Rightarrow> bytes \<Rightarrow> bool \<Rightarrow> h2_sys \<Rightarrow> h2_sys \<times> unit res" where
  "queue_data K sid to_send actual_end c =
    (let hdr_start = length (send_buf (h2io c))
     in sbind (on_io (buf_try_reserve (9 + length to_send)) c) (\<lambda>c _.
        sbind (patch_header \<lparr>hd_length = length to_send mod 2 ^ 32, hd_type = FRAME_DATA,
                 hd_flags = (if actual_end then FLAG_END_STREAM else 0), hd_stream_id = sid\<rparr> hdr_start
                 (c\<lparr>h2io := (h2io c)\<lparr>send_buf := send_buf (h2io c) @ replicate 9 0\<rparr>\<rparr>)) (\<lambda>c _.
          (c\<lparr>h2io := (h2io c)\<lparr>send_buf := send_buf (h2io c) @ to_send\<rparr>\<rparr>, Ok ()))))"

definition commit_sent :: "nat \<Rightarrow> bytes \<Rightarrow> h2_sys \<Rightarrow> h2_sys \<times> unit res" where
  "commit_sent sid to_send c =
    (if to_send \<noteq> [] then
       case fc_consume (length to_send mod 2 ^ 32) (conn_send_fc c) of (fc, r) \<Rightarrow>
       sbind (c\<lparr>conn_send_fc := fc\<rparr>, r) (\<lambda>c _.
         (with_stream sid (\<lambda>s. s\<lparr>hs_send_window := as_i32 (hs_send_window s - int (length to_send))\<rparr>) c, Ok ()))
     else (c, Ok ()))"

definition h2_send_data :: "h2_cfg \<Rightarrow> nat \<Rightarrow> bytes \<Rightarrow> bool \<Rightarrow> h2_sys \<Rightarrow> h2_sys \<times> nat res" where
  "h2_send_data K sid data end_stream c =
    (if (case get_stream sid c of Some s \<Rightarrow> \<not> hs_can_send s | None \<Rightarrow> False) then (c, Err InvalidState)
     else
       let can_send = sendable sid data c
       in if can_send = 0 \<and> data \<noteq> [] then (c, Err WouldBlock)
          else
            let to_send = (if data = [] then data else take can_send data);
                actual_end = (end_stream \<and> length to_send = length data);
                total_needed = 9 + length to_send
            in if length (send_buf (h2io c)) + total_needed > BUF K
               then (c, Err (BufferTooSmall (length (send_buf (h2io c)) + total_needed)))
               else
                 sbind (queue_data K sid to_send actual_end c) (\<lambda>c _.
                 sbind (commit_sent sid to_send c) (\<lambda>c _.
                   let c = (if actual_end then with_stream sid hs_send_end_stream c else c)
                   in (c\<lparr>sent_since_tick := True\<rparr>, Ok (length to_send)))))"

definition h2_recv_headers :: "h2_cfg \<Rightarrow> nat \<Rightarrow> h2_sys \<Rightarrow> h2_sys \<times> (bytes \<times> bytes) list res" where
  "h2_recv_headers K sid c =
    (case get_stream sid c of
       None \<Rightarrow> (c, Err InvalidState)
     | Some s \<Rightarrow>
         if \<not> hs_headers_received s then (c, Err WouldBlock)
         else case hpack_decode (USIZE K) (hs_headers_data s) (decoder c) of
           ((d, out), r) \<Rightarrow>
             sbind (c\<lparr>decoder := d\<rparr>, r) (\<lambda>c _.
               (with_stream sid (\<lambda>s. s\<lparr>hs_headers_data := [], hs_headers_received := False\<rparr>) c, Ok out)))"

definition h2_recv_body :: "h2_cfg \<Rightarrow> nat \<Rightarrow> nat \<Rightarrow> h2_sys \<Rightarrow> h2_sys \<times> (bytes \<times> bool) res" where
  "h2_recv_body K sid buf_len c =
    (case get_stream sid c of
       None \<Rightarrow> (c, Err InvalidState)
     | Some s \<Rightarrow>
         if hs_data_buf s = [] then
           if hs_fin_received s then (with_stream sid (\<lambda>s. s\<lparr>hs_data_available := False\<rparr>) c, Ok ([], True))
           else (c, Err WouldBlock)
         else
           let copy_len = min (length (hs_data_buf s)) buf_len;
               chunk = take copy_len (hs_data_buf s);
               rest = drop copy_len (hs_data_buf s);
               fin = (rest = [] \<and> hs_fin_received s);
               c = with_stream sid (\<lambda>s. s\<lparr>hs_data_buf := rest, hs_data_available := (rest \<noteq> [])\<rparr>) c
           in sbind (if copy_len > 0 then
                       sbind (send_window_update K 0 (copy_len mod 2 ^ 32) c) (\<lambda>c _.
                         send_window_update K sid (copy_len mod 2 ^ 32) c)
                     else (c, Ok ())) (\<lambda>c _. (c, Ok (chunk, fin))))"

definition h2_discard_body :: "h2_cfg \<Rightarrow> nat \<Rightarrow> nat \<Rightarrow> h2_sys \<Rightarrow> h2_sys \<times> unit res" where
  "h2_discard_body K sid error_code c =
    (case get_stream sid c of
       None \<Rightarrow> (c, Err InvalidState)
     | Some s \<Rightarrow>
         let c = c\<lparr>partial := map_option (\<lambda>pd. if pd_stream_id pd = sid then pd\<lparr>pd_deliver := False\<rparr> else pd) (partial c)\<rparr>;
             buffered = length (hs_data_buf s) mod 2 ^ 32;
             send_rst = \<not> hs_fin_received s;
             c = with_stream sid (\<lambda>s.
                   let s = s\<lparr>hs_data_buf := [], hs_data_available := False, hs_headers_data := [], hs_headers_received := False\<rparr>
                   in hs_reset (if send_rst then s\<lparr>hs_pending_rst := Some error_code\<rparr> else s)) c
         in sbind (if buffered > 0 then send_window_update K 0 buffered c else (c, Ok ())) (\<lambda>c _.
              if send_rst then flush_window_updates K c else (c, Ok ())))"

section \<open>Timeouts\<close>

definition h2_set_timeouts :: "timeout_config \<Rightarrow> nat \<Rightarrow> h2_sys \<Rightarrow> h2_sys" where
  "h2_set_timeouts cfg now c = c\<lparr>timeouts := cfg, last_activity := now, connection_start := now\<rparr>"

definition h2_next_timeout :: "h2_sys \<Rightarrow> nat option" where
  "h2_next_timeout c =
    (if h2_state c = Closed then None
     else
       let earliest = None;
           earliest = (if \<not> headers_phase_complete c then
                         case header_timeout_us (timeouts c) of
                           Some hdr_us \<Rightarrow> earlier earliest (u64_saturating_add (connection_start c) hdr_us)
                         | None \<Rightarrow> earliest
                       else earliest)
       in case idle_timeout_us (timeouts c) of
            Some idle_us \<Rightarrow> earlier earliest (u64_saturating_add (last_activity c) idle_us)
          | None \<Rightarrow> earliest)"

definition h2_time_out :: "h2_cfg \<Rightarrow> h2_sys \<Rightarrow> h2_sys \<times> unit res" where
  "h2_time_out K c = sbind (attempt (h2_send_goaway K 0 c)) (\<lambda>c _. (h2_push_event K Timeout (c\<lparr>h2_state := Closed\<rparr>), Ok ()))"

definition h2_handle_timeout :: "h2_cfg \<Rightarrow> nat \<Rightarrow> h2_sys \<Rightarrow> h2_sys \<times> unit res" where
  "h2_handle_timeout K now c =
    (if h2_state c = Closed then (c, Ok ())
     else
       let c = (if sent_since_tick c then c\<lparr>last_activity := now\<rparr> else c)\<lparr>sent_since_tick := False\<rparr>
       in if \<not> headers_phase_complete c \<and>
             (case header_timeout_us (timeouts c) of
                Some hdr_us \<Rightarrow> now \<ge> u64_saturating_add (connection_start c) hdr_us | None \<Rightarrow> False)
          then h2_time_out K c
          else if (case idle_timeout_us (timeouts c) of
                     Some idle_us \<Rightarrow> now \<ge> u64_saturating_add (last_activity c) idle_us | None \<Rightarrow> False)
          then h2_time_out K c
          else (c, Ok ()))"

definition h2_note_recv_activity :: "nat \<Rightarrow> h2_sys \<Rightarrow> h2_sys" where
  "h2_note_recv_activity now c = c\<lparr>last_activity := now\<rparr>"

definition h2_feed_data_timed :: "h2_cfg \<Rightarrow> bytes \<Rightarrow> nat \<Rightarrow> h2_sys \<Rightarrow> h2_sys \<times> unit res" where
  "h2_feed_data_timed K data now c = h2_feed_data K data (if data \<noteq> [] then c\<lparr>last_activity := now\<rparr> else c)"

definition h2_is_closed :: "h2_sys \<Rightarrow> bool" where
  "h2_is_closed c \<longleftrightarrow> h2_state c = Closed \<or> h2_state c = Closing"

definition h2_is_established :: "h2_sys \<Rightarrow> bool" where
  "h2_is_established c \<longleftrightarrow> h2_state c = Active"

end
