(* ===== verification/H2_Safety.thy ===== *)
theory H2_Safety
  imports H2_Connection
begin

text \<open>
  Invariants of the HTTP/2 connection over arbitrary input and arbitrary calls: the stream table and all
  buffers stay within their bounds, no call panics, and the connection-level receive window is
  conserved: every byte of it is either available to the peer, waiting to be credited, buffered for the
  application, or part of a DATA frame in progress.
\<close>

section \<open>The invariant\<close>

definition buffered :: "h2_stream list \<Rightarrow> nat" where
  "buffered ss = sum_list (map (\<lambda>s. length (hs_data_buf s)) ss)"

definition in_flight :: "h2_sys \<Rightarrow> nat" where
  "in_flight c = (case partial c of None \<Rightarrow> 0 | Some pd \<Rightarrow> pd_data_remaining pd)"

definition stream_ok :: "h2_cfg \<Rightarrow> h2_stream \<Rightarrow> bool" where
  "stream_ok K s \<longleftrightarrow> length (hs_headers_data s) \<le> HDRBUF K \<and> length (hs_data_buf s) \<le> DATABUF K \<and>
    (hs_data_buf s \<noteq> [] \<longrightarrow> hs_data_available s \<and> hs_id s \<noteq> 0)"

definition table_ok :: "h2_cfg \<Rightarrow> h2_stream list \<Rightarrow> bool" where
  "table_ok K ss \<longleftrightarrow> distinct (map hs_id ss) \<and> length ss \<le> MAX_STREAMS K \<and> list_all (stream_ok K) ss"

definition io_ok :: "h2_cfg \<Rightarrow> h2_sys \<Rightarrow> bool" where
  "io_ok K c \<longleftrightarrow> length (recv_buf (h2io c)) \<le> BUF K \<and> length (send_buf (h2io c)) \<le> BUF K \<and>
    send_offset c \<le> length (send_buf (h2io c))"

text \<open>\<open>r\<close> bytes are in the hands of the call in progress.\<close>

definition ledger :: "nat \<Rightarrow> h2_sys \<Rightarrow> bool" where
  "ledger r c \<longleftrightarrow> 0 \<le> fc_window (conn_recv_fc c) \<and>
    fc_window (conn_recv_fc c) + int (pending_conn_credit c + buffered (streams c) + in_flight c + r)
      = DEFAULT_CONNECTION_WINDOW_SIZE"

definition queue_ok :: "h2_cfg \<Rightarrow> h2_sys \<Rightarrow> bool" where
  "queue_ok K c \<longleftrightarrow> (0 < EVENTS K \<longrightarrow> length (events c) \<le> EVENTS K) \<and> table_inv (decoder c) \<and>
    preface_bytes_seen c \<le> length CONNECTION_PREFACE \<and> (\<forall>pd. partial c = Some pd \<longrightarrow> pd_stream_id pd \<noteq> 0)"

definition h2_inv :: "h2_cfg \<Rightarrow> nat \<Rightarrow> h2_sys \<Rightarrow> bool" where
  "h2_inv K r c \<longleftrightarrow> table_ok K (streams c) \<and> io_ok K c \<and> ledger r c \<and> queue_ok K c"

abbreviation keeps :: "h2_cfg \<Rightarrow> nat \<Rightarrow> h2_sys \<times> 'a res \<Rightarrow> bool" where
  "keeps K r \<equiv> post (\<lambda>_. h2_inv K r) (h2_inv K r)"

lemmas inv_defs = h2_inv_def io_ok_def ledger_def queue_ok_def in_flight_def

section \<open>Single updates\<close>

lemma buffered_simps [simp]: "buffered [] = 0" "buffered (s # ss) = length (hs_data_buf s) + buffered ss"
  "buffered (ss @ ts) = buffered ss + buffered ts"
  by (simp_all add: buffered_def)

lemma push_event_inv [simp]: "h2_inv K r c \<Longrightarrow> h2_inv K r (h2_push_event K e c)"
  by (auto simp: inv_defs h2_push_event_def)

lemma find_stream_Some: "h2_find_stream sid ss = Some s \<Longrightarrow> s \<in> set ss \<and> hs_id s = sid"
  by (auto simp: h2_find_stream_def find_Some_iff)

lemma modify_ids: "(\<And>s. hs_id (f s) = hs_id s) \<Longrightarrow> map hs_id (modify_stream sid f ss) = map hs_id ss"
  by (induction ss) auto

lemma modify_length [simp]: "length (modify_stream sid f ss) = length ss"
  by (induction ss) auto

lemma modify_none: "h2_find_stream sid ss = None \<Longrightarrow> modify_stream sid f ss = ss"
  by (induction ss) (auto simp: h2_find_stream_def split: if_splits)

lemma modify_all:
  "list_all P ss \<Longrightarrow> (\<And>s. h2_find_stream sid ss = Some s \<Longrightarrow> P (f s)) \<Longrightarrow> list_all P (modify_stream sid f ss)"
  by (induction ss) (auto simp: h2_find_stream_def split: if_splits)

lemma modify_buffered:
  "h2_find_stream sid ss = Some s \<Longrightarrow>
   buffered (modify_stream sid f ss) + length (hs_data_buf s) = buffered ss + length (hs_data_buf (f s))"
  by (induction ss) (auto simp: h2_find_stream_def split: if_splits)

text \<open>Changing one stream, with the bytes that enter or leave its buffer booked to the call in progress.\<close>

lemma with_stream_inv:
  assumes "h2_inv K r c" and "get_stream sid c = Some s" and "\<And>s. hs_id (f s) = hs_id s" and "stream_ok K (f s)"
    and "r + length (hs_data_buf s) = r' + length (hs_data_buf (f s))"
  shows "h2_inv K r' (with_stream sid f c)"
proof -
  have "table_ok K (modify_stream sid f (streams c))"
    using assms by (auto simp: h2_inv_def table_ok_def modify_ids intro!: modify_all)
  moreover have "ledger r' (with_stream sid f c)"
    using assms(1,5) modify_buffered [OF assms(2), of f] by (auto simp: inv_defs with_stream_def)
  ultimately show ?thesis using assms(1) by (auto simp: inv_defs with_stream_def)
qed

lemma with_stream_quiet:
  assumes "h2_inv K r c" and "\<And>s. hs_id (f s) = hs_id s"
    and "\<And>s. stream_ok K s \<Longrightarrow> stream_ok K (f s)" and "\<And>s. hs_data_buf (f s) = hs_data_buf s"
  shows "h2_inv K r (with_stream sid f c)"
proof (cases "get_stream sid c")
  case None
  then show ?thesis using assms(1) by (simp add: with_stream_def modify_none)
next
  case (Some s)
  then have "stream_ok K s" using assms(1) find_stream_Some [OF Some] by (auto simp: h2_inv_def table_ok_def list_all_iff)
  then show ?thesis using with_stream_inv [OF assms(1) Some assms(2)] assms(3,4) by simp
qed

lemma get_stream_ok: "h2_inv K r c \<Longrightarrow> get_stream sid c = Some s \<Longrightarrow> stream_ok K s \<and> length (hs_data_buf s) \<le> buffered (streams c)"
  by (auto simp: h2_inv_def table_ok_def list_all_iff buffered_def dest!: find_stream_Some intro: member_le_sum_list)

text \<open>Updates of fields the invariant does not read.\<close>

lemma h2_inv_upd [simp]:
  "h2_inv K r (c\<lparr>h2_state := a\<rparr>) = h2_inv K r c" "h2_inv K r (c\<lparr>peer_settings := b\<rparr>) = h2_inv K r c"
  "h2_inv K r (c\<lparr>conn_send_fc := d\<rparr>) = h2_inv K r c" "h2_inv K r (c\<lparr>next_stream_id := e\<rparr>) = h2_inv K r c"
  "h2_inv K r (c\<lparr>last_peer_stream_id := e\<rparr>) = h2_inv K r c" "h2_inv K r (c\<lparr>continuation_stream_id := g\<rparr>) = h2_inv K r c"
  "h2_inv K r (c\<lparr>settings_sent := h\<rparr>) = h2_inv K r c" "h2_inv K r (c\<lparr>settings_ack_received := h\<rparr>) = h2_inv K r c"
  "h2_inv K r (c\<lparr>peer_settings_received := h\<rparr>) = h2_inv K r c" "h2_inv K r (c\<lparr>preface_sent := h\<rparr>) = h2_inv K r c"
  "h2_inv K r (c\<lparr>preface_validated := h\<rparr>) = h2_inv K r c" "h2_inv K r (c\<lparr>goaway_sent := h\<rparr>) = h2_inv K r c"
  "h2_inv K r (c\<lparr>timeouts := t\<rparr>) = h2_inv K r c" "h2_inv K r (c\<lparr>last_activity := e\<rparr>) = h2_inv K r c"
  "h2_inv K r (c\<lparr>sent_since_tick := h\<rparr>) = h2_inv K r c" "h2_inv K r (c\<lparr>connection_start := e\<rparr>) = h2_inv K r c"
  "h2_inv K r (c\<lparr>headers_phase_complete := h\<rparr>) = h2_inv K r c"
  by (simp_all add: inv_defs)

lemma partial_relabel [simp]:
  "(\<And>pd. pd_data_remaining (g pd) = pd_data_remaining pd \<and> pd_stream_id (g pd) = pd_stream_id pd) \<Longrightarrow>
   h2_inv K r (c\<lparr>partial := map_option g (partial c)\<rparr>) = h2_inv K r c"
  by (cases "partial c") (simp_all add: inv_defs)

lemma sweep_inv: "h2_inv K r c \<Longrightarrow> h2_inv K r (c\<lparr>streams := filter retained (streams c)\<rparr>)"
proof -
  assume c: "h2_inv K r c"
  have "buffered (filter retained ss) = buffered ss" if "list_all (stream_ok K) ss" for ss
    using that by (induction ss) (auto simp: retained_def stream_ok_def)
  moreover have "table_ok K (filter retained (streams c))"
    using c le_trans [OF length_filter_le]
    by (auto simp: h2_inv_def table_ok_def list_all_iff intro: distinct_map_filter)
  ultimately show ?thesis using c by (auto simp: inv_defs table_ok_def)
qed

section \<open>Output\<close>

lemma queued_inv: "h2_inv K r c \<Longrightarrow> queued K (h2io c) i \<Longrightarrow> h2_inv K r (c\<lparr>h2io := i\<rparr>)"
  by (auto simp: inv_defs queued_def)

lemma on_io_keeps:
  "h2_inv K r c \<Longrightarrow> post (\<lambda>_. queued K (h2io c)) (queued K (h2io c)) (f (h2io c)) \<Longrightarrow> keeps K r (on_io f c)"
  by (rule post_on_io) (auto elim!: post_mono simp: queued_inv)

lemma reserve_keeps: "h2_inv K r c \<Longrightarrow> keeps K r (on_io (buf_try_reserve n) c)"
  by (rule on_io_keeps) (auto intro!: reserve_post [THEN post_mono])

lemma queue_frame_keeps: "h2_inv K r c \<Longrightarrow> keeps K r (on_io (io_queue_frame K k f) c)"
  by (erule on_io_keeps) (rule queue_frame_post)

lemma queue_send_keeps: "h2_inv K r c \<Longrightarrow> keeps K r (queue_send K data c)"
  by (erule on_io_keeps) (rule queue_send_post)

lemma replenish_exact: "fc_window fc + int n \<le> 65535 \<Longrightarrow> 0 \<le> fc_window fc \<Longrightarrow> fc_window (fst (fc_replenish n fc)) = fc_window fc + int n"
  by (simp add: fc_replenish_def Let_def)

lemma flush_conn_keeps: "h2_inv K r c \<Longrightarrow> post (\<lambda>_. h2_inv K r) (\<lambda>_. False) (flush_conn K c)"
  unfolding flush_conn_def Let_def
proof (intro post_if)
  assume c: "h2_inv K r c" and "0 < pending_conn_credit c"
  let ?Q = "\<lambda>c'. h2_inv K r c' \<and> pending_conn_credit c' = pending_conn_credit c"
  have "post (\<lambda>_. ?Q) ?Q (on_io (io_queue_frame K 16 (H2WindowUpdate 0 (pending_conn_credit c))) c)"
    by (rule post_on_io, rule post_mono [OF queue_frame_post]) (use c in \<open>auto intro: queued_inv\<close>)
  then show "post (\<lambda>_. h2_inv K r) (\<lambda>_. False)
      (sbind (attempt (on_io (io_queue_frame K 16 (H2WindowUpdate 0 (pending_conn_credit c))) c)) (\<lambda>c' ok.
        if ok then (c'\<lparr>conn_recv_fc := fst (fc_replenish (pending_conn_credit c) (conn_recv_fc c')), pending_conn_credit := 0\<rparr>, Ok ())
        else (c', Ok ())))"
    by (rule post_sbind [OF post_attempt]) (auto simp: inv_defs DEFAULT_CONNECTION_WINDOW_SIZE_def replenish_exact)
qed simp

lemma kept_table:
  assumes "list_all2 kept_stream ss ss'"
  shows "table_ok K ss' = table_ok K ss" and "buffered ss' = buffered ss"
proof -
  have "map hs_id ss' = map hs_id ss \<and> length ss' = length ss \<and> buffered ss' = buffered ss \<and>
      list_all (stream_ok K) ss' = list_all (stream_ok K) ss"
    using assms by (induction rule: list_all2_induct) (auto simp: kept_stream_def stream_ok_def)
  then show "table_ok K ss' = table_ok K ss" "buffered ss' = buffered ss" by (simp_all add: table_ok_def)
qed

lemma flush_keeps: "h2_inv K r c \<Longrightarrow> post (\<lambda>_. h2_inv K r) (\<lambda>_. False) (flush_window_updates K c)"
  unfolding flush_window_updates_def
proof (rule post_sbind [OF flush_conn_keeps])
  fix c' assume c': "h2_inv K r c'"
  obtain i ss x where f: "flush_streams K (h2io c') (streams c') = ((i, ss), x)" by (metis surj_pair)
  with flush_streams_post [of K "h2io c'" "streams c'"]
  have *: "x = Ok ()" "queued K (h2io c') i" "list_all2 kept_stream (streams c') ss" by (cases x; simp)+
  then show "post (\<lambda>_. h2_inv K r) (\<lambda>_. False)
      (case flush_streams K (h2io c') (streams c') of ((i, ss), r) \<Rightarrow> (c'\<lparr>h2io := i, streams := ss\<rparr>, r))"
    using c' f queued_inv [OF c' *(2)] kept_table [OF *(3)] by (simp add: inv_defs)
qed

text \<open>Crediting the connection takes the bytes out of the hands of the call.\<close>

lemma credit_conn_keeps:
  assumes "h2_inv K (r + n) c"
  shows "post (\<lambda>_. h2_inv K r) (\<lambda>_. False) (send_window_update K 0 n c)"
proof (cases "n = 0")
  case False
  have "h2_inv K r (c\<lparr>pending_conn_credit := u32_sat_add (pending_conn_credit c) n\<rparr>)"
    using assms by (auto simp: inv_defs u32_sat_add_def DEFAULT_CONNECTION_WINDOW_SIZE_def)
  then show ?thesis using False flush_keeps by (simp add: send_window_update_def)
qed (use assms in \<open>simp add: send_window_update_def\<close>)

lemma credit_stream_keeps:
  assumes "h2_inv K r c" and "sid \<noteq> 0"
  shows "post (\<lambda>_. h2_inv K r) (\<lambda>_. False) (send_window_update K sid n c)"
proof (cases "n = 0")
  case False
  have "h2_inv K r (with_stream sid (\<lambda>s. s\<lparr>hs_pending_recv_credit := u32_sat_add (hs_pending_recv_credit s) n\<rparr>) c)"
    by (rule with_stream_quiet [OF assms(1)]) (auto simp: stream_ok_def)
  then show ?thesis using False assms(2) flush_keeps by (simp add: send_window_update_def)
qed (use assms in \<open>simp add: send_window_update_def\<close>)

text \<open>The SETTINGS payload always fits its array.\<close>

lemma put_setting:
  assumes "off + 6 \<le> length buf"
  shows "\<exists>buf'. write_from off buf (encode_setting i v) = Ok (buf', off + 6) \<and> length buf' = length buf"
  using assms by (simp add: write_from_def encode_setting_spec setting_bytes_len)

lemma encode_params_shape: "\<exists>buf n. encode_params st (replicate 64 0) = Ok (buf, n) \<and> n \<le> length buf"
proof -
  obtain b1 where b1: "write_from 0 (replicate 64 0) (encode_setting SETTINGS_HEADER_TABLE_SIZE (header_table_size st)) = Ok (b1, 6)"
    and l1: "length b1 = 64" using put_setting [of 0 "replicate 64 0" SETTINGS_HEADER_TABLE_SIZE "header_table_size st"] by auto
  obtain b2 o2 where b2: "(if \<not> enable_push st then write_from 6 b1 (encode_setting SETTINGS_ENABLE_PUSH 0) else Ok (b1, 6)) = Ok (b2, o2)"
    and l2: "length b2 = 64" "o2 \<le> 12" using put_setting [of 6 b1 SETTINGS_ENABLE_PUSH 0] l1 by (cases "enable_push st") auto
  obtain b3 where b3: "write_from o2 b2 (encode_setting SETTINGS_MAX_CONCURRENT_STREAMS (max_concurrent_streams st)) = Ok (b3, o2 + 6)"
    and l3: "length b3 = 64" using put_setting [of o2 b2 SETTINGS_MAX_CONCURRENT_STREAMS "max_concurrent_streams st"] l2 by auto
  obtain b4 where b4: "write_from (o2 + 6) b3 (encode_setting SETTINGS_INITIAL_WINDOW_SIZE (initial_window_size st)) = Ok (b4, o2 + 12)"
    and l4: "length b4 = 64" using put_setting [of "o2 + 6" b3 SETTINGS_INITIAL_WINDOW_SIZE "initial_window_size st"] l2 l3 by auto
  obtain b5 where b5: "write_from (o2 + 12) b4 (encode_setting SETTINGS_MAX_FRAME_SIZE (max_frame_size st)) = Ok (b5, o2 + 18)"
    and l5: "length b5 = 64" using put_setting [of "o2 + 12" b4 SETTINGS_MAX_FRAME_SIZE "max_frame_size st"] l2 l4 by auto
  obtain b6 where b6: "write_from (o2 + 18) b5 (encode_setting SETTINGS_MAX_HEADER_LIST_SIZE (max_header_list_size st)) = Ok (b6, o2 + 24)"
    and l6: "length b6 = 64" using put_setting [of "o2 + 18" b5 SETTINGS_MAX_HEADER_LIST_SIZE "max_header_list_size st"] l2 l5 by auto
  show ?thesis unfolding encode_params_def b1 res_bind.simps prod.case b2 b3 b4 b5 b6 using l2 l6 by simp
qed

lemma initial_settings_keeps: "h2_inv K r c \<Longrightarrow> keeps K r (send_initial_settings K c)"
proof -
  assume c: "h2_inv K r c"
  obtain buf n where "encode_params (local_settings c) (replicate 64 0) = Ok (buf, n)" "n \<le> length buf"
    using encode_params_shape by blast
  then show ?thesis
    unfolding send_initial_settings_def using c
    by (auto intro!: post_sbind [where Q' = "\<lambda>_. h2_inv K r"] queue_frame_keeps)
qed

lemma generate_output_keeps: "h2_inv K r c \<Longrightarrow> keeps K r (h2_generate_output K c)"
  unfolding h2_generate_output_def
  by (rule post_sbind [where Q' = "\<lambda>_. h2_inv K r"])
     (auto intro!: post_if post_sbind [where Q' = "\<lambda>_. h2_inv K r"] post_attempt queue_send_keeps initial_settings_keeps
       flush_keeps [THEN post_mono])

section \<open>Input\<close>

lemma reserve_only_heap:
  "post (\<lambda>_ c'. \<exists>h. c' = c\<lparr>h2io := (h2io c)\<lparr>heap := h\<rparr>\<rparr>) (\<lambda>c'. \<exists>h. c' = c\<lparr>h2io := (h2io c)\<lparr>heap := h\<rparr>\<rparr>)
    (on_io (buf_try_reserve n) c)"
  by (rule post_on_io, rule reserve_post [THEN post_mono]) auto

lemma heap_inv [simp]: "h2_inv K r (c\<lparr>h2io := (h2io c)\<lparr>heap := h\<rparr>\<rparr>) = h2_inv K r c"
  by (simp add: inv_defs)

lemma drain_inv: "h2_inv K r c \<Longrightarrow> h2_inv K r (c\<lparr>h2io := (h2io c)\<lparr>recv_buf := drop n (recv_buf (h2io c))\<rparr>\<rparr>)"
  by (auto simp: inv_defs)

definition pumping :: "h2_cfg \<Rightarrow> partial_data \<Rightarrow> h2_sys \<Rightarrow> bool" where
  "pumping K pd c \<longleftrightarrow> h2_inv K (pd_data_remaining pd) c \<and> partial c = None \<and> pd_stream_id pd \<noteq> 0"

lemma pump_deliver_keeps:
  assumes P: "pumping K pd c" and s: "get_stream (pd_stream_id pd) c = Some s"
    and room: "length (hs_data_buf s) + n \<le> DATABUF K" "n \<le> pd_data_remaining pd" "n \<le> length (recv_buf (h2io c))"
  shows "post (\<lambda>ok c'. pumping K (if ok then pd\<lparr>pd_data_remaining := pd_data_remaining pd - n\<rparr> else pd) c') (\<lambda>_. False)
    (pump_deliver K (pd_stream_id pd) n c)"
proof -
  let ?Q = "\<lambda>c'. \<exists>h. c' = c\<lparr>h2io := (h2io c)\<lparr>heap := h\<rparr>\<rparr>"
  let ?f = "\<lambda>chunk s. s\<lparr>hs_data_buf := hs_data_buf s @ chunk, hs_data_available := True, hs_recv_window := as_i32 (hs_recv_window s - int n)\<rparr>"
  let ?chunk = "take n (recv_buf (h2io c))"
  have res: "post (\<lambda>_. ?Q) (\<lambda>_. False) (attempt (on_io (buf_try_reserve n) c))"
    by (rule post_attempt [OF reserve_only_heap])
  have "h2_inv K (pd_data_remaining pd - n) (with_stream (pd_stream_id pd) (?f ?chunk) (c\<lparr>h2io := (h2io c)\<lparr>heap := h\<rparr>\<rparr>))" for h
    using P s room get_stream_ok [of K _ c _ s]
    by (intro with_stream_inv [where r = "pd_data_remaining pd" and s = s])
       (auto simp: pumping_def stream_ok_def dest: find_stream_Some)
  then have *: "h2_inv K (pd_data_remaining pd - n)
      (h2_push_event K e ((with_stream (pd_stream_id pd) (?f ?chunk) (c\<lparr>h2io := (h2io c)\<lparr>heap := h\<rparr>\<rparr>))
        \<lparr>h2io := (h2io c)\<lparr>heap := h, recv_buf := drop n (recv_buf (h2io c))\<rparr>\<rparr>))" for h e
    using drain_inv [of K "pd_data_remaining pd - n" "with_stream (pd_stream_id pd) (?f ?chunk) (c\<lparr>h2io := (h2io c)\<lparr>heap := h\<rparr>\<rparr>)" n]
    by (intro push_event_inv) (simp add: with_stream_def)
  show ?thesis
    unfolding pump_deliver_def
  proof (rule post_sbind [OF res], rule post_if)
    fix ok c' assume "?Q c'" and "\<not> ok"
    then show "post (\<lambda>ok c'. pumping K (if ok then pd\<lparr>pd_data_remaining := pd_data_remaining pd - n\<rparr> else pd) c') (\<lambda>_. False) (c', Ok False)"
      using P by (auto simp: pumping_def)
  next
    fix ok c' assume "?Q c'" 
    then show "post (\<lambda>ok c'. pumping K (if ok then pd\<lparr>pd_data_remaining := pd_data_remaining pd - n\<rparr> else pd) c') (\<lambda>_. False)
      (sbind (c', slice (recv_buf (h2io c')) 0 n) (\<lambda>c chunk.
        sbind (drain_recv n (with_stream (pd_stream_id pd) (?f chunk) c)) (\<lambda>c _.
          (h2_push_event K (Data (pd_stream_id pd)) c, Ok True))))"
      using P room(3) * by (auto simp: pumping_def drain_post with_stream_def h2_push_event_def)
  qed
qed

lemma pump_discard_keeps:
  assumes P: "pumping K pd c" and n: "n \<le> pd_data_remaining pd" "n \<le> length (recv_buf (h2io c))"
  shows "post (\<lambda>_ c'. pumping K (pd\<lparr>pd_data_remaining := pd_data_remaining pd - n\<rparr>) c') (\<lambda>_. False) (pump_discard K n c)"
proof -
  let ?c = "c\<lparr>h2io := (h2io c)\<lparr>recv_buf := drop n (recv_buf (h2io c))\<rparr>\<rparr>"
  have "h2_inv K (pd_data_remaining pd - n + n) ?c" using P n drain_inv by (simp add: pumping_def)
  from post_conj [OF credit_conn_keeps [OF this] send_window_update_quiet [of ?c K 0 n]]
  have "post (\<lambda>_ c'. pumping K (pd\<lparr>pd_data_remaining := pd_data_remaining pd - n\<rparr>) c') (\<lambda>_. False) (send_window_update K 0 n ?c)"
    by (rule post_mono) (use P in \<open>auto simp: pumping_def same_in_def\<close>)
  then show ?thesis
    unfolding pump_discard_def drain_post [OF n(2)] sbind.simps
    by (cases "n = 0") (simp_all add: send_window_update_def)
qed

lemma pump_keeps: "h2_inv K 0 c \<Longrightarrow> post (\<lambda>_. h2_inv K 0) (\<lambda>_. False) (pump_partial_data K c)"
proof (cases "partial c")
  case (Some pd)
  assume c: "h2_inv K 0 c"
  have "pumping K pd (c\<lparr>partial := None\<rparr>)" using c Some by (simp add: pumping_def inv_defs)
  then have "post (pumping K) (\<lambda>_. False) (pump_loop K pd (c\<lparr>partial := None\<rparr>))"
    by (rule pump_loop_post) (auto simp: pump_deliver_keeps pump_discard_keeps, auto simp: pumping_def)
  then show ?thesis
    unfolding pump_partial_data_def Some option.case
  proof (rule post_sbind)
    fix pd c assume P: "pumping K pd c"
    let ?n = "min (pd_pad_remaining pd) (length (recv_buf (h2io c)))"
    have "post (pumping K) (\<lambda>_. False) (pump_padding pd c)"
      using P drain_inv by (auto simp: pump_padding_def pumping_def Let_def drain_post)
    then show "post (\<lambda>_. h2_inv K 0) (\<lambda>_. False) (sbind (pump_padding pd c) (\<lambda>c pd. (pump_finish K pd c, Ok ())))"
    proof (rule post_sbind)
      fix pd c assume P: "pumping K pd c"
      have "h2_inv K 0 (c\<lparr>partial := Some pd\<rparr>)" using P by (auto simp: pumping_def inv_defs)
      moreover have "h2_inv K 0 (with_stream sid (\<lambda>s. let s = s\<lparr>hs_data_available := True\<rparr>
           in if pd_end_stream pd then hs_recv_end_stream s else s) c)" if "pd_data_remaining pd = 0" for sid
        using P that
        by (intro with_stream_quiet) (auto simp: pumping_def stream_ok_def hs_recv_end_stream_def Let_def split: h2_stream_state.splits)
      ultimately show "post (\<lambda>_. h2_inv K 0) (\<lambda>_. False) (pump_finish K pd c, Ok ())"
        using P by (auto simp: pump_finish_def pumping_def Let_def)
    qed
  qed
qed (simp add: pump_partial_data_def)

text \<open>The header of a DATA frame: the window moves into the frame in progress.\<close>

lemma consume_exact:
  assumes "0 \<le> fc_window fc" and "fc_window fc \<le> 65535"
  shows "(\<exists>e. fc_consume n fc = (fc, Err e)) \<or>
    (int n \<le> fc_window fc \<and> fc_consume n fc = (fc\<lparr>fc_window := fc_window fc - int n\<rparr>, Ok ()))"
  using assms by (auto simp: fc_consume_def Let_def)

lemma window_bound: "h2_inv K r c \<Longrightarrow> 0 \<le> fc_window (conn_recv_fc c) \<and> fc_window (conn_recv_fc c) \<le> 65535"
  by (auto simp: inv_defs DEFAULT_CONNECTION_WINDOW_SIZE_def)

lemma begin_data_inv:
  assumes "h2_inv K 0 c" and "partial c = None" and "sid \<noteq> 0" and "int n \<le> fc_window (conn_recv_fc c)"
    and "pd_stream_id pd = sid" and "pd_data_remaining pd = n"
  shows "h2_inv K 0 (c\<lparr>conn_recv_fc := (conn_recv_fc c)\<lparr>fc_window := fc_window (conn_recv_fc c) - int n\<rparr>,
    h2io := (h2io c)\<lparr>recv_buf := drop k (recv_buf (h2io c))\<rparr>, partial := Some pd\<rparr>)"
  using assms by (auto simp: inv_defs)

lemma accept_data_keeps:
  assumes c: "h2_inv K 0 c" and "partial c = None" and "sid \<noteq> 0" and "h \<le> length (recv_buf (h2io c))"
  shows "keeps K 0 (accept_data flags sid h n pad c)"
  using consume_exact [OF window_bound [OF c, THEN conjunct1] window_bound [OF c, THEN conjunct2], of n]
    begin_data_inv [OF assms(1-3)] assms
  by (auto simp: accept_data_def Let_def drain_post)

lemma data_lengths_no_panic:
  "\<not> length (recv_buf (h2io c)) < (if flags AND FLAG_PADDED \<noteq> 0 then 10 else 9) \<Longrightarrow> data_lengths flags payload_len c \<noteq> Panic"
  by (auto simp: data_lengths_def Let_def split: if_splits)

lemma on_data_keeps:
  assumes c: "h2_inv K 0 c" and "partial c = None"
  shows "keeps K 0 (on_data flags sid payload_len c)"
  unfolding on_data_def Let_def
  by (intro post_if post_lift data_lengths_no_panic)
     (use c accept_data_keeps [OF assms] in \<open>auto split: prod.splits\<close>)

subsection \<open>Headers\<close>

lemma headers_range_bounds:
  assumes "9 + payload_len \<le> length (recv_buf (h2io c))"
  shows "post (\<lambda>(a, b) _. a \<le> b \<and> b \<le> 9 + payload_len) (\<lambda>_. True) ((), headers_range flags payload_len c)"
  using assms by (auto simp: headers_range_def Let_def)

lemma headers_range_no_panic:
  "9 + payload_len \<le> length (recv_buf (h2io c)) \<Longrightarrow> headers_range flags payload_len c \<noteq> Panic"
  using headers_range_bounds [of payload_len c flags] by (cases "headers_range flags payload_len c") auto

lemma append_headers_keeps:
  assumes "h2_inv K r c"
  shows "keeps K r (append_headers K sid fragment c)"
  unfolding append_headers_def
proof (rule post_sbind [OF post_attempt [OF reserve_keeps [OF assms]]], rule post_if)
  fix ok c' assume c': "h2_inv K r c'" and *: "\<not> (\<not> ok \<or> (case get_stream sid c' of Some s \<Rightarrow>
      length (hs_headers_data s) + length fragment > HDRBUF K | None \<Rightarrow> False))"
  show "keeps K r (with_stream sid (\<lambda>s. s\<lparr>hs_headers_data := hs_headers_data s @ fragment\<rparr>) c', Ok ())"
  proof (cases "get_stream sid c'")
    case None
    then show ?thesis using c' by (simp add: with_stream_def modify_none)
  next
    case (Some s)
    then show ?thesis
      using * get_stream_ok [OF c' Some] with_stream_inv [OF c' Some, of "\<lambda>s. s\<lparr>hs_headers_data := hs_headers_data s @ fragment\<rparr>" r]
      by (simp add: stream_ok_def)
  qed
qed simp

lemma ensure_stream_inv: "h2_inv K r c \<Longrightarrow> h2_inv K r (fst (ensure_stream K sid c))"
proof -
  assume c: "h2_inv K r c"
  let ?c = "if MAX_STREAMS K \<le> length (streams c) then c\<lparr>streams := filter retained (streams c)\<rparr> else c"
  have c': "h2_inv K r ?c" using c sweep_inv by simp
  have "h2_inv K r (?c\<lparr>streams := streams ?c @ [h2_stream_new sid a b]\<rparr>)"
    if "get_stream sid c = None" "\<not> MAX_STREAMS K \<le> length (streams ?c)" for a b
  proof -
    have "sid \<notin> set (map hs_id (streams c))"
      using that(1) by (auto simp: h2_find_stream_def find_None_iff)
    then have "sid \<notin> set (map hs_id (streams ?c))" by auto
    then show ?thesis
      using c' that(2) unfolding h2_inv_def table_ok_def
      by (auto simp: io_ok_def ledger_def queue_ok_def in_flight_def h2_stream_new_def stream_ok_def)
  qed
  then show ?thesis using c c' by (auto simp: ensure_stream_def Let_def)
qed

lemma stream_flags_ok [simp]:
  "stream_ok K (hs_recv_end_stream s) = stream_ok K s" "stream_ok K (hs_send_end_stream s) = stream_ok K s"
  "stream_ok K (hs_open s) = stream_ok K s" "hs_id (hs_recv_end_stream s) = hs_id s" "hs_id (hs_send_end_stream s) = hs_id s"
  "hs_id (hs_open s) = hs_id s" "hs_data_buf (hs_recv_end_stream s) = hs_data_buf s"
  "hs_data_buf (hs_send_end_stream s) = hs_data_buf s" "hs_data_buf (hs_open s) = hs_data_buf s"
  "stream_ok K (s\<lparr>hs_headers_received := b\<rparr>) = stream_ok K s" "stream_ok K (s\<lparr>hs_send_window := w\<rparr>) = stream_ok K s"
  by (simp_all add: stream_ok_def hs_recv_end_stream_def hs_send_end_stream_def hs_open_def Let_def split: h2_stream_state.split)

lemma on_headers_open_keeps:
  assumes "h2_inv K r c"
  shows "keeps K r (on_headers_open K sid fragment es eh c)"
proof -
  obtain c1 b where e: "ensure_stream K sid (c\<lparr>last_peer_stream_id := max (last_peer_stream_id c) sid\<rparr>) = (c1, b)" by fastforce
  have c1: "h2_inv K r c1"
    using ensure_stream_inv [of K r "c\<lparr>last_peer_stream_id := max (last_peer_stream_id c) sid\<rparr>" sid] assms by (simp add: e)
  let ?c = "with_stream sid (\<lambda>s. (if hs_state s = Idle then hs_open s else s)\<lparr>hs_headers_data := []\<rparr>) c1"
  have "h2_inv K r ?c" by (rule with_stream_quiet [OF c1]) (auto simp: stream_ok_def hs_open_def)
  then have a: "keeps K r (append_headers K sid fragment ?c)" by (rule append_headers_keeps)
  have w: "h2_inv K r (with_stream sid (\<lambda>s. let s = (if eh then s\<lparr>hs_headers_received := True\<rparr> else s)
      in if es then hs_recv_end_stream s else s) c')" if "h2_inv K r c'" for c'
    by (rule with_stream_quiet [OF that]) (simp_all add: Let_def)
  show ?thesis
    using c1 w by (cases b) (auto simp: on_headers_open_def e Let_def intro!: post_sbind [OF a])
qed

lemma skip_block_keeps: "h2_inv K r c \<Longrightarrow> keeps K r (skip_block K block c)"
proof -
  assume c: "h2_inv K r c"
  obtain d out x where h: "hpack_decode (USIZE K) block (decoder c) = ((d, out), x)" by (metis surj_pair)
  have "table_inv d" "x \<noteq> Panic"
    using hpack_decode_from_keeps [of "((d, out), x)" "USIZE K" block 0 "(decoder c, [])"] c h
    by (auto simp: hpack_decode_def inv_defs)
  then show ?thesis using c by (cases x) (simp_all add: skip_block_def h inv_defs)
qed

lemma on_headers_keeps:
  assumes c: "h2_inv K r c" and l: "9 + payload_len \<le> length (recv_buf (h2io c))"
  shows "keeps K r (on_headers K flags sid payload_len c)"
  unfolding on_headers_def
proof (intro post_if post_lift headers_range_no_panic [OF l])
  fix x assume x: "headers_range flags payload_len c = Ok x"
  obtain a b where ab: "x = (a, b)" by fastforce
  then have "a \<le> b" "b \<le> length (recv_buf (h2io c))" using headers_range_bounds [OF l, of flags] x l by auto
  then show "keeps K r (case x of (frag_start, data_end) \<Rightarrow>
      sbind (c, slice (recv_buf (h2io c)) frag_start data_end) (\<lambda>c fragment.
        on_fragment K sid fragment (flags AND FLAG_END_STREAM \<noteq> 0) (flags AND FLAG_END_HEADERS \<noteq> 0) c))"
    using c skip_block_keeps on_headers_open_keeps by (simp add: ab on_fragment_def)
qed (use c in simp_all)

subsection \<open>Control frames\<close>

lemma adjust_windows_kept: "list_all2 kept_stream ss (fst (adjust_windows delta ss))"
  by (induction ss) (auto simp: kept_stream_def Let_def list.rel_refl split: prod.splits)

lemma kept_inv: "h2_inv K r c \<Longrightarrow> list_all2 kept_stream (streams c) ss \<Longrightarrow> h2_inv K r (c\<lparr>streams := ss\<rparr>)"
  by (simp add: inv_defs kept_table)

lemma settings_from_no_panic: "post (\<lambda>_ _. True) (\<lambda>_. True) (settings_from settings_apply payload pos s)"
proof (induction "length payload - pos" arbitrary: pos s rule: less_induct)
  case less
  show ?case
  proof (cases "pos + 6 \<le> length payload")
    case True
    obtain v where v: "read_u32 payload (pos + 2) = Ok v" using True by (auto simp: read_u32_def idxs_def)
    obtain i where i: "idxs payload [pos, pos + 1] = Ok i" using True by (auto simp: idxs_def)
    have "post (\<lambda>_ _. True) (\<lambda>_. True) (settings_apply (be_nat i) v s)" by (simp add: settings_apply_def)
    then show ?thesis
      using True less by (subst settings_from.simps) (simp only: if_True v i sbind.simps, auto intro!: post_sbind)
  qed (subst settings_from.simps, simp)
qed

lemma h2_decode_settings_no_panic: "snd (decode_settings_params settings_apply payload s) \<noteq> Panic"
  using settings_from_no_panic [of payload 0 s] by (auto simp: decode_settings_params_def post_def split: res.splits)

lemma settle_settings_keeps: "h2_inv K r c \<Longrightarrow> keeps K r (settle_settings K old c)"
proof -
  assume c: "h2_inv K r c"
  let ?c = "if h2_state c = WaitingPreface \<or> h2_state c = WaitingSettings
    then h2_push_event K Connected (c\<lparr>h2_state := Active, headers_phase_complete := True\<rparr>) else c"
  define c' where "c' = ?c"
  have c': "h2_inv K r c'" using c by (simp add: c'_def)
  have "keeps K r (case adjust_windows delta (streams c') of (ss, r) \<Rightarrow> (c'\<lparr>streams := ss\<rparr>, r))" for delta
  proof -
    obtain ss y where a: "adjust_windows delta (streams c') = (ss, y)" by fastforce
    moreover have "snd (adjust_windows delta ss') \<noteq> Panic" for ss'
      by (induction ss') (auto simp: Let_def split: prod.splits)
    from this [of "streams c'"] have "y \<noteq> Panic" by (simp add: a)
    moreover have "h2_inv K r (c'\<lparr>streams := ss\<rparr>)"
      using kept_inv [OF c'] adjust_windows_kept [of "streams c'" delta] by (simp add: a)
    ultimately show ?thesis by (cases y) simp_all
  qed
  then show ?thesis using c' unfolding settle_settings_def c'_def [symmetric] Let_def by simp
qed

lemma on_settings_keeps:
  assumes c: "h2_inv K r c" and l: "9 + payload_len \<le> length (recv_buf (h2io c))"
  shows "keeps K r (on_settings K flags sid payload_len c)"
proof -
  obtain params where p: "slice (recv_buf (h2io c)) 9 (9 + payload_len) = Ok params" using l by simp
  obtain ps x where d: "decode_settings_params settings_apply params (peer_settings c) = (ps, x)" by fastforce
  have x: "x \<noteq> Panic" using h2_decode_settings_no_panic [of params "peer_settings c"] d by simp
  have "keeps K r (on_settings_new K payload_len c)"
    unfolding on_settings_new_def Let_def p sbind.simps d prod.case
    by (rule post_lift [OF x], use c in simp, rule post_sbind [where Q' = "\<lambda>_. h2_inv K r"])
       (use c in \<open>auto simp: send_settings_ack_def intro!: queue_frame_keeps settle_settings_keeps\<close>)
  then show ?thesis using c by (auto simp: on_settings_def on_settings_ack_def Let_def)
qed

lemma recv_u31_no_panic: "i + 4 \<le> length (recv_buf (h2io c)) \<Longrightarrow> recv_u31 i c \<noteq> Panic"
  using read_no_panic(1) [of "drop i (recv_buf (h2io c))"] by (simp add: recv_u31_def)

lemma on_window_update_keeps:
  assumes c: "h2_inv K r c" and l: "9 + payload_len \<le> length (recv_buf (h2io c))"
  shows "keeps K r (on_window_update sid payload_len c)"
  unfolding on_window_update_def
proof (intro post_if post_lift)
  assume "\<not> payload_len \<noteq> 4"
  then show "recv_u31 9 c \<noteq> Panic" using l by (intro recv_u31_no_panic) simp
next
  fix inc
  have "snd (fc_replenish inc fc) \<noteq> Panic" for fc by (simp add: fc_replenish_def Let_def)
  from this [of "conn_send_fc c"] show "keeps K r (case fc_replenish inc (conn_send_fc c) of (fc, r) \<Rightarrow> (c\<lparr>conn_send_fc := fc\<rparr>, r))"
    using c by (cases "fc_replenish inc (conn_send_fc c)"; cases "snd (fc_replenish inc (conn_send_fc c))") auto
next
  fix inc
  have "h2_inv K r (with_stream sid (\<lambda>s. s\<lparr>hs_send_window := w\<rparr>) c)" for w
    by (rule with_stream_quiet [OF c]) simp_all
  then show "keeps K r (case get_stream sid c of None \<Rightarrow> (c, Ok ())
      | Some s \<Rightarrow> let new_window = hs_send_window s + int inc
          in if 0x7fffffff < new_window then (c, Err (Http2 h2_error.FlowControlError))
             else (with_stream sid (\<lambda>s. s\<lparr>hs_send_window := as_i32 new_window\<rparr>) c, Ok ()))"
    using c by (auto simp: Let_def split: option.split)
qed (use c in simp_all)

lemma drop_body_inv:
  assumes c: "h2_inv K r c" and s: "get_stream sid c = Some s"
  shows "h2_inv K (r + length (hs_data_buf s)) (with_stream sid drop_body c)"
  using get_stream_ok [OF c s]
  by (intro with_stream_inv [OF c s]) (simp_all add: drop_body_def hs_reset_def stream_ok_def)

lemma buffered_small: "h2_inv K r c \<Longrightarrow> get_stream sid c = Some s \<Longrightarrow> length (hs_data_buf s) mod 2 ^ 32 = length (hs_data_buf s)"
  using get_stream_ok [of K r c sid s] by (auto simp: inv_defs DEFAULT_CONNECTION_WINDOW_SIZE_def)

text \<open>Returning the credit of a dropped body.\<close>

lemma return_credit_keeps:
  assumes "h2_inv K (r + n) c"
  shows "post (\<lambda>_. h2_inv K r) (\<lambda>_. False) (if 0 < n then send_window_update K 0 n c else (c, Ok ()))"
  using assms credit_conn_keeps [OF assms] by (cases "n = 0") simp_all

lemma on_rst_stream_keeps:
  assumes c: "h2_inv K r c" and l: "9 + payload_len \<le> length (recv_buf (h2io c))"
  shows "keeps K r (on_rst_stream K sid payload_len c)"
  unfolding on_rst_stream_def Let_def
proof (intro post_if post_lift)
  assume "\<not> payload_len \<noteq> 4"
  then show "read_u32 (recv_buf (h2io c)) 9 \<noteq> Panic" using l by (intro read_no_panic) simp
next
  fix code
  let ?c = "c\<lparr>partial := map_option (\<lambda>pd. if pd_stream_id pd = sid then pd\<lparr>pd_deliver := False\<rparr> else pd) (partial c)\<rparr>"
  let ?n = "case get_stream sid ?c of None \<Rightarrow> 0 | Some s \<Rightarrow> length (hs_data_buf s) mod 2 ^ 32"
  have c': "h2_inv K r ?c" using c by simp
  have "h2_inv K (r + ?n) (with_stream sid drop_body ?c)"
  proof (cases "get_stream sid ?c")
    case None
    then show ?thesis using c' by (simp add: with_stream_def modify_none)
  next
    case (Some s)
    then show ?thesis using drop_body_inv [OF c' Some] buffered_small [OF c' Some] by simp
  qed
  from return_credit_keeps [OF this]
  show "keeps K r (sbind (if 0 < ?n then send_window_update K 0 ?n (with_stream sid drop_body ?c)
      else (with_stream sid drop_body ?c, Ok ())) (\<lambda>c _. (h2_push_event K (StreamReset sid code) c, Ok ())))"
    by (rule post_sbind [OF post_mono]) auto
qed (use c in simp_all)

lemma on_frame_keeps:
  assumes c: "h2_inv K r c" and l: "9 + payload_len \<le> length (recv_buf (h2io c))"
  shows "keeps K r (on_frame K ty flags sid payload_len c)"
proof -
  have "keeps K r (on_ping K flags sid payload_len c)"
    unfolding on_ping_def send_ping_ack_def
    using c l by (auto intro!: post_if post_lift queue_frame_keeps simp: buf_Panic)
  moreover have "keeps K r (on_goaway K sid payload_len c)"
    unfolding on_goaway_def using c l read_no_panic(2) [of 13 "recv_buf (h2io c)"]
    by (intro post_if post_lift recv_u31_no_panic) auto
  moreover have "keeps K r (on_continuation K flags sid payload_len c)"
    unfolding on_continuation_def Let_def
  proof (rule post_if)
    let ?c = "if flags AND FLAG_END_HEADERS \<noteq> 0 then c\<lparr>continuation_stream_id := None\<rparr> else c"
    have c': "h2_inv K r ?c" using c by simp
    have w: "h2_inv K r (with_stream sid (\<lambda>s. s\<lparr>hs_headers_received := True\<rparr>) c')" if "h2_inv K r c'" for c'
      by (rule with_stream_quiet [OF that]) simp_all
    show "keeps K r (if get_stream sid ?c = None then (?c, Ok ())
        else sbind (?c, slice (recv_buf (h2io ?c)) 9 (9 + payload_len)) (\<lambda>c fragment.
          sbind (append_headers K sid fragment c) (\<lambda>c _.
            (if flags AND FLAG_END_HEADERS \<noteq> 0
             then h2_push_event K (Headers sid) (with_stream sid (\<lambda>s. s\<lparr>hs_headers_received := True\<rparr>) c) else c, Ok ()))))"
      using c' l w
      by (intro post_if post_lift post_sbind [where Q' = "\<lambda>_. h2_inv K r"] append_headers_keeps) auto
  qed (use c in simp)
  ultimately show ?thesis
    using assms by (simp add: on_frame_def on_headers_keeps on_settings_keeps on_window_update_keeps on_rst_stream_keeps)
qed

subsection \<open>The receive loop\<close>

lemma recv_turn_keeps:
  assumes c: "h2_inv K 0 c"
  shows "keeps K 0 (recv_turn K c)"
proof (cases "partial c")
  case None
  have hdr: "decode_frame_header (recv_buf (h2io c)) \<noteq> Panic" by (rule decode_frame_header_no_panic)
  have frame: "keeps K 0 (sbind (on_frame K ty flags sid n c) (\<lambda>c _. sbind (drain_recv (9 + n) c) (\<lambda>c _. (c, Ok True))))"
    if l: "9 + n \<le> length (recv_buf (h2io c))" for ty flags sid n
  proof -
    have "post (\<lambda>_ c'. h2_inv K 0 c' \<and> same_in c c') (\<lambda>c'. h2_inv K 0 c') (on_frame K ty flags sid n c)"
      using on_frame_keeps [OF c l, of ty flags sid] on_frame_same [of c K ty flags sid n]
      by (cases "on_frame K ty flags sid n c"; cases "snd (on_frame K ty flags sid n c)") auto
    then show ?thesis
    proof (rule post_sbind)
      fix c' assume "h2_inv K 0 c' \<and> same_in c c'"
      then show "keeps K 0 (sbind (drain_recv (9 + n) c') (\<lambda>c _. (c, Ok True)))"
        using l drain_inv [of K 0 c' "9 + n"] drain_post [of "9 + n" c'] by (simp add: same_in_def)
    qed
  qed
  show ?thesis
    unfolding recv_turn_def Let_def
    by (intro post_if post_lift hdr) (use None c frame on_data_keeps [OF c None] in auto)
next
  case (Some pd)
  have "post (\<lambda>_. h2_inv K 0) (h2_inv K 0) (pump_partial_data K c)" using pump_keeps [OF c] by (rule post_mono) auto
  then show ?thesis unfolding recv_turn_def using Some by (auto intro: post_sbind)
qed

lemma recv_loop_post:
  assumes "P c" and "\<And>c. P c \<Longrightarrow> post (\<lambda>_. P) P (recv_turn K c)"
  shows "post (\<lambda>_. P) P (recv_loop K c)"
  using assms(1)
proof (induction "loop_size c" arbitrary: c rule: less_induct)
  case less
  obtain c' r where t: "recv_turn K c = (c', r)" by fastforce
  show ?case
    using assms(2) [OF less(2)] less(1) [of c'] recv_turn_progress [of K c c'] t
    by (subst recv_loop.simps) (cases r; auto)
qed

lemma recv_loop_keeps: "h2_inv K 0 c \<Longrightarrow> keeps K 0 (recv_loop K c)"
  by (rule recv_loop_post) (auto intro: recv_turn_keeps)

lemma preface_keeps: "h2_inv K r c \<Longrightarrow> keeps K r (validate_client_preface c)"
proof -
  assume c: "h2_inv K r c"
  let ?rest = "drop (preface_bytes_seen c) CONNECTION_PREFACE"
  define k where "k = min (length ?rest) (length (recv_buf (h2io c)))"
  have seen: "slice_from CONNECTION_PREFACE (preface_bytes_seen c) = Ok ?rest" using c by (auto simp: inv_defs)
  have "h2_inv K r (c\<lparr>preface_bytes_seen := preface_bytes_seen c + k\<rparr>)" using c by (auto simp: inv_defs k_def)
  then show ?thesis
    using c drain_inv [of K r "c\<lparr>preface_bytes_seen := preface_bytes_seen c + k\<rparr>" k]
    unfolding validate_client_preface_def seen sbind.simps Let_def k_def [symmetric]
    by (auto simp: drain_post k_def)
qed

lemma process_recv_keeps: "h2_inv K 0 c \<Longrightarrow> keeps K 0 (h2_process_recv K c)"
  unfolding h2_process_recv_def
  by (rule post_sbind [where Q' = "\<lambda>_. h2_inv K 0"])
     (auto intro!: preface_keeps post_sbind [OF recv_loop_keeps] sweep_inv)

lemma feed_data_keeps: "h2_inv K 0 c \<Longrightarrow> keeps K 0 (h2_feed_data K data c)"
  unfolding h2_feed_data_def
proof (rule post_sbind [OF generate_output_keeps], assumption, rule post_if, simp)
  fix c assume c: "h2_inv K 0 c" and l: "\<not> BUF K < length (recv_buf (h2io c)) + length data"
  show "keeps K 0 (sbind (on_io (buf_try_reserve (length data)) c) (\<lambda>c _.
      h2_process_recv K (c\<lparr>h2io := (h2io c)\<lparr>recv_buf := recv_buf (h2io c) @ data\<rparr>\<rparr>)))"
  proof (rule post_sbind [OF post_mono [OF reserve_only_heap]])
    fix c' assume "\<exists>h. c' = c\<lparr>h2io := (h2io c)\<lparr>heap := h\<rparr>\<rparr>"
    then have "h2_inv K 0 (c'\<lparr>h2io := (h2io c')\<lparr>recv_buf := recv_buf (h2io c') @ data\<rparr>\<rparr>)"
      using c l by (auto simp: inv_defs)
    then show "keeps K 0 (h2_process_recv K (c'\<lparr>h2io := (h2io c')\<lparr>recv_buf := recv_buf (h2io c') @ data\<rparr>\<rparr>))"
      by (rule process_recv_keeps)
  qed (use c in auto)
qed

section \<open>The application's calls\<close>

lemma poll_output_keeps: "h2_inv K r c \<Longrightarrow> keeps K r (h2_poll_output K n c)"
  unfolding h2_poll_output_def Let_def
  by (erule post_sbind [OF generate_output_keeps]) (auto simp: inv_defs intro!: post_if)

lemma append_send_inv:
  assumes "h2_inv K r c" and "length (send_buf (h2io c)) \<le> length b" and "length b \<le> BUF K"
  shows "h2_inv K r (c\<lparr>h2io := (h2io c)\<lparr>send_buf := b\<rparr>\<rparr>)"
  using assms by (auto simp: inv_defs)

text \<open>An encoder keeps the length of its buffer, stays inside it, and fails only for want of room.\<close>

definition fitted :: "nat \<Rightarrow> (bytes \<times> nat) res \<Rightarrow> bool" where
  "fitted l r \<longleftrightarrow>
    (case r of Ok (b, n) \<Rightarrow> n \<le> l \<and> length b = l | Err e \<Rightarrow> (\<exists>k. e = BufferTooSmall k) | Panic \<Rightarrow> False)"

lemma fitted_simps [simp]:
  "fitted l (Ok (b, n)) \<longleftrightarrow> n \<le> l \<and> length b = l" "fitted l (Err (BufferTooSmall k))" "\<not> fitted l Panic"
  by (simp_all add: fitted_def)

lemma fitted_bind:
  "fitted l r \<Longrightarrow> (\<And>b n. n \<le> l \<Longrightarrow> length b = l \<Longrightarrow> fitted l (f (b, n))) \<Longrightarrow> fitted l (res_bind r f)"
  by (cases r) (auto simp: fitted_def)

lemma fitted_write_from:
  assumes "\<And>b. fitted (length b) (f b)" and "off \<le> l" and "length buf = l"
  shows "fitted l (write_from off buf f)"
  using assms(1) [of "drop off buf"] assms(2,3)
  by (cases "f (drop off buf)") (auto simp: write_from_def fitted_def)

lemma encode_rest_fitted: "fitted (length buf) (encode_rest v i buf)"
proof (induction v i buf rule: encode_rest.induct)
  case (1 v i buf)
  then show ?case by (subst encode_rest.simps) auto
qed

lemma encode_integer_fitted: "fitted (length buf) (encode_integer v pb m buf)"
proof -
  have "fitted (length buf) (encode_rest w 1 (buf[0 := x]))" for w x using encode_rest_fitted [of "buf[0 := x]"] by simp
  then show ?thesis by (cases buf) (simp_all add: encode_integer_def Let_def)
qed

lemma encode_string_literal_fitted: "fitted (length buf) (encode_string_literal s buf)"
  unfolding encode_string_literal_def
  by (rule fitted_bind [OF fitted_write_from [OF encode_integer_fitted]]) (auto simp: copy_at_def)

lemma encode_field_fitted: "off \<le> l \<Longrightarrow> length buf = l \<Longrightarrow> fitted l (encode_field name val buf off)"
  unfolding encode_field_def
  by (auto split: lookup_result.splits
      intro!: fitted_bind fitted_write_from encode_string_literal_fitted encode_integer_fitted)

lemma hpack_encode_fitted: "fitted (length buf) (hpack_encode headers buf)"
proof -
  have "fitted l (hpack_encode_from headers b off)" if "off \<le> l" "length b = l" for b off l
    using that by (induction headers arbitrary: b off) (auto intro!: fitted_bind encode_field_fitted)
  then show ?thesis by (simp add: hpack_encode_def)
qed

lemma patch_header_keeps:
  assumes "h2_inv K r c" and "start + 9 \<le> length (send_buf (h2io c))"
  shows "post (\<lambda>_ c'. h2_inv K r c' \<and> length (send_buf (h2io c')) = length (send_buf (h2io c))) (h2_inv K r) (patch_header hdr start c)"
proof -
  let ?w = "take 9 (drop start (send_buf (h2io c)))"
  have w: "slice (send_buf (h2io c)) start (start + 9) = Ok ?w" and l: "length ?w = 9" using assms(2) by simp_all
  have "encode_frame_header hdr ?w = Err InvalidState \<or> (\<exists>b. encode_frame_header hdr ?w = Ok b \<and> length b = 9)"
    using l by (auto simp: encode_frame_header_def Let_def simp del: be_bytes_numeral)
  moreover have "length (send_buf (h2io c)) \<le> BUF K" using assms(1) by (simp add: inv_defs)
  ultimately show ?thesis
    using assms append_send_inv [OF assms(1)] by (auto simp: patch_header_def w Let_def)
qed

lemma headers_block_keeps:
  assumes c: "h2_inv K r c" and room: "length (send_buf (h2io c)) + 9 \<le> BUF K"
  shows "post (\<lambda>_ c'. h2_inv K r c' \<and> length (send_buf (h2io c)) + 9 \<le> length (send_buf (h2io c'))) (h2_inv K r)
    (encode_headers_block K junk headers c)" (is "post ?Q ?E _")
proof -
  let ?h = "length (send_buf (h2io c))"
  have heap: "post ?Q ?E (sbind (on_io (buf_try_reserve m) c) f)"
    if "\<And>h. post ?Q ?E (f (c\<lparr>h2io := (h2io c)\<lparr>heap := h\<rparr>\<rparr>) ())" for m f
    by (rule post_sbind [OF post_mono [OF reserve_only_heap]]) (use that c in auto)
  have grow: "h2_inv K r (c\<lparr>h2io := (h2io c)\<lparr>heap := h, send_buf := b\<rparr>\<rparr>)" if "?h \<le> length b" "length b \<le> BUF K" for h b
    using append_send_inv [of K r "c\<lparr>h2io := (h2io c)\<lparr>heap := h\<rparr>\<rparr>" b] c that by simp
  have tail: "post ?Q ?E (sbind (on_io (buf_try_reserve (BUF K - ?h)) c) (\<lambda>c _.
      case hpack_encode headers (replicate (BUF K - (?h + 9)) 0) of
        Ok (tail, n) \<Rightarrow> (c\<lparr>h2io := (h2io c)\<lparr>send_buf := take (?h + 9 + n) ((send_buf (h2io c) @ replicate 9 0) @ tail)\<rparr>\<rparr>, Ok n)
      | Err e \<Rightarrow> (c\<lparr>h2io := (h2io c)\<lparr>send_buf := (send_buf (h2io c) @ replicate 9 0) @
            take (BUF K - (?h + 9)) (junk @ replicate (BUF K - (?h + 9)) 0)\<rparr>\<rparr>, Err e)
      | Panic \<Rightarrow> (c, Panic)))"
    using hpack_encode_fitted [of "replicate (BUF K - (?h + 9)) 0" headers] room
    by (intro heap) (auto simp: fitted_def grow split: res.splits)
  show ?thesis
  proof (cases "hpack_encode headers (replicate HEADERS_SCRATCH 0)")
    case (Ok x)
    obtain b n where x: "x = (b, n)" by fastforce
    have n: "n \<le> length b" using hpack_encode_fitted [of "replicate HEADERS_SCRATCH 0" headers] Ok x by simp
    show ?thesis
      using c unfolding encode_headers_block_def Let_def Ok x res.case prod.case
      by (intro post_if heap) (auto simp: n intro!: grow)
  next
    case (Err e)
    then obtain k where "e = BufferTooSmall k"
      using hpack_encode_fitted [of "replicate HEADERS_SCRATCH 0" headers] by (auto simp: fitted_def)
    then show ?thesis using tail Err by (simp add: encode_headers_block_def Let_def)
  qed (use hpack_encode_fitted [of "replicate HEADERS_SCRATCH 0" headers] in simp)
qed

lemma send_headers_keeps:
  assumes "h2_inv K r c"
  shows "keeps K r (h2_send_headers K junk sid headers es c)"
proof -
  obtain c1 b where e: "ensure_stream K sid c = (c1, b)" by fastforce
  have c1: "h2_inv K r c1" using ensure_stream_inv [OF assms, of sid] e by simp
  show ?thesis
  proof (cases "b \<and> length (send_buf (h2io c1)) + 9 \<le> BUF K")
    case True
    then show ?thesis
      unfolding h2_send_headers_def e prod.case Let_def
      by (auto intro!: post_sbind [OF headers_block_keeps [OF c1]] post_sbind [OF patch_header_keeps] with_stream_quiet)
  qed (use c1 e in \<open>auto simp: h2_send_headers_def Let_def split: bool.split\<close>)
qed

lemma open_stream_keeps: "h2_inv K r c \<Longrightarrow> keeps K r (h2_open_stream K junk headers es c)"
  unfolding h2_open_stream_def Let_def by (auto intro!: post_sbind [OF send_headers_keeps])

lemma consume_no_panic: "snd (fc_consume n fc) \<noteq> Panic"
  by (simp add: fc_consume_def Let_def)

lemma queue_data_keeps:
  assumes c: "h2_inv K r c" and room: "length (send_buf (h2io c)) + (9 + length t) \<le> BUF K"
  shows "keeps K r (queue_data K sid t fin c)"
  unfolding queue_data_def Let_def
proof (rule post_sbind [OF post_mono [OF reserve_only_heap]])
  fix c' assume "\<exists>h. c' = c\<lparr>h2io := (h2io c)\<lparr>heap := h\<rparr>\<rparr>"
  then have c': "h2_inv K r c'" and l: "length (send_buf (h2io c')) = length (send_buf (h2io c))" using c by auto
  have i: "h2_inv K r (c'\<lparr>h2io := (h2io c')\<lparr>send_buf := send_buf (h2io c') @ replicate 9 0\<rparr>\<rparr>)"
    using append_send_inv [OF c'] room l by simp
  show "keeps K r (sbind (patch_header \<lparr>hd_length = length t mod 2 ^ 32, hd_type = FRAME_DATA,
        hd_flags = (if fin then FLAG_END_STREAM else 0), hd_stream_id = sid\<rparr> (length (send_buf (h2io c)))
        (c'\<lparr>h2io := (h2io c')\<lparr>send_buf := send_buf (h2io c') @ replicate 9 0\<rparr>\<rparr>)) (\<lambda>c _.
      (c\<lparr>h2io := (h2io c)\<lparr>send_buf := send_buf (h2io c) @ t\<rparr>\<rparr>, Ok ())))"
    by (rule post_sbind [OF patch_header_keeps [OF i]]) (use room l in \<open>auto intro!: append_send_inv\<close>)
qed (use c in auto)

lemma commit_sent_keeps:
  assumes c: "h2_inv K r c"
  shows "keeps K r (commit_sent sid t c)"
proof -
  obtain fc x where f: "fc_consume (length t mod 2 ^ 32) (conn_send_fc c) = (fc, x)" by fastforce
  have "x \<noteq> Panic" using f by (auto simp: fc_consume_def Let_def split: if_splits)
  then show ?thesis
    unfolding commit_sent_def f using c by (auto intro!: post_lift with_stream_quiet)
qed

lemma send_data_keeps:
  assumes "h2_inv K r c"
  shows "keeps K r (h2_send_data K sid data es c)"
  unfolding h2_send_data_def Let_def
  by (intro post_if post_sbind [OF queue_data_keeps] post_sbind [OF commit_sent_keeps])
     (use assms in \<open>auto intro!: with_stream_quiet\<close>)

lemma recv_headers_keeps:
  assumes c: "h2_inv K r c"
  shows "keeps K r (h2_recv_headers K sid c)"
proof (cases "get_stream sid c")
  case (Some s)
  obtain d out x where h: "hpack_decode (USIZE K) (hs_headers_data s) (decoder c) = ((d, out), x)" by (metis surj_pair)
  have "table_inv d" "x \<noteq> Panic"
    using hpack_decode_from_keeps [of "((d, out), x)" "USIZE K" "hs_headers_data s" 0 "(decoder c, [])"] c h
    by (auto simp: hpack_decode_def inv_defs)
  then have d: "h2_inv K r (c\<lparr>decoder := d\<rparr>)" "x \<noteq> Panic" using c by (auto simp: inv_defs)
  have "h2_inv K r (with_stream sid (\<lambda>s. s\<lparr>hs_headers_data := [], hs_headers_received := False\<rparr>) (c\<lparr>decoder := d\<rparr>))"
    by (rule with_stream_quiet [OF d(1)]) (auto simp: stream_ok_def)
  then show ?thesis using c d Some h by (cases x) (simp_all add: h2_recv_headers_def)
qed (use c in \<open>simp add: h2_recv_headers_def\<close>)

lemma recv_body_keeps:
  assumes c: "h2_inv K r c"
  shows "keeps K r (h2_recv_body K sid n c)"
proof (cases "get_stream sid c")
  case (Some s)
  show ?thesis
  proof (cases "hs_data_buf s = []")
    case True
    have "h2_inv K r (with_stream sid (\<lambda>s. s\<lparr>hs_data_available := False\<rparr>) c)"
      by (rule with_stream_inv [OF c Some]) (use get_stream_ok [OF c Some] True in \<open>auto simp: stream_ok_def\<close>)
    then show ?thesis using c True Some by (simp add: h2_recv_body_def)
  next
    case False
    define k where "k = min (length (hs_data_buf s)) n"
    have sid: "sid \<noteq> 0" using get_stream_ok [OF c Some] False find_stream_Some [OF Some] by (auto simp: stream_ok_def)
    have k: "k mod 2 ^ 32 = k" using buffered_small [OF c Some] by (simp add: k_def)
    let ?c = "with_stream sid (\<lambda>s'. s'\<lparr>hs_data_buf := drop k (hs_data_buf s), hs_data_available := (drop k (hs_data_buf s) \<noteq> [])\<rparr>) c"
    have "h2_inv K (r + k) ?c"
      by (rule with_stream_inv [OF c Some]) (use get_stream_ok [OF c Some] False sid find_stream_Some [OF Some] in \<open>auto simp: stream_ok_def k_def\<close>)
    then have "post (\<lambda>_. h2_inv K r) (h2_inv K r) (send_window_update K 0 k ?c)"
      by (rule post_mono [OF credit_conn_keeps]) auto
    then have "keeps K r (sbind (send_window_update K 0 k ?c) (\<lambda>c _. send_window_update K sid k c))"
      by (rule post_sbind) (auto intro: post_mono [OF credit_stream_keeps [OF _ sid]])
    moreover have "h2_inv K r ?c" if "k = 0" using \<open>h2_inv K (r + k) ?c\<close> that by simp
    ultimately have "keeps K r (if 0 < k then sbind (send_window_update K 0 k ?c) (\<lambda>c _. send_window_update K sid k c) else (?c, Ok ()))"
      by simp
    then show ?thesis
      unfolding h2_recv_body_def Some option.case if_not_P [OF False] Let_def k_def [symmetric] k
      by (rule post_sbind) simp
  qed
qed (use c in \<open>simp add: h2_recv_body_def\<close>)

lemma discard_body_keeps:
  assumes c: "h2_inv K r c"
  shows "keeps K r (h2_discard_body K sid code c)"
proof (cases "get_stream sid c")
  case (Some s)
  let ?c = "c\<lparr>partial := map_option (\<lambda>pd. if pd_stream_id pd = sid then pd\<lparr>pd_deliver := False\<rparr> else pd) (partial c)\<rparr>"
  let ?w = "with_stream sid (\<lambda>s'. let s' = s'\<lparr>hs_data_buf := [], hs_data_available := False, hs_headers_data := [], hs_headers_received := False\<rparr>
      in hs_reset (if \<not> hs_fin_received s then s'\<lparr>hs_pending_rst := Some code\<rparr> else s')) ?c"
  have c': "h2_inv K r ?c" and s: "get_stream sid ?c = Some s" using c Some by simp_all
  have "h2_inv K (r + length (hs_data_buf s)) ?w"
    by (rule with_stream_inv [OF c' s]) (use get_stream_ok [OF c' s] in \<open>auto simp: stream_ok_def hs_reset_def Let_def\<close>)
  from return_credit_keeps [OF this] show ?thesis
    unfolding h2_discard_body_def Some option.case Let_def buffered_small [OF c Some]
    by (intro post_sbind [where Q' = "\<lambda>_. h2_inv K r"] post_if)
       (auto elim: post_mono intro!: post_mono [OF flush_keeps])
qed (use c in \<open>simp add: h2_discard_body_def\<close>)

lemma goaway_keeps: "h2_inv K r c \<Longrightarrow> keeps K r (h2_send_goaway K code c)"
  unfolding h2_send_goaway_def by (rule post_sbind [OF queue_frame_keeps]) auto

lemma handle_timeout_keeps:
  assumes "h2_inv K r c"
  shows "keeps K r (h2_handle_timeout K now c)"
proof -
  have "keeps K r (h2_time_out K c')" if "h2_inv K r c'" for c'
    unfolding h2_time_out_def using that by (intro post_sbind [OF post_attempt [OF goaway_keeps]]) auto
  then show ?thesis using assms by (auto simp: h2_handle_timeout_def Let_def intro!: post_if)
qed

lemma poll_event_inv: "h2_inv K r c \<Longrightarrow> h2_inv K r (fst (h2_poll_event c))"
  by (auto simp: h2_poll_event_def inv_defs split: list.splits)

section \<open>Reachable connections\<close>

text \<open>Any sequence of calls with any arguments; a call that returns an error leaves its state, too.\<close>

datatype h2_call =
    FeedData bytes | FeedDataTimed bytes nat | PollOutput nat | PollEvent | SendHeaders bytes nat "(bytes \<times> bytes) list" bool
  | OpenStream bytes "(bytes \<times> bytes) list" bool | SendData nat bytes bool | RecvHeaders nat | RecvBody nat nat
  | DiscardBody nat nat | SendGoaway nat | SetTimeouts timeout_config nat | HandleTimeout nat | NoteActivity nat

text \<open>The state after a call and whether it panicked.\<close>

definition outcome :: "h2_sys \<times> 'a res \<Rightarrow> h2_sys \<times> bool" where
  "outcome p = (fst p, case snd p of Panic \<Rightarrow> True | _ \<Rightarrow> False)"

fun h2_exec :: "h2_cfg \<Rightarrow> h2_call \<Rightarrow> h2_sys \<Rightarrow> h2_sys \<times> bool" where
  "h2_exec K (FeedData data) c = outcome (h2_feed_data K data c)"
| "h2_exec K (FeedDataTimed data now) c = outcome (h2_feed_data_timed K data now c)"
| "h2_exec K (PollOutput n) c = outcome (h2_poll_output K n c)"
| "h2_exec K PollEvent c = (fst (h2_poll_event c), False)"
| "h2_exec K (SendHeaders junk sid headers es) c = outcome (h2_send_headers K junk sid headers es c)"
| "h2_exec K (OpenStream junk headers es) c = outcome (h2_open_stream K junk headers es c)"
| "h2_exec K (SendData sid data es) c = outcome (h2_send_data K sid data es c)"
| "h2_exec K (RecvHeaders sid) c = outcome (h2_recv_headers K sid c)"
| "h2_exec K (RecvBody sid n) c = outcome (h2_recv_body K sid n c)"
| "h2_exec K (DiscardBody sid code) c = outcome (h2_discard_body K sid code c)"
| "h2_exec K (SendGoaway code) c = outcome (h2_send_goaway K code c)"
| "h2_exec K (SetTimeouts cfg now) c = (h2_set_timeouts cfg now c, False)"
| "h2_exec K (HandleTimeout now) c = outcome (h2_handle_timeout K now c)"
| "h2_exec K (NoteActivity now) c = (h2_note_recv_activity now c, False)"

inductive h2_reachable :: "h2_cfg \<Rightarrow> h2_sys \<Rightarrow> bool" for K where
  start: "recv_buf i = [] \<Longrightarrow> send_buf i = [] \<Longrightarrow> h2_reachable K (h2_new K r i)"
| call: "h2_reachable K c \<Longrightarrow> h2_exec K x c = (c', p) \<Longrightarrow> h2_reachable K c'"

lemma outcome_keeps: "keeps K r p \<Longrightarrow> h2_inv K r (fst (outcome p)) \<and> \<not> snd (outcome p)"
  by (cases p; cases "snd p") (auto simp: outcome_def)

lemma h2_new_inv: "recv_buf i = [] \<Longrightarrow> send_buf i = [] \<Longrightarrow> h2_inv K 0 (h2_new K r i)"
  by (simp add: h2_new_def inv_defs table_ok_def fc_new_def DEFAULT_CONNECTION_WINDOW_SIZE_def
      table_inv_def hpack_decoder_new_def INITIAL_DYNAMIC_TABLE_SIZE_def)

lemmas call_keeps = feed_data_keeps poll_output_keeps send_headers_keeps open_stream_keeps send_data_keeps
  recv_headers_keeps recv_body_keeps discard_body_keeps goaway_keeps handle_timeout_keeps

lemma h2_exec_inv: "h2_inv K 0 c \<Longrightarrow> h2_inv K 0 (fst (h2_exec K x c)) \<and> \<not> snd (h2_exec K x c)"
  by (cases x) (simp_all add: poll_event_inv h2_set_timeouts_def h2_note_recv_activity_def h2_feed_data_timed_def
      outcome_keeps [of K 0] call_keeps)

lemma h2_reachable_inv: "h2_reachable K c \<Longrightarrow> h2_inv K 0 c"
proof (induction rule: h2_reachable.induct)
  case (start i r)
  then show ?case by (rule h2_new_inv)
next
  case (call c x c' p)
  then show ?case using h2_exec_inv [of K c x] by simp
qed

text \<open>
  C31: The HTTP/2 connection is safe against any peer and any application: whatever calls were made
  before, with whatever bytes from the network and whatever answers of the allocator, the next call
  returns without a panic and leaves at most \<^verbatim>\<open>MAX_STREAMS\<close> streams with distinct identifiers, every
  header block within \<^verbatim>\<open>HDRBUF\<close>, every body buffer within \<^verbatim>\<open>DATABUF\<close>, both connection buffers within
  \<^verbatim>\<open>BUF\<close>, and a decoder table within its limit.
\<close>

theorem h2_calls_safe:
  assumes "h2_reachable K c" and "h2_exec K x c = (c', panicked)"
  shows "\<not> panicked \<and> length (streams c') \<le> MAX_STREAMS K \<and> distinct (map hs_id (streams c')) \<and>
    list_all (\<lambda>s. length (hs_headers_data s) \<le> HDRBUF K \<and> length (hs_data_buf s) \<le> DATABUF K) (streams c') \<and>
    length (recv_buf (h2io c')) \<le> BUF K \<and> length (send_buf (h2io c')) \<le> BUF K \<and>
    send_offset c' \<le> length (send_buf (h2io c')) \<and> table_size (dynamic (decoder c')) \<le> 4096"
  using h2_exec_inv [OF h2_reachable_inv [OF assms(1)], of x] assms(2)
  by (auto simp: inv_defs table_ok_def stream_ok_def list_all_iff table_inv_def INITIAL_DYNAMIC_TABLE_SIZE_def)

definition tiny_cfg :: h2_cfg where
  "tiny_cfg = \<lparr>MAX_STREAMS = 2, HDRBUF = 64, DATABUF = 64, BUF = 256, EVENTS = 64, USIZE = 64\<rparr>"

definition empty_io :: h2_io where
  "empty_io = \<lparr>recv_buf = [], send_buf = [], heap = []\<rparr>"

theorem h2_calls_safe_witness:
  "h2_reachable tiny_cfg (h2_new tiny_cfg Server empty_io) \<and>
   length (recv_buf (h2io (fst (h2_exec tiny_cfg (FeedData (CONNECTION_PREFACE @ [0, 0, 0, 4, 0])) (h2_new tiny_cfg Server empty_io))))) \<le> 256"
proof -
  have r: "h2_reachable tiny_cfg (h2_new tiny_cfg Server empty_io)" by (rule h2_reachable.start) (simp_all add: empty_io_def)
  obtain c' p where e: "h2_exec tiny_cfg (FeedData (CONNECTION_PREFACE @ [0, 0, 0, 4, 0])) (h2_new tiny_cfg Server empty_io) = (c', p)"
    by fastforce
  from h2_calls_safe [OF r e] r e show ?thesis by (simp add: tiny_cfg_def)
qed

text \<open>
  C32: The connection-level receive window is conserved: in every reachable state the credit the peer
  holds, the credit waiting to be sent, the body bytes buffered for the application and the bytes of the
  DATA frame in progress add up to the initial window of 65535. No path (a reset or discarded stream, an
  unknown stream, a full send buffer, a closed stream swept from the table) loses or duplicates credit.
\<close>

theorem h2_window_conserved:
  assumes "h2_reachable K c"
  shows "0 \<le> fc_window (conn_recv_fc c) \<and>
    fc_window (conn_recv_fc c) + int (pending_conn_credit c) + int (sum_list (map (\<lambda>s. length (hs_data_buf s)) (streams c)))
      + int (case partial c of None \<Rightarrow> 0 | Some pd \<Rightarrow> pd_data_remaining pd) = 65535"
  using h2_reachable_inv [OF assms] by (auto simp: inv_defs buffered_def DEFAULT_CONNECTION_WINDOW_SIZE_def)

theorem h2_window_conserved_witness:
  "fc_window (conn_recv_fc (fst (h2_exec tiny_cfg (FeedData [1, 2]) (h2_new tiny_cfg Client empty_io)))) \<le> 65535"
proof -
  let ?c = "h2_new tiny_cfg Client empty_io"
  have "h2_reachable tiny_cfg ?c" by (rule h2_reachable.start) (simp_all add: empty_io_def)
  then have "h2_reachable tiny_cfg (fst (h2_exec tiny_cfg (FeedData [1, 2]) ?c))"
    by (rule h2_reachable.call) (rule prod.collapse [symmetric])
  from h2_window_conserved [OF this] show ?thesis by linarith
qed

section \<open>Sending\<close>

lemma patch_header_wire:
  assumes "sid < 2 ^ 31" and "send_buf (h2io c) = pre @ replicate 9 0"
  shows "patch_header \<lparr>hd_length = n, hd_type = ty, hd_flags = fl, hd_stream_id = sid\<rparr> (length pre) c =
    (c\<lparr>h2io := (h2io c)\<lparr>send_buf := pre @ be_bytes 3 n @ [ty, fl] @ be_bytes 4 sid\<rparr>\<rparr>, Ok ())"
  using encode_frame_header_spec [of "replicate 9 0" sid n ty fl] assms
  by (simp add: patch_header_def Let_def del: be_bytes_numeral)

lemma find_modify:
  "h2_find_stream sid ss = Some s \<Longrightarrow> (\<And>s. hs_id (f s) = hs_id s) \<Longrightarrow>
   h2_find_stream sid (modify_stream sid f ss) = Some (f s)"
  by (induction ss) (auto simp: h2_find_stream_def split: if_splits)

lemma queue_data_wire:
  assumes "sid < 2 ^ 31" and "length t < 2 ^ 24" and "heap (h2io c) = []"
  shows "queue_data K sid t fin c =
    (c\<lparr>h2io := (h2io c)\<lparr>send_buf := send_buf (h2io c) @ h2_frame_bytes (H2Data sid t fin)\<rparr>\<rparr>, Ok ())"
proof -
  have "on_io (buf_try_reserve (9 + length t)) c = (c, Ok ())" using assms(3) by (simp add: on_io_def buf_try_reserve_def)
  moreover have "length t mod 2 ^ 32 = length t" using assms(2) by simp
  ultimately show ?thesis
    using patch_header_wire [OF assms(1), of "c\<lparr>h2io := (h2io c)\<lparr>send_buf := send_buf (h2io c) @ replicate 9 0\<rparr>\<rparr>"
      "send_buf (h2io c)" "length t" FRAME_DATA "if fin then FLAG_END_STREAM else 0"]
    by (simp add: queue_data_def Let_def h2_frame_bytes_def h2_wire_def flag_def del: be_bytes_numeral)
qed

text \<open>
  C33: Sending respects both flow-control windows: on a stream that may send, with room in the send
  buffer, exactly the bytes that fit the connection window, the stream window and the peer's maximum
  frame size are appended as one well-formed DATA frame, both windows shrink by that number, and
  the stream is ended only when everything was sent; with a closed window nothing changes and the
  caller is told to wait.
\<close>

theorem h2_send_data_exact:
  assumes s: "get_stream sid c = Some s" "hs_can_send s" and sid: "sid < 2 ^ 31"
    and n: "n = min (min (min (length data) (nat (fc_window (conn_send_fc c)))) (nat (hs_send_window s))) (max_frame_size (peer_settings c))"
    and windows: "fc_window (conn_send_fc c) < 2 ^ 31" "hs_send_window s < 2 ^ 31" "max_frame_size (peer_settings c) < 2 ^ 24"
    and room: "length (send_buf (h2io c)) + 9 + n \<le> BUF K" and heap: "heap (h2io c) = []"
  shows "(n = 0 \<and> data \<noteq> [] \<longrightarrow> h2_send_data K sid data es c = (c, Err WouldBlock)) \<and>
    (0 < n \<longrightarrow> (\<exists>c' s'. h2_send_data K sid data es c = (c', Ok n) \<and>
      send_buf (h2io c') = send_buf (h2io c) @ h2_frame_bytes (H2Data sid (take n data) (es \<and> n = length data)) \<and>
      fc_window (conn_send_fc c') = fc_window (conn_send_fc c) - int n \<and>
      get_stream sid c' = Some s' \<and> hs_send_window s' = hs_send_window s - int n \<and>
      hs_state s' = (if es \<and> n = length data then hs_state (hs_send_end_stream s) else hs_state s)))"
proof -
  have sendable: "sendable sid data c = n" using s(1) n by (simp add: sendable_def)
  have refused: "h2_send_data K sid data es c = (c, Err WouldBlock)" if "n = 0" "data \<noteq> []"
    using s that by (simp add: h2_send_data_def sendable)
  have sent: "\<exists>c' s'. h2_send_data K sid data es c = (c', Ok n) \<and>
      send_buf (h2io c') = send_buf (h2io c) @ h2_frame_bytes (H2Data sid (take n data) (es \<and> n = length data)) \<and>
      fc_window (conn_send_fc c') = fc_window (conn_send_fc c) - int n \<and>
      get_stream sid c' = Some s' \<and> hs_send_window s' = hs_send_window s - int n \<and>
      hs_state s' = (if es \<and> n = length data then hs_state (hs_send_end_stream s) else hs_state s)" if "0 < n"
  proof -
    let ?t = "take n data" and ?fin = "es \<and> n = length data"
    have b: "n \<le> length data" "n \<le> nat (fc_window (conn_send_fc c))" "n \<le> nat (hs_send_window s)"
      "n \<le> max_frame_size (peer_settings c)" by (auto simp: n)
    have len: "length ?t = n" "?t \<noteq> []" "data \<noteq> []" "n < 2 ^ 24" using b that windows(3) by auto
    have w: "int n \<le> fc_window (conn_send_fc c)" "int n \<le> hs_send_window s" using b that by linarith+
    define c1 where "c1 = c\<lparr>h2io := (h2io c)\<lparr>send_buf := send_buf (h2io c) @ h2_frame_bytes (H2Data sid ?t ?fin)\<rparr>\<rparr>"
    define c2 where "c2 = with_stream sid (\<lambda>s. s\<lparr>hs_send_window := as_i32 (hs_send_window s - int n)\<rparr>)
      (c1\<lparr>conn_send_fc := (conn_send_fc c)\<lparr>fc_window := fc_window (conn_send_fc c) - int n\<rparr>\<rparr>)"
    have q: "queue_data K sid ?t ?fin c = (c1, Ok ())"
      unfolding c1_def using len sid heap by (intro queue_data_wire) auto
    have cs: "commit_sent sid ?t c1 = (c2, Ok ())"
      using len w windows(1) by (simp add: commit_sent_def fc_consume_def Let_def c1_def c2_def)
    have g: "get_stream sid c2 = Some (s\<lparr>hs_send_window := hs_send_window s - int n\<rparr>)"
      using find_modify [OF s(1), of "\<lambda>s. s\<lparr>hs_send_window := as_i32 (hs_send_window s - int n)\<rparr>"] w windows(2)
      by (simp add: c2_def c1_def with_stream_def)
    have r: "h2_send_data K sid data es c =
        ((if ?fin then with_stream sid hs_send_end_stream c2 else c2)\<lparr>sent_since_tick := True\<rparr>, Ok n)"
      using s len room that by (simp add: h2_send_data_def sendable Let_def q cs conj_commute)
    show ?thesis
      unfolding r using g find_modify [OF g, of hs_send_end_stream]
      by (auto simp: c2_def c1_def with_stream_def hs_send_end_stream_def Let_def split: h2_stream_state.splits)
  qed
  show ?thesis using refused sent by blast
qed

definition sending_client :: h2_sys where
  "sending_client = (h2_new tiny_cfg Client empty_io)\<lparr>streams := [(h2_stream_new 1 65535 64)\<lparr>hs_state := Open\<rparr>]\<rparr>"

theorem h2_send_data_exact_witness:
  "\<exists>c'. h2_send_data tiny_cfg 1 [1, 2, 3] True sending_client = (c', Ok 3) \<and>
    send_buf (h2io c') = h2_frame_bytes (H2Data 1 [1, 2, 3] True) \<and> fc_window (conn_send_fc c') = 65532"
proof -
  let ?s = "(h2_stream_new 1 65535 64)\<lparr>hs_state := Open\<rparr>"
  have "get_stream 1 sending_client = Some ?s" "hs_can_send ?s"
    by (simp_all add: sending_client_def h2_find_stream_def h2_stream_new_def hs_can_send_def)
  from h2_send_data_exact [OF this, of 3 "[1, 2, 3]" tiny_cfg True] show ?thesis
    by (auto simp: sending_client_def h2_new_def empty_io_def tiny_cfg_def h2_settings_default_def fc_new_def h2_stream_new_def
        DEFAULT_CONNECTION_WINDOW_SIZE_def)
qed

end
