(* ===== verification/H2_Gaps.thy ===== *)
theory H2_Gaps
  imports H2_Safety
begin

unbundle bit_operations_syntax

text \<open>
  Where the HTTP/2 connection departs from what its comments or RFC 9113 say: failed calls that leave
  garbage or slots behind, header blocks that overwrite each other, stream identifiers that are accepted
  again, frames that are accepted after the end of a stream, and padding that is not flow-controlled.
\<close>

section \<open>Failed sends\<close>

text \<open>A full send buffer: nothing more is queued, and the next output starts where the last one stopped.\<close>

definition stuck :: "h2_cfg \<Rightarrow> bytes \<Rightarrow> nat \<Rightarrow> h2_sys \<Rightarrow> bool" where
  "stuck K b k c \<longleftrightarrow> send_buf (h2io c) = b \<and> length b = BUF K \<and> send_offset c = k"

lemma stuck_upd [simp]:
  "stuck K b k (c\<lparr>preface_sent := p\<rparr>) = stuck K b k c" "stuck K b k (c\<lparr>settings_sent := p\<rparr>) = stuck K b k c"
  "stuck K b k (c\<lparr>conn_recv_fc := f\<rparr>) = stuck K b k c" "stuck K b k (c\<lparr>pending_conn_credit := n\<rparr>) = stuck K b k c"
  "stuck K b k (c\<lparr>streams := ss\<rparr>) = stuck K b k c"
  by (simp_all add: stuck_def)

lemma stuck_queued: "stuck K b k c \<Longrightarrow> queued K (h2io c) i \<Longrightarrow> stuck K b k (c\<lparr>h2io := i\<rparr>)"
  by (auto simp: stuck_def queued_def)

abbreviation stays :: "h2_cfg \<Rightarrow> bytes \<Rightarrow> nat \<Rightarrow> h2_sys \<times> 'a res \<Rightarrow> bool" where
  "stays K b k \<equiv> post (\<lambda>_. stuck K b k) (stuck K b k)"

lemma on_io_stays:
  "stuck K b k c \<Longrightarrow> post (\<lambda>_. queued K (h2io c)) (queued K (h2io c)) (f (h2io c)) \<Longrightarrow> stays K b k (on_io f c)"
  by (rule post_on_io) (auto elim!: post_mono intro: stuck_queued)

lemma initial_settings_stays: "stuck K b k c \<Longrightarrow> stays K b k (send_initial_settings K c)"
proof -
  assume c: "stuck K b k c"
  obtain buf n where "encode_params (local_settings c) (replicate 64 0) = Ok (buf, n)" "n \<le> length buf"
    using encode_params_shape by blast
  then show ?thesis
    unfolding send_initial_settings_def using c
    by (auto intro!: post_sbind [where Q' = "\<lambda>_. stuck K b k"] on_io_stays queue_frame_post)
qed

lemma flush_stays: "stuck K b k c \<Longrightarrow> post (\<lambda>_. stuck K b k) (\<lambda>_. False) (flush_window_updates K c)"
  unfolding flush_window_updates_def
proof (rule post_sbind [where Q' = "\<lambda>_. stuck K b k"])
  assume c: "stuck K b k c"
  show "post (\<lambda>_. stuck K b k) (\<lambda>_. False) (flush_conn K c)"
    unfolding flush_conn_def Let_def
    by (intro post_if post_sbind [OF post_attempt [where P = "stuck K b k"]] on_io_stays queue_frame_post) (use c in auto)
  fix c' assume c': "stuck K b k c'"
  obtain i ss x where f: "flush_streams K (h2io c') (streams c') = ((i, ss), x)" by (metis surj_pair)
  with flush_streams_post [of K "h2io c'" "streams c'"] have "x = Ok ()" "queued K (h2io c') i" by (cases x; simp)+
  then show "post (\<lambda>_. stuck K b k) (\<lambda>_. False)
      (case flush_streams K (h2io c') (streams c') of ((i, ss), r) \<Rightarrow> (c'\<lparr>h2io := i, streams := ss\<rparr>, r))"
    using f stuck_queued [OF c'] by simp
qed

lemma generate_output_stays: "stuck K b k c \<Longrightarrow> post (\<lambda>_. stuck K b k) (\<lambda>_. False) (h2_generate_output K c)"
  unfolding h2_generate_output_def
  by (rule post_sbind [where Q' = "\<lambda>_. stuck K b k"])
     (auto intro!: post_if post_sbind [where Q' = "\<lambda>_. stuck K b k"] post_attempt on_io_stays queue_send_post
       initial_settings_stays flush_stays)

lemma poll_full:
  assumes "stuck K b k c" and "k < BUF K"
  shows "\<exists>c'. h2_poll_output K (BUF K) c = (c', Ok (Some (drop k b)))"
proof -
  obtain c1 x where g: "h2_generate_output K c = (c1, x)" by fastforce
  with generate_output_stays [OF assms(1)] have "x = Ok ()" and c1: "stuck K b k c1" by (cases x; simp)+
  then show ?thesis
    using g assms(2) by (auto simp: h2_poll_output_def stuck_def min_def)
qed

text \<open>
  C34: A header list that the encoder refuses both for the scratch array and for the rest of the send
  buffer fails with an error, but the send buffer is left full: its old contents are followed by nine zero
  bytes and whatever the encoder had written. The next output hands all of it to the network, and the
  peer reads the nine zeros as the header of an empty DATA frame on stream 0, which a connection answers
  with a protocol error.
\<close>

theorem h2_refused_headers_corrupt_output:
  assumes "get_stream sid c \<noteq> None" and "length (send_buf (h2io c)) + 9 \<le> BUF K" and "heap (h2io c) = []"
    and "send_offset c \<le> length (send_buf (h2io c))"
    and "hpack_encode headers (replicate HEADERS_SCRATCH 0) = Err (BufferTooSmall k)"
    and "hpack_encode headers (replicate (BUF K - (length (send_buf (h2io c)) + 9)) 0) = Err e"
  shows "\<exists>c' c'' garbage. h2_send_headers K junk sid headers es c = (c', Err e) \<and>
    h2_poll_output K (BUF K) c' =
      (c'', Ok (Some (drop (send_offset c) (send_buf (h2io c)) @ replicate 9 0 @ garbage))) \<and>
    length garbage = BUF K - (length (send_buf (h2io c)) + 9) \<and>
    decode_frame_header (replicate 9 0 @ garbage) = Ok \<lparr>hd_length = 0, hd_type = FRAME_DATA, hd_flags = 0, hd_stream_id = 0\<rparr> \<and>
    on_data 0 0 0 peer = (peer, Err (Http2 ProtocolError))"
proof -
  let ?m = "BUF K - (length (send_buf (h2io c)) + 9)"
  define garbage where "garbage = take ?m (junk @ replicate ?m 0)"
  define b where "b = send_buf (h2io c) @ replicate 9 0 @ garbage"
  let ?c = "c\<lparr>h2io := (h2io c)\<lparr>send_buf := b\<rparr>\<rparr>"
  have "h2_send_headers K junk sid headers es c = (?c, Err e)"
    using assms by (simp add: h2_send_headers_def ensure_stream_def encode_headers_block_def on_io_def buf_try_reserve_def
        Let_def b_def garbage_def)
  moreover have "length garbage = ?m" by (simp add: garbage_def)
  moreover from this have "stuck K b (send_offset c) ?c" using assms(2) by (simp add: stuck_def b_def)
  then obtain c'' where "h2_poll_output K (BUF K) ?c = (c'', Ok (Some (drop (send_offset c) b)))"
    using poll_full [of K b "send_offset c" ?c] assms(2,4) by auto
  moreover have "decode_frame_header (replicate 9 0 @ garbage) = Ok \<lparr>hd_length = 0, hd_type = FRAME_DATA, hd_flags = 0, hd_stream_id = 0\<rparr>"
    by (simp add: decode_frame_header_def FRAME_DATA_def idx_def idxs_def nth_append be_nat_def)
  ultimately show ?thesis using assms(4) by (auto simp: b_def on_data_def)
qed

lemma long_string_refused:
  assumes "length buf < length s"
  shows "\<exists>k. encode_string_literal s buf = Err (BufferTooSmall k)"
proof -
  have "fitted (length buf) (write_from 0 buf (encode_integer (length s) 7 0))"
    by (rule fitted_write_from [OF encode_integer_fitted]) simp_all
  then show ?thesis
    using assms by (cases "write_from 0 buf (encode_integer (length s) 7 0)") (auto simp: encode_string_literal_def fitted_def)
qed

lemma fitted_error: "fitted l r \<Longrightarrow> (\<And>b n. n \<le> l \<Longrightarrow> length b = l \<Longrightarrow> \<exists>k. f (b, n) = Err (BufferTooSmall k)) \<Longrightarrow>
    \<exists>k. res_bind r f = Err (BufferTooSmall k)"
  by (cases r) (auto simp: fitted_def)

lemma long_field_refused:
  assumes "l < length val"
  shows "\<exists>k. hpack_encode [([1], val)] (replicate l 0) = Err (BufferTooSmall k)"
proof -
  have "static_lookup [1] val = NotFound"
    by (simp add: static_lookup_def STATIC_TABLE_def static_0_def static_1_def static_2_def static_3_def ascii_def)
  moreover have "\<exists>k. res_bind (write_from 1 ((replicate l 0)[0 := 0]) (encode_string_literal [1]))
      (\<lambda>(buf, offset). write_from offset buf (encode_string_literal val)) = Err (BufferTooSmall k)" if "0 < l"
  proof (rule fitted_error [where l = l])
    show "fitted l (write_from 1 ((replicate l 0)[0 := 0]) (encode_string_literal [1]))"
      using that by (intro fitted_write_from encode_string_literal_fitted) auto
    fix b :: bytes and n assume "n \<le> l" and "length b = l"
    moreover from this have "length (drop n b) < length val" using assms by simp
    from long_string_refused [OF this] obtain k where "encode_string_literal val (drop n b) = Err (BufferTooSmall k)" by blast
    ultimately show "\<exists>k. (case (b, n) of (buf, offset) \<Rightarrow> write_from offset buf (encode_string_literal val)) = Err (BufferTooSmall k)"
      by (auto simp: write_from_def)
  qed
  ultimately show ?thesis by (cases "l = 0") (auto simp: hpack_encode_def encode_field_def)
qed

theorem h2_refused_headers_corrupt_output_witness:
  "\<exists>c' c'' e garbage. h2_send_headers tiny_cfg [] 1 [([1], replicate 2000 0)] True sending_client = (c', Err e) \<and>
     h2_poll_output tiny_cfg 256 c' = (c'', Ok (Some (replicate 9 0 @ garbage))) \<and> length garbage = 247"
proof -
  have g: "get_stream 1 sending_client \<noteq> None" by (simp add: sending_client_def h2_find_stream_def h2_stream_new_def)
  have i: "h2io sending_client = empty_io" "send_offset sending_client = 0" by (simp_all add: sending_client_def h2_new_def)
  obtain k where k: "hpack_encode [([1], replicate 2000 0)] (replicate HEADERS_SCRATCH 0) = Err (BufferTooSmall k)"
    using long_field_refused [of HEADERS_SCRATCH "replicate 2000 0"] by (auto simp: HEADERS_SCRATCH_def)
  obtain e where e: "hpack_encode [([1], replicate 2000 0)]
      (replicate (BUF tiny_cfg - (length (send_buf (h2io sending_client)) + 9)) 0) = Err (BufferTooSmall e)"
    using long_field_refused [of "BUF tiny_cfg - (length (send_buf (h2io sending_client)) + 9)" "replicate 2000 0"] by (auto simp: i empty_io_def tiny_cfg_def)
  show ?thesis
    using h2_refused_headers_corrupt_output [OF g _ _ _ k e, of "[]" True sending_client]
    by (auto simp: i empty_io_def tiny_cfg_def)
qed

text \<open>A failed \<^verbatim>\<open>open_stream\<close> keeps the identifier and a slot in state Idle, which no sweep removes.\<close>

lemma failed_open_leaks_slot:
  assumes "next_stream_id c \<le> 0x7fffffff" and "get_stream (next_stream_id c) c = None"
    and "length (streams c) < MAX_STREAMS K" and "BUF K < length (send_buf (h2io c)) + 9"
  shows "\<exists>c' s. h2_open_stream K junk headers es c = (c', Err (BufferTooSmall (length (send_buf (h2io c)) + 9))) \<and>
    streams c' = streams c @ [s] \<and> hs_state s = Idle \<and> retained s \<and> next_stream_id c' = next_stream_id c + 2"
  using assms
  by (simp add: h2_open_stream_def h2_send_headers_def ensure_stream_def Let_def h2_stream_new_def retained_def)

section \<open>Frames accepted against the protocol\<close>

lemma append_headers_fits:
  assumes "get_stream sid c = Some s" and "heap (h2io c) = []" and "length (hs_headers_data s) + length fragment \<le> HDRBUF K"
  shows "append_headers K sid fragment c = (with_stream sid (\<lambda>s. s\<lparr>hs_headers_data := hs_headers_data s @ fragment\<rparr>) c, Ok ())"
  using assms by (simp add: append_headers_def on_io_def buf_try_reserve_def)

lemma get_with_stream:
  "get_stream sid c = Some s \<Longrightarrow> (\<And>s. hs_id (f s) = hs_id s) \<Longrightarrow> get_stream sid (with_stream sid f c) = Some (f s)"
  by (simp add: with_stream_def find_modify)

text \<open>The fragment replaces a header block the application has not read yet: trailers overwrite the request.\<close>

lemma trailers_replace_headers:
  assumes s: "get_stream sid c = Some s" "hs_headers_received s" and "heap (h2io c) = []" and l: "length fragment \<le> HDRBUF K"
  shows "\<exists>c' s'. on_headers_open K sid fragment False True c = (c', Ok ()) \<and> get_stream sid c' = Some s' \<and>
    hs_headers_data s' = fragment \<and> hs_headers_received s'"
proof -
  let ?f = "\<lambda>s. (if hs_state s = Idle then hs_open s else s)\<lparr>hs_headers_data := []\<rparr>"
  define c1 where "c1 = with_stream sid ?f (c\<lparr>last_peer_stream_id := max (last_peer_stream_id c) sid\<rparr>)"
  have g1: "get_stream sid c1 = Some (?f s)" unfolding c1_def by (rule get_with_stream) (use s in auto)
  have h: "heap (h2io c1) = []" using assms(3) by (simp add: c1_def with_stream_def)
  have a: "append_headers K sid fragment c1 = (with_stream sid (\<lambda>s. s\<lparr>hs_headers_data := hs_headers_data s @ fragment\<rparr>) c1, Ok ())"
    by (rule append_headers_fits [OF g1 h]) (use l in simp)
  have g2: "get_stream sid (with_stream sid (\<lambda>s. s\<lparr>hs_headers_data := hs_headers_data s @ fragment\<rparr>) c1)
      = Some ((?f s)\<lparr>hs_headers_data := fragment\<rparr>)" using get_with_stream [OF g1] by simp
  show ?thesis
    using s(1) get_with_stream [OF g2, of "\<lambda>s. s\<lparr>hs_headers_received := True\<rparr>"]
    unfolding on_headers_open_def Let_def by (simp add: ensure_stream_def a flip: c1_def) (simp add: h2_push_event_def)
qed

lemma find_fresh: "\<forall>s \<in> set ss. hs_id s \<noteq> sid \<Longrightarrow> hs_id t = sid \<Longrightarrow> h2_find_stream sid (ss @ [t]) = Some t"
  by (induction ss) (auto simp: h2_find_stream_def)

text \<open>A server takes HEADERS on any unknown odd identifier as a new stream, also below one it has already finished.\<close>

lemma finished_stream_reopened:
  assumes "role c = Server" and "odd sid" and "get_stream sid c = None" and "length (streams c) < MAX_STREAMS K"
    and "heap (h2io c) = []" and "length fragment \<le> HDRBUF K" and "sid \<le> last_peer_stream_id c"
  shows "\<exists>c'. on_fragment K sid fragment False True c = (c', Ok ()) \<and> get_stream sid c' \<noteq> None"
proof -
  let ?s = "h2_stream_new sid (as_i32 (int (initial_window_size (peer_settings c)))) (as_i32 (int (initial_window_size (local_settings c))))"
  let ?f = "\<lambda>s. (if hs_state s = Idle then hs_open s else s)\<lparr>hs_headers_data := []\<rparr>"
  define c0 where "c0 = c\<lparr>last_peer_stream_id := max (last_peer_stream_id c) sid, streams := streams c @ [?s]\<rparr>"
  have new: "\<forall>s \<in> set (streams c). hs_id s \<noteq> sid" using assms(3) by (auto simp: h2_find_stream_def find_None_iff)
  then have g: "get_stream sid c0 = Some ?s"
    using find_fresh [OF new, of ?s] by (simp add: c0_def h2_stream_new_def)
  have e: "ensure_stream K sid (c\<lparr>last_peer_stream_id := max (last_peer_stream_id c) sid\<rparr>) = (c0, True)"
    using assms(3,4) by (simp add: ensure_stream_def c0_def)
  have closed: "\<not> headers_closed sid c" using assms(1,2) new by (auto simp: headers_closed_def odd_iff_mod_2_eq_one)
  define c1 where "c1 = with_stream sid ?f c0"
  have g1: "get_stream sid c1 = Some (?f ?s)" unfolding c1_def by (rule get_with_stream [OF g]) auto
  have a: "append_headers K sid fragment c1 = (with_stream sid (\<lambda>s. s\<lparr>hs_headers_data := hs_headers_data s @ fragment\<rparr>) c1, Ok ())"
    by (rule append_headers_fits [OF g1]) (use assms(5,6) in \<open>simp_all add: c1_def c0_def with_stream_def\<close>)
  have g2: "get_stream sid (with_stream sid (\<lambda>s. s\<lparr>hs_headers_data := hs_headers_data s @ fragment\<rparr>) c1)
      = Some ((?f ?s)\<lparr>hs_headers_data := fragment\<rparr>)" using get_with_stream [OF g1] by simp
  show ?thesis
    using closed assms(1,2) get_with_stream [OF g2, of "\<lambda>s. s\<lparr>hs_headers_received := True\<rparr>"]
    unfolding on_fragment_def on_headers_open_def Let_def
    by (simp add: odd_iff_mod_2_eq_one e a flip: c1_def) (simp add: h2_push_event_def)
qed

text \<open>DATA behind END_STREAM is delivered: only a closed stream stops receiving.\<close>

lemma data_after_end_delivered:
  assumes "find (\<lambda>s. hs_id s = sid \<and> hs_state s \<noteq> h2_stream_state.Closed) (streams c) = Some s"
    and "hs_state s = HalfClosedRemote" and "\<not> settings_ack_received c"
    and "int n \<le> fc_window (conn_recv_fc c)" and "fc_window (conn_recv_fc c) \<le> 65535" and "h \<le> length (recv_buf (h2io c))"
  shows "\<exists>c' pd. accept_data flags sid h n pad c = (c', Ok True) \<and> partial c' = Some pd \<and> pd_deliver pd"
  using assms by (simp add: accept_data_def fc_consume_def drain_post Let_def)

text \<open>
  RFC 9113 counts the whole payload of a DATA frame, the padding and its length byte included, against
  the windows; here only the data counts, so the sender's window loses the padding for good.
\<close>

lemma padding_not_counted:
  assumes "flags AND FLAG_PADDED \<noteq> 0" and "9 < length (recv_buf (h2io c))" and "unat (recv_buf (h2io c) ! 9) = pad"
    and "pad < payload_len"
  shows "data_lengths flags payload_len c = Ok (payload_len - (pad + 1), pad)"
  using assms by (simp add: data_lengths_def Let_def)

end
