(* ===== verification/Http1_Parse.thy ===== *)
theory Http1_Parse
  imports Milli_Prelude
begin

text \<open>
  The HTTP/1.1 parsers (\<^verbatim>\<open>src/http1/parse.rs\<close>): request, status and header lines, chunk sizes, and the splits they
  are made of. The searches return options, as the source does to stay free of slice indexing. The lemmas say
  that a parser consumes whole lines, that more input after a line never changes what is parsed, that a number
  is read at its value or refused, and that the lines the encoders print are read back.
\<close>

section \<open>Splits\<close>

abbreviation CRLF :: bytes where
  "CRLF \<equiv> [13, 10]"

text \<open>\<^verbatim>\<open>buf.windows(pat.len()).position(|w| w == pat)\<close>.\<close>

fun window_position :: "bytes \<Rightarrow> bytes \<Rightarrow> nat option" where
  "window_position pat [] = None"
| "window_position pat (b # bs) =
    (if length (b # bs) < length pat then None
     else if take (length pat) (b # bs) = pat then Some 0
     else map_option Suc (window_position pat bs))"

definition find_end_of_headers :: "bytes \<Rightarrow> nat option" where
  "find_end_of_headers buf = map_option (\<lambda>i. i + 4) (window_position [13, 10, 13, 10] buf)"

definition split_line :: "bytes \<Rightarrow> (bytes \<times> nat) option" where
  "split_line buf =
    Option.bind (window_position CRLF buf) (\<lambda>e. if e \<le> length buf then Some (take e buf, e + 2) else None)"

definition split_at_checked :: "nat \<Rightarrow> bytes \<Rightarrow> (bytes \<times> bytes) option" where
  "split_at_checked n buf = (if n \<le> length buf then Some (take n buf, drop n buf) else None)"

definition split_once :: "bytes \<Rightarrow> byte \<Rightarrow> (bytes \<times> bytes) option" where
  "split_once buf delim =
    Option.bind (position (\<lambda>b. b = delim) buf) (\<lambda>p.
    Option.bind (split_at_checked p buf) (\<lambda>(before, rest).
    case rest of [] \<Rightarrow> None | _ # after \<Rightarrow> Some (before, after)))"

definition ows :: "byte \<Rightarrow> bool" where
  "ows b \<longleftrightarrow> b = 32 \<or> b = 9"

text \<open>The two loops: strip from the front, then from the back.\<close>

definition trim_ows :: "bytes \<Rightarrow> bytes" where
  "trim_ows buf = rev (dropWhile ows (rev (dropWhile ows buf)))"

definition starts_with :: "bytes \<Rightarrow> bytes \<Rightarrow> bool" where
  "starts_with buf pre \<longleftrightarrow> take (length pre) buf = pre"

section \<open>Numbers\<close>

text \<open>One turn of the digit loops: \<^verbatim>\<open>checked_mul\<close>, then \<^verbatim>\<open>checked_add\<close>, in \<open>w\<close> bits.\<close>

definition checked_digit :: "nat \<Rightarrow> nat \<Rightarrow> nat \<Rightarrow> nat \<Rightarrow> nat option" where
  "checked_digit w base n d =
    (if n * base \<ge> 2 ^ w then None else if n * base + d \<ge> 2 ^ w then None else Some (n * base + d))"

fun decimal_loop :: "nat \<Rightarrow> nat \<Rightarrow> bytes \<Rightarrow> nat option" where
  "decimal_loop w n [] = Some n"
| "decimal_loop w n (b # bs) =
    (let d = b - 48 in if d > 9 then None else Option.bind (checked_digit w 10 n (unat d)) (\<lambda>n. decimal_loop w n bs))"

definition parse_decimal_u16 :: "bytes \<Rightarrow> nat option" where
  "parse_decimal_u16 buf = decimal_loop 16 0 buf"

definition hex_digit :: "byte \<Rightarrow> nat option" where
  "hex_digit b =
    (if 48 \<le> b \<and> b \<le> 57 then Some (unat (b - 48))
     else if 97 \<le> b \<and> b \<le> 102 then Some (unat (b - 97 + 10))
     else if 65 \<le> b \<and> b \<le> 70 then Some (unat (b - 65 + 10))
     else None)"

fun hex_loop :: "nat \<Rightarrow> nat \<Rightarrow> bytes \<Rightarrow> nat option" where
  "hex_loop uw n [] = Some n"
| "hex_loop uw n (b # bs) =
    Option.bind (hex_digit b) (\<lambda>d. Option.bind (checked_digit uw 16 n d) (\<lambda>n. hex_loop uw n bs))"

definition parse_hex :: "nat \<Rightarrow> bytes \<Rightarrow> nat option" where
  "parse_hex uw buf = (if buf = [] then None else hex_loop uw 0 buf)"

section \<open>Lines\<close>

definition parse_request_line :: "bytes \<Rightarrow> (bytes \<times> bytes \<times> nat) res" where
  "parse_request_line buf =
    res_bind (ok_or (split_line buf) WouldBlock) (\<lambda>(line, consumed).
    res_bind (ok_or (split_once line 32) InvalidState) (\<lambda>(method, rest).
    res_bind (ok_or (split_once rest 32) InvalidState) (\<lambda>(path, version).
    if method = [] \<or> path = [] \<or> \<not> starts_with version (ascii ''HTTP/1.'') then Err InvalidState
    else Ok (method, path, consumed))))"

definition parse_status_line :: "bytes \<Rightarrow> (nat \<times> bytes \<times> nat) res" where
  "parse_status_line buf =
    res_bind (ok_or (split_line buf) WouldBlock) (\<lambda>(line, consumed).
    if \<not> starts_with line (ascii ''HTTP/1.'') then Err InvalidState
    else
      res_bind (ok_or (split_once line 32) InvalidState) (\<lambda>(_, rest).
      res_bind (ok_or (split_at_checked 3 rest) InvalidState) (\<lambda>(status_bytes, rest).
      res_bind (ok_or (parse_decimal_u16 status_bytes) InvalidState) (\<lambda>status.
      if status < 100 then Err InvalidState
      else Ok (status, if starts_with rest [32] then drop 1 rest else [], consumed)))))"

definition parse_header_line :: "bytes \<Rightarrow> (bytes \<times> bytes \<times> nat) res" where
  "parse_header_line buf =
    (if starts_with buf CRLF then Ok ([], [], 2)
     else
       res_bind (ok_or (split_line buf) WouldBlock) (\<lambda>(line, consumed).
       res_bind (ok_or (split_once line 58) InvalidState) (\<lambda>(name, val).
       if name = [] then Err InvalidState
       else if list_ex (\<lambda>b. b = 32 \<or> b = 9) name then Err InvalidState
       else
         let val = trim_ows val
         in if list_ex (\<lambda>b. b < 0x20 \<and> b \<noteq> 9 \<or> b = 0x7f) val then Err InvalidState
            else Ok (name, val, consumed))))"

text \<open>\<^verbatim>\<open>line.split(..).next()\<close> is the part before the first separator, the whole line when there is none.\<close>

definition parse_chunk_size :: "nat \<Rightarrow> bytes \<Rightarrow> (nat \<times> nat) res" where
  "parse_chunk_size uw buf =
    res_bind (ok_or (split_line buf) WouldBlock) (\<lambda>(line, consumed).
    let hex_str = takeWhile (\<lambda>b. \<not> (b = 59 \<or> b = 32)) line
    in res_bind (ok_or (parse_hex uw hex_str) InvalidState) (\<lambda>sz. Ok (sz, consumed)))"

section \<open>What the splits return\<close>

lemma window_position_Some:
  "window_position pat buf = Some i \<Longrightarrow> pat \<noteq> [] \<Longrightarrow> take (length pat) (drop i buf) = pat \<and> i + length pat \<le> length buf"
  by (induction pat buf arbitrary: i rule: window_position.induct) (auto split: if_splits)

lemma take_Cons_append: "\<not> Suc (length bs) < n \<Longrightarrow> take n (b # bs @ more) = take n (b # bs)"
  by (simp flip: append_Cons)

lemma window_position_append:
  "window_position pat buf = Some i \<Longrightarrow> pat \<noteq> [] \<Longrightarrow> window_position pat (buf @ more) = Some i"
  by (induction pat buf arbitrary: i rule: window_position.induct) (auto simp: take_Cons_append split: if_splits)

lemma window_position_first:
  "b \<notin> set xs \<Longrightarrow> window_position (b # pat) (xs @ (b # pat) @ more) = Some (length xs)"
  by (induction xs) auto

lemma window_position_prefix:
  "window_position pat buf = Some i \<Longrightarrow> pat \<noteq> [] \<Longrightarrow> i + length pat \<le> n \<Longrightarrow> window_position pat (take n buf) = Some i"
proof (induction pat buf arbitrary: i n rule: window_position.induct)
  case (2 pat b bs)
  then obtain m where n: "n = Suc m" by (cases n) auto
  have "take (length pat) (take n (b # bs)) = take (length pat) (b # bs)" using 2(4) by simp
  then show ?case using 2 n by (auto split: if_splits simp: min_def)
qed simp

lemma split_line_Some:
  assumes "split_line buf = Some (line, n)"
  shows "take n buf = line @ CRLF" and "n = length line + 2" and "n \<le> length buf"
proof -
  obtain e where e: "window_position CRLF buf = Some e" and l: "line = take e buf" and n: "n = e + 2"
    using assms by (auto simp: split_line_def bind_eq_Some_conv split: if_splits)
  note w = window_position_Some [OF e]
  show "n = length line + 2" "n \<le> length buf" using w l n by auto
  have "take (e + 2) buf = take e buf @ take 2 (drop e buf)" by (simp only: take_add)
  then show "take n buf = line @ CRLF" using w l n by (simp add: numeral_2_eq_2)
qed

lemma split_line_bounds: "split_line buf = Some (line, n) \<Longrightarrow> 2 \<le> n \<and> n \<le> length buf"
  using split_line_Some(2,3) [of buf line n] by simp

lemma split_line_append: "split_line buf = Some r \<Longrightarrow> split_line (buf @ more) = Some r"
  using window_position_append [of CRLF buf _ more]
  by (auto simp: split_line_def bind_eq_Some_conv split: if_splits)

lemma split_line_print: "13 \<notin> set line \<Longrightarrow> split_line (line @ CRLF @ more) = Some (line, length line + 2)"
  using window_position_first [of 13 line "[10]" more] by (simp add: split_line_def)

lemma position_first: "(\<forall>x \<in> set xs. \<not> P x) \<Longrightarrow> P y \<Longrightarrow> position P (xs @ y # ys) = Some (length xs)"
  by (induction xs) auto

lemma split_once_print: "d \<notin> set a \<Longrightarrow> split_once (a @ d # b) d = Some (a, b)"
  using position_first [of a "\<lambda>b. b = d" d b] by (fastforce simp: split_once_def split_at_checked_def)

lemma trim_ows_id: "v = [] \<or> \<not> ows (hd v) \<and> \<not> ows (last v) \<Longrightarrow> trim_ows v = v"
  by (cases v rule: rev_cases) (auto simp: trim_ows_def hd_append dropWhile_append dropWhile_eq_self_iff split: if_splits)

lemma trim_ows_front: "ows b \<Longrightarrow> trim_ows (b # v) = trim_ows v"
  by (simp add: trim_ows_def)

section \<open>Numbers are read at their value or refused\<close>

definition hex_value :: "nat \<Rightarrow> bytes \<Rightarrow> nat" where
  "hex_value n bs = foldl (\<lambda>n b. n * 16 + the (hex_digit b)) n bs"

definition decimal_value :: "nat \<Rightarrow> bytes \<Rightarrow> nat" where
  "decimal_value n bs = foldl (\<lambda>n b. n * 10 + unat (b - 48)) n bs"

lemma checked_digit_eq: "checked_digit w base n d = (if n * base + d < 2 ^ w then Some (n * base + d) else None)"
  by (auto simp: checked_digit_def)

lemma digits_mono: "0 < (base :: nat) \<Longrightarrow> n \<le> foldl (\<lambda>n b. n * base + f b) n bs"
proof (induction bs arbitrary: n)
  case (Cons b bs)
  have "n \<le> n * base + f b" using Cons.prems by (simp add: trans_le_add1)
  also have "\<dots> \<le> foldl (\<lambda>n b. n * base + f b) (n * base + f b) bs" using Cons by blast
  finally show ?case by simp
qed simp

lemma hex_loop_value:
  "hex_loop uw n bs =
    (if (\<forall>b \<in> set bs. hex_digit b \<noteq> None) \<and> (bs = [] \<or> hex_value n bs < 2 ^ uw) then Some (hex_value n bs) else None)"
proof (induction bs arbitrary: n)
  case (Cons b bs)
  show ?case
  proof (cases "hex_digit b")
    case (Some d)
    have v: "hex_value n (b # bs) = hex_value (n * 16 + d) bs" by (simp add: hex_value_def Some)
    have "n * 16 + d \<le> hex_value (n * 16 + d) bs" by (simp add: hex_value_def digits_mono)
    moreover have "bs = [] \<Longrightarrow> hex_value (n * 16 + d) bs = n * 16 + d" by (simp add: hex_value_def)
    ultimately show ?thesis using Some by (auto simp: v checked_digit_eq Cons.IH)
  qed simp
qed (simp add: hex_value_def)

lemma decimal_loop_value:
  "decimal_loop w n bs =
    (if (\<forall>b \<in> set bs. b - 48 \<le> 9) \<and> (bs = [] \<or> decimal_value n bs < 2 ^ w) then Some (decimal_value n bs) else None)"
proof (induction bs arbitrary: n)
  case (Cons b bs)
  show ?case
  proof (cases "b - 48 \<le> 9")
    case True
    have v: "decimal_value n (b # bs) = decimal_value (n * 10 + unat (b - 48)) bs" by (simp add: decimal_value_def)
    have "n * 10 + unat (b - 48) \<le> decimal_value (n * 10 + unat (b - 48)) bs" by (simp add: decimal_value_def digits_mono)
    moreover have "bs = [] \<Longrightarrow> decimal_value (n * 10 + unat (b - 48)) bs = n * 10 + unat (b - 48)"
      by (simp add: decimal_value_def)
    ultimately show ?thesis using True by (auto simp: v checked_digit_eq Cons.IH Let_def not_less)
  qed (simp add: Let_def not_le)
qed (simp add: decimal_value_def)

section \<open>Printed lines are read back\<close>

lemma ascii_Cons: "ascii (ch # s) = word_of_nat (of_char ch) # ascii s"
  by (simp add: ascii_def)

lemma ascii_Nil [simp]: "ascii [] = []"
  by (simp add: ascii_def)

text \<open>A name without separators, and a value as a sender should give it.\<close>

definition token :: "bytes \<Rightarrow> bool" where
  "token n \<longleftrightarrow> n \<noteq> [] \<and> set n \<inter> {0, 9, 10, 13, 32, 58} = {}"

definition field_value :: "bytes \<Rightarrow> bool" where
  "field_value v \<longleftrightarrow> list_all (\<lambda>b. 0x20 \<le> b \<and> b \<noteq> 0x7f \<or> b = 9) v \<and> (v = [] \<or> \<not> ows (hd v) \<and> \<not> ows (last v))"

definition line_word :: "bytes \<Rightarrow> bool" where
  "line_word p \<longleftrightarrow> p \<noteq> [] \<and> 13 \<notin> set p \<and> 32 \<notin> set p"

lemma request_line_print:
  assumes "line_word m" and "line_word p"
  shows "parse_request_line (m @ ascii '' '' @ p @ ascii '' HTTP/1.1'' @ CRLF @ more) = Ok (m, p, length m + length p + 12)"
proof -
  have l: "split_line ((m @ 32 # p @ 32 # ascii ''HTTP/1.1'') @ CRLF @ more)
      = Some (m @ 32 # p @ 32 # ascii ''HTTP/1.1'', length (m @ 32 # p @ 32 # ascii ''HTTP/1.1'') + 2)"
    using assms by (intro split_line_print) (auto simp: line_word_def ascii_def)
  have "split_once (m @ 32 # p @ 32 # ascii ''HTTP/1.1'') 32 = Some (m, p @ 32 # ascii ''HTTP/1.1'')"
    and "split_once (p @ 32 # ascii ''HTTP/1.1'') 32 = Some (p, ascii ''HTTP/1.1'')"
    using assms by (auto simp: line_word_def intro: split_once_print)
  moreover have "starts_with (ascii ''HTTP/1.1'') (ascii ''HTTP/1.'')" by code_simp
  moreover have "ascii '' '' = [32]" "ascii '' HTTP/1.1'' = 32 # ascii ''HTTP/1.1''" "length (ascii ''HTTP/1.1'') = 8"
    by (simp_all add: ascii_def)
  ultimately show ?thesis using l assms by (simp add: parse_request_line_def line_word_def)
qed

lemma field_value_chars: "field_value v \<Longrightarrow> b \<in> set v \<Longrightarrow> b \<noteq> 13 \<and> b \<noteq> 0 \<and> \<not> (b < 0x20 \<and> b \<noteq> 9 \<or> b = 0x7f)"
  by (auto simp: field_value_def list_all_iff not_less)

lemma header_line_print:
  assumes "token n" and "field_value v"
  shows "parse_header_line (n @ ascii '': '' @ v @ CRLF @ more) = Ok (n, v, length n + length v + 4)"
proof -
  have l: "split_line ((n @ 58 # 32 # v) @ CRLF @ more) = Some (n @ 58 # 32 # v, length (n @ 58 # 32 # v) + 2)"
    using assms field_value_chars [of v 13] by (intro split_line_print) (auto simp: token_def)
  have s: "split_once (n @ 58 # 32 # v) 58 = Some (n, 32 # v)"
    using assms by (intro split_once_print) (auto simp: token_def)
  have t: "trim_ows (32 # v) = v"
    using assms by (simp add: trim_ows_front ows_def trim_ows_id field_value_def)
  have q: "\<not> starts_with (n @ 58 # 32 # v @ CRLF @ more) CRLF"
    using assms by (cases n) (auto simp: token_def starts_with_def)
  have x: "\<not> list_ex (\<lambda>b. b < 0x20 \<and> b \<noteq> 9 \<or> b = 0x7f) v" "\<not> list_ex (\<lambda>b. b = 32 \<or> b = 9) n" "n \<noteq> []"
    using assms field_value_chars by (fastforce simp: list_ex_iff token_def)+
  have a: "ascii '': '' = [58, 32]" by (simp add: ascii_def)
  show ?thesis using l s t q x by (simp add: parse_header_line_def a Let_def)
qed

lemma header_end_print: "parse_header_line (CRLF @ more) = Ok ([], [], 2)"
  by (simp add: parse_header_line_def starts_with_def)

end
