(* ===== verification/Http1_Connection.thy ===== *)
theory Http1_Connection
  imports Http1_Parse Http_Common
begin

text \<open>
  The HTTP/1.1 connection (\<^verbatim>\<open>src/http1/connection.rs\<close>, \<^verbatim>\<open>src/http1/io.rs\<close>): the receive loop over a message's head
  and its body (content length, chunked, or until close), the encoders, and the application's calls. As for HTTP/2,
  the buffers are byte lists bounded by their const generics, the answers of the allocator are part of the
  state, and the buffers lent by the caller are kept with the connection. \<^verbatim>\<open>buf_shrink_to\<close> gives capacity back and
  leaves the contents alone, so it does not appear.
\<close>

section \<open>Data\<close>

record h1_cfg =
  H1_HDRBUF :: nat
  H1_DATABUF :: nat
  H1_BUF :: nat
  H1_USIZE :: nat

datatype h1_event = H1Connected | H1Headers nat | H1Data nat | H1Finished nat | H1Timeout

datatype h1_role = H1Client | H1Server

datatype parse_state = Idle | BodyContentLength nat | BodyChunked | BodyUntilClose | Done

datatype chunk_phase = ChunkSize | ChunkData nat | ChunkDataTrailer | ChunkTrailers

record h1_conn =
  h1_role :: h1_role
  h1_state :: parse_state
  h1_send_offset :: nat
  header_buf :: bytes
  headers_available :: bool
  data_buf :: bytes
  h1_events :: "h1_event list"
  current_stream_id :: nat
  chunk_state :: chunk_phase
  keep_alive :: bool
  body_finished :: bool
  body_parked :: bool
  connected_emitted :: bool
  h1_timeouts :: timeout_config
  h1_last_activity :: nat
  h1_sent_since_tick :: bool
  h1_connection_start :: nat
  h1_headers_phase_complete :: bool
  h1_closed :: bool

text \<open>The two lent buffers and the answers to the coming reservations.\<close>

record h1_sys = h1_conn +
  h1_recv_buf :: bytes
  h1_send_buf :: bytes
  h1_heap :: "bool list"

definition h1_new :: "h1_role \<Rightarrow> bytes \<Rightarrow> bytes \<Rightarrow> bool list \<Rightarrow> h1_sys" where
  "h1_new r rb sb hp =
    \<lparr>h1_role = r, h1_state = Idle, h1_send_offset = 0, header_buf = [], headers_available = False, data_buf = [],
     h1_events = [], current_stream_id = 0, chunk_state = ChunkSize, keep_alive = True, body_finished = False,
     body_parked = False, connected_emitted = False, h1_timeouts = timeout_config_default, h1_last_activity = 0,
     h1_sent_since_tick = False, h1_connection_start = 0, h1_headers_phase_complete = False, h1_closed = False,
     h1_recv_buf = rb, h1_send_buf = sb, h1_heap = hp\<rparr>"

section \<open>Buffers and events\<close>

definition h1_try_reserve :: "nat \<Rightarrow> h1_sys \<Rightarrow> h1_sys \<times> unit res" where
  "h1_try_reserve n c =
    (if n = 0 then (c, Ok ())
     else case h1_heap c of
       [] \<Rightarrow> (c, Ok ())
     | b # bs \<Rightarrow> (c\<lparr>h1_heap := bs\<rparr>, if b then Ok () else Err OutOfMemory))"

definition h1_extend :: "nat \<Rightarrow> bytes \<Rightarrow> bytes \<Rightarrow> bytes" where
  "h1_extend cap buf data = (if length buf + length data \<le> cap then buf @ data else buf)"

definition h1_drain_recv :: "nat \<Rightarrow> h1_sys \<Rightarrow> h1_sys \<times> unit res" where
  "h1_drain_recv n c =
    (if n \<le> length (h1_recv_buf c) then (c\<lparr>h1_recv_buf := drop n (h1_recv_buf c)\<rparr>, Ok ()) else (c, Panic))"

definition h1_queue_send :: "h1_cfg \<Rightarrow> bytes \<Rightarrow> h1_sys \<Rightarrow> h1_sys \<times> unit res" where
  "h1_queue_send K data c =
    (if length (h1_send_buf c) + length data > H1_BUF K
     then (c, Err (BufferTooSmall (length (h1_send_buf c) + length data)))
     else sbind (h1_try_reserve (length data) c) (\<lambda>c _.
            (c\<lparr>h1_send_buf := h1_extend (H1_BUF K) (h1_send_buf c) data\<rparr>, Ok ())))"

text \<open>\<^verbatim>\<open>push_back\<close> on a \<^verbatim>\<open>heapless::Deque<_, 32>\<close> whose result is ignored: a full queue drops the new event.\<close>

definition h1_push_event :: "h1_event \<Rightarrow> h1_sys \<Rightarrow> h1_sys" where
  "h1_push_event e c = (if length (h1_events c) < 32 then c\<lparr>h1_events := h1_events c @ [e]\<rparr> else c)"

definition h1_poll_event :: "h1_sys \<Rightarrow> h1_sys \<times> h1_event option" where
  "h1_poll_event c =
    (if \<not> connected_emitted c then (c\<lparr>connected_emitted := True\<rparr>, Some H1Connected)
     else case h1_events c of [] \<Rightarrow> (c, None) | e # es \<Rightarrow> (c\<lparr>h1_events := es\<rparr>, Some e))"

text \<open>The caller's buffer has \<open>n\<close> bytes.\<close>

definition h1_poll_output :: "nat \<Rightarrow> h1_sys \<Rightarrow> h1_sys \<times> bytes option res" where
  "h1_poll_output n c =
    (if h1_send_offset c \<ge> length (h1_send_buf c) then (c, Ok None)
     else
       let avail = length (h1_send_buf c) - h1_send_offset c;
           n = min avail n
       in case slice (h1_send_buf c) (h1_send_offset c) (h1_send_offset c + n) of
            Ok out \<Rightarrow>
              let c = c\<lparr>h1_send_offset := h1_send_offset c + n\<rparr>
              in if h1_send_offset c \<ge> length (h1_send_buf c)
                 then (c\<lparr>h1_send_buf := [], h1_send_offset := 0\<rparr>, Ok (Some out))
                 else (c, Ok (Some out))
          | Err e \<Rightarrow> (c, Err e)
          | Panic \<Rightarrow> (c, Panic))"

section \<open>Helpers\<close>

definition to_ascii_lowercase :: "byte \<Rightarrow> byte" where
  "to_ascii_lowercase b = (if 65 \<le> b \<and> b \<le> 90 then b + 32 else b)"

definition eq_ignore_case :: "bytes \<Rightarrow> bytes \<Rightarrow> bool" where
  "eq_ignore_case a b \<longleftrightarrow>
    length a = length b \<and> list_all (\<lambda>(x, y). to_ascii_lowercase x = to_ascii_lowercase y) (zip a b)"

definition contains_ignore_case :: "bytes \<Rightarrow> bytes \<Rightarrow> bool" where
  "contains_ignore_case haystack needle \<longleftrightarrow>
    length needle \<le> length haystack \<and>
    list_ex (\<lambda>i. eq_ignore_case (take (length needle) (drop i haystack)) needle) [0..<Suc (length haystack - length needle)]"

definition parse_usize_ascii :: "nat \<Rightarrow> bytes \<Rightarrow> nat option" where
  "parse_usize_ascii uw buf = (if buf = [] then None else decimal_loop uw 0 buf)"

definition status_reason :: "bytes \<Rightarrow> bytes" where
  "status_reason status =
    (if status = ascii ''100'' then ascii ''Continue''
     else if status = ascii ''101'' then ascii ''Switching Protocols''
     else if status = ascii ''200'' then ascii ''OK''
     else if status = ascii ''201'' then ascii ''Created''
     else if status = ascii ''204'' then ascii ''No Content''
     else if status = ascii ''301'' then ascii ''Moved Permanently''
     else if status = ascii ''302'' then ascii ''Found''
     else if status = ascii ''304'' then ascii ''Not Modified''
     else if status = ascii ''307'' then ascii ''Temporary Redirect''
     else if status = ascii ''308'' then ascii ''Permanent Redirect''
     else if status = ascii ''400'' then ascii ''Bad Request''
     else if status = ascii ''401'' then ascii ''Unauthorized''
     else if status = ascii ''403'' then ascii ''Forbidden''
     else if status = ascii ''404'' then ascii ''Not Found''
     else if status = ascii ''405'' then ascii ''Method Not Allowed''
     else if status = ascii ''408'' then ascii ''Request Timeout''
     else if status = ascii ''413'' then ascii ''Payload Too Large''
     else if status = ascii ''429'' then ascii ''Too Many Requests''
     else if status = ascii ''500'' then ascii ''Internal Server Error''
     else if status = ascii ''502'' then ascii ''Bad Gateway''
     else if status = ascii ''503'' then ascii ''Service Unavailable''
     else [])"

definition store_header_kv :: "h1_cfg \<Rightarrow> bytes \<Rightarrow> bytes \<Rightarrow> h1_sys \<Rightarrow> h1_sys \<times> unit res" where
  "store_header_kv K name val c =
    (let needed = length name + 1 + length val + 1
     in if length (header_buf c) + needed > H1_HDRBUF K then (c, Err (BufferTooSmall needed))
        else sbind (h1_try_reserve needed c) (\<lambda>c _.
               let hb = h1_extend (H1_HDRBUF K) (header_buf c) name;
                   hb = h1_extend (H1_HDRBUF K) hb [0];
                   hb = h1_extend (H1_HDRBUF K) hb val;
                   hb = h1_extend (H1_HDRBUF K) hb [0]
               in (c\<lparr>header_buf := hb\<rparr>, Ok ())))"

definition store_header :: "h1_cfg \<Rightarrow> bytes \<Rightarrow> bytes \<Rightarrow> h1_sys \<Rightarrow> h1_sys \<times> unit res" where
  "store_header K method path c =
    sbind (store_header_kv K (ascii '':method'') method c) (\<lambda>c _. store_header_kv K (ascii '':path'') path c)"

definition check_stream_id :: "nat \<Rightarrow> h1_sys \<Rightarrow> unit res" where
  "check_stream_id sid c = (if sid \<noteq> current_stream_id c then Err InvalidState else Ok ())"

section \<open>Encoding\<close>

text \<open>A run of \<^verbatim>\<open>io.queue_send(..)?\<close> calls.\<close>

fun queue_all :: "h1_cfg \<Rightarrow> bytes list \<Rightarrow> h1_sys \<Rightarrow> h1_sys \<times> unit res" where
  "queue_all K [] c = (c, Ok ())"
| "queue_all K (d # ds) c = sbind (h1_queue_send K d c) (\<lambda>c _. queue_all K ds c)"

text \<open>The value of the last header of that name.\<close>

definition pseudo_header :: "bytes \<Rightarrow> bytes \<Rightarrow> (bytes \<times> bytes) list \<Rightarrow> bytes" where
  "pseudo_header key dflt headers = foldl (\<lambda>v (name, val). if name = key then val else v) dflt headers"

definition regular_headers :: "(bytes \<times> bytes) list \<Rightarrow> (bytes \<times> bytes) list" where
  "regular_headers headers = filter (\<lambda>(name, _). \<not> starts_with name (ascii '':'')) headers"

definition header_pieces :: "(bytes \<times> bytes) list \<Rightarrow> bytes list" where
  "header_pieces headers = concat (map (\<lambda>(name, val). [name, ascii '': '', val, CRLF]) (regular_headers headers))"

definition encode_request :: "h1_cfg \<Rightarrow> (bytes \<times> bytes) list \<Rightarrow> h1_sys \<Rightarrow> h1_sys \<times> unit res" where
  "encode_request K headers c =
    (let method = pseudo_header (ascii '':method'') (ascii ''GET'') headers;
         path = pseudo_header (ascii '':path'') (ascii ''/'') headers;
         host = pseudo_header (ascii '':authority'') [] headers
     in sbind (queue_all K [method, ascii '' '', path, ascii '' HTTP/1.1'' @ CRLF] c) (\<lambda>c _.
        sbind (if host \<noteq> [] then queue_all K [ascii ''Host: '', host, CRLF] c else (c, Ok ())) (\<lambda>c _.
        sbind (queue_all K (header_pieces headers) c) (\<lambda>c _. h1_queue_send K CRLF c))))"

definition encode_response :: "h1_cfg \<Rightarrow> (bytes \<times> bytes) list \<Rightarrow> h1_sys \<Rightarrow> h1_sys \<times> unit res" where
  "encode_response K headers c =
    (let status = pseudo_header (ascii '':status'') (ascii ''200'') headers
     in sbind (queue_all K [ascii ''HTTP/1.1 '', status, ascii '' '', status_reason status, CRLF] c) (\<lambda>c _.
        sbind (queue_all K (header_pieces headers) c) (\<lambda>c _. h1_queue_send K CRLF c)))"

definition h1_send_headers :: "h1_cfg \<Rightarrow> nat \<Rightarrow> (bytes \<times> bytes) list \<Rightarrow> h1_sys \<Rightarrow> h1_sys \<times> unit res" where
  "h1_send_headers K sid headers c =
    sbind (c, check_stream_id sid c) (\<lambda>c _.
    sbind (case h1_role c of H1Client \<Rightarrow> encode_request K headers c | H1Server \<Rightarrow> encode_response K headers c) (\<lambda>c _.
    (c\<lparr>h1_sent_since_tick := True\<rparr>, Ok ())))"

definition h1_send_data :: "h1_cfg \<Rightarrow> nat \<Rightarrow> bytes \<Rightarrow> h1_sys \<Rightarrow> h1_sys \<times> nat res" where
  "h1_send_data K sid data c =
    sbind (c, check_stream_id sid c) (\<lambda>c _.
    sbind (h1_queue_send K data c) (\<lambda>c _.
    (if data \<noteq> [] then c\<lparr>h1_sent_since_tick := True\<rparr> else c, Ok (length data))))"

definition h1_open_stream :: "h1_cfg \<Rightarrow> (bytes \<times> bytes) list \<Rightarrow> h1_sys \<Rightarrow> h1_sys \<times> nat res" where
  "h1_open_stream K headers c =
    (let c = c\<lparr>current_stream_id := u64_add (current_stream_id c) 1\<rparr>;
         sid = current_stream_id c
     in sbind (h1_send_headers K sid headers c) (\<lambda>c _. (c, Ok sid)))"

section \<open>Receiving headers and bodies\<close>

text \<open>The loop of \<^verbatim>\<open>recv_headers\<close>: the calls of \<^verbatim>\<open>emit\<close> in order.\<close>

function stored_headers :: "bytes \<Rightarrow> (bytes \<times> bytes) list" where
  "stored_headers buf =
    (case position (\<lambda>b. b = 0) buf of
       None \<Rightarrow> []
     | Some i \<Rightarrow>
         let name = take i buf; rest = drop (i + 1) buf
         in case position (\<lambda>b. b = 0) rest of
              None \<Rightarrow> [(name, rest)]
            | Some j \<Rightarrow> (name, take j rest) # stored_headers (drop (j + 1) rest))"
  by pat_completeness auto
termination
  by (relation "measure length") (auto dest: position_SomeD)

definition h1_recv_headers :: "nat \<Rightarrow> h1_sys \<Rightarrow> h1_sys \<times> (bytes \<times> bytes) list res" where
  "h1_recv_headers sid c =
    sbind (c, check_stream_id sid c) (\<lambda>c _.
    if \<not> headers_available c then (c, Err WouldBlock)
    else (c\<lparr>header_buf := [], headers_available := False\<rparr>, Ok (stored_headers (header_buf c))))"

definition h1_recv_body :: "nat \<Rightarrow> nat \<Rightarrow> h1_sys \<Rightarrow> h1_sys \<times> (bytes \<times> bool) res" where
  "h1_recv_body sid n c =
    sbind (c, check_stream_id sid c) (\<lambda>c _.
    if data_buf c = [] then
      if body_finished c then (c, Ok ([], True)) else (c, Err WouldBlock)
    else
      let copy_len = min (length (data_buf c)) n;
          out = take copy_len (data_buf c);
          c = c\<lparr>data_buf := drop copy_len (data_buf c)\<rparr>
      in (c, Ok (out, data_buf c = [] \<and> body_finished c)))"

section \<open>The receive loop\<close>

record framing =
  content_length :: "nat option"
  chunked :: bool
  connection_close :: bool

definition note_header :: "h1_cfg \<Rightarrow> bytes \<Rightarrow> bytes \<Rightarrow> framing \<Rightarrow> framing" where
  "note_header K name val f =
    (if eq_ignore_case name (ascii ''content-length'') then f\<lparr>content_length := parse_usize_ascii (H1_USIZE K) val\<rparr>
     else if eq_ignore_case name (ascii ''transfer-encoding'') then
       if contains_ignore_case val (ascii ''chunked'') then f\<lparr>chunked := True\<rparr> else f
     else if eq_ignore_case name (ascii ''connection'') \<and> contains_ignore_case val (ascii ''close'')
     then f\<lparr>connection_close := True\<rparr>
     else f)"

text \<open>Every parser consumes a line of its input, with its \<^verbatim>\<open>CRLF\<close>.\<close>

lemma parse_header_line_consumes:
  "parse_header_line buf = Ok (name, val, n) \<Longrightarrow> 2 \<le> n \<and> n \<le> length buf"
  by (auto simp: parse_header_line_def res_bind_eq_Ok starts_with_def Let_def dest!: split_line_bounds split: if_splits
      dest: arg_cong [where f = length])

function header_loop :: "h1_cfg \<Rightarrow> bytes \<Rightarrow> nat \<Rightarrow> nat \<Rightarrow> framing \<Rightarrow> h1_sys \<Rightarrow> h1_sys \<times> framing res" where
  "header_loop K buf offset e f c =
    (case res_bind (slice buf offset e) parse_header_line of
       Err x \<Rightarrow> (c, Err x)
     | Panic \<Rightarrow> (c, Panic)
     | Ok (name, val, consumed) \<Rightarrow>
         if name = [] then (c, Ok f)
         else if 0 \<in> set name \<or> 0 \<in> set val then (c, Err InvalidState)
         else sbind (store_header_kv K name val c) (\<lambda>c _.
                header_loop K buf (offset + consumed) e (note_header K name val f) c))"
  by pat_completeness auto
termination
  by (relation "measure (\<lambda>(K, buf, offset, e, f, c). e - offset)")
    (auto simp: res_bind_eq_Ok slice_eq_Ok dest!: parse_header_line_consumes)

declare header_loop.simps [simp del]

definition start_line :: "h1_cfg \<Rightarrow> bytes \<Rightarrow> nat \<Rightarrow> h1_sys \<Rightarrow> h1_sys \<times> nat res" where
  "start_line K buf e c =
    (case h1_role c of
       H1Server \<Rightarrow>
         sbind (c, res_bind (slice buf 0 e) parse_request_line) (\<lambda>c (method, path, consumed).
         sbind (store_header K method path c) (\<lambda>c _. (c, Ok consumed)))
     | H1Client \<Rightarrow>
         sbind (c, res_bind (slice buf 0 e) parse_status_line) (\<lambda>c (status, _, consumed).
         sbind (store_header_kv K (ascii '':status'') (status_to_bytes status) c) (\<lambda>c _. (c, Ok consumed))))"

text \<open>Which body follows the head, and the events that announce it.\<close>

definition begin_body :: "framing \<Rightarrow> h1_sys \<Rightarrow> h1_sys" where
  "begin_body f c =
    (if chunked f then c\<lparr>h1_state := BodyChunked, chunk_state := ChunkSize\<rparr>
     else case content_length f of
       Some len \<Rightarrow> if len = 0 then c\<lparr>h1_state := Done, body_finished := True\<rparr> else c\<lparr>h1_state := BodyContentLength len\<rparr>
     | None \<Rightarrow> if h1_role c = H1Server then c\<lparr>h1_state := Done, body_finished := True\<rparr> else c\<lparr>h1_state := BodyUntilClose\<rparr>)"

definition announce_head :: "h1_sys \<Rightarrow> h1_sys" where
  "announce_head c =
    (let c = c\<lparr>h1_headers_phase_complete := True\<rparr>;
         c = (if h1_role c = H1Server then c\<lparr>current_stream_id := u64_add (current_stream_id c) 1\<rparr> else c);
         c = h1_push_event (H1Headers (current_stream_id c)) c
     in if body_finished c then h1_push_event (H1Finished (current_stream_id c)) c else c)"

definition try_parse_start_line :: "h1_cfg \<Rightarrow> h1_sys \<Rightarrow> h1_sys \<times> bool res" where
  "try_parse_start_line K c =
    (case find_end_of_headers (h1_recv_buf c) of
       None \<Rightarrow> (c, Ok False)
     | Some e \<Rightarrow>
         let buf = h1_recv_buf c
         in sbind (start_line K buf e (c\<lparr>header_buf := [], headers_available := False\<rparr>)) (\<lambda>c offset.
            sbind (header_loop K buf offset e \<lparr>content_length = None, chunked = False, connection_close = False\<rparr> c) (\<lambda>c f.
            if chunked f \<and> content_length f \<noteq> None then (c, Err InvalidState)
            else sbind (h1_drain_recv e c) (\<lambda>c _.
              (announce_head (begin_body f (c\<lparr>headers_available := True, keep_alive := \<not> connection_close f\<rparr>)), Ok True)))))"

text \<open>
  Body bytes move from the receive buffer to the data buffer as far as there is room: the result is
  what is left of \<open>remaining\<close>, or nothing when no byte moved.
\<close>

definition move_body :: "h1_cfg \<Rightarrow> nat \<Rightarrow> h1_sys \<Rightarrow> h1_sys \<times> nat option res" where
  "move_body K remaining c =
    (if h1_recv_buf c = [] then (c, Ok None)
     else
       let to_consume = min (length (h1_recv_buf c)) remaining
       in if length (data_buf c) > H1_DATABUF K then (c, Panic)
          else
            let can_store = min (H1_DATABUF K - length (data_buf c)) to_consume
            in if can_store > 0 then
                 case h1_try_reserve can_store c of
                   (c, Err _) \<Rightarrow> (c\<lparr>body_parked := True\<rparr>, Ok None)
                 | (c, Panic) \<Rightarrow> (c, Panic)
                 | (c, Ok _) \<Rightarrow>
                     let c = c\<lparr>data_buf := h1_extend (H1_DATABUF K) (data_buf c) (take can_store (h1_recv_buf c))\<rparr>
                     in sbind (h1_drain_recv can_store c) (\<lambda>c _.
                          let c = c\<lparr>body_parked := (can_store < to_consume)\<rparr>
                          in (h1_push_event (H1Data (current_stream_id c)) c, Ok (Some (remaining - can_store))))
               else (c\<lparr>body_parked := True\<rparr>, Ok None))"

definition finish_body :: "h1_sys \<Rightarrow> h1_sys" where
  "finish_body c = h1_push_event (H1Finished (current_stream_id c)) (c\<lparr>body_finished := True, h1_state := Done\<rparr>)"

definition process_content_length_body :: "h1_cfg \<Rightarrow> nat \<Rightarrow> h1_sys \<Rightarrow> h1_sys \<times> bool res" where
  "process_content_length_body K remaining c =
    sbind (move_body K remaining c) (\<lambda>c moved.
      case moved of
        None \<Rightarrow> (c, Ok False)
      | Some new_remaining \<Rightarrow>
          (if new_remaining = 0 then finish_body c else c\<lparr>h1_state := BodyContentLength new_remaining\<rparr>, Ok True))"

definition process_chunk_size :: "h1_cfg \<Rightarrow> h1_sys \<Rightarrow> h1_sys \<times> bool res" where
  "process_chunk_size K c =
    (case parse_chunk_size (H1_USIZE K) (h1_recv_buf c) of
       Ok (sz, consumed) \<Rightarrow>
         sbind (h1_drain_recv consumed c) (\<lambda>c _.
           (c\<lparr>chunk_state := (if sz = 0 then ChunkTrailers else ChunkData sz)\<rparr>, Ok True))
     | Err x \<Rightarrow> if x = WouldBlock then (c, Ok False) else (c, Err x)
     | Panic \<Rightarrow> (c, Panic))"

definition process_chunk_data :: "h1_cfg \<Rightarrow> nat \<Rightarrow> h1_sys \<Rightarrow> h1_sys \<times> bool res" where
  "process_chunk_data K remaining c =
    sbind (move_body K remaining c) (\<lambda>c moved.
      case moved of
        None \<Rightarrow> (c, Ok False)
      | Some new_remaining \<Rightarrow>
          (c\<lparr>chunk_state := (if new_remaining = 0 then ChunkDataTrailer else ChunkData new_remaining)\<rparr>, Ok True))"

definition process_data_trailer :: "h1_sys \<Rightarrow> h1_sys \<times> bool res" where
  "process_data_trailer c =
    (if length (h1_recv_buf c) < 2 then (c, Ok False)
     else if h1_recv_buf c ! 0 = 13 \<and> h1_recv_buf c ! 1 = 10 then
       sbind (h1_drain_recv 2 c) (\<lambda>c _. (c\<lparr>chunk_state := ChunkSize\<rparr>, Ok True))
     else (c, Err InvalidState))"

definition process_trailers :: "h1_sys \<Rightarrow> h1_sys \<times> bool res" where
  "process_trailers c =
    (if length (h1_recv_buf c) < 2 then (c, Ok False)
     else if h1_recv_buf c ! 0 = 13 \<and> h1_recv_buf c ! 1 = 10 then
       sbind (h1_drain_recv 2 c) (\<lambda>c _. (finish_body c, Ok True))
     else
       sbind (c, parse_header_line (h1_recv_buf c)) (\<lambda>c (_, _, consumed).
       sbind (h1_drain_recv consumed c) (\<lambda>c _. (c, Ok True))))"

definition process_chunked_body :: "h1_cfg \<Rightarrow> h1_sys \<Rightarrow> h1_sys \<times> bool res" where
  "process_chunked_body K c =
    (case chunk_state c of
       ChunkSize \<Rightarrow> process_chunk_size K c
     | ChunkData remaining \<Rightarrow> process_chunk_data K remaining c
     | ChunkDataTrailer \<Rightarrow> process_data_trailer c
     | ChunkTrailers \<Rightarrow> process_trailers c)"

definition process_until_close_body :: "h1_cfg \<Rightarrow> h1_sys \<Rightarrow> h1_sys \<times> unit res" where
  "process_until_close_body K c =
    (if h1_recv_buf c = [] then (c, Ok ())
     else if length (data_buf c) > H1_DATABUF K then (c, Panic)
     else
       let n = min (length (h1_recv_buf c)) (H1_DATABUF K - length (data_buf c))
       in if n > 0 then
            case h1_try_reserve n c of
              (c, Err _) \<Rightarrow> (c\<lparr>body_parked := True\<rparr>, Ok ())
            | (c, Panic) \<Rightarrow> (c, Panic)
            | (c, Ok _) \<Rightarrow>
                let c = c\<lparr>data_buf := h1_extend (H1_DATABUF K) (data_buf c) (take n (h1_recv_buf c))\<rparr>
                in sbind (h1_drain_recv n c) (\<lambda>c _.
                     let c = h1_push_event (H1Data (current_stream_id c)) c
                     in (c\<lparr>body_parked := (h1_recv_buf c \<noteq> [])\<rparr>, Ok ()))
          else (c\<lparr>body_parked := (h1_recv_buf c \<noteq> [])\<rparr>, Ok ()))"

definition next_message :: "h1_sys \<Rightarrow> h1_sys" where
  "next_message c =
    c\<lparr>body_finished := False, chunk_state := ChunkSize, h1_headers_phase_complete := False,
      h1_connection_start := h1_last_activity c, h1_state := Idle\<rparr>"

text \<open>One turn of the loop; the result says whether it goes on.\<close>

definition h1_turn :: "h1_cfg \<Rightarrow> h1_sys \<Rightarrow> h1_sys \<times> bool res" where
  "h1_turn K c =
    (case h1_state c of
       Idle \<Rightarrow> try_parse_start_line K c
     | BodyContentLength remaining \<Rightarrow> process_content_length_body K remaining c
     | BodyChunked \<Rightarrow> process_chunked_body K c
     | BodyUntilClose \<Rightarrow> sbind (process_until_close_body K c) (\<lambda>c _. (c, Ok False))
     | Done \<Rightarrow>
         if headers_available c \<or> data_buf c \<noteq> [] then (c, Ok False) else (next_message c, Ok True))"

text \<open>Reading the head changes the stored headers and the allocator's answers, and nothing else.\<close>

definition head_only :: "h1_cfg \<Rightarrow> h1_sys \<Rightarrow> h1_sys \<Rightarrow> bool" where
  "head_only K c c' \<longleftrightarrow>
    (\<exists>hb hp. c' = c\<lparr>header_buf := hb, h1_heap := hp\<rparr>) \<and>
    (length (header_buf c) \<le> H1_HDRBUF K \<longrightarrow> length (header_buf c') \<le> H1_HDRBUF K)"

lemma head_only_refl [simp]: "head_only K c c"
  unfolding head_only_def by (intro conjI exI [of _ "header_buf c"] exI [of _ "h1_heap c"]) simp_all

lemma head_only_trans: "head_only K c c' \<Longrightarrow> head_only K c' c'' \<Longrightarrow> head_only K c c''"
  unfolding head_only_def by fastforce

lemma head_only_frame:
  "head_only K c c' \<Longrightarrow> length (header_buf c) \<le> H1_HDRBUF K \<Longrightarrow>
    \<exists>hb hp. c' = c\<lparr>header_buf := hb, h1_heap := hp\<rparr> \<and> length hb \<le> H1_HDRBUF K"
  unfolding head_only_def by fastforce

lemma head_onlyI:
  "(length (header_buf c) \<le> H1_HDRBUF K \<Longrightarrow> length hb \<le> H1_HDRBUF K) \<Longrightarrow>
    head_only K c (c\<lparr>header_buf := hb, h1_heap := hp\<rparr>)"
  unfolding head_only_def by auto

lemma try_reserve_cases:
  obtains (given) hp where "h1_try_reserve n c = (c\<lparr>h1_heap := hp\<rparr>, Ok ())"
    | (refused) hp where "h1_try_reserve n c = (c\<lparr>h1_heap := hp\<rparr>, Err OutOfMemory)" and "h1_heap c = False # hp" and "n > 0"
proof (cases "n = 0 \<or> h1_heap c = []")
  case True
  then have "h1_try_reserve n c = (c\<lparr>h1_heap := h1_heap c\<rparr>, Ok ())" by (auto simp: h1_try_reserve_def)
  then show ?thesis by (rule given)
next
  case False
  then obtain b hp where "h1_heap c = b # hp" by (cases "h1_heap c") auto
  then show ?thesis using False given [of hp] refused [of hp] by (cases b) (simp_all add: h1_try_reserve_def)
qed

lemma store_header_kv_head: "post (\<lambda>_. head_only K c) (head_only K c) (store_header_kv K name val c)"
proof (cases "length (header_buf c) + (length name + 1 + length val + 1) > H1_HDRBUF K")
  case False
  show ?thesis
  proof (cases "length name + 1 + length val + 1" c rule: try_reserve_cases)
    case (given hp)
    then have "store_header_kv K name val c = (c\<lparr>header_buf := header_buf c @ name @ 0 # val @ [0], h1_heap := hp\<rparr>, Ok ())"
      using False by (simp add: store_header_kv_def h1_extend_def Let_def)
    then show ?thesis using False by (auto intro: head_onlyI)
  next
    case (refused hp)
    then have "store_header_kv K name val c = (c\<lparr>header_buf := header_buf c, h1_heap := hp\<rparr>, Err OutOfMemory)"
      using False by (simp add: store_header_kv_def Let_def)
    then show ?thesis using head_onlyI [of c K "header_buf c" hp] by simp
  qed
qed (simp add: store_header_kv_def)

lemma parse_request_line_consumes: "parse_request_line buf = Ok (m, p, n) \<Longrightarrow> n \<le> length buf"
  by (auto simp: parse_request_line_def res_bind_eq_Ok dest!: split_line_bounds split: if_splits)

lemma parse_status_line_consumes: "parse_status_line buf = Ok (s, r, n) \<Longrightarrow> n \<le> length buf"
  by (auto simp: parse_status_line_def res_bind_eq_Ok dest!: split_line_bounds split: if_splits)

lemma parse_no_panic [panic_free]:
  "parse_request_line buf \<noteq> Panic" "parse_status_line buf \<noteq> Panic" "parse_header_line buf \<noteq> Panic"
  "parse_chunk_size uw buf \<noteq> Panic"
  by (auto simp: parse_request_line_def parse_status_line_def parse_header_line_def parse_chunk_size_def
      res_bind_eq_Panic Let_def split: if_splits)

lemma header_loop_head:
  "offset \<le> e \<Longrightarrow> e \<le> length buf \<Longrightarrow> post (\<lambda>_. head_only K c) (head_only K c) (header_loop K buf offset e f c)"
proof (induction K buf offset e f c rule: header_loop.induct)
  case (1 K buf offset e f c)
  let ?r = "take (e - offset) (drop offset buf)"
  have p: "res_bind (slice buf offset e) parse_header_line = parse_header_line ?r" using 1 by simp
  show ?case
  proof (cases "parse_header_line ?r")
    case (Ok r)
    obtain name val n where r: "r = (name, val, n)" by (cases r) auto
    have n: "offset + n \<le> e" using parse_header_line_consumes [OF Ok [unfolded r]] 1(2,3) by (auto simp: le_diff_conv2)
    show ?thesis
    proof (cases "name = [] \<or> 0 \<in> set name \<or> 0 \<in> set val")
      case False
      obtain c' x where st: "store_header_kv K name val c = (c', x)" by fastforce
      have h: "post (\<lambda>_. head_only K c) (head_only K c) (c', x)" using store_header_kv_head [of K c name val] st by simp
      have "post (\<lambda>_. head_only K c) (head_only K c) (sbind (c', x) (\<lambda>c _.
          header_loop K buf (offset + n) e (note_header K name val f) c))"
      proof (cases x)
        case (Ok u)
        have "post (\<lambda>_. head_only K c') (head_only K c') (header_loop K buf (offset + n) e (note_header K name val f) c')"
          using 1(1) [OF _ refl refl] 1(3) \<open>parse_header_line ?r = Ok r\<close> r p False n st Ok by auto
        then show ?thesis using h Ok by (auto intro: post_mono head_only_trans)
      qed (use h in simp_all)
      then show ?thesis using False by (simp add: header_loop.simps [of K buf offset] p Ok r st)
    qed (auto simp: header_loop.simps [of K buf offset] p Ok r)
  qed (use panic_free in \<open>simp_all add: header_loop.simps [of K buf offset] p\<close>)
qed

lemma start_line_head:
  assumes e: "e \<le> length buf"
  shows "post (\<lambda>n c'. head_only K c c' \<and> n \<le> e) (head_only K c) (start_line K buf e c)"
proof -
  have store: "post (\<lambda>n c'. head_only K c c' \<and> n \<le> e) (head_only K c)
      (sbind (store_header_kv K name val c) (\<lambda>c _. (c, Ok n)))" if "n \<le> e" for name val n
    using that by (intro post_sbind [OF store_header_kv_head]) simp
  have both: "post (\<lambda>n c'. head_only K c c' \<and> n \<le> e) (head_only K c)
      (sbind (store_header K a b c) (\<lambda>c _. (c, Ok n)))" if "n \<le> e" for a b n
    unfolding store_header_def using that
    by (intro post_sbind [where Q' = "\<lambda>_. head_only K c"] post_sbind [OF store_header_kv_head]
        post_mono [OF store_header_kv_head]) (auto intro: head_only_trans)
  have s: "slice buf 0 e = Ok (take e buf)" using e by simp
  show ?thesis
  proof (cases "h1_role c")
    case H1Client
    then show ?thesis using parse_status_line_consumes [of "take e buf"] panic_free e
      by (cases "parse_status_line (take e buf)") (auto simp: start_line_def s intro!: store)
  next
    case H1Server
    then show ?thesis using parse_request_line_consumes [of "take e buf"] panic_free e
      by (cases "parse_request_line (take e buf)") (auto simp: start_line_def s intro!: both)
  qed
qed

lemma find_end_bounds: "find_end_of_headers buf = Some e \<Longrightarrow> 4 \<le> e \<and> e \<le> length buf"
  by (auto simp: find_end_of_headers_def dest!: window_position_Some)

section \<open>The invariant\<close>

text \<open>The bytes in front of the receive buffer are body bytes.\<close>

fun in_body_at :: "parse_state \<Rightarrow> chunk_phase \<Rightarrow> bool" where
  "in_body_at (BodyContentLength _) _ = True"
| "in_body_at BodyUntilClose _ = True"
| "in_body_at BodyChunked (ChunkData _) = True"
| "in_body_at _ _ = False"

abbreviation in_body :: "h1_sys \<Rightarrow> bool" where
  "in_body c \<equiv> in_body_at (h1_state c) (chunk_state c)"

definition h1_inv :: "h1_cfg \<Rightarrow> h1_sys \<Rightarrow> bool" where
  "h1_inv K c \<longleftrightarrow>
    length (header_buf c) \<le> H1_HDRBUF K \<and> length (data_buf c) \<le> H1_DATABUF K \<and>
    length (h1_recv_buf c) \<le> H1_BUF K \<and> length (h1_send_buf c) \<le> H1_BUF K \<and>
    h1_send_offset c \<le> length (h1_send_buf c) \<and> length (h1_events c) \<le> 32 \<and>
    h1_state c \<noteq> BodyContentLength 0 \<and> chunk_state c \<noteq> ChunkData 0 \<and>
    (body_finished c \<longleftrightarrow> h1_state c = Done) \<and> (body_parked c \<longrightarrow> in_body c \<and> h1_recv_buf c \<noteq> [])"

lemma h1_push_event_simps [simp]:
  "header_buf (h1_push_event e c) = header_buf c" "data_buf (h1_push_event e c) = data_buf c"
  "h1_recv_buf (h1_push_event e c) = h1_recv_buf c" "h1_send_buf (h1_push_event e c) = h1_send_buf c"
  "h1_send_offset (h1_push_event e c) = h1_send_offset c" "h1_state (h1_push_event e c) = h1_state c"
  "chunk_state (h1_push_event e c) = chunk_state c" "body_finished (h1_push_event e c) = body_finished c"
  "body_parked (h1_push_event e c) = body_parked c" "current_stream_id (h1_push_event e c) = current_stream_id c"
  "h1_role (h1_push_event e c) = h1_role c" "headers_available (h1_push_event e c) = headers_available c"
  "h1_heap (h1_push_event e c) = h1_heap c"
  by (simp_all add: h1_push_event_def)

lemma h1_push_event_bound: "length (h1_events c) \<le> 32 \<Longrightarrow> length (h1_events (h1_push_event e c)) \<le> 32"
  by (simp add: h1_push_event_def)

lemma h1_inv_push [simp]: "h1_inv K c \<Longrightarrow> h1_inv K (h1_push_event e c)"
  by (simp add: h1_inv_def h1_push_event_bound)

lemma h1_inv_frame [simp]:
  "h1_inv K (c\<lparr>h1_headers_phase_complete := b\<rparr>) = h1_inv K c" "h1_inv K (c\<lparr>current_stream_id := s\<rparr>) = h1_inv K c"
  "h1_inv K (c\<lparr>headers_available := b\<rparr>) = h1_inv K c" "h1_inv K (c\<lparr>keep_alive := b\<rparr>) = h1_inv K c"
  "h1_inv K (c\<lparr>h1_heap := hp\<rparr>) = h1_inv K c" "h1_inv K (c\<lparr>h1_last_activity := s\<rparr>) = h1_inv K c"
  "h1_inv K (c\<lparr>h1_sent_since_tick := b\<rparr>) = h1_inv K c" "h1_inv K (c\<lparr>h1_connection_start := s\<rparr>) = h1_inv K c"
  "h1_inv K (c\<lparr>h1_timeouts := tc\<rparr>) = h1_inv K c" "h1_inv K (c\<lparr>h1_closed := b\<rparr>) = h1_inv K c"
  "h1_inv K (c\<lparr>connected_emitted := b\<rparr>) = h1_inv K c"
  by (simp_all add: h1_inv_def)

lemma announce_head_inv: "h1_inv K c \<Longrightarrow> h1_inv K (announce_head c)"
  by (cases "h1_role c"; cases "body_finished c") (simp_all add: announce_head_def Let_def)

lemma begin_body_inv: "h1_inv K c \<Longrightarrow> h1_state c = Idle \<Longrightarrow> h1_inv K (begin_body f c)"
  by (auto simp: begin_body_def h1_inv_def split: option.split)

text \<open>What moving body bytes does.\<close>

definition moved :: "nat \<Rightarrow> nat \<Rightarrow> bool list \<Rightarrow> h1_sys \<Rightarrow> h1_sys" where
  "moved n remaining hp c =
    h1_push_event (H1Data (current_stream_id c))
      (c\<lparr>h1_heap := hp, data_buf := data_buf c @ take n (h1_recv_buf c), h1_recv_buf := drop n (h1_recv_buf c),
         body_parked := (n < min (length (h1_recv_buf c)) remaining)\<rparr>)"

lemma move_body_cases:
  assumes "length (data_buf c) \<le> H1_DATABUF K" and "remaining > 0"
  obtains (empty) "h1_recv_buf c = []" and "move_body K remaining c = (c, Ok None)"
    | (park) hp where "h1_recv_buf c \<noteq> []" and "move_body K remaining c = (c\<lparr>h1_heap := hp, body_parked := True\<rparr>, Ok None)"
        and "length (data_buf c) = H1_DATABUF K \<or> h1_heap c = False # hp"
    | (move) n hp where "h1_recv_buf c \<noteq> []" and "n > 0"
        and "n = min (H1_DATABUF K - length (data_buf c)) (min (length (h1_recv_buf c)) remaining)"
        and "move_body K remaining c = (moved n remaining hp c, Ok (Some (remaining - n)))"
proof (cases "h1_recv_buf c = []")
  case True
  show ?thesis by (rule empty) (use True in \<open>simp_all add: move_body_def\<close>)
next
  case False
  let ?n = "min (H1_DATABUF K - length (data_buf c)) (min (length (h1_recv_buf c)) remaining)"
  show ?thesis
  proof (cases "?n = 0")
    case True
    then have f: "length (data_buf c) = H1_DATABUF K" using False assms by (auto simp: min_def split: if_splits)
    then have "move_body K remaining c = (c\<lparr>h1_heap := h1_heap c, body_parked := True\<rparr>, Ok None)"
      using False by (simp add: move_body_def Let_def)
    then show ?thesis using park f False by blast
  next
    case n: False
    have le: "?n \<le> length (h1_recv_buf c)" by simp
    have ext: "h1_extend (H1_DATABUF K) (data_buf c) (take ?n (h1_recv_buf c)) = data_buf c @ take ?n (h1_recv_buf c)"
      using assms by (auto simp: h1_extend_def min_def)
    show ?thesis
    proof (cases ?n c rule: try_reserve_cases)
      case (given hp)
      have "move_body K remaining c = (moved ?n remaining hp c, Ok (Some (remaining - ?n)))"
        using False n assms given ext le by (simp add: move_body_def Let_def h1_drain_recv_def moved_def del: min_less_iff_conj)
      then show ?thesis using False n move by blast
    next
      case (refused hp)
      then have "move_body K remaining c = (c\<lparr>h1_heap := hp, body_parked := True\<rparr>, Ok None)"
        using False n assms by (simp add: move_body_def Let_def)
      then show ?thesis using False refused park by blast
    qed
  qed
qed

definition h1_work :: "h1_sys \<Rightarrow> nat" where
  "h1_work c = 2 * length (h1_recv_buf c) + (if h1_state c = Done then 1 else 0)"

text \<open>What a turn keeps: the invariant; a turn that asks for another has used input, one that stops leaves no body byte unnoticed.\<close>

definition turn_ok :: "h1_cfg \<Rightarrow> h1_sys \<Rightarrow> h1_sys \<times> bool res \<Rightarrow> bool" where
  "turn_ok K c = post (\<lambda>again c'. h1_inv K c' \<and> length (h1_recv_buf c') \<le> length (h1_recv_buf c) \<and>
    (if again then h1_work c' < h1_work c else in_body c' \<and> h1_recv_buf c' \<noteq> [] \<longrightarrow> body_parked c'))
    (\<lambda>c'. h1_inv K c' \<and> length (h1_recv_buf c') \<le> length (h1_recv_buf c))"

lemma work_less: "length (h1_recv_buf c') < length (h1_recv_buf c) \<Longrightarrow> h1_work c' < h1_work c"
  by (simp add: h1_work_def)

lemma announce_head_simps [simp]:
  "h1_recv_buf (announce_head c) = h1_recv_buf c" "h1_state (announce_head c) = h1_state c"
  by (simp_all add: announce_head_def Let_def)

lemma begin_body_recv [simp]: "h1_recv_buf (begin_body f c) = h1_recv_buf c"
  by (simp add: begin_body_def split: option.split)

lemma head_only_inv: "head_only K c c' \<Longrightarrow> h1_inv K c \<Longrightarrow> h1_inv K c'"
  unfolding head_only_def by (auto simp: h1_inv_def)

lemma head_only_recv: "head_only K c c' \<Longrightarrow> h1_recv_buf c' = h1_recv_buf c \<and> h1_state c' = h1_state c"
  unfolding head_only_def by auto

lemma try_parse_start_line_ok:
  assumes inv: "h1_inv K c" and idle: "h1_state c = Idle"
  shows "turn_ok K c (try_parse_start_line K c)"
proof (cases "find_end_of_headers (h1_recv_buf c)")
  case None
  then show ?thesis using inv idle by (simp add: try_parse_start_line_def turn_ok_def)
next
  case (Some e)
  let ?c = "c\<lparr>header_buf := [], headers_available := False\<rparr>"
  have e: "4 \<le> e" "e \<le> length (h1_recv_buf c)" using find_end_bounds [OF Some] by auto
  have i: "h1_inv K ?c" using inv by (simp add: h1_inv_def)
  have keep: "h1_inv K c'" "h1_recv_buf c' = h1_recv_buf c" "h1_state c' = Idle" if "head_only K ?c c'" for c'
    using head_only_inv [OF that i] head_only_recv [OF that] idle by auto
  have fin: "turn_ok K c (sbind (h1_drain_recv e c') (\<lambda>c _.
      (announce_head (begin_body f (c\<lparr>headers_available := True, keep_alive := \<not> connection_close f\<rparr>)), Ok True)))"
    if h: "head_only K ?c c'" for c' f
  proof -
    have "h1_inv K (c'\<lparr>h1_recv_buf := drop e (h1_recv_buf c')\<rparr>)" using keep [OF h] by (auto simp: h1_inv_def)
    then show ?thesis using keep [OF h] e
      by (auto simp: turn_ok_def h1_drain_recv_def intro!: announce_head_inv begin_body_inv work_less)
  qed
  have step: "turn_ok K c (sbind (header_loop K (h1_recv_buf c) n e f c') (\<lambda>c f.
      if chunked f \<and> content_length f \<noteq> None then (c, Err InvalidState)
      else sbind (h1_drain_recv e c) (\<lambda>c _.
        (announce_head (begin_body f (c\<lparr>headers_available := True, keep_alive := \<not> connection_close f\<rparr>)), Ok True))))"
    if h: "head_only K ?c c'" and n: "n \<le> e" for c' n f
    unfolding turn_ok_def
  proof (rule post_sbind [where Q' = "\<lambda>_. head_only K ?c"], goal_cases)
    case 1
    show ?case using keep(1,2) head_only_trans [OF h] by (intro post_mono [OF header_loop_head [OF n e(2), of K c' f]]) auto
  next
    case (2 f c'')
    then show ?case using keep [OF 2] fin [OF 2] by (auto simp: turn_ok_def)
  qed
  show ?thesis unfolding try_parse_start_line_def turn_ok_def using Some
    apply (simp only: option.case Let_def)
    apply (rule post_sbind [OF post_mono [OF start_line_head [OF e(2), of K ?c]]])
    using step keep by (auto simp: turn_ok_def)
qed

lemma moved_simps [simp]:
  "h1_recv_buf (moved n r hp c) = drop n (h1_recv_buf c)" "data_buf (moved n r hp c) = data_buf c @ take n (h1_recv_buf c)"
  "h1_state (moved n r hp c) = h1_state c" "chunk_state (moved n r hp c) = chunk_state c"
  "body_parked (moved n r hp c) \<longleftrightarrow> n < min (length (h1_recv_buf c)) r" "body_finished (moved n r hp c) = body_finished c"
  "header_buf (moved n r hp c) = header_buf c" "h1_send_buf (moved n r hp c) = h1_send_buf c"
  "h1_send_offset (moved n r hp c) = h1_send_offset c" "current_stream_id (moved n r hp c) = current_stream_id c"
  "headers_available (moved n r hp c) = headers_available c"
  by (simp_all add: moved_def)

lemma moved_events: "length (h1_events c) \<le> 32 \<Longrightarrow> length (h1_events (moved n r hp c)) \<le> 32"
  by (simp add: moved_def h1_push_event_bound)

lemma finish_body_simps [simp]:
  "h1_recv_buf (finish_body c) = h1_recv_buf c" "data_buf (finish_body c) = data_buf c" "h1_state (finish_body c) = Done"
  "chunk_state (finish_body c) = chunk_state c" "body_finished (finish_body c)"
  "headers_available (finish_body c) = headers_available c" "current_stream_id (finish_body c) = current_stream_id c"
  by (simp_all add: finish_body_def)

lemma finish_body_inv:
  "h1_inv K (c\<lparr>body_finished := True, h1_state := Done\<rparr>) \<Longrightarrow> h1_inv K (finish_body c)"
  by (simp add: finish_body_def)

lemma content_length_ok:
  assumes inv: "h1_inv K c" and st: "h1_state c = BodyContentLength r"
  shows "turn_ok K c (process_content_length_body K r c)"
proof -
  have d: "length (data_buf c) \<le> H1_DATABUF K" "r > 0" using inv st by (auto simp: h1_inv_def)
  show ?thesis using d
  proof (cases rule: move_body_cases)
    case empty
    then show ?thesis using inv by (simp add: process_content_length_body_def turn_ok_def)
  next
    case (park hp)
    then show ?thesis using inv st by (simp add: process_content_length_body_def turn_ok_def h1_inv_def)
  next
    case (move n hp)
    let ?m = "moved n r hp c"
    have b: "n \<le> length (h1_recv_buf c)" "n \<le> r" "length (data_buf c) + n \<le> H1_DATABUF K" using move d by auto
    have "h1_inv K (?m\<lparr>body_finished := True, h1_state := Done\<rparr>)" if "r = n"
      using inv st b that by (auto simp: h1_inv_def moved_events)
    moreover have "h1_inv K (?m\<lparr>h1_state := BodyContentLength (r - n)\<rparr>)" if "n < r"
      using inv st b that by (auto simp: h1_inv_def moved_events)
    ultimately show ?thesis using move(1,2,4) b(1,2)
      by (auto simp: process_content_length_body_def turn_ok_def intro!: finish_body_inv work_less)
  qed
qed

lemma chunk_data_ok:
  assumes inv: "h1_inv K c" and st: "h1_state c = BodyChunked" "chunk_state c = ChunkData r"
  shows "turn_ok K c (process_chunk_data K r c)"
proof -
  have d: "length (data_buf c) \<le> H1_DATABUF K" "r > 0" using inv st by (auto simp: h1_inv_def)
  show ?thesis using d
  proof (cases rule: move_body_cases)
    case empty
    then show ?thesis using inv by (simp add: process_chunk_data_def turn_ok_def)
  next
    case (park hp)
    then show ?thesis using inv st by (simp add: process_chunk_data_def turn_ok_def h1_inv_def)
  next
    case (move n hp)
    let ?m = "moved n r hp c"
    have b: "n \<le> length (h1_recv_buf c)" "n \<le> r" "length (data_buf c) + n \<le> H1_DATABUF K" using move d by auto
    have "h1_inv K (?m\<lparr>chunk_state := (if r - n = 0 then ChunkDataTrailer else ChunkData (r - n))\<rparr>)"
      using inv st b by (auto simp: h1_inv_def moved_events)
    then show ?thesis using move(1,2,4) b(1,2)
      by (auto simp: process_chunk_data_def turn_ok_def intro!: work_less)
  qed
qed

lemma parse_chunk_size_consumes: "parse_chunk_size uw buf = Ok (sz, n) \<Longrightarrow> 2 \<le> n \<and> n \<le> length buf"
  by (auto simp: parse_chunk_size_def res_bind_eq_Ok Let_def dest!: split_line_bounds)

lemma chunked_ok:
  assumes inv: "h1_inv K c" and st: "h1_state c = BodyChunked"
  shows "turn_ok K c (process_chunked_body K c)"
proof (cases "chunk_state c")
  case ChunkSize
  then show ?thesis using inv st panic_free parse_chunk_size_consumes [of "H1_USIZE K" "h1_recv_buf c"]
    by (cases "parse_chunk_size (H1_USIZE K) (h1_recv_buf c)")
      (auto simp: process_chunked_body_def process_chunk_size_def h1_drain_recv_def turn_ok_def h1_inv_def intro!: work_less)
next
  case (ChunkData r)
  then show ?thesis using chunk_data_ok [OF inv st ChunkData] by (simp add: process_chunked_body_def)
next
  case ChunkDataTrailer
  then show ?thesis using inv st
    by (auto simp: process_chunked_body_def process_data_trailer_def h1_drain_recv_def turn_ok_def h1_inv_def intro!: work_less)
next
  case ChunkTrailers
  have parked: "\<not> body_parked c" using inv st ChunkTrailers by (auto simp: h1_inv_def)
  have "h1_inv K (c\<lparr>h1_recv_buf := drop 2 (h1_recv_buf c), body_finished := True, h1_state := Done\<rparr>)"
    and "h1_inv K (c\<lparr>h1_recv_buf := drop n (h1_recv_buf c)\<rparr>)" for n
    using inv st parked by (auto simp: h1_inv_def)
  then show ?thesis using ChunkTrailers inv st panic_free parse_header_line_consumes [of "h1_recv_buf c"]
    by (cases "parse_header_line (h1_recv_buf c)")
      (auto simp: process_chunked_body_def process_trailers_def h1_drain_recv_def turn_ok_def intro!: finish_body_inv work_less)
qed

lemma until_close_ok:
  assumes inv: "h1_inv K c" and st: "h1_state c = BodyUntilClose"
  shows "turn_ok K c (sbind (process_until_close_body K c) (\<lambda>c _. (c, Ok False)))"
proof (cases "h1_recv_buf c = []")
  case True
  then show ?thesis using inv by (simp add: process_until_close_body_def turn_ok_def)
next
  case False
  let ?n = "min (length (h1_recv_buf c)) (H1_DATABUF K - length (data_buf c))"
  have d: "length (data_buf c) \<le> H1_DATABUF K" using inv by (simp add: h1_inv_def)
  have n: "?n \<le> length (h1_recv_buf c)" by simp
  have ext: "h1_extend (H1_DATABUF K) (data_buf c) (take ?n (h1_recv_buf c)) = data_buf c @ take ?n (h1_recv_buf c)"
    using d by (auto simp: h1_extend_def min_def)
  show ?thesis
  proof (cases ?n c rule: try_reserve_cases)
    case (given hp)
    moreover have "length (data_buf c) + ?n \<le> H1_DATABUF K" "length (h1_recv_buf c) - ?n \<le> H1_BUF K"
      using inv d by (auto simp: h1_inv_def)
    ultimately show ?thesis using False inv st d n ext
      by (simp add: process_until_close_body_def turn_ok_def h1_drain_recv_def Let_def h1_inv_def h1_push_event_bound)
  next
    case (refused hp)
    then show ?thesis using False inv st d
      by (simp add: process_until_close_body_def turn_ok_def Let_def h1_inv_def)
  qed
qed

lemma h1_turn_ok: "h1_inv K c \<Longrightarrow> turn_ok K c (h1_turn K c)"
proof (cases "h1_state c")
  case Done
  assume "h1_inv K c"
  then show ?thesis using Done by (auto simp: h1_turn_def turn_ok_def next_message_def h1_inv_def h1_work_def)
qed (simp_all add: h1_turn_def try_parse_start_line_ok content_length_ok chunked_ok until_close_ok)

section \<open>The loop ends\<close>

text \<open>In every state, also outside the invariant, a turn that asks for another has used input.\<close>

lemma try_parse_progress:
  assumes "try_parse_start_line K c = (c', Ok True)"
  shows "h1_work c' < h1_work c"
proof -
  let ?c = "c\<lparr>header_buf := [], headers_available := False\<rparr>"
  obtain e where end_at: "find_end_of_headers (h1_recv_buf c) = Some e"
    using assms by (auto simp: try_parse_start_line_def split: option.splits)
  then have e: "4 \<le> e" "e \<le> length (h1_recv_buf c)" using find_end_bounds by auto
  obtain c1 c2 c3 n f f' where s: "start_line K (h1_recv_buf c) e ?c = (c1, Ok n)"
      and h: "header_loop K (h1_recv_buf c) n e f c1 = (c2, Ok f')" and d: "h1_drain_recv e c2 = (c3, Ok ())"
      and c': "c' = announce_head (begin_body f' (c3\<lparr>headers_available := True, keep_alive := \<not> connection_close f'\<rparr>))"
    using assms end_at by (auto simp: try_parse_start_line_def sbind_eq_Ok Let_def split: if_splits)
  have "head_only K ?c c1" "n \<le> e" using start_line_head [OF e(2), of K ?c] s by simp_all
  moreover have "head_only K c1 c2" using header_loop_head [OF \<open>n \<le> e\<close> e(2), of K c1 f] h by simp
  ultimately have "h1_recv_buf c2 = h1_recv_buf c" using head_only_recv by fastforce
  then show ?thesis using d c' e by (auto simp: h1_drain_recv_def intro!: work_less split: if_splits)
qed

lemma move_body_progress:
  assumes "move_body K r c = (c', Ok (Some m))"
  shows "length (h1_recv_buf c') < length (h1_recv_buf c)"
proof -
  let ?n = "min (H1_DATABUF K - length (data_buf c)) (min (length (h1_recv_buf c)) r)"
  have "h1_recv_buf c \<noteq> []" "?n > 0" using assms by (auto simp: move_body_def Let_def split: if_splits)
  moreover have le: "?n \<le> length (h1_recv_buf c)" by simp
  ultimately have "h1_recv_buf c' = drop ?n (h1_recv_buf c)"
    using assms by (cases ?n c rule: try_reserve_cases)
      (auto simp: move_body_def Let_def h1_drain_recv_def split: if_splits)
  then show ?thesis using \<open>h1_recv_buf c \<noteq> []\<close> \<open>?n > 0\<close> le by (simp del: min_less_iff_conj)
qed

lemma h1_turn_progress:
  assumes "h1_turn K c = (c', Ok True)"
  shows "h1_work c' < h1_work c"
proof (cases "h1_state c")
  case Idle
  then show ?thesis using assms by (simp add: h1_turn_def try_parse_progress)
next
  case (BodyContentLength r)
  then show ?thesis using assms
    by (auto simp: h1_turn_def process_content_length_body_def sbind_eq_Ok split: option.splits if_splits
        intro!: work_less dest!: move_body_progress)
next
  case BodyChunked
  then show ?thesis using assms parse_chunk_size_consumes parse_header_line_consumes
    by (fastforce simp: h1_turn_def process_chunked_body_def process_chunk_size_def process_chunk_data_def
        process_data_trailer_def process_trailers_def sbind_eq_Ok h1_drain_recv_def
        split: chunk_phase.splits res.splits option.splits if_splits intro!: work_less dest!: move_body_progress)
next
  case BodyUntilClose
  then show ?thesis using assms by (auto simp: h1_turn_def sbind_eq_Ok)
next
  case Done
  then show ?thesis using assms by (auto simp: h1_turn_def next_message_def h1_work_def split: if_splits)
qed

function h1_process_recv :: "h1_cfg \<Rightarrow> h1_sys \<Rightarrow> h1_sys \<times> unit res" where
  "h1_process_recv K c = sbind (h1_turn K c) (\<lambda>c again. if again then h1_process_recv K c else (c, Ok ()))"
  by pat_completeness auto
termination
  by (relation "measure (\<lambda>(K, c). h1_work c)") (auto dest: h1_turn_progress)

declare h1_process_recv.simps [simp del]

definition h1_feed_data :: "h1_cfg \<Rightarrow> bytes \<Rightarrow> h1_sys \<Rightarrow> h1_sys \<times> unit res" where
  "h1_feed_data K data c =
    (if length (h1_recv_buf c) + length data > H1_BUF K
     then (c, Err (BufferTooSmall (length (h1_recv_buf c) + length data)))
     else sbind (h1_try_reserve (length data) c) (\<lambda>c _.
            h1_process_recv K (c\<lparr>h1_recv_buf := h1_extend (H1_BUF K) (h1_recv_buf c) data\<rparr>)))"

section \<open>Timeouts\<close>

definition h1_set_timeouts :: "timeout_config \<Rightarrow> nat \<Rightarrow> h1_sys \<Rightarrow> h1_sys" where
  "h1_set_timeouts cfg now c = c\<lparr>h1_timeouts := cfg, h1_last_activity := now, h1_connection_start := now\<rparr>"

definition h1_next_timeout :: "h1_sys \<Rightarrow> nat option" where
  "h1_next_timeout c =
    (if h1_closed c then None
     else
       let earliest = None;
           earliest = (if \<not> h1_headers_phase_complete c then
                         case header_timeout_us (h1_timeouts c) of
                           Some hdr_us \<Rightarrow> earlier earliest (u64_saturating_add (h1_connection_start c) hdr_us)
                         | None \<Rightarrow> earliest
                       else earliest)
       in case idle_timeout_us (h1_timeouts c) of
            Some idle_us \<Rightarrow> earlier earliest (u64_saturating_add (h1_last_activity c) idle_us)
          | None \<Rightarrow> earliest)"

definition h1_time_out :: "h1_sys \<Rightarrow> h1_sys" where
  "h1_time_out c = h1_push_event H1Timeout (c\<lparr>h1_closed := True\<rparr>)"

definition h1_handle_timeout :: "nat \<Rightarrow> h1_sys \<Rightarrow> h1_sys" where
  "h1_handle_timeout now c =
    (if h1_closed c then c
     else
       let c = (if h1_sent_since_tick c then c\<lparr>h1_last_activity := now\<rparr> else c)\<lparr>h1_sent_since_tick := False\<rparr>
       in if \<not> h1_headers_phase_complete c \<and>
             (case header_timeout_us (h1_timeouts c) of
                Some hdr_us \<Rightarrow> now \<ge> u64_saturating_add (h1_connection_start c) hdr_us | None \<Rightarrow> False)
          then h1_time_out c
          else if (case idle_timeout_us (h1_timeouts c) of
                     Some idle_us \<Rightarrow> now \<ge> u64_saturating_add (h1_last_activity c) idle_us | None \<Rightarrow> False)
          then h1_time_out c
          else c)"

definition h1_feed_data_timed :: "h1_cfg \<Rightarrow> bytes \<Rightarrow> nat \<Rightarrow> h1_sys \<Rightarrow> h1_sys \<times> unit res" where
  "h1_feed_data_timed K data now c = h1_feed_data K data (if data \<noteq> [] then c\<lparr>h1_last_activity := now\<rparr> else c)"

definition h1_note_recv_activity :: "nat \<Rightarrow> h1_sys \<Rightarrow> h1_sys" where
  "h1_note_recv_activity now c = c\<lparr>h1_last_activity := now\<rparr>"

definition h1_is_closed :: "h1_sys \<Rightarrow> bool" where
  "h1_is_closed c \<longleftrightarrow> h1_closed c"

definition h1_is_established :: "h1_sys \<Rightarrow> bool" where
  "h1_is_established c \<longleftrightarrow> \<not> h1_closed c"

end
