(* ===== verification/Http1_Body.thy ===== *)
theory Http1_Body
  imports Http1_Connection "HOL-Library.Code_Target_Nat"
begin

text \<open>
  What an HTTP/1.1 connection promises to the application about a message's body: however the network cuts the
  bytes into reads, however full the buffers are and whenever the application drains them, it reads the payload of
  the body in order. The payload is given by a grammar of the wire (\<open>chunked_stream\<close>, \<open>carries\<close>), which knows
  nothing of buffers.
\<close>

section \<open>The grammar\<close>

inductive chunked_stream :: "nat \<Rightarrow> chunk_phase \<Rightarrow> bytes \<Rightarrow> bytes \<Rightarrow> bool" where
  last_chunk: "chunked_stream uw ChunkTrailers CRLF []"
| chunk_size: "13 \<notin> set line \<Longrightarrow> parse_hex uw (takeWhile (\<lambda>b. \<not> (b = 59 \<or> b = 32)) line) = Some sz \<Longrightarrow>
    chunked_stream uw (if sz = 0 then ChunkTrailers else ChunkData sz) raw body \<Longrightarrow>
    chunked_stream uw ChunkSize (line @ CRLF @ raw) body"
| chunk_data: "length data = r \<Longrightarrow> chunked_stream uw ChunkDataTrailer raw body \<Longrightarrow>
    chunked_stream uw (ChunkData r) (data @ raw) (data @ body)"
| chunk_end: "chunked_stream uw ChunkSize raw body \<Longrightarrow> chunked_stream uw ChunkDataTrailer (CRLF @ raw) body"

inductive_cases chunked_cases:
  "chunked_stream uw ChunkTrailers raw body" "chunked_stream uw ChunkSize raw body"
  "chunked_stream uw (ChunkData r) raw body" "chunked_stream uw ChunkDataTrailer raw body"

fun body_stream :: "nat \<Rightarrow> parse_state \<Rightarrow> chunk_phase \<Rightarrow> bytes \<Rightarrow> bytes \<Rightarrow> bool" where
  "body_stream uw (BodyContentLength r) ph raw body \<longleftrightarrow> body = raw \<and> length raw = r"
| "body_stream uw BodyUntilClose ph raw body \<longleftrightarrow> body = raw"
| "body_stream uw BodyChunked ph raw body \<longleftrightarrow> chunked_stream uw ph raw body"
| "body_stream uw Done ph raw body \<longleftrightarrow> raw = [] \<and> body = []"
| "body_stream uw Idle ph raw body \<longleftrightarrow> raw = [] \<and> body = []"

text \<open>From its parse position, the connection's receive buffer and the bytes to come are the rest of a body with that payload.\<close>

definition carries :: "h1_cfg \<Rightarrow> h1_sys \<Rightarrow> bytes \<Rightarrow> bytes \<Rightarrow> bool" where
  "carries K c unfed rest \<longleftrightarrow> body_stream (H1_USIZE K) (h1_state c) (chunk_state c) (h1_recv_buf c @ unfed) rest"

text \<open>A line is found in a prefix of the stream once the prefix holds all of it, and not before.\<close>

lemma split_line_prefix:
  assumes "split_line (a @ b) = Some (line, n)"
  shows "split_line a = (if n \<le> length a then Some (line, n) else None)"
proof (cases "n \<le> length a")
  case True
  have w: "window_position CRLF (a @ b) = Some (n - 2)" and n: "2 \<le> n" and l: "line = take (n - 2) (a @ b)"
    using assms by (auto simp: split_line_def bind_eq_Some_conv split: if_splits)
  have "window_position CRLF (take (length a) (a @ b)) = Some (n - 2)"
    using window_position_prefix [OF w, of "length a"] True n by simp
  then show ?thesis using True n l by (simp add: split_line_def) linarith
next
  case False
  have "split_line a = None"
  proof (rule ccontr)
    assume "split_line a \<noteq> None"
    then obtain r where r: "split_line a = Some r" by auto
    then have "r = (line, n)" using split_line_append [OF r, of b] assms by simp
    then show False using split_line_bounds [of a line n] r False by simp
  qed
  then show ?thesis using False by simp
qed

lemma chunk_size_turn:
  assumes "13 \<notin> set line" and "parse_hex uw (takeWhile (\<lambda>b. \<not> (b = 59 \<or> b = 32)) line) = Some sz"
    and "a @ b = line @ CRLF @ raw"
  shows "parse_chunk_size uw a = (if length line + 2 \<le> length a then Ok (sz, length line + 2) else Err WouldBlock)"
  using split_line_prefix [of a b] split_line_print [OF assms(1), of raw] assms(2,3)
  by (simp add: parse_chunk_size_def Let_def)

section \<open>Turns deliver\<close>

text \<open>A turn succeeds, and what is buffered together with what is still on its way stays the same.\<close>

definition delivers :: "h1_cfg \<Rightarrow> bytes \<Rightarrow> bytes \<Rightarrow> h1_sys \<Rightarrow> h1_sys \<times> 'a res \<Rightarrow> bool" where
  "delivers K unfed rest c p \<longleftrightarrow>
    (\<exists>c' x rest'. p = (c', Ok x) \<and> carries K c' unfed rest' \<and> data_buf c' @ rest' = data_buf c @ rest \<and>
      current_stream_id c' = current_stream_id c)"

lemma deliversI:
  "carries K c' unfed rest' \<Longrightarrow> data_buf c' @ rest' = data_buf c @ rest \<Longrightarrow> current_stream_id c' = current_stream_id c \<Longrightarrow>
    delivers K unfed rest c (c', Ok x)"
  by (auto simp: delivers_def)

lemma take_drop_append: "take n xs @ drop n xs @ ys = xs @ ys"
  by (simp flip: append_assoc)

lemma content_length_delivers:
  assumes inv: "h1_inv K c" and st: "h1_state c = BodyContentLength r" and car: "carries K c u rest"
  shows "delivers K u rest c (process_content_length_body K r c)"
proof -
  have d: "length (data_buf c) \<le> H1_DATABUF K" "r > 0" using inv st by (auto simp: h1_inv_def)
  have raw: "rest = h1_recv_buf c @ u" "length (h1_recv_buf c) + length u = r" using car st by (auto simp: carries_def Let_def)
  show ?thesis using d
  proof (cases rule: move_body_cases)
    case empty
    then show ?thesis using car by (simp add: process_content_length_body_def deliversI)
  next
    case (park hp)
    then show ?thesis using car by (auto simp: process_content_length_body_def carries_def intro!: deliversI [where rest' = rest])
  next
    case (move n hp)
    have n: "n \<le> length (h1_recv_buf c)" "n \<le> r" using move(3) by auto
    show ?thesis
    proof (cases "r = n")
      case True
      then show ?thesis using move(4) n raw
        by (auto simp: process_content_length_body_def carries_def intro!: deliversI [where rest' = "[]"])
    next
      case False
      then show ?thesis using move(4) n raw st
        by (auto simp: process_content_length_body_def carries_def Let_def
            take_drop_append
            intro!: deliversI [where rest' = "drop n (h1_recv_buf c) @ u"])
    qed
  qed
qed

lemma chunk_data_delivers:
  assumes inv: "h1_inv K c" and st: "h1_state c = BodyChunked" "chunk_state c = ChunkData r" and car: "carries K c u rest"
  shows "delivers K u rest c (process_chunk_data K r c)"
proof -
  have d: "length (data_buf c) \<le> H1_DATABUF K" "r > 0" using inv st by (auto simp: h1_inv_def)
  have "chunked_stream (H1_USIZE K) (ChunkData r) (h1_recv_buf c @ u) rest" using car st by (simp add: carries_def Let_def)
  then obtain data raw body where raw: "h1_recv_buf c @ u = data @ raw" "rest = data @ body" "length data = r"
    and more: "chunked_stream (H1_USIZE K) ChunkDataTrailer raw body" by (auto elim: chunked_cases)
  show ?thesis using d
  proof (cases rule: move_body_cases)
    case empty
    then show ?thesis using car by (simp add: process_chunk_data_def deliversI)
  next
    case (park hp)
    then show ?thesis using car by (auto simp: process_chunk_data_def carries_def intro!: deliversI [where rest' = rest])
  next
    case (move n hp)
    have n: "n \<le> length (h1_recv_buf c)" "n \<le> r" using move(3) by auto
    have t: "take n (h1_recv_buf c) = take n data" "drop n (h1_recv_buf c) @ u = drop n data @ raw"
      using arg_cong [OF raw(1), of "take n"] arg_cong [OF raw(1), of "drop n"] n raw(3) by simp_all
    have "chunked_stream (H1_USIZE K) (if r - n = 0 then ChunkDataTrailer else ChunkData (r - n)) (drop n data @ raw) (drop n data @ body)"
      using more n raw(3) by (auto intro!: chunked_stream.chunk_data)
    then show ?thesis using move(4) st t raw
      by (auto simp: process_chunk_data_def carries_def Let_def take_drop_append intro!: deliversI [where rest' = "drop n data @ body"]
          split: if_splits)
  qed
qed

lemma prefix_two: "a @ b = CRLF @ raw \<Longrightarrow> 2 \<le> length a \<Longrightarrow> \<exists>a'. a = CRLF @ a' \<and> a' @ b = raw"
  by (cases a; cases "tl a") auto

lemma chunked_delivers:
  assumes inv: "h1_inv K c" and st: "h1_state c = BodyChunked" and car: "carries K c u rest"
  shows "delivers K u rest c (process_chunked_body K c)"
proof (cases "chunk_state c")
  case (ChunkData r)
  then show ?thesis using chunk_data_delivers [OF inv st ChunkData car] by (simp add: process_chunked_body_def)
next
  case ChunkSize
  then have "chunked_stream (H1_USIZE K) ChunkSize (h1_recv_buf c @ u) rest" using car st by (simp add: carries_def Let_def)
  then obtain line raw sz where l: "13 \<notin> set line"
      and h: "parse_hex (H1_USIZE K) (takeWhile (\<lambda>b. \<not> (b = 59 \<or> b = 32)) line) = Some sz"
      and eq: "h1_recv_buf c @ u = line @ CRLF @ raw"
      and more: "chunked_stream (H1_USIZE K) (if sz = 0 then ChunkTrailers else ChunkData sz) raw rest"
    by (auto elim: chunked_cases)
  note p = chunk_size_turn [OF l h eq]
  show ?thesis
  proof (cases "length line + 2 \<le> length (h1_recv_buf c)")
    case True
    have "drop (length line + 2) (h1_recv_buf c) @ u = raw"
      using arg_cong [OF eq, of "drop (length line + 2)"] True by simp
    then show ?thesis using True p more st ChunkSize
      by (auto simp: process_chunked_body_def process_chunk_size_def h1_drain_recv_def carries_def Let_def
          intro!: deliversI [where rest' = rest])
  next
    case False
    then show ?thesis using p car ChunkSize
      by (simp add: process_chunked_body_def process_chunk_size_def deliversI)
  qed
next
  case ChunkDataTrailer
  then have "chunked_stream (H1_USIZE K) ChunkDataTrailer (h1_recv_buf c @ u) rest" using car st by (simp add: carries_def Let_def)
  then obtain raw where eq: "h1_recv_buf c @ u = CRLF @ raw" and more: "chunked_stream (H1_USIZE K) ChunkSize raw rest"
    by (auto elim: chunked_cases)
  show ?thesis using prefix_two [OF eq] more car ChunkDataTrailer st
    by (auto simp: process_chunked_body_def process_data_trailer_def h1_drain_recv_def carries_def Let_def
        intro!: deliversI [where rest' = rest])
next
  case ChunkTrailers
  then have "chunked_stream (H1_USIZE K) ChunkTrailers (h1_recv_buf c @ u) rest" using car st by (simp add: carries_def Let_def)
  then have eq: "h1_recv_buf c @ u = CRLF @ []" and r: "rest = []" by (auto elim: chunked_cases)
  show ?thesis using prefix_two [OF eq] r car ChunkTrailers st
    by (auto simp: process_chunked_body_def process_trailers_def h1_drain_recv_def carries_def Let_def
        intro!: deliversI [where rest' = "[]"])
qed

lemma until_close_delivers:
  assumes inv: "h1_inv K c" and st: "h1_state c = BodyUntilClose" and car: "carries K c u rest"
  shows "delivers K u rest c (sbind (process_until_close_body K c) (\<lambda>c _. (c, Ok False)))"
proof (cases "h1_recv_buf c = []")
  case True
  then show ?thesis using car by (simp add: process_until_close_body_def deliversI)
next
  case False
  let ?n = "min (length (h1_recv_buf c)) (H1_DATABUF K - length (data_buf c))"
  have d: "length (data_buf c) \<le> H1_DATABUF K" using inv by (simp add: h1_inv_def)
  have n: "?n \<le> length (h1_recv_buf c)" by simp
  have r: "rest = h1_recv_buf c @ u" using car st by (simp add: carries_def)
  have ext: "h1_extend (H1_DATABUF K) (data_buf c) (take ?n (h1_recv_buf c)) = data_buf c @ take ?n (h1_recv_buf c)"
    using d by (auto simp: h1_extend_def min_def)
  show ?thesis
  proof (cases ?n c rule: try_reserve_cases)
    case (given hp)
    then show ?thesis using False st d n ext r
      by (auto simp: process_until_close_body_def h1_drain_recv_def Let_def carries_def take_drop_append
          intro!: deliversI [where rest' = "drop ?n (h1_recv_buf c) @ u"])
  next
    case (refused hp)
    then show ?thesis using False st d r
      by (auto simp: process_until_close_body_def Let_def carries_def intro!: deliversI [where rest' = "h1_recv_buf c @ u"])
  qed
qed

lemma h1_turn_delivers:
  assumes inv: "h1_inv K c" and car: "carries K c u rest"
  shows "delivers K u rest c (h1_turn K c)"
proof (cases "h1_state c")
  case Idle
  then have "h1_recv_buf c = []" using car by (simp add: carries_def)
  then show ?thesis using Idle car
    by (simp add: h1_turn_def try_parse_start_line_def find_end_of_headers_def deliversI)
next
  case Done
  then show ?thesis using car
    by (auto simp: h1_turn_def next_message_def carries_def intro!: deliversI [where rest' = "[]"])
qed (use assms in \<open>simp_all add: h1_turn_def content_length_delivers chunked_delivers until_close_delivers\<close>)

lemma h1_process_recv_delivers:
  "h1_inv K c \<Longrightarrow> carries K c u rest \<Longrightarrow>
    delivers K u rest c (h1_process_recv K c)"
proof (induction K c arbitrary: rest rule: h1_process_recv.induct)
  case (1 K c)
  have ok: "turn_ok K c (h1_turn K c)" using 1(2) by (rule h1_turn_ok)
  obtain c' again rest' where t: "h1_turn K c = (c', Ok again)" and car: "carries K c' u rest'"
      and eq: "data_buf c' @ rest' = data_buf c @ rest" "current_stream_id c' = current_stream_id c"
    using h1_turn_delivers [OF 1(2,3)] by (auto simp: delivers_def)
  show ?case
  proof (cases again)
    case True
    have "h1_inv K c'" using ok t by (simp add: turn_ok_def)
    then show ?thesis using 1(1) [of c' True rest'] t True car eq
      by (auto simp: h1_process_recv.simps [of K c] delivers_def)
  next
    case False
    then show ?thesis using t car eq
      by (auto simp: h1_process_recv.simps [of K c] intro: deliversI)
  qed
qed

lemma h1_process_recv_ok:
  "h1_inv K c \<Longrightarrow> post (\<lambda>_ c'. h1_inv K c' \<and> (in_body c' \<and> h1_recv_buf c' \<noteq> [] \<longrightarrow> body_parked c')) (h1_inv K) (h1_process_recv K c)"
proof (induction K c rule: h1_process_recv.induct)
  case (1 K c)
  have ok: "turn_ok K c (h1_turn K c)" using 1(2) by (rule h1_turn_ok)
  obtain c' x where t: "h1_turn K c = (c', x)" by fastforce
  show ?case
  proof (cases "x = Ok True")
    case True
    then show ?thesis using 1(1) [of c' True] t ok by (simp add: h1_process_recv.simps [of K c] turn_ok_def)
  next
    case False
    then show ?thesis using t ok
      by (cases x) (auto simp: h1_process_recv.simps [of K c] turn_ok_def)
  qed
qed

section \<open>Feeding and reading\<close>

lemma h1_feed_data_delivers:
  assumes inv: "h1_inv K c" and car: "carries K c (data @ u) rest" and fed: "h1_feed_data K data c = (c', Ok x)"
  shows "h1_inv K c'" "delivers K u rest c (c', Ok x)" "in_body c' \<Longrightarrow> h1_recv_buf c' \<noteq> [] \<Longrightarrow> body_parked c'"
proof -
  obtain hp where fit: "length (h1_recv_buf c) + length data \<le> H1_BUF K"
    and p: "h1_process_recv K (c\<lparr>h1_heap := hp, h1_recv_buf := h1_recv_buf c @ data\<rparr>) = (c', Ok x)"
    using fed by (cases "length data" c rule: try_reserve_cases)
      (auto simp: h1_feed_data_def h1_extend_def split: if_splits)
  let ?c = "c\<lparr>h1_heap := hp, h1_recv_buf := h1_recv_buf c @ data\<rparr>"
  have i: "h1_inv K ?c" using inv fit by (auto simp: h1_inv_def)
  have "carries K ?c u rest" using car by (simp add: carries_def)
  from h1_process_recv_delivers [OF i this] p show "delivers K u rest c (c', Ok x)" by (simp add: delivers_def)
  show "h1_inv K c'" "in_body c' \<Longrightarrow> h1_recv_buf c' \<noteq> [] \<Longrightarrow> body_parked c'"
    using h1_process_recv_ok [OF i] p by simp_all
qed

text \<open>A feed of the bytes of a body is refused only for want of room or of memory, and then takes nothing.\<close>

lemma h1_feed_data_refused:
  assumes inv: "h1_inv K c" and car: "carries K c (data @ u) rest" and fed: "h1_feed_data K data c = (c', r)" and r: "r \<noteq> Ok ()"
  shows "\<exists>hp. c' = c\<lparr>h1_heap := hp\<rparr>"
proof (cases "length (h1_recv_buf c) + length data > H1_BUF K")
  case True
  then have "c' = c\<lparr>h1_heap := h1_heap c\<rparr>" using fed by (simp add: h1_feed_data_def)
  then show ?thesis by blast
next
  case False
  show ?thesis
  proof (cases "length data" c rule: try_reserve_cases)
    case (given hp)
    let ?c = "c\<lparr>h1_heap := hp, h1_recv_buf := h1_recv_buf c @ data\<rparr>"
    have "h1_inv K ?c" using inv False by (auto simp: h1_inv_def)
    moreover have "carries K ?c u rest" using car by (simp add: carries_def)
    ultimately have "delivers K u rest ?c (h1_process_recv K ?c)" by (rule h1_process_recv_delivers)
    moreover have "h1_process_recv K ?c = (c', r)" using fed given False by (simp add: h1_feed_data_def h1_extend_def)
    ultimately show ?thesis using r by (auto simp: delivers_def)
  next
    case (refused hp)
    then show ?thesis using fed False by (auto simp: h1_feed_data_def)
  qed
qed

lemma h1_recv_body_delivers:
  assumes inv: "h1_inv K c" and car: "carries K c u rest" and rd: "h1_recv_body (current_stream_id c) n c = (c', r)"
  shows "h1_inv K c'" "carries K c' u rest" "current_stream_id c' = current_stream_id c" "data_buf c = (case r of Ok (bs, _) \<Rightarrow> bs | _ \<Rightarrow> []) @ data_buf c'"
  using assms by (auto simp: h1_recv_body_def check_stream_id_def carries_def h1_inv_def Let_def split: if_splits)

text \<open>The network and the application take turns; the state is the connection, the bytes not fed yet and those read.\<close>

datatype body_act = FeedSome nat | ReadSome nat

fun body_step :: "h1_cfg \<Rightarrow> body_act \<Rightarrow> h1_sys \<times> bytes \<times> bytes \<Rightarrow> h1_sys \<times> bytes \<times> bytes" where
  "body_step K (FeedSome k) (c, unfed, out) =
    (case h1_feed_data K (take k unfed) c of
       (c', Ok _) \<Rightarrow> (c', drop k unfed, out)
     | (c', _) \<Rightarrow> (c', unfed, out))"
| "body_step K (ReadSome n) (c, unfed, out) =
    (case h1_recv_body (current_stream_id c) n c of
       (c', Ok (bs, _)) \<Rightarrow> (c', unfed, out @ bs)
     | (c', _) \<Rightarrow> (c', unfed, out))"

definition body_inv :: "h1_cfg \<Rightarrow> bytes \<Rightarrow> h1_sys \<times> bytes \<times> bytes \<Rightarrow> bool" where
  "body_inv K body s \<longleftrightarrow> (case s of (c, unfed, out) \<Rightarrow>
    h1_inv K c \<and> (\<exists>rest. carries K c unfed rest \<and> out @ data_buf c @ rest = body))"

lemma body_step_inv:
  assumes "body_inv K body s"
  shows "body_inv K body (body_step K a s)"
proof -
  obtain c unfed out where s: "s = (c, unfed, out)" by (cases s)
  obtain rest where inv: "h1_inv K c" and car: "carries K c unfed rest" and body: "out @ data_buf c @ rest = body"
    using assms by (auto simp: body_inv_def s)
  show ?thesis
  proof (cases a)
    case (FeedSome k)
    obtain c' r where f: "h1_feed_data K (take k unfed) c = (c', r)" by fastforce
    have car': "carries K c (take k unfed @ drop k unfed) rest" using car by simp
    show ?thesis
    proof (cases "r = Ok ()")
      case True
      note d = h1_feed_data_delivers [OF inv car' f [unfolded True]]
      show ?thesis using d(1,2) f True body by (auto simp: FeedSome s body_inv_def delivers_def)
    next
      case False
      then obtain hp where "c' = c\<lparr>h1_heap := hp\<rparr>" using h1_feed_data_refused [OF inv car' f] by blast
      then have "body_step K a s = (c\<lparr>h1_heap := hp\<rparr>, unfed, out)" using f False by (cases r) (auto simp: FeedSome s)
      then show ?thesis using inv car body by (auto simp: body_inv_def carries_def)
    qed
  next
    case (ReadSome n)
    obtain c' r where f: "h1_recv_body (current_stream_id c) n c = (c', r)" by fastforce
    note d = h1_recv_body_delivers [OF inv car f]
    show ?thesis using d f body by (cases r) (auto simp: ReadSome s body_inv_def)
  qed
qed

lemma body_run_inv: "body_inv K body s \<Longrightarrow> body_inv K body (fold (body_step K) steps s)"
  by (induction steps arbitrary: s) (simp_all only: fold.simps id_apply comp_apply body_step_inv)

lemma chunked_stream_nonempty: "chunked_stream uw ph raw body \<Longrightarrow> raw \<noteq> []"
  by (induction rule: chunked_stream.induct) auto

text \<open>
  C36: A message body reaches the application exactly, whatever its framing. Let the connection stand anywhere in a
  body and let the bytes in its receive buffer and those still to come be that body by the grammar of its framing
  (a content length, chunks with extensions, or everything until close). Feed them in pieces of any size and read
  in pieces of any size, in any order, with any buffer sizes and any refusals of the allocator: what the application
  has read is always a prefix of the payload, and once nothing is left to feed or to read it is the payload, and the
  parser has left the body unless the body ends with the connection.
\<close>

theorem body_delivered_exactly:
  assumes "h1_inv K c" and "data_buf c = []" and "carries K c raw body"
    and "fold (body_step K) steps (c, raw, []) = (c', unfed, out)"
  shows "(\<exists>more. body = out @ more) \<and>
    (unfed = [] \<and> h1_recv_buf c' = [] \<and> data_buf c' = [] \<longrightarrow> out = body \<and> h1_state c' \<in> {Done, Idle, BodyUntilClose})"
proof -
  have "body_inv K body (c, raw, [])" using assms by (simp add: body_inv_def)
  then have "body_inv K body (c', unfed, out)" using body_run_inv [of K body _ steps] assms(4) by metis
  then obtain rest where inv: "h1_inv K c'" and car: "carries K c' unfed rest" and body: "out @ data_buf c' @ rest = body"
    by (auto simp: body_inv_def)
  have "rest = [] \<and> h1_state c' \<in> {Done, Idle, BodyUntilClose}" if "unfed = []" "h1_recv_buf c' = []"
    using car inv that chunked_stream_nonempty by (cases "h1_state c'") (auto simp: carries_def h1_inv_def)
  then show ?thesis using body by auto
qed

text \<open>A chunk with an extension, through a data buffer of three bytes and a refusing allocator.\<close>

definition chunk_cfg :: h1_cfg where
  "chunk_cfg = \<lparr>H1_HDRBUF = 64, H1_DATABUF = 3, H1_BUF = 16, H1_USIZE = 32\<rparr>"

definition chunk_raw :: bytes where
  "chunk_raw = ascii ''4;x'' @ CRLF @ ascii ''abcd'' @ CRLF @ ascii ''0'' @ CRLF @ CRLF"

definition chunk_start :: h1_sys where
  "chunk_start = (h1_new H1Server [] [] [True, False])\<lparr>h1_state := BodyChunked\<rparr>"

definition chunk_steps :: "body_act list" where
  "chunk_steps = [FeedSome 7, FeedSome 9, ReadSome 2, FeedSome 0, ReadSome 3, FeedSome 0]"

lemma chunk_raw_stream: "chunked_stream 32 ChunkSize chunk_raw (ascii ''abcd'')"
proof -
  have "chunked_stream 32 ChunkSize (ascii ''0'' @ CRLF @ CRLF) []"
    by (rule chunked_stream.chunk_size [where sz = 0]) (code_simp, code_simp, simp add: chunked_stream.last_chunk)
  from chunked_stream.chunk_data [OF _ chunked_stream.chunk_end [OF this], of "ascii ''abcd''" 4]
  have "chunked_stream 32 (ChunkData 4) (ascii ''abcd'' @ CRLF @ ascii ''0'' @ CRLF @ CRLF) (ascii ''abcd'')"
    by (simp add: ascii_def)
  then show ?thesis unfolding chunk_raw_def
    by (intro chunked_stream.chunk_size [where sz = 4]) (code_simp, code_simp, simp)
qed

theorem body_delivered_exactly_witness:
  "\<exists>c'. fold (body_step chunk_cfg) chunk_steps (chunk_start, chunk_raw, []) = (c', [], ascii ''abcd'') \<and>
    h1_recv_buf c' = [] \<and> data_buf c' = [] \<and> h1_state c' \<in> {Done, Idle, BodyUntilClose}"
proof -
  obtain c' unfed out where run: "fold (body_step chunk_cfg) chunk_steps (chunk_start, chunk_raw, []) = (c', unfed, out)"
    by (cases "fold (body_step chunk_cfg) chunk_steps (chunk_start, chunk_raw, [])") auto
  have "(case fold (body_step chunk_cfg) chunk_steps (chunk_start, chunk_raw, []) of
      (c', unfed, out) \<Rightarrow> unfed = [] \<and> h1_recv_buf c' = [] \<and> data_buf c' = [])"
    by code_simp
  moreover have "h1_inv chunk_cfg chunk_start" "data_buf chunk_start = []" by code_simp+
  moreover have "carries chunk_cfg chunk_start chunk_raw (ascii ''abcd'')"
    using chunk_raw_stream by (simp add: carries_def chunk_start_def chunk_cfg_def h1_new_def)
  ultimately show ?thesis using body_delivered_exactly [OF _ _ _ run] run by auto
qed

end
