(* ===== verification/Http1_Safety.thy ===== *)
theory Http1_Safety
  imports Http1_Body
begin

text \<open>
  Every call of an HTTP/1.1 connection, in every order, with every input: no call panics, every buffer stays within
  its const generic, and the flag that asks the application for a drain is set exactly when body bytes wait for one.
  The last part names what the connection does not promise.
\<close>

section \<open>Calls keep the invariant\<close>

abbreviation keeps :: "h1_cfg \<Rightarrow> h1_sys \<times> 'a res \<Rightarrow> bool" where
  "keeps K \<equiv> post (\<lambda>_. h1_inv K) (h1_inv K)"

lemma h1_try_reserve_keeps: "h1_inv K c \<Longrightarrow> keeps K (h1_try_reserve n c)"
  by (cases n c rule: try_reserve_cases) auto

lemma feed_keeps:
  assumes inv: "h1_inv K c"
  shows "post (\<lambda>_ c'. h1_inv K c' \<and> (in_body c' \<and> h1_recv_buf c' \<noteq> [] \<longrightarrow> body_parked c')) (h1_inv K) (h1_feed_data K data c)"
proof (cases "length (h1_recv_buf c) + length data > H1_BUF K")
  case False
  show ?thesis
  proof (cases "length data" c rule: try_reserve_cases)
    case (given hp)
    have "h1_inv K (c\<lparr>h1_heap := hp, h1_recv_buf := h1_recv_buf c @ data\<rparr>)" using inv False by (auto simp: h1_inv_def)
    from h1_process_recv_ok [OF this] show ?thesis using given False by (simp add: h1_feed_data_def h1_extend_def)
  qed (use inv False in \<open>simp add: h1_feed_data_def\<close>)
qed (use inv in \<open>simp add: h1_feed_data_def\<close>)

lemma h1_queue_send_keeps:
  assumes "h1_inv K c"
  shows "post (\<lambda>_ c'. h1_inv K c' \<and> current_stream_id c' = current_stream_id c) (h1_inv K) (h1_queue_send K data c)"
  using assms by (cases "length data" c rule: try_reserve_cases)
    (auto simp: h1_queue_send_def h1_extend_def h1_inv_def)

lemma queue_all_keeps: "h1_inv K c \<Longrightarrow> keeps K (queue_all K ds c)"
  by (induction ds arbitrary: c) (auto intro!: post_sbind [OF h1_queue_send_keeps])

lemma encode_keeps: "h1_inv K c \<Longrightarrow> keeps K (encode_request K hs c)" "h1_inv K c \<Longrightarrow> keeps K (encode_response K hs c)"
  unfolding encode_request_def encode_response_def Let_def
  by (intro post_sbind [OF queue_all_keeps] post_sbind [where Q' = "\<lambda>_. h1_inv K"] post_mono [OF h1_queue_send_keeps] post_if
      queue_all_keeps; simp)+

lemma h1_send_headers_keeps: "h1_inv K c \<Longrightarrow> keeps K (h1_send_headers K sid hs c)"
  unfolding h1_send_headers_def check_stream_id_def
  by (auto intro!: post_sbind [where Q' = "\<lambda>_. h1_inv K"] encode_keeps split: h1_role.split)

lemma h1_open_stream_keeps: "h1_inv K c \<Longrightarrow> keeps K (h1_open_stream K hs c)"
  unfolding h1_open_stream_def Let_def by (intro post_sbind [OF h1_send_headers_keeps]) auto

lemma h1_send_data_keeps: "h1_inv K c \<Longrightarrow> keeps K (h1_send_data K sid data c)"
  unfolding h1_send_data_def check_stream_id_def by (auto intro!: post_sbind [OF h1_queue_send_keeps])

lemma h1_recv_headers_keeps: "h1_inv K c \<Longrightarrow> keeps K (h1_recv_headers sid c)"
  by (simp add: h1_recv_headers_def check_stream_id_def h1_inv_def)

lemma h1_recv_body_keeps: "h1_inv K c \<Longrightarrow> keeps K (h1_recv_body sid n c)"
  by (auto simp: h1_recv_body_def check_stream_id_def h1_inv_def Let_def)

lemma h1_poll_output_keeps: "h1_inv K c \<Longrightarrow> keeps K (h1_poll_output n c)"
  by (auto simp: h1_poll_output_def h1_inv_def Let_def min_def)

lemma poll_event_keeps: "h1_inv K c \<Longrightarrow> h1_inv K (fst (h1_poll_event c))"
  by (auto simp: h1_poll_event_def h1_inv_def split: list.split)

lemma h1_handle_timeout_keeps: "h1_inv K c \<Longrightarrow> h1_inv K (h1_handle_timeout now c)"
  by (simp add: h1_handle_timeout_def h1_time_out_def Let_def split: option.split)

lemma h1_new_inv: "h1_inv K (h1_new r [] [] hp)"
  by (simp add: h1_inv_def h1_new_def)

section \<open>Reachable states\<close>

text \<open>Any call with any arguments, whatever it returns.\<close>

inductive h1_reachable :: "h1_cfg \<Rightarrow> h1_sys \<Rightarrow> bool" for K where
  created: "h1_reachable K (h1_new r [] [] hp)"
| feed: "h1_reachable K c \<Longrightarrow> h1_feed_data K data c = (c', x) \<Longrightarrow> h1_reachable K c'"
| feed_timed: "h1_reachable K c \<Longrightarrow> h1_feed_data_timed K data now c = (c', x) \<Longrightarrow> h1_reachable K c'"
| poll_output: "h1_reachable K c \<Longrightarrow> h1_poll_output n c = (c', y) \<Longrightarrow> h1_reachable K c'"
| poll_event: "h1_reachable K c \<Longrightarrow> h1_poll_event c = (c', e) \<Longrightarrow> h1_reachable K c'"
| send_headers: "h1_reachable K c \<Longrightarrow> h1_send_headers K sid hs c = (c', x) \<Longrightarrow> h1_reachable K c'"
| send_data: "h1_reachable K c \<Longrightarrow> h1_send_data K sid data c = (c', m) \<Longrightarrow> h1_reachable K c'"
| open_stream: "h1_reachable K c \<Longrightarrow> h1_open_stream K hs c = (c', m) \<Longrightarrow> h1_reachable K c'"
| recv_headers: "h1_reachable K c \<Longrightarrow> h1_recv_headers sid c = (c', h) \<Longrightarrow> h1_reachable K c'"
| recv_body: "h1_reachable K c \<Longrightarrow> h1_recv_body sid n c = (c', b) \<Longrightarrow> h1_reachable K c'"
| set_timeouts: "h1_reachable K c \<Longrightarrow> h1_reachable K (h1_set_timeouts cfg now c)"
| handle_timeout: "h1_reachable K c \<Longrightarrow> h1_reachable K (h1_handle_timeout now c)"
| note_activity: "h1_reachable K c \<Longrightarrow> h1_reachable K (h1_note_recv_activity now c)"

lemma keeps_state: "p = (c', x) \<Longrightarrow> keeps K p \<Longrightarrow> h1_inv K c'"
  by (cases x) auto

lemma feed_timed_keeps: "h1_inv K c \<Longrightarrow> keeps K (h1_feed_data_timed K data now c)"
  unfolding h1_feed_data_timed_def by (rule post_mono [OF feed_keeps]) auto

lemmas h1_call_keeps = feed_timed_keeps h1_poll_output_keeps h1_send_headers_keeps h1_send_data_keeps h1_open_stream_keeps
  h1_recv_headers_keeps h1_recv_body_keeps post_mono [OF feed_keeps]

lemmas h1_call_inv = h1_call_keeps(1-7) [THEN keeps_state [rotated]]

lemma h1_reachable_inv: "h1_reachable K c \<Longrightarrow> h1_inv K c"
proof (induction rule: h1_reachable.induct)
  case (poll_event c c' e)
  then show ?case using poll_event_keeps [of K c] by simp
next
  case (feed c data c' x)
  then show ?case using keeps_state [OF feed(2) post_mono [OF feed_keeps]] by blast
qed (rule h1_new_inv | erule (1) h1_call_inv | simp add: h1_handle_timeout_keeps h1_set_timeouts_def h1_note_recv_activity_def; fail)+

lemma keeps_no_panic: "keeps K p \<Longrightarrow> snd p \<noteq> Panic"
  by (cases p; cases "snd p") auto

text \<open>
  C38: No call of an HTTP/1.1 connection panics and no buffer overflows. In every state reached from a new connection by
  any calls with any arguments, with any answers of the allocator, every further call returns (the receive
  loop included, which is a total function) without an out-of-range slice or an arithmetic underflow, and
  the header, body, receive and send buffers, the unsent offset and the event queue are within their bounds.
\<close>

theorem h1_calls_safe:
  assumes "h1_reachable K c"
  shows "snd (h1_feed_data_timed K data now c) \<noteq> Panic \<and> snd (h1_feed_data K data c) \<noteq> Panic \<and>
    snd (h1_poll_output n c) \<noteq> Panic \<and> snd (h1_send_headers K sid hs c) \<noteq> Panic \<and>
    snd (h1_send_data K sid data c) \<noteq> Panic \<and> snd (h1_open_stream K hs c) \<noteq> Panic \<and>
    snd (h1_recv_headers sid c) \<noteq> Panic \<and> snd (h1_recv_body sid n c) \<noteq> Panic \<and>
    length (header_buf c) \<le> H1_HDRBUF K \<and> length (data_buf c) \<le> H1_DATABUF K \<and>
    length (h1_recv_buf c) \<le> H1_BUF K \<and> length (h1_send_buf c) \<le> H1_BUF K \<and>
    h1_send_offset c \<le> length (h1_send_buf c) \<and> length (h1_events c) \<le> 32"
proof -
  have inv: "h1_inv K c" using assms by (rule h1_reachable_inv)
  have "keeps K (h1_feed_data K data c)" by (rule post_mono [OF feed_keeps [OF inv]]) auto
  then show ?thesis using inv h1_call_keeps(1-7) [THEN keeps_no_panic, OF inv] keeps_no_panic
    by (simp add: h1_inv_def)
qed

definition small_cfg :: h1_cfg where
  "small_cfg = \<lparr>H1_HDRBUF = 64, H1_DATABUF = 3, H1_BUF = 64, H1_USIZE = 32\<rparr>"

theorem h1_calls_safe_witness:
  "snd (h1_recv_body 0 4 (fst (h1_feed_data small_cfg [13, 10, 13, 10] (h1_new H1Server [] [] [False])))) \<noteq> Panic"
proof -
  have "h1_reachable small_cfg (fst (h1_feed_data small_cfg [13, 10, 13, 10] (h1_new H1Server [] [] [False])))"
    by (rule h1_reachable.feed [OF h1_reachable.created prod.collapse [symmetric]])
  from h1_calls_safe [OF this, of "[]" 0 4 0 "[]"] show ?thesis by simp
qed

section \<open>Backpressure\<close>

lemma parked_in_body: "h1_inv K c \<Longrightarrow> body_parked c \<Longrightarrow> in_body c \<and> h1_recv_buf c \<noteq> []"
  by (simp add: h1_inv_def)

lemma h1_process_recv_recv: "h1_inv K c \<Longrightarrow> length (h1_recv_buf (fst (h1_process_recv K c))) \<le> length (h1_recv_buf c)"
proof (induction K c rule: h1_process_recv.induct)
  case (1 K c)
  have ok: "turn_ok K c (h1_turn K c)" using 1(2) by (rule h1_turn_ok)
  obtain c' x where t: "h1_turn K c = (c', x)" by fastforce
  show ?case
  proof (cases "x = Ok True")
    case True
    then show ?thesis using 1(1) [of c' True] t ok by (auto simp: h1_process_recv.simps [of K c] turn_ok_def)
  next
    case False
    then show ?thesis using t ok by (cases x) (auto simp: h1_process_recv.simps [of K c] turn_ok_def)
  qed
qed

text \<open>With room in the data buffer and memory to use it, a turn in a body moves bytes.\<close>

lemma turn_moves:
  assumes inv: "h1_inv K c" and body: "in_body c" "h1_recv_buf c \<noteq> []"
    and room: "length (data_buf c) < H1_DATABUF K" "h1_heap c = []"
  shows "\<exists>c' again. h1_turn K c = (c', Ok again) \<and> length (h1_recv_buf c') < length (h1_recv_buf c)"
proof -
  have move: "\<exists>n hp. 0 < n \<and> move_body K r c = (moved n r hp c, Ok (Some (r - n)))" if "r > 0" for r
    using less_imp_le [OF room(1)] that
  proof (cases rule: move_body_cases)
    case (move n hp)
    then show ?thesis by blast
  qed (use body room in auto)
  consider (length) r where "h1_state c = BodyContentLength r" "r > 0" | (close) "h1_state c = BodyUntilClose"
    | (chunk) r where "h1_state c = BodyChunked" "chunk_state c = ChunkData r" "r > 0"
    using body(1) inv by (cases "(h1_state c, chunk_state c)" rule: in_body_at.cases) (auto simp: h1_inv_def)
  then show ?thesis
  proof cases
    case (length r)
    then show ?thesis using move [OF length(2)] body(2) by (auto simp: h1_turn_def process_content_length_body_def)
  next
    case (chunk r)
    then show ?thesis using move [OF chunk(3)] body(2) by (auto simp: h1_turn_def process_chunked_body_def process_chunk_data_def)
  next
    case close
    have "h1_try_reserve n c = (c, Ok ())" for n using room by (simp add: h1_try_reserve_def)
    then show ?thesis using close body(2) room
      by (auto simp: h1_turn_def process_until_close_body_def h1_drain_recv_def Let_def)
  qed
qed

text \<open>
  C39: The backpressure flag of an HTTP/1.1 connection is exact, and heeding it makes progress. After every successful
  feed, \<^verbatim>\<open>body_parked\<close> is set if and only if the parser stands in a body and bytes of it wait in the receive buffer;
  so it is clear whenever the connection waits for the network, and a runner that keeps reading then never stalls.
  And whenever it is set, the data buffer has been drained by at least a byte and the allocator does not refuse, an empty
  feed takes bytes out of the receive buffer: a consumer that drains and re-drives never stalls either.
\<close>

theorem h1_body_parked_exact:
  assumes "h1_reachable K c"
  shows "(\<forall>c'. h1_feed_data K data c = (c', Ok ()) \<longrightarrow> (body_parked c' \<longleftrightarrow> in_body c' \<and> h1_recv_buf c' \<noteq> [])) \<and>
    (body_parked c \<and> length (data_buf c) < H1_DATABUF K \<and> h1_heap c = [] \<longrightarrow>
      length (h1_recv_buf (fst (h1_feed_data K [] c))) < length (h1_recv_buf c))"
proof (intro conjI allI impI)
  have inv: "h1_inv K c" using assms by (rule h1_reachable_inv)
  fix c' assume "h1_feed_data K data c = (c', Ok ())"
  then have "h1_inv K c'" "in_body c' \<and> h1_recv_buf c' \<noteq> [] \<longrightarrow> body_parked c'"
    using feed_keeps [OF inv, of data] by simp_all
  then show "body_parked c' \<longleftrightarrow> in_body c' \<and> h1_recv_buf c' \<noteq> []" using parked_in_body by blast
next
  have inv: "h1_inv K c" using assms by (rule h1_reachable_inv)
  assume p: "body_parked c \<and> length (data_buf c) < H1_DATABUF K \<and> h1_heap c = []"
  then have "in_body c" "h1_recv_buf c \<noteq> []" using parked_in_body [OF inv] by blast+
  then obtain c' again where t: "h1_turn K c = (c', Ok again)" and l: "length (h1_recv_buf c') < length (h1_recv_buf c)"
    using turn_moves [OF inv] p by blast
  have "h1_inv K c'" using h1_turn_ok [OF inv] t by (simp add: turn_ok_def)
  then have "length (h1_recv_buf (fst (h1_process_recv K c))) < length (h1_recv_buf c)"
    using h1_process_recv_recv [of K c'] l t by (cases again) (auto simp: h1_process_recv.simps [of K c])
  moreover have "h1_feed_data K [] c = h1_process_recv K c"
    using inv by (simp add: h1_feed_data_def h1_try_reserve_def h1_extend_def h1_inv_def)
  ultimately show "length (h1_recv_buf (fst (h1_feed_data K [] c))) < length (h1_recv_buf c)" by simp
qed

text \<open>A response of five bytes into three bytes of body buffer: the last two are parked, and a re-drive after a drain moves them.\<close>

definition parked_client :: h1_sys where
  "parked_client = fst (h1_feed_data small_cfg
    (ascii ''HTTP/1.1 200 OK'' @ CRLF @ ascii ''content-length: 5'' @ CRLF @ CRLF @ ascii ''abcde'') (h1_new H1Client [] [] []))"

theorem h1_body_parked_exact_witness:
  "body_parked parked_client \<and>
   length (h1_recv_buf (fst (h1_feed_data small_cfg [] (fst (h1_recv_body 0 2 parked_client))))) < length (h1_recv_buf (fst (h1_recv_body 0 2 parked_client)))"
proof -
  let ?c = "fst (h1_recv_body 0 2 parked_client)"
  have p: "body_parked parked_client" by code_simp
  have "body_parked ?c \<and> length (data_buf ?c) < H1_DATABUF small_cfg \<and> h1_heap ?c = []" by code_simp
  moreover have "h1_reachable small_cfg parked_client"
    unfolding parked_client_def by (rule h1_reachable.feed [OF h1_reachable.created prod.collapse [symmetric]])
  then have "h1_reachable small_cfg ?c" by (rule h1_reachable.recv_body [OF _ prod.collapse [symmetric]])
  ultimately show ?thesis using h1_body_parked_exact [of small_cfg ?c "[]"] p by blast
qed

end
