(* ===== verification/Http1_Messages.thy ===== *)
theory Http1_Messages
  imports Http1_Safety
begin

text \<open>
  Heads of HTTP/1.1 messages from end to end: what a client's encoder prints, a server's parser stores and its
  application reads. The last part names inputs on which the connection does not do what it means to.
\<close>

section \<open>Printing\<close>

text \<open>The header lines of a request: the authority becomes the host.\<close>

definition request_fields :: "(bytes \<times> bytes) list \<Rightarrow> (bytes \<times> bytes) list" where
  "request_fields hs =
    (let host = pseudo_header (ascii '':authority'') [] hs
     in if host \<noteq> [] then (ascii ''Host'', host) # regular_headers hs else regular_headers hs)"

definition field_line :: "bytes \<times> bytes \<Rightarrow> bytes" where
  "field_line f = fst f @ ascii '': '' @ snd f @ CRLF"

definition head_bytes :: "bytes \<Rightarrow> (bytes \<times> bytes) list \<Rightarrow> bytes" where
  "head_bytes line fs = line @ CRLF @ concat (map field_line fs) @ CRLF"

definition request_line :: "(bytes \<times> bytes) list \<Rightarrow> bytes" where
  "request_line hs = pseudo_header (ascii '':method'') (ascii ''GET'') hs @ ascii '' '' @
    pseudo_header (ascii '':path'') (ascii ''/'') hs @ ascii '' HTTP/1.1''"

lemma queue_send_fits:
  "length (h1_send_buf c) + length d \<le> H1_BUF K \<Longrightarrow> h1_heap c = [] \<Longrightarrow>
    h1_queue_send K d c = (c\<lparr>h1_send_buf := h1_send_buf c @ d\<rparr>, Ok ())"
  by (simp add: h1_queue_send_def h1_try_reserve_def h1_extend_def)

lemma queue_all_fits:
  "length (h1_send_buf c) + length (concat ds) \<le> H1_BUF K \<Longrightarrow> h1_heap c = [] \<Longrightarrow>
    queue_all K ds c = (c\<lparr>h1_send_buf := h1_send_buf c @ concat ds\<rparr>, Ok ())"
  by (induction ds arbitrary: c) (simp_all add: queue_send_fits)

lemma concat_lines: "concat (concat (map (\<lambda>(n, v). [n, ascii '': '', v, CRLF]) fs)) = concat (map field_line fs)"
  by (induction fs) (auto simp: field_line_def)

lemma concat_pieces: "concat (header_pieces hs) = concat (map field_line (regular_headers hs))"
  by (simp add: header_pieces_def concat_lines)

lemma queue_all_append: "queue_all K (xs @ ys) c = sbind (queue_all K xs c) (\<lambda>c _. queue_all K ys c)"
proof (induction xs arbitrary: c)
  case (Cons x xs)
  obtain c' r where q: "h1_queue_send K x c = (c', r)" by fastforce
  show ?case by (cases r) (simp_all add: Cons.IH q)
qed simp

lemma queue_one: "queue_all K [d] c = h1_queue_send K d c"
proof -
  obtain c' r where "h1_queue_send K d c = (c', r)" by fastforce
  then show ?thesis by (cases r) simp_all
qed

lemma encode_request_bytes:
  assumes fits: "length (h1_send_buf c) + length (head_bytes (request_line hs) (request_fields hs)) \<le> H1_BUF K" and heap: "h1_heap c = []"
  shows "encode_request K hs c = (c\<lparr>h1_send_buf := h1_send_buf c @ head_bytes (request_line hs) (request_fields hs)\<rparr>, Ok ())"
proof -
  let ?h = "pseudo_header (ascii '':authority'') [] hs"
  let ?ds = "[pseudo_header (ascii '':method'') (ascii ''GET'') hs, ascii '' '', pseudo_header (ascii '':path'') (ascii ''/'') hs,
      ascii '' HTTP/1.1'' @ CRLF] @ (if ?h \<noteq> [] then [ascii ''Host: '', ?h, CRLF] else []) @ header_pieces hs @ [CRLF]"
  have host: "field_line (ascii ''Host'', h) = ascii ''Host: '' @ h @ CRLF" for h
    by (simp add: field_line_def ascii_def)
  have "concat ?ds = head_bytes (request_line hs) (request_fields hs)"
    by (simp add: head_bytes_def request_line_def request_fields_def Let_def host concat_pieces)
  moreover have "encode_request K hs c = queue_all K ?ds c"
    by (simp only: encode_request_def Let_def queue_all_append queue_one if_distrib [of "\<lambda>ds. queue_all K ds _"] queue_all.simps(1))
  ultimately show ?thesis using queue_all_fits [of c ?ds K] fits heap by simp
qed

section \<open>Parsing what was printed\<close>

lemma window_skip: "b \<noteq> p \<Longrightarrow> window_position (p # pat) (b # bs) = map_option Suc (window_position (p # pat) bs)"
  by (cases bs) auto

lemma window_skip_all:
  "p \<notin> set xs \<Longrightarrow> window_position (p # pat) (xs @ ys) = map_option (\<lambda>i. i + length xs) (window_position (p # pat) ys)"
  by (induction xs) (auto simp del: window_position.simps(2) simp: window_skip option.map_comp comp_def option.map_ident)

text \<open>A blank line is first found behind lines that are not blank.\<close>

lemma blank_line_found:
  assumes "\<forall>l \<in> set ls. l \<noteq> [] \<and> 13 \<notin> set l" and "13 \<notin> set l"
  shows "window_position [13, 10, 13, 10] (l @ CRLF @ concat (map (\<lambda>l. l @ CRLF) ls) @ CRLF @ zs)
    = Some (length (l @ CRLF @ concat (map (\<lambda>l. l @ CRLF) ls)) - 2)"
  using assms
proof (induction ls arbitrary: l)
  case Nil
  then show ?case using window_position_first [of 13 l "[10, 13, 10]" zs] by simp
next
  case (Cons l' ls)
  let ?t = "l' @ CRLF @ concat (map (\<lambda>l. l @ CRLF) ls) @ CRLF @ zs"
  obtain x xs where l': "l' = x # xs" "x \<noteq> 13" using Cons.prems by (cases l') auto
  have "window_position [13, 10, 13, 10] (13 # 10 # ?t) = map_option (\<lambda>i. i + 2) (window_position [13, 10, 13, 10] ?t)"
  proof -
    have "window_position [13, 10, 13, 10] (13 # 10 # ?t) = map_option Suc (window_position [13, 10, 13, 10] (10 # ?t))"
      using l' by (simp del: window_position.simps(2) add: window_position.simps(2) [of _ 13])
    then show ?thesis by (simp del: window_position.simps(2) add: window_skip option.map_comp comp_def)
  qed
  moreover have "window_position [13, 10, 13, 10] ?t = Some (length (l' @ CRLF @ concat (map (\<lambda>l. l @ CRLF) ls)) - 2)"
    using Cons by simp
  ultimately show ?case using window_skip_all [of 13 l "[10, 13, 10]" "13 # 10 # ?t"] Cons.prems by simp
qed

lemma find_end_of_head:
  assumes "13 \<notin> set line" and "\<forall>(n, v) \<in> set fs. token n \<and> field_value v"
  shows "find_end_of_headers (head_bytes line fs @ zs) = Some (length (head_bytes line fs))"
proof -
  let ?ls = "map (\<lambda>f. fst f @ ascii '': '' @ snd f) fs"
  have "13 \<notin> set l \<and> l \<noteq> []" if "l \<in> set ?ls" for l
    using that assms(2) field_value_chars by (fastforce simp: token_def ascii_def)
  moreover have "concat (map (\<lambda>l. l @ CRLF) ?ls) = concat (map field_line fs)"
    by (simp add: field_line_def [abs_def] comp_def)
  ultimately show ?thesis using blank_line_found [of ?ls line zs] assms(1)
    by (simp add: find_end_of_headers_def head_bytes_def)
qed

text \<open>Stored headers: each name and each value is followed by a NUL.\<close>

definition stored :: "(bytes \<times> bytes) list \<Rightarrow> bytes" where
  "stored kvs = concat (map (\<lambda>(n, v). n @ 0 # v @ [0]) kvs)"

lemma stored_headers_stored: "\<forall>(n, v) \<in> set kvs. 0 \<notin> set n \<and> 0 \<notin> set v \<Longrightarrow> stored_headers (stored kvs) = kvs"
proof (induction kvs)
  case Nil
  then show ?case by (simp add: stored_def stored_headers.simps)
next
  case (Cons kv kvs)
  obtain n v where kv: "kv = (n, v)" by fastforce
  have "position (\<lambda>b. b = 0) (n @ 0 # v @ 0 # stored kvs) = Some (length n)"
    and "position (\<lambda>b. b = 0) (v @ 0 # stored kvs) = Some (length v)"
    using Cons.prems kv by (auto intro!: position_first)
  then show ?case using Cons kv by (subst stored_headers.simps) (simp add: stored_def Let_def)
qed

lemma store_fits:
  assumes "length (header_buf c) + (length n + 1 + length v + 1) \<le> H1_HDRBUF K" and "h1_heap c = []"
  shows "store_header_kv K n v c = (c\<lparr>header_buf := header_buf c @ stored [(n, v)]\<rparr>, Ok ())"
  using assms by (simp add: store_header_kv_def h1_try_reserve_def h1_extend_def stored_def Let_def)

definition head_framing :: "h1_cfg \<Rightarrow> (bytes \<times> bytes) list \<Rightarrow> framing \<Rightarrow> framing" where
  "head_framing K fs f = fold (\<lambda>(n, v). note_header K n v) fs f"

lemma header_loop_print:
  assumes "\<forall>(n, v) \<in> set fs. token n \<and> field_value v" and "drop offset (take e buf) = concat (map field_line fs) @ CRLF"
    and "offset \<le> e" and "e \<le> length buf" and "length (header_buf c) + length (stored fs) \<le> H1_HDRBUF K" and "h1_heap c = []"
  shows "header_loop K buf offset e f c = (c\<lparr>header_buf := header_buf c @ stored fs\<rparr>, Ok (head_framing K fs f))"
  using assms
proof (induction fs arbitrary: offset c f)
  case Nil
  then show ?case using header_end_print [of "[]"]
    by (simp add: header_loop.simps [of K buf offset] drop_take stored_def head_framing_def)
next
  case (Cons x fs)
  obtain n v where x: "x = (n, v)" by fastforce
  let ?m = "length n + length v + 4"
  have tok: "token n" "field_value v" using Cons.prems x by auto
  have sl: "slice buf offset e = Ok (field_line (n, v) @ concat (map field_line fs) @ CRLF)"
    using Cons.prems(2-4) x by (simp add: drop_take)
  have m: "length (field_line (n, v)) = ?m" by (simp add: field_line_def ascii_def)
  have d: "drop (offset + ?m) (take e buf) = concat (map field_line fs) @ CRLF"
    using arg_cong [OF Cons.prems(2), of "drop ?m"] x m by (simp add: add.commute)
  have le: "offset + ?m \<le> e" using arg_cong [OF Cons.prems(2), of length] Cons.prems(3,4) x m by simp
  have p: "parse_header_line (field_line (n, v) @ concat (map field_line fs) @ CRLF) = Ok (n, v, ?m)"
    using header_line_print [OF tok, of "concat (map field_line fs) @ CRLF"] by (simp add: field_line_def)
  have st: "store_header_kv K n v c = (c\<lparr>header_buf := header_buf c @ stored [(n, v)]\<rparr>, Ok ())"
    using Cons.prems(5,6) x by (intro store_fits) (simp_all add: stored_def)
  have z: "0 \<notin> set n" "0 \<notin> set v" "n \<noteq> []" using tok field_value_chars by (auto simp: token_def)
  have "header_loop K buf (offset + ?m) e (note_header K n v f) (c\<lparr>header_buf := header_buf c @ stored [(n, v)]\<rparr>)
      = (c\<lparr>header_buf := (header_buf c @ stored [(n, v)]) @ stored fs\<rparr>, Ok (head_framing K fs (note_header K n v f)))"
    using Cons.IH [of "offset + ?m" "c\<lparr>header_buf := header_buf c @ stored [(n, v)]\<rparr>" "note_header K n v f"]
      Cons.prems(1,4,5,6) d le x by (simp add: stored_def)
  then show ?case using sl p st z x
    by (simp add: header_loop.simps [of K buf offset] stored_def head_framing_def)
qed

section \<open>A request from end to end\<close>

definition no_framing :: framing where
  "no_framing = \<lparr>content_length = None, chunked = False, connection_close = False\<rparr>"

lemma drop_start_line:
  "drop (length l + 2) (take (length (head_bytes l fs)) (head_bytes l fs @ zs)) = concat (map field_line fs) @ CRLF"
proof -
  have "take (length (head_bytes l fs)) (head_bytes l fs @ zs) = head_bytes l fs" by simp
  then show ?thesis by (simp only:) (simp add: head_bytes_def)
qed

lemma head_bytes_length: "length l + 2 \<le> length (head_bytes l fs)"
  by (simp add: head_bytes_def)

text \<open>A turn of a server on a printed head: the stored headers, and the state of the body that follows.\<close>

lemma server_reads_head:
  assumes srv: "h1_role s = H1Server" "h1_state s = Idle" "h1_recv_buf s = head_bytes (m @ ascii '' '' @ p @ ascii '' HTTP/1.1'') fs @ zs"
    and wf: "line_word m" "line_word p" "\<forall>(n, v) \<in> set fs. token n \<and> field_value v"
    and room: "length (stored ((ascii '':method'', m) # (ascii '':path'', p) # fs)) \<le> H1_HDRBUF K" "h1_heap s = []"
    and fr: "\<not> (chunked (head_framing K fs no_framing) \<and> content_length (head_framing K fs no_framing) \<noteq> None)"
  shows "h1_turn K s = (announce_head (begin_body (head_framing K fs no_framing)
      (s\<lparr>header_buf := stored ((ascii '':method'', m) # (ascii '':path'', p) # fs), h1_recv_buf := zs,
         headers_available := True, keep_alive := \<not> connection_close (head_framing K fs no_framing)\<rparr>)), Ok True)"
proof -
  let ?line = "m @ ascii '' '' @ p @ ascii '' HTTP/1.1''"
  let ?head = "head_bytes ?line fs" and ?buf = "head_bytes ?line fs @ zs"
  let ?s = "s\<lparr>header_buf := [], headers_available := False\<rparr>"
  let ?s1 = "?s\<lparr>header_buf := stored [(ascii '':method'', m), (ascii '':path'', p)]\<rparr>"
  have a: "ascii '' '' = [32]" "length (ascii '' HTTP/1.1'') = 9" "13 \<notin> set (ascii '' HTTP/1.1'')" by (simp_all add: ascii_def)
  have e: "find_end_of_headers ?buf = Some (length ?head)"
    using wf(3) by (intro find_end_of_head) (use wf(1,2) a in \<open>auto simp: line_word_def\<close>)
  have n: "length ?line + 2 = length m + length p + 12" using a by simp
  have "parse_request_line ?head = Ok (m, p, length m + length p + 12)"
    using request_line_print [OF wf(1,2)] by (simp add: head_bytes_def)
  moreover have "store_header K m p ?s = (?s1, Ok ())"
    using room by (simp add: store_header_def store_fits stored_def)
  ultimately have st: "start_line K ?buf (length ?head) ?s = (?s1, Ok (length ?line + 2))"
    using srv(1) n by (simp add: start_line_def)
  have "header_loop K ?buf (length ?line + 2) (length ?head) no_framing ?s1
      = (?s1\<lparr>header_buf := header_buf ?s1 @ stored fs\<rparr>, Ok (head_framing K fs no_framing))"
  proof (rule header_loop_print [OF wf(3)])
    show "drop (length ?line + 2) (take (length ?head) ?buf) = concat (map field_line fs) @ CRLF"
      by (rule drop_start_line)
    show "length ?line + 2 \<le> length ?head" by (rule head_bytes_length)
  qed (use room in \<open>simp_all add: stored_def\<close>)
  then show ?thesis using srv e st fr
    by (simp add: h1_turn_def try_parse_start_line_def h1_drain_recv_def stored_def flip: no_framing_def)
qed

text \<open>With nothing behind the head, the loop stops at once.\<close>

lemma loop_stops:
  assumes "h1_recv_buf c = []" and "headers_available c" and "h1_state c \<noteq> Idle" and "h1_state c = BodyChunked \<longrightarrow> chunk_state c = ChunkSize"
  shows "h1_process_recv K c = (c, Ok ())"
proof -
  have "h1_turn K c = (c, Ok False)"
  proof (cases "h1_state c")
    case BodyChunked
    then show ?thesis using assms
      by (simp add: h1_turn_def process_chunked_body_def process_chunk_size_def parse_chunk_size_def split_line_def)
  qed (use assms in \<open>simp_all add: h1_turn_def process_content_length_body_def move_body_def process_until_close_body_def\<close>)
  then show ?thesis by (simp add: h1_process_recv.simps [of K c])
qed

lemma feed_one_turn:
  assumes "h1_recv_buf s = []" and "h1_heap s = []" and "length bs \<le> H1_BUF K"
    and "h1_turn K (s\<lparr>h1_recv_buf := bs\<rparr>) = (s', Ok True)" and "h1_process_recv K s' = (s', Ok ())"
  shows "h1_feed_data K bs s = (s', Ok ())"
proof -
  have "h1_feed_data K bs s = h1_process_recv K (s\<lparr>h1_recv_buf := bs\<rparr>)"
    using assms(1-3) by (simp add: h1_feed_data_def h1_try_reserve_def h1_extend_def)
  then show ?thesis using assms(4,5) by (simp add: h1_process_recv.simps [of K "s\<lparr>h1_recv_buf := bs\<rparr>"])
qed

lemma announced [simp]:
  "header_buf (announce_head c) = header_buf c" "headers_available (announce_head c) = headers_available c"
  "chunk_state (announce_head c) = chunk_state c"
  by (simp_all add: announce_head_def Let_def)

lemma begun [simp]:
  "header_buf (begin_body f c) = header_buf c" "headers_available (begin_body f c) = headers_available c"
  "h1_state (begin_body f c) \<noteq> Idle" "h1_state (begin_body f c) = BodyChunked \<Longrightarrow> chunk_state (begin_body f c) = ChunkSize"
  by (auto simp: begin_body_def split: option.splits if_splits)

text \<open>
  C37: A request survives the way from the client's application to the server's. Let a client open a stream with
  well-formed headers (a method and a path without blanks, carriage returns and NULs, names that are tokens, values without control characters or
  surrounding blanks) for which the send buffer has room. The bytes it has queued, fed to an idle server that has
  room for them, are accepted, and the server's application reads back the method, the path, the authority as the host,
  and the other headers, unchanged and in order. The one condition on their meaning is that the request
  does not declare both a content length and chunks.
\<close>

theorem request_roundtrip:
  fixes hs :: "(bytes \<times> bytes) list"
  defines "m \<equiv> pseudo_header (ascii '':method'') (ascii ''GET'') hs" and "p \<equiv> pseudo_header (ascii '':path'') (ascii ''/'') hs"
    and "fs \<equiv> request_fields hs"
  assumes wf: "line_word m" "line_word p" "0 \<notin> set m" "0 \<notin> set p" "\<forall>(n, v) \<in> set fs. token n \<and> field_value v"
    and framing: "\<not> (chunked (head_framing K fs no_framing) \<and> content_length (head_framing K fs no_framing) \<noteq> None)"
    and client: "h1_role c = H1Client" "h1_send_buf c = []" "h1_heap c = []"
    and server: "h1_role s = H1Server" "h1_state s = Idle" "h1_recv_buf s = []" "h1_heap s = []"
    and room: "length (head_bytes (request_line hs) fs) \<le> H1_BUF K'" "length (head_bytes (request_line hs) fs) \<le> H1_BUF K"
      "length (stored ((ascii '':method'', m) # (ascii '':path'', p) # fs)) \<le> H1_HDRBUF K"
  shows "\<exists>c' sid s'. h1_open_stream K' hs c = (c', Ok sid) \<and> h1_feed_data K (h1_send_buf c') s = (s', Ok ()) \<and>
    snd (h1_recv_headers (current_stream_id s') s') = Ok ((ascii '':method'', m) # (ascii '':path'', p) # fs)"
proof -
  let ?kvs = "(ascii '':method'', m) # (ascii '':path'', p) # fs" and ?bytes = "head_bytes (request_line hs) fs"
  have line: "request_line hs = m @ ascii '' '' @ p @ ascii '' HTTP/1.1''" by (simp add: request_line_def m_def p_def)
  obtain c' where o: "h1_open_stream K' hs c = (c', Ok (u64_add (current_stream_id c) 1))" and sent: "h1_send_buf c' = ?bytes"
    using encode_request_bytes [of "c\<lparr>current_stream_id := u64_add (current_stream_id c) 1\<rparr>" hs K'] client room(1)
    by (simp add: h1_open_stream_def h1_send_headers_def check_stream_id_def Let_def fs_def)
  let ?s = "s\<lparr>h1_recv_buf := ?bytes\<rparr>"
  obtain s' where t: "h1_turn K ?s = (s', Ok True)" and s': "header_buf s' = stored ?kvs" "headers_available s'" "h1_recv_buf s' = []"
      "h1_state s' \<noteq> Idle" "h1_state s' = BodyChunked \<longrightarrow> chunk_state s' = ChunkSize"
    using server_reads_head [of ?s m p fs "[]" K] server wf room(3) framing line by simp
  have "h1_feed_data K ?bytes s = (s', Ok ())"
    using server room(2) t loop_stops [OF s'(3,2,4,5)] by (intro feed_one_turn) auto
  moreover have "\<forall>(n, v) \<in> set ?kvs. 0 \<notin> set n \<and> 0 \<notin> set v"
    using wf field_value_chars by (fastforce simp: token_def ascii_def)
  then have "stored_headers (stored ?kvs) = ?kvs" by (rule stored_headers_stored)
  ultimately show ?thesis using o sent s'(1,2) by (simp add: h1_recv_headers_def check_stream_id_def)
qed

definition post_request :: "(bytes \<times> bytes) list" where
  "post_request = [(ascii '':method'', ascii ''POST''), (ascii '':path'', ascii ''/x''), (ascii '':authority'', ascii ''h''),
    (ascii ''a'', ascii ''b c''), (ascii ''content-length'', ascii ''0'')]"

theorem request_roundtrip_witness:
  "\<exists>c' sid s'. h1_open_stream small_cfg post_request (h1_new H1Client [] [] []) = (c', Ok sid) \<and>
    h1_feed_data small_cfg (h1_send_buf c') (h1_new H1Server [] [] []) = (s', Ok ()) \<and>
    snd (h1_recv_headers (current_stream_id s') s') =
      Ok [(ascii '':method'', ascii ''POST''), (ascii '':path'', ascii ''/x''), (ascii ''Host'', ascii ''h''), (ascii ''a'', ascii ''b c''),
        (ascii ''content-length'', ascii ''0'')]"
proof -
  have pseudo: "pseudo_header (ascii '':method'') (ascii ''GET'') post_request = ascii ''POST''"
    "pseudo_header (ascii '':path'') (ascii ''/'') post_request = ascii ''/x''"
    "request_fields post_request = [(ascii ''Host'', ascii ''h''), (ascii ''a'', ascii ''b c''), (ascii ''content-length'', ascii ''0'')]"
    by code_simp+
  show ?thesis
    by (rule request_roundtrip [of post_request small_cfg "h1_new H1Client [] [] []" "h1_new H1Server [] [] []" small_cfg, unfolded pseudo])
      code_simp+
qed

section \<open>Gaps\<close>

text \<open>
  C40: A NUL byte in the request target forges headers. Header lines with a NUL are rejected because the headers are stored
  with NUL separators, but the request line is not checked: for every method, path, name and value, a request whose target is
  the path, a NUL, the name, a NUL and the value is accepted by an idle server with room for it, and its application reads the
  path without its tail followed by a header with that name and value, which no header line of the request carries.
\<close>

theorem nul_in_target_forges_header:
  assumes words: "line_word m" "line_word (p @ [0] @ n @ [0] @ v)"
    and parts: "0 \<notin> set m" "0 \<notin> set p" "0 \<notin> set n" "0 \<notin> set v"
    and server: "h1_role s = H1Server" "h1_state s = Idle" "h1_recv_buf s = []" "h1_heap s = []"
    and room: "length m + length p + length n + length v + 18 \<le> H1_BUF K" "length m + length p + length n + length v + 18 \<le> H1_HDRBUF K"
  shows "\<exists>s'. h1_feed_data K (m @ ascii '' '' @ (p @ [0] @ n @ [0] @ v) @ ascii '' HTTP/1.1'' @ CRLF @ CRLF) s = (s', Ok ()) \<and>
    snd (h1_recv_headers (current_stream_id s') s') = Ok [(ascii '':method'', m), (ascii '':path'', p), (n, v)]"
proof -
  let ?q = "p @ [0] @ n @ [0] @ v"
  let ?bytes = "head_bytes (m @ ascii '' '' @ ?q @ ascii '' HTTP/1.1'') []"
  let ?s = "s\<lparr>h1_recv_buf := ?bytes\<rparr>"
  have bytes: "?bytes = m @ ascii '' '' @ ?q @ ascii '' HTTP/1.1'' @ CRLF @ CRLF" by (simp add: head_bytes_def)
  have len: "length ?bytes = length m + length p + length n + length v + 16"
    by (simp add: head_bytes_def ascii_def)
  have same: "stored [(ascii '':method'', m), (ascii '':path'', ?q)] = stored [(ascii '':method'', m), (ascii '':path'', p), (n, v)]"
    by (simp add: stored_def)
  have "length (stored [(ascii '':method'', m), (ascii '':path'', ?q)]) \<le> H1_HDRBUF K" using room(2) by (simp add: stored_def ascii_def)
  then obtain s' where t: "h1_turn K ?s = (s', Ok True)"
      and s': "header_buf s' = stored [(ascii '':method'', m), (ascii '':path'', ?q)]" "headers_available s'" "h1_recv_buf s' = []"
        "h1_state s' \<noteq> Idle" "h1_state s' = BodyChunked \<longrightarrow> chunk_state s' = ChunkSize"
    using server_reads_head [of ?s m ?q "[]" "[]" K] server words by (simp add: head_framing_def no_framing_def)
  have "h1_feed_data K ?bytes s = (s', Ok ())"
    using server room(1) len t loop_stops [OF s'(3,2,4,5)] by (intro feed_one_turn) (simp_all only: order.trans)
  moreover have "stored_headers (header_buf s') = [(ascii '':method'', m), (ascii '':path'', p), (n, v)]"
    unfolding s'(1) same by (rule stored_headers_stored) (use parts in \<open>auto simp: ascii_def\<close>)
  ultimately show ?thesis using s'(2) bytes by (auto simp: h1_recv_headers_def check_stream_id_def)
qed

theorem nul_in_target_forges_header_witness:
  "\<exists>s'. h1_feed_data small_cfg (ascii ''GET'' @ ascii '' '' @ (ascii ''/'' @ [0] @ ascii ''admin'' @ [0] @ ascii ''yes'') @ ascii '' HTTP/1.1'' @ CRLF @ CRLF)
      (h1_new H1Server [] [] []) = (s', Ok ()) \<and>
    snd (h1_recv_headers (current_stream_id s') s') = Ok [(ascii '':method'', ascii ''GET''), (ascii '':path'', ascii ''/''), (ascii ''admin'', ascii ''yes'')]"
  by (rule nul_in_target_forges_header) code_simp+

text \<open>
  The end of a chunked body is not seen by a reader that has drained everything before the last chunk arrives: the
  loop goes on to the next message at once and clears the flag, so \<^verbatim>\<open>recv_body\<close> would block for ever.
\<close>

lemma end_of_body_lost:
  assumes "h1_state c = BodyChunked" and "chunk_state c = ChunkTrailers" and "h1_recv_buf c = []" and "data_buf c = []"
    and "\<not> headers_available c" and "h1_heap c = []" and "2 \<le> H1_BUF K"
  shows "\<exists>c'. h1_feed_data K CRLF c = (c', Ok ()) \<and> h1_state c' = Idle \<and>
    h1_recv_body (current_stream_id c') n c' = (c', Err WouldBlock)"
proof -
  let ?c1 = "c\<lparr>h1_recv_buf := CRLF\<rparr>"
  let ?c2 = "finish_body (c\<lparr>h1_recv_buf := []\<rparr>)"
  have t1: "h1_turn K ?c1 = (?c2, Ok True)"
    using assms by (simp add: h1_turn_def process_chunked_body_def process_trailers_def h1_drain_recv_def)
  have t2: "h1_turn K ?c2 = (next_message ?c2, Ok True)" using assms by (simp add: h1_turn_def)
  have t3: "h1_turn K (next_message ?c2) = (next_message ?c2, Ok False)"
    by (simp add: h1_turn_def next_message_def try_parse_start_line_def find_end_of_headers_def)
  have "h1_process_recv K ?c1 = (next_message ?c2, Ok ())"
    by (simp add: h1_process_recv.simps [of K ?c1] h1_process_recv.simps [of K ?c2] h1_process_recv.simps [of K "next_message ?c2"]
        t1 t2 t3)
  moreover have "h1_feed_data K CRLF c = h1_process_recv K ?c1"
    using assms by (simp add: h1_feed_data_def h1_try_reserve_def h1_extend_def)
  ultimately show ?thesis using assms by (simp add: next_message_def h1_recv_body_def check_stream_id_def)
qed

text \<open>A trailer field that the network cuts makes the feed fail, where every other incomplete input is waited for.\<close>

lemma split_trailer_fails:
  assumes "h1_state c = BodyChunked" and "chunk_state c = ChunkTrailers" and "h1_recv_buf c = []" and "h1_heap c = []"
    and "length data \<le> H1_BUF K" and "13 \<notin> set data" and "2 \<le> length data"
  shows "snd (h1_feed_data K data c) = Err WouldBlock"
proof -
  let ?c = "c\<lparr>h1_recv_buf := data\<rparr>"
  have "window_position CRLF data = None" using window_skip_all [of 13 data "[10]" "[]"] assms(6) by simp
  then have "parse_header_line data = Err WouldBlock"
    using assms(6,7) by (cases data) (auto simp: parse_header_line_def split_line_def starts_with_def)
  moreover have "data ! 0 \<noteq> 13" using assms(6,7) by (cases data) auto
  ultimately have "h1_turn K ?c = (?c, Err WouldBlock)"
    using assms(1,2,7) by (simp add: h1_turn_def process_chunked_body_def process_trailers_def)
  moreover have "h1_feed_data K data c = h1_process_recv K ?c"
    using assms(3-5) by (simp add: h1_feed_data_def h1_try_reserve_def h1_extend_def)
  ultimately show ?thesis by (simp add: h1_process_recv.simps [of K ?c])
qed

text \<open>
  A content length that is no number counts as none at all, and of several the last one counts: a server takes the body
  of such a request for the next request.
\<close>

lemma bad_content_length_means_no_body:
  assumes "h1_role c = H1Server" and "parse_usize_ascii (H1_USIZE K) v = None"
    and "eq_ignore_case n (ascii ''content-length'')" and "\<not> chunked f"
  shows "h1_state (begin_body (note_header K n v f) c) = Done"
  using assms by (simp add: note_header_def begin_body_def)

lemma last_content_length_counts:
  assumes "eq_ignore_case n (ascii ''content-length'')" and "eq_ignore_case n' (ascii ''content-length'')"
  shows "note_header K n' v' (note_header K n v f) = note_header K n' v' f"
  using assms by (simp add: note_header_def)

end
