(* ===== verification/Tls_Messages.thy ===== *)
theory Tls_Messages
  imports Crypto_Keys Varint
begin

text \<open>
  TLS 1.3 handshake messages (\<^verbatim>\<open>src/tls/messages.rs\<close>). The encoders check the room once and then write at a running
  offset; the parsers slice at a running offset behind a length check of their own. Both are given over a
  cursor, with the unchecked accesses of the source kept as possible panics. The lemmas show that the
  encoders write \<open>hs_message\<close> images and that the parsers read them back.
\<close>

section \<open>Cursors\<close>

text \<open>\<^verbatim>\<open>&data[off..off + n]\<close> with \<^verbatim>\<open>off += n\<close>, and the test \<^verbatim>\<open>off + n > data.len()\<close> in front of it.\<close>

fun rd_bytes :: "nat \<Rightarrow> cursor \<Rightarrow> (bytes \<times> cursor) res" where
  "rd_bytes n (data, off) = res_bind (slice data off (off + n)) (\<lambda>bs. Ok (bs, (data, off + n)))"

fun short_of :: "nat \<Rightarrow> cursor \<Rightarrow> bool" where
  "short_of n (data, off) \<longleftrightarrow> off + n > length data"

fun rd_checked :: "nat \<Rightarrow> cursor \<Rightarrow> (bytes \<times> cursor) res" where
  "rd_checked n c = (if short_of n c then Err Tls else rd_bytes n c)"

text \<open>The state in which \<open>pre\<close> has been read.\<close>

definition rest_of :: "bytes \<Rightarrow> bytes \<Rightarrow> cursor" where
  "rest_of pre rest = (pre @ rest, length pre)"

lemma rest_of_start: "(data, 0) = rest_of [] data"
  by (simp add: rest_of_def)

lemma rd_bytes_rest: "length x = n \<Longrightarrow> rd_bytes n (rest_of pre (x @ y)) = Ok (x, rest_of (pre @ x) y)"
  by (simp add: rest_of_def)

lemma short_of_rest: "short_of n (rest_of pre rest) \<longleftrightarrow> length rest < n"
  by (auto simp: rest_of_def)

lemma rd_checked_rest: "length x = n \<Longrightarrow> rd_checked n (rest_of pre (x @ y)) = Ok (x, rest_of (pre @ x) y)"
  by (simp add: rd_bytes_rest short_of_rest)

lemma rd_bytes_panic: "rd_bytes n c = Panic \<longleftrightarrow> short_of n c"
  by (cases c) (auto simp: res_bind_eq_Panic slice_eq_Panic)

lemma rd_checked_no_panic [panic_free]: "rd_checked n c \<noteq> Panic"
  by (simp add: rd_bytes_panic)

lemma rd_bytes_length: "rd_bytes n c = Ok (bs, c') \<Longrightarrow> length bs = n \<and> fst c' = fst c \<and> snd c' = snd c + n"
  by (cases c) (auto simp: res_bind_eq_Ok slice_eq_Ok)

section \<open>Data\<close>

datatype handshake_type = ClientHello | ServerHello | EncryptedExtensions | Certificate | CertificateVerify | Finished

primrec handshake_code :: "handshake_type \<Rightarrow> byte" where
  "handshake_code ClientHello = 1"
| "handshake_code ServerHello = 2"
| "handshake_code EncryptedExtensions = 8"
| "handshake_code Certificate = 11"
| "handshake_code CertificateVerify = 15"
| "handshake_code Finished = 20"

definition handshake_from_u8 :: "byte \<Rightarrow> handshake_type option" where
  "handshake_from_u8 v =
    (if v = 1 then Some ClientHello
     else if v = 2 then Some ServerHello
     else if v = 8 then Some EncryptedExtensions
     else if v = 11 then Some Certificate
     else if v = 15 then Some CertificateVerify
     else if v = 20 then Some Finished
     else None)"

primrec suite_to_u16 :: "cipher_suite \<Rightarrow> nat" where
  "suite_to_u16 TlsAes128GcmSha256 = 0x1301"
| "suite_to_u16 TlsChacha20Poly1305Sha256 = 0x1303"

definition suite_from_u16 :: "nat \<Rightarrow> cipher_suite option" where
  "suite_from_u16 v =
    (if v = 0x1301 then Some TlsAes128GcmSha256 else if v = 0x1303 then Some TlsChacha20Poly1305Sha256 else None)"

record client_hello =
  ch_random :: bytes
  ch_session_id :: bytes
  ch_cipher_suites :: bytes
  ch_extensions :: bytes

record server_hello =
  sh_random :: bytes
  sh_session_id :: bytes
  sh_cipher_suite :: cipher_suite
  sh_extensions :: bytes

record certificate_payload =
  cert_context :: bytes
  cert_entries :: bytes

record certificate_entry =
  cert_data :: bytes
  cert_extensions :: bytes

record certificate_verify =
  cv_algorithm :: nat
  cv_signature :: bytes

section \<open>Encoders\<close>

definition write_handshake_header :: "handshake_type \<Rightarrow> nat \<Rightarrow> bytes \<Rightarrow> cursor res" where
  "write_handshake_header t body_len out =
    (if length out < 4 then Err (BufferTooSmall 4)
     else put_bytes (handshake_code t # be_bytes 3 body_len) (out, 0))"

text \<open>A message whose body is written piece by piece, after one check of the whole length.\<close>

fun put_pieces :: "bytes list \<Rightarrow> cursor \<Rightarrow> cursor res" where
  "put_pieces [] c = Ok c"
| "put_pieces (d # ds) c = res_bind (put_bytes d c) (\<lambda>c. put_pieces ds c)"

definition encode_message :: "handshake_type \<Rightarrow> nat \<Rightarrow> bytes list \<Rightarrow> bytes \<Rightarrow> cursor res" where
  "encode_message t body_len pieces out =
    (if length out < 4 + body_len then Err (BufferTooSmall (4 + body_len))
     else res_bind (write_handshake_header t body_len out) (put_pieces pieces))"

definition suite_bytes :: "cipher_suite list \<Rightarrow> bytes" where
  "suite_bytes suites = concat (map (\<lambda>cs. be_bytes 2 (suite_to_u16 cs)) suites)"

definition encode_client_hello :: "bytes \<Rightarrow> bytes \<Rightarrow> cipher_suite list \<Rightarrow> bytes \<Rightarrow> bytes \<Rightarrow> cursor res" where
  "encode_client_hello random session_id suites ext out =
    (let cs_len = length suites * 2;
         body_len = 2 + 32 + 1 + length session_id + 2 + cs_len + 2 + 2 + length ext
     in encode_message ClientHello body_len
          [[3, 3], random, [word_of_nat (length session_id)], session_id, be_bytes 2 cs_len, suite_bytes suites, [1, 0],
           be_bytes 2 (length ext), ext] out)"

definition encode_server_hello :: "bytes \<Rightarrow> bytes \<Rightarrow> cipher_suite \<Rightarrow> bytes \<Rightarrow> bytes \<Rightarrow> cursor res" where
  "encode_server_hello random session_id suite ext out =
    (let body_len = 2 + 32 + 1 + length session_id + 2 + 1 + 2 + length ext
     in encode_message ServerHello body_len
          [[3, 3], random, [word_of_nat (length session_id)], session_id, be_bytes 2 (suite_to_u16 suite), [0],
           be_bytes 2 (length ext), ext] out)"

definition encode_encrypted_extensions :: "bytes \<Rightarrow> bytes \<Rightarrow> cursor res" where
  "encode_encrypted_extensions ext out =
    encode_message EncryptedExtensions (2 + length ext) [be_bytes 2 (length ext), ext] out"

definition encode_certificate :: "bytes \<Rightarrow> bytes \<Rightarrow> cursor res" where
  "encode_certificate cert_der out =
    (let entry_len = 3 + length cert_der + 2
     in encode_message Certificate (1 + 3 + entry_len)
          [[0], be_bytes 3 entry_len, be_bytes 3 (length cert_der), cert_der, [0, 0]] out)"

definition encode_certificate_verify :: "nat \<Rightarrow> bytes \<Rightarrow> bytes \<Rightarrow> cursor res" where
  "encode_certificate_verify algorithm sig out =
    encode_message CertificateVerify (2 + 2 + length sig) [be_bytes 2 algorithm, be_bytes 2 (length sig), sig] out"

definition encode_finished :: "bytes \<Rightarrow> bytes \<Rightarrow> cursor res" where
  "encode_finished verify_data out = encode_message Finished (length verify_data) [verify_data] out"

section \<open>Parsers\<close>

definition read_handshake_header :: "bytes \<Rightarrow> (byte \<times> nat) res" where
  "read_handshake_header data =
    (if length data < 4 then Err Tls
     else res_bind (idx data 0) (\<lambda>t. res_bind (idxs data [1, 2, 3]) (\<lambda>l. Ok (t, be_nat l))))"

text \<open>The optional extensions at the end of a hello.\<close>

definition hello_extensions :: "cursor \<Rightarrow> bytes res" where
  "hello_extensions c =
    (if \<not> short_of 2 c then
       res_bind (rd_bytes 2 c) (\<lambda>(l, c).
       res_bind (rd_checked (be_nat l) c) (\<lambda>(ext, _). Ok ext))
     else Ok [])"

text \<open>The version, the random and the session id, with which both hellos begin.\<close>

definition hello_start :: "bytes \<Rightarrow> (bytes \<times> bytes \<times> cursor) res" where
  "hello_start data =
    (if length data < 2 + 32 + 1 then Err Tls
     else
       res_bind (rd_bytes 2 (data, 0)) (\<lambda>(_, c).
       res_bind (rd_bytes 32 c) (\<lambda>(random, c).
       res_bind (rd_bytes 1 c) (\<lambda>(l, c).
       res_bind (rd_checked (be_nat l) c) (\<lambda>(session_id, c). Ok (random, session_id, c))))))"

definition parse_server_hello :: "bytes \<Rightarrow> server_hello res" where
  "parse_server_hello data =
    res_bind (hello_start data) (\<lambda>(random, session_id, c).
    res_bind (rd_checked 2 c) (\<lambda>(v, c).
    res_bind (ok_or (suite_from_u16 (be_nat v)) Tls) (\<lambda>suite.
    res_bind (rd_checked 1 c) (\<lambda>(_, c).
    res_bind (hello_extensions c) (\<lambda>ext.
    Ok \<lparr>sh_random = random, sh_session_id = session_id, sh_cipher_suite = suite, sh_extensions = ext\<rparr>)))))"

definition parse_client_hello :: "bytes \<Rightarrow> client_hello res" where
  "parse_client_hello data =
    res_bind (hello_start data) (\<lambda>(random, session_id, c).
    res_bind (rd_checked 2 c) (\<lambda>(l, c).
    res_bind (rd_checked (be_nat l) c) (\<lambda>(suites, c).
    res_bind (rd_checked 1 c) (\<lambda>(l, c).
    res_bind (rd_checked (be_nat l) c) (\<lambda>(_, c).
    res_bind (hello_extensions c) (\<lambda>ext.
    Ok \<lparr>ch_random = random, ch_session_id = session_id, ch_cipher_suites = suites, ch_extensions = ext\<rparr>))))))"

definition parse_encrypted_extensions :: "bytes \<Rightarrow> bytes res" where
  "parse_encrypted_extensions data =
    (if length data < 2 then Err Tls
     else
       res_bind (rd_bytes 2 (data, 0)) (\<lambda>(l, c).
       res_bind (rd_checked (be_nat l) c) (\<lambda>(ext, _). Ok ext)))"

definition parse_certificate :: "bytes \<Rightarrow> certificate_payload res" where
  "parse_certificate data =
    (if data = [] then Err Tls
     else
       res_bind (rd_bytes 1 (data, 0)) (\<lambda>(l, c).
       res_bind (rd_checked (be_nat l) c) (\<lambda>(context, c).
       res_bind (rd_checked 3 c) (\<lambda>(l, c).
       res_bind (rd_checked (be_nat l) c) (\<lambda>(entries, _).
       Ok \<lparr>cert_context = context, cert_entries = entries\<rparr>)))))"

text \<open>The iterator over the certificate entries: nothing at the end, else the entry or the error, and the rest.\<close>

definition next_certificate_entry :: "bytes \<Rightarrow> (certificate_entry res \<times> bytes) option" where
  "next_certificate_entry data =
    (if data = [] then None
     else
       Some (case res_bind (rd_checked 3 (data, 0)) (\<lambda>(l, c).
             res_bind (rd_checked (be_nat l) c) (\<lambda>(d, c).
             res_bind (rd_checked 2 c) (\<lambda>(l, c).
             res_bind (rd_checked (be_nat l) c) (\<lambda>(ext, c).
             Ok (\<lparr>cert_data = d, cert_extensions = ext\<rparr>, c))))) of
           Ok (entry, c) \<Rightarrow> (Ok entry, drop (snd c) data)
         | Err e \<Rightarrow> (Err e, [])
         | Panic \<Rightarrow> (Panic, [])))"

definition parse_certificate_verify :: "bytes \<Rightarrow> certificate_verify res" where
  "parse_certificate_verify data =
    (if length data < 4 then Err Tls
     else
       res_bind (rd_bytes 2 (data, 0)) (\<lambda>(a, c).
       res_bind (rd_bytes 2 c) (\<lambda>(l, c).
       res_bind (rd_checked (be_nat l) c) (\<lambda>(sig, _).
       Ok \<lparr>cv_algorithm = be_nat a, cv_signature = sig\<rparr>))))"

definition parse_finished :: "bytes \<Rightarrow> bytes res" where
  "parse_finished data = (if length data < 32 then Err Tls else slice data 0 32)"

text \<open>\<^verbatim>\<open>chunks_exact(2)\<close>: an odd byte at the end is ignored.\<close>

fun iter_cipher_suites :: "bytes \<Rightarrow> nat list" where
  "iter_cipher_suites (a # b # bs) = be_nat [a, b] # iter_cipher_suites bs"
| "iter_cipher_suites _ = []"

section \<open>Images\<close>

definition hs_message :: "handshake_type \<Rightarrow> bytes \<Rightarrow> bytes" where
  "hs_message t body = handshake_code t # be_bytes 3 (length body) @ body"

lemma put_pieces_wr:
  "length out + length (concat ds) \<le> length buf \<Longrightarrow> put_pieces ds (wr buf out) = Ok (wr buf (out @ concat ds))"
  by (induction ds arbitrary: out) (simp_all add: put_bytes_wr)

lemma encode_message_wr:
  assumes "body_len = length (concat pieces)" and "4 + body_len \<le> length out"
  shows "encode_message t body_len pieces out = Ok (wr out (hs_message t (concat pieces)))"
proof -
  have "put_bytes (handshake_code t # be_bytes 3 body_len) (out, 0) = Ok (wr out (handshake_code t # be_bytes 3 body_len))"
    using put_bytes_wr [of "[]" "handshake_code t # be_bytes 3 body_len" out] assms(2)
    by (simp only: wr_start append_Nil) simp
  then show ?thesis
    using put_pieces_wr [of "handshake_code t # be_bytes 3 body_len" pieces out] assms
    by (simp add: encode_message_def write_handshake_header_def hs_message_def del: be_bytes_numeral put_bytes.simps)
qed

lemma handshake_from_code [simp]: "handshake_from_u8 (handshake_code t) = Some t"
  by (cases t) (simp_all add: handshake_from_u8_def)

lemma suite_from_to [simp]: "suite_from_u16 (suite_to_u16 cs) = Some cs"
  by (cases cs) (simp_all add: suite_from_u16_def)

lemma suite_to_u16_bound: "suite_to_u16 cs < 65536"
  by (cases cs) simp_all

text \<open>The bodies of the six messages.\<close>

definition client_hello_body :: "bytes \<Rightarrow> bytes \<Rightarrow> cipher_suite list \<Rightarrow> bytes \<Rightarrow> bytes" where
  "client_hello_body random sid suites ext =
    [3, 3] @ random @ [word_of_nat (length sid)] @ sid @ be_bytes 2 (length suites * 2) @ suite_bytes suites @ [1] @ [0] @
    be_bytes 2 (length ext) @ ext"

definition server_hello_body :: "bytes \<Rightarrow> bytes \<Rightarrow> cipher_suite \<Rightarrow> bytes \<Rightarrow> bytes" where
  "server_hello_body random sid suite ext =
    [3, 3] @ random @ [word_of_nat (length sid)] @ sid @ be_bytes 2 (suite_to_u16 suite) @ [0] @ be_bytes 2 (length ext) @ ext"

definition encrypted_extensions_body :: "bytes \<Rightarrow> bytes" where
  "encrypted_extensions_body ext = be_bytes 2 (length ext) @ ext"

definition certificate_body :: "bytes \<Rightarrow> bytes" where
  "certificate_body cert =
    [0] @ be_bytes 3 (3 + length cert + 2) @ be_bytes 3 (length cert) @ cert @ [0, 0]"

definition certificate_verify_body :: "nat \<Rightarrow> bytes \<Rightarrow> bytes" where
  "certificate_verify_body algorithm sig = be_bytes 2 algorithm @ be_bytes 2 (length sig) @ sig"

lemma length_suite_bytes [simp]: "length (suite_bytes suites) = length suites * 2"
  by (induction suites) (simp_all add: suite_bytes_def del: be_bytes_numeral)

lemmas encode_hello_defs = encode_client_hello_def encode_server_hello_def client_hello_body_def server_hello_body_def Let_def

lemma encode_client_hello_wr:
  "length random = 32 \<Longrightarrow> 4 + length (client_hello_body random sid suites ext) \<le> length out \<Longrightarrow>
    encode_client_hello random sid suites ext out = Ok (wr out (hs_message ClientHello (client_hello_body random sid suites ext)))"
  unfolding encode_hello_defs
  by (subst encode_message_wr) (simp_all del: be_bytes_numeral)

lemma encode_server_hello_wr:
  "length random = 32 \<Longrightarrow> 4 + length (server_hello_body random sid suite ext) \<le> length out \<Longrightarrow>
    encode_server_hello random sid suite ext out = Ok (wr out (hs_message ServerHello (server_hello_body random sid suite ext)))"
  unfolding encode_hello_defs
  by (subst encode_message_wr) (simp_all del: be_bytes_numeral)

lemma encode_encrypted_extensions_wr:
  "4 + length (encrypted_extensions_body ext) \<le> length out \<Longrightarrow>
    encode_encrypted_extensions ext out = Ok (wr out (hs_message EncryptedExtensions (encrypted_extensions_body ext)))"
  unfolding encode_encrypted_extensions_def encrypted_extensions_body_def
  by (subst encode_message_wr) (simp_all del: be_bytes_numeral)

lemma encode_certificate_wr:
  "4 + length (certificate_body cert) \<le> length out \<Longrightarrow>
    encode_certificate cert out = Ok (wr out (hs_message Certificate (certificate_body cert)))"
  unfolding encode_certificate_def certificate_body_def Let_def
  by (subst encode_message_wr) (simp_all del: be_bytes_numeral)

lemma encode_certificate_verify_wr:
  "4 + length (certificate_verify_body algorithm sig) \<le> length out \<Longrightarrow>
    encode_certificate_verify algorithm sig out = Ok (wr out (hs_message CertificateVerify (certificate_verify_body algorithm sig)))"
  unfolding encode_certificate_verify_def certificate_verify_body_def
  by (subst encode_message_wr) (simp_all del: be_bytes_numeral)

lemma encode_finished_wr:
  "4 + length verify_data \<le> length out \<Longrightarrow> encode_finished verify_data out = Ok (wr out (hs_message Finished verify_data))"
  unfolding encode_finished_def by (subst encode_message_wr) simp_all

section \<open>Reading back\<close>

lemma unat_byte: "n < 256 \<Longrightarrow> unat (word_of_nat n :: byte) = n"
  by (simp add: unat_of_nat)

lemma be_nat_two: "n < 65536 \<Longrightarrow> be_nat (be_bytes 2 n) = n"
  using be_nat_be_bytes [of 2 n] by (simp del: be_bytes_numeral)

lemma be_nat_three: "n < 16777216 \<Longrightarrow> be_nat (be_bytes 3 n) = n"
  using be_nat_be_bytes [of 3 n] by (simp del: be_bytes_numeral)

lemma read_header_message:
  assumes "length body < 16777216"
  shows "read_handshake_header (hs_message t body @ zs) = Ok (handshake_code t, length body)"
proof -
  have "idxs (hs_message t body @ zs) [1, 2, 3] = Ok (be_bytes 3 (length body))"
    by (simp add: idxs_def hs_message_def)
  then show ?thesis using be_nat_three [OF assms]
    by (simp add: read_handshake_header_def) (simp add: hs_message_def)
qed

lemmas reads = rest_of_start rd_bytes_rest rd_checked_rest short_of_rest

lemma hello_start_print:
  assumes "length random = 32" and "length sid < 256"
  shows "\<exists>pre. hello_start ([3, 3] @ random @ [word_of_nat (length sid)] @ sid @ rest) = Ok (random, sid, rest_of pre rest)"
  using assms unfolding hello_start_def
  by (simp add: reads unat_byte del: append_Cons rd_bytes.simps rd_checked.simps) blast

lemma hello_extensions_print:
  "length ext < 65536 \<Longrightarrow> hello_extensions (rest_of pre (be_bytes 2 (length ext) @ ext)) = Ok ext"
  using rd_checked_rest [of ext "length ext" "pre @ be_bytes 2 (length ext)" "[]"]
  by (simp add: hello_extensions_def reads be_nat_two del: be_bytes_numeral rd_bytes.simps rd_checked.simps)

lemma parse_client_hello_print:
  assumes "length random = 32" and "length sid < 256" and "length suites < 32768" and "length ext < 65536"
  shows "parse_client_hello (client_hello_body random sid suites ext)
    = Ok \<lparr>ch_random = random, ch_session_id = sid, ch_cipher_suites = suite_bytes suites, ch_extensions = ext\<rparr>"
proof -
  obtain pre where s: "hello_start (client_hello_body random sid suites ext) = Ok (random, sid, rest_of pre
      (be_bytes 2 (length suites * 2) @ suite_bytes suites @ [1] @ [0] @ be_bytes 2 (length ext) @ ext))"
    using hello_start_print [OF assms(1,2)] unfolding client_hello_body_def by blast
  show ?thesis using assms(3,4) unfolding parse_client_hello_def s
    by (simp add: reads be_nat_two hello_extensions_print del: append_Cons be_bytes_numeral rd_bytes.simps rd_checked.simps)
qed

lemma parse_server_hello_print:
  assumes "length random = 32" and "length sid < 256" and "length ext < 65536"
  shows "parse_server_hello (server_hello_body random sid suite ext)
    = Ok \<lparr>sh_random = random, sh_session_id = sid, sh_cipher_suite = suite, sh_extensions = ext\<rparr>"
proof -
  obtain pre where s: "hello_start (server_hello_body random sid suite ext) = Ok (random, sid, rest_of pre
      (be_bytes 2 (suite_to_u16 suite) @ [0] @ be_bytes 2 (length ext) @ ext))"
    using hello_start_print [OF assms(1,2)] unfolding server_hello_body_def by blast
  show ?thesis using assms(3) suite_to_u16_bound [of suite] unfolding parse_server_hello_def s
    by (simp add: reads be_nat_two hello_extensions_print del: append_Cons be_bytes_numeral rd_bytes.simps rd_checked.simps)
qed

lemma parse_encrypted_extensions_print:
  "length ext < 65536 \<Longrightarrow> parse_encrypted_extensions (encrypted_extensions_body ext) = Ok ext"
  using rd_checked_rest [of ext "length ext" "be_bytes 2 (length ext)" "[]"]
  by (simp add: parse_encrypted_extensions_def encrypted_extensions_body_def reads be_nat_two
      del: be_bytes_numeral rd_bytes.simps rd_checked.simps)

lemma first_entry_print:
  assumes "length cert < 16777211"
  shows "next_certificate_entry (be_bytes 3 (length cert) @ cert @ [0, 0]) = Some (Ok \<lparr>cert_data = cert, cert_extensions = []\<rparr>, [])"
proof -
  have z: "be_nat [0, 0] = 0" by (simp add: be_nat_def)
  have t: "rd_checked 2 (rest_of (be_bytes 3 (length cert) @ cert) ([0, 0] @ [])) = Ok ([0, 0], rest_of ((be_bytes 3 (length cert) @ cert) @ [0, 0]) [])"
    by (rule rd_checked_rest) simp
  have e: "rd_checked 0 (rest_of p []) = Ok ([], rest_of p [])" for p using rd_checked_rest [of "[]" 0 p "[]"] by simp
  show ?thesis using assms t z e
    by (simp add: next_certificate_entry_def reads be_nat_three del: append_Cons be_bytes_numeral rd_bytes.simps rd_checked.simps)
      (simp add: rest_of_def)
qed

lemma parse_certificate_print:
  assumes "length cert < 16777211"
  shows "parse_certificate (certificate_body cert) = Ok \<lparr>cert_context = [], cert_entries = be_bytes 3 (length cert) @ cert @ [0, 0]\<rparr>"
proof -
  let ?e = "be_bytes 3 (length cert) @ cert @ [0, 0]"
  have z: "be_nat [0] = 0" by (simp add: be_nat_def)
  have e: "rd_checked 0 (rest_of p r) = Ok ([], rest_of p r)" for p r using rd_checked_rest [of "[]" 0 p r] by simp
  have l: "rd_checked (length ?e) (rest_of p ?e) = Ok (?e, rest_of (p @ ?e) [])" for p using rd_checked_rest [of ?e _ p "[]"] by simp
  have "certificate_body cert = [0] @ be_bytes 3 (length ?e) @ ?e" by (simp add: certificate_body_def del: be_bytes_numeral)
  moreover have "length ?e < 16777216" using assms by (simp del: be_bytes_numeral)
  ultimately show ?thesis using z e l
    by (simp only: parse_certificate_def) (simp add: reads be_nat_three del: append_Cons append_assoc length_append be_bytes_numeral rd_bytes.simps rd_checked.simps)
qed

lemma parse_certificate_verify_print:
  "algorithm < 65536 \<Longrightarrow> length sig < 65536 \<Longrightarrow>
    parse_certificate_verify (certificate_verify_body algorithm sig) = Ok \<lparr>cv_algorithm = algorithm, cv_signature = sig\<rparr>"
  using rd_checked_rest [of sig "length sig" "be_bytes 2 algorithm @ be_bytes 2 (length sig)" "[]"]
  by (simp add: parse_certificate_verify_def certificate_verify_body_def reads be_nat_two
      del: be_bytes_numeral rd_bytes.simps rd_checked.simps)

lemma parse_finished_print: "length verify_data = 32 \<Longrightarrow> parse_finished verify_data = Ok verify_data"
  by (simp add: parse_finished_def)

lemma iter_suite_bytes: "iter_cipher_suites (suite_bytes suites) = map suite_to_u16 suites"
proof (induction suites)
  case (Cons cs suites)
  have "be_nat (be_bytes 2 (suite_to_u16 cs)) = suite_to_u16 cs" by (rule be_nat_two [OF suite_to_u16_bound])
  then show ?case using Cons by (simp add: suite_bytes_def numeral_2_eq_2 del: be_bytes_numeral)
qed (simp add: suite_bytes_def)

section \<open>Arbitrary input\<close>

text \<open>No parser of a message panics, whatever bytes it is given.\<close>

lemmas parse_panic = res_bind_eq_Panic res_bind_eq_Ok buf_Ok slice_eq_Panic slice_eq_Ok

lemma hello_start_no_panic: "hello_start data \<noteq> Panic"
  by (auto simp: hello_start_def parse_panic split: if_splits)

lemma hello_extensions_no_panic: "hello_extensions c \<noteq> Panic"
  by (cases c) (auto simp: hello_extensions_def parse_panic split: if_splits)

lemma parse_hellos_no_panic: "parse_client_hello data \<noteq> Panic" "parse_server_hello data \<noteq> Panic"
  using rd_checked_no_panic hello_start_no_panic hello_extensions_no_panic
  by (auto simp: parse_client_hello_def parse_server_hello_def res_bind_eq_Panic simp del: rd_checked.simps)

lemma parse_bodies_no_panic:
  "parse_encrypted_extensions data \<noteq> Panic" "parse_certificate data \<noteq> Panic"
  "parse_certificate_verify data \<noteq> Panic" "parse_finished data \<noteq> Panic" "read_handshake_header data \<noteq> Panic"
  by (auto simp: parse_encrypted_extensions_def parse_certificate_def parse_certificate_verify_def parse_finished_def
      read_handshake_header_def idxs_def idx_def parse_panic Suc_le_eq split: if_splits)

lemma next_entry_no_panic: "next_certificate_entry data \<noteq> Some (Panic, rest)"
  using rd_checked_no_panic
  by (auto simp: next_certificate_entry_def res_bind_eq_Panic simp del: rd_checked.simps split: res.splits)

end
