(* ===== verification/Tls_Extensions.thy ===== *)
theory Tls_Extensions
  imports Tls_Messages Transport_Params
begin

text \<open>
  TLS 1.3 extensions (\<^verbatim>\<open>src/tls/extensions.rs\<close>): their encoders, the loop over type, length and data, and what the
  three parsers take from each extension. The width of \<^verbatim>\<open>usize\<close>, on which the transport parameters depend, is an argument.
\<close>

section \<open>Data\<close>

definition EXT_SERVER_NAME :: nat where "EXT_SERVER_NAME = 0x0000"
definition EXT_SIGNATURE_ALGORITHMS :: nat where "EXT_SIGNATURE_ALGORITHMS = 0x000d"
definition EXT_ALPN :: nat where "EXT_ALPN = 0x0010"
definition EXT_SUPPORTED_VERSIONS :: nat where "EXT_SUPPORTED_VERSIONS = 0x002b"
definition EXT_KEY_SHARE :: nat where "EXT_KEY_SHARE = 0x0033"
definition EXT_QUIC_TRANSPORT_PARAMS :: nat where "EXT_QUIC_TRANSPORT_PARAMS = 0x0039"
definition EXT_RECORD_SIZE_LIMIT :: nat where "EXT_RECORD_SIZE_LIMIT = 0x001c"
definition GROUP_X25519 :: nat where "GROUP_X25519 = 0x001d"

lemmas ext_codes = EXT_SERVER_NAME_def EXT_SIGNATURE_ALGORITHMS_def EXT_ALPN_def EXT_SUPPORTED_VERSIONS_def
  EXT_KEY_SHARE_def EXT_QUIC_TRANSPORT_PARAMS_def EXT_RECORD_SIZE_LIMIT_def GROUP_X25519_def

record server_hello_extensions =
  she_selected_version :: nat
  she_key_share :: "bytes option"

record encrypted_extensions_data =
  ee_alpn :: "bytes option"
  ee_transport_params :: "transport_params option"
  ee_record_size_limit :: "nat option"

record client_hello_extensions =
  che_key_share :: "bytes option"
  che_supports_tls13 :: bool
  che_alpn_protocols :: "bytes list"
  che_transport_params :: "transport_params option"
  che_record_size_limit :: "nat option"

section \<open>Encoders\<close>

fun put_u16 :: "nat \<Rightarrow> cursor \<Rightarrow> cursor res" where
  "put_u16 v (buf, off) =
    (if length buf < off + 2 then Err (BufferTooSmall (off + 2)) else put_bytes (be_bytes 2 v) (buf, off))"

text \<open>The check of the room in front of a run of unchecked writes.\<close>

fun put_checked :: "bytes \<Rightarrow> cursor \<Rightarrow> cursor res" where
  "put_checked data (buf, off) =
    (if length buf < off + length data then Err (BufferTooSmall (off + length data)) else put_bytes data (buf, off))"

fun put_u16s :: "nat list \<Rightarrow> cursor \<Rightarrow> cursor res" where
  "put_u16s [] c = Ok c"
| "put_u16s (v # vs) c = res_bind (put_u16 v c) (put_u16s vs)"

fun put_protocols :: "bytes list \<Rightarrow> cursor \<Rightarrow> cursor res" where
  "put_protocols [] c = Ok c"
| "put_protocols (p # ps) c = res_bind (put_checked (word_of_nat (length p) # p) c) (put_protocols ps)"

definition encode_server_name :: "bytes \<Rightarrow> cursor \<Rightarrow> cursor res" where
  "encode_server_name server_name c =
    (if server_name = [] then Ok c
     else
       res_bind (put_u16s [EXT_SERVER_NAME, 2 + 1 + 2 + length server_name, 1 + 2 + length server_name] c) (\<lambda>c.
       res_bind (put_checked [0] c) (\<lambda>c.
       res_bind (put_u16 (length server_name) c) (put_checked server_name))))"

definition encode_alpn :: "bytes list \<Rightarrow> cursor \<Rightarrow> cursor res" where
  "encode_alpn protos c =
    (if protos = [] then Ok c
     else
       let list_len = sum_list (map (\<lambda>p. 1 + length p) protos)
       in res_bind (put_u16s [EXT_ALPN, 2 + list_len, list_len] c) (put_protocols protos))"

definition encode_transport_params :: "transport_params option \<Rightarrow> cursor \<Rightarrow> cursor res" where
  "encode_transport_params tp c =
    (case tp of
       None \<Rightarrow> Ok c
     | Some p \<Rightarrow>
         res_bind (params_encode p (replicate 256 0)) (\<lambda>(tp_buf, tp_len).
         res_bind (put_u16s [EXT_QUIC_TRANSPORT_PARAMS, tp_len] c) (\<lambda>c.
         res_bind (slice tp_buf 0 tp_len) (\<lambda>data. put_checked data c))))"

definition encode_record_size_limit :: "nat option \<Rightarrow> cursor \<Rightarrow> cursor res" where
  "encode_record_size_limit limit c =
    (case limit of None \<Rightarrow> Ok c | Some l \<Rightarrow> put_u16s [EXT_RECORD_SIZE_LIMIT, 2, l] c)"

definition encode_client_hello_extensions ::
  "bytes \<Rightarrow> bytes \<Rightarrow> bytes list \<Rightarrow> transport_params option \<Rightarrow> nat option \<Rightarrow> bytes \<Rightarrow> cursor res" where
  "encode_client_hello_extensions server_name public_key alpn tp limit buf =
    res_bind (encode_server_name server_name (buf, 0)) (\<lambda>c.
    res_bind (put_u16s [EXT_SUPPORTED_VERSIONS, 3] c) (\<lambda>c.
    res_bind (put_checked [2, 3, 4] c) (\<lambda>c.
    res_bind (put_u16s [EXT_KEY_SHARE, 2 + 36, 36, GROUP_X25519, 32] c) (\<lambda>c.
    res_bind (put_checked public_key c) (\<lambda>c.
    res_bind (put_u16s [EXT_SIGNATURE_ALGORITHMS, 2 + 6, 6, 0x0807, 0x0403, 0x0804] c) (\<lambda>c.
    res_bind (encode_alpn alpn c) (\<lambda>c.
    res_bind (encode_transport_params tp c) (encode_record_size_limit limit))))))))"

definition encode_server_hello_extensions :: "bytes \<Rightarrow> bytes \<Rightarrow> cursor res" where
  "encode_server_hello_extensions public_key buf =
    res_bind (put_u16s [EXT_SUPPORTED_VERSIONS, 2, 0x0304, EXT_KEY_SHARE, 36, GROUP_X25519, 32] (buf, 0)) (put_checked public_key)"

definition encode_encrypted_extensions_data ::
  "bytes \<Rightarrow> transport_params option \<Rightarrow> nat option \<Rightarrow> bytes \<Rightarrow> cursor res" where
  "encode_encrypted_extensions_data alpn tp limit buf =
    res_bind (encode_alpn (if alpn = [] then [] else [alpn]) (buf, 0)) (\<lambda>c.
    res_bind (encode_transport_params tp c) (encode_record_size_limit limit))"

section \<open>Parsers\<close>

fun get_u16 :: "cursor \<Rightarrow> (nat \<times> cursor) res" where
  "get_u16 c = res_bind (rd_checked 2 c) (\<lambda>(bs, c). Ok (be_nat bs, c))"

definition parse_record_size_limit :: "bytes \<Rightarrow> nat res" where
  "parse_record_size_limit data =
    (if length data \<noteq> 2 then Err Tls else if be_nat data < 64 then Err Tls else Ok (be_nat data))"

text \<open>The loop of all three parsers; \<open>f\<close> is the match on the type.\<close>

function ext_loop :: "(nat \<Rightarrow> bytes \<Rightarrow> 'r \<Rightarrow> 'r res) \<Rightarrow> bytes \<Rightarrow> nat \<Rightarrow> 'r \<Rightarrow> 'r res" where
  "ext_loop f data off r =
    (if off + 4 \<le> length data then
       case res_bind (get_u16 (data, off)) (\<lambda>(t, c).
            res_bind (get_u16 c) (\<lambda>(n, c).
            res_bind (rd_checked n c) (\<lambda>(d, c). Ok (t, d, snd c)))) of
         Ok (t, d, off') \<Rightarrow> res_bind (f t d r) (\<lambda>r. ext_loop f data off' r)
       | Err e \<Rightarrow> Err e
       | Panic \<Rightarrow> Panic
     else Ok r)"
  by pat_completeness auto
termination
  by (relation "measure (\<lambda>(f, data, off, r). length data - off)")
    (auto simp: res_bind_eq_Ok slice_eq_Ok split: if_splits)

declare ext_loop.simps [simp del]

definition server_hello_ext :: "nat \<Rightarrow> bytes \<Rightarrow> server_hello_extensions \<Rightarrow> server_hello_extensions res" where
  "server_hello_ext t d r =
    (if t = EXT_SUPPORTED_VERSIONS then
       res_bind (rd_checked 2 (d, 0)) (\<lambda>(v, _). Ok (r\<lparr>she_selected_version := be_nat v\<rparr>))
     else if t = EXT_KEY_SHARE then
       if length d < 4 then Err Tls
       else
         res_bind (rd_bytes 2 (d, 0)) (\<lambda>(g, c).
         res_bind (rd_bytes 2 c) (\<lambda>(l, c).
         if be_nat g \<noteq> GROUP_X25519 \<or> be_nat l \<noteq> 32 then Err Tls
         else res_bind (rd_checked 32 c) (\<lambda>(key, _). Ok (r\<lparr>she_key_share := Some key\<rparr>))))
     else Ok r)"

definition parse_server_hello_extensions :: "bytes \<Rightarrow> server_hello_extensions res" where
  "parse_server_hello_extensions data = ext_loop server_hello_ext data 0 \<lparr>she_selected_version = 0, she_key_share = None\<rparr>"

text \<open>A protocol name is copied into 16 bytes.\<close>

definition protocol_name :: "bytes \<Rightarrow> bytes res" where
  "protocol_name p = (if length p > 16 then Err Tls else Ok p)"

definition encrypted_ext :: "nat \<Rightarrow> nat \<Rightarrow> bytes \<Rightarrow> encrypted_extensions_data \<Rightarrow> encrypted_extensions_data res" where
  "encrypted_ext uw t d r =
    (if t = EXT_ALPN then
       res_bind (rd_checked 2 (d, 0)) (\<lambda>(l, c).
       res_bind (rd_checked (be_nat l) c) (\<lambda>(protos, _).
       if protos = [] then Err Tls
       else
         res_bind (rd_bytes 1 (protos, 0)) (\<lambda>(l, c).
         res_bind (rd_checked (be_nat l) c) (\<lambda>(p, _).
         res_bind (protocol_name p) (\<lambda>p. Ok (r\<lparr>ee_alpn := Some p\<rparr>))))))
     else if t = EXT_QUIC_TRANSPORT_PARAMS then
       res_bind (params_decode uw d) (\<lambda>tp. Ok (r\<lparr>ee_transport_params := Some tp\<rparr>))
     else if t = EXT_RECORD_SIZE_LIMIT then
       res_bind (parse_record_size_limit d) (\<lambda>l. Ok (r\<lparr>ee_record_size_limit := Some l\<rparr>))
     else Ok r)"

definition parse_encrypted_extensions_data :: "nat \<Rightarrow> bytes \<Rightarrow> encrypted_extensions_data res" where
  "parse_encrypted_extensions_data uw data =
    ext_loop (encrypted_ext uw) data 0 \<lparr>ee_alpn = None, ee_transport_params = None, ee_record_size_limit = None\<rparr>"

text \<open>The loops of the ClientHello, each over the part of the extension its length field names.\<close>

fun has_tls13 :: "bytes \<Rightarrow> bool" where
  "has_tls13 (a # b # vs) \<longleftrightarrow> be_nat [a, b] = 0x0304 \<or> has_tls13 vs"
| "has_tls13 _ \<longleftrightarrow> False"

function shares_loop :: "bytes \<Rightarrow> bytes option \<Rightarrow> bytes option res" where
  "shares_loop shares key =
    (if 4 \<le> length shares then
       case res_bind (rd_bytes 2 (shares, 0)) (\<lambda>(g, c).
            res_bind (rd_bytes 2 c) (\<lambda>(l, c).
            res_bind (rd_checked (be_nat l) c) (\<lambda>(k, c). Ok (be_nat g, k, snd c)))) of
         Ok (g, k, off) \<Rightarrow> shares_loop (drop off shares) (if g = GROUP_X25519 \<and> length k = 32 then Some k else key)
       | Err e \<Rightarrow> Err e
       | Panic \<Rightarrow> Panic
     else Ok key)"
  by pat_completeness auto
termination
  by (relation "measure (\<lambda>(shares, key). length shares)")
    (auto simp: res_bind_eq_Ok slice_eq_Ok split: if_splits)

declare shares_loop.simps [simp del]

function protocols_loop :: "bytes \<Rightarrow> bytes list \<Rightarrow> bytes list res" where
  "protocols_loop protos acc =
    (if protos = [] then Ok acc
     else
       case res_bind (rd_bytes 1 (protos, 0)) (\<lambda>(l, c).
            res_bind (rd_checked (be_nat l) c) (\<lambda>(p, c).
            res_bind (protocol_name p) (\<lambda>p. Ok (p, snd c)))) of
         Ok (p, off) \<Rightarrow> if length acc \<ge> 4 then Err Tls else protocols_loop (drop off protos) (acc @ [p])
       | Err e \<Rightarrow> Err e
       | Panic \<Rightarrow> Panic)"
  by pat_completeness auto
termination
  by (relation "measure (\<lambda>(protos, acc). length protos)")
    (auto simp: res_bind_eq_Ok slice_eq_Ok neq_Nil_conv split: if_splits)

declare protocols_loop.simps [simp del]

definition client_hello_ext :: "nat \<Rightarrow> nat \<Rightarrow> bytes \<Rightarrow> client_hello_extensions \<Rightarrow> client_hello_extensions res" where
  "client_hello_ext uw t d r =
    (if t = EXT_SUPPORTED_VERSIONS then
       res_bind (rd_checked 1 (d, 0)) (\<lambda>(l, c).
       res_bind (rd_checked (be_nat l) c) (\<lambda>(vs, _).
       Ok (if has_tls13 vs then r\<lparr>che_supports_tls13 := True\<rparr> else r)))
     else if t = EXT_KEY_SHARE then
       res_bind (rd_checked 2 (d, 0)) (\<lambda>(l, c).
       res_bind (rd_checked (be_nat l) c) (\<lambda>(shares, _).
       res_bind (shares_loop shares (che_key_share r)) (\<lambda>key. Ok (r\<lparr>che_key_share := key\<rparr>))))
     else if t = EXT_ALPN then
       res_bind (rd_checked 2 (d, 0)) (\<lambda>(l, c).
       res_bind (rd_checked (be_nat l) c) (\<lambda>(protos, _).
       res_bind (protocols_loop protos (che_alpn_protocols r)) (\<lambda>ps. Ok (r\<lparr>che_alpn_protocols := ps\<rparr>))))
     else if t = EXT_QUIC_TRANSPORT_PARAMS then
       res_bind (params_decode uw d) (\<lambda>tp. Ok (r\<lparr>che_transport_params := Some tp\<rparr>))
     else if t = EXT_RECORD_SIZE_LIMIT then
       res_bind (parse_record_size_limit d) (\<lambda>l. Ok (r\<lparr>che_record_size_limit := Some l\<rparr>))
     else Ok r)"

definition parse_client_hello_extensions :: "nat \<Rightarrow> bytes \<Rightarrow> client_hello_extensions res" where
  "parse_client_hello_extensions uw data =
    ext_loop (client_hello_ext uw) data 0
      \<lparr>che_key_share = None, che_supports_tls13 = False, che_alpn_protocols = [], che_transport_params = None,
       che_record_size_limit = None\<rparr>"

section \<open>Images\<close>

definition ext_image :: "nat \<times> bytes \<Rightarrow> bytes" where
  "ext_image e = be_bytes 2 (fst e) @ be_bytes 2 (length (snd e)) @ snd e"

abbreviation exts_image :: "(nat \<times> bytes) list \<Rightarrow> bytes" where
  "exts_image es \<equiv> concat (map ext_image es)"

definition protocols_image :: "bytes list \<Rightarrow> bytes" where
  "protocols_image ps = concat (map (\<lambda>p. word_of_nat (length p) # p) ps)"

definition alpn_exts :: "bytes list \<Rightarrow> (nat \<times> bytes) list" where
  "alpn_exts ps = (if ps = [] then [] else [(EXT_ALPN, be_bytes 2 (length (protocols_image ps)) @ protocols_image ps)])"

definition tp_exts :: "transport_params option \<Rightarrow> (nat \<times> bytes) list" where
  "tp_exts tp = (case tp of None \<Rightarrow> [] | Some p \<Rightarrow> [(EXT_QUIC_TRANSPORT_PARAMS, params_bytes p)])"

definition limit_exts :: "nat option \<Rightarrow> (nat \<times> bytes) list" where
  "limit_exts l = (case l of None \<Rightarrow> [] | Some l \<Rightarrow> [(EXT_RECORD_SIZE_LIMIT, be_bytes 2 l)])"

definition name_exts :: "bytes \<Rightarrow> (nat \<times> bytes) list" where
  "name_exts n = (if n = [] then [] else [(EXT_SERVER_NAME, be_bytes 2 (1 + 2 + length n) @ [0] @ be_bytes 2 (length n) @ n)])"

definition client_exts :: "bytes \<Rightarrow> bytes \<Rightarrow> bytes list \<Rightarrow> transport_params option \<Rightarrow> nat option \<Rightarrow> (nat \<times> bytes) list" where
  "client_exts n key ps tp l =
    name_exts n @ [(EXT_SUPPORTED_VERSIONS, [2, 3, 4]), (EXT_KEY_SHARE, be_bytes 2 36 @ be_bytes 2 GROUP_X25519 @ be_bytes 2 32 @ key),
      (EXT_SIGNATURE_ALGORITHMS, be_bytes 2 6 @ be_bytes 2 0x0807 @ be_bytes 2 0x0403 @ be_bytes 2 0x0804)]
    @ alpn_exts ps @ tp_exts tp @ limit_exts l"

definition server_exts :: "bytes \<Rightarrow> (nat \<times> bytes) list" where
  "server_exts key = [(EXT_SUPPORTED_VERSIONS, be_bytes 2 0x0304), (EXT_KEY_SHARE, be_bytes 2 GROUP_X25519 @ be_bytes 2 32 @ key)]"

definition encrypted_exts :: "bytes \<Rightarrow> transport_params option \<Rightarrow> nat option \<Rightarrow> (nat \<times> bytes) list" where
  "encrypted_exts alpn tp l = alpn_exts (if alpn = [] then [] else [alpn]) @ tp_exts tp @ limit_exts l"

lemma put_u16_wr: "length out + 2 \<le> length buf \<Longrightarrow> put_u16 v (wr buf out) = Ok (wr buf (out @ be_bytes 2 v))"
  using put_bytes_wr [of out "be_bytes 2 v" buf] by (simp add: wr_def del: be_bytes_numeral)

lemma put_checked_wr: "length out + length d \<le> length buf \<Longrightarrow> put_checked d (wr buf out) = Ok (wr buf (out @ d))"
  using put_bytes_wr [of out d buf] by (simp add: wr_def)

definition u16s_image :: "nat list \<Rightarrow> bytes" where
  "u16s_image vs = concat (map (be_bytes 2) vs)"

lemma u16s_image_simps [simp]:
  "u16s_image [] = []" "u16s_image (v # vs) = be_bytes 2 v @ u16s_image vs" "length (u16s_image vs) = 2 * length vs"
  by (induction vs) (simp_all add: u16s_image_def del: be_bytes_numeral)

lemma put_u16s_wr: "length out + 2 * length vs \<le> length buf \<Longrightarrow> put_u16s vs (wr buf out) = Ok (wr buf (out @ u16s_image vs))"
  by (induction vs arbitrary: out) (simp_all add: put_u16_wr del: be_bytes_numeral)

lemma put_protocols_wr:
  "length out + length (protocols_image ps) \<le> length buf \<Longrightarrow> put_protocols ps (wr buf out) = Ok (wr buf (out @ protocols_image ps))"
proof (induction ps arbitrary: out)
  case (Cons p ps)
  then show ?case using put_checked_wr [of out "word_of_nat (length p) # p" buf] by (simp add: protocols_image_def)
qed (simp add: protocols_image_def)

lemma length_protocols_image: "length (protocols_image ps) = sum_list (map (\<lambda>p. 1 + length p) ps)"
  by (induction ps) (simp_all add: protocols_image_def)

lemma small_Suc: "5 + n = Suc (Suc (Suc (Suc (Suc n))))" "(3 :: nat) = Suc (Suc (Suc 0))"
  "(8 :: nat) = Suc (Suc (Suc (Suc (Suc (Suc (Suc (Suc 0)))))))"
  by simp_all

lemmas put_wrs = put_u16_wr put_checked_wr put_u16s_wr put_protocols_wr

lemma encode_server_name_wr:
  "length out + length (exts_image (name_exts n)) \<le> length buf \<Longrightarrow>
    encode_server_name n (wr buf out) = Ok (wr buf (out @ exts_image (name_exts n)))"
  by (cases "n = []") (simp_all add: encode_server_name_def name_exts_def ext_image_def put_wrs small_Suc(1) del: be_bytes_numeral put_u16.simps put_checked.simps put_u16s.simps)

lemma encode_alpn_wr:
  "length out + length (exts_image (alpn_exts ps)) \<le> length buf \<Longrightarrow>
    encode_alpn ps (wr buf out) = Ok (wr buf (out @ exts_image (alpn_exts ps)))"
  by (cases "ps = []") (simp_all add: encode_alpn_def alpn_exts_def ext_image_def put_wrs Let_def length_protocols_image
      del: be_bytes_numeral put_u16.simps put_checked.simps put_u16s.simps)

lemma encode_record_size_limit_wr:
  "length out + length (exts_image (limit_exts l)) \<le> length buf \<Longrightarrow>
    encode_record_size_limit l (wr buf out) = Ok (wr buf (out @ exts_image (limit_exts l)))"
  by (cases l) (simp_all add: encode_record_size_limit_def limit_exts_def ext_image_def put_wrs
      del: be_bytes_numeral put_u16.simps put_checked.simps put_u16s.simps)

text \<open>Transport parameters that fit the buffer they are encoded in.\<close>

definition tp_fits :: "transport_params option \<Rightarrow> bool" where
  "tp_fits tp \<longleftrightarrow> (case tp of None \<Rightarrow> True | Some p \<Rightarrow> params_wf p \<and> length (params_bytes p) \<le> 256)"

lemma encode_transport_params_wr:
  assumes "tp_fits tp" and "length out + length (exts_image (tp_exts tp)) \<le> length buf"
  shows "encode_transport_params tp (wr buf out) = Ok (wr buf (out @ exts_image (tp_exts tp)))"
proof (cases tp)
  case (Some p)
  have "params_encode p (replicate 256 0) = Ok (wr (replicate 256 0) (params_bytes p))"
    using assms(1) Some by (intro params_encode_wr) (simp_all add: tp_fits_def)
  then show ?thesis using assms Some
    by (simp add: encode_transport_params_def tp_exts_def ext_image_def tp_fits_def wr_def [of "replicate 256 0"] put_wrs
        del: be_bytes_numeral put_u16.simps put_checked.simps put_u16s.simps)
qed (simp add: encode_transport_params_def tp_exts_def)

lemmas encode_wrs = encode_server_name_wr encode_alpn_wr encode_record_size_limit_wr encode_transport_params_wr put_wrs

lemma encode_client_hello_extensions_wr:
  assumes "tp_fits tp" and "length key = 32" and "length (exts_image (client_exts n key ps tp l)) \<le> length buf"
  shows "encode_client_hello_extensions n key ps tp l buf = Ok (wr buf (exts_image (client_exts n key ps tp l)))"
  using assms unfolding encode_client_hello_extensions_def wr_start
  by (simp add: encode_wrs client_exts_def ext_image_def small_Suc(2,3) del: be_bytes_numeral put_u16.simps put_checked.simps put_u16s.simps)

lemma encode_server_hello_extensions_wr:
  assumes "length key = 32" and "length (exts_image (server_exts key)) \<le> length buf"
  shows "encode_server_hello_extensions key buf = Ok (wr buf (exts_image (server_exts key)))"
  using assms unfolding encode_server_hello_extensions_def wr_start
  by (simp add: encode_wrs server_exts_def ext_image_def del: be_bytes_numeral put_u16.simps put_checked.simps put_u16s.simps)

lemma encode_encrypted_extensions_data_wr:
  assumes "tp_fits tp" and "length (exts_image (encrypted_exts alpn tp l)) \<le> length buf"
  shows "encode_encrypted_extensions_data alpn tp l buf = Ok (wr buf (exts_image (encrypted_exts alpn tp l)))"
  using assms unfolding encode_encrypted_extensions_data_def wr_start
  by (simp add: encode_wrs encrypted_exts_def del: be_bytes_numeral put_u16.simps put_checked.simps put_u16s.simps)

section \<open>Reading back\<close>

text \<open>The loop hands each extension of an image to the match, in order.\<close>

primrec ext_fold :: "(nat \<Rightarrow> bytes \<Rightarrow> 'r \<Rightarrow> 'r res) \<Rightarrow> (nat \<times> bytes) list \<Rightarrow> 'r \<Rightarrow> 'r res" where
  "ext_fold f [] r = Ok r"
| "ext_fold f (e # es) r = res_bind (f (fst e) (snd e) r) (ext_fold f es)"

lemma ext_fold_append: "ext_fold f (es @ es') r = res_bind (ext_fold f es r) (ext_fold f es')"
  by (induction es arbitrary: r) (auto simp: res_bind_assoc cong: res_bind_cong)

definition ext_ok :: "nat \<times> bytes \<Rightarrow> bool" where
  "ext_ok e \<longleftrightarrow> fst e < 65536 \<and> length (snd e) < 65536"

lemma length_ext_image [simp]: "length (ext_image e) = 4 + length (snd e)"
  by (simp add: ext_image_def del: be_bytes_numeral)

lemma ext_loop_image:
  assumes "list_all ext_ok es"
  shows "ext_loop f (pre @ exts_image es) (length pre) r = ext_fold f es r"
  using assms
proof (induction es arbitrary: pre r)
  case Nil
  then show ?case by (simp add: ext_loop.simps)
next
  case (Cons e es)
  obtain t d where e: "e = (t, d)" by fastforce
  have b: "t < 65536" "length d < 65536" using Cons.prems e by (auto simp: ext_ok_def)
  let ?rest = "exts_image es"
  have r: "(pre @ exts_image (e # es), length pre) = rest_of pre (be_bytes 2 t @ be_bytes 2 (length d) @ d @ ?rest)"
    by (simp add: rest_of_def e ext_image_def del: be_bytes_numeral)
  have g: "res_bind (get_u16 (pre @ exts_image (e # es), length pre)) (\<lambda>(t, c). res_bind (get_u16 c) (\<lambda>(n, c).
      res_bind (rd_checked n c) (\<lambda>(d, c). Ok (t, d, snd c)))) = Ok (t, d, length (pre @ ext_image e))"
    unfolding r using b
    by (simp add: reads be_nat_two del: be_bytes_numeral rd_checked.simps)
      (simp add: rest_of_def e ext_image_def del: be_bytes_numeral)
  have "ext_loop f (pre @ exts_image (e # es)) (length pre) r = res_bind (f t d r) (\<lambda>r. ext_loop f (pre @ exts_image (e # es)) (length (pre @ ext_image e)) r)"
    using g by (subst ext_loop.simps) simp
  moreover have "ext_loop f (pre @ exts_image (e # es)) (length (pre @ ext_image e)) r' = ext_fold f es r'" for r'
    using Cons.IH [of "pre @ ext_image e" r'] Cons.prems by simp
  ultimately show ?case by (simp add: e)
qed

lemma ext_loop_whole: "list_all ext_ok es \<Longrightarrow> ext_loop f (exts_image es) 0 r = ext_fold f es r"
  using ext_loop_image [of es f "[]" r] by simp

definition protocol_ok :: "bytes \<Rightarrow> bool" where
  "protocol_ok p \<longleftrightarrow> length p \<le> 16"

lemma protocols_loop_image:
  "list_all protocol_ok ps \<Longrightarrow> length acc + length ps \<le> 4 \<Longrightarrow> protocols_loop (protocols_image ps) acc = Ok (acc @ ps)"
proof (induction ps arbitrary: acc)
  case (Cons p ps)
  have r: "(protocols_image (p # ps), 0) = rest_of [] ([word_of_nat (length p)] @ p @ protocols_image ps)"
    by (simp add: rest_of_def protocols_image_def)
  have "length p < 256" using Cons.prems by (simp add: protocol_ok_def)
  then have g: "res_bind (rd_bytes 1 (protocols_image (p # ps), 0)) (\<lambda>(l, c). res_bind (rd_checked (be_nat l) c) (\<lambda>(p, c).
      res_bind (protocol_name p) (\<lambda>p. Ok (p, snd c)))) = Ok (p, 1 + length p)"
    unfolding r using Cons.prems
    by (simp add: reads unat_byte protocol_name_def protocol_ok_def del: append_Cons rd_bytes.simps rd_checked.simps)
      (simp add: rest_of_def)
  have d: "drop (1 + length p) (protocols_image (p # ps)) = protocols_image ps" "protocols_image (p # ps) \<noteq> []"
    by (simp_all add: protocols_image_def)
  show ?case using Cons g d by (subst protocols_loop.simps) simp
qed (simp add: protocols_image_def protocols_loop.simps)

lemma length_image_bound: "list_all protocol_ok ps \<Longrightarrow> length (protocols_image ps) \<le> 17 * length ps"
  by (induction ps) (auto simp: protocols_image_def protocol_ok_def)

text \<open>What each extension of an image adds to the result.\<close>

lemma client_name_ext: "ext_fold (client_hello_ext uw) (name_exts n) r = Ok r"
  by (simp add: name_exts_def client_hello_ext_def ext_codes)

lemma client_versions_ext: "client_hello_ext uw EXT_SUPPORTED_VERSIONS [2, 3, 4] r = Ok (r\<lparr>che_supports_tls13 := True\<rparr>)"
  by (simp add: client_hello_ext_def)

lemma share_loop_image:
  assumes "length key = 32"
  shows "shares_loop (be_bytes 2 GROUP_X25519 @ be_bytes 2 32 @ key) k = Ok (Some key)"
proof -
  let ?s = "be_bytes 2 GROUP_X25519 @ be_bytes 2 32 @ key"
  have r: "(?s, 0) = rest_of [] (be_bytes 2 GROUP_X25519 @ be_bytes 2 32 @ key @ [])" by (simp add: rest_of_def)
  have "res_bind (rd_bytes 2 (?s, 0)) (\<lambda>(g, c). res_bind (rd_bytes 2 c) (\<lambda>(l, c).
      res_bind (rd_checked (be_nat l) c) (\<lambda>(k, c). Ok (be_nat g, k, snd c)))) = Ok (GROUP_X25519, key, length ?s)"
    unfolding r using assms by (simp only: rd_bytes_rest rd_checked_rest res_bind.simps split be_nat_two length_be_bytes) (simp add: rest_of_def be_nat_two GROUP_X25519_def del: be_bytes_numeral)
  then show ?thesis using assms by (subst shares_loop.simps) (simp add: shares_loop.simps [of "[]"] del: be_bytes_numeral)
qed

lemma client_share_ext:
  assumes "length key = 32"
  shows "client_hello_ext uw EXT_KEY_SHARE (be_bytes 2 36 @ be_bytes 2 GROUP_X25519 @ be_bytes 2 32 @ key) r = Ok (r\<lparr>che_key_share := Some key\<rparr>)"
proof -
  let ?s = "be_bytes 2 GROUP_X25519 @ be_bytes 2 32 @ key"
  have "rd_checked 36 (rest_of (be_bytes 2 36) (?s @ [])) = Ok (?s, rest_of (be_bytes 2 36 @ ?s) [])"
    using assms by (intro rd_checked_rest) (simp del: be_bytes_numeral)
  then show ?thesis using share_loop_image [OF assms]
    by (simp add: client_hello_ext_def ext_codes(4,5) reads be_nat_two del: be_bytes_numeral rd_checked.simps)
qed

lemma client_alpn_ext:
  assumes "list_all protocol_ok ps" and "length ps \<le> 4" and "che_alpn_protocols r = []"
  shows "ext_fold (client_hello_ext uw) (alpn_exts ps) r = Ok (r\<lparr>che_alpn_protocols := ps\<rparr>)"
proof -
  have "length (protocols_image ps) < 65536" using length_image_bound [OF assms(1)] assms(2) by simp
  then show ?thesis using assms protocols_loop_image [of ps "[]"] rd_checked_rest [of "protocols_image ps" _ _ "[]"]
    by (simp add: alpn_exts_def client_hello_ext_def ext_codes(3,4,5) reads be_nat_two del: be_bytes_numeral rd_checked.simps)
qed

lemma client_sigs_ext: "client_hello_ext uw EXT_SIGNATURE_ALGORITHMS d r = Ok r"
  by (simp add: client_hello_ext_def ext_codes)

text \<open>Transport parameters that the peer reads back, and a record size limit that it accepts.\<close>

lemma tp_decode:
  assumes "tp_fits tp" and "8 < uw" and "tp = Some p"
  shows "params_decode uw (params_bytes p) = Ok p"
proof -
  have "(2 :: nat) ^ 9 \<le> 2 ^ uw" using assms(2) by (intro power_increasing) auto
  then show ?thesis using assms by (intro params_decode_bytes) (auto simp: tp_fits_def)
qed

lemma client_tp_ext:
  assumes "tp_fits tp" and "8 < uw"
  shows "ext_fold (client_hello_ext uw) (tp_exts tp) r = Ok (case tp of None \<Rightarrow> r | Some p \<Rightarrow> r\<lparr>che_transport_params := Some p\<rparr>)"
  using tp_decode [OF assms] by (simp add: tp_exts_def client_hello_ext_def ext_codes split: option.splits)

definition limit_ok :: "nat option \<Rightarrow> bool" where
  "limit_ok l \<longleftrightarrow> (case l of None \<Rightarrow> True | Some l \<Rightarrow> 64 \<le> l \<and> l < 65536)"

lemma parse_limit_print: "64 \<le> l \<Longrightarrow> l < 65536 \<Longrightarrow> parse_record_size_limit (be_bytes 2 l) = Ok l"
  by (simp add: parse_record_size_limit_def be_nat_two del: be_bytes_numeral)

lemma client_limit_ext:
  assumes "limit_ok l"
  shows "ext_fold (client_hello_ext uw) (limit_exts l) r = Ok (case l of None \<Rightarrow> r | Some l \<Rightarrow> r\<lparr>che_record_size_limit := Some l\<rparr>)"
  using assms parse_limit_print
  by (auto simp: limit_ok_def limit_exts_def client_hello_ext_def ext_codes simp del: be_bytes_numeral split: option.splits)

text \<open>Every extension of an image fits its length field.\<close>

lemma name_exts_ok: "length n \<le> 64 \<Longrightarrow> list_all ext_ok (name_exts n)"
  by (simp add: name_exts_def ext_ok_def ext_codes del: be_bytes_numeral)

lemma alpn_exts_ok:
  assumes "list_all protocol_ok ps" and "length ps \<le> 4"
  shows "list_all ext_ok (alpn_exts ps)"
proof -
  have "length (protocols_image ps) < 65534" using length_image_bound [OF assms(1)] assms(2) by simp
  then show ?thesis by (simp add: alpn_exts_def ext_ok_def ext_codes del: be_bytes_numeral)
qed

lemma tp_exts_ok: "tp_fits tp \<Longrightarrow> list_all ext_ok (tp_exts tp)"
  by (auto simp: tp_exts_def tp_fits_def ext_ok_def ext_codes split: option.splits)

lemma limit_exts_ok: "list_all ext_ok (limit_exts l)"
  by (simp add: limit_exts_def ext_ok_def ext_codes del: be_bytes_numeral split: option.splits)

lemmas exts_ok = name_exts_ok alpn_exts_ok tp_exts_ok limit_exts_ok

lemma parse_client_exts:
  assumes "length n \<le> 64" and "length key = 32" and "list_all protocol_ok ps" and "length ps \<le> 4"
    and "tp_fits tp" and "limit_ok l" and "8 < uw"
  shows "parse_client_hello_extensions uw (exts_image (client_exts n key ps tp l))
    = Ok \<lparr>che_key_share = Some key, che_supports_tls13 = True, che_alpn_protocols = ps, che_transport_params = tp,
          che_record_size_limit = l\<rparr>"
proof -
  have ok: "list_all ext_ok (client_exts n key ps tp l)"
    using assms exts_ok by (simp add: client_exts_def ext_ok_def ext_codes del: be_bytes_numeral)
  show ?thesis
    unfolding parse_client_hello_extensions_def ext_loop_whole [OF ok]
    using assms client_share_ext
    by (simp add: client_exts_def ext_fold_append client_name_ext client_versions_ext client_alpn_ext client_tp_ext
        client_limit_ext client_sigs_ext del: be_bytes_numeral append_Cons split: option.splits)
qed

lemma parse_server_exts:
  assumes "length key = 32"
  shows "parse_server_hello_extensions (exts_image (server_exts key)) = Ok \<lparr>she_selected_version = 0x0304, she_key_share = Some key\<rparr>"
proof -
  have ok: "list_all ext_ok (server_exts key)" using assms by (simp add: server_exts_def ext_ok_def ext_codes)
  have k: "rd_checked 32 (rest_of p key) = Ok (key, rest_of (p @ key) [])" for p
    using rd_checked_rest [of key 32 p "[]"] assms by simp
  have v: "rd_checked 2 (rest_of [] (be_bytes 2 0x0304)) = Ok (be_bytes 2 0x0304, rest_of (be_bytes 2 0x0304) [])"
    using rd_checked_rest [of "be_bytes 2 0x0304" 2 "[]" "[]"] by simp
  show ?thesis
    unfolding parse_server_hello_extensions_def ext_loop_whole [OF ok] using assms k v
    by (simp add: server_exts_def server_hello_ext_def ext_codes reads be_nat_two
        del: be_bytes_numeral rd_bytes.simps rd_checked.simps)
qed

lemma encrypted_alpn_ext:
  assumes "protocol_ok alpn"
  shows "ext_fold (encrypted_ext uw) (alpn_exts (if alpn = [] then [] else [alpn])) r
    = Ok (if alpn = [] then r else r\<lparr>ee_alpn := Some alpn\<rparr>)"
proof (cases "alpn = []")
  case False
  let ?p = "[word_of_nat (length alpn)] @ alpn"
  have i: "protocols_image [alpn] = ?p" by (simp add: protocols_image_def)
  have l: "length alpn < 256" "length ?p < 65536" using assms by (simp_all add: protocol_ok_def)
  have q: "rd_checked (length ?p) (rest_of (be_bytes 2 (length ?p)) ?p) = Ok (?p, rest_of (be_bytes 2 (length ?p) @ ?p) [])"
    using rd_checked_rest [of ?p _ _ "[]"] by simp
  have n: "rd_checked (length alpn) (rest_of [word_of_nat (length alpn)] alpn) = Ok (alpn, rest_of ?p [])"
    using rd_checked_rest [of alpn _ _ "[]"] by simp
  show ?thesis using False l q n assms
    by (simp add: alpn_exts_def i encrypted_ext_def reads be_nat_two unat_byte protocol_name_def protocol_ok_def
        del: be_bytes_numeral append_Cons length_append rd_bytes.simps rd_checked.simps)
qed (simp add: alpn_exts_def)

lemma parse_encrypted_exts:
  assumes "protocol_ok alpn" and "tp_fits tp" and "limit_ok l" and "8 < uw"
  shows "parse_encrypted_extensions_data uw (exts_image (encrypted_exts alpn tp l))
    = Ok \<lparr>ee_alpn = (if alpn = [] then None else Some alpn), ee_transport_params = tp, ee_record_size_limit = l\<rparr>"
proof -
  have ok: "list_all ext_ok (encrypted_exts alpn tp l)"
    using assms alpn_exts_ok [of "if alpn = [] then [] else [alpn]"] exts_ok(3,4) by (simp add: encrypted_exts_def)
  have t: "ext_fold (encrypted_ext uw) (tp_exts tp) r = Ok (case tp of None \<Rightarrow> r | Some p \<Rightarrow> r\<lparr>ee_transport_params := Some p\<rparr>)" for r
    using tp_decode [OF assms(2,4)] by (simp add: tp_exts_def encrypted_ext_def ext_codes split: option.splits)
  have m: "ext_fold (encrypted_ext uw) (limit_exts l) r = Ok (case l of None \<Rightarrow> r | Some l \<Rightarrow> r\<lparr>ee_record_size_limit := Some l\<rparr>)" for r
    using assms(3) parse_limit_print
    by (auto simp: limit_ok_def limit_exts_def encrypted_ext_def ext_codes simp del: be_bytes_numeral split: option.splits)
  show ?thesis
    unfolding parse_encrypted_extensions_data_def ext_loop_whole [OF ok]
    using encrypted_alpn_ext [OF assms(1)] t m
    by (simp add: encrypted_exts_def ext_fold_append split: option.splits)
qed

section \<open>Arbitrary input\<close>

text \<open>No parser of extensions panics, whatever bytes it is given, as long as \<^verbatim>\<open>usize\<close> holds a 62-bit length.\<close>

lemma ext_loop_no_panic:
  assumes "\<And>t d r. length d \<le> length data \<Longrightarrow> f t d r \<noteq> Panic"
  shows "ext_loop f data off r \<noteq> Panic"
  using assms
proof (induction f data off r rule: ext_loop.induct)
  case (1 f data off r)
  show ?case
  proof (cases "res_bind (get_u16 (data, off)) (\<lambda>(t, c). res_bind (get_u16 c) (\<lambda>(n, c).
      res_bind (rd_checked n c) (\<lambda>(d, c). Ok (t, d, snd c))))")
    case (Ok x)
    obtain t d off' where x: "x = (t, d, off')" by (cases x) auto
    have "length d \<le> length data" using Ok x by (auto simp: parse_panic split: if_splits)
    then have f: "f t d r \<noteq> Panic" by (rule 1(2))
    have "ext_loop f data off' r' \<noteq> Panic" if "off + 4 \<le> length data" "f t d r = Ok r'" for r'
      using 1(1) [OF that(1) Ok x [symmetric] refl that(2)] 1(2) by blast
    then show ?thesis using Ok x f by (subst ext_loop.simps) (auto simp: res_bind_eq_Panic simp del: get_u16.simps rd_checked.simps)
  next
    case Panic
    then show ?thesis by (auto simp: parse_panic split: if_splits)
  qed (subst ext_loop.simps, simp del: get_u16.simps rd_checked.simps)
qed

lemma shares_loop_no_panic: "shares_loop shares key \<noteq> Panic"
proof (induction "length shares" arbitrary: shares key rule: less_induct)
  case less
  show ?case
  proof (cases "res_bind (rd_bytes 2 (shares, 0)) (\<lambda>(g, c). res_bind (rd_bytes 2 c) (\<lambda>(l, c).
      res_bind (rd_checked (be_nat l) c) (\<lambda>(k, c). Ok (be_nat g, k, snd c))))")
    case (Ok x)
    obtain g k off where x: "x = (g, k, off)" by (cases x) auto
    have "4 \<le> off" using Ok x by (auto simp: parse_panic split: if_splits)
    then have "4 \<le> length shares \<Longrightarrow> shares_loop (drop off shares) key' \<noteq> Panic" for key' by (intro less) simp
    then show ?thesis using Ok x by (subst shares_loop.simps) (auto simp del: rd_bytes.simps rd_checked.simps)
  next
    case Panic
    then have "length shares < 4" by (auto simp: parse_panic split: if_splits)
    then show ?thesis by (simp add: shares_loop.simps)
  qed (subst shares_loop.simps, simp del: rd_bytes.simps rd_checked.simps)
qed

lemma protocols_loop_no_panic: "protocols_loop protos acc \<noteq> Panic"
proof (induction "length protos" arbitrary: protos acc rule: less_induct)
  case less
  show ?case
  proof (cases "res_bind (rd_bytes 1 (protos, 0)) (\<lambda>(l, c). res_bind (rd_checked (be_nat l) c) (\<lambda>(p, c).
      res_bind (protocol_name p) (\<lambda>p. Ok (p, snd c))))")
    case (Ok x)
    obtain p off where x: "x = (p, off)" by (cases x) auto
    have "1 \<le> off" using Ok x by (auto simp: parse_panic split: if_splits)
    then have "protos \<noteq> [] \<Longrightarrow> protocols_loop (drop off protos) acc' \<noteq> Panic" for acc' by (intro less) auto
    then show ?thesis using Ok x by (subst protocols_loop.simps) (auto simp del: rd_bytes.simps rd_checked.simps)
  next
    case Panic
    then have "protos = []" by (auto simp: parse_panic protocol_name_def Suc_le_eq split: if_splits)
    then show ?thesis by (simp add: protocols_loop.simps)
  qed (subst protocols_loop.simps, simp del: rd_bytes.simps rd_checked.simps)
qed

theorem extension_parsers_total:
  assumes "length data + 2 ^ 62 \<le> 2 ^ uw"
  shows "parse_client_hello_extensions uw data \<noteq> Panic" "parse_server_hello_extensions data \<noteq> Panic"
    "parse_encrypted_extensions_data uw data \<noteq> Panic"
proof -
  have tp: "params_decode uw d \<noteq> Panic" if "length d \<le> length data" for d
    using params_decode_no_panic [of d uw] assms that by simp
  have "client_hello_ext uw t d r \<noteq> Panic" if "length d \<le> length data" for t d r
    using tp [OF that] shares_loop_no_panic protocols_loop_no_panic
    by (auto simp: client_hello_ext_def parse_record_size_limit_def res_bind_eq_Panic rd_checked_no_panic
        simp del: rd_checked.simps)
  then show "parse_client_hello_extensions uw data \<noteq> Panic" unfolding parse_client_hello_extensions_def by (intro ext_loop_no_panic)
  have "server_hello_ext t d r \<noteq> Panic" for t d r
    by (auto simp: server_hello_ext_def parse_panic split: if_splits)
  then show "parse_server_hello_extensions data \<noteq> Panic" unfolding parse_server_hello_extensions_def by (intro ext_loop_no_panic)
  have "encrypted_ext uw t d r \<noteq> Panic" if "length d \<le> length data" for t d r
    using tp [OF that]
    by (auto simp: encrypted_ext_def parse_record_size_limit_def protocol_name_def parse_panic Suc_le_eq split: if_splits)
  then show "parse_encrypted_extensions_data uw data \<noteq> Panic" unfolding parse_encrypted_extensions_data_def by (intro ext_loop_no_panic)
qed

section \<open>Hellos end to end\<close>

text \<open>
  A ClientHello reaches the server as the client built it: the extensions and the message are encoded into
  their buffers, and the server reads the header, the random, the session id, the cipher suites in order of
  preference, the key share, TLS 1.3, the protocols, the transport parameters and the record size limit back.
\<close>

theorem client_hello_end_to_end:
  assumes "length name \<le> 64" and "length key = 32" and "list_all protocol_ok ps" and "length ps \<le> 4"
    and "tp_fits tp" and "limit_ok l" and "8 < uw"
    and "length random = 32" and "length sid < 256" and "length suites < 32768"
    and "length (exts_image (client_exts name key ps tp l)) \<le> length buf" and "length buf < 65536"
    and "4 + length (client_hello_body random sid suites (exts_image (client_exts name key ps tp l))) \<le> length out"
    and "length out < 16777216"
  shows "\<exists>ext m out' n ch. encode_client_hello_extensions name key ps tp l buf = Ok (ext, m) \<and>
    encode_client_hello random sid suites (take m ext) out = Ok (out', n) \<and>
    read_handshake_header out' = Ok (handshake_code ClientHello, n - 4) \<and>
    parse_client_hello (take (n - 4) (drop 4 out')) = Ok ch \<and> ch_random ch = random \<and> ch_session_id ch = sid \<and>
    iter_cipher_suites (ch_cipher_suites ch) = map suite_to_u16 suites \<and>
    parse_client_hello_extensions uw (ch_extensions ch) =
      Ok \<lparr>che_key_share = Some key, che_supports_tls13 = True, che_alpn_protocols = ps, che_transport_params = tp,
          che_record_size_limit = l\<rparr>"
proof -
  let ?x = "exts_image (client_exts name key ps tp l)"
  let ?b = "client_hello_body random sid suites ?x"
  have x: "length ?x < 65536" using assms(11,12) by simp
  have b: "length ?b < 16777216" using assms(13,14) by simp
  have m: "encode_client_hello_extensions name key ps tp l buf = Ok (?x @ drop (length ?x) buf, length ?x)"
    using encode_client_hello_extensions_wr [OF assms(5,2,11)] by (simp add: wr_def)
  moreover have "encode_client_hello random sid suites ?x out = Ok (hs_message ClientHello ?b @ drop (4 + length ?b) out, 4 + length ?b)"
    using encode_client_hello_wr [OF assms(8,13)] by (simp add: wr_def hs_message_def del: be_bytes_numeral)
  moreover note read_header_message [OF b, of ClientHello "drop (4 + length ?b) out"]
  moreover have "take (length ?b) (drop 4 (hs_message ClientHello ?b @ drop (4 + length ?b) out)) = ?b"
    by (simp add: hs_message_def)
  moreover note parse_client_hello_print [OF assms(8-10) x] parse_client_exts [OF assms(1-7)]
  ultimately show ?thesis by (simp add: iter_suite_bytes)
qed

text \<open>The same for the answer of the server.\<close>

theorem server_hello_end_to_end:
  assumes "length key = 32" and "length random = 32" and "length sid < 256"
    and "length (exts_image (server_exts key)) \<le> length buf"
    and "4 + length (server_hello_body random sid suite (exts_image (server_exts key))) \<le> length out"
    and "length out < 16777216"
  shows "\<exists>ext m out' n. encode_server_hello_extensions key buf = Ok (ext, m) \<and>
    encode_server_hello random sid suite (take m ext) out = Ok (out', n) \<and>
    read_handshake_header out' = Ok (handshake_code ServerHello, n - 4) \<and>
    parse_server_hello (take (n - 4) (drop 4 out')) =
      Ok \<lparr>sh_random = random, sh_session_id = sid, sh_cipher_suite = suite, sh_extensions = take m ext\<rparr> \<and>
    parse_server_hello_extensions (take m ext) = Ok \<lparr>she_selected_version = 0x0304, she_key_share = Some key\<rparr>"
proof -
  let ?x = "exts_image (server_exts key)"
  let ?b = "server_hello_body random sid suite ?x"
  have x: "length ?x < 65536" using assms(1) by (simp add: server_exts_def)
  have b: "length ?b < 16777216" using assms(5,6) by simp
  have "encode_server_hello_extensions key buf = Ok (?x @ drop (length ?x) buf, length ?x)"
    using encode_server_hello_extensions_wr [OF assms(1,4)] by (simp add: wr_def)
  moreover have "encode_server_hello random sid suite ?x out = Ok (hs_message ServerHello ?b @ drop (4 + length ?b) out, 4 + length ?b)"
    using encode_server_hello_wr [OF assms(2,5)] by (simp add: wr_def hs_message_def del: be_bytes_numeral)
  moreover note read_header_message [OF b, of ServerHello "drop (4 + length ?b) out"]
  moreover have "take (length ?b) (drop 4 (hs_message ServerHello ?b @ drop (4 + length ?b) out)) = ?b"
    by (simp add: hs_message_def)
  moreover note parse_server_hello_print [OF assms(2,3) x] parse_server_exts [OF assms(1)]
  ultimately show ?thesis by simp
qed

end
