(* ===== verification/Alt_Svc.thy ===== *)
theory Alt_Svc
  imports Milli_Prelude
begin

text \<open>
  The Alt-Svc header that announces HTTP/3 (\<^verbatim>\<open>src/discovery/alt_svc.rs\<close>). The formatter fills a small array with the
  digits in reverse and copies them as far as the buffer goes, so a header is exact because its length is
  computed and checked first. Ports and ages are naturals of the range of their types.
\<close>

section \<open>The code\<close>

text \<open>The constant parts: \<^verbatim>\<open>h3=":\<close>, \<^verbatim>\<open>h3="\<close>, \<^verbatim>\<open>:\<close> and \<^verbatim>\<open>"; ma=\<close>.\<close>

definition H3_PORT :: bytes where "H3_PORT = [0x68, 0x33, 0x3d, 0x22, 0x3a]"
definition H3_HOST :: bytes where "H3_HOST = [0x68, 0x33, 0x3d, 0x22]"
definition COLON :: bytes where "COLON = [0x3a]"
definition MA_PART :: bytes where "MA_PART = [0x22, 0x3b, 0x20, 0x6d, 0x61, 0x3d]"

text \<open>The digits in the order in which the loop of \<^verbatim>\<open>fmt_u32\<close> finds them, and the loop of \<^verbatim>\<open>digit_count_u32\<close>.\<close>

fun tmp_digits :: "nat \<Rightarrow> bytes" where
  "tmp_digits v = (if v = 0 then [] else word_of_nat (48 + v mod 10) # tmp_digits (v div 10))"

fun count_digits :: "nat \<Rightarrow> nat" where
  "count_digits n = (if n = 0 then 0 else 1 + count_digits (n div 10))"

declare tmp_digits.simps [simp del] count_digits.simps [simp del]

definition fmt_u32 :: "nat \<Rightarrow> bytes \<Rightarrow> bytes \<times> nat" where
  "fmt_u32 v buf =
    (if v = 0 then if buf = [] then (buf, 0) else (buf[0 := 48], 1)
     else let ds = rev (tmp_digits v); n = min (length ds) (length buf) in (take n ds @ drop n buf, n))"

definition alt_write :: "bytes \<Rightarrow> nat \<Rightarrow> bytes \<Rightarrow> (bytes \<times> nat) res" where
  "alt_write buf pos src =
    (let end_pos = pos + length src
     in if end_pos > length buf then Err (BufferTooSmall end_pos)
        else Ok (take pos buf @ src @ drop end_pos buf, end_pos))"

definition digit_count_u32 :: "nat \<Rightarrow> nat" where
  "digit_count_u32 v = (if v = 0 then 1 else count_digits v)"

definition alt_header_len :: "nat \<Rightarrow> nat \<Rightarrow> nat" where
  "alt_header_len port max_age = 5 + digit_count_u32 port + 6 + digit_count_u32 max_age"

definition header_with_host_len :: "bytes \<Rightarrow> nat \<Rightarrow> nat \<Rightarrow> nat" where
  "header_with_host_len host port max_age = 4 + length host + 1 + digit_count_u32 port + 6 + digit_count_u32 max_age"

text \<open>\<^verbatim>\<open>let n = fmt_u32(v, &mut buf[pos..]); pos += n\<close>.\<close>

definition fmt_at :: "bytes \<Rightarrow> nat \<Rightarrow> nat \<Rightarrow> (bytes \<times> nat) res" where
  "fmt_at buf pos v =
    res_bind (slice_from buf pos) (\<lambda>rest. case fmt_u32 v rest of (rest, n) \<Rightarrow> Ok (take pos buf @ rest, pos + n))"

text \<open>The port, the constant between the numbers and the age, with which both headers end.\<close>

definition alt_tail :: "nat \<Rightarrow> nat \<Rightarrow> bytes \<times> nat \<Rightarrow> (bytes \<times> nat) res" where
  "alt_tail port max_age c =
    res_bind (fmt_at (fst c) (snd c) port) (\<lambda>(buf, pos).
    res_bind (alt_write buf pos MA_PART) (\<lambda>(buf, pos).
    fmt_at buf pos max_age))"

definition alt_svc_header :: "nat \<Rightarrow> nat \<Rightarrow> bytes \<Rightarrow> (bytes \<times> nat) res" where
  "alt_svc_header port max_age buf =
    (let needed = alt_header_len port max_age
     in if length buf < needed then Err (BufferTooSmall needed)
        else res_bind (alt_write buf 0 H3_PORT) (alt_tail port max_age))"

definition alt_svc_clear :: "bytes \<Rightarrow> (bytes \<times> nat) res" where
  "alt_svc_clear buf =
    (let clear = ascii ''clear''
     in if length buf < length clear then Err (BufferTooSmall (length clear))
        else Ok (clear @ drop (length clear) buf, length clear))"

definition alt_svc_header_with_host :: "bytes \<Rightarrow> nat \<Rightarrow> nat \<Rightarrow> bytes \<Rightarrow> (bytes \<times> nat) res" where
  "alt_svc_header_with_host host port max_age buf =
    (let needed = header_with_host_len host port max_age
     in if length buf < needed then Err (BufferTooSmall needed)
        else
          res_bind (alt_write buf 0 (H3_HOST)) (\<lambda>(buf, pos).
          res_bind (alt_write buf pos host) (\<lambda>(buf, pos).
          res_bind (alt_write buf pos (COLON)) (alt_tail port max_age))))"

section \<open>Decimal numbers\<close>

definition decimal :: "nat \<Rightarrow> bytes" where
  "decimal v = (if v = 0 then [48] else rev (tmp_digits v))"

text \<open>The value a reader of the digits computes.\<close>

definition digits_value :: "bytes \<Rightarrow> nat" where
  "digits_value ds = foldl (\<lambda>v d. 10 * v + (unat d - 48)) 0 ds"

lemma length_tmp_digits: "length (tmp_digits v) = count_digits v"
  by (induction v rule: tmp_digits.induct) (subst tmp_digits.simps, subst count_digits.simps, simp)

lemma length_decimal: "length (decimal v) = digit_count_u32 v"
  by (simp add: decimal_def digit_count_u32_def length_tmp_digits)

lemma digit_byte: "unat (word_of_nat (48 + v mod 10) :: byte) = 48 + v mod 10"
proof -
  have "v mod 10 < 10" by simp
  then have "48 + v mod 10 < 256" by linarith
  then show ?thesis by (simp only: unat_of_nat) simp
qed

lemma digits_value_snoc: "digits_value (ds @ [d]) = 10 * digits_value ds + (unat d - 48)"
  by (simp add: digits_value_def)

lemma tmp_digits_value: "digits_value (rev (tmp_digits v)) = v"
proof (induction v rule: tmp_digits.induct)
  case (1 v)
  show ?case
  proof (cases "v = 0")
    case True
    then show ?thesis by (simp add: tmp_digits.simps digits_value_def)
  next
    case False
    then have "rev (tmp_digits v) = rev (tmp_digits (v div 10)) @ [word_of_nat (48 + v mod 10)]"
      by (subst tmp_digits.simps) simp
    then have "digits_value (rev (tmp_digits v)) = 10 * (v div 10) + (48 + v mod 10 - 48)"
      using 1 [OF False] by (simp only: digits_value_snoc digit_byte)
    then show ?thesis by simp
  qed
qed

text \<open>The digits are a number in base ten without leading zeros.\<close>

lemma decimal_read_back: "digits_value (decimal v) = v"
  using tmp_digits_value [of v] by (simp add: decimal_def) (simp add: digits_value_def)

lemma fmt_u32_exact: "digit_count_u32 v \<le> length buf \<Longrightarrow> fmt_u32 v buf = (decimal v @ drop (digit_count_u32 v) buf, digit_count_u32 v)"
  by (cases "v = 0"; cases buf) (simp_all add: fmt_u32_def decimal_def digit_count_u32_def length_tmp_digits Let_def flip: length_0_conv)

section \<open>Headers\<close>

text \<open>The state in which \<open>out\<close> has been written.\<close>

lemma alt_write_exact:
  "length out + length src \<le> length buf \<Longrightarrow>
    alt_write (out @ drop (length out) buf) (length out) src
      = Ok ((out @ src) @ drop (length (out @ src)) buf, length (out @ src))"
  by (simp add: alt_write_def Let_def add.commute)

lemma fmt_at_exact:
  assumes "length out + digit_count_u32 v \<le> length buf"
  shows "fmt_at (out @ drop (length out) buf) (length out) v
    = Ok ((out @ decimal v) @ drop (length (out @ decimal v)) buf, length (out @ decimal v))"
proof -
  have "digit_count_u32 v \<le> length (drop (length out) buf)" using assms by simp
  from fmt_u32_exact [OF this] show ?thesis by (simp add: fmt_at_def length_decimal add.commute)
qed

lemma alt_tail_exact:
  assumes "length out + digit_count_u32 port + 6 + digit_count_u32 max_age \<le> length buf"
  shows "alt_tail port max_age (out @ drop (length out) buf, length out)
    = Ok ((out @ decimal port @ MA_PART @ decimal max_age)
            @ drop (length (out @ decimal port @ MA_PART @ decimal max_age)) buf,
          length (out @ decimal port @ MA_PART @ decimal max_age))"
proof -
  have l: "length MA_PART = 6" by (simp add: MA_PART_def)
  have "alt_write ((out @ decimal port) @ drop (length (out @ decimal port)) buf) (length (out @ decimal port)) MA_PART
    = Ok (((out @ decimal port) @ MA_PART) @ drop (length ((out @ decimal port) @ MA_PART)) buf,
          length ((out @ decimal port) @ MA_PART))"
    using assms by (intro alt_write_exact) (simp add: l length_decimal)
  moreover have "fmt_at (((out @ decimal port) @ MA_PART) @ drop (length ((out @ decimal port) @ MA_PART)) buf)
      (length ((out @ decimal port) @ MA_PART)) max_age
    = Ok ((((out @ decimal port) @ MA_PART) @ decimal max_age)
            @ drop (length (((out @ decimal port) @ MA_PART) @ decimal max_age)) buf,
          length (((out @ decimal port) @ MA_PART) @ decimal max_age))"
    using assms by (intro fmt_at_exact) (simp add: l length_decimal)
  ultimately show ?thesis
    using fmt_at_exact [of out port buf] assms unfolding alt_tail_def by simp
qed

text \<open>
  Both headers are written exactly when they fit: nothing is cut off, and the numbers read back as the port
  and the age.
\<close>

theorem alt_svc_header_exact:
  "alt_svc_header port max_age buf =
    (let image = H3_PORT @ decimal port @ MA_PART @ decimal max_age
     in if length image \<le> length buf then Ok (image @ drop (length image) buf, length image)
        else Err (BufferTooSmall (length image)))"
proof -
  have l: "length H3_PORT = 5" "length MA_PART = 6" by (simp_all add: H3_PORT_def H3_HOST_def COLON_def MA_PART_def)
  have w: "5 \<le> length buf \<Longrightarrow> alt_write buf 0 H3_PORT = Ok (H3_PORT @ drop (length H3_PORT) buf, length H3_PORT)"
    using alt_write_exact [of "[]" "H3_PORT" buf] by (simp add: l)
  show ?thesis
    using w alt_tail_exact [of "H3_PORT" port max_age buf]
    by (auto simp: alt_svc_header_def alt_header_len_def Let_def l length_decimal add.assoc)
qed

theorem alt_svc_header_with_host_exact:
  "alt_svc_header_with_host host port max_age buf =
    (let image = H3_HOST @ host @ COLON @ decimal port @ MA_PART @ decimal max_age
     in if length image \<le> length buf then Ok (image @ drop (length image) buf, length image)
        else Err (BufferTooSmall (length image)))"
proof -
  let ?a = "H3_HOST" and ?c = "COLON"
  have l: "length ?a = 4" "length ?c = 1" "length MA_PART = 6" by (simp_all add: H3_PORT_def H3_HOST_def COLON_def MA_PART_def)
  show ?thesis
  proof (cases "length buf < header_with_host_len host port max_age")
    case False
    then have r: "4 + length host + 1 + digit_count_u32 port + 6 + digit_count_u32 max_age \<le> length buf"
      by (simp add: header_with_host_len_def)
    have "alt_write buf 0 ?a = Ok (?a @ drop (length ?a) buf, length ?a)"
      using alt_write_exact [of "[]" ?a buf] r by (simp add: l)
    moreover have "alt_write (?a @ drop (length ?a) buf) (length ?a) host = Ok ((?a @ host) @ drop (length (?a @ host)) buf, length (?a @ host))"
      using r by (intro alt_write_exact) (simp add: l)
    moreover have "alt_write ((?a @ host) @ drop (length (?a @ host)) buf) (length (?a @ host)) ?c
        = Ok (((?a @ host) @ ?c) @ drop (length ((?a @ host) @ ?c)) buf, length ((?a @ host) @ ?c))"
      using r by (intro alt_write_exact) (simp add: l)
    moreover have "length ((?a @ host) @ ?c) + digit_count_u32 port + 6 + digit_count_u32 max_age \<le> length buf"
      using r by (simp add: l)
    note alt_tail_exact [OF this]
    ultimately show ?thesis
      using False r unfolding alt_svc_header_with_host_def Let_def
      by (simp add: l length_decimal)
  qed (simp add: alt_svc_header_with_host_def header_with_host_len_def l length_decimal Let_def)
qed

end
