(* ===== verification/Spec2Isabelle.thy ===== *)
theory Spec2Isabelle
  imports Packet_Number Coalesce Frame Stream_Map Flow_Control Recovery Loss Congestion
    Recv_Pn Crypto_Reasm Stream_Io Transport_Params Connection_Gaps
    Byte_Buf Qpack H3_Frame H2_Gaps Http1_Messages
    Tls_Extensions Alt_Svc
begin

text \<open>
  Verification of milli-http, an HTTP/1.1, HTTP/2 and HTTP/3 library with its own QUIC and TLS 1.3
  for targets without an operating system (\<^verbatim>\<open>src/src\<close> in the repository).

  \<^bold>\<open>Parts and how they interact.\<close> A QUIC \<^verbatim>\<open>Connection\<close> receives a datagram, splits it into packets
  (\<^verbatim>\<open>packet/\<close>), removes packet protection with the keys of the level (\<^verbatim>\<open>connection/keys.rs\<close>,
  \<^verbatim>\<open>crypto/\<close>) and dispatches the frames (\<^verbatim>\<open>frame/\<close>) to the stream table, flow control, sent-packet
  tracking, loss detection and congestion control (\<^verbatim>\<open>transport/\<close>). CRYPTO frames feed the TLS engine
  in a slot of the handshake pool, which hands back keys and transport parameters. The transmit path
  builds packets from the state these parts keep.

  \<^bold>\<open>Theories.\<close>
  \<^item> \<open>Milli_Prelude\<close>: the error types of \<^verbatim>\<open>error.rs\<close>, the result type (\<open>Ok\<close>, \<open>Err\<close>, and \<open>Panic\<close> for an
    index, slice or assertion that fails), fixed-width arithmetic, byte strings and shared lemmas.
  \<^item> \<open>Varint\<close> (\<^verbatim>\<open>varint.rs\<close>), \<open>Packet_Number\<close>, \<open>Packet_Header\<close>, \<open>Coalesce\<close> (\<^verbatim>\<open>packet/\<close>), \<open>Frame\<close>
    (\<^verbatim>\<open>frame/mod.rs\<close>), \<open>Transport_Params\<close> (\<^verbatim>\<open>tls/transport_params.rs\<close>): encoders and decoders, that
    each decoder inverts its encoder, is total, and stays inside its buffer.
  \<^item> \<open>Stream_Map\<close>, \<open>Flow_Control\<close>, \<open>Recovery\<close>, \<open>Loss\<close>, \<open>Congestion\<close> (\<^verbatim>\<open>transport/\<close>): the state of a
    connection's transport, each with an invariant and the functional behaviour of its operations.
    Both windows of \<open>Flow_Control\<close> are instances of the interface \<open>credit_window\<close>, the stream table
    of \<open>keyed_store\<close>, the codecs of \<open>wire_codec\<close>.
  \<^item> \<open>Recv_Pn\<close>, \<open>Crypto_Reasm\<close>, \<open>Stream_Io\<close>: received packet numbers and ACK frames, reassembly of the
    handshake stream, stream buffers (\<^verbatim>\<open>connection/mod.rs\<close>, \<^verbatim>\<open>recv.rs\<close>, \<^verbatim>\<open>io.rs\<close>).
  \<^item> \<open>Crypto_Keys\<close>, \<open>Packet_Protection\<close>, \<open>Handshake_Pool\<close>: the key schedule over arbitrary primitives,
    the keys of a connection and their update, sealing and opening packets, the slots of the pool.
  \<^item> \<open>Connection\<close>, \<open>Connection_Recv\<close>, \<open>Connection_Send\<close>: the connection itself, with the calls of the
    application, timers, \<^verbatim>\<open>recv\<close> and \<^verbatim>\<open>poll_transmit\<close>. \<open>Connection_Order\<close> carries preorders on the
    state through all of them (locales \<open>endpoint_order\<close>, \<open>recv_order\<close>, \<open>send_order\<close>), \<open>Connection_Run\<close>
    states the connection as a step relation with the life cycle and the anti-amplification limit,
    and \<open>Connection_Gaps\<close> proves where the code departs from the RFCs.
  \<^item> \<open>Tls_Messages\<close> (\<^verbatim>\<open>tls/messages.rs\<close>), \<open>Tls_Extensions\<close> (\<^verbatim>\<open>tls/extensions.rs\<close>): the handshake messages
    and their extensions; a hello reaches the peer as it was built, and no parser panics on any input.
  \<^item> \<open>Byte_Buf\<close> (\<^verbatim>\<open>buf.rs\<close>): the bounded buffers of the HTTP and TLS layers, over the heap or a fixed
    slice, as instances of the interfaces \<open>byte_queue\<close> and \<open>byte_buffer\<close> (a queue in front of a parked tail).
  \<^item> \<open>Hpack_Integer\<close>, \<open>Huff_Table\<close>, \<open>Huffman\<close>, \<open>Hpack\<close> (\<^verbatim>\<open>hpack/\<close>), \<open>Qpack\<close> (\<^verbatim>\<open>h3/qpack/\<close>): header
    compression. The Huffman decoder is proved from the table through the interface \<open>prefix_code\<close>; the
    decoders read back what the encoders write (HPACK for names of at most 256 bytes), and HPACK's dynamic table follows the eviction rule of the RFC.
  \<^item> \<open>H2_Frame\<close> (\<^verbatim>\<open>h2/frame.rs\<close>), \<open>H3_Frame\<close> (\<^verbatim>\<open>h3/frame.rs\<close>): the frame codecs, instances of \<open>wire_codec\<close>.
  \<^item> \<open>Http_Common\<close> (\<^verbatim>\<open>http/\<close>): methods, status codes, timeouts and server-sent events. \<open>Alt_Svc\<close>
    (\<^verbatim>\<open>discovery/alt_svc.rs\<close>): the headers that announce HTTP/3.
  \<^item> \<open>H2_Stream\<close> (\<^verbatim>\<open>h2/flow_control.rs\<close>, \<^verbatim>\<open>h2/stream.rs\<close>), \<open>H2_Connection\<close> (\<^verbatim>\<open>h2/connection.rs\<close>,
    \<^verbatim>\<open>h2/io.rs\<close>): the HTTP/2 connection with its stream table, receive loop, flow control and calls;
    \<open>H2_Safety\<close> proves its invariants over arbitrary peers, calls and allocator answers, and \<open>H2_Gaps\<close> where it
    departs from its comments or the RFC.
  \<^item> \<open>Http1_Parse\<close> (\<^verbatim>\<open>http1/parse.rs\<close>), \<open>Http1_Connection\<close> (\<^verbatim>\<open>http1/connection.rs\<close>, \<^verbatim>\<open>http1/io.rs\<close>): the HTTP/1.1
    parsers and the connection. \<open>Http1_Body\<close> proves that a body reaches the application exactly, against a grammar
    of its framing (chunks without trailer fields); \<open>Http1_Safety\<close> that no call panics and that backpressure is reported exactly; \<open>Http1_Messages\<close>
    that requests survive the way from client to server, and which inputs are mishandled.

  \<^bold>\<open>Conventions.\<close> Bytes are 8-bit words; counters are natural numbers with the wrap-around of the
  release build written out (\<open>u64_add\<close>, \<open>u64_sub\<close>, \<open>usize_add\<close>); \<open>uw\<close> is the width of \<^verbatim>\<open>usize\<close>. A
  function that changes its receiver returns the new state, with the changes made before an error.
  The contents of an output buffer after an error are not modelled. Const generics and the \<^verbatim>\<open>alloc\<close>
  feature are fields or arguments. Loops are recursive functions with a termination proof; only the
  loop over the packets of a datagram, which does not end on some inputs when \<^verbatim>\<open>usize\<close> has 32 bits,
  is a partial function, proved to return for 64 bits.

  \<^bold>\<open>Arguments of the model.\<close> The crypto primitives are a record of functions, with \<open>aead_laws\<close> as the
  laws of AEAD and header protection where a theorem needs them (a toy provider satisfies them in the
  witnesses). The TLS engine's handling of handshake messages is an argument of the connection, so
  the connection theorems hold for every engine.

  \<^bold>\<open>Not modelled.\<close> Sockets and the event loop (\<^verbatim>\<open>server/\<close>), the cryptographic crates and certificates
  (\<^verbatim>\<open>crypto/rustcrypto.rs\<close>, \<^verbatim>\<open>x509.rs\<close>), zeroisation, logging. The
  state machine of the TLS handshake (\<^verbatim>\<open>tls/handshake.rs\<close>) and the TLS record layer (\<^verbatim>\<open>tcp_tls/\<close>), whose
  steps are calls of the crypto crates and certificate checks, the event dispatch of the HTTP/3 connection
  (\<^verbatim>\<open>h3/connection.rs\<close>) above its codecs, and the typed client and server wrappers of the three HTTP versions.
\<close>

end
